(* ===== verification/Prelude.thy ===== *)
theory Prelude
  imports Main "HOL-Library.Word" "HOL-Library.Char_ord" "HOL-Library.List_Lexorder"
begin

unbundle bit_operations_syntax

section \<open>Shared types, hints and generic lemmas\<close>

text \<open>
  Names shared by every component: the machine integers of the code as words of their
  width, C strings as lists of characters (one character is one byte of the program),
  and the generic facts on words, lists and maps that several components use.
  On the platforms the build files name, \<open>char\<close> is signed: \<open>schar\<close> is the
  promotion of a \<open>char\<close> to \<open>unsigned\<close>, \<open>uchar\<close> that of an
  \<open>unsigned char\<close>.
\<close>

type_synonym u8 = "8 word"
type_synonym u32 = "32 word"
type_synonym u64 = "64 word"

named_theorems hash_defs \<open>definitions of the hash functions\<close>
named_theorems frame_defs \<open>definitions of the message framing\<close>
named_theorems center_defs \<open>definitions of the center's handlers\<close>

abbreviation NUL :: char where
  "NUL \<equiv> CHR 0x00"

definition uchar :: "char \<Rightarrow> u32" where
  "uchar c = of_nat (of_char c)"

definition schar :: "char \<Rightarrow> u32" where
  "schar c = signed_take_bit 7 (of_nat (of_char c))"

lemma of_char_take_bit: "take_bit 8 (of_char c :: nat) = of_char c"
  by (simp add: take_bit_eq_mod)

lemma bit_uchar_less: "bit (uchar c) n \<Longrightarrow> n < 8"
  by (subst (asm) uchar_def, subst (asm) of_char_take_bit [symmetric]) (simp add: bit_simps)

lemma unat_uchar: "unat (uchar c) = of_char c"
proof -
  have "(of_char c :: nat) mod 256 = of_char c" by simp
  then have "(of_char c :: nat) < 256" by (metis mod_less_divisor zero_less_numeral)
  then have "(of_char c :: nat) < 2 ^ LENGTH(32)" by (rule less_trans) simp
  then show ?thesis unfolding uchar_def unat_of_nat by (rule mod_less)
qed

lemma uchar_inj [simp]: "uchar c = uchar d \<longleftrightarrow> c = d"
  by (metis unat_uchar of_char_eq_iff)

lemma uchar_char_of: "uchar (char_of (unat w)) = take_bit 8 (w :: u32)"
proof -
  have "uchar (char_of (unat w)) = of_nat (unat w mod 2 ^ 8)" by (simp add: uchar_def)
  also have "\<dots> = of_nat (take_bit 8 (unat w))" by (simp add: take_bit_eq_mod)
  also have "\<dots> = take_bit 8 w" by (simp add: of_nat_take_bit)
  finally show ?thesis .
qed

subsection \<open>C strings\<close>

text \<open>The part of a buffer that \<open>strlen\<close>, \<open>strcpy\<close> and \<open>strcmp\<close> see.\<close>

definition c_str :: "string \<Rightarrow> string" where
  "c_str s = takeWhile (\<lambda>c. c \<noteq> NUL) s"

definition nul_free :: "string \<Rightarrow> bool" where
  "nul_free s \<longleftrightarrow> NUL \<notin> set s"

lemma c_str_nul_free: "nul_free (c_str s)"
  unfolding nul_free_def c_str_def
  by (auto dest: set_takeWhileD)

lemma c_str_id [simp]: "nul_free s \<Longrightarrow> c_str s = s"
  by (auto simp: nul_free_def c_str_def takeWhile_eq_all_conv)

lemma c_str_append_nul [simp]: "nul_free s \<Longrightarrow> c_str (s @ NUL # t) = s"
  unfolding c_str_def nul_free_def by (subst takeWhile_append2) auto

lemma c_str_padding [simp]: "c_str (s @ replicate k NUL) = c_str s"
  by (induction s) (auto simp: c_str_def)

lemma c_str_take_drop: "c_str s = take (length (c_str s)) s"
  unfolding c_str_def by (rule takeWhile_eq_take)

lemma nul_free_simps [simp]:
  "nul_free []"
  "nul_free (c # s) \<longleftrightarrow> c \<noteq> NUL \<and> nul_free s"
  "nul_free (s @ t) \<longleftrightarrow> nul_free s \<and> nul_free t"
  by (auto simp: nul_free_def)

lemma nul_free_take: "nul_free s \<Longrightarrow> nul_free (take k s)"
  by (auto simp: nul_free_def dest: in_set_takeD)

lemma nul_free_drop: "nul_free s \<Longrightarrow> nul_free (drop k s)"
  by (auto simp: nul_free_def dest: in_set_dropD)

subsection \<open>Words\<close>

text \<open>
  A xor-shift step and a multiplication by an odd constant lose no information. The
  first is proved from the top bit downwards, the second from an explicit inverse.
\<close>

lemma xorshift_inj:
  fixes x y :: "'a::len word"
  assumes r: "0 < r" and eq: "x XOR drop_bit r x = y XOR drop_bit r y"
  shows "x = y"
proof (rule bit_word_eqI)
  have step: "bit x n = bit y n" if "bit x (n + r) = bit y (n + r)" for n
  proof -
    from eq have "bit (x XOR drop_bit r x) n = bit (y XOR drop_bit r y) n" by simp
    with that show ?thesis by (auto simp: bit_simps add.commute)
  qed
  fix n
  show "bit x n = bit y n"
  proof (induction "LENGTH('a) - n" arbitrary: n rule: less_induct)
    case less
    show ?case
    proof (cases "n < LENGTH('a)")
      case True
      with r have "LENGTH('a) - (n + r) < LENGTH('a) - n" by arith
      then show ?thesis by (rule step [OF less])
    next
      case False
      then show ?thesis by (simp add: impossible_bit)
    qed
  qed
qed

lemma xor_left_cancel_word [simp]:
  fixes a b c :: "'a::len word"
  shows "a XOR b = a XOR c \<longleftrightarrow> b = c"
  by (metis bit.xor_left_self)

lemma xor_right_cancel_word [simp]:
  fixes a b c :: "'a::len word"
  shows "b XOR a = c XOR a \<longleftrightarrow> b = c"
  by (metis bit.xor_left_self xor.commute)

lemma mult_unit_inj:
  fixes m i x y :: "'a::comm_monoid_mult"
  assumes "m * i = 1" and "x * m = y * m"
  shows "x = y"
proof -
  have "x * m * i = y * m * i" using assms(2) by simp
  with assms(1) show ?thesis by (simp add: mult.assoc)
qed

subsection \<open>Lists\<close>

lemma upt_add_Suc: "[i..<Suc (i + k)] = i # [Suc i..<Suc (i + k)]"
  by (simp add: upt_conv_Cons del: upt_Suc)

lemma find_SomeD: "find P xs = Some x \<Longrightarrow> x \<in> set xs \<and> P x"
  by (induction xs) (auto split: if_splits)

lemma filter_shorter: "length (filter P xs) < length xs \<longleftrightarrow> (\<exists>x \<in> set xs. \<not> P x)"
proof (induction xs)
  case (Cons a xs)
  have "length (filter P xs) \<le> length xs" by (rule length_filter_le)
  with Cons show ?case by (cases "P a") auto
qed simp

text \<open>The lines \<open>getline\<close> finds in the content of a file.\<close>

function getlines :: "string \<Rightarrow> string list" where
  "getlines [] = []"
| "getlines (ch # s) =
     takeWhile (\<lambda>x. x \<noteq> CHR 0x0A) (ch # s) #
       getlines (drop 1 (dropWhile (\<lambda>x. x \<noteq> CHR 0x0A) (ch # s)))"
  by pat_completeness auto

termination getlines
proof (relation "measure length")
  fix ch :: char and s :: string
  have "length (dropWhile (\<lambda>x. x \<noteq> CHR 0x0A) (ch # s)) \<le> length (ch # s)"
    by (rule length_dropWhile_le)
  then show "(drop 1 (dropWhile (\<lambda>x. x \<noteq> CHR 0x0A) (ch # s)), ch # s) \<in> measure length"
    by (simp del: dropWhile.simps)
qed simp

subsection \<open>Numbers as text\<close>

text \<open>\<open>%d\<close> of a number that is not negative.\<close>

definition digit :: "nat \<Rightarrow> char" where
  "digit n = char_of (48 + n mod 10)"

fun decimal :: "nat \<Rightarrow> string" where
  "decimal n = (if n < 10 then [digit n] else decimal (n div 10) @ [digit n])"

declare decimal.simps [simp del]

end
