(* ===== verification/Hashing.thy ===== *)
theory Hashing
  imports Prelude
begin

section \<open>The hash functions of util/rpc\_util.cpp\<close>

text \<open>
  \<open>BKDRHash\<close> gives a method name its call id, \<open>MurMurHash2\<close> places servers and
  centers on the hash rings. Both are translated over the bytes of the argument in
  32-bit arithmetic. The lemmas show the range of the first and its polynomial form,
  and that the second mixes each aligned four-byte block without loss.
\<close>

subsection \<open>BKDRHash\<close>

text \<open>The loop runs to the terminating NUL of the argument, or to the list's end.\<close>

fun bkdr_loop :: "u32 \<Rightarrow> string \<Rightarrow> u32" where
  "bkdr_loop hash_code [] = hash_code"
| "bkdr_loop hash_code (c # orig_str) =
     (if c = NUL then hash_code else bkdr_loop (hash_code * 1313 + schar c) orig_str)"

definition BKDRHash :: "string \<Rightarrow> u32" where
  "BKDRHash orig_str = bkdr_loop 0 orig_str AND 0x7FFFFFFF"

subsection \<open>MurMurHash2\<close>

definition murmur_m :: u32 where
  "murmur_m = 0x5bd1e995"

text \<open>The unaligned load of an \<open>unsigned int\<close>, little-endian.\<close>

definition load32 :: "char \<Rightarrow> char \<Rightarrow> char \<Rightarrow> char \<Rightarrow> u32" where
  "load32 a b c d =
     uchar a OR push_bit 8 (uchar b) OR push_bit 16 (uchar c) OR push_bit 24 (uchar d)"

definition murmur_k :: "u32 \<Rightarrow> u32" where
  "murmur_k k0 = (let k1 = k0 * murmur_m; k2 = k1 XOR drop_bit 24 k1 in k2 * murmur_m)"

text \<open>
  The loop over four bytes at a time, then the fall-through switch on the rest. The
  clauses are tried in the order of the code: the loop first.
\<close>

fun murmur_body :: "u32 \<Rightarrow> string \<Rightarrow> u32" where
  "murmur_body h (a # b # c # d # data) =
     murmur_body ((h * murmur_m) XOR murmur_k (load32 a b c d)) data"
| "murmur_body h [a, b, c] =
     (((h XOR push_bit 16 (uchar c)) XOR push_bit 8 (uchar b)) XOR uchar a) * murmur_m"
| "murmur_body h [a, b] = ((h XOR push_bit 8 (uchar b)) XOR uchar a) * murmur_m"
| "murmur_body h [a] = (h XOR uchar a) * murmur_m"
| "murmur_body h [] = h"

definition murmur_final :: "u32 \<Rightarrow> u32" where
  "murmur_final h0 =
     (let h1 = h0 XOR drop_bit 13 h0; h2 = h1 * murmur_m in h2 XOR drop_bit 15 h2)"

definition MurMurHash2 :: "string \<Rightarrow> u32" where
  "MurMurHash2 key_str = murmur_final (murmur_body (97 XOR of_nat (length key_str)) key_str)"

lemmas [hash_defs] = BKDRHash_def MurMurHash2_def murmur_final_def murmur_k_def

subsection \<open>Facts about BKDRHash\<close>

lemma BKDRHash_c_str: "BKDRHash (c_str s) = BKDRHash s"
proof -
  have "bkdr_loop h (c_str s) = bkdr_loop h s" for h
    by (induction s arbitrary: h) (auto simp: c_str_def)
  then show ?thesis by (simp add: BKDRHash_def)
qed

lemma bkdr_loop_append: "nul_free s \<Longrightarrow> bkdr_loop h (s @ t) = bkdr_loop (bkdr_loop h s) t"
  by (induction s arbitrary: h) auto

text \<open>The reference: the name read as a polynomial in the seed, highest power first.\<close>

primrec bkdr_poly :: "string \<Rightarrow> u32" where
  "bkdr_poly [] = 0"
| "bkdr_poly (c # s) = schar c * 1313 ^ length s + bkdr_poly s"

lemma bkdr_loop_poly: "nul_free s \<Longrightarrow> bkdr_loop h s = h * 1313 ^ length s + bkdr_poly s"
  by (induction s arbitrary: h) (auto simp: algebra_simps)

lemma BKDRHash_poly: "nul_free s \<Longrightarrow> BKDRHash s = bkdr_poly s AND 0x7FFFFFFF"
  by (simp add: BKDRHash_def bkdr_loop_poly)

lemma BKDRHash_less: "unat (BKDRHash s) < 2 ^ 31"
proof -
  have "bkdr_loop 0 s AND 0x7FFFFFFF \<le> (0x7FFFFFFF :: u32)" by (rule word_and_le1)
  then have "unat (bkdr_loop 0 s AND 0x7FFFFFFF) \<le> unat (0x7FFFFFFF :: u32)"
    by (simp only: word_le_nat_alt)
  then show ?thesis by (simp add: BKDRHash_def)
qed

subsection \<open>Facts about MurMurHash2\<close>

text \<open>The multiplier is odd: \<open>0xE59B19BD\<close> is its inverse modulo \<open>2 ^ 32\<close>.\<close>

lemma murmur_m_unit: "murmur_m * 0xE59B19BD = 1"
  by (simp add: murmur_m_def)

lemmas murmur_m_inj = mult_unit_inj [OF murmur_m_unit]

lemma murmur_m_cancel [simp]: "x * murmur_m = y * murmur_m \<longleftrightarrow> x = y"
  by (auto dest: murmur_m_inj)

lemma xorshift_cancel [simp]:
  fixes x y :: u32
  shows "0 < r \<Longrightarrow> x XOR drop_bit r x = y XOR drop_bit r y \<longleftrightarrow> x = y"
  by (auto dest: xorshift_inj)

lemma murmur_k_inj: "murmur_k x = murmur_k y \<longleftrightarrow> x = y"
  by (simp add: murmur_k_def Let_def)

lemma murmur_final_inj: "murmur_final x = murmur_final y \<longleftrightarrow> x = y"
  by (simp add: murmur_final_def Let_def)

lemma murmur_body_inj: "murmur_body h s = murmur_body g s \<longleftrightarrow> h = g"
  by (induction h s arbitrary: g rule: murmur_body.induct) simp_all

text \<open>The four bytes of a block can be read back from the word they are loaded into.\<close>

lemma take_bit_load32: "take_bit 8 (load32 a b c d) = uchar a"
  by (rule bit_word_eqI) (auto simp: load32_def bit_simps dest: bit_uchar_less)

lemma drop_bit_load32: "drop_bit 8 (load32 a b c d) = load32 b c d NUL"
proof (rule bit_word_eqI)
  fix n :: nat
  assume "n < LENGTH(32)"
  then show "bit (drop_bit 8 (load32 a b c d)) n = bit (load32 b c d NUL) n"
    by (auto simp: load32_def bit_simps add.commute dest: bit_uchar_less) (simp_all add: uchar_def)
qed

lemma load32_inj:
  assumes "load32 a b c d = load32 a' b' c' d'"
  shows "a = a' \<and> b = b' \<and> c = c' \<and> d = d'"
proof -
  have low: "x = x'" if "load32 x y z w = load32 x' y' z' w'" for x y z w x' y' z' w'
    using arg_cong [OF that, of "take_bit 8"] by (simp add: take_bit_load32)
  have up: "load32 y z w NUL = load32 y' z' w' NUL"
    if "load32 x y z w = load32 x' y' z' w'" for x y z w x' y' z' w'
    using arg_cong [OF that, of "drop_bit 8"] by (simp add: drop_bit_load32)
  from assms show ?thesis by (meson low up)
qed

lemma murmur_body_block:
  assumes "4 dvd length p" and "length x = 4" and "length y = 4"
    and "murmur_body h (p @ x @ s) = murmur_body h (p @ y @ s)"
  shows "x = y"
  using assms
proof (induction h p rule: murmur_body.induct)
  case (1 h a b c d data)
  have "4 dvd length data" using "1.prems"(1) by simp presburger
  with "1" show ?case by simp
next
  case (5 h)
  obtain a b c d where x: "x = [a, b, c, d]"
    using "5.prems"(2) by (auto simp: length_Suc_conv eval_nat_numeral)
  obtain a' b' c' d' where y: "y = [a', b', c', d']"
    using "5.prems"(3) by (auto simp: length_Suc_conv eval_nat_numeral)
  from "5.prems"(4) have "load32 a b c d = load32 a' b' c' d'"
    by (simp add: x y murmur_body_inj murmur_k_inj)
  then show ?case by (auto simp: x y dest: load32_inj)
qed (presburger | simp)+

lemma push_uchar_inj:
  assumes "push_bit k (uchar c) = push_bit k (uchar d)" "k \<le> 16" shows "c = d"
proof -
  have "drop_bit k (push_bit k (uchar c)) = drop_bit k (push_bit k (uchar d))"
    using assms(1) by simp
  moreover have "drop_bit k (push_bit k (uchar x)) = uchar x" for x
    using assms(2) by (intro bit_word_eqI) (auto simp: bit_simps dest: bit_uchar_less)
  ultimately show ?thesis by simp
qed

lemma murmur_body_last:
  "murmur_body h (p @ [c]) = murmur_body h (p @ [d]) \<Longrightarrow> c = d"
proof (induction h p rule: murmur_body.induct)
  case (2 h x y z)
  then have "load32 x y z c = load32 x y z d" by (simp add: murmur_body_inj murmur_k_inj)
  then show ?case by (auto dest: load32_inj)
qed (auto simp: xor.assoc dest: push_uchar_inj push_uchar_inj [of 0, simplified])

subsection \<open>Properties\<close>

text \<open>\<open>BKDRHash\<close> is a polynomial hash of the C string. The call id of a name is the value of
  its characters (as signed chars) in powers of 1313, modulo 2^32 with the top bit cleared; what
  follows a NUL has no influence, and the id is always below 2^31, so it is positive as the
  \<open>int32_t\<close> transfer id it is sent as, or zero.\<close>

theorem BKDRHash_polynomial:
  "BKDRHash s = bkdr_poly (c_str s) AND 0x7FFFFFFF \<and> unat (BKDRHash s) < 2 ^ 31"
  using BKDRHash_poly [OF c_str_nul_free, of s] BKDRHash_less [of s] by (simp add: BKDRHash_c_str)

text \<open>\<open>MurMurHash2\<close> separates keys that differ in one aligned block of four bytes. Two keys
  that agree before and after the block and have the same hash are equal.\<close>

theorem MurMurHash2_block_injective:
  assumes "4 dvd length p" and "length x = 4" and "length y = 4"
    and "MurMurHash2 (p @ x @ s) = MurMurHash2 (p @ y @ s)"
  shows "x = y"
  using assms murmur_body_block [OF assms(1-3), of "97 XOR of_nat (length (p @ x @ s))" s]
  by (simp add: MurMurHash2_def murmur_final_inj)

theorem MurMurHash2_block_injective_witness:
  "''10.0'' = ''10.0'' \<and> MurMurHash2 (''node'' @ ''10.0'' @ '':1'') \<noteq> MurMurHash2 (''node'' @ ''10.1'' @ '':1'')"
proof -
  have "length ''node'' = 4" by simp
  then have "4 dvd length ''node''" by presburger
  moreover have "length ''10.0'' = 4" "length ''10.1'' = 4" by simp_all
  ultimately show ?thesis
    using MurMurHash2_block_injective [of "''node''" "''10.0''" "''10.1''" "'':1''"] by auto
qed

lemma MurMurHash2_last: "MurMurHash2 (p @ [c]) = MurMurHash2 (p @ [d]) \<Longrightarrow> c = d"
  by (auto simp: MurMurHash2_def murmur_final_inj dest: murmur_body_last)

end
