(* ===== verification/Wire.thy ===== *)
theory Wire
  imports Hashing
begin

section \<open>Message framing of util/rpc\_communication.cpp\<close>

text \<open>
  A message is cut into \<open>MetaData\<close> blocks: a 32-bit \<open>h_code\<close> and a body of 512 bytes of
  which 511 carry payload. Every block but the last has its index as \<open>h_code\<close>; the last
  has the negated transfer id. \<open>RpcSend\<close> and \<open>RpcSendTo\<close> write blocks, \<open>RpcRecv\<close> and
  \<open>RpcRecvFrom\<close> read them back with \<open>strlen\<close>. The system calls are the environment: the
  result of the i-th \<open>send\<close> is \<open>sys i\<close>, the results of the \<open>recv\<close> calls are a list of
  events. The lemmas give the exact string a receiver rebuilds.
\<close>

subsection \<open>Blocks\<close>

abbreviation BODY_SIZE :: nat where "BODY_SIZE \<equiv> 512"
abbreviation MetaSize :: nat where "MetaSize \<equiv> 516"
abbreviation ERROR_META :: int where "ERROR_META \<equiv> -300"
abbreviation ERROR_SEND :: int where "ERROR_SEND \<equiv> -500"
abbreviation ERROR_RECV :: int where "ERROR_RECV \<equiv> -200"
abbreviation TCP_CONN_TIMEOUT :: int where "TCP_CONN_TIMEOUT \<equiv> -999"

record MetaData =
  h_code :: u32
  body :: string

text \<open>The struct in memory: the little-endian code, then the body.\<close>

definition le32_bytes :: "u32 \<Rightarrow> string" where
  "le32_bytes w = map (\<lambda>k. char_of (unat (drop_bit k w))) [0, 8, 16, 24]"

definition meta_bytes :: "MetaData \<Rightarrow> string" where
  "meta_bytes md = le32_bytes (h_code md) @ body md"

text \<open>The cast \<open>(MetaData*)recv_buf\<close>: reading the struct back from the buffer.\<close>

definition meta_of_bytes :: "string \<Rightarrow> MetaData" where
  "meta_of_bytes buf =
     \<lparr>h_code = load32 (buf ! 0) (buf ! 1) (buf ! 2) (buf ! 3), body = drop 4 buf\<rparr>"

text \<open>\<open>memset\<close> of the struct, \<open>memcpy\<close> of the payload, then the code.\<close>

definition meta_data :: "int \<Rightarrow> string \<Rightarrow> MetaData" where
  "meta_data code chunk =
     \<lparr>h_code = word_of_int code, body = chunk @ replicate (BODY_SIZE - length chunk) NUL\<rparr>"

subsection \<open>Sending\<close>

text \<open>
  What a call of \<open>RpcSend\<close> does. The offset of a block in the message is computed in \<open>int\<close>; from
  \<open>2 ^ 31\<close> on that overflows, and C++ defines nothing after it. The model stops there with
  \<open>overflowed\<close> set; \<open>ret\<close> and \<open>fd_closed\<close> then mean nothing, and no property uses them.
\<close>

record send_result =
  ret :: int
  sent :: "string list"
  fd_closed :: bool
  overflowed :: bool

definition fits_int :: "int \<Rightarrow> bool" where
  "fits_int x \<longleftrightarrow> - (2 ^ 31) \<le> x \<and> x < 2 ^ 31"

datatype blocks_end = All_sent | Send_failed | Offset_overflow

text \<open>
  The loop over the full blocks, from index \<open>i\<close> for \<open>k\<close> more rounds. A \<open>send\<close> that returns
  a count below the block's size has put only that many bytes on the wire; the code
  does not look at the count.
\<close>

fun send_blocks :: "(nat \<Rightarrow> int) \<Rightarrow> string \<Rightarrow> nat \<Rightarrow> nat \<Rightarrow> blocks_end \<times> string list" where
  "send_blocks sys str i 0 = (All_sent, [])"
| "send_blocks sys str i (Suc k) =
     (if \<not> fits_int (int i * int (BODY_SIZE - 1)) then (Offset_overflow, [])
      else let block = meta_bytes (meta_data (int i)
            (take (BODY_SIZE - 1) (drop (i * (BODY_SIZE - 1)) str)))
      in if sys i < 0 then (Send_failed, [])
         else (case send_blocks sys str (Suc i) k of
           (e, out) \<Rightarrow> (e, take (nat (sys i)) block # out)))"

text \<open>
  The part around the loop, with the code the last block carries. \<open>block_num\<close> is a
  \<open>size_t\<close> cut to an \<open>int32_t\<close>; a negative offset is past the front of the message.
\<close>

definition block_num :: "string \<Rightarrow> int" where
  "block_num str = sint (of_nat (length str div (BODY_SIZE - 1) + 1) :: u32)"

definition send_message :: "(nat \<Rightarrow> int) \<Rightarrow> int \<Rightarrow> string \<Rightarrow> bool \<Rightarrow> send_result" where
  "send_message sys last_code str need_closed =
     (let rest_len = length str mod (BODY_SIZE - 1);
          undef = (\<lambda>out. \<lparr>ret = -1, sent = out, fd_closed = False, overflowed = True\<rparr>)
      in if \<not> fits_int (block_num str - 1) then undef []
      else case send_blocks sys str 0 (nat (block_num str - 1)) of
        (Offset_overflow, out) \<Rightarrow> undef out
      | (Send_failed, out) \<Rightarrow> \<lparr>ret = -1, sent = out, fd_closed = True, overflowed = False\<rparr>
      | (All_sent, out) \<Rightarrow>
          if rest_len \<noteq> 0 then
            (let offset = (block_num str - 1) * int (BODY_SIZE - 1)
             in if offset < 0 \<or> \<not> fits_int offset then undef out
                else let block = meta_bytes (meta_data last_code
                       (take rest_len (drop (nat offset) str)));
                     r = sys (nat (block_num str - 1))
                 in if r < 0 then \<lparr>ret = -1, sent = out, fd_closed = True, overflowed = False\<rparr>
                    else \<lparr>ret = 0, sent = out @ [take (nat r) block], fd_closed = need_closed, overflowed = False\<rparr>)
          else \<lparr>ret = 0, sent = out, fd_closed = need_closed, overflowed = False\<rparr>)"

definition RpcSend :: "(nat \<Rightarrow> int) \<Rightarrow> int \<Rightarrow> string \<Rightarrow> bool \<Rightarrow> send_result" where
  "RpcSend sys transfer_id send_info_str need_closed =
     (if transfer_id < 0 then \<lparr>ret = -1, sent = [], fd_closed = False, overflowed = False\<rparr>
      else let transfer_id = (if transfer_id = 0 then 1 else transfer_id)
           in send_message sys (-1 * transfer_id) send_info_str need_closed)"

definition RpcSendTo :: "(nat \<Rightarrow> int) \<Rightarrow> string \<Rightarrow> bool \<Rightarrow> send_result" where
  "RpcSendTo sys send_info_str need_closed = send_message sys (-1) send_info_str need_closed"

subsection \<open>Receiving\<close>

text \<open>
  The results of successive \<open>recv\<close> calls: some bytes (none at the end of the stream),
  \<open>EAGAIN\<close>, or any other error. \<open>Blocked\<close> is a receiver that waits for a result that has
  not come, \<open>OverRead\<close> a \<open>strlen\<close> that runs past the buffer.
\<close>

datatype recv_event = Got string | Again | RecvFail

datatype recv_outcome =
    Returned int string bool "recv_event list"
  | Blocked string
  | OverRead

fun recv_loop :: "recv_event list \<Rightarrow> string \<Rightarrow> bool \<Rightarrow> recv_outcome" where
  "recv_loop [] info need_closed = Blocked info"
| "recv_loop (Again # evs) info need_closed = recv_loop evs info need_closed"
| "recv_loop (RecvFail # evs) info need_closed = Returned ERROR_RECV info need_closed evs"
| "recv_loop (Got bs # evs) info need_closed =
     (if bs = [] then Returned 0 info need_closed evs
      else let buf = take MetaSize (bs @ replicate MetaSize NUL);
               md = meta_of_bytes buf
           in if nul_free (body md) then OverRead
              else let info' = info @ c_str (body md)
                   in if h_code md <s 0 then Returned (sint (h_code md * -1)) info' need_closed evs
                      else recv_loop evs info' need_closed)"

definition RpcRecv :: "recv_event list \<Rightarrow> string \<Rightarrow> bool \<Rightarrow> recv_outcome" where
  "RpcRecv evs recv_info_str need_closed = recv_loop evs recv_info_str need_closed"

definition RpcRecvFrom :: "recv_event list \<Rightarrow> string \<Rightarrow> bool \<Rightarrow> recv_outcome" where
  "RpcRecvFrom evs recv_info_str need_closed = recv_loop evs recv_info_str need_closed"

lemmas [frame_defs] = RpcSend_def RpcSendTo_def RpcRecv_def RpcRecvFrom_def send_message_def

subsection \<open>One block\<close>

lemma load32_le32_bytes:
  "load32 (le32_bytes w ! 0) (le32_bytes w ! 1) (le32_bytes w ! 2) (le32_bytes w ! 3) = w"
proof (rule bit_word_eqI)
  fix n :: nat
  assume "n < LENGTH(32)"
  then consider "n < 8" | "8 \<le> n \<and> n < 16" | "16 \<le> n \<and> n < 24" | "24 \<le> n \<and> n < 32" by auto linarith
  then show "bit (load32 (le32_bytes w ! 0) (le32_bytes w ! 1) (le32_bytes w ! 2)
      (le32_bytes w ! 3)) n = bit w n"
    by cases (auto simp: load32_def le32_bytes_def uchar_char_of bit_simps)
qed

lemma length_le32_bytes [simp]: "length (le32_bytes w) = 4"
  by (simp add: le32_bytes_def)

lemma le32_bytes_not_Nil [simp]: "le32_bytes w \<noteq> []"
  by (simp add: le32_bytes_def)

lemma meta_of_meta_bytes [simp]: "meta_of_bytes (meta_bytes md) = md"
  by (cases md)
    (simp add: meta_of_bytes_def meta_bytes_def nth_append load32_le32_bytes [simplified])

lemma length_meta_data [simp]:
  "length chunk \<le> BODY_SIZE \<Longrightarrow> length (meta_bytes (meta_data code chunk)) = MetaSize"
  by (simp add: meta_bytes_def meta_data_def)

lemma recv_block:
  assumes "length chunk < BODY_SIZE"
  shows "recv_loop (Got (meta_bytes (meta_data code chunk)) # evs) info nc =
    (if (word_of_int code :: u32) <s 0
     then Returned (sint (- (word_of_int code :: u32))) (info @ c_str chunk) nc evs
     else recv_loop evs (info @ c_str chunk) nc)"
proof -
  let ?b = "meta_bytes (meta_data code chunk)"
  have "?b \<noteq> []" by (simp add: meta_bytes_def)
  moreover have "take MetaSize (?b @ replicate MetaSize NUL) = ?b"
    using assms by simp
  moreover have "\<not> nul_free (body (meta_data code chunk))"
    using assms by (simp add: meta_data_def nul_free_def)
  moreover have "c_str (body (meta_data code chunk)) = c_str chunk"
    by (simp add: meta_data_def)
  moreover have "h_code (meta_data code chunk) = word_of_int code"
    by (simp add: meta_data_def)
  ultimately show ?thesis by (simp add: Let_def)
qed

lemma sint_code: "- (2 ^ 31) \<le> i \<Longrightarrow> i < 2 ^ 31 \<Longrightarrow> sint (word_of_int i :: u32) = i"
  by (simp add: sint_sbintrunc' signed_take_bit_int_eq_self)

lemma sless_nonneg: "0 \<le> i \<Longrightarrow> i < 2 ^ 31 \<Longrightarrow> \<not> (word_of_int i :: u32) <s 0"
  by (simp add: word_sless_alt sint_code)

lemma sless_neg: "0 < i \<Longrightarrow> i < 2 ^ 31 \<Longrightarrow> - (word_of_int i :: u32) <s 0"
  using sint_code [of "- i"] by (simp add: word_sless_alt)

lemmas recv_code = sless_nonneg sless_neg sint_code

subsection \<open>Whole messages\<close>

text \<open>The payload of block \<open>j\<close>, and the string a receiver rebuilds from the blocks.\<close>

definition payload :: "string \<Rightarrow> nat \<Rightarrow> string" where
  "payload str j = take (BODY_SIZE - 1) (drop (j * (BODY_SIZE - 1)) str)"

definition delivered :: "string \<Rightarrow> string" where
  "delivered str = concat (map (\<lambda>j. c_str (payload str j)) [0..<length str div (BODY_SIZE - 1) + 1])"

lemma length_payload [simp]: "length (payload str j) < BODY_SIZE"
  by (simp add: payload_def)

lemma concat_payload: "concat (map (payload str) [0..<k]) = take (k * (BODY_SIZE - 1)) str"
proof (induction k)
  case (Suc k)
  have "take (Suc k * (BODY_SIZE - 1)) str = take (k * (BODY_SIZE - 1)) str @ payload str k"
    unfolding payload_def by (subst take_add [symmetric]) (simp add: add.commute)
  with Suc show ?case by simp
qed simp

lemma delivered_id: "nul_free str \<Longrightarrow> delivered str = str"
proof -
  assume nf: "nul_free str"
  have "length str \<le> (length str div (BODY_SIZE - 1) + 1) * (BODY_SIZE - 1)"
    using div_mult_mod_eq [of "length str" "BODY_SIZE - 1"]
      mod_less_divisor [of "BODY_SIZE - 1" "length str"] by simp
  moreover have "c_str (payload str j) = payload str j" for j
    using nf by (simp add: payload_def nul_free_take nul_free_drop)
  ultimately show "delivered str = str"
    by (simp only: delivered_def concat_payload take_all)
qed

lemma delivered_nul_free: "nul_free (delivered str)"
  by (auto simp: delivered_def nul_free_def dest: c_str_nul_free [unfolded nul_free_def, THEN notE])

lemma delivered_eq_iff: "delivered str = str \<longleftrightarrow> nul_free str"
  by (metis delivered_id delivered_nul_free)

lemma fits_int_offset [simp]:
  "j * 511 < 2 ^ 31 \<Longrightarrow> fits_int (int j * 511)" "fits_int (int j) \<longleftrightarrow> j < 2 ^ 31"
  by (simp_all add: fits_int_def)

lemma send_blocks_prefix:
  assumes "\<And>j. i \<le> j \<Longrightarrow> j < i + k \<Longrightarrow> sys j = int MetaSize" and "(i + k) * 511 \<le> 2 ^ 31 + 495"
  shows "send_blocks sys str i k =
    (All_sent, map (\<lambda>j. meta_bytes (meta_data (int j) (payload str j))) [i..<i + k])"
  using assms
proof (induction k arbitrary: i)
  case (Suc k)
  have "length (meta_bytes (meta_data (int i) (payload str i))) = MetaSize"
    by (rule length_meta_data) (simp add: payload_def)
  with Suc.IH [of "Suc i"] Suc.prems show ?case
    by (simp add: payload_def upt_add_Suc del: upt_Suc)
qed simp

lemma send_blocks_fail:
  assumes "i \<le> j" "j < i + k" "sys j < 0" "\<And>l. i \<le> l \<Longrightarrow> l < j \<Longrightarrow> sys l = int MetaSize"
    and "j * 511 < 2 ^ 31"
  shows "send_blocks sys str i k =
    (Send_failed, map (\<lambda>l. meta_bytes (meta_data (int l) (payload str l))) [i..<j])"
  using assms
proof (induction k arbitrary: i)
  case (Suc k)
  have len: "length (meta_bytes (meta_data (int i) (payload str i))) = MetaSize"
    by (rule length_meta_data) (simp add: payload_def)
  show ?case
  proof (cases "i = j")
    case True
    with Suc.prems show ?thesis by simp
  next
    case False
    with Suc.prems have "[i..<j] = i # [Suc i..<j]" by (simp add: upt_conv_Cons)
    with False Suc.IH [of "Suc i"] Suc.prems len show ?thesis by (simp add: payload_def)
  qed
qed simp

lemma send_blocks_overflow:
  assumes "i \<le> j" "j < i + k" "\<And>l. i \<le> l \<Longrightarrow> l < j \<Longrightarrow> 0 \<le> sys l" "2 ^ 31 \<le> j * 511"
  shows "\<exists>out. send_blocks sys str i k = (Offset_overflow, out)"
  using assms
proof (induction k arbitrary: i)
  case (Suc k)
  show ?case
  proof (cases "fits_int (int i * 511)")
    case True
    with Suc.prems have "i \<noteq> j" by (auto simp: fits_int_def)
    with Suc.IH [of "Suc i"] Suc.prems show ?thesis by (auto simp: linorder_not_less [symmetric])
  qed simp
qed simp

lemma recv_blocks:
  assumes "int (i + k) \<le> 2 ^ 31"
  shows "recv_loop (map (\<lambda>j. Got (meta_bytes (meta_data (int j) (payload str j)))) [i..<i + k] @ evs)
      info nc = recv_loop evs (info @ concat (map (\<lambda>j. c_str (payload str j)) [i..<i + k])) nc"
  using assms
proof (induction k arbitrary: i info)
  case (Suc k)
  have "\<not> (word_of_int (int i) :: u32) <s 0"
    using Suc.prems by (intro sless_nonneg) auto
  with Suc.IH [of "Suc i"] Suc.prems show ?case
    by (simp add: upt_add_Suc recv_block del: recv_loop.simps upt_Suc)
qed simp

text \<open>What a receiver has after a sequence of events, and what \<open>EAGAIN\<close> adds to it: nothing.\<close>

fun outcome_of :: "recv_outcome \<Rightarrow> (int \<times> string) option" where
  "outcome_of (Returned transfer_id info need_closed evs) = Some (transfer_id, info)"
| "outcome_of (Blocked info) = None"
| "outcome_of OverRead = None"

lemma outcome_skip_again:
  "outcome_of (recv_loop (filter (\<lambda>e. e \<noteq> Again) evs) info nc) = outcome_of (recv_loop evs info nc)"
  by (induction evs info nc rule: recv_loop.induct) (auto simp: Let_def)

lemma div_mod_bound: "i < 511 * n \<Longrightarrow> (i::nat) div 511 < n"
  by (simp add: less_mult_imp_div_less mult.commute)

lemma payload_rest:
  "payload str (length str div (BODY_SIZE - 1)) =
     take (length str mod (BODY_SIZE - 1))
       (drop (length str div (BODY_SIZE - 1) * (BODY_SIZE - 1)) str)"
proof -
  have "length (drop (length str div 511 * 511) str) = length str mod 511"
    by (simp add: minus_div_mult_eq_mod)
  then show ?thesis by (simp add: payload_def)
qed

definition message_frames :: "int \<Rightarrow> string \<Rightarrow> string list" where
  "message_frames last_code str =
     map (\<lambda>j. meta_bytes (meta_data (int j) (payload str j))) [0..<length str div (BODY_SIZE - 1)]
     @ (if length str mod (BODY_SIZE - 1) = 0 then []
        else [meta_bytes (meta_data last_code (payload str (length str div (BODY_SIZE - 1))))])"

lemma block_num_eq: "length str < 511 * (2 ^ 31 - 1) \<Longrightarrow> block_num str = int (length str div 511) + 1"
  using less_mult_imp_div_less [of "length str" "2 ^ 31 - 1" 511] sint_code [of "int (length str div 511) + 1"]
  by (simp add: block_num_def mult.commute add.commute)

lemma last_frame_take [simp]:
  "take MetaSize (meta_bytes (meta_data code (payload str j))) = meta_bytes (meta_data code (payload str j))"
  by (rule take_all) (simp add: less_imp_le)

lemma last_offset: "n * 511 + r \<le> 2147484143 \<Longrightarrow> n \<le> 4202512 \<or> r = (0::nat)"
  by linarith

lemma send_message_ok:
  assumes "\<And>j. sys j = int MetaSize" and "length str \<le> 2 ^ 31 + 495"
  shows "send_message sys last_code str nc =
    \<lparr>ret = 0, sent = message_frames last_code str, fd_closed = nc, overflowed = False\<rparr>"
proof -
  let ?n = "length str div 511"
  have "?n * 511 + length str mod 511 = length str" by (rule div_mult_mod_eq)
  then have "(0 + ?n) * 511 + length str mod 511 \<le> 2147484143" using assms(2) by simp
  then have "(0 + ?n) * 511 \<le> 2 ^ 31 + 495" and "?n \<le> 4202512 \<or> length str mod 511 = 0"
    using last_offset [of ?n] by (simp, fastforce simp only: add_0)
  then have "(0 + ?n) * 511 \<le> 2 ^ 31 + 495" and "length str mod 511 = 0 \<or> ?n * 511 < 2 ^ 31" by auto
  then show ?thesis
    using send_blocks_prefix [of 0 ?n sys str] assms
    by (auto simp: send_message_def Let_def message_frames_def payload_rest [simplified] block_num_eq
        nat_mult_distrib)
qed

lemma recv_message:
  assumes len: "length str < 2 ^ 31" and code: "0 < i" "i < 2 ^ 31"
  shows "recv_loop (map Got (message_frames (- i) str) @ evs) [] nc =
    (if length str mod (BODY_SIZE - 1) = 0 then recv_loop evs (delivered str) nc
     else Returned i (delivered str) nc evs)"
proof -
  let ?n = "length str div 511"
  have "int ?n \<le> 2 ^ 31" using len div_le_dividend [of "length str" 511] by simp
  from recv_blocks [of 0 ?n str "evs'" "[]" nc for evs'] this
  have blocks: "recv_loop (map (\<lambda>j. Got (meta_bytes (meta_data (int j) (payload str j)))) [0..<?n] @ evs')
      [] nc = recv_loop evs' (concat (map (\<lambda>j. c_str (payload str j)) [0..<?n])) nc" for evs'
    by simp
  have last: "length str mod 511 = 0 \<Longrightarrow> c_str (payload str ?n) = []"
    by (simp add: payload_rest [simplified] c_str_def)
  show ?thesis
    using blocks last code
    by (auto simp: message_frames_def comp_def delivered_def recv_block recv_code
        simp del: recv_loop.simps(4))
qed

text \<open>Bytes past the first read: a block cut short reads as a block with a shorter body.\<close>

lemma recv_Got_cong:
  assumes "bs \<noteq> []" "bs' \<noteq> []"
    and "take MetaSize (bs @ replicate MetaSize NUL) = take MetaSize (bs' @ replicate MetaSize NUL)"
  shows "recv_loop (Got bs # evs) info nc = recv_loop (Got bs' # evs) info nc"
  using assms by (simp only: recv_loop.simps if_False)

lemma meta_bytes_not_Nil [simp]: "meta_bytes md \<noteq> []"
  by (simp add: meta_bytes_def)

lemma recv_prefix:
  assumes "4 \<le> k" "length str < BODY_SIZE"
  shows "recv_loop (Got (take k (meta_bytes (meta_data code str))) # evs) info nc =
    recv_loop (Got (meta_bytes (meta_data code (take (k - 4) str))) # evs) info nc"
proof (rule recv_Got_cong)
  let ?b = "meta_bytes (meta_data code str)"
  have cut: "take k ?b = le32_bytes (word_of_int code)
      @ take (k - 4) str @ replicate (min (k - 4 - length str) (512 - length str)) NUL"
    using assms by (simp add: meta_bytes_def meta_data_def)
  have "take MetaSize (take k ?b @ replicate MetaSize NUL) =
      le32_bytes (word_of_int code) @ take (k - 4) str @ replicate (512 - min (k - 4) (length str)) NUL"
    unfolding cut using assms by (simp add: replicate_add [symmetric] min_def split: if_splits) arith
  then show "take MetaSize (take k ?b @ replicate MetaSize NUL) =
      take MetaSize (meta_bytes (meta_data code (take (k - 4) str)) @ replicate MetaSize NUL)"
    using assms by (simp add: meta_bytes_def meta_data_def min_def)
qed (use assms in auto)

lemma wire_id_range:
  assumes "0 \<le> transfer_id" "transfer_id < 2 ^ 31"
  shows "0 < (if transfer_id = 0 then 1 else transfer_id)"
    "(if transfer_id = 0 then 1 else transfer_id) < (2 ^ 31 :: int)"
  using assms by auto

lemma RpcSend_ok:
  assumes "\<And>j. sys j = int MetaSize" "0 \<le> transfer_id" "length str \<le> 2 ^ 31 + 495"
  shows "RpcSend sys transfer_id str nc =
    \<lparr>ret = 0, sent = message_frames (- (if transfer_id = 0 then 1 else transfer_id)) str, fd_closed = nc,
     overflowed = False\<rparr>"
  using assms(2) by (simp add: RpcSend_def send_message_ok [OF assms(1,3)])

subsection \<open>Properties\<close>

text \<open>C14: A message without NUL bytes whose length is not a multiple of 511 arrives whole:
  if every block is sent in full and the receiver's \<open>recv\<close> calls return these blocks one
  by one, in order, with any number of \<open>EAGAIN\<close> in between, \<open>RpcRecv\<close> returns the transfer
  id (1 for 0) and the very string that was sent, and \<open>RpcSend\<close> returns 0.\<close>

theorem RpcSend_RpcRecv_roundtrip:
  assumes "\<And>j. sys j = int MetaSize" and "0 \<le> transfer_id" "transfer_id < 2 ^ 31"
    and "nul_free str" "length str mod (BODY_SIZE - 1) \<noteq> 0" "length str < 2 ^ 31"
    and "filter (\<lambda>e. e \<noteq> Again) evs = map Got (sent (RpcSend sys transfer_id str nc))"
  shows "ret (RpcSend sys transfer_id str nc) = 0 \<and>
    outcome_of (RpcRecv evs [] nc') = Some (if transfer_id = 0 then 1 else transfer_id, str)"
  using recv_message [OF assms(6) wire_id_range [OF assms(2,3)], of "[]" nc'] assms(4-7)
  by (simp add: RpcRecv_def delivered_id outcome_skip_again [of evs, symmetric]
      RpcSend_ok [OF assms(1,2)])

lemma filter_Got [simp]: "filter (\<lambda>e. e \<noteq> Again) (map Got bss) = map Got bss"
  by (induction bss) auto

theorem RpcSend_RpcRecv_roundtrip_witness:
  "outcome_of (RpcRecv (Again # map Got (sent (RpcSend (\<lambda>_. 516) 7 ''ping'' True))) [] False)
    = Some (7, ''ping'')"
  using RpcSend_RpcRecv_roundtrip [of "\<lambda>_. 516" 7 "''ping''"
      "Again # map Got (sent (RpcSend (\<lambda>_. 516) 7 ''ping'' True))" True False]
  by simp

text \<open>What arrives in general: each 511-byte slice of the message cut at its first NUL
  byte. The message arrives unchanged exactly when it has no NUL byte, so a serialized
  protobuf with a zero byte in it (an enum field set to its first value, say) is corrupted.\<close>

theorem RpcRecv_delivers_exactly:
  assumes "\<And>j. sys j = int MetaSize" and "0 < transfer_id" "transfer_id < 2 ^ 31"
    and "length str mod (BODY_SIZE - 1) \<noteq> 0" "length str < 2 ^ 31"
  shows "outcome_of (RpcRecv (map Got (sent (RpcSend sys transfer_id str nc))) [] nc') =
      Some (transfer_id, delivered str) \<and> (delivered str = str \<longleftrightarrow> nul_free str)"
  using recv_message [OF assms(5,2,3), of "[]" nc'] assms(2,4,5)
  by (simp add: RpcRecv_def RpcSend_ok [OF assms(1)] delivered_eq_iff)

theorem RpcRecv_delivers_exactly_witness:
  "outcome_of (RpcRecv (map Got (sent (RpcSend (\<lambda>_. 516) 1 [CHR 0x18, NUL, CHR 0x20] False))) [] False)
    = Some (1, [CHR 0x18])"
proof -
  have "delivered [CHR 0x18, NUL, CHR 0x20] = [CHR 0x18]"
    by (simp add: delivered_def payload_def c_str_def)
  then show ?thesis
    using RpcRecv_delivers_exactly [of "\<lambda>_. 516" 1 "[CHR 0x18, NUL, CHR 0x20]" False False] by simp
qed

text \<open>C39: A message whose length is a multiple of 511, the empty one included, is never
  completed: \<open>RpcSend\<close> reports success but sends no block with a negative code, and the
  receiver, given every block that was sent, still waits for the next one.\<close>

theorem RpcSend_multiple_of_511_never_completes:
  assumes "\<And>j. sys j = int MetaSize" and "0 \<le> transfer_id" "transfer_id < 2 ^ 31"
    and "length str mod (BODY_SIZE - 1) = 0" "length str < 2 ^ 31"
  shows "ret (RpcSend sys transfer_id str nc) = 0 \<and>
    RpcRecv (map Got (sent (RpcSend sys transfer_id str nc))) [] nc' = Blocked (delivered str)"
  using recv_message [OF assms(5) wire_id_range [OF assms(2,3)], of "[]" nc'] assms(4,5)
  by (simp add: RpcRecv_def RpcSend_ok [OF assms(1,2)])

theorem RpcSend_multiple_of_511_never_completes_witness:
  "ret (RpcSend (\<lambda>_. 516) 5 [] True) = 0 \<and>
   RpcRecv (map Got (sent (RpcSend (\<lambda>_. 516) 5 [] True))) [] True = Blocked []"
proof -
  have "delivered [] = []" by (simp add: delivered_def payload_def c_str_def)
  then show ?thesis
    using RpcSend_multiple_of_511_never_completes [of "\<lambda>_. 516" 5 "[]" True True] by simp
qed

text \<open>C21: The longest message that can be sent has \<open>2 ^ 31 + 495\<close> bytes: with every \<open>send\<close> taking its
  block whole, the offset \<open>i * (BODY_SIZE - 1)\<close> overflows its \<open>int\<close> exactly for the messages beyond it
  (up to the length at which \<open>block_num\<close> wraps as well), and up to it \<open>RpcSend\<close> returns 0.\<close>

theorem RpcSend_overflow_bound:
  assumes "\<And>j. sys j = int MetaSize" and "0 \<le> transfer_id" and "length str < 511 * (2 ^ 31 - 1)"
  shows "(overflowed (RpcSend sys transfer_id str nc) \<longleftrightarrow> 2 ^ 31 + 495 < length str) \<and>
    (length str \<le> 2 ^ 31 + 495 \<longrightarrow> ret (RpcSend sys transfer_id str nc) = 0)"
proof (cases "length str \<le> 2 ^ 31 + 495")
  case True
  with assms show ?thesis by (simp add: RpcSend_ok)
next
  case False
  let ?n = "length str div 511"
  have split: "?n * 511 + length str mod 511 = length str" by (rule div_mult_mod_eq)
  have small: "length str mod 511 < 511" by simp
  have "overflowed (send_message sys code str nc)" for code
  proof (cases "?n = 4202513")
    case True
    with False split have "length str mod 511 \<noteq> 0" by simp
    with True assms(1) show ?thesis
      using send_blocks_prefix [of 0 ?n sys str]
      by (simp add: send_message_def Let_def block_num_eq [OF assms(3)] fits_int_def)
  next
    case other: False
    with False split small have "4202513 < ?n" by simp
    then obtain out where "send_blocks sys str 0 ?n = (Offset_overflow, out)"
      using send_blocks_overflow [of 0 4202513 ?n sys str] assms(1) by auto
    then show ?thesis
      by (simp add: send_message_def Let_def block_num_eq [OF assms(3)])
  qed
  with False assms(2) show ?thesis by (simp add: RpcSend_def)
qed

theorem RpcSend_overflow_bound_witness:
  "overflowed (RpcSend (\<lambda>_. 516) 1 (replicate (2 ^ 31 + 496) CHR ''x'') False) \<and>
   ret (RpcSend (\<lambda>_. 516) 1 (replicate (2 ^ 31 + 495) CHR ''x'') False) = 0"
  using RpcSend_overflow_bound [of "\<lambda>_. 516" 1 "replicate (2 ^ 31 + 496) CHR ''x''" False]
    RpcSend_overflow_bound [of "\<lambda>_. 516" 1 "replicate (2 ^ 31 + 495) CHR ''x''" False]
  by (simp del: replicate.simps)

text \<open>The receiver does not reassemble a block that TCP delivers in two reads: when the
  first read of a one-block message ends inside the body, \<open>RpcRecv\<close> returns at once, with
  the transfer id and only the bytes read so far, and leaves the rest unread.\<close>

theorem RpcRecv_short_read_truncates:
  assumes "\<And>j. sys j = int MetaSize" and "0 < transfer_id" "transfer_id < 2 ^ 31"
    and "nul_free str" "0 < length str" "length str < BODY_SIZE - 1" and "4 \<le> k"
  shows "\<exists>block. sent (RpcSend sys transfer_id str nc) = [block] \<and>
    RpcRecv [Got (take k block), Got (drop k block)] [] nc' =
      Returned transfer_id (take (k - 4) str) nc' [Got (drop k block)]"
proof -
  let ?md = "meta_data (- transfer_id) str"
  have sent: "sent (RpcSend sys transfer_id str nc) = [meta_bytes ?md]"
    using assms(2,5,6)
    by (simp add: RpcSend_ok [OF assms(1)] message_frames_def payload_def div_less)
  have "recv_loop (Got (take k (meta_bytes ?md)) # evs) [] nc' =
      recv_loop (Got (meta_bytes (meta_data (- transfer_id) (take (k - 4) str))) # evs) [] nc'" for evs
    using assms(6,7) by (intro recv_prefix) simp_all
  then show ?thesis
    using assms(2-4,6) sent
    by (simp add: RpcRecv_def recv_block recv_code nul_free_take del: recv_loop.simps(4))
qed

theorem RpcRecv_short_read_truncates_witness:
  "\<exists>block. sent (RpcSend (\<lambda>_. 516) 9 ''abcd'' False) = [block] \<and>
    RpcRecv [Got (take 6 block), Got (drop 6 block)] [] True = Returned 9 ''ab'' True [Got (drop 6 block)]"
  using RpcRecv_short_read_truncates [of "\<lambda>_. 516" 9 "''abcd''" 6 False True] by simp

text \<open>A failing \<open>send\<close> is never reported as success: if the call for some block of the
  message fails and all before it succeed, \<open>RpcSend\<close> returns -1, the descriptor is closed
  whether or not the caller asked for it, and exactly the blocks before it were written.\<close>

theorem RpcSend_failure_closes:
  assumes "0 \<le> transfer_id" and "sys j < 0" and "\<And>i. i < j \<Longrightarrow> sys i = int MetaSize"
    and "length str < 2 ^ 31"
    and "j < length str div (BODY_SIZE - 1) + (if length str mod (BODY_SIZE - 1) = 0 then 0 else 1)"
  shows "RpcSend sys transfer_id str nc =
    \<lparr>ret = -1,
     sent = map (\<lambda>i. meta_bytes (meta_data (int i) (payload str i))) [0..<j], fd_closed = True, overflowed = False\<rparr>"
proof -
  let ?n = "length str div 511"
  have "?n * 511 \<le> length str" by (rule div_times_less_eq_dividend)
  then have offset: "?n * 511 < 2 ^ 31" using assms(4) by linarith
  have num: "block_num str = int ?n + 1" using assms(4) by (simp add: block_num_eq)
  show ?thesis
  proof (cases "j < ?n")
    case True
    with offset have "j * 511 < 2 ^ 31" by linarith
    with send_blocks_fail [of 0 j ?n sys str] assms True offset show ?thesis
      by (simp add: RpcSend_def send_message_def Let_def num)
  next
    case False
    with assms(5) have j: "j = ?n" "length str mod 511 \<noteq> 0"
      by (auto split: if_splits)
    with assms(3) offset have "send_blocks sys str 0 ?n =
        (All_sent, map (\<lambda>i. meta_bytes (meta_data (int i) (payload str i))) [0..<?n])"
      using send_blocks_prefix [of 0 ?n sys str] by simp
    with j assms(1,2) offset show ?thesis
      by (simp add: RpcSend_def send_message_def Let_def num)
  qed
qed

theorem RpcSend_failure_closes_witness:
  "RpcSend (\<lambda>i. if i = 1 then -1 else 516) 3 (replicate 600 CHR ''x'') False =
    \<lparr>ret = -1,
     sent = map (\<lambda>i. meta_bytes (meta_data (int i) (payload (replicate 600 CHR ''x'') i))) [0..<1],
     fd_closed = True, overflowed = False\<rparr>"
  using RpcSend_failure_closes [of 3 "\<lambda>i. if i = 1 then -1 else 516" 1 "replicate 600 CHR ''x''" False]
  by simp

text \<open>The datagram pair carries the same blocks, with the fixed id 1.\<close>

lemma RpcSendTo_RpcRecvFrom:
  assumes "\<And>j. sys j = int MetaSize" and "nul_free str" "length str mod (BODY_SIZE - 1) \<noteq> 0"
    "length str < 2 ^ 31"
  shows "RpcRecvFrom (map Got (sent (RpcSendTo sys str nc)) @ evs) [] nc' = Returned 1 str nc' evs"
  using recv_message [of str 1 evs nc'] assms
  by (simp add: RpcRecvFrom_def RpcSendTo_def send_message_ok delivered_id)

end
