(* ===== verification/Sockets.thy ===== *)
theory Sockets
  imports Wire "HOL-Library.Multiset"
begin

section \<open>Socket set-up (util/rpc\_communication.cpp)\<close>

text \<open>
  Opening, connecting, listening and accepting, over the results of the system calls. What a
  function does is its return value and the list of what it did to descriptors, in order. The
  candidate addresses of \<open>getaddrinfo\<close> are a list of records with the results of the calls made
  for each. The lemmas account for the descriptors and give the exact outcome of a connection
  attempt.
\<close>

subsection \<open>Descriptor modes\<close>

datatype sock_event =
    Opened int
  | ClosedFd int
  | SetFlags int u32 int
  | SetIoctl int int int

text \<open>The results of \<open>fcntl\<close> (flags as a word, or a failure) and of \<open>ioctl\<close>.\<close>

record fd_calls =
  getfl :: "int \<Rightarrow> u32"
  setfl :: "int \<Rightarrow> u32 \<Rightarrow> int"
  fionbio :: "int \<Rightarrow> int \<Rightarrow> int"

abbreviation O_NONBLOCK :: u32 where "O_NONBLOCK \<equiv> 0x800"

unbundle bit_operations_syntax

definition NonBlockMode :: "fd_calls \<Rightarrow> int \<Rightarrow> bool \<Rightarrow> bool \<times> sock_event list" where
  "NonBlockMode sys sock mode =
     (let opts = getfl sys sock in
      if opts <s 0 then (False, [])
      else
        (let (opts, ul) = (if mode then (opts OR O_NONBLOCK, 1) else (opts OR NOT O_NONBLOCK, 0));
             r = setfl sys sock opts
         in if r < 0
            then (let q = fionbio sys sock ul in
                  (\<not> q < 0, [SetFlags sock opts r, SetIoctl sock ul q]))
            else (True, [SetFlags sock opts r])))"

definition Socket :: "int \<Rightarrow> int" where
  "Socket socket_ret = (if socket_ret < 0 then -1 else socket_ret)"

subsection \<open>Connecting\<close>

text \<open>
  One candidate address: results of \<open>socket\<close>, of setting \<open>TCP_NODELAY\<close>, of \<open>connect\<close> (with
  \<open>errno == EINPROGRESS\<close>) and of \<open>select\<close>.
\<close>

record conn_try =
  ct_socket :: int
  ct_nodelay :: int
  ct_connect :: int
  ct_inprogress :: bool
  ct_select :: int

text \<open>The loop: the last value of \<open>sockfd\<close>, whether \<open>res\<close> is not NULL at the end, the events.\<close>

fun connect_loop :: "fd_calls \<Rightarrow> int \<Rightarrow> conn_try list \<Rightarrow> int \<Rightarrow> int \<times> bool \<times> sock_event list" where
  "connect_loop sys overtime [] sockfd = (sockfd, False, [])"
| "connect_loop sys overtime (t # ts) _ =
     (let sockfd = ct_socket t in
      if sockfd < 0 then connect_loop sys overtime ts sockfd
      else if ct_nodelay t \<noteq> 0 then
        (case connect_loop sys overtime ts sockfd of (r, res, evs) \<Rightarrow> (r, res, Opened sockfd # evs))
      else
        (let evs = Opened sockfd # (if overtime > 0 then snd (NonBlockMode sys sockfd True) else []) in
         if overtime > 0 \<and> ct_connect t < 0 \<and> ct_inprogress t then
           (if ct_select t = 0 then (TCP_CONN_TIMEOUT, True, evs)
            else if ct_select t \<noteq> -1 then (sockfd, True, evs)
            else (case connect_loop sys overtime ts sockfd of (r, res, evs') \<Rightarrow>
                    (r, res, evs @ [ClosedFd sockfd] @ evs')))
         else if ct_connect t = 0 then (sockfd, True, evs)
         else (case connect_loop sys overtime ts sockfd of (r, res, evs') \<Rightarrow>
                 (r, res, evs @ [ClosedFd sockfd] @ evs'))))"

text \<open>\<open>None\<close> is a failing \<open>getaddrinfo\<close>; on success its list is not empty.\<close>

definition TcpConnect :: "fd_calls \<Rightarrow> conn_try list option \<Rightarrow> int \<Rightarrow> int \<times> sock_event list" where
  "TcpConnect sys addrs conn_overtime =
     (case addrs of
        None \<Rightarrow> (-1, [])
      | Some ts \<Rightarrow>
          (case connect_loop sys conn_overtime ts (-1) of (sockfd, res, evs) \<Rightarrow>
             (let (ok, evs') = (if conn_overtime > 0 then NonBlockMode sys sockfd False else (True, []));
                  evs = evs @ evs'
              in if \<not> ok then (-1, evs) else if \<not> res then (-1, evs) else (sockfd, evs))))"

subsection \<open>Listening and accepting\<close>

record listen_try =
  lt_socket :: int
  lt_reuse :: int
  lt_bind :: int

fun listen_loop :: "listen_try list \<Rightarrow> int \<Rightarrow> int \<times> bool \<times> sock_event list" where
  "listen_loop [] listenfd = (listenfd, False, [])"
| "listen_loop (t # ts) _ =
     (let listenfd = Socket (lt_socket t) in
      if listenfd < 0 then listen_loop ts listenfd
      else if lt_reuse t < 0 then
        (case listen_loop ts listenfd of (r, res, evs) \<Rightarrow> (r, res, Opened listenfd # evs))
      else if lt_bind t = 0 then (listenfd, True, [Opened listenfd])
      else (case listen_loop ts listenfd of (r, res, evs) \<Rightarrow>
              (r, res, Opened listenfd # ClosedFd listenfd # evs)))"

definition TcpListen :: "listen_try list option \<Rightarrow> (int \<Rightarrow> int) \<Rightarrow> int \<times> sock_event list" where
  "TcpListen addrs listen_call =
     (case addrs of
        None \<Rightarrow> (-1, [])
      | Some ts \<Rightarrow>
          if ts = [] then (-1, [])
          else (case listen_loop ts (-1) of (listenfd, res, evs) \<Rightarrow>
             if \<not> res then (-1, evs)
             else if listen_call listenfd < 0 then (-1, evs)
             else (listenfd, evs)))"

text \<open>
  \<open>Accept\<close>: the loop around \<open>accept\<close> has the condition \<open>false\<close>, so its \<open>continue\<close> leaves it. Then
  four options are set in turn; \<open>opts\<close> are the results of these calls, and each option fails
  on a result below zero, the last one on any that is not zero.
\<close>

fun set_options :: "int \<Rightarrow> (int \<times> bool) list \<Rightarrow> int \<times> sock_event list" where
  "set_options fd [] = (fd, [])"
| "set_options fd ((r, strict) # opts) =
     (if r < 0 \<or> strict \<and> r \<noteq> 0 then (-1, [ClosedFd fd]) else set_options fd opts)"

definition Accept :: "int \<Rightarrow> int \<Rightarrow> int \<Rightarrow> int \<Rightarrow> int \<Rightarrow> int \<times> sock_event list" where
  "Accept accept_ret keepalive keepintvl keepcnt nodelay =
     (case set_options accept_ret [(keepalive, False), (keepintvl, False), (keepcnt, False), (nodelay, True)] of
        (r, evs) \<Rightarrow> (r, (if accept_ret < 0 then [] else [Opened accept_ret]) @ evs))"

text \<open>The UDP sockets: the port is the constant 8899, whatever the argument says.\<close>

definition UdpServerInit :: "int \<Rightarrow> string \<Rightarrow> string \<Rightarrow> (string \<Rightarrow> int \<Rightarrow> int) \<Rightarrow> int \<times> sock_event list" where
  "UdpServerInit socket_ret host port bind_call =
     (let sockfd = Socket socket_ret in
      if sockfd < 0 then (-1, [])
      else if bind_call host 8899 < 0 then (-1, [Opened sockfd]) else (sockfd, [Opened sockfd]))"

definition UdpClientInit :: "int \<Rightarrow> string \<Rightarrow> string \<Rightarrow> int \<times> (string \<times> int) option" where
  "UdpClientInit socket_ret server_host port =
     (let sockfd = Socket socket_ret in
      if sockfd < 0 then (-1, None) else (sockfd, Some (server_host, 8899)))"

subsection \<open>Accounting of descriptors\<close>

definition opened :: "sock_event list \<Rightarrow> int list" where
  "opened evs = concat (map (\<lambda>e. case e of Opened fd \<Rightarrow> [fd] | _ \<Rightarrow> []) evs)"

definition closed :: "sock_event list \<Rightarrow> int list" where
  "closed evs = concat (map (\<lambda>e. case e of ClosedFd fd \<Rightarrow> [fd] | _ \<Rightarrow> []) evs)"

lemma opened_simps [simp]:
  "opened [] = []" "opened (xs @ ys) = opened xs @ opened ys" "opened (Opened fd # xs) = fd # opened xs"
  "opened (ClosedFd fd # xs) = opened xs" "opened (SetFlags fd fl r # xs) = opened xs"
  "opened (SetIoctl fd u r # xs) = opened xs"
  by (simp_all add: opened_def)

lemma closed_simps [simp]:
  "closed [] = []" "closed (xs @ ys) = closed xs @ closed ys" "closed (Opened fd # xs) = closed xs"
  "closed (ClosedFd fd # xs) = fd # closed xs" "closed (SetFlags fd fl r # xs) = closed xs"
  "closed (SetIoctl fd u r # xs) = closed xs"
  by (simp_all add: closed_def)

lemma NonBlockMode_events [simp]:
  "opened (snd (NonBlockMode sys fd m)) = []" "closed (snd (NonBlockMode sys fd m)) = []"
  by (simp_all add: NonBlockMode_def Let_def split: prod.splits)

lemma connect_loop_fds:
  "connect_loop sys overtime ts prev = (r, res, evs) \<Longrightarrow> \<forall>t\<in>set ts. ct_nodelay t = 0 \<Longrightarrow> 0 \<le> r \<Longrightarrow> res \<Longrightarrow>
   mset (opened evs) = mset (closed evs) + {#r#}"
proof (induction ts arbitrary: prev evs)
  case (Cons t ts)
  let ?fd = "ct_socket t" and ?mode = "if overtime > 0 then snd (NonBlockMode sys (ct_socket t) True) else []"
  obtain r' res' evs' where rest: "connect_loop sys overtime ts ?fd = (r', res', evs')" by (rule prod_cases3)
  have mode: "opened ?mode = []" "closed ?mode = []" by simp_all
  from Cons.prems rest consider
      "?fd < 0" "r' = r" "res' = res" "evs' = evs"
    | "r = ?fd" "evs = Opened ?fd # ?mode"
    | "r' = r" "res' = res" "evs = Opened ?fd # ?mode @ [ClosedFd ?fd] @ evs'"
    by (auto simp: Let_def split: if_splits)
  then show ?case
  proof cases
    case 1
    with Cons.IH [OF rest [unfolded 1]] Cons.prems show ?thesis by simp
  next
    case 2
    then show ?thesis using mode by simp
  next
    case 3
    with Cons.IH [OF rest [unfolded 3(1,2)]] Cons.prems mode show ?thesis by simp
  qed
qed simp

subsection \<open>Properties\<close>

text \<open>\<open>TcpConnect\<close> leaves open exactly the descriptor it returns. When it returns one (and no
  \<open>TCP_NODELAY\<close> call failed), every other descriptor it opened on the way has been closed.\<close>

theorem TcpConnect_returns_open:
  assumes "TcpConnect sys (Some ts) conn_overtime = (r, evs)" and "0 \<le> r"
    and "\<forall>t\<in>set ts. ct_nodelay t = 0"
  shows "mset (opened evs) = mset (closed evs) + {#r#}"
proof -
  obtain fd res evs0 where loop: "connect_loop sys conn_overtime ts (-1) = (fd, res, evs0)"
    by (rule prod_cases3)
  from assms(1,2) loop have "r = fd" "res"
    and evs: "evs = evs0 @ (if conn_overtime > 0 then snd (NonBlockMode sys fd False) else [])"
    by (auto simp: TcpConnect_def Let_def split: prod.splits if_splits)
  with connect_loop_fds [OF loop assms(3)] assms(2) show ?thesis by simp
qed

definition demo_calls :: fd_calls where
  "demo_calls = \<lparr>getfl = (\<lambda>fd. if fd < 0 then -1 else 2), setfl = (\<lambda>_ _. 0), fionbio = (\<lambda>_ _. 0)\<rparr>"

definition demo_try :: "int \<Rightarrow> int \<Rightarrow> int \<Rightarrow> conn_try" where
  "demo_try fd conn sel = \<lparr>ct_socket = fd, ct_nodelay = 0, ct_connect = conn, ct_inprogress = True, ct_select = sel\<rparr>"

lemma demo_mode: "NonBlockMode demo_calls 4 m = (True, [SetFlags 4 (2 OR (if m then O_NONBLOCK else NOT O_NONBLOCK)) 0])"
  by (simp add: NonBlockMode_def demo_calls_def word_sless_alt)

theorem TcpConnect_returns_open_witness:
  "\<exists>evs. TcpConnect demo_calls (Some [demo_try 3 (-1) (-1), demo_try 4 (-1) 1]) 15 = (4, evs) \<and>
     mset (opened evs) = mset (closed evs) + {#4#} \<and> closed evs = [3]"
proof -
  let ?ts = "[demo_try 3 (-1) (-1), demo_try 4 (-1) 1]"
  obtain evs where evs: "TcpConnect demo_calls (Some ?ts) 15 = (4, evs)" "closed evs = [3]"
    by (simp add: TcpConnect_def Let_def demo_try_def demo_mode)
  moreover have "\<forall>t\<in>set ?ts. ct_nodelay t = 0" by (simp add: demo_try_def)
  ultimately show ?thesis using TcpConnect_returns_open [OF evs(1)] by auto
qed

text \<open>The outcome of a connection in progress depends on \<open>select\<close> alone. When it times out the
  result is -1, never \<open>TCP_CONN_TIMEOUT\<close>, and the connecting descriptor is left open; when it
  reports the descriptor as ready, that descriptor is returned as connected if its mode could be
  set: the error of a refused connection is not looked at.\<close>

theorem TcpConnect_in_progress:
  assumes "0 < conn_overtime" and "0 \<le> ct_socket t" and "ct_nodelay t = 0" and "ct_connect t < 0"
    and "ct_inprogress t" and "ct_select t \<noteq> -1" and "getfl sys TCP_CONN_TIMEOUT <s 0"
  shows "\<exists>evs. TcpConnect sys (Some (t # ts)) conn_overtime =
      (if ct_select t = 0 then -1
       else if fst (NonBlockMode sys (ct_socket t) False) then ct_socket t else -1, evs) \<and>
    opened evs = [ct_socket t] \<and> closed evs = []"
proof -
  have "NonBlockMode sys TCP_CONN_TIMEOUT False = (False, [])"
    using assms(7) by (simp add: NonBlockMode_def)
  with assms show ?thesis
    by (auto simp: TcpConnect_def Let_def split: prod.splits)
      (metis NonBlockMode_events snd_conv)+
qed

theorem TcpConnect_in_progress_witness:
  "\<exists>evs. TcpConnect demo_calls (Some [demo_try 4 (-1) 0]) 15 = (-1, evs) \<and> opened evs = [4] \<and> closed evs = []"
proof -
  have "getfl demo_calls TCP_CONN_TIMEOUT <s 0" by (simp add: demo_calls_def word_sless_alt)
  with TcpConnect_in_progress [of 15 "demo_try 4 (-1) 0" demo_calls "[]"] show ?thesis
    by (simp add: demo_try_def)
qed

text \<open>\<open>NonBlockMode\<close> never asks for blocking mode with \<open>fcntl\<close>. The flags it sets have the
  \<open>O_NONBLOCK\<close> bit when the mode is asked for, and otherwise keep that bit as it was and set
  every other one: a descriptor stays non-blocking.\<close>

theorem NonBlockMode_keeps_flag:
  assumes "SetFlags fd opts r \<in> set (snd (NonBlockMode sys sock mode))"
  shows "bit opts 11 = (mode \<or> bit (getfl sys sock) 11) \<and>
    (\<not> mode \<longrightarrow> (\<forall>n<32. n \<noteq> 11 \<longrightarrow> bit opts n))"
proof -
  define w :: u32 where "w = O_NONBLOCK"
  have flag: "bit w n \<longleftrightarrow> n = 11" for n
  proof -
    have "w = push_bit 11 1" by (simp add: w_def)
    then show ?thesis by (auto simp only: bit_simps) (auto simp: bit_simps)
  qed
  from assms have "opts = (if mode then getfl sys sock OR w else getfl sys sock OR NOT w)"
    unfolding w_def by (auto simp: NonBlockMode_def Let_def split: if_splits)
  then show ?thesis by (auto simp: bit_or_iff bit_not_iff flag)
qed

theorem NonBlockMode_keeps_flag_witness:
  "\<exists>opts. SetFlags 4 opts 0 \<in> set (snd (NonBlockMode (demo_calls\<lparr>getfl := (\<lambda>_. 0x802)\<rparr>) 4 False)) \<and> bit opts 11"
proof -
  let ?sys = "demo_calls\<lparr>getfl := (\<lambda>_. 0x802)\<rparr>"
  obtain opts where o: "SetFlags 4 opts 0 \<in> set (snd (NonBlockMode ?sys 4 False))"
    by (simp add: NonBlockMode_def demo_calls_def word_sless_alt)
  have "bit (getfl ?sys 4) 11" by (simp add: bit_simps)
  with NonBlockMode_keeps_flag [OF o] o show ?thesis by auto
qed

end
