(* ===== verification/Dictionary.thy ===== *)
theory Dictionary
  imports Prelude
begin

section \<open>The string dictionary of config\_parser/dictionary.cpp\<close>

text \<open>
  Three parallel arrays of keys, values and hash values, with free slots between the
  entries. A key is stored as a C string (no NUL inside); a value may be NULL. Pointers
  that the callers compare with \<open>NULL\<close> or with the sentinel \<open>(char*)-1\<close> are the type
  \<open>cptr\<close>. Allocation is taken to succeed. The \<open>int\<close> fields \<open>n\<close> and \<open>size\<close> are natural numbers here: they
  are never negative, and \<open>dictionary_is_map\<close> shows that \<open>2 ^ 30\<close> calls do not make them overflow. The lemmas show the invariant of the arrays and
  that the operations are those of a finite map; the locale \<open>string_store\<close> is the
  interface the ini parser and the configuration reader use.
\<close>

datatype cptr = NullPtr | InvalidKey | Ptr string

definition val_ptr :: "string option \<Rightarrow> cptr" where
  "val_ptr v = (case v of None \<Rightarrow> NullPtr | Some s \<Rightarrow> Ptr s)"

abbreviation DICTMINSZ :: nat where "DICTMINSZ \<equiv> 128"

record dictionary =
  d_n :: nat
  d_size :: nat
  d_val :: "string option list"
  d_key :: "string option list"
  d_hash :: "u32 list"

subsection \<open>Operations\<close>

fun hash_loop :: "u32 \<Rightarrow> string \<Rightarrow> u32" where
  "hash_loop hash [] = hash"
| "hash_loop hash (c # key) =
     (let h1 = hash + schar c; h2 = h1 + push_bit 10 h1; h3 = h2 XOR drop_bit 6 h2
      in hash_loop h3 key)"

definition dictionary_hash :: "string \<Rightarrow> u32" where
  "dictionary_hash key =
     (let h0 = hash_loop 0 (c_str key); h1 = h0 + push_bit 3 h0; h2 = h1 XOR drop_bit 11 h1
      in h2 + push_bit 15 h2)"

text \<open>The array doubled by \<open>calloc\<close>, \<open>memcpy\<close> and \<open>free\<close>: the new half is zero.\<close>

definition mem_double :: "'a \<Rightarrow> 'a list \<Rightarrow> 'a list" where
  "mem_double zero arr = arr @ replicate (length arr) zero"

definition dictionary_new :: "nat \<Rightarrow> dictionary" where
  "dictionary_new size0 =
     (let sz = (if size0 < DICTMINSZ then DICTMINSZ else size0)
      in \<lparr>d_n = 0, d_size = sz, d_val = replicate sz None, d_key = replicate sz None,
          d_hash = replicate sz 0\<rparr>)"

text \<open>The search loop of \<open>dictionary_get\<close>, \<open>dictionary_set\<close> and \<open>dictionary_unset\<close>, from slot \<open>i\<close> for
  \<open>k\<close> more slots.\<close>

fun find_key :: "dictionary \<Rightarrow> u32 \<Rightarrow> string \<Rightarrow> nat \<Rightarrow> nat \<Rightarrow> nat option" where
  "find_key d hash key i 0 = None"
| "find_key d hash key i (Suc k) =
     (case d_key d ! i of
        None \<Rightarrow> find_key d hash key (Suc i) k
      | Some key_i \<Rightarrow>
          if hash = d_hash d ! i \<and> key = key_i then Some i else find_key d hash key (Suc i) k)"

definition dictionary_get :: "dictionary \<Rightarrow> string \<Rightarrow> cptr \<Rightarrow> cptr" where
  "dictionary_get d key deflt =
     (case find_key d (dictionary_hash key) key 0 (d_size d) of
        Some i \<Rightarrow> val_ptr (d_val d ! i)
      | None \<Rightarrow> deflt)"

definition dictionary_grow :: "dictionary \<Rightarrow> dictionary" where
  "dictionary_grow d =
     d\<lparr>d_val := mem_double None (d_val d), d_key := mem_double None (d_key d),
       d_hash := mem_double 0 (d_hash d), d_size := d_size d * 2\<rparr>"

text \<open>The search for a free slot from \<open>d->n\<close>, wrapping at the end. The fuel is the number of
  slots the loop may still look at; out of fuel is a loop that does not end.\<close>

fun probe :: "'a option list \<Rightarrow> nat \<Rightarrow> nat \<Rightarrow> nat \<Rightarrow> nat option" where
  "probe keys sz i 0 = None"
| "probe keys sz i (Suc fuel) =
     (if keys ! i = None then Some i
      else probe keys sz (if Suc i = sz then 0 else Suc i) fuel)"

definition dictionary_set ::
  "dictionary option \<Rightarrow> string option \<Rightarrow> string option \<Rightarrow> (int \<times> dictionary option) option" where
  "dictionary_set dp keyp val =
     (case (dp, keyp) of
        (Some d, Some key) \<Rightarrow>
          (let hash = dictionary_hash key in
           case (if 0 < d_n d then find_key d hash key 0 (d_size d) else None) of
             Some i \<Rightarrow> Some (0, Some (d\<lparr>d_val := (d_val d)[i := val]\<rparr>))
           | None \<Rightarrow>
               (let d' = (if d_n d = d_size d then dictionary_grow d else d) in
                case probe (d_key d') (d_size d') (d_n d') (d_size d') of
                  None \<Rightarrow> None
                | Some i \<Rightarrow>
                    Some (0, Some (d'\<lparr>d_key := (d_key d')[i := Some key], d_val := (d_val d')[i := val],
                                      d_hash := (d_hash d')[i := hash], d_n := d_n d' + 1\<rparr>))))
      | _ \<Rightarrow> Some (-1, dp))"

definition dictionary_unset :: "dictionary \<Rightarrow> string option \<Rightarrow> dictionary" where
  "dictionary_unset d keyp =
     (case keyp of
        None \<Rightarrow> d
      | Some key \<Rightarrow>
          (case find_key d (dictionary_hash key) key 0 (d_size d) of
             None \<Rightarrow> d
           | Some i \<Rightarrow> d\<lparr>d_key := (d_key d)[i := None], d_val := (d_val d)[i := None],
                         d_hash := (d_hash d)[i := 0], d_n := d_n d - 1\<rparr>))"

definition dump_line :: "string \<Rightarrow> string option \<Rightarrow> string" where
  "dump_line key val =
     replicate (20 - length key) CHR '' '' @ key @ [CHR 0x09] @ ''['' @
     (case val of None \<Rightarrow> ''UNDEF'' | Some v \<Rightarrow> v) @ '']'' @ [CHR 0x0A]"

definition dictionary_dump :: "dictionary option \<Rightarrow> string" where
  "dictionary_dump dp =
     (case dp of
        None \<Rightarrow> []
      | Some d \<Rightarrow>
          if d_n d < 1 then ''empty dictionary'' @ [CHR 0x0A]
          else concat (map (\<lambda>i. case d_key d ! i of None \<Rightarrow> [] | Some key \<Rightarrow> dump_line key (d_val d ! i))
                 [0..<d_size d]))"

subsection \<open>The invariant and the map it stands for\<close>

definition occupied :: "'a option list \<Rightarrow> nat" where
  "occupied keys = length (filter (\<lambda>k. k \<noteq> None) keys)"

definition dict_wf :: "dictionary \<Rightarrow> bool" where
  "dict_wf d \<longleftrightarrow>
     0 < d_size d \<and> length (d_key d) = d_size d \<and> length (d_val d) = d_size d \<and>
     length (d_hash d) = d_size d \<and>
     d_n d = occupied (d_key d) \<and>
     (\<forall>i < d_size d. \<forall>k. d_key d ! i = Some k \<longrightarrow> d_hash d ! i = dictionary_hash k) \<and>
     (\<forall>i < d_size d. \<forall>j < d_size d. d_key d ! i = d_key d ! j \<longrightarrow> d_key d ! i \<noteq> None \<longrightarrow> i = j)"

text \<open>The map, read off the arrays without any use of the hash values.\<close>

definition dict_map :: "dictionary \<Rightarrow> string \<Rightarrow> string option option" where
  "dict_map d key =
     map_option (\<lambda>i. d_val d ! i) (find (\<lambda>i. d_key d ! i = Some key) [0..<d_size d])"

lemma dict_wf_inj:
  "dict_wf d \<Longrightarrow> i < d_size d \<Longrightarrow> j < d_size d \<Longrightarrow> d_key d ! i = Some k \<Longrightarrow> d_key d ! j = Some k \<Longrightarrow> i = j"
  by (simp add: dict_wf_def)

lemma dict_map_iff:
  assumes "dict_wf d"
  shows "dict_map d key = Some v \<longleftrightarrow> (\<exists>i < d_size d. d_key d ! i = Some key \<and> d_val d ! i = v)"
proof
  assume "dict_map d key = Some v"
  then obtain i where "find (\<lambda>i. d_key d ! i = Some key) [0..<d_size d] = Some i" "d_val d ! i = v"
    by (auto simp: dict_map_def)
  with find_SomeD [OF this(1)] show "\<exists>i < d_size d. d_key d ! i = Some key \<and> d_val d ! i = v" by auto
next
  assume "\<exists>i < d_size d. d_key d ! i = Some key \<and> d_val d ! i = v"
  then obtain i where i: "i < d_size d" "d_key d ! i = Some key" "d_val d ! i = v" by auto
  then have "find (\<lambda>i. d_key d ! i = Some key) [0..<d_size d] \<noteq> None"
    by (auto simp: find_None_iff)
  then obtain j where j: "find (\<lambda>i. d_key d ! i = Some key) [0..<d_size d] = Some j" by auto
  from find_SomeD [OF this] i dict_wf_inj [OF assms] have "j = i" by auto
  with j i(3) show "dict_map d key = Some v" by (simp add: dict_map_def)
qed

lemma dict_map_None: "dict_map d key = None \<longleftrightarrow> (\<forall>i < d_size d. d_key d ! i \<noteq> Some key)"
  by (auto simp: dict_map_def find_None_iff)

lemma dict_map_eqI: "(\<And>k v. dict_map d k = Some v \<longleftrightarrow> m k = Some v) \<Longrightarrow> dict_map d = m"
  by (rule ext) (metis not_None_eq)

lemma dict_map_transfer:
  assumes "dict_wf d" "dict_wf d'"
    and "\<And>j. (j < d_size d' \<and> d_key d' ! j = Some k \<and> d_val d' ! j = v) \<longleftrightarrow>
              (j < d_size d \<and> d_key d ! j = Some k \<and> d_val d ! j = v)"
  shows "dict_map d' k = Some v \<longleftrightarrow> dict_map d k = Some v"
  using assms by (simp add: dict_map_iff)

text \<open>Under the invariant the hash comparison decides nothing.\<close>

lemma find_key_find:
  assumes "dict_wf d" "i + k \<le> d_size d"
  shows "find_key d (dictionary_hash key) key i k = find (\<lambda>j. d_key d ! j = Some key) [i..<i + k]"
  using assms(2)
proof (induction k arbitrary: i)
  case (Suc k)
  have "d_hash d ! i = dictionary_hash k'" if "d_key d ! i = Some k'" for k'
    using that assms(1) Suc.prems by (simp add: dict_wf_def)
  with Suc show ?case by (auto simp: upt_add_Suc simp del: upt_Suc split: option.splits)
qed simp

lemma find_key_dict_map:
  assumes "dict_wf d"
  shows "map_option (\<lambda>i. d_val d ! i) (find_key d (dictionary_hash key) key 0 (d_size d)) = dict_map d key"
  using find_key_find [OF assms, of 0 "d_size d" key] by (simp add: dict_map_def)

lemma find_key_Some:
  assumes "dict_wf d" "find_key d (dictionary_hash key) key 0 (d_size d) = Some i"
  shows "i < d_size d" "d_key d ! i = Some key"
  using assms find_key_find [OF assms(1), of 0 "d_size d" key] by (auto simp: find_Some_iff)

lemma find_key_None:
  assumes "dict_wf d"
  shows "find_key d (dictionary_hash key) key 0 (d_size d) = None \<longleftrightarrow> dict_map d key = None"
  using find_key_dict_map [OF assms, of key] by auto

lemma occupied_simps [simp]:
  "occupied [] = 0"
  "occupied (None # keys) = occupied keys"
  "occupied (Some k # keys) = Suc (occupied keys)"
  "occupied (xs @ ys) = occupied xs + occupied ys"
  "occupied (replicate n None) = 0"
  by (simp_all add: occupied_def)

lemma occupied_le: "occupied keys \<le> length keys"
  by (simp add: occupied_def)

lemma occupied_fill: "i < length xs \<Longrightarrow> xs ! i = None \<Longrightarrow> occupied (xs[i := Some k]) = Suc (occupied xs)"
  by (induction xs arbitrary: i) (auto simp: less_Suc_eq_0_disj occupied_def)

lemma occupied_clear: "i < length xs \<Longrightarrow> xs ! i = Some k \<Longrightarrow> occupied xs = Suc (occupied (xs[i := None]))"
  by (induction xs arbitrary: i) (auto simp: less_Suc_eq_0_disj occupied_def)

lemma occupied_pos: "i < length xs \<Longrightarrow> xs ! i = Some k \<Longrightarrow> 0 < occupied xs"
  using occupied_clear [of i xs k] by simp

subsection \<open>The probe loop ends\<close>

lemma probe_enough:
  assumes "i < sz" "j < sz" "keys ! j = None"
    and "(if i \<le> j then j - i else sz - i + j) < fuel"
  shows "\<exists>l. probe keys sz i fuel = Some l \<and> l < sz \<and> keys ! l = None"
  using assms(1,4)
proof (induction fuel arbitrary: i)
  case (Suc fuel)
  show ?case
  proof (cases "keys ! i")
    case None
    with Suc.prems show ?thesis by simp
  next
    case (Some k)
    let ?i = "if Suc i = sz then 0 else Suc i"
    from Some assms(3) have "i \<noteq> j" by auto
    with Suc.prems assms(2) have "(if ?i \<le> j then j - ?i else sz - ?i + j) < fuel" "?i < sz"
      by (auto split: if_splits)
    from Suc.IH [OF this(2,1)] Some show ?thesis by simp
  qed
qed simp

lemma probe_free_slot:
  assumes "length keys = sz" "i < sz" "occupied keys < sz"
  obtains l where "probe keys sz i sz = Some l" "l < sz" "keys ! l = None"
proof -
  have "\<exists>j < sz. keys ! j = None"
    using assms(1,3) filter_shorter [of "\<lambda>k. k \<noteq> None" keys]
    by (auto simp: occupied_def in_set_conv_nth)
  then obtain j where j: "j < sz" "keys ! j = None" by auto
  moreover have "(if i \<le> j then j - i else sz - i + j) < sz"
    using assms(2) j(1) by auto
  ultimately show ?thesis using probe_enough [OF assms(2) j] that by auto
qed

subsection \<open>The operations on the map\<close>

lemma dictionary_get_map:
  "dict_wf d \<Longrightarrow> dictionary_get d key deflt =
     (case dict_map d key of Some v \<Rightarrow> val_ptr v | None \<Rightarrow> deflt)"
  using find_key_dict_map [of d key] by (auto simp: dictionary_get_def split: option.splits)

lemma dict_wf_new: "dict_wf (dictionary_new n)"
  by (auto simp: dict_wf_def dictionary_new_def Let_def)

lemma dict_map_new: "dict_map (dictionary_new n) = (\<lambda>_. None)"
  by (rule ext) (simp add: dict_map_None dictionary_new_def Let_def)

lemma dict_map_val:
  assumes "dict_wf d" "i < d_size d" "d_key d ! i = Some key"
  shows "dict_map (d\<lparr>d_val := (d_val d)[i := val]\<rparr>) = (dict_map d)(key \<mapsto> val)"
    and "dict_wf (d\<lparr>d_val := (d_val d)[i := val]\<rparr>)"
proof -
  let ?d = "d\<lparr>d_val := (d_val d)[i := val]\<rparr>"
  show wf: "dict_wf ?d" using assms(1) by (simp add: dict_wf_def)
  have len: "length (d_val d) = d_size d" using assms(1) by (simp add: dict_wf_def)
  have uniq: "j = i" if "j < d_size d" "d_key d ! j = Some key" for j
    using dict_wf_inj [OF assms(1) that(1) assms(2) that(2) assms(3)] .
  show "dict_map ?d = (dict_map d)(key \<mapsto> val)"
  proof (rule dict_map_eqI)
    fix k v
    show "dict_map ?d k = Some v \<longleftrightarrow> ((dict_map d)(key \<mapsto> val)) k = Some v"
    proof (cases "k = key")
      case True
      with assms(2,3) len show ?thesis
        unfolding dict_map_iff [OF wf] by (auto simp: nth_list_update dest: uniq)
    next
      case False
      then have "(d_val d)[i := val] ! j = d_val d ! j" if "d_key d ! j = Some k" for j
        using that assms(3) by (cases "j = i") auto
      with False show ?thesis
        unfolding fun_upd_other [OF False] dict_map_iff [OF wf] dict_map_iff [OF assms(1)] by auto
    qed
  qed
qed

lemma dict_grow:
  assumes "dict_wf d"
  shows "dict_wf (dictionary_grow d)" and "dict_map (dictionary_grow d) = dict_map d"
proof -
  have len: "length (d_key d) = d_size d" "length (d_val d) = d_size d" "length (d_hash d) = d_size d"
    using assms by (simp_all add: dict_wf_def)
  let ?d = "dictionary_grow d"
  have sz: "d_size ?d = d_size d * 2" by (simp add: dictionary_grow_def)
  have key: "d_key ?d ! i = (if i < d_size d then d_key d ! i else None)" if "i < d_size d * 2" for i
    using that len by (simp add: dictionary_grow_def mem_double_def nth_append)
  have hash: "d_hash ?d ! i = d_hash d ! i" if "i < d_size d" for i
    using that len by (simp add: dictionary_grow_def mem_double_def nth_append)
  have val: "d_val ?d ! i = d_val d ! i" if "i < d_size d" for i
    using that len by (simp add: dictionary_grow_def mem_double_def nth_append)
  have "length (d_key ?d) = d_size d * 2" "length (d_val ?d) = d_size d * 2"
      "length (d_hash ?d) = d_size d * 2" "d_n ?d = d_n d" "occupied (d_key ?d) = occupied (d_key d)"
    using len by (simp_all add: dictionary_grow_def mem_double_def)
  with key hash assms sz show wf: "dict_wf ?d"
    unfolding dict_wf_def by simp
  show "dict_map ?d = dict_map d"
  proof (rule dict_map_eqI)
    fix k v
    have "(i < d_size d * 2 \<and> d_key ?d ! i = Some k \<and> d_val ?d ! i = v) \<longleftrightarrow>
        (i < d_size d \<and> d_key d ! i = Some k \<and> d_val d ! i = v)" for i
      using key [of i] val [of i] by (cases "i < d_size d") auto
    then show "dict_map ?d k = Some v \<longleftrightarrow> dict_map d k = Some v"
      unfolding dict_map_iff [OF wf] dict_map_iff [OF assms] sz by simp
  qed
qed

lemma dict_insert:
  fixes val :: "string option"
  assumes wf: "dict_wf d" and i: "i < d_size d" "d_key d ! i = None" and new: "dict_map d key = None"
  defines d'_def: "d' \<equiv> d\<lparr>d_key := (d_key d)[i := Some key], d_val := (d_val d)[i := val],
                  d_hash := (d_hash d)[i := dictionary_hash key], d_n := d_n d + 1\<rparr>"
  shows "dict_wf d'" and "dict_map d' = (dict_map d)(key \<mapsto> val)"
proof -
  have len: "length (d_key d) = d_size d" "length (d_val d) = d_size d" "length (d_hash d) = d_size d"
    using wf by (simp_all add: dict_wf_def)
  have other: "d_key d ! j \<noteq> Some key" if "j < d_size d" for j
    using new that by (simp add: dict_map_None)
  have "occupied ((d_key d)[i := Some key]) = d_n d + 1"
    using i wf len by (simp add: dict_wf_def occupied_fill)
  then show wf': "dict_wf d'"
    using wf i len other other [symmetric] by (auto simp: dict_wf_def d'_def nth_list_update)
  have nth: "d_size d' = d_size d" "\<And>j. j < d_size d \<Longrightarrow> d_key d' ! j = (if j = i then Some key else d_key d ! j)"
    "\<And>j. j < d_size d \<Longrightarrow> d_val d' ! j = (if j = i then val else d_val d ! j)"
    using len i(1) by (simp_all add: d'_def nth_list_update)
  show "dict_map d' = (dict_map d)(key \<mapsto> val)"
  proof (rule dict_map_eqI)
    fix k v
    show "dict_map d' k = Some v \<longleftrightarrow> ((dict_map d)(key \<mapsto> val)) k = Some v"
    proof (cases "k = key")
      case True
      with other i nth show ?thesis by (auto simp: dict_map_iff [OF wf'])
    next
      case False
      then have "dict_map d' k = Some v \<longleftrightarrow> dict_map d k = Some v"
        using i nth by (intro dict_map_transfer [OF wf wf']) (auto split: if_splits)
      with False show ?thesis by simp
    qed
  qed
qed

text \<open>\<open>dictionary_set\<close> on a well-formed dictionary always returns 0: the probe loop finds the free
  slot that the growth step guarantees.\<close>

lemma dictionary_set_ok:
  assumes wf: "dict_wf d"
  obtains d' where "dictionary_set (Some d) (Some key) val = Some (0, Some d')"
    "dict_wf d'" "dict_map d' = (dict_map d)(key \<mapsto> val)"
proof (cases "dict_map d key")
  case (Some v)
  then obtain i where i: "find_key d (dictionary_hash key) key 0 (d_size d) = Some i"
    using find_key_None [OF wf, of key] by auto
  from find_key_Some [OF wf i] have "i < d_size d" "d_key d ! i = Some key" .
  moreover from this wf have "0 < d_n d"
    using occupied_pos [of i "d_key d" key] by (simp add: dict_wf_def)
  ultimately show ?thesis
    using that [of "d\<lparr>d_val := (d_val d)[i := val]\<rparr>"] dict_map_val [OF wf] i
    by (simp add: dictionary_set_def Let_def)
next
  case None
  define d1 where "d1 = (if d_n d = d_size d then dictionary_grow d else d)"
  have wf': "dict_wf d1" and map': "dict_map d1 = dict_map d"
    using dict_grow [OF wf] wf by (simp_all add: d1_def)
  have "d_n d \<le> d_size d" using wf occupied_le [of "d_key d"] by (simp add: dict_wf_def)
  then have "d_n d1 < d_size d1" using wf by (auto simp: d1_def dictionary_grow_def dict_wf_def)
  then obtain i where i: "probe (d_key d1) (d_size d1) (d_n d1) (d_size d1) = Some i"
      "i < d_size d1" "d_key d1 ! i = None"
    using wf' by (metis dict_wf_def probe_free_slot)
  have miss: "(if 0 < d_n d then find_key d (dictionary_hash key) key 0 (d_size d) else None) = None"
    using None find_key_None [OF wf] by simp
  with i(1) have "dictionary_set (Some d) (Some key) val = Some (0, Some (d1\<lparr>
      d_key := (d_key d1)[i := Some key], d_val := (d_val d1)[i := val],
      d_hash := (d_hash d1)[i := dictionary_hash key], d_n := d_n d1 + 1\<rparr>))"
    unfolding dictionary_set_def prod.case option.case Let_def miss d1_def [symmetric] by simp
  with that dict_insert [OF wf' i(2,3), of key val] None map' show ?thesis by simp
qed

lemma dictionary_unset_map:
  assumes wf: "dict_wf d"
  shows "dict_wf (dictionary_unset d (Some key))"
    and "dict_map (dictionary_unset d (Some key)) = (dict_map d)(key := None)"
proof -
  have "dict_wf (dictionary_unset d (Some key)) \<and>
    dict_map (dictionary_unset d (Some key)) = (dict_map d)(key := None)"
  proof (cases "find_key d (dictionary_hash key) key 0 (d_size d)")
    case None
    then show ?thesis
      using wf find_key_None [OF wf, of key] by (auto simp: dictionary_unset_def)
  next
    case (Some i)
    let ?d = "d\<lparr>d_key := (d_key d)[i := None], d_val := (d_val d)[i := None],
                d_hash := (d_hash d)[i := 0], d_n := d_n d - 1\<rparr>"
    from find_key_Some [OF wf Some] have i: "i < d_size d" "d_key d ! i = Some key" .
    have len: "length (d_key d) = d_size d" "length (d_val d) = d_size d" "length (d_hash d) = d_size d"
      using wf by (simp_all add: dict_wf_def)
    have wf': "dict_wf ?d"
      using wf i len occupied_clear [of i "d_key d" key]
      by (auto simp: dict_wf_def nth_list_update)
    have uniq: "j = i" if "j < d_size d" "d_key d ! j = Some key" for j
      using dict_wf_inj [OF wf that(1) i(1) that(2) i(2)] .
    have "dict_map ?d = (dict_map d)(key := None)"
    proof (rule dict_map_eqI)
      fix k v
      show "dict_map ?d k = Some v \<longleftrightarrow> ((dict_map d)(key := None)) k = Some v"
      proof (cases "k = key")
        case True
        with i len show ?thesis
          unfolding dict_map_iff [OF wf'] by (auto simp: nth_list_update dest: uniq)
      next
        case False
        then have "dict_map ?d k = Some v \<longleftrightarrow> dict_map d k = Some v"
          using i len by (intro dict_map_transfer [OF wf wf']) (auto simp: nth_list_update)
        with False show ?thesis by simp
      qed
    qed
    with wf' Some show ?thesis by (simp add: dictionary_unset_def)
  qed
  then show "dict_wf (dictionary_unset d (Some key))"
    "dict_map (dictionary_unset d (Some key)) = (dict_map d)(key := None)" by auto
qed

subsection \<open>The interface of the store\<close>

text \<open>
  What the ini parser and the configuration reader rely on: a stored pair is found again,
  other keys keep their values, and the invariant is kept. The lemmas are stated once for
  any provider.
\<close>

locale string_store =
  fixes wf :: "'d \<Rightarrow> bool"
    and look :: "'d \<Rightarrow> string \<Rightarrow> string option option"
    and get :: "'d \<Rightarrow> string \<Rightarrow> cptr \<Rightarrow> cptr"
    and put :: "'d \<Rightarrow> string \<Rightarrow> string option \<Rightarrow> 'd"
    and remove :: "'d \<Rightarrow> string \<Rightarrow> 'd"
  assumes get_look: "wf d \<Longrightarrow> get d k dflt = (case look d k of Some v \<Rightarrow> val_ptr v | None \<Rightarrow> dflt)"
    and wf_put: "wf d \<Longrightarrow> wf (put d k v)"
    and look_put: "wf d \<Longrightarrow> look (put d k v) = (look d)(k \<mapsto> v)"
    and wf_remove: "wf d \<Longrightarrow> wf (remove d k)"
    and look_remove: "wf d \<Longrightarrow> look (remove d k) = (look d)(k := None)"
begin

lemma get_put: "wf d \<Longrightarrow> get (put d k v) k' dflt = (if k' = k then val_ptr v else get d k' dflt)"
  by (simp add: get_look look_put wf_put)

lemma get_remove: "wf d \<Longrightarrow> get (remove d k) k' dflt = (if k' = k then dflt else get d k' dflt)"
  by (simp add: get_look look_remove wf_remove)

text \<open>Storing a list of pairs: the last pair of a key wins, the other keys are untouched.\<close>

lemma wf_put_all: "wf d \<Longrightarrow> wf (fold (\<lambda>(k, v) d. put d k v) kvs d)"
  by (induction kvs arbitrary: d) (auto simp: wf_put)

lemma look_put_all: "wf d \<Longrightarrow> look (fold (\<lambda>(k, v) d. put d k v) kvs d) = look d ++ map_of (rev kvs)"
  by (induction kvs arbitrary: d) (auto simp: wf_put look_put map_add_upd_left fun_eq_iff map_add_def
      split: option.splits)

end

definition dict_put :: "dictionary \<Rightarrow> string \<Rightarrow> string option \<Rightarrow> dictionary" where
  "dict_put d key val =
     (case dictionary_set (Some d) (Some key) val of Some (_, Some d') \<Rightarrow> d' | _ \<Rightarrow> d)"

lemma dict_put:
  assumes "dict_wf d"
  shows "dictionary_set (Some d) (Some key) val = Some (0, Some (dict_put d key val))"
    "dict_wf (dict_put d key val)" "dict_map (dict_put d key val) = (dict_map d)(key \<mapsto> val)"
proof -
  obtain d' where d': "dictionary_set (Some d) (Some key) val = Some (0, Some d')"
      "dict_wf d'" "dict_map d' = (dict_map d)(key \<mapsto> val)"
    by (rule dictionary_set_ok [OF assms])
  then have "dict_put d key val = d'" by (simp add: dict_put_def)
  with d' show "dictionary_set (Some d) (Some key) val = Some (0, Some (dict_put d key val))"
    "dict_wf (dict_put d key val)" "dict_map (dict_put d key val) = (dict_map d)(key \<mapsto> val)"
    by simp_all
qed

interpretation dict: string_store dict_wf dict_map dictionary_get dict_put
  "\<lambda>d k. dictionary_unset d (Some k)"
  by unfold_locales (auto simp: dictionary_get_map dict_put dictionary_unset_map)

subsection \<open>Properties\<close>

text \<open>Every operation of the dictionary keeps its invariant, whatever the hash values and
  the order of insertions, deletions and growth: \<open>dictionary_new\<close> establishes it,
  \<open>dictionary_set\<close> and \<open>dictionary_unset\<close> preserve it, and on a well-formed dictionary
  \<open>dictionary_set\<close> always terminates with 0.\<close>

theorem dictionary_invariant:
  assumes "dict_wf d"
  shows "dict_wf (dictionary_new n) \<and>
    (\<exists>d'. dictionary_set (Some d) (Some key) val = Some (0, Some d') \<and> dict_wf d') \<and>
    dict_wf (dictionary_unset d keyp)"
proof -
  have "dict_wf (dictionary_unset d keyp)"
  proof (cases keyp)
    case None
    with assms show ?thesis by (simp add: dictionary_unset_def)
  next
    case (Some k)
    with assms show ?thesis by (simp add: dictionary_unset_map)
  qed
  with dict_wf_new [of n] dict_put(1,2) [OF assms, of key val] show ?thesis by blast
qed

theorem dictionary_invariant_witness:
  "\<exists>d'. dictionary_set (Some (dictionary_new 0)) (Some ''k'') None = Some (0, Some d') \<and> dict_wf d'"
proof -
  have "dict_wf (dictionary_new 0)" by (rule dict_wf_new)
  from dictionary_invariant [OF this, of 0 "''k''" None None] show ?thesis by blast
qed

text \<open>A program on a dictionary: any sequence of the three operations, in any order. What it sees are
  the results of the calls; \<open>None\<close> stands for a \<open>dictionary_set\<close> that does not end or whose new
  size overflows the \<open>int\<close> field.\<close>

datatype dict_op = Set_op string "string option" | Unset_op string | Get_op string cptr

datatype dict_result = Set_gave int | Unset_done | Get_gave cptr

fun dict_run :: "dict_op list \<Rightarrow> dictionary \<Rightarrow> dict_result list option" where
  "dict_run [] d = Some []"
| "dict_run (Set_op key val # cs) d =
     (case dictionary_set (Some d) (Some key) val of
        Some (r, Some d') \<Rightarrow>
          if d_size d' < 2 ^ 31 then map_option ((#) (Set_gave r)) (dict_run cs d') else None
      | _ \<Rightarrow> None)"
| "dict_run (Unset_op key # cs) d = map_option ((#) Unset_done) (dict_run cs (dictionary_unset d (Some key)))"
| "dict_run (Get_op key deflt # cs) d = map_option ((#) (Get_gave (dictionary_get d key deflt))) (dict_run cs d)"

text \<open>The same program on a finite map from keys to values.\<close>

fun map_run :: "dict_op list \<Rightarrow> (string \<rightharpoonup> string option) \<Rightarrow> dict_result list" where
  "map_run [] m = []"
| "map_run (Set_op key val # cs) m = Set_gave 0 # map_run cs (m(key \<mapsto> val))"
| "map_run (Unset_op key # cs) m = Unset_done # map_run cs (m(key := None))"
| "map_run (Get_op key deflt # cs) m =
     Get_gave (case m key of None \<Rightarrow> deflt | Some v \<Rightarrow> val_ptr v) # map_run cs m"

text \<open>A dictionary grows when it is full, to twice its entries.\<close>

lemma dictionary_set_size:
  assumes "dictionary_set (Some d) (Some key) val = Some (r, Some d')"
  shows "d_n d' \<le> d_n d + 1" "d_size d' \<le> max (d_size d) (2 * d_n d)"
  using assms by (auto simp: dictionary_set_def Let_def dictionary_grow_def split: option.splits if_splits)

lemma dictionary_unset_size:
  "d_size (dictionary_unset d key) = d_size d" "d_n (dictionary_unset d key) \<le> d_n d"
  by (auto simp: dictionary_unset_def split: option.splits)

lemma dict_run_map:
  "dict_wf d \<Longrightarrow> d_size d < 2 ^ 31 \<Longrightarrow> d_n d + length cs \<le> 2 ^ 30 \<Longrightarrow> dict_run cs d = Some (map_run cs (dict_map d))"
proof (induction cs arbitrary: d)
  case (Cons call cs)
  show ?case
  proof (cases call)
    case (Set_op key val)
    from dictionary_set_size [OF dict_put(1) [OF Cons.prems(1), of key val]] Cons.prems(2,3)
    have "d_size (dict_put d key val) < 2 ^ 31" "d_n (dict_put d key val) + length cs \<le> 2 ^ 30" by auto
    with Cons.IH [of "dict_put d key val"] Cons.prems(1) Set_op show ?thesis by (simp add: dict_put fun_upd_def)
  next
    case (Unset_op key)
    with Cons dictionary_unset_size [of d "Some key"] show ?thesis
      by (simp add: dictionary_unset_map fun_upd_def)
  next
    case (Get_op key deflt)
    with Cons show ?thesis by (simp add: dictionary_get_map split: option.splits)
  qed
qed simp

text \<open>C16: The dictionary is a finite map from strings to values. Whatever sequence of up to \<open>2 ^ 30\<close>
  calls of \<open>dictionary_set\<close>, \<open>dictionary_unset\<close> and \<open>dictionary_get\<close> a program makes on a new dictionary (of
  any size that is an \<open>int\<close>), every call returns, the size stays within an \<open>int\<close>, and every result is the
  one a finite map would give: each \<open>dictionary_set\<close> returns 0, each \<open>dictionary_get\<close> the value last
  stored under the key (NULL where NULL was stored), and the caller's default for a key never stored or
  deleted since. Growth, free slots and hash collisions cannot be observed.\<close>

theorem dictionary_is_map:
  assumes "n < 2 ^ 31" and "length calls \<le> 2 ^ 30"
  shows "dict_run calls (dictionary_new n) = Some (map_run calls Map.empty)"
proof -
  have "d_size (dictionary_new n) < 2 ^ 31" "d_n (dictionary_new n) = 0"
    using assms(1) by (simp_all add: dictionary_new_def Let_def)
  with dict_run_map [OF dict_wf_new] assms(2) show ?thesis by (simp add: dict_map_new)
qed

theorem dictionary_is_map_witness:
  "dict_run [Set_op ''k'' (Some ''v''), Set_op ''x'' None, Unset_op ''k'', Get_op ''k'' InvalidKey, Get_op ''x'' InvalidKey]
     (dictionary_new 0) = Some [Set_gave 0, Set_gave 0, Unset_done, Get_gave InvalidKey, Get_gave NullPtr]"
  using dictionary_is_map [of 0 "[Set_op ''k'' (Some ''v''), Set_op ''x'' None, Unset_op ''k'',
      Get_op ''k'' InvalidKey, Get_op ''x'' InvalidKey]"]
  by (simp add: val_ptr_def)

end
