(* ===== verification/Queues.thy ===== *)
theory Queues
  imports Prelude
begin

section \<open>Intrusive lists: message queues and free lists\<close>

text \<open>
  Five classes of the program keep the same structures: items linked by \<open>next\<close> (\<open>nxt\<close>) pointers, a
  queue given by \<open>head\<close> and \<open>tail\<close>, a free list of items that is filled a block at a time.
  This theory has the store and the pointer code they share, once. The store maps an address
  to an item; \<open>brk\<close> is the first address never handed out; \<open>stray\<close> records the addresses of
  writes outside every block. The locale \<open>fifo\<close> is what the threads rely on.
\<close>

subsection \<open>The store\<close>

text \<open>
  Faults: what the C++ standard leaves undefined, exceptions nobody catches, checks that end the program, and
  waiting for ever, as values.
\<close>

datatype fault =
    NullDeref | UseAfterFree | EndDeref | StrcpyOverflow | BufferOverRead | Hang | HeapOverflow | DivByZero | OutOfRange
  | BadFree | CheckFailed

text \<open>A step that can fault, and the step after it.\<close>

definition and_then :: "fault + 'a \<Rightarrow> ('a \<Rightarrow> fault + 'b) \<Rightarrow> fault + 'b" where
  "and_then x f = (case x of Inl e \<Rightarrow> Inl e | Inr y \<Rightarrow> f y)"

lemma and_then_simps [simp]: "and_then (Inl e) f = Inl e" "and_then (Inr y) f = f y"
  by (simp_all add: and_then_def)

record 'a item =
  content :: "'a option"
  nxt :: "nat option"

record 'a store =
  cells :: "nat \<Rightarrow> 'a item option"
  brk :: nat
  stray :: "int list"

definition empty_store :: "'a store" where
  "empty_store = \<lparr>cells = (\<lambda>_. None), brk = 1, stray = []\<rparr>"

record queue =
  head :: "nat option"
  tail :: "nat option"

definition set_next :: "nat \<Rightarrow> nat option \<Rightarrow> 'a store \<Rightarrow> 'a store" where
  "set_next a p st = st\<lparr>cells := (cells st)(a := map_option (\<lambda>it. it\<lparr>nxt := p\<rparr>) (cells st a))\<rparr>"

definition get_next :: "'a store \<Rightarrow> nat \<Rightarrow> nat option" where
  "get_next st a = (case cells st a of None \<Rightarrow> None | Some it \<Rightarrow> nxt it)"

text \<open>\<open>new\<close> of one item with its payload set, and \<open>delete\<close>.\<close>

definition new_item :: "'a \<Rightarrow> 'a store \<Rightarrow> nat \<times> 'a store" where
  "new_item x st =
     (brk st, st\<lparr>cells := (cells st)(brk st \<mapsto> \<lparr>content = Some x, nxt = None\<rparr>), brk := Suc (brk st)\<rparr>)"

definition delete_item :: "nat \<Rightarrow> 'a store \<Rightarrow> 'a store" where
  "delete_item a st = st\<lparr>cells := (cells st)(a := None)\<rparr>"

subsection \<open>Queue operations\<close>

text \<open>\<open>item->next = NULL\<close>, then the item becomes the head or the successor of the tail, and the tail.\<close>

definition link_tail :: "nat \<Rightarrow> 'a store \<times> queue \<Rightarrow> 'a store \<times> queue" where
  "link_tail a sq =
     (case sq of (st, q) \<Rightarrow>
        (let st = set_next a None st in
         case tail q of
           None \<Rightarrow> (st, q\<lparr>head := Some a, tail := Some a\<rparr>)
         | Some t \<Rightarrow> (set_next t (Some a) st, q\<lparr>tail := Some a\<rparr>)))"

definition unlink_head :: "'a store \<times> queue \<Rightarrow> nat option \<times> queue" where
  "unlink_head sq =
     (case sq of (st, q) \<Rightarrow>
        (case head q of
           None \<Rightarrow> (None, q)
         | Some a \<Rightarrow>
             (let hd' = get_next st a in
              (Some a, q\<lparr>head := hd', tail := (if hd' = None then None else tail q)\<rparr>))))"

subsection \<open>Free lists\<close>

text \<open>
  The loop \<open>for (i = 0; i < n; ++i) ei[i - 1].next = &ei[i]\<close> over a fresh block at \<open>base\<close>.
  Its first round writes to \<open>ei[-1]\<close>, which is no item of the block.
\<close>

fun link_block :: "nat \<Rightarrow> nat \<Rightarrow> nat \<Rightarrow> 'a store \<Rightarrow> 'a store" where
  "link_block base i 0 st = st"
| "link_block base i (Suc k) st =
     link_block base (Suc i) k
       (if i = 0 then st\<lparr>stray := stray st @ [int base - 1]\<rparr>
        else set_next (base + i - 1) (Some (base + i)) st)"

definition alloc_block :: "nat \<Rightarrow> 'a store \<Rightarrow> nat \<times> 'a store" where
  "alloc_block n st =
     (brk st, st\<lparr>cells := (\<lambda>a. if brk st \<le> a \<and> a < brk st + n
                        then Some \<lparr>content = None, nxt = None\<rparr> else cells st a),
                 brk := brk st + n\<rparr>)"

text \<open>Taking an item from the free list, or from a new block of \<open>n\<close> items.\<close>

definition take_item :: "nat \<Rightarrow> 'a store \<times> nat option \<Rightarrow> nat \<times> 'a store \<times> nat option" where
  "take_item n sf =
     (case sf of (st, freelist) \<Rightarrow>
        (case freelist of
           Some a \<Rightarrow> (a, st, get_next st a)
         | None \<Rightarrow>
             (case alloc_block n st of (base, st) \<Rightarrow>
                (let st = link_block base 0 n st;
                     st = set_next (base + n - 1) None st;
                     st = set_next (base + n - 1) freelist st
                 in (base, st, Some (base + 1))))))"

text \<open>
  \<open>free\<close> of an item of a list whose blocks all have \<open>n\<close> items, the first of them at address 1. Only the
  pointer \<open>malloc\<close> returned may be freed, once, and the whole block goes with it.
\<close>

definition block_start :: "nat \<Rightarrow> nat \<Rightarrow> bool" where
  "block_start n a \<longleftrightarrow> a mod n = 1"

definition free_item :: "nat \<Rightarrow> nat \<Rightarrow> 'a store \<Rightarrow> fault + 'a store" where
  "free_item n a st =
     (if (case cells st a of None \<Rightarrow> True | Some _ \<Rightarrow> False) then Inl UseAfterFree
      else if \<not> block_start n a then Inl BadFree
      else Inr (st\<lparr>cells := (\<lambda>b. if a \<le> b \<and> b < a + n then None else cells st b)\<rparr>))"

definition give_item :: "nat \<Rightarrow> 'a store \<times> nat option \<Rightarrow> 'a store \<times> nat option" where
  "give_item a sf = (case sf of (st, freelist) \<Rightarrow> (set_next a freelist st, Some a))"

subsection \<open>Chains\<close>

definition live :: "'a store \<Rightarrow> nat \<Rightarrow> bool" where
  "live st a \<longleftrightarrow> (case cells st a of None \<Rightarrow> False | Some _ \<Rightarrow> True)"

fun chain :: "'a store \<Rightarrow> nat option \<Rightarrow> nat list \<Rightarrow> bool" where
  "chain st p [] \<longleftrightarrow> p = None"
| "chain st p (a # as) \<longleftrightarrow> p = Some a \<and> live st a \<and> chain st (get_next st a) as"

definition queue_of :: "'a store \<times> queue \<Rightarrow> nat list \<Rightarrow> bool" where
  "queue_of sq as \<longleftrightarrow>
     (case sq of (st, q) \<Rightarrow>
        chain st (head q) as \<and> distinct as \<and> tail q = (if as = [] then None else Some (last as)))"

lemma live_set_next [simp]: "live (set_next a p st) b = live st b"
  by (simp add: set_next_def live_def split: option.splits)

lemma get_next_set_next:
  "get_next (set_next a p st) b = (if a = b \<and> live st a then p else get_next st b)"
  by (auto simp: get_next_def set_next_def live_def split: option.splits)

lemma brk_set_next [simp]: "brk (set_next a p st) = brk st" "stray (set_next a p st) = stray st"
  by (simp_all add: set_next_def)

lemma chain_cong:
  "(\<And>a. a \<in> set as \<Longrightarrow> get_next st' a = get_next st a \<and> live st' a = live st a) \<Longrightarrow>
   chain st' p as = chain st p as"
  by (induction as arbitrary: p) auto

lemma chain_set_next: "a \<notin> set as \<Longrightarrow> chain (set_next a q st) p as = chain st p as"
  by (rule chain_cong) (auto simp: get_next_set_next)

lemma chain_alloc: "chain st p as \<Longrightarrow> a \<in> set as \<Longrightarrow> live st a"
  by (induction as arbitrary: p) auto

lemma chain_append_item:
  assumes "chain st p (as @ [t])" "distinct (as @ [t])" "a \<notin> set (as @ [t])"
    "live st a" "get_next st a = None"
  shows "chain (set_next t (Some a) st) p (as @ [t, a])"
  using assms
proof (induction as arbitrary: p)
  case Nil
  then show ?case by (auto simp: get_next_set_next)
next
  case (Cons b as)
  then show ?case by (auto simp: get_next_set_next)
qed

lemma queue_of_link:
  assumes "queue_of (st, q) as" "a \<notin> set as" "live st a"
  shows "queue_of (link_tail a (st, q)) (as @ [a])"
proof (cases "as = []")
  case True
  with assms show ?thesis
    by (auto simp: queue_of_def link_tail_def Let_def get_next_set_next)
next
  case False
  then obtain bs t where as: "as = bs @ [t]" by (cases as rule: rev_cases) auto
  have "chain (set_next a None st) (head q) (bs @ [t])"
    using assms(1,2) as by (simp add: queue_of_def chain_set_next)
  moreover have "live (set_next a None st) a" "get_next (set_next a None st) a = None"
    using assms(3) by (simp_all add: get_next_set_next)
  ultimately have "chain (set_next t (Some a) (set_next a None st)) (head q) (bs @ [t, a])"
    using assms(1,2) as by (intro chain_append_item) (auto simp: queue_of_def)
  with assms(1,2) as show ?thesis
    by (auto simp: queue_of_def link_tail_def Let_def)
qed

lemma queue_of_unlink:
  assumes "queue_of (st, q) (a # as)"
  shows "fst (unlink_head (st, q)) = Some a" "queue_of (st, snd (unlink_head (st, q))) as"
  using assms by (cases as, auto simp: queue_of_def unlink_head_def Let_def)+

lemma queue_of_empty: "queue_of (st, q) [] \<Longrightarrow> unlink_head (st, q) = (None, q)"
  by (simp add: queue_of_def unlink_head_def)

subsection \<open>Queues of values\<close>

text \<open>The queue holds the values \<open>ms\<close>, oldest first, and nothing beyond \<open>brk\<close> is in use.\<close>

definition value_at :: "'a store \<Rightarrow> nat \<Rightarrow> 'a option" where
  "value_at st a = (case cells st a of None \<Rightarrow> None | Some it \<Rightarrow> content it)"

definition q_holds :: "'a store \<times> queue \<Rightarrow> 'a list \<Rightarrow> bool" where
  "q_holds sq ms \<longleftrightarrow>
     (\<exists>as. queue_of sq as \<and> map (value_at (fst sq)) as = map Some ms) \<and>
     (\<forall>a\<ge>brk (fst sq). \<not> live (fst sq) a)"

lemma value_at_set_next [simp]: "value_at (set_next a p st) b = value_at st b"
  by (auto simp: value_at_def set_next_def split: option.splits)

lemma link_tail_store [simp]:
  "value_at (fst (link_tail a (st, q))) = value_at st"
  "live (fst (link_tail a (st, q))) b = live st b"
  "brk (fst (link_tail a (st, q))) = brk st"
  by (simp_all add: link_tail_def Let_def fun_eq_iff split: option.splits)

lemma new_item_store:
  assumes "new_item x st = (a, st')"
  shows "a = brk st" "brk st' = Suc (brk st)" "live st' b = (b = a \<or> live st b)"
    "value_at st' b = (if b = a then Some x else value_at st b)"
    "b \<noteq> a \<Longrightarrow> get_next st' b = get_next st b"
  using assms
  by (auto simp: new_item_def live_def value_at_def get_next_def split: option.splits if_splits)

lemma delete_item_store:
  "live (delete_item a st) b = (b \<noteq> a \<and> live st b)" "brk (delete_item a st) = brk st"
  "b \<noteq> a \<Longrightarrow> value_at (delete_item a st) b = value_at st b"
  "b \<noteq> a \<Longrightarrow> get_next (delete_item a st) b = get_next st b"
  by (auto simp: delete_item_def live_def value_at_def get_next_def)

lemma queue_of_cong:
  assumes "queue_of (st, q) as"
    and "\<And>a. a \<in> set as \<Longrightarrow> get_next st' a = get_next st a \<and> live st' a = live st a"
  shows "queue_of (st', q) as"
proof -
  have "chain st' (head q) as = chain st (head q) as" by (rule chain_cong) (rule assms(2))
  with assms(1) show ?thesis by (simp add: queue_of_def)
qed

lemma queue_of_live: "queue_of (st, q) as \<Longrightarrow> a \<in> set as \<Longrightarrow> live st a"
  by (auto simp: queue_of_def dest: chain_alloc)

lemma q_holds_new: "q_holds (empty_store, \<lparr>head = None, tail = None\<rparr>) []"
  by (simp add: q_holds_def queue_of_def empty_store_def live_def)

lemma q_holds_put:
  assumes "q_holds (st, q) ms" "new_item x st = (a, st')"
  shows "q_holds (link_tail a (st', q)) (ms @ [x])"
proof -
  from assms(1) obtain as where q: "queue_of (st, q) as"
    and vs: "map (value_at st) as = map Some ms" and fresh: "\<forall>a\<ge>brk st. \<not> live st a"
    by (auto simp: q_holds_def)
  note new = new_item_store [OF assms(2)]
  have notin: "a \<notin> set as" using queue_of_live [OF q] fresh new(1) by blast
  have "queue_of (st', q) as"
  proof (rule queue_of_cong [OF q])
    fix b assume "b \<in> set as"
    with notin have "b \<noteq> a" by blast
    then show "get_next st' b = get_next st b \<and> live st' b = live st b"
      using new(3) [of b] new(5) [of b] by simp
  qed
  then have "queue_of (link_tail a (st', q)) (as @ [a])"
    by (rule queue_of_link [OF _ notin]) (simp add: new(3))
  moreover have "map (value_at (fst (link_tail a (st', q)))) (as @ [a]) = map Some (ms @ [x])"
  proof -
    have "map (value_at st') as = map (value_at st) as"
      using notin new(4) by (auto intro!: map_cong)
    then show ?thesis by (simp add: vs new(4))
  qed
  moreover have "\<forall>b\<ge>brk (fst (link_tail a (st', q))). \<not> live (fst (link_tail a (st', q))) b"
    using fresh new(1,2,3) by auto
  ultimately show ?thesis by (auto simp: q_holds_def)
qed

lemma q_holds_none: "q_holds (st, q) [] \<Longrightarrow> unlink_head (st, q) = (None, q)"
  by (auto simp: q_holds_def dest: queue_of_empty)

lemma q_holds_take:
  assumes "q_holds (st, q) (m # ms)"
  obtains a it q' where "unlink_head (st, q) = (Some a, q')" "cells st a = Some it"
    "content it = Some m" "q_holds (delete_item a st, q') ms"
proof -
  from assms obtain a as where q: "queue_of (st, q) (a # as)" and va: "value_at st a = Some m"
    and vs: "map (value_at st) as = map Some ms" and fresh: "\<forall>a\<ge>brk st. \<not> live st a"
    by (auto simp: q_holds_def map_eq_Cons_conv)
  obtain q' where u: "unlink_head (st, q) = (Some a, q')"
    using queue_of_unlink(1) [OF q] by (cases "unlink_head (st, q)") auto
  have "queue_of (st, q') as" using queue_of_unlink(2) [OF q] u by simp
  moreover have notin: "a \<notin> set as" using q by (simp add: queue_of_def)
  ultimately have "queue_of (delete_item a st, q') as"
    by (elim queue_of_cong) (metis delete_item_store(1,4))
  moreover have "map (value_at (delete_item a st)) as = map Some ms"
    unfolding vs [symmetric] by (intro map_cong refl) (metis notin delete_item_store(3))
  ultimately have "q_holds (delete_item a st, q') ms"
    using fresh by (auto simp: q_holds_def delete_item_store)
  with that u va show thesis by (auto simp: value_at_def split: option.splits)
qed

subsection \<open>The queue interface\<close>

text \<open>
  What a thread relies on: \<open>push\<close> appends, \<open>pop\<close> takes the oldest or reports that there is
  none. The lemmas follow any run of pushes and pops.
\<close>

datatype 'm queue_op = Push 'm | Pop

locale fifo =
  fixes holds :: "'s \<Rightarrow> 'm list \<Rightarrow> bool"
    and push :: "'m \<Rightarrow> 's \<Rightarrow> 's"
    and pop :: "'s \<Rightarrow> 'm option \<times> 's"
  assumes holds_push: "holds s ms \<Longrightarrow> holds (push m s) (ms @ [m])"
    and pop_empty: "holds s [] \<Longrightarrow> fst (pop s) = None \<and> holds (snd (pop s)) []"
    and pop_first: "holds s (m # ms) \<Longrightarrow> fst (pop s) = Some m \<and> holds (snd (pop s)) ms"
begin

primrec serve :: "'m queue_op list \<Rightarrow> 's \<Rightarrow> 'm list \<times> 's" where
  "serve [] s = ([], s)"
| "serve (x # xs) s =
     (case x of
        Push m \<Rightarrow> serve xs (push m s)
      | Pop \<Rightarrow> (case pop s of (r, s') \<Rightarrow> (case serve xs s' of (ms, s'') \<Rightarrow>
          (case r of None \<Rightarrow> (ms, s'') | Some m \<Rightarrow> (m # ms, s'')))))"

text \<open>What comes out, followed by what is left, is what was inside followed by what was pushed.\<close>

lemma serve_fifo:
  "holds s ms \<Longrightarrow> \<exists>rest. holds (snd (serve xs s)) rest \<and>
     fst (serve xs s) @ rest = ms @ concat (map (\<lambda>x. case x of Push m \<Rightarrow> [m] | Pop \<Rightarrow> []) xs)"
proof (induction xs arbitrary: s ms)
  case (Cons x xs)
  show ?case
  proof (cases x)
    case (Push m)
    with Cons.IH [OF holds_push [OF Cons.prems]] show ?thesis by simp
  next
    case Pop
    show ?thesis
    proof (cases ms)
      case Nil
      with Cons.prems have "fst (pop s) = None" "holds (snd (pop s)) []" by (auto dest: pop_empty)
      with Cons.IH [OF this(2)] Nil Pop show ?thesis by (simp add: case_prod_beta)
    next
      case (Cons m ms')
      with Cons.prems have "fst (pop s) = Some m" "holds (snd (pop s)) ms'" by (auto dest: pop_first)
      with Cons.IH [OF this(2)] \<open>ms = m # ms'\<close> Pop show ?thesis by (simp add: case_prod_beta)
    qed
  qed
qed auto

end

end
