(* ===== verification/IniRoundtrip.thy ===== *)
theory IniRoundtrip
  imports IniParser
begin

section \<open>Ini files written and loaded again\<close>

text \<open>
  The lines \<open>iniparser_dump_ini\<close> writes for plain entries, what \<open>iniparser_load\<close> does with each,
  and the round trip of a whole dictionary. Then the behaviour on lines that are wrong.
\<close>

subsection \<open>Stripping\<close>

lemma rstrip_append_space: "\<forall>c\<in>set t. isspace c \<Longrightarrow> rstrip (s @ t) = rstrip s"
proof -
  assume "\<forall>c\<in>set t. isspace c"
  then have "dropWhile isspace (rev t @ u) = dropWhile isspace u" for u
    by (induction t rule: rev_induct) auto
  then show "rstrip (s @ t) = rstrip s" by (simp add: rstrip_def)
qed

lemma rstrip_id: "s = [] \<or> \<not> isspace (last s) \<Longrightarrow> rstrip s = s"
  by (cases s rule: rev_cases) (auto simp: rstrip_def)

lemma lstrip_id: "s = [] \<or> \<not> isspace (hd s) \<Longrightarrow> dropWhile isspace s = s"
  by (cases s) auto

lemma isspace_simps [simp]:
  "isspace CHR 0x20" "isspace NL" "\<not> isspace (CHR ''='')" "\<not> isspace (CHR ''['')" "\<not> isspace (CHR '']'')"
  "\<not> isspace (CHR '':'')"
  by (simp_all add: isspace_def)

lemma takeWhile_neq_append: "c \<notin> set s \<Longrightarrow> takeWhile (\<lambda>x. x \<noteq> c) (s @ c # t) = s"
  by (induction s) auto

lemma dropWhile_neq_append: "c \<notin> set s \<Longrightarrow> dropWhile (\<lambda>x. x \<noteq> c) (s @ c # t) = c # t"
  by (induction s) auto

subsection \<open>Plain names and values\<close>

definition plain_char :: "char \<Rightarrow> bool" where
  "plain_char c \<longleftrightarrow> \<not> isspace c \<and> tolower c = c \<and>
     c \<notin> {NUL, CHR ''='', CHR '';'', CHR ''#'', CHR ''['', CHR '']'', CHR '':'', CHR 0x5C}"

definition plain_name :: "string \<Rightarrow> bool" where
  "plain_name s \<longleftrightarrow> s \<noteq> [] \<and> (\<forall>c\<in>set s. plain_char c) \<and> length s \<le> 1000"

definition plain_value :: "string \<Rightarrow> bool" where
  "plain_value v \<longleftrightarrow> (\<forall>c\<in>set v. c \<notin> {NUL, NL, CHR '';'', CHR ''#''}) \<and>
     (v = [] \<or> \<not> isspace (hd v) \<and> \<not> isspace (last v) \<and> hd v \<noteq> CHR 0x22 \<and> hd v \<noteq> CHR 0x27 \<and>
      last v \<noteq> CHR 0x5C)"

lemma plain_nameD:
  assumes "plain_name s"
  shows "s \<noteq> []" "nul_free s" "CHR ''='' \<notin> set s" "CHR '';'' \<notin> set s" "CHR ''#'' \<notin> set s"
    "CHR ''['' \<notin> set s" "CHR '']'' \<notin> set s" "CHR '':'' \<notin> set s" "NL \<notin> set s"
    "\<not> isspace (hd s)" "\<not> isspace (last s)" "strlwc s = s" "length s \<le> 1000" "CHR 0x5C \<notin> set s"
proof -
  have pc: "plain_char c" if "c \<in> set s" for c using assms that by (simp add: plain_name_def)
  show "s \<noteq> []" "length s \<le> 1000" using assms by (simp_all add: plain_name_def)
  then show "\<not> isspace (hd s)" "\<not> isspace (last s)" using pc by (auto simp: plain_char_def)
  show "nul_free s" "CHR ''='' \<notin> set s" "CHR '';'' \<notin> set s" "CHR ''#'' \<notin> set s"
    "CHR ''['' \<notin> set s" "CHR '']'' \<notin> set s" "CHR '':'' \<notin> set s" "CHR 0x5C \<notin> set s"
    using pc by (auto simp: plain_char_def nul_free_def)
  show "NL \<notin> set s" using pc [of NL] by (auto simp: plain_char_def)
  have "map tolower s = map id s" by (rule map_cong) (use pc in \<open>auto simp: plain_char_def\<close>)
  then show "strlwc s = s" by (simp add: strlwc_def)
qed

lemma strstrip_name: "plain_name s \<Longrightarrow> strstrip s = s"
  using plain_nameD [of s] by (simp add: strstrip_def lstrip_id rstrip_id)

lemma strstrip_value: "plain_value v \<Longrightarrow> strstrip v = v"
proof -
  assume v: "plain_value v"
  have "dropWhile isspace v = v" by (rule lstrip_id) (use v in \<open>auto simp: plain_value_def\<close>)
  moreover have "rstrip v = v" by (rule rstrip_id) (use v in \<open>auto simp: plain_value_def\<close>)
  ultimately show "strstrip v = v" by (simp add: strstrip_def)
qed

subsection \<open>One line\<close>

text \<open>The line without its trailing blanks, as it reaches \<open>iniparser_line\<close>.\<close>

lemma iniparser_line_section:
  assumes "plain_name s"
  shows "iniparser_line (''['' @ s @ '']'') = Inr (LINE_SECTION s)"
proof -
  let ?l = "''['' @ s @ '']''"
  note p = plain_nameD [OF assms]
  have "c_str ?l = ?l" using p(2) by (intro c_str_id) simp
  moreover have "strstrip ?l = ?l" by (simp add: strstrip_def lstrip_id rstrip_id)
  moreover have "section_name ?l = s"
    using takeWhile_neq_append [OF p(7), of "[]"] by (simp add: section_name_def)
  moreover have "?l ! (length ?l - 1) = CHR '']''" by (simp add: nth_append)
  moreover have "CHR ''='' \<notin> set ?l" using p(3) by simp
  ultimately show ?thesis
    by (simp add: iniparser_line_def Let_def key_room_def strstrip_name [OF assms] p(12))
qed

lemma rstrip_entry_line:
  assumes "plain_name k" "plain_value v"
  shows "rstrip (entry_line k v) =
    (k @ replicate (30 - length k) CHR 0x20) @ (if v = [] then '' ='' else '' = '' @ v)"
proof (cases "v = []")
  case True
  define t where "t = (k @ replicate (30 - length k) CHR 0x20) @ '' =''"
  have "entry_line k v = t @ '' ''" using True by (simp add: entry_line_def t_def)
  moreover have "rstrip (t @ '' '') = rstrip t" by (rule rstrip_append_space) simp
  moreover have "rstrip t = t" by (rule rstrip_id) (simp add: t_def)
  ultimately show ?thesis using True by (simp add: t_def)
next
  case False
  with assms(2) have "rstrip (entry_line k v) = entry_line k v"
    by (intro rstrip_id) (auto simp: entry_line_def plain_value_def)
  with False show ?thesis by (simp add: entry_line_def)
qed

lemma iniparser_line_entry:
  assumes "plain_name k" "plain_value v"
  shows "iniparser_line (rstrip (entry_line k v)) = Inr (LINE_VALUE k v)"
proof -
  note p = plain_nameD [OF assms(1)]
  define pad where "pad = k @ replicate (30 - length k) CHR 0x20"
  define tl where "tl = (if v = [] then [] else '' '' @ v)"
  define l where "l = (pad @ '' '') @ CHR ''='' # tl"
  have l: "rstrip (entry_line k v) = l"
    using rstrip_entry_line [OF assms] by (simp add: l_def pad_def tl_def)
  have hd: "hd l = hd k" "l \<noteq> []" using p(1) by (simp_all add: l_def pad_def)
  have nn: "CHR ''='' \<notin> set (pad @ '' '')" using p(3) by (simp add: pad_def)
  have "nul_free pad" using p(2) by (auto simp: pad_def nul_free_def)
  then have "nul_free l"
    using assms(2) by (auto simp: l_def tl_def plain_value_def nul_free_def)
  moreover have "strstrip l = l"
  proof -
    have "\<not> isspace (last l)" using assms(2) by (auto simp: l_def tl_def plain_value_def)
    then show ?thesis using hd p(10) by (simp add: strstrip_def lstrip_id rstrip_id)
  qed
  ultimately have line: "strstrip (c_str l) = l" by simp
  have first: "l ! 0 = hd k" using hd by (simp add: hd_conv_nth)
  have "hd k \<in> set k" using p(1) by simp
  then have kind: "l ! 0 \<noteq> CHR ''#''" "l ! 0 \<noteq> CHR '';''" "l ! 0 \<noteq> CHR ''[''"
    using first p(4-6) by auto
  have eq: "CHR ''='' \<in> set l" by (simp add: l_def)
  have key: "scan_set (\<lambda>c. c \<noteq> CHR ''='') l = Some (pad @ '' '', CHR ''='' # tl)"
    using takeWhile_neq_append [OF nn, of tl] dropWhile_neq_append [OF nn, of tl] p(1)
    by (simp add: scan_set_def l_def)
  have blank: "dropWhile isspace tl = v"
  proof -
    have "dropWhile isspace v = v" by (rule lstrip_id) (use assms(2) in \<open>auto simp: plain_value_def\<close>)
    then show ?thesis by (cases "v = []") (simp_all add: tl_def)
  qed
  have skey: "scan_key l = Some (pad @ '' '', v)"
    by (simp add: scan_key_def key scan_lit_def blank)
  have name: "strlwc (strstrip (pad @ '' '')) = k"
  proof -
    have "pad @ '' '' = k @ (replicate (30 - length k) CHR 0x20 @ '' '')" by (simp add: pad_def)
    moreover have "dropWhile isspace (k @ x) = k @ x" for x using p(1,10) by (intro lstrip_id) auto
    ultimately have "strstrip (pad @ '' '') = rstrip k"
      unfolding strstrip_def by (simp only:) (rule rstrip_append_space, simp)
    then show ?thesis using p(11,12) by (simp add: rstrip_id)
  qed
  show ?thesis unfolding l
  proof (cases "v = []")
    case True
    have none: "scan_set P [] = None" for P by (simp add: scan_set_def)
    have "scan_set (\<lambda>c. c = CHR ''='') ''='' = Some (''='', [])" by (simp add: scan_set_def)
    then have "scan_bare l = Some (pad @ '' '', ''='')"
      using True by (simp add: scan_bare_def key tl_def)
    with line kind eq hd(2) name show "iniparser_line l = Inr (LINE_VALUE k v)"
      by (simp add: True iniparser_line_def Let_def skey scan_quoted_def scan_until_def scan_lit_def
          none not_less Suc_le_eq)
  next
    case False
    then obtain c w where v: "v = c # w" by (cases v) auto
    have qu: "c \<noteq> CHR 0x22" "c \<noteq> CHR 0x27" using assms(2) by (auto simp: v plain_value_def)
    have all: "takeWhile (\<lambda>c. c \<noteq> CHR '';'' \<and> c \<noteq> CHR ''#'') v = v"
      using assms(2) by (auto simp: plain_value_def takeWhile_eq_all_conv)
    have "scan_until (\<lambda>c. c \<noteq> CHR '';'' \<and> c \<noteq> CHR ''#'') l = Some (pad @ '' '', v)"
      using False by (simp add: scan_until_def skey scan_set_def all)
    moreover have "scan_quoted q l = None" if "c \<noteq> q" for q
      using that by (simp add: scan_quoted_def skey scan_lit_def v)
    moreover have "strstrip v = v" using assms(2) by (rule strstrip_value)
    ultimately show "iniparser_line l = Inr (LINE_VALUE k v)"
      using line kind eq hd(2) name qu
      by (simp add: v iniparser_line_def Let_def not_less Suc_le_eq)
  qed
qed

subsection \<open>Files of lines\<close>

lemma file_lines_step:
  assumes "NL \<notin> set l" "length l < 1023"
  shows "file_lines (l @ NL # s) = (l @ [NL], False) # file_lines s"
proof -
  have "takeWhile (\<lambda>c. c \<noteq> NL) (l @ NL # s) = l" by (rule takeWhile_neq_append [OF assms(1)])
  then have "fgets (l @ NL # s) = ((l @ [NL], False), s)"
    using assms(2) by (simp add: fgets_def Let_def)
  then show ?thesis by (subst file_lines.simps) simp
qed

definition text_of :: "string list \<Rightarrow> string" where
  "text_of ls = concat (map (\<lambda>l. l @ [NL]) ls)"

definition line_events :: "string list \<Rightarrow> (string \<times> bool) list" where
  "line_events ls = map (\<lambda>l. (l @ [NL], False)) ls"

lemma text_of_simps [simp]:
  "text_of [] = []" "text_of (l # ls) = l @ [NL] @ text_of ls" "text_of (ls @ ls') = text_of ls @ text_of ls'"
  by (simp_all add: text_of_def)

lemma line_events_simps [simp]:
  "line_events [] = []" "line_events (l # ls) = (l @ [NL], False) # line_events ls"
  "line_events (ls @ ls') = line_events ls @ line_events ls'"
  by (simp_all add: line_events_def)

lemma file_lines_text:
  "\<forall>l\<in>set ls. NL \<notin> set l \<and> length l < 1023 \<Longrightarrow> file_lines (text_of ls) = line_events ls"
proof (induction ls)
  case Nil
  show ?case by (simp add: file_lines.simps)
next
  case (Cons l ls)
  then show ?case by (simp add: file_lines_step)
qed

text \<open>What the loop does with a group of lines, whatever follows.\<close>

definition at :: "dictionary \<Rightarrow> string \<Rightarrow> ini_state" where
  "at d s = \<lparr>ini_dict = d, ini_section = s, full_line = None, errs = 0\<rparr>"

definition loads :: "string list \<Rightarrow> ini_state \<Rightarrow> ini_state \<Rightarrow> bool" where
  "loads ls st st' \<longleftrightarrow> (\<forall>les. load_lines (line_events ls @ les) st = load_lines les st')"

lemma loads_Nil: "loads [] st st"
  by (simp add: loads_def)

lemma loads_append: "loads ls st st1 \<Longrightarrow> loads ls' st1 st2 \<Longrightarrow> loads (ls @ ls') st st2"
  by (simp add: loads_def)

lemma loads_Cons: "loads [l] st st1 \<Longrightarrow> loads ls st1 st2 \<Longrightarrow> loads (l # ls) st st2"
  using loads_append [of "[l]" st st1 ls st2] by simp

lemma loads_empty: "loads [[]] st st"
  by (simp add: loads_def load_line_def Let_def c_str_def)

lemma loads_line:
  assumes "nul_free l" "l \<noteq> []" "rstrip (l @ [NL]) = r" "r \<noteq> []" "last r \<noteq> CHR 0x5C"
    "load_full_line r (at d s) = Inr (at d' s')"
  shows "loads [l] (at d s) (at d' s')"
proof -
  have "c_str (l @ [NL]) = l @ [NL]" using assms(1) by (intro c_str_id) simp
  moreover have "length (l @ [NL]) \<noteq> 1" using assms(2) by simp
  moreover have "r ! (length r - 1) \<noteq> CHR 0x5C" using assms(4,5) by (simp add: last_conv_nth)
  ultimately have "load_line (l @ [NL], False) (at d s) = Inr (True, at d' s')"
    using assms(3,4,6) by (simp add: load_line_def Let_def nth_append at_def)
  then show ?thesis by (simp add: loads_def)
qed

lemma loads_section:
  assumes "plain_name n" "dict_wf d"
  shows "loads [''['' @ n @ '']''] (at d s) (at (dict_put d n None) n)"
proof (rule loads_line)
  let ?l = "''['' @ n @ '']''"
  show "nul_free ?l" using plain_nameD(2) [OF assms(1)] by simp
  have "rstrip (?l @ [NL]) = rstrip ?l" by (rule rstrip_append_space) simp
  also have "\<dots> = ?l" by (rule rstrip_id) simp
  finally show "rstrip (?l @ [NL]) = ?l" .
  show "load_full_line ?l (at d s) = Inr (at (dict_put d n None) n)"
    using iniparser_line_section [OF assms(1)] dict_put(1) [OF assms(2)]
    by (simp add: load_full_line_def store_entry_def at_def)
qed simp_all

lemma loads_entry:
  assumes "plain_name k" "plain_value v" "dict_wf d"
  shows "loads [entry_line k v] (at d s) (at (dict_put d (s @ '':'' @ k) (Some v)) s)"
proof (rule loads_line)
  let ?l = "entry_line k v" and ?r = "rstrip (entry_line k v)"
  show "nul_free ?l"
    using plain_nameD(2) [OF assms(1)] assms(2)
    by (auto simp: entry_line_def nul_free_def plain_value_def)
  show "?l \<noteq> []" using plain_nameD(1) [OF assms(1)] by (simp add: entry_line_def)
  show "rstrip (?l @ [NL]) = ?r" by (rule rstrip_append_space) simp
  show "?r \<noteq> []" "last ?r \<noteq> CHR 0x5C"
    using assms(2) by (auto simp: rstrip_entry_line [OF assms(1,2)] plain_value_def)
  show "load_full_line ?r (at d s) = Inr (at (dict_put d (s @ '':'' @ k) (Some v)) s)"
    using iniparser_line_entry [OF assms(1,2)] dict_put(1) [OF assms(3)]
    by (simp add: load_full_line_def store_entry_def at_def)
qed

text \<open>A group of entries, and a section with its blank lines.\<close>

definition put_all :: "(string \<times> string option) list \<Rightarrow> dictionary \<Rightarrow> dictionary" where
  "put_all kvs d = fold (\<lambda>(k, v) d. dict_put d k v) kvs d"

lemma put_all_wf: "dict_wf d \<Longrightarrow> dict_wf (put_all kvs d)"
  unfolding put_all_def by (rule dict.wf_put_all)

lemma put_all_map: "dict_wf d \<Longrightarrow> dict_map (put_all kvs d) = dict_map d ++ map_of (rev kvs)"
  unfolding put_all_def by (rule dict.look_put_all)

lemma put_all_append: "put_all (kvs @ kvs') d = put_all kvs' (put_all kvs d)"
  by (simp add: put_all_def)

lemma loads_entries:
  "\<forall>(k, v)\<in>set es. plain_name k \<and> plain_value v \<Longrightarrow> dict_wf d \<Longrightarrow>
   loads (map (\<lambda>(k, v). entry_line k v) es) (at d s)
     (at (put_all (map (\<lambda>(k, v). (s @ '':'' @ k, Some v)) es) d) s)"
proof (induction es arbitrary: d)
  case Nil
  show ?case by (simp add: loads_Nil put_all_def)
next
  case (Cons e es)
  obtain k v where e: "e = (k, v)" by (rule prod.exhaust)
  with Cons.prems have first: "loads [entry_line k v] (at d s) (at (dict_put d (s @ '':'' @ k) (Some v)) s)"
    by (intro loads_entry) auto
  have "dict_wf (dict_put d (s @ '':'' @ k) (Some v))" by (rule dict_put(2) [OF Cons.prems(2)])
  from loads_Cons [OF first Cons.IH [OF _ this]] Cons.prems(1) show ?case
    by (simp add: e put_all_def)
qed

definition section_lines :: "string \<times> (string \<times> string) list \<Rightarrow> string list" where
  "section_lines sec = [[], ''['' @ fst sec @ '']''] @ map (\<lambda>(k, v). entry_line k v) (snd sec) @ [[]]"

definition section_pairs :: "string \<times> (string \<times> string) list \<Rightarrow> (string \<times> string option) list" where
  "section_pairs sec = (fst sec, None) # map (\<lambda>(k, v). (fst sec @ '':'' @ k, Some v)) (snd sec)"

definition plain_section :: "string \<times> (string \<times> string) list \<Rightarrow> bool" where
  "plain_section sec \<longleftrightarrow> plain_name (fst sec) \<and>
     (\<forall>(k, v)\<in>set (snd sec). plain_name k \<and> plain_value v \<and> length (entry_line k v) < 1023)"

lemma loads_section_lines:
  assumes "plain_section sec" "dict_wf d"
  shows "\<exists>s'. loads (section_lines sec) (at d s) (at (put_all (section_pairs sec) d) s')"
proof -
  obtain n es where sec: "sec = (n, es)" by (rule prod.exhaust)
  from assms(1) have n: "plain_name n" and es: "\<forall>(k, v)\<in>set es. plain_name k \<and> plain_value v"
    by (auto simp: plain_section_def sec)
  have wf: "dict_wf (dict_put d n None)" by (rule dict_put(2) [OF assms(2)])
  have "loads (map (\<lambda>(k, v). entry_line k v) es @ [[]]) (at (dict_put d n None) n)
      (at (put_all (map (\<lambda>(k, v). (n @ '':'' @ k, Some v)) es) (dict_put d n None)) n)"
    by (rule loads_append [OF loads_entries [OF es wf] loads_empty])
  from loads_Cons [OF loads_empty loads_Cons [OF loads_section [OF n assms(2)] this]]
  show ?thesis
    by (auto simp: section_lines_def section_pairs_def sec put_all_def)
qed

lemma loads_sections:
  "\<forall>sec\<in>set secs. plain_section sec \<Longrightarrow> dict_wf d \<Longrightarrow>
   \<exists>s'. loads (concat (map section_lines secs)) (at d s) (at (put_all (concat (map section_pairs secs)) d) s')"
proof (induction secs arbitrary: d s)
  case Nil
  show ?case using loads_Nil by (auto simp: put_all_def)
next
  case (Cons sec secs)
  obtain s1 where s1: "loads (section_lines sec) (at d s) (at (put_all (section_pairs sec) d) s1)"
    using loads_section_lines [of sec d s] Cons.prems by auto
  have "dict_wf (put_all (section_pairs sec) d)" by (rule put_all_wf [OF Cons.prems(2)])
  then obtain s2 where "loads (concat (map section_lines secs)) (at (put_all (section_pairs sec) d) s1)
      (at (put_all (concat (map section_pairs secs)) (put_all (section_pairs sec) d)) s2)"
    using Cons.IH [of "put_all (section_pairs sec) d" s1] Cons.prems(1) by auto
  from loads_append [OF s1 this] show ?case by (auto simp: put_all_append)
qed

lemma section_lines_fit:
  assumes "plain_section sec" "l \<in> set (section_lines sec)"
  shows "NL \<notin> set l \<and> length l < 1023"
proof -
  have "NL \<notin> set (fst sec)" "length (fst sec) \<le> 1000"
    using assms(1) plain_nameD(9,13) by (auto simp: plain_section_def)
  moreover have "NL \<notin> set (entry_line k v) \<and> length (entry_line k v) < 1023" if "(k, v) \<in> set (snd sec)" for k v
  proof -
    from assms(1) that have "plain_name k" "plain_value v" and len: "length (entry_line k v) < 1023"
      by (auto simp: plain_section_def)
    then have "NL \<notin> set k" "NL \<notin> set v" using plain_nameD(9) by (auto simp: plain_value_def)
    with len show ?thesis by (simp add: entry_line_def)
  qed
  ultimately show ?thesis using assms(2) by (auto simp: section_lines_def)
qed

lemma iniparser_load_sections:
  assumes "\<forall>sec\<in>set secs. plain_section sec"
  shows "\<exists>d. iniparser_load (Some (text_of (concat (map section_lines secs) @ [[]]))) = Inr (Some d) \<and>
    dict_wf d \<and> dict_map d = map_of (rev (concat (map section_pairs secs)))"
proof -
  let ?ls = "concat (map section_lines secs) @ [[]]" and ?kvs = "concat (map section_pairs secs)"
  have "file_lines (text_of ?ls) = line_events ?ls"
    by (rule file_lines_text) (use assms section_lines_fit in force)
  moreover obtain s' where "loads ?ls (at (dictionary_new 0) []) (at (put_all ?kvs (dictionary_new 0)) s')"
    using loads_sections [OF assms dict_wf_new, of 0 "[]"] loads_append loads_empty by blast
  moreover have "ini_start = at (dictionary_new 0) []" by (simp add: ini_start_def at_def)
  ultimately have "load_lines (file_lines (text_of ?ls)) ini_start = Inr (at (put_all ?kvs (dictionary_new 0)) s')"
    unfolding loads_def by (metis append_Nil2 load_lines.simps(1))
  then have "iniparser_load (Some (text_of ?ls)) = Inr (Some (put_all ?kvs (dictionary_new 0)))"
    by (simp add: iniparser_load_def at_def)
  with put_all_wf [OF dict_wf_new] put_all_map [OF dict_wf_new, of ?kvs 0] show ?thesis
    by (auto simp: dict_map_new)
qed

subsection \<open>The dump of a dictionary\<close>

definition section_names :: "dictionary \<Rightarrow> string list" where
  "section_names d = filter (\<lambda>k. \<not> has_colon k) (map fst (slots d))"

definition section_entries :: "dictionary \<Rightarrow> string \<Rightarrow> (string \<times> string) list" where
  "section_entries d s =
     map (\<lambda>(k, v). (drop (length s + 1) k, case v of Some v \<Rightarrow> v | None \<Rightarrow> []))
       (filter (\<lambda>(k, _). in_section s k) (slots d))"

text \<open>A dictionary that only has sections with plain names and plain entries in them.\<close>

definition ini_plain :: "dictionary \<Rightarrow> bool" where
  "ini_plain d \<longleftrightarrow> dict_wf d \<and>
     (\<forall>k v. dict_map d k = Some v \<longrightarrow>
        plain_name k \<and> v = None \<or>
        (\<exists>n k' v'. k = n @ '':'' @ k' \<and> v = Some v' \<and> dict_map d n = Some None \<and> plain_name n \<and>
           plain_name k' \<and> plain_value v' \<and> length (entry_line k' v') < 1023))"

lemma set_slots: "dict_wf d \<Longrightarrow> (k, v) \<in> set (slots d) \<longleftrightarrow> dict_map d k = Some v"
proof -
  assume "dict_wf d"
  have "(k, v) \<in> set (slots d) \<longleftrightarrow> (\<exists>i < d_size d. d_key d ! i = Some k \<and> d_val d ! i = v)"
    by (auto simp: slots_def split: option.splits) force
  with dict_map_iff [OF \<open>dict_wf d\<close>, of k v] show ?thesis by simp
qed

lemma find_section_nth:
  "f \<le> n \<Longrightarrow> find_section sl n f =
     (let ss = filter (\<lambda>k. \<not> has_colon k) (map fst sl) in
      if nat (n - f) < length ss then Some (ss ! nat (n - f)) else None)"
proof (induction sl n f rule: find_section.induct)
  case (2 k v rest n f)
  show ?case
  proof (cases "has_colon k")
    case True
    with "2.IH"(2) "2.prems" show ?thesis by simp
  next
    case False
    show ?thesis
    proof (cases "f = n")
      case True
      with False show ?thesis by simp
    next
      case neq: False
      with "2.prems" have "nat (n - f) = Suc (nat (n - (f + 1)))" by simp
      with False neq "2.IH"(1) "2.prems" show ?thesis by (simp add: Let_def)
    qed
  qed
qed simp

lemma foldl_count: "foldl (\<lambda>n (k, _). if P k then n + 1 else n) (i::int) sl = i + int (length (filter P (map fst sl)))"
  by (induction sl arbitrary: i) auto

lemma getnsec_length: "iniparser_getnsec (Some d) = int (length (section_names d))"
  using foldl_count [of "\<lambda>k. \<not> has_colon k" 0 "slots d"]
  by (simp add: iniparser_getnsec_def section_names_def)

lemma getsecname_nth:
  "iniparser_getsecname (Some d) (int i) =
     (if i < length (section_names d) then Some (section_names d ! i) else None)"
  by (simp add: iniparser_getsecname_def find_section_nth section_names_def Let_def)

lemma entries_text:
  "text_of (map (\<lambda>(k, v). entry_line k v)
      (map (\<lambda>(k, v). (drop n k, case v of Some v \<Rightarrow> v | None \<Rightarrow> [])) (filter (\<lambda>(k, _). P k) sl))) =
   concat (map (\<lambda>(k, v). if P k then entry_line (drop n k) (case v of Some v \<Rightarrow> v | None \<Rightarrow> []) @ [NL] else []) sl)"
  by (induction sl) auto

lemma dumpsection_text:
  assumes "dict_wf d" "plain_name s" "dict_map d s = Some None"
  shows "iniparser_dumpsection_ini (Some d) s = text_of (section_lines (s, section_entries d s))"
proof -
  have "iniparser_find_entry (Some d) (Some s) = 1"
    using assms plain_nameD(12) [OF assms(2)]
    by (simp add: iniparser_find_entry_def iniparser_getstring_def dictionary_get_map val_ptr_def)
  moreover note entries_text [of "length s + 1" "in_section s" "slots d", folded section_entries_def]
  ultimately show ?thesis
    by (simp add: iniparser_dumpsection_ini_def section_lines_def)
qed

lemma in_section_iff:
  "CHR '':'' \<notin> set n \<Longrightarrow> CHR '':'' \<notin> set n' \<Longrightarrow> in_section n' (n @ '':'' @ k) \<longleftrightarrow> n' = n"
proof (induction n arbitrary: n')
  case Nil
  then show ?case by (cases n') (auto simp: in_section_def)
next
  case (Cons c n)
  show ?case
  proof (cases n')
    case Nil
    with Cons.prems show ?thesis by (auto simp: in_section_def)
  next
    case (Cons c' n'')
    with Cons.IH [of n''] Cons.prems show ?thesis by (auto simp: in_section_def)
  qed
qed

lemma in_section_plain: "plain_name k \<Longrightarrow> \<not> in_section n k"
proof
  assume k: "plain_name k" and "in_section n k"
  then have "take (length n + 1) k = n @ '':''" by (simp add: in_section_def)
  then have "CHR '':'' \<in> set (take (length n + 1) k)" by simp
  then have "CHR '':'' \<in> set k" by (rule in_set_takeD)
  with plain_nameD(8) [OF k] show False by simp
qed

lemma has_colon_simps: "plain_name k \<Longrightarrow> \<not> has_colon k" "has_colon (n @ '':'' @ k)"
  using plain_nameD(8) [of k] by (simp_all add: has_colon_def)

lemma map_of_function:
  "(\<And>k v v'. (k, v) \<in> set xs \<Longrightarrow> (k, v') \<in> set xs \<Longrightarrow> v = v') \<Longrightarrow>
   map_of xs k = Some v \<longleftrightarrow> (k, v) \<in> set xs"
  by (metis map_of_SomeD weak_map_of_SomeI)

lemma ini_plain_sections:
  assumes "ini_plain d"
  shows "n \<in> set (section_names d) \<longleftrightarrow> plain_name n \<and> dict_map d n = Some None"
proof
  assume "n \<in> set (section_names d)"
  then obtain v where v: "dict_map d n = Some v" and nc: "\<not> has_colon n"
    using assms set_slots [of d n] by (auto simp: section_names_def ini_plain_def)
  then show "plain_name n \<and> dict_map d n = Some None"
    using assms has_colon_simps(2) unfolding ini_plain_def by blast
next
  assume "plain_name n \<and> dict_map d n = Some None"
  then show "n \<in> set (section_names d)"
    using assms set_slots [of d n None] has_colon_simps(1) [of n]
    by (force simp: section_names_def ini_plain_def)
qed

lemma ini_plain_entries:
  assumes "ini_plain d" "n \<in> set (section_names d)"
  shows "(k', v') \<in> set (section_entries d n) \<longleftrightarrow>
    dict_map d (n @ '':'' @ k') = Some (Some v')" (is "?l \<longleftrightarrow> ?r")
    and "plain_section (n, section_entries d n)"
proof -
  have wf: "dict_wf d" and n: "plain_name n"
    using assms ini_plain_sections by (auto simp: ini_plain_def)
  have entry: "\<exists>k'' w. k = n @ '':'' @ k'' \<and> v = Some w \<and> plain_name k'' \<and> plain_value w \<and>
      length (entry_line k'' w) < 1023" if "(k, v) \<in> set (slots d)" "in_section n k" for k v
  proof -
    from that(1) assms(1) set_slots [OF wf, of k v] in_section_plain that(2)
    obtain m k'' w where m: "k = m @ '':'' @ k''" "v = Some w" "plain_name m" "plain_name k''"
      "plain_value w" "length (entry_line k'' w) < 1023"
      unfolding ini_plain_def by blast
    moreover have "n = m"
      using that(2) m(1) in_section_iff [OF plain_nameD(8) [OF m(3)] plain_nameD(8) [OF n]] by simp
    ultimately show ?thesis by blast
  qed
  show "?l \<longleftrightarrow> ?r"
  proof
    assume ?l
    then obtain k v where kv: "(k, v) \<in> set (slots d)" "in_section n k" "k' = drop (length n + 1) k"
      "v' = (case v of Some v \<Rightarrow> v | None \<Rightarrow> [])"
      by (auto simp: section_entries_def)
    with entry [OF kv(1,2)] set_slots [OF wf, of k v] show ?r by auto
  next
    assume ?r
    then have slot: "(n @ '':'' @ k', Some v') \<in> set (slots d)" using set_slots [OF wf] by simp
    moreover have "in_section n (n @ '':'' @ k')" by (simp add: in_section_def)
    ultimately show ?l by (force simp: section_entries_def)
  qed
  show "plain_section (n, section_entries d n)"
    using n entry by (fastforce simp: plain_section_def section_entries_def)
qed

lemma dump_pairs:
  assumes "ini_plain d"
  shows "map_of (rev (concat (map (\<lambda>n. section_pairs (n, section_entries d n)) (section_names d)))) = dict_map d"
proof -
  let ?kvs = "concat (map (\<lambda>n. section_pairs (n, section_entries d n)) (section_names d))"
  have mem: "(k, v) \<in> set ?kvs \<longleftrightarrow> dict_map d k = Some v" for k v
  proof
    assume "(k, v) \<in> set ?kvs"
    then obtain n where n: "n \<in> set (section_names d)"
      "(k, v) \<in> set (section_pairs (n, section_entries d n))" by auto
    then show "dict_map d k = Some v"
      using ini_plain_sections [OF assms, of n] ini_plain_entries(1) [OF assms n(1)]
      by (auto simp: section_pairs_def)
  next
    assume kv: "dict_map d k = Some v"
    with assms consider "plain_name k" "v = None"
      | n k' v' where "k = n @ '':'' @ k'" "v = Some v'" "dict_map d n = Some None" "plain_name n"
      unfolding ini_plain_def by blast
    then show "(k, v) \<in> set ?kvs"
    proof cases
      case 1
      with kv ini_plain_sections [OF assms, of k] have "k \<in> set (section_names d)" by simp
      with 1 show ?thesis by (force simp: section_pairs_def)
    next
      case 2
      with ini_plain_sections [OF assms, of n] have n: "n \<in> set (section_names d)" by simp
      with ini_plain_entries(1) [OF assms n, of k' v'] kv 2 have "(k', v') \<in> set (section_entries d n)" by simp
      with n 2 show ?thesis by (force simp: section_pairs_def)
    qed
  qed
  then have fn: "map_of (rev ?kvs) k = Some v \<longleftrightarrow> dict_map d k = Some v" for k v
    using map_of_function [of "rev ?kvs" k v] by simp
  show ?thesis
  proof
    fix k show "map_of (rev ?kvs) k = dict_map d k"
      using fn [of k] by (metis option.exhaust)
  qed
qed

lemma text_of_concat: "text_of (concat lss) = concat (map text_of lss)"
  by (induction lss) simp_all

lemma map_nth_eq: "map (\<lambda>i. f (xs ! i)) [0..<length xs] = map f xs"
  by (rule nth_equalityI) simp_all

text \<open>C19: A dictionary survives being written and loaded. For a well-formed dictionary of sections
  with plain names and plain entries, \<open>iniparser_load\<close> of the text of \<open>iniparser_dump_ini\<close> succeeds
  and returns a well-formed dictionary with the same keys and values.\<close>

theorem ini_dump_load_roundtrip:
  assumes "ini_plain d"
  shows "\<exists>d'. iniparser_load (Some (iniparser_dump_ini (Some d))) = Inr (Some d') \<and> dict_wf d' \<and>
    dict_map d' = dict_map d"
proof -
  let ?secs = "map (\<lambda>n. (n, section_entries d n)) (section_names d)"
  have wf: "dict_wf d" using assms by (simp add: ini_plain_def)
  have plain: "\<forall>sec\<in>set ?secs. plain_section sec" using ini_plain_entries(2) [OF assms] by auto
  have dumped: "iniparser_dumpsection_ini (Some d) n = text_of (section_lines (n, section_entries d n))"
    if "n \<in> set (section_names d)" for n
    using dumpsection_text [OF wf] ini_plain_sections [OF assms] that by blast
  show ?thesis
  proof (cases "section_names d = []")
    case True
    have "dict_map d k = None" for k
      using assms ini_plain_sections [OF assms] True unfolding ini_plain_def
      by (metis empty_iff list.set(1) not_None_eq)
    then have none: "dict_map d = (\<lambda>_. None)" by blast
    then have "slots d = []" using set_slots [OF wf] by (metis last_in_set option.distinct(1) surj_pair)
    then have "iniparser_dump_ini (Some d) = []"
      using True by (simp add: iniparser_dump_ini_def getnsec_length)
    then have "iniparser_load (Some (iniparser_dump_ini (Some d))) = Inr (Some (dictionary_new 0))"
      by (simp add: iniparser_load_def file_lines.simps ini_start_def)
    with dict_wf_new dict_map_new none show ?thesis by metis
  next
    case False
    have "map (\<lambda>i. case iniparser_getsecname (Some d) (int i) of None \<Rightarrow> []
          | Some secname \<Rightarrow> iniparser_dumpsection_ini (Some d) secname) [0..<length (section_names d)] =
        map (\<lambda>i. text_of (section_lines (section_names d ! i, section_entries d (section_names d ! i))))
          [0..<length (section_names d)]"
      by (rule map_cong) (simp_all add: getsecname_nth dumped)
    also have "\<dots> = map (\<lambda>n. text_of (section_lines (n, section_entries d n))) (section_names d)"
      by (rule map_nth_eq)
    finally have "iniparser_dump_ini (Some d) = text_of (concat (map section_lines ?secs) @ [[]])"
      using False by (simp add: iniparser_dump_ini_def getnsec_length text_of_concat comp_def)
    with iniparser_load_sections [OF plain] dump_pairs [OF assms] show ?thesis by (simp add: comp_def)
  qed
qed

theorem ini_dump_load_roundtrip_witness:
  "\<exists>d'. iniparser_load (Some (iniparser_dump_ini
        (Some (put_all [(''rpc'', None), (''rpc:port'', Some ''8899'')] (dictionary_new 0))))) = Inr (Some d') \<and>
     dict_map d' ''rpc:port'' = Some (Some ''8899'')"
proof -
  let ?d = "put_all [(''rpc'', None), (''rpc:port'', Some ''8899'')] (dictionary_new 0)"
  have map: "dict_map ?d = [''rpc:port'' \<mapsto> Some ''8899'', ''rpc'' \<mapsto> None]"
    using put_all_map [OF dict_wf_new, of "[(''rpc'', None), (''rpc:port'', Some ''8899'')]" 0]
    by (simp add: dict_map_new fun_eq_iff map_add_def)
  have names: "plain_name ''rpc''" "plain_name ''port''"
    by (simp_all add: plain_name_def plain_char_def isspace_def tolower_def Let_def)
  have val: "plain_value ''8899''" by (simp add: plain_value_def isspace_def)
  have len: "length (entry_line ''port'' ''8899'') < 1023" by (simp add: entry_line_def)
  have "\<exists>n k' v'. ''rpc:port'' = n @ '':'' @ k' \<and> Some ''8899'' = Some v' \<and> dict_map ?d n = Some None \<and>
      plain_name n \<and> plain_name k' \<and> plain_value v' \<and> length (entry_line k' v') < 1023"
    by (rule exI [of _ "''rpc''"], rule exI [of _ "''port''"], rule exI [of _ "''8899''"])
      (simp add: map names val len)
  then have "ini_plain ?d"
    unfolding ini_plain_def using put_all_wf [OF dict_wf_new] names(1) by (auto simp: map split: if_splits)
  from ini_dump_load_roundtrip [OF this] map show ?thesis by auto
qed

subsection \<open>Wrong lines\<close>

lemma takeWhile_neq_short: "x \<in> set xs \<Longrightarrow> length (takeWhile (\<lambda>c. c \<noteq> x) xs) < length xs"
  by (induction xs) auto

lemma equals_before_last:
  assumes "CHR ''='' \<in> set (butlast n)"
  shows "length (takeWhile (\<lambda>c. c \<noteq> CHR ''='') (n @ r)) + 1 < length n"
proof -
  have "n \<noteq> []" using assms by auto
  then have n: "n @ r = butlast n @ (last n # r)" "length n = Suc (length (butlast n))" by simp_all
  have cut: "takeWhile (\<lambda>c. c \<noteq> CHR ''='') (n @ r) = takeWhile (\<lambda>c. c \<noteq> CHR ''='') (butlast n)"
    unfolding n(1) by (rule takeWhile_append1 [OF assms]) simp
  show ?thesis unfolding cut using takeWhile_neq_short [OF assms] n(2) by linarith
qed

lemma equals_at_end:
  assumes "CHR ''='' \<notin> set (butlast n)"
  shows "length n \<le> length (takeWhile (\<lambda>c. c \<noteq> CHR ''='') (n @ r)) + 1"
proof (cases "n = []")
  case False
  then have n: "n @ r = butlast n @ (last n # r)" "length n = Suc (length (butlast n))" by simp_all
  from assms have "takeWhile (\<lambda>c. c \<noteq> CHR ''='') (n @ r) =
      butlast n @ takeWhile (\<lambda>c. c \<noteq> CHR ''='') (last n # r)"
    unfolding n by (intro takeWhile_append2) auto
  with n(2) show ?thesis by simp
qed simp

text \<open>C38: A section name with an equals sign inside overflows its buffer. On every line that, without
  the blanks around it, starts with an opening and ends with a closing bracket, the name is what stands
  before the first closing bracket. It is read into a buffer that is sized for what precedes the first
  equals sign of the line: the copy writes past the heap block exactly when the name has an equals sign
  that is not its last character, and otherwise the line is a section, its name stripped and in lower
  case.\<close>

theorem section_header_overflow:
  assumes "strstrip (c_str line) = ''['' @ s @ '']''" and "name = takeWhile (\<lambda>c. c \<noteq> CHR '']'') s"
  shows "iniparser_line line =
    (if CHR ''='' \<in> set (butlast name) then Inl HeapOverflow else Inr (LINE_SECTION (strlwc (strstrip name))))"
proof -
  let ?l = "''['' @ s @ '']''"
  have name: "section_name ?l = name"
    by (simp add: section_name_def assms(2) takeWhile_tail)
  obtain r where r: "s @ '']'' = name @ r"
    using takeWhile_dropWhile_id [of "\<lambda>c. c \<noteq> CHR '']''" s] unfolding assms(2) by (metis append.assoc)
  have room: "key_room ?l = (if CHR ''='' \<in> set ?l
      then Some (length (takeWhile (\<lambda>c. c \<noteq> CHR ''='') (name @ r)) + 2) else None)"
    by (simp add: key_room_def r [symmetric])
  have last: "?l ! (length ?l - 1) = CHR '']''" by (simp add: nth_append)
  have in_line: "CHR ''='' \<in> set ?l" if "CHR ''='' \<in> set (butlast name)"
    using in_set_butlastD [OF that] set_takeWhileD [of "CHR ''=''"] by (auto simp: assms(2))
  show ?thesis
  proof (cases "CHR ''='' \<in> set (butlast name)")
    case True
    with room in_line equals_before_last [OF True, of r] last name show ?thesis
      by (simp add: iniparser_line_def Let_def assms(1))
  next
    case False
    with room equals_at_end [OF False, of r] last name show ?thesis
      by (auto simp: iniparser_line_def Let_def assms(1) split: option.split)
  qed
qed

theorem section_header_overflow_witness:
  "iniparser_line '' [a=b] '' = Inl HeapOverflow \<and> iniparser_line ''[A]b=c]'' = Inr (LINE_SECTION ''a'')"
proof -
  have strip: "strstrip (c_str '' [a=b] '') = ''['' @ ''a=b'' @ '']''" "strstrip (c_str ''[A]b=c]'') = ''['' @ ''A]b=c'' @ '']''"
    by code_simp+
  have "strlwc (strstrip ''A'') = ''a''" by code_simp
  with section_header_overflow [OF strip(1) refl] section_header_overflow [OF strip(2) refl] show ?thesis by simp
qed

definition bad_line :: "string \<Rightarrow> bool" where
  "bad_line l \<longleftrightarrow> nul_free l \<and> NL \<notin> set l \<and> length l < 1023 \<and> l \<noteq> [] \<and> \<not> isspace (last l) \<and>
     last l \<noteq> CHR 0x5C \<and> iniparser_line l = Inr LINE_ERROR"

lemma load_bad_line:
  assumes "bad_line l" "full_line st = None" "0 \<le> errs st"
  shows "load_lines ((l @ [NL], False) # les) st = load_lines les (st\<lparr>errs := errs st + 1\<rparr>)"
proof -
  have "rstrip (l @ [NL]) = rstrip l" by (rule rstrip_append_space) simp
  then have r: "rstrip (l @ [NL]) = l" using assms(1) by (simp add: rstrip_id bad_line_def)
  have "c_str (l @ [NL]) = l @ [NL]" using assms(1) by (intro c_str_id) (simp add: bad_line_def)
  moreover have "last l = l ! (length l - 1)" by (rule last_conv_nth) (use assms(1) in \<open>simp add: bad_line_def\<close>)
  then have "l ! (length l - 1) \<noteq> CHR 0x5C" using assms(1) by (simp add: bad_line_def)
  ultimately have "load_line (l @ [NL], False) st = Inr (True, st\<lparr>errs := errs st + 1, full_line := None\<rparr>)"
    using assms r by (simp add: load_line_def Let_def load_full_line_def bad_line_def nth_append)
  also have "st\<lparr>errs := e, full_line := None\<rparr> = st\<lparr>errs := e\<rparr>" for e using assms(2) by (cases st) simp
  finally show ?thesis by simp
qed

lemma load_entry_line:
  assumes "plain_name k" "plain_value v" "dict_wf (ini_dict st)" "full_line st = None"
  shows "load_lines ((entry_line k v @ [NL], False) # les) st =
    load_lines les (st\<lparr>ini_dict := dict_put (ini_dict st) (ini_section st @ '':'' @ k) (Some v), errs := 0\<rparr>)"
proof -
  let ?l = "entry_line k v" and ?r = "rstrip (entry_line k v)"
  have "nul_free ?l" using plain_nameD(2) [OF assms(1)] assms(2)
    by (auto simp: entry_line_def nul_free_def plain_value_def)
  then have "c_str (?l @ [NL]) = ?l @ [NL]" by (intro c_str_id) simp
  moreover have "?l \<noteq> []" using plain_nameD(1) [OF assms(1)] by (simp add: entry_line_def)
  moreover have "rstrip (?l @ [NL]) = ?r" by (rule rstrip_append_space) simp
  moreover have ne: "?r \<noteq> []" and "last ?r \<noteq> CHR 0x5C"
    using assms(2) by (auto simp: rstrip_entry_line [OF assms(1,2)] plain_value_def)
  then have "?r ! (length ?r - 1) \<noteq> CHR 0x5C" by (simp add: last_conv_nth)
  ultimately have "load_line (?l @ [NL], False) st = Inr (True,
      st\<lparr>ini_dict := dict_put (ini_dict st) (ini_section st @ '':'' @ k) (Some v), errs := 0, full_line := None\<rparr>)"
    using iniparser_line_entry [OF assms(1,2)] dict_put(1) [OF assms(3)] assms(4) ne
    by (simp add: load_line_def Let_def nth_append load_full_line_def store_entry_def)
  also have "st\<lparr>ini_dict := a, errs := b, full_line := None\<rparr> = st\<lparr>ini_dict := a, errs := b\<rparr>" for a b
    using assms(4) by (cases st) simp
  finally show ?thesis by simp
qed

text \<open>A syntax error is forgotten when an entry follows it. The error count is overwritten by the
  result of storing the next entry: a file with a wrong line and then a plain entry loads, with the
  entry in it, while the same two lines in the other order do not load at all.\<close>

theorem syntax_error_forgotten:
  assumes "bad_line l" and "plain_name k" and "plain_value v" and "length (entry_line k v) < 1023"
  shows "(\<exists>d. iniparser_load (Some (text_of [l, entry_line k v])) = Inr (Some d) \<and>
      dict_map d ('':'' @ k) = Some (Some v)) \<and>
    iniparser_load (Some (text_of [entry_line k v, l])) = Inr None"
proof -
  have l: "NL \<notin> set l" "length l < 1023" using assms(1) by (simp_all add: bad_line_def)
  have e: "NL \<notin> set (entry_line k v)"
    using plain_nameD(9) [OF assms(2)] assms(3) by (auto simp: entry_line_def plain_value_def)
  have files: "file_lines (text_of [l, entry_line k v]) = line_events [l, entry_line k v]"
    "file_lines (text_of [entry_line k v, l]) = line_events [entry_line k v, l]"
    using l e assms(4) by (intro file_lines_text; simp)+
  let ?d = "dict_put (dictionary_new 0) ('':'' @ k) (Some v)"
  have "load_lines (line_events [l, entry_line k v]) ini_start =
      Inr (ini_start\<lparr>ini_dict := ?d, errs := 0\<rparr>)"
    using load_bad_line [OF assms(1), of ini_start "line_events [entry_line k v]"]
      load_entry_line [OF assms(2,3), of "ini_start\<lparr>errs := 1\<rparr>" "[]"] dict_wf_new
    by (simp add: ini_start_def)
  then have "iniparser_load (Some (text_of [l, entry_line k v])) = Inr (Some ?d)"
    unfolding iniparser_load_def option.case files by simp
  moreover have "dict_map ?d ('':'' @ k) = Some (Some v)" using dict_put(3) [OF dict_wf_new] by simp
  moreover have "load_lines (line_events [entry_line k v, l]) ini_start =
      Inr (ini_start\<lparr>ini_dict := ?d, errs := 1\<rparr>)"
    using load_bad_line [OF assms(1), of "ini_start\<lparr>ini_dict := ?d, errs := 0\<rparr>" "[]"]
      load_entry_line [OF assms(2,3), of ini_start "line_events [l]"] dict_wf_new
    by (simp add: ini_start_def)
  then have "iniparser_load (Some (text_of [entry_line k v, l])) = Inr None"
    unfolding iniparser_load_def option.case files by simp
  ultimately show ?thesis by blast
qed

theorem syntax_error_forgotten_witness:
  "iniparser_load (Some (text_of [entry_line ''port'' ''1'', ''bad''])) = Inr None"
proof -
  have "bad_line ''bad''"
    by (simp add: bad_line_def isspace_def iniparser_line_def strstrip_def rstrip_def Let_def c_str_def)
  moreover have "plain_name ''port''" "plain_value ''1''" "length (entry_line ''port'' ''1'') < 1023"
    by (simp_all add: plain_name_def plain_char_def isspace_def tolower_def Let_def plain_value_def entry_line_def)
  ultimately show ?thesis using syntax_error_forgotten by blast
qed

subsection \<open>Getters\<close>

text \<open>The typed getters read the map. On a well-formed dictionary a key is looked up in lower
  case; a key without entry gives the caller's default, a key without value (a section name) is
  returned as a null pointer and dereferenced by the conversions, and a value is converted: the C
  number it starts with, cut to 32 bits, or the truth value of its first character.\<close>

theorem getters_of_map:
  assumes "dict_wf d"
  shows "iniparser_getstring (Some d) (Some key) deflt =
      (case dict_map d (strlwc key) of None \<Rightarrow> deflt | Some v \<Rightarrow> val_ptr v) \<and>
    iniparser_getint (Some d) (Some key) n =
      (case dict_map d (strlwc key) of
         None \<Rightarrow> Inr n | Some None \<Rightarrow> Inl NullDeref
       | Some (Some s) \<Rightarrow> Inr (signed_take_bit 31 (strtol0 s))) \<and>
    iniparser_getboolean (Some d) (Some key) n =
      (case dict_map d (strlwc key) of
         None \<Rightarrow> Inr n | Some None \<Rightarrow> Inl NullDeref
       | Some (Some s) \<Rightarrow>
           Inr (if s \<noteq> [] \<and> hd s \<in> set ''yY1tT'' then 1 else if s \<noteq> [] \<and> hd s \<in> set ''nN0fF'' then 0 else n))"
proof -
  have "iniparser_getstring (Some d) (Some key) deflt =
      (case dict_map d (strlwc key) of None \<Rightarrow> deflt | Some v \<Rightarrow> val_ptr v)" for deflt
    by (simp add: iniparser_getstring_def dictionary_get_map [OF assms])
  then show ?thesis
    by (auto simp: iniparser_getint_def iniparser_getboolean_def val_ptr_def Let_def hd_conv_nth
        split: option.splits)
qed

theorem getters_of_map_witness:
  "iniparser_getint (Some (dict_put (dictionary_new 0) ''a:n'' (Some ''0x42''))) (Some ''A:N'') 7 = Inr 66"
proof -
  have wf: "dict_wf (dict_put (dictionary_new 0) ''a:n'' (Some ''0x42''))" by (rule dict_put(2) [OF dict_wf_new])
  have "strlwc ''A:N'' = ''a:n''" by code_simp
  then have "dict_map (dict_put (dictionary_new 0) ''a:n'' (Some ''0x42'')) (strlwc ''A:N'') = Some (Some ''0x42'')"
    by (simp add: dict_put(3) [OF dict_wf_new])
  moreover have "signed_take_bit 31 (strtol0 ''0x42'') = 66"
    by (simp add: strtol0_def isspace_def unsigned_value_def digits_value_def digit_value_def Let_def
        signed_take_bit_int_eq_self)
  ultimately show ?thesis using getters_of_map [OF wf, of "''A:N''" InvalidKey 7] by simp
qed

end
