(* ===== verification/ConfigParser.thy ===== *)
theory ConfigParser
  imports IniRoundtrip
begin

section \<open>The configuration reader (config\_parser/config\_parser.cpp)\<close>

text \<open>
  The singleton \<open>ConfigParser\<close> over one ini file: its constructor loads the file, its
  getters go to the ini parser. The file is its content, or \<open>None\<close> when it cannot be opened. The
  lemmas show that a file that does not load leaves every getter with the caller's default, and
  what the getters return for a file of plain sections.
\<close>

record ConfigParser =
  is_init :: bool
  ini_file :: "string option"
  dict_ini :: "dictionary option"

definition InitConfigParser :: "ConfigParser \<Rightarrow> fault + (bool \<times> ConfigParser)" where
  "InitConfigParser cp =
     (case iniparser_load (ini_file cp) of
        Inl f \<Rightarrow> Inl f
      | Inr d \<Rightarrow> Inr (True, cp\<lparr>dict_ini := d\<rparr>))"

definition ConfigParser_new :: "string option \<Rightarrow> fault + ConfigParser" where
  "ConfigParser_new file =
     map_sum id snd (InitConfigParser \<lparr>is_init = False, ini_file = file, dict_ini = None\<rparr>)"

text \<open>The static instance: the file of the first call stays, whatever later calls name.\<close>

definition GetInstance :: "ConfigParser option \<Rightarrow> string option \<Rightarrow> fault + ConfigParser" where
  "GetInstance instance_cp file =
     (case instance_cp of None \<Rightarrow> ConfigParser_new file | Some cp \<Rightarrow> Inr cp)"

definition GetSecKeysNum :: "ConfigParser \<Rightarrow> string \<Rightarrow> int \<Rightarrow> int" where
  "GetSecKeysNum cp sec_key default_val =
     (case dict_ini cp of
        None \<Rightarrow> default_val
      | Some d \<Rightarrow> iniparser_getsecnkeys (Some d) sec_key)"

definition IniGetInt :: "ConfigParser \<Rightarrow> string \<Rightarrow> int \<Rightarrow> fault + int" where
  "IniGetInt cp sec_key default_val =
     (case dict_ini cp of
        None \<Rightarrow> Inr default_val
      | Some d \<Rightarrow> iniparser_getint (Some d) (Some sec_key) default_val)"

definition IniGetDouble :: "(string \<Rightarrow> 'f) \<Rightarrow> ConfigParser \<Rightarrow> string \<Rightarrow> 'f \<Rightarrow> fault + 'f" where
  "IniGetDouble atof cp sec_key default_val =
     (case dict_ini cp of
        None \<Rightarrow> Inr default_val
      | Some d \<Rightarrow> iniparser_getdouble atof (Some d) (Some sec_key) default_val)"

text \<open>In the next two the test for a missing dictionary has no \<open>return\<close>: the call is made anyway.\<close>

definition IniGetString :: "ConfigParser \<Rightarrow> string \<Rightarrow> cptr \<Rightarrow> cptr" where
  "IniGetString cp sec_key default_val = iniparser_getstring (dict_ini cp) (Some sec_key) default_val"

definition IniGetBool :: "ConfigParser \<Rightarrow> string \<Rightarrow> bool \<Rightarrow> fault + bool" where
  "IniGetBool cp sec_key default_val =
     map_sum id (\<lambda>r. r \<noteq> 0)
       (iniparser_getboolean (dict_ini cp) (Some sec_key) (if default_val then 1 else 0))"

subsection \<open>A loaded file\<close>

text \<open>The truth value of an entry: its first character decides, the default when it says nothing.\<close>

definition truth_value :: "string \<Rightarrow> bool \<Rightarrow> bool" where
  "truth_value v dflt =
     (if v \<noteq> [] \<and> hd v \<in> set ''yY1tT'' then True
      else if v \<noteq> [] \<and> hd v \<in> set ''nN0fF'' then False else dflt)"

lemma getters_loaded:
  assumes "dict_ini cp = Some d" and "dict_wf d"
  shows "IniGetString cp name x = (case dict_map d (strlwc name) of None \<Rightarrow> x | Some v \<Rightarrow> val_ptr v)"
    and "IniGetInt cp name i = (case dict_map d (strlwc name) of
      None \<Rightarrow> Inr i | Some None \<Rightarrow> Inl NullDeref | Some (Some v) \<Rightarrow> Inr (signed_take_bit 31 (strtol0 v)))"
    and "IniGetDouble atof cp name f = (case dict_map d (strlwc name) of
      None \<Rightarrow> Inr f | Some None \<Rightarrow> Inl NullDeref | Some (Some v) \<Rightarrow> Inr (atof v))"
    and "IniGetBool cp name b = (case dict_map d (strlwc name) of
      None \<Rightarrow> Inr b | Some None \<Rightarrow> Inl NullDeref | Some (Some v) \<Rightarrow> Inr (truth_value v b))"
  using assms
  by (auto simp: IniGetString_def IniGetInt_def IniGetDouble_def IniGetBool_def iniparser_getint_def
      iniparser_getdouble_def iniparser_getboolean_def iniparser_getstring_def dictionary_get_map val_ptr_def
      truth_value_def hd_conv_nth Let_def split: option.splits)

text \<open>The keys of a section are counted over the slots, so every key once.\<close>

lemma distinct_slots:
  assumes "dict_wf d"
  shows "distinct (map fst (slots d))"
proof -
  let ?key = "\<lambda>i. case d_key d ! i of None \<Rightarrow> [] | Some k \<Rightarrow> [k]"
  have "distinct (concat (map ?key xs))" if "distinct xs" "set xs \<subseteq> {..<d_size d}" for xs
    using that
  proof (induction xs)
    case (Cons i xs)
    have "k \<notin> set (concat (map ?key xs))" if "d_key d ! i = Some k" for k
    proof
      assume "k \<in> set (concat (map ?key xs))"
      then obtain j where j: "j \<in> set xs" "d_key d ! j = Some k" by (auto split: option.splits)
      with Cons.prems dict_wf_inj [OF assms, of i j k] that have "i = j" by auto
      with j(1) Cons.prems(1) show False by simp
    qed
    with Cons show ?case by (auto split: option.splits)
  qed simp
  from this [of "[0..<d_size d]"] have "distinct (concat (map ?key [0..<d_size d]))" by force
  moreover have "map fst (slots d) = concat (map ?key [0..<d_size d])"
    by (auto simp: slots_def map_concat intro!: arg_cong [of _ _ concat] split: option.split)
  ultimately show ?thesis by simp
qed

lemma GetSecKeysNum_card:
  assumes "dict_ini cp = Some d" and "dict_wf d"
  shows "GetSecKeysNum cp n j =
    (if dict_map d (strlwc n) = None then 0 else int (card {k. dict_map d k \<noteq> None \<and> in_section n k}))"
proof -
  have "k \<in> set (map fst (slots d)) \<longleftrightarrow> dict_map d k \<noteq> None" for k
    using set_slots [OF assms(2), of k] by force
  then have "{k. dict_map d k \<noteq> None \<and> in_section n k} = set (filter (in_section n) (map fst (slots d)))"
    by (simp only: set_filter)
  moreover have "distinct (filter (in_section n) (map fst (slots d)))"
    using distinct_slots [OF assms(2)] by simp
  ultimately have "length (filter (in_section n) (map fst (slots d))) = card {k. dict_map d k \<noteq> None \<and> in_section n k}"
    using distinct_card by metis
  then show ?thesis
    using assms foldl_count [of "in_section n" 0 "slots d"]
    by (auto simp: GetSecKeysNum_def iniparser_getsecnkeys_def iniparser_find_entry_def iniparser_getstring_def
        dictionary_get_map val_ptr_def split: option.splits)
qed

lemma section_entry:
  assumes "distinct (map fst (concat (map section_pairs secs)))" and "(n, es) \<in> set secs" and "(k, v) \<in> set es"
  shows "map_of (rev (concat (map section_pairs secs))) (n @ '':'' @ k) = Some (Some v)"
proof -
  have "(n @ '':'' @ k, Some v) \<in> set (section_pairs (n, es))"
    using assms(3) by (force simp: section_pairs_def)
  with assms(2) have "(n @ '':'' @ k, Some v) \<in> set (rev (concat (map section_pairs secs)))" by auto
  moreover have "distinct (map fst (rev (concat (map section_pairs secs))))"
    using assms(1) by (simp only: rev_map [symmetric] distinct_rev)
  ultimately show ?thesis by (simp only: map_of_eq_Some_iff)
qed

lemma section_unique:
  assumes "distinct (map fst (concat (map section_pairs secs)))" "(n, es) \<in> set secs" "(n, fs) \<in> set secs"
  shows "es = fs"
  using assms
proof (induction secs)
  case (Cons sec secs)
  have "n \<in> fst ` set (concat (map section_pairs secs))" if "(n, gs) \<in> set secs" for gs
    using that by (force simp: section_pairs_def)
  moreover have "n \<in> fst ` set (section_pairs (n, gs))" for gs by (simp add: section_pairs_def)
  ultimately show ?case using Cons by (auto simp: disjoint_iff) blast+
qed simp

lemma distinct_concat_part:
  "distinct (map fst (concat (map f xs))) \<Longrightarrow> x \<in> set xs \<Longrightarrow> distinct (map fst (f x))"
  by (induction xs) auto

lemma section_name_entry:
  assumes "distinct (map fst (concat (map section_pairs secs)))" and "(n, es) \<in> set secs"
  shows "map_of (rev (concat (map section_pairs secs))) n = Some None"
proof -
  have "(n, None) \<in> set (section_pairs (n, es))" by (simp add: section_pairs_def)
  with assms(2) have "(n, None) \<in> set (rev (concat (map section_pairs secs)))" by auto
  moreover have "distinct (map fst (rev (concat (map section_pairs secs))))"
    using assms(1) by (simp only: rev_map [symmetric] distinct_rev)
  ultimately show ?thesis by (simp only: map_of_eq_Some_iff)
qed

lemma section_card:
  assumes "\<forall>sec\<in>set secs. plain_section sec" and "distinct (map fst (concat (map section_pairs secs)))"
    and "(n, es) \<in> set secs"
  shows "card {k. map_of (rev (concat (map section_pairs secs))) k \<noteq> None \<and> in_section n k} = length es"
proof -
  let ?kvs = "concat (map section_pairs secs)" and ?ks = "map (\<lambda>(k, v). n @ '':'' @ k) es"
  have plain: "plain_name m" "plain_name k" if "(m, fs) \<in> set secs" "(k, v) \<in> set fs" for m fs k v
    using assms(1) that by (force simp: plain_section_def)+
  have n: "plain_name n" using assms(1,3) by (force simp: plain_section_def)
  have same: "es = fs" if "(n, fs) \<in> set secs" for fs
    using section_unique [OF assms(2,3) that] .
  have "in_section n k \<and> k \<in> fst ` set ?kvs \<longleftrightarrow> k \<in> set ?ks" for k
  proof
    assume k: "in_section n k \<and> k \<in> fst ` set ?kvs"
    then obtain m fs where m: "(m, fs) \<in> set secs" "k \<in> fst ` set (section_pairs (m, fs))" by auto
    then have "plain_name m" using assms(1) by (force simp: plain_section_def)
    with k m(2) in_section_plain obtain k' v where k': "k = m @ '':'' @ k'" "(k', v) \<in> set fs"
      by (auto simp: section_pairs_def)
    with k in_section_iff [OF plain_nameD(8) [OF \<open>plain_name m\<close>] plain_nameD(8) [OF n]] have "n = m" by simp
    with k' m(1) same show "k \<in> set ?ks" by force
  next
    assume "k \<in> set ?ks"
    then obtain k' v where "k = n @ '':'' @ k'" "(k', v) \<in> set es" by auto
    with assms(3) show "in_section n k \<and> k \<in> fst ` set ?kvs"
      by (force simp: in_section_def section_pairs_def)
  qed
  moreover have "map_of (rev ?kvs) k \<noteq> None \<longleftrightarrow> k \<in> fst ` set ?kvs" for k
    by (simp only: map_of_eq_None_iff set_rev not_not)
  ultimately have "{k. map_of (rev ?kvs) k \<noteq> None \<and> in_section n k} = set ?ks" by blast
  moreover have "distinct (map fst (section_pairs (n, es)))"
    using distinct_concat_part [OF assms(2), of "(n, es)"] assms(3) .
  then have "distinct ?ks" by (simp add: section_pairs_def comp_def case_prod_unfold)
  then have "card (set ?ks) = length es" using distinct_card [of ?ks] by (simp only: length_map)
  ultimately show ?thesis by (simp only:)
qed

subsection \<open>Properties\<close>

text \<open>A configuration that cannot be read means defaults everywhere. When the file cannot be
  opened, construction succeeds and every getter returns the caller's default, also the two whose
  test for the missing dictionary lacks its \<open>return\<close>.\<close>

theorem config_defaults:
  "\<exists>cp. ConfigParser_new None = Inr cp \<and> GetSecKeysNum cp key n = n \<and> IniGetInt cp key n = Inr n \<and>
     IniGetDouble atof cp key x = Inr x \<and> IniGetString cp key s = s \<and> IniGetBool cp key b = Inr b"
  by (simp add: ConfigParser_new_def InitConfigParser_def iniparser_load_def GetSecKeysNum_def
      IniGetInt_def IniGetDouble_def IniGetString_def IniGetBool_def iniparser_getstring_def
      iniparser_getboolean_def)

text \<open>C36: A configuration of plain sections is read as it is written, by every getter. Take a file of
  plain sections without repeated keys. For a value in it, under "section:key" and in whatever case the
  caller writes the name, \<open>IniGetString\<close> returns the text, \<open>IniGetInt\<close> the number it starts with, cut to 32
  bits, \<open>IniGetDouble\<close> what \<open>atof\<close> makes of the text, and \<open>IniGetBool\<close> the truth value of its first
  character (the default when this is none). The name of a section alone is a null pointer for
  \<open>IniGetString\<close> and a null pointer dereferenced by the three others. A name that is not in the file
  gives the caller's default. \<open>GetSecKeysNum\<close> counts the keys of a section of the file, its name written in
  lower case, and is 0 for any other name that is not in the file, whatever default the caller names.\<close>

theorem config_reads_sections:
  assumes "\<forall>sec\<in>set secs. plain_section sec"
    and "distinct (map fst (concat (map section_pairs secs)))"
  shows "\<exists>cp. ConfigParser_new (Some (text_of (concat (map section_lines secs) @ [[]]))) = Inr cp \<and>
    (\<forall>n es k v name. (n, es) \<in> set secs \<longrightarrow> (k, v) \<in> set es \<longrightarrow> strlwc name = n @ '':'' @ k \<longrightarrow>
       IniGetString cp name deflt = Ptr v \<and> IniGetInt cp name i = Inr (signed_take_bit 31 (strtol0 v)) \<and>
       IniGetDouble atof cp name x = Inr (atof v) \<and> IniGetBool cp name b = Inr (truth_value v b)) \<and>
    (\<forall>n es name. (n, es) \<in> set secs \<longrightarrow> strlwc name = n \<longrightarrow>
       IniGetString cp name deflt = NullPtr \<and> IniGetInt cp name i = Inl NullDeref \<and>
       IniGetDouble atof cp name x = Inl NullDeref \<and> IniGetBool cp name b = Inl NullDeref) \<and>
    (\<forall>name. strlwc name \<notin> fst ` set (concat (map section_pairs secs)) \<longrightarrow>
       IniGetString cp name deflt = deflt \<and> IniGetInt cp name i = Inr i \<and>
       IniGetDouble atof cp name x = Inr x \<and> IniGetBool cp name b = Inr b \<and> GetSecKeysNum cp name j = 0) \<and>
    (\<forall>n es. (n, es) \<in> set secs \<longrightarrow> GetSecKeysNum cp n j = int (length es))"
proof -
  let ?kvs = "concat (map section_pairs secs)"
  obtain d where d: "iniparser_load (Some (text_of (concat (map section_lines secs) @ [[]]))) = Inr (Some d)"
    "dict_wf d" "dict_map d = map_of (rev ?kvs)"
    using iniparser_load_sections [OF assms(1)] by blast
  then obtain cp where cp: "ConfigParser_new (Some (text_of (concat (map section_lines secs) @ [[]]))) = Inr cp"
    "dict_ini cp = Some d"
    by (auto simp: ConfigParser_new_def InitConfigParser_def)
  note get = getters_loaded [OF cp(2) d(2)] and num = GetSecKeysNum_card [OF cp(2) d(2)]
  have "\<forall>n es k v name. (n, es) \<in> set secs \<longrightarrow> (k, v) \<in> set es \<longrightarrow> strlwc name = n @ '':'' @ k \<longrightarrow>
      IniGetString cp name deflt = Ptr v \<and> IniGetInt cp name i = Inr (signed_take_bit 31 (strtol0 v)) \<and>
      IniGetDouble atof cp name x = Inr (atof v) \<and> IniGetBool cp name b = Inr (truth_value v b)"
    using section_entry [OF assms(2)] by (auto simp: get d(3) val_ptr_def)
  moreover have "\<forall>n es name. (n, es) \<in> set secs \<longrightarrow> strlwc name = n \<longrightarrow>
      IniGetString cp name deflt = NullPtr \<and> IniGetInt cp name i = Inl NullDeref \<and>
      IniGetDouble atof cp name x = Inl NullDeref \<and> IniGetBool cp name b = Inl NullDeref"
    using section_name_entry [OF assms(2)] by (auto simp: get d(3) val_ptr_def)
  moreover have "\<forall>name. strlwc name \<notin> fst ` set ?kvs \<longrightarrow>
      IniGetString cp name deflt = deflt \<and> IniGetInt cp name i = Inr i \<and>
      IniGetDouble atof cp name x = Inr x \<and> IniGetBool cp name b = Inr b \<and> GetSecKeysNum cp name j = 0"
  proof (intro allI impI)
    fix name
    assume "strlwc name \<notin> fst ` set ?kvs"
    then have "dict_map d (strlwc name) = None"
      unfolding d(3) by (simp only: map_of_eq_None_iff set_rev not_False_eq_True)
    then show "IniGetString cp name deflt = deflt \<and> IniGetInt cp name i = Inr i \<and>
      IniGetDouble atof cp name x = Inr x \<and> IniGetBool cp name b = Inr b \<and> GetSecKeysNum cp name j = 0"
      by (simp add: get num)
  qed
  moreover have "\<forall>n es. (n, es) \<in> set secs \<longrightarrow> GetSecKeysNum cp n j = int (length es)"
  proof (intro allI impI)
    fix n es
    assume sec: "(n, es) \<in> set secs"
    then have "plain_name n" using assms(1) by (force simp: plain_section_def)
    then have "strlwc n = n" by (rule plain_nameD)
    moreover have "dict_map d n \<noteq> None" using section_name_entry [OF assms(2) sec] by (simp add: d(3))
    moreover have "card {k. dict_map d k \<noteq> None \<and> in_section n k} = length es"
      unfolding d(3) by (rule section_card [OF assms sec])
    ultimately show "GetSecKeysNum cp n j = int (length es)" unfolding num by (simp del: not_None_eq)
  qed
  ultimately show ?thesis using cp(1) by blast
qed

theorem config_reads_sections_witness:
  "\<exists>cp. ConfigParser_new (Some (text_of (concat (map section_lines [(''rpc'', [(''port'', ''99'')])]) @ [[]]))) = Inr cp \<and>
     IniGetString cp ''RPC:port'' NullPtr = Ptr ''99'' \<and> IniGetDouble length cp ''RPC:port'' 0 = Inr 2 \<and>
     GetSecKeysNum cp ''rpc'' 7 = 1"
proof -
  let ?secs = "[(''rpc'', [(''port'', ''99'')])]"
  have "\<forall>sec\<in>set ?secs. plain_section sec"
    by (simp add: plain_section_def plain_name_def plain_char_def isspace_def tolower_def Let_def
        plain_value_def entry_line_def)
  moreover have "distinct (map fst (concat (map section_pairs ?secs)))" by (simp add: section_pairs_def)
  ultimately obtain cp where cp:
    "ConfigParser_new (Some (text_of (concat (map section_lines ?secs) @ [[]]))) = Inr cp"
    "\<forall>n es k v name. (n, es) \<in> set ?secs \<longrightarrow> (k, v) \<in> set es \<longrightarrow> strlwc name = n @ '':'' @ k \<longrightarrow>
       IniGetString cp name NullPtr = Ptr v \<and> IniGetInt cp name 0 = Inr (signed_take_bit 31 (strtol0 v)) \<and>
       IniGetDouble length cp name 0 = Inr (length v) \<and> IniGetBool cp name False = Inr (truth_value v False)"
    "\<forall>n es. (n, es) \<in> set ?secs \<longrightarrow> GetSecKeysNum cp n 7 = int (length es)"
    using config_reads_sections [of ?secs NullPtr 0 length 0 False 7] by blast
  have "strlwc ''RPC:port'' = ''rpc'' @ '':'' @ ''port''" by code_simp
  with cp show ?thesis by (intro exI [of _ cp]) simp
qed

end
