(* ===== verification/OrdMap.thy ===== *)
theory OrdMap
  imports Prelude
begin

section \<open>std::map\<close>

text \<open>
  The rings of the program are \<open>std::map<uint32_t, string>\<close>, its connection buckets
  \<open>std::map<string, CT_PTR>\<close>: a list of pairs in the order of the keys, which is the order an iterator visits them in. \<open>insert\<close> leaves an existing
  key alone. An iterator is a position in the list; the length of the list is \<open>end()\<close>.
  Dereferencing \<open>end()\<close> has no value.
\<close>

type_synonym ('k, 'v) omap = "('k \<times> 'v) list"
type_synonym 'v ordmap = "(u32, 'v) omap"

fun om_insert :: "'k::linorder \<Rightarrow> 'v \<Rightarrow> ('k, 'v) omap \<Rightarrow> ('k, 'v) omap" where
  "om_insert k v [] = [(k, v)]"
| "om_insert k v ((k', v') # m) =
     (if k < k' then (k, v) # (k', v') # m
      else if k = k' then (k', v') # m
      else (k', v') # om_insert k v m)"

definition om_lower_bound :: "'k::linorder \<Rightarrow> ('k, 'v) omap \<Rightarrow> nat" where
  "om_lower_bound k m = length (takeWhile (\<lambda>(k', _). k' < k) m)"

definition om_deref :: "('k, 'v) omap \<Rightarrow> nat \<Rightarrow> 'v option" where
  "om_deref m i = (if i < length m then Some (snd (m ! i)) else None)"

definition om_wf :: "('k::linorder, 'v) omap \<Rightarrow> bool" where
  "om_wf m \<longleftrightarrow> sorted_wrt (<) (map fst m)"

definition om_erase :: "'k \<Rightarrow> ('k, 'v) omap \<Rightarrow> ('k, 'v) omap" where
  "om_erase k m = filter (\<lambda>(k', _). k' \<noteq> k) m"

subsection \<open>Insertion\<close>

lemma om_wf_Nil [simp]: "om_wf []"
  by (simp add: om_wf_def)

lemma om_wf_Cons: "om_wf ((k, v) # m) \<longleftrightarrow> (\<forall>k' \<in> fst ` set m. k < k') \<and> om_wf m"
  by (auto simp: om_wf_def)

lemma om_wf_distinct: "om_wf m \<Longrightarrow> distinct (map fst m)"
  by (simp add: om_wf_def strict_sorted_iff)

lemma ran_map_of_om: "om_wf m \<Longrightarrow> ran (map_of m) = snd ` set m"
  by (rule ran_distinct) (rule om_wf_distinct)

lemma fst_om_insert: "fst ` set (om_insert k v m) = insert k (fst ` set m)"
  by (induction k v m rule: om_insert.induct) auto

lemma om_wf_insert [simp]: "om_wf m \<Longrightarrow> om_wf (om_insert k v m)"
proof (induction k v m rule: om_insert.induct)
  case (2 k v k' v' m)
  then show ?case by (auto simp: om_wf_Cons fst_om_insert)
qed (simp add: om_wf_def)

text \<open>The first value stored under a key stays.\<close>

lemma map_of_om_insert:
  "om_wf m \<Longrightarrow> map_of (om_insert k v m) = (case map_of m k of None \<Rightarrow> (map_of m)(k \<mapsto> v) | Some _ \<Rightarrow> map_of m)"
proof (induction k v m rule: om_insert.induct)
  case (2 k v k' v' m)
  have "map_of m k = None" if "k < k'"
    using that "2.prems" by (force simp: om_wf_Cons map_of_eq_None_iff)
  with 2 show ?case by (auto simp: om_wf_Cons fun_eq_iff split: option.splits)
qed simp

lemma om_head_le: "om_wf ((k, v) # m) \<Longrightarrow> map_of ((k, v) # m) k' = Some y \<Longrightarrow> k \<le> k'"
  by (auto simp: om_wf_Cons split: if_splits dest!: map_of_SomeD)

lemma om_wf_unique: "om_wf m \<Longrightarrow> om_wf m' \<Longrightarrow> map_of m = map_of m' \<Longrightarrow> m = m'"
proof (induction m arbitrary: m')
  case Nil
  then have "map_of m' = (\<lambda>_. None)" by (simp add: fun_eq_iff)
  then show ?case by (cases m') (auto simp: fun_eq_iff split: if_splits)
next
  case (Cons kv m)
  obtain k v where kv: "kv = (k, v)" by fastforce
  have "map_of m' k = Some v" using Cons.prems(3) [symmetric] kv by simp
  then obtain k1 v1 m1 where m': "m' = (k1, v1) # m1" by (cases m') auto
  have "k \<le> k1"
    using om_head_le [of k v m k1 v1] fun_cong [OF Cons.prems(3), of k1] Cons.prems(1) kv m' by simp
  moreover have "k1 \<le> k"
    using om_head_le [of k1 v1 m1 k v] fun_cong [OF Cons.prems(3), of k] Cons.prems(2) kv m' by simp
  ultimately have "k = k1" by (rule antisym)
  moreover from this have "v = v1"
    using fun_cong [OF Cons.prems(3), of k] kv m' by simp
  moreover have "map_of m = map_of m1"
  proof
    fix x
    have "map_of m k = None" "map_of m1 k = None"
      using Cons.prems(1,2) kv m' \<open>k = k1\<close> by (auto simp: om_wf_Cons map_of_eq_None_iff)
    then show "map_of m x = map_of m1 x"
      using fun_cong [OF Cons.prems(3), of x] kv m' \<open>k = k1\<close> by (cases "x = k") auto
  qed
  ultimately show ?case using Cons kv m' by (auto simp: om_wf_Cons)
qed

subsection \<open>Folding insertions\<close>

definition om_insert_all :: "('k::linorder \<times> 'v) list \<Rightarrow> ('k, 'v) omap \<Rightarrow> ('k, 'v) omap" where
  "om_insert_all kvs m = fold (\<lambda>(k, v) m. om_insert k v m) kvs m"

lemma om_insert_all_simps [simp]:
  "om_insert_all [] m = m"
  "om_insert_all ((k, v) # kvs) m = om_insert_all kvs (om_insert k v m)"
  by (simp_all add: om_insert_all_def)

lemma om_wf_insert_all [simp]: "om_wf m \<Longrightarrow> om_wf (om_insert_all kvs m)"
  by (induction kvs arbitrary: m) auto

lemma map_of_om_insert_all:
  "om_wf m \<Longrightarrow> map_of (om_insert_all kvs m) = map_of kvs ++ map_of m"
proof (induction kvs arbitrary: m)
  case (Cons kv kvs)
  then show ?case
    by (cases kv) (auto simp: map_of_om_insert fun_eq_iff map_add_def split: option.splits)
qed simp

subsection \<open>lower\_bound\<close>

lemma om_lower_bound_le: "om_lower_bound k m \<le> length m"
  by (simp add: om_lower_bound_def length_takeWhile_le)

lemma om_lower_bound_before: "i < om_lower_bound k m \<Longrightarrow> fst (m ! i) < k"
  unfolding om_lower_bound_def by (metis (mono_tags, lifting) nth_mem set_takeWhileD takeWhile_nth case_prod_beta)

lemma om_lower_bound_at: "om_lower_bound k m < length m \<Longrightarrow> k \<le> fst (m ! om_lower_bound k m)"
  unfolding om_lower_bound_def using nth_length_takeWhile [of "\<lambda>(k', _). k' < k" m]
  by (simp add: case_prod_beta)

lemma om_nth_mono: "om_wf m \<Longrightarrow> i < j \<Longrightarrow> j < length m \<Longrightarrow> fst (m ! i) < fst (m ! j)"
  by (simp add: om_wf_def sorted_wrt_iff_nth_less)

lemma om_lower_bound_iff:
  assumes "om_wf m" "i < length m"
  shows "k \<le> fst (m ! i) \<longleftrightarrow> om_lower_bound k m \<le> i"
proof
  assume "k \<le> fst (m ! i)"
  then show "om_lower_bound k m \<le> i"
    using om_lower_bound_before [of i k m] by (meson leD leI)
next
  assume le: "om_lower_bound k m \<le> i"
  then have "k \<le> fst (m ! om_lower_bound k m)"
    using assms(2) by (intro om_lower_bound_at) simp
  also have "\<dots> \<le> fst (m ! i)"
    using om_nth_mono [OF assms(1) _ assms(2)] le by (cases "om_lower_bound k m = i") (auto simp: less_imp_le)
  finally show "k \<le> fst (m ! i)" .
qed

subsection \<open>Erasing\<close>

lemma om_wf_filter: "om_wf m \<Longrightarrow> om_wf (filter P m)"
  by (induction m) (auto simp: om_wf_Cons)

lemma om_wf_erase [simp]: "om_wf m \<Longrightarrow> om_wf (om_erase k m)"
  by (simp add: om_erase_def om_wf_filter)

lemma map_of_om_erase: "map_of (om_erase k m) = (map_of m)(k := None)"
  by (induction m) (auto simp: om_erase_def fun_eq_iff)

lemma fst_om_erase: "fst ` set (om_erase k m) = fst ` set m - {k}"
  by (force simp: om_erase_def)

end
