(* ===== verification/Proto.thy ===== *)
theory Proto
  imports Prelude
begin

section \<open>The messages of center\_proto\<close>

text \<open>
  One record per message of the .proto files and one datatype per enum. A field holds what
  its generated getter returns, so a field that was never set holds the protobuf default:
  the first constructor of an enum, 0, or the empty string. The wire format itself is the
  protobuf library's and the generated code's: the handlers take the pairs of
  \<open>SerializeToString\<close> and \<open>ParseFromString\<close> they use as parameters.
\<close>

datatype CenterType = CENTER2CENTER | CENTER2CLIENT | CENTER2CLUSTER

fun center_type_code :: "CenterType \<Rightarrow> int" where
  "center_type_code CENTER2CENTER = 100"
| "center_type_code CENTER2CLIENT = 101"
| "center_type_code CENTER2CLUSTER = 102"

datatype ClientClusterAction = CLIENT_INIT_REQ | UPDATE_SERVER_INFO | CENTER_RESP_OK | CENTER_RESP_ERR

record ClientWithCenter =
  from_addr :: string
  client_center_action :: ClientClusterAction
  should_communicate_center :: "string list"
  cluster_server_list :: "string list"

datatype ClusteAction = REGISTER | CLUSTER_PING

datatype ResponseClusterAction = CLUSTER_RESP | CENTER_NOT_READY

text \<open>\<open>cpu_used\<close> is a \<open>float\<close> no code reads: its four bytes.\<close>

record RpcClusterServer =
  cluster_action :: ClusteAction
  cluster_server_addr :: string
  load :: u32
  cpu_used :: u32
  connection_num :: int

record CenterResponseCluster =
  center_response_action :: ResponseClusterAction
  should_reporter_center :: "string list"

datatype CenterStatus = LOOKING | FOLLOWING | OBSERVING | LEADING | UNKONW | DEAD

datatype CenterAction =
    INQUIRY | PROPOSAL | LEADER_CONFIRM | ACCEPT | REFUSED | FOLLOWER_PING
  | LEADER_PING_RESPONSE | CENTER_REPORTER

record LoadBalancerMetaData =
  vid :: u32
  server_addr :: string

record CentersProto =
  from_center_addr :: string
  cp_center_status :: CenterStatus
  center_action :: CenterAction
  cp_start_time :: u64
  cp_lc_start_time :: u64
  cp_logical_clock :: u64
  cp_leader_center :: string
  server_infos_list :: "RpcClusterServer list"
  lb_result :: "LoadBalancerMetaData list"

definition ClientWithCenter_default :: ClientWithCenter where
  "ClientWithCenter_default =
     \<lparr>from_addr = [], client_center_action = CLIENT_INIT_REQ, should_communicate_center = [],
      cluster_server_list = []\<rparr>"

definition RpcClusterServer_default :: RpcClusterServer where
  "RpcClusterServer_default =
     \<lparr>cluster_action = REGISTER, cluster_server_addr = [], load = 0, cpu_used = 0, connection_num = 0\<rparr>"

definition CenterResponseCluster_default :: CenterResponseCluster where
  "CenterResponseCluster_default =
     \<lparr>center_response_action = CLUSTER_RESP, should_reporter_center = []\<rparr>"

definition CentersProto_default :: CentersProto where
  "CentersProto_default =
     \<lparr>from_center_addr = [], cp_center_status = LOOKING, center_action = INQUIRY, cp_start_time = 0,
      cp_lc_start_time = 0, cp_logical_clock = 0, cp_leader_center = [], server_infos_list = [],
      lb_result = []\<rparr>"

end
