(* ===== verification/LoadBalancer.thy ===== *)
theory LoadBalancer
  imports OrdMap Proto Hashing
begin

section \<open>The consistent-hash load balancer (rpc\_center/load\_balancer)\<close>

text \<open>
  The abstract class \<open>LoadBalancer\<close> is the locale \<open>balancer\<close>, the class
  \<open>ConsistentHashLoadBalancer\<close> its provider: a ring from hash values to servers with
  \<open>virtual_node_num\<close> points per server. A client is served by the first point at or after
  its own hash. The lemmas show the exact choice, that adding a server moves clients only to
  that server, and that a balancer filled from another one's export agrees with it.
\<close>

subsection \<open>Operations\<close>

record ConsistentHashLoadBalancer =
  config_file :: string
  virtual_node_num :: int
  vn_map :: "string ordmap"

definition ConsistentHashLoadBalancer_new :: "string \<Rightarrow> ConsistentHashLoadBalancer" where
  "ConsistentHashLoadBalancer_new cfg = \<lparr>config_file = cfg, virtual_node_num = 20, vn_map = []\<rparr>"

text \<open>\<open>ini_get_int\<close> is \<open>IniGetInt\<close> of the parser instance for the configuration file.\<close>

definition InitBalancer ::
  "(string \<Rightarrow> int \<Rightarrow> int) \<Rightarrow> ConsistentHashLoadBalancer \<Rightarrow> bool \<times> ConsistentHashLoadBalancer" where
  "InitBalancer ini_get_int lb =
     (if config_file lb = [] then (False, lb)
      else (True, lb\<lparr>virtual_node_num := ini_get_int ''rpc_center:virtual_node_num'' 20\<rparr>))"

definition SetConfigFile :: "string \<Rightarrow> ConsistentHashLoadBalancer \<Rightarrow> ConsistentHashLoadBalancer" where
  "SetConfigFile file_name lb = lb\<lparr>config_file := file_name\<rparr>"

text \<open>The string hashed for point \<open>i\<close> of an address, with \<open>i\<close> cast to a \<open>char\<close>.\<close>

definition node_key :: "string \<Rightarrow> nat \<Rightarrow> u32" where
  "node_key addr i = MurMurHash2 (''SHARD-'' @ addr @ ''-NODE-'' @ [char_of i])"

definition AddRpcServer :: "RpcClusterServer \<Rightarrow> ConsistentHashLoadBalancer \<Rightarrow> ConsistentHashLoadBalancer" where
  "AddRpcServer rcs lb =
     lb\<lparr>vn_map := om_insert_all
          (map (\<lambda>i. (node_key (cluster_server_addr rcs) i, cluster_server_addr rcs))
            [0..<nat (virtual_node_num lb)]) (vn_map lb)\<rparr>"

text \<open>\<open>None\<close> is the result \<open>false\<close>; otherwise the list of servers appended to the caller's.\<close>

definition GetRpcServer :: "string \<Rightarrow> ConsistentHashLoadBalancer \<Rightarrow> string list option" where
  "GetRpcServer rpc_client lb =
     (let hash_id = MurMurHash2 rpc_client; m = vn_map lb in
      if m = [] then None
      else let vn_iter = om_lower_bound hash_id m in
        if vn_iter = length m then
          (let sub_iter = 0 in if sub_iter \<noteq> length m then Some [snd (m ! sub_iter)] else Some [])
        else Some [snd (m ! vn_iter)])"

definition GetCurrentLBResult :: "ConsistentHashLoadBalancer \<Rightarrow> LoadBalancerMetaData list" where
  "GetCurrentLBResult lb = map (\<lambda>(k, s). \<lparr>vid = k, server_addr = s\<rparr>) (vn_map lb)"

definition UpdateLBResult ::
  "LoadBalancerMetaData list \<Rightarrow> ConsistentHashLoadBalancer \<Rightarrow> ConsistentHashLoadBalancer" where
  "UpdateLBResult lb_result_list lb =
     lb\<lparr>vn_map := om_insert_all (map (\<lambda>md. (vid md, server_addr md)) lb_result_list) (vn_map lb)\<rparr>"

subsection \<open>The interface of the abstract class\<close>

locale balancer =
  fixes inv :: "'lb \<Rightarrow> bool"
    and nodes :: "'lb \<Rightarrow> u32 \<Rightarrow> string option"
    and points :: "'lb \<Rightarrow> string \<Rightarrow> u32 set"
    and add :: "RpcClusterServer \<Rightarrow> 'lb \<Rightarrow> 'lb"
    and serve :: "string \<Rightarrow> 'lb \<Rightarrow> string list option"
    and export :: "'lb \<Rightarrow> LoadBalancerMetaData list"
    and import :: "LoadBalancerMetaData list \<Rightarrow> 'lb \<Rightarrow> 'lb"
  assumes inv_add: "inv lb \<Longrightarrow> inv (add rcs lb)"
    and points_add: "points (add rcs lb) = points lb"
    and nodes_add: "inv lb \<Longrightarrow> nodes (add rcs lb) =
          (\<lambda>k. if k \<in> points lb (cluster_server_addr rcs) then Some (cluster_server_addr rcs) else None) ++ nodes lb"
    and inv_import: "inv lb \<Longrightarrow> inv (import md lb)"
    and nodes_import: "inv lb \<Longrightarrow> nodes (import md lb) = map_of (map (\<lambda>m. (vid m, server_addr m)) md) ++ nodes lb"
    and nodes_export: "inv lb \<Longrightarrow> map_of (map (\<lambda>m. (vid m, server_addr m)) (export lb)) = nodes lb"
    and serve_nodes: "inv lb \<Longrightarrow> inv lb' \<Longrightarrow> nodes lb = nodes lb' \<Longrightarrow> serve c lb = serve c lb'"
    and serve_in: "inv lb \<Longrightarrow> serve c lb = Some ss \<Longrightarrow> set ss \<subseteq> ran (nodes lb)"
begin

text \<open>Registering a server twice changes nothing; a first registration keeps every other one.\<close>

lemma add_add: "inv lb \<Longrightarrow> serve c (add rcs (add rcs lb)) = serve c (add rcs lb)"
  by (rule serve_nodes)
    (auto simp: inv_add nodes_add points_add fun_eq_iff map_add_def split: option.splits)

text \<open>An empty balancer that imports another's export serves every client the same.\<close>

lemma import_export:
  "inv lb \<Longrightarrow> inv lb' \<Longrightarrow> nodes lb' = Map.empty \<Longrightarrow> serve c (import (export lb) lb') = serve c lb"
  by (rule serve_nodes) (auto simp: inv_import nodes_import nodes_export)

text \<open>Importing the same export again changes nothing.\<close>

lemma import_import:
  "inv lb \<Longrightarrow> serve c (import md (import md lb)) = serve c (import md lb)"
  by (rule serve_nodes)
    (auto simp: inv_import nodes_import fun_eq_iff map_add_def split: option.splits)

text \<open>Whatever is added, a client is only ever sent to a registered server.\<close>

lemma ran_add: "inv lb \<Longrightarrow> ran (nodes (add rcs lb)) \<subseteq> insert (cluster_server_addr rcs) (ran (nodes lb))"
  by (auto simp: nodes_add ran_def map_add_def split: option.splits if_splits)

lemma serve_added:
  "inv lb \<Longrightarrow> serve c (fold add rcss lb) = Some ss \<Longrightarrow>
   set ss \<subseteq> cluster_server_addr ` set rcss \<union> ran (nodes lb)"
proof -
  assume inv: "inv lb" and ss: "serve c (fold add rcss lb) = Some ss"
  have "inv lb \<Longrightarrow> inv (fold add rcss lb) \<and>
      ran (nodes (fold add rcss lb)) \<subseteq> cluster_server_addr ` set rcss \<union> ran (nodes lb)" for lb
  proof (induction rcss arbitrary: lb)
    case (Cons rcs rcss)
    with ran_add [OF Cons.prems, of rcs] inv_add [OF Cons.prems, of rcs] show ?case by fastforce
  qed simp
  with inv serve_in ss show ?thesis by blast
qed

end

subsection \<open>The ring\<close>

definition lb_inv :: "ConsistentHashLoadBalancer \<Rightarrow> bool" where
  "lb_inv lb \<longleftrightarrow> om_wf (vn_map lb)"

definition lb_nodes :: "ConsistentHashLoadBalancer \<Rightarrow> u32 \<Rightarrow> string option" where
  "lb_nodes lb = map_of (vn_map lb)"

definition lb_points :: "ConsistentHashLoadBalancer \<Rightarrow> string \<Rightarrow> u32 set" where
  "lb_points lb addr = node_key addr ` {0..<nat (virtual_node_num lb)}"

text \<open>The first server of a ring, and the server that a hash value belongs to.\<close>

definition ring_first :: "'v ordmap \<Rightarrow> 'v option" where
  "ring_first m = (case m of [] \<Rightarrow> None | kv # _ \<Rightarrow> Some (snd kv))"

definition ring_owner :: "'v ordmap \<Rightarrow> u32 \<Rightarrow> 'v option" where
  "ring_owner m h =
     (case ring_first (filter (\<lambda>(k, _). h \<le> k) m) of Some s \<Rightarrow> Some s | None \<Rightarrow> ring_first m)"

lemma drop_lower_bound: "om_wf m \<Longrightarrow> drop (om_lower_bound h m) m = filter (\<lambda>(k, _). h \<le> k) m"
proof (induction m)
  case (Cons kv m)
  obtain k v where kv: "kv = (k, v)" by fastforce
  show ?case
  proof (cases "k < h")
    case True
    with Cons kv show ?thesis by (auto simp: om_lower_bound_def om_wf_Cons)
  next
    case False
    with Cons.prems kv have "filter (\<lambda>(k, _). h \<le> k) m = m"
      by (intro filter_True) (force simp: om_wf_Cons)
    with False kv show ?thesis by (simp add: om_lower_bound_def)
  qed
qed (simp add: om_lower_bound_def)

lemma GetRpcServer_owner:
  assumes "lb_inv lb"
  shows "GetRpcServer c lb = map_option (\<lambda>s. [s]) (ring_owner (vn_map lb) (MurMurHash2 c))"
proof -
  let ?m = "vn_map lb" and ?i = "om_lower_bound (MurMurHash2 c) (vn_map lb)"
  have drop: "drop ?i ?m = filter (\<lambda>(k, _). MurMurHash2 c \<le> k) ?m"
    using assms by (intro drop_lower_bound) (simp add: lb_inv_def)
  show ?thesis
  proof (cases "?i = length ?m")
    case True
    with drop have "filter (\<lambda>(k, _). MurMurHash2 c \<le> k) ?m = []" by simp
    with True show ?thesis
      by (cases ?m) (auto simp: GetRpcServer_def Let_def ring_owner_def ring_first_def)
  next
    case False
    with om_lower_bound_le [of "MurMurHash2 c" ?m] have i: "?i < length ?m" by simp
    then have "?m ! ?i # drop (Suc ?i) ?m = drop ?i ?m" by (rule Cons_nth_drop_Suc)
    with drop have "filter (\<lambda>(k, _). MurMurHash2 c \<le> k) ?m = ?m ! ?i # drop (Suc ?i) ?m" by simp
    with i False show ?thesis
      by (auto simp: GetRpcServer_def Let_def ring_owner_def ring_first_def)
  qed
qed

lemma ring_owner_ran: "ring_owner m h = Some s \<Longrightarrow> s \<in> snd ` set m"
  by (auto simp: ring_owner_def ring_first_def split: option.splits list.splits)
    (metis filter_is_subset image_eqI list.set_intros(1) snd_conv subsetD)

lemma filter_om_insert:
  "om_wf m \<Longrightarrow> filter (\<lambda>(k, _). h \<le> k) (om_insert k v m) =
     (if h \<le> k then om_insert k v (filter (\<lambda>(k, _). h \<le> k) m) else filter (\<lambda>(k, _). h \<le> k) m)"
proof (induction k v m rule: om_insert.induct)
  case (2 k v k' v' m)
  have "filter (\<lambda>(k, _). h \<le> k) m = m" if "h \<le> k'"
    using that 2(2) by (intro filter_True) (force simp: om_wf_Cons)
  moreover have "om_insert k v m = (k, v) # m" if "k < k'"
    using that 2(2) by (cases m) (auto simp: om_wf_Cons)
  ultimately show ?case
    using 2 by (auto simp: om_wf_Cons)
qed simp

lemma ring_first_insert: "ring_first (om_insert k v m) = Some v \<or>
    ring_first (om_insert k v m) = ring_first m \<and> m \<noteq> []"
  by (cases m) (auto simp: ring_first_def)

lemma ring_owner_insert:
  "om_wf m \<Longrightarrow> ring_owner (om_insert k v m) h = Some v \<or> ring_owner (om_insert k v m) h = ring_owner m h"
  using ring_first_insert [of k v m] ring_first_insert [of k v "filter (\<lambda>(k, _). h \<le> k) m"]
  by (auto simp: ring_owner_def filter_om_insert ring_first_def split: option.splits list.splits)

lemma ring_owner_insert_all:
  "om_wf m \<Longrightarrow> \<forall>kv \<in> set kvs. snd kv = v \<Longrightarrow>
   ring_owner (om_insert_all kvs m) h = Some v \<or> ring_owner (om_insert_all kvs m) h = ring_owner m h"
proof (induction kvs arbitrary: m)
  case (Cons kv kvs)
  obtain k where "kv = (k, v)" using Cons.prems(2) by (cases kv) auto
  with Cons.IH [of "om_insert k v m"] Cons.prems ring_owner_insert [of m k v h] show ?case by auto
qed simp

lemma map_of_points:
  "map_of (map (\<lambda>i. (f i, a)) xs) = (\<lambda>k. if k \<in> f ` set xs then Some a else None)"
  by (induction xs) (auto simp: fun_eq_iff)

lemma lb_inv_ops:
  "lb_inv lb \<Longrightarrow> lb_inv (AddRpcServer rcs lb)"
  "lb_inv lb \<Longrightarrow> lb_inv (UpdateLBResult md lb)"
  "lb_inv (ConsistentHashLoadBalancer_new cfg)"
  by (simp_all add: lb_inv_def AddRpcServer_def UpdateLBResult_def ConsistentHashLoadBalancer_new_def)

interpretation chash: balancer lb_inv lb_nodes lb_points AddRpcServer GetRpcServer
  GetCurrentLBResult UpdateLBResult
proof unfold_locales
  fix lb lb' :: ConsistentHashLoadBalancer and c
  assume "lb_inv lb" "lb_inv lb'" "lb_nodes lb = lb_nodes lb'"
  then show "GetRpcServer c lb = GetRpcServer c lb'"
    using om_wf_unique [of "vn_map lb" "vn_map lb'"]
    by (simp add: GetRpcServer_def lb_inv_def lb_nodes_def Let_def)
next
  fix lb c ss
  assume "lb_inv lb" "GetRpcServer c lb = Some ss"
  then obtain s where s: "ss = [s]" "ring_owner (vn_map lb) (MurMurHash2 c) = Some s"
    by (auto simp: GetRpcServer_owner)
  with ring_owner_ran [OF s(2)] \<open>lb_inv lb\<close> show "set ss \<subseteq> ran (lb_nodes lb)"
    by (simp add: lb_nodes_def lb_inv_def ran_map_of_om)
qed (auto simp: lb_inv_ops lb_points_def lb_nodes_def lb_inv_def AddRpcServer_def UpdateLBResult_def
      GetCurrentLBResult_def map_of_om_insert_all map_of_points comp_def case_prod_beta)

subsection \<open>Properties\<close>

text \<open>The first point at or after \<open>h\<close> is the least one there.\<close>

lemma om_filter_head:
  assumes "om_wf m" and "filter (\<lambda>(k, _). h \<le> k) m = (k, s) # m'"
  shows "(k, s) \<in> set m \<and> h \<le> k \<and> (\<forall>k' \<in> fst ` set m. h \<le> k' \<longrightarrow> k \<le> k')"
proof -
  have sorted: "sorted_wrt (\<lambda>x y. fst x < fst y) ((k, s) # m')"
    unfolding assms(2) [symmetric] using assms(1) by (intro sorted_wrt_filter) (simp add: om_wf_def sorted_wrt_map)
  have "(k, s) \<in> set (filter (\<lambda>(k, _). h \<le> k) m)" unfolding assms(2) by simp
  moreover have "k \<le> k'" if "(k', s') \<in> set m" "h \<le> k'" for k' s'
  proof -
    have "(k', s') \<in> set ((k, s) # m')" unfolding assms(2) [symmetric] using that by simp
    with sorted show ?thesis by (auto simp: less_imp_le)
  qed
  ultimately show ?thesis by auto
qed

text \<open>C18: The server of a client is the successor of its hash on the ring: \<open>GetRpcServer\<close> fails
  exactly on an empty ring; otherwise it returns one server, stored under a ring point \<open>k\<close>
  that is the least one at or after the client's hash, or the least one of all when no
  point is at or after the hash.\<close>

theorem GetRpcServer_successor:
  assumes "lb_inv lb"
  shows "(GetRpcServer c lb = None \<longleftrightarrow> vn_map lb = []) \<and>
    (vn_map lb \<noteq> [] \<longrightarrow> (\<exists>k s. GetRpcServer c lb = Some [s] \<and> lb_nodes lb k = Some s \<and>
       (if \<exists>k' \<in> dom (lb_nodes lb). MurMurHash2 c \<le> k'
        then MurMurHash2 c \<le> k \<and> (\<forall>k' \<in> dom (lb_nodes lb). MurMurHash2 c \<le> k' \<longrightarrow> k \<le> k')
        else \<forall>k' \<in> dom (lb_nodes lb). k \<le> k')))"
proof -
  let ?m = "vn_map lb" and ?h = "MurMurHash2 c"
  have wf: "om_wf ?m" and dom: "dom (lb_nodes lb) = fst ` set ?m"
    using assms by (simp_all add: lb_inv_def lb_nodes_def dom_map_of_conv_image_fst)
  have none: "GetRpcServer c lb = None \<longleftrightarrow> ?m = []"
    by (simp add: GetRpcServer_def Let_def)
  have "\<exists>k s. GetRpcServer c lb = Some [s] \<and> lb_nodes lb k = Some s \<and>
       (if \<exists>k' \<in> dom (lb_nodes lb). ?h \<le> k'
        then ?h \<le> k \<and> (\<forall>k' \<in> dom (lb_nodes lb). ?h \<le> k' \<longrightarrow> k \<le> k')
        else \<forall>k' \<in> dom (lb_nodes lb). k \<le> k')" if ne: "?m \<noteq> []"
  proof (cases "filter (\<lambda>(k, _). ?h \<le> k) ?m")
    case Nil
    obtain k s m where m: "?m = (k, s) # m" using ne by (cases ?m) auto
    from Nil have "\<not> (\<exists>k' \<in> dom (lb_nodes lb). ?h \<le> k')"
      unfolding dom by (auto simp: filter_empty_conv)
    moreover have "\<forall>k' \<in> dom (lb_nodes lb). k \<le> k'"
      using wf m unfolding dom by (auto simp: om_wf_Cons less_imp_le)
    ultimately show ?thesis
      using m Nil by (auto simp: GetRpcServer_owner [OF assms] ring_owner_def ring_first_def lb_nodes_def)
  next
    case (Cons kv m)
    obtain k s where kv: "kv = (k, s)" by fastforce
    note head = om_filter_head [OF wf Cons [unfolded kv]]
    from head have k: "(k, s) \<in> set ?m" "?h \<le> k" "\<forall>k' \<in> fst ` set ?m. ?h \<le> k' \<longrightarrow> k \<le> k'" by simp_all
    moreover from k(1) have "lb_nodes lb k = Some s"
      unfolding lb_nodes_def using om_wf_distinct [OF wf] by (intro map_of_is_SomeI)
    moreover have "\<exists>k' \<in> fst ` set ?m. ?h \<le> k'" using k(1,2) by force
    moreover have "GetRpcServer c lb = Some [s]"
      using Cons kv by (simp add: GetRpcServer_owner [OF assms] ring_owner_def ring_first_def)
    ultimately show ?thesis unfolding dom by (intro exI [of _ k] exI [of _ s]) simp
  qed
  with none show ?thesis by blast
qed

theorem GetRpcServer_successor_witness:
  "\<exists>k s. GetRpcServer ''c'' (UpdateLBResult [\<lparr>vid = 5, server_addr = ''s''\<rparr>]
      (ConsistentHashLoadBalancer_new ''f'')) = Some [s]"
proof -
  let ?lb = "UpdateLBResult [\<lparr>vid = 5, server_addr = ''s''\<rparr>] (ConsistentHashLoadBalancer_new ''f'')"
  have "lb_inv ?lb" "vn_map ?lb \<noteq> []"
    by (simp_all add: lb_inv_ops) (simp add: UpdateLBResult_def ConsistentHashLoadBalancer_new_def)
  with GetRpcServer_successor [of ?lb "''c''"] show ?thesis by blast
qed

text \<open>C28: Consistent hashing: registering a server moves a client only to that server. After
  \<open>AddRpcServer\<close> every client is served as before or by the new server.\<close>

theorem AddRpcServer_minimal_disruption:
  assumes "lb_inv lb"
  shows "GetRpcServer c (AddRpcServer rcs lb) = Some [cluster_server_addr rcs] \<or>
    GetRpcServer c (AddRpcServer rcs lb) = GetRpcServer c lb"
proof -
  have "ring_owner (vn_map (AddRpcServer rcs lb)) h = Some (cluster_server_addr rcs) \<or>
      ring_owner (vn_map (AddRpcServer rcs lb)) h = ring_owner (vn_map lb) h" for h
    unfolding AddRpcServer_def using assms
    by (simp add: lb_inv_def) (rule ring_owner_insert_all, auto)
  from this [of "MurMurHash2 c"] assms show ?thesis by (auto simp: GetRpcServer_owner lb_inv_ops)
qed

theorem AddRpcServer_minimal_disruption_witness:
  "GetRpcServer ''c'' (AddRpcServer (RpcClusterServer_default\<lparr>cluster_server_addr := ''s''\<rparr>)
      (ConsistentHashLoadBalancer_new ''f'')) \<in> {Some [''s''], None}"
proof -
  have "lb_inv (ConsistentHashLoadBalancer_new ''f'')" by (rule lb_inv_ops)
  from AddRpcServer_minimal_disruption [OF this, of "''c''"
      "RpcClusterServer_default\<lparr>cluster_server_addr := ''s''\<rparr>"]
  show ?thesis by (auto simp: GetRpcServer_def ConsistentHashLoadBalancer_new_def)
qed

text \<open>A follower with an empty ring that takes over the leader's export serves every client
  as the leader does; registering a server again, or importing the same export again, changes
  no client's server.\<close>

theorem UpdateLBResult_synchronises:
  assumes "lb_inv leader" "lb_inv follower"
  shows "(vn_map follower = [] \<longrightarrow>
      GetRpcServer c (UpdateLBResult (GetCurrentLBResult leader) follower) = GetRpcServer c leader) \<and>
    GetRpcServer c (UpdateLBResult md (UpdateLBResult md follower)) = GetRpcServer c (UpdateLBResult md follower) \<and>
    GetRpcServer c (AddRpcServer rcs (AddRpcServer rcs leader)) = GetRpcServer c (AddRpcServer rcs leader)"
  using chash.import_export [OF assms] chash.import_import [OF assms(2)] chash.add_add [OF assms(1)]
  by (auto simp: lb_nodes_def)

theorem UpdateLBResult_synchronises_witness:
  "GetRpcServer ''c'' (UpdateLBResult (GetCurrentLBResult (UpdateLBResult
      [\<lparr>vid = 5, server_addr = ''s''\<rparr>] (ConsistentHashLoadBalancer_new ''f'')))
      (ConsistentHashLoadBalancer_new ''g'')) = Some [''s'']"
proof -
  let ?leader = "UpdateLBResult [\<lparr>vid = 5, server_addr = ''s''\<rparr>] (ConsistentHashLoadBalancer_new ''f'')"
    and ?follower = "ConsistentHashLoadBalancer_new ''g''"
  have "lb_inv ?leader" "lb_inv ?follower" by (simp_all add: lb_inv_ops)
  from UpdateLBResult_synchronises [OF this, of "''c''"] show ?thesis
    by (simp add: ConsistentHashLoadBalancer_new_def UpdateLBResult_def GetRpcServer_def
        GetCurrentLBResult_def Let_def om_lower_bound_def)
qed


subsection \<open>Points of one server\<close>

lemma node_key_inj: "inj_on (node_key addr) {0..<256}"
proof (rule inj_onI)
  fix i j :: nat
  assume "i \<in> {0..<256}" "j \<in> {0..<256}" "node_key addr i = node_key addr j"
  then have "(char_of i :: char) = char_of j"
    using MurMurHash2_last [of "''SHARD-'' @ addr @ ''-NODE-''" "char_of i" "char_of j"]
    by (simp add: node_key_def)
  then have "(of_char (char_of i :: char) :: nat) = of_char (char_of j :: char)" by simp
  with \<open>i \<in> _\<close> \<open>j \<in> _\<close> show "i = j" by simp
qed

lemma om_insert_all_new:
  "om_wf m \<Longrightarrow> distinct (map fst kvs) \<Longrightarrow> set (map fst kvs) \<inter> fst ` set m = {} \<Longrightarrow>
   length (om_insert_all kvs m) = length kvs + length m"
proof (induction kvs arbitrary: m)
  case (Cons kv kvs)
  have len: "k \<notin> fst ` set m \<Longrightarrow> length (om_insert k v m) = Suc (length m)" for k v
    by (induction k v m rule: om_insert.induct) auto
  show ?case
    using Cons.prems Cons.IH [of "om_insert (fst kv) (snd kv) m"]
    by (cases kv) (auto simp: len fst_om_insert)
qed simp

lemma snd_om_insert: "snd ` set (om_insert k v m) \<subseteq> insert v (snd ` set m)"
  by (induction k v m rule: om_insert.induct) auto

lemma snd_om_insert_all: "snd ` set (om_insert_all kvs m) \<subseteq> snd ` set kvs \<union> snd ` set m"
proof (induction kvs arbitrary: m)
  case (Cons kv kvs)
  obtain k v where kv: "kv = (k, v)" by (rule prod.exhaust)
  from Cons.IH [of "om_insert k v m"] snd_om_insert [of k v m] show ?case unfolding kv by simp blast
qed simp

text \<open>A server has as many points as it should. The virtual nodes of one server never
  collide with each other: with at most 256 of them, a server added to an empty ring has exactly
  \<open>virtual_node_num\<close> points, all of them its own.\<close>

theorem AddRpcServer_points:
  assumes "vn_map lb = []" and "nat (virtual_node_num lb) \<le> 256"
  shows "length (vn_map (AddRpcServer rcs lb)) = nat (virtual_node_num lb) \<and>
    snd ` set (vn_map (AddRpcServer rcs lb)) \<subseteq> {cluster_server_addr rcs}"
proof -
  let ?addr = "cluster_server_addr rcs" and ?n = "nat (virtual_node_num lb)"
  let ?kvs = "map (\<lambda>i. (node_key ?addr i, ?addr)) [0..<?n]"
  have "inj_on (node_key ?addr) {0..<?n}"
    using assms(2) by (intro inj_on_subset [OF node_key_inj]) auto
  then have "distinct (map fst ?kvs)" by (simp add: distinct_map comp_def)
  with om_insert_all_new [of "[]" ?kvs] have "length (om_insert_all ?kvs []) = ?n" by simp
  moreover have "snd ` set (om_insert_all ?kvs []) \<subseteq> {?addr}"
    using snd_om_insert_all [of ?kvs "[]"] by auto
  ultimately show ?thesis using assms(1) by (simp add: AddRpcServer_def)
qed

theorem AddRpcServer_points_witness:
  "length (vn_map (AddRpcServer (RpcClusterServer_default\<lparr>cluster_server_addr := ''10.0.0.1''\<rparr>)
     (ConsistentHashLoadBalancer_new ''c''))) = 20"
proof -
  have "vn_map (ConsistentHashLoadBalancer_new ''c'') = []"
    and n: "nat (virtual_node_num (ConsistentHashLoadBalancer_new ''c'')) = 20"
    by (simp_all add: ConsistentHashLoadBalancer_new_def)
  from AddRpcServer_points [OF this(1)] n show ?thesis by simp
qed

end
