(* ===== verification/Threads.thy ===== *)
theory Threads
  imports Queues
begin

section \<open>The thread wrapper (util/thread.h)\<close>

text \<open>
  The class \<open>Thread\<close>: its flag \<open>thread_running_\<close>, and beside it what the operating system
  knows (is there a live thread under \<open>tid_\<close>, how many were created). The results of the
  pthread calls are arguments. \<open>Exits\<close> is the thread's own function returning, which the
  class does not notice. The lemmas show that a thread that has once ended by itself is
  never created again.
\<close>

record thread =
  thread_running :: bool
  alive :: bool
  created :: nat

definition Thread_new :: thread where
  "Thread_new = \<lparr>thread_running = False, alive = False, created = 0\<rparr>"

definition IsAlive :: "thread \<Rightarrow> bool" where
  "IsAlive t = alive t"

definition Start :: "bool \<Rightarrow> thread \<Rightarrow> bool \<times> thread" where
  "Start create_ok t =
     (if thread_running t then (True, t)
      else if \<not> create_ok then (False, t)
      else (True, t\<lparr>alive := True, created := created t + 1, thread_running := True\<rparr>))"

text \<open>\<open>pthread_setcanceltype\<close> changes the caller, not the thread: it has no part in the state.\<close>

definition Stop :: "bool \<Rightarrow> thread \<Rightarrow> bool \<times> thread" where
  "Stop cancel_ok t =
     (if \<not> IsAlive t \<or> \<not> thread_running t then (True, t)
      else if \<not> cancel_ok then (False, t)
      else (True, t\<lparr>alive := False, thread_running := False\<rparr>))"

text \<open>\<open>pthread_join\<close> returns when the thread has ended.\<close>

definition Wait :: "bool \<Rightarrow> thread \<Rightarrow> bool \<times> thread" where
  "Wait join_ok t =
     (if \<not> IsAlive t \<or> \<not> thread_running t then (True, t)
      else if \<not> join_ok then (False, t)
      else (True, t\<lparr>alive := False\<rparr>))"

datatype thread_op = OpStart bool | OpStop bool | OpWait bool | OpExits

inductive thread_step :: "thread \<Rightarrow> thread_op \<Rightarrow> thread \<Rightarrow> bool" where
  start: "thread_step t (OpStart ok) (snd (Start ok t))"
| stop: "thread_step t (OpStop ok) (snd (Stop ok t))"
| wait: "thread_step t (OpWait ok) (snd (Wait ok t))"
| exits: "alive t \<Longrightarrow> thread_step t OpExits (t\<lparr>alive := False\<rparr>)"

inductive thread_run :: "thread \<Rightarrow> thread_op list \<Rightarrow> thread \<Rightarrow> bool" where
  no_more: "thread_run t [] t"
| more: "thread_step t x t' \<Longrightarrow> thread_run t' xs t'' \<Longrightarrow> thread_run t (x # xs) t''"

inductive_cases thread_stepE: "thread_step t x t'"
inductive_cases thread_runE: "thread_run t (x # xs) t'"

lemma thread_step_inv:
  "thread_step t x t' \<Longrightarrow> alive t \<longrightarrow> thread_running t \<Longrightarrow> alive t' \<longrightarrow> thread_running t'"
  by (auto elim!: thread_stepE simp: Start_def Stop_def Wait_def IsAlive_def split: if_splits)

lemma thread_step_dead:
  "thread_step t x t' \<Longrightarrow> thread_running t \<and> \<not> alive t \<Longrightarrow> t' = t"
  by (auto elim!: thread_stepE simp: Start_def Stop_def Wait_def IsAlive_def split: if_splits)

lemma thread_run_dead: "thread_run t xs t' \<Longrightarrow> thread_running t \<and> \<not> alive t \<Longrightarrow> t' = t"
  by (induction rule: thread_run.induct) (auto dest: thread_step_dead)

lemma thread_run_inv: "thread_run t xs t' \<Longrightarrow> alive t \<longrightarrow> thread_running t \<Longrightarrow> alive t' \<longrightarrow> thread_running t'"
  by (induction rule: thread_run.induct) (auto dest: thread_step_inv)

text \<open>A thread whose function has returned by itself is never started again. From
  construction on, whatever calls of \<open>Start\<close>, \<open>Stop\<close> and \<open>Wait\<close> follow the end of the thread's
  function, no new thread is created, and every \<open>Start\<close> among them reports success.\<close>

theorem Thread_never_restarts:
  assumes "thread_run Thread_new xs t" and "alive t" and "thread_step t OpExits t'"
    and "thread_run t' ys t''"
  shows "created t'' = created t \<and> \<not> alive t'' \<and> fst (Start ok t'') = True"
proof -
  have "thread_running t"
    using thread_run_inv [OF assms(1)] assms(2) by (simp add: Thread_new_def)
  moreover have "t' = t\<lparr>alive := False\<rparr>"
    using assms(3) by (auto elim: thread_stepE)
  ultimately have "t'' = t\<lparr>alive := False\<rparr>"
    using thread_run_dead [OF assms(4)] by simp
  with \<open>thread_running t\<close> show ?thesis by (simp add: Start_def)
qed

theorem Thread_never_restarts_witness:
  "created (snd (Start True ((snd (Start True Thread_new))\<lparr>alive := False\<rparr>))) = 1 \<and>
   fst (Start True (snd (Start True ((snd (Start True Thread_new))\<lparr>alive := False\<rparr>))))"
proof -
  let ?t = "snd (Start True Thread_new)"
  have run: "thread_run Thread_new [OpStart True] ?t"
    by (rule more [OF start no_more])
  have alive: "alive ?t" and one: "created ?t = 1" by (simp_all add: Start_def Thread_new_def)
  have run': "thread_run (?t\<lparr>alive := False\<rparr>) [OpStart True] (snd (Start True (?t\<lparr>alive := False\<rparr>)))"
    by (rule more [OF start no_more])
  show ?thesis
    using Thread_never_restarts [OF run alive exits [OF alive] run', of True] one by simp
qed

end
