(* ===== verification/CenterThreads.thy ===== *)
theory CenterThreads
  imports Threads Proto
begin

section \<open>The message threads of the center (election\_thread, leader\_thread)\<close>

text \<open>
  \<open>ElectionThread\<close> and \<open>LeaderThread\<close> have the same members: a flag \<open>running_\<close>, a queue of
  messages (a descriptor and a decoded \<open>CentersProto\<close>) that other threads push to and the
  thread's own loop pops from, and \<open>Destory\<close>, which ends the queue. They differ in the initial
  value of \<open>running_\<close>. The lemmas show that messages leave in the order they came, and how
  each loop ends.
\<close>

type_synonym center_msg = "int \<times> CentersProto"

record msg_thread =
  base :: thread
  running :: bool
  items :: "center_msg store"
  msg_q :: "queue option"

abbreviation empty_queue :: queue where
  "empty_queue \<equiv> \<lparr>head = None, tail = None\<rparr>"

subsection \<open>ElectionThread\<close>

definition ElectionThread_new :: msg_thread where
  "ElectionThread_new =
     \<lparr>base = Thread_new, running = True, items = empty_store, msg_q = Some empty_queue\<rparr>"

text \<open>A push through a null queue pointer is a fault.\<close>

definition PushElectionMessage :: "int \<Rightarrow> CentersProto \<Rightarrow> msg_thread \<Rightarrow> fault + msg_thread" where
  "PushElectionMessage fd centers_proto t =
     (case new_item (fd, centers_proto) (items t) of
        (ei, st) \<Rightarrow>
          (case msg_q t of
             None \<Rightarrow> Inl NullDeref
           | Some q \<Rightarrow> (case link_tail ei (st, q) of
               (st, q) \<Rightarrow> Inr (t\<lparr>items := st, msg_q := Some q\<rparr>))))"

definition PopElectionMessage :: "msg_thread \<Rightarrow> fault + (nat option \<times> msg_thread)" where
  "PopElectionMessage t =
     (case msg_q t of
        None \<Rightarrow> Inl NullDeref
      | Some q \<Rightarrow> (case unlink_head (items t, q) of (el_item, q) \<Rightarrow> Inr (el_item, t\<lparr>msg_q := Some q\<rparr>)))"

text \<open>
  The loop of \<open>Destory\<close> deletes the item it then reads \<open>next\<close> from; it is entered only when
  the head is not the tail.
\<close>

definition ElectionThread_Destory :: "msg_thread \<Rightarrow> fault + msg_thread" where
  "ElectionThread_Destory t =
     (case msg_q t of
        None \<Rightarrow> Inr t
      | Some q \<Rightarrow>
          if head q \<noteq> tail q \<and> head q \<noteq> None then Inl UseAfterFree
          else Inr (t\<lparr>msg_q := None\<rparr>))"

text \<open>
  One round of the loop in \<open>Run\<close>: \<open>None\<close> when there is no message (the thread sleeps),
  otherwise the message handed to \<open>ProcessCenterData\<close>, with its item deleted.
\<close>

definition ElectionThread_round :: "msg_thread \<Rightarrow> fault + (center_msg option \<times> msg_thread)" where
  "ElectionThread_round t =
     (case PopElectionMessage t of
        Inl f \<Rightarrow> Inl f
      | Inr (None, t) \<Rightarrow> Inr (None, t)
      | Inr (Some el_item, t) \<Rightarrow>
          (case cells (items t) el_item of
             None \<Rightarrow> Inl UseAfterFree
           | Some it \<Rightarrow> Inr (content it, t\<lparr>items := delete_item el_item (items t)\<rparr>)))"

definition StopElectionThread :: "msg_thread \<Rightarrow> msg_thread" where
  "StopElectionThread t = t\<lparr>running := False\<rparr>"

subsection \<open>LeaderThread\<close>

definition LeaderThread_new :: msg_thread where
  "LeaderThread_new =
     \<lparr>base = Thread_new, running = False, items = empty_store, msg_q = Some empty_queue\<rparr>"

definition PushFollowerMessage :: "int \<Rightarrow> CentersProto \<Rightarrow> msg_thread \<Rightarrow> fault + msg_thread" where
  "PushFollowerMessage fd centers_proto t =
     (case new_item (fd, centers_proto) (items t) of
        (fi, st) \<Rightarrow>
          (case msg_q t of
             None \<Rightarrow> Inl NullDeref
           | Some q \<Rightarrow> (case link_tail fi (st, q) of
               (st, q) \<Rightarrow> Inr (t\<lparr>items := st, msg_q := Some q\<rparr>))))"

definition PopFollowerMessage :: "msg_thread \<Rightarrow> fault + (nat option \<times> msg_thread)" where
  "PopFollowerMessage t =
     (case msg_q t of
        None \<Rightarrow> Inl NullDeref
      | Some q \<Rightarrow> (case unlink_head (items t, q) of (fw_item, q) \<Rightarrow> Inr (fw_item, t\<lparr>msg_q := Some q\<rparr>)))"

definition LeaderThread_Destory :: "msg_thread \<Rightarrow> fault + msg_thread" where
  "LeaderThread_Destory t =
     (case msg_q t of
        None \<Rightarrow> Inr t
      | Some q \<Rightarrow>
          if head q \<noteq> tail q \<and> head q \<noteq> None then Inl UseAfterFree
          else Inr (t\<lparr>msg_q := None\<rparr>))"

definition LeaderThread_round :: "msg_thread \<Rightarrow> fault + (center_msg option \<times> msg_thread)" where
  "LeaderThread_round t =
     (case PopFollowerMessage t of
        Inl f \<Rightarrow> Inl f
      | Inr (None, t) \<Rightarrow> Inr (None, t)
      | Inr (Some fw_item, t) \<Rightarrow>
          (case cells (items t) fw_item of
             None \<Rightarrow> Inl UseAfterFree
           | Some it \<Rightarrow> Inr (content it, t\<lparr>items := delete_item fw_item (items t)\<rparr>)))"

text \<open>
  \<open>Run\<close>: a new queue if there is none, then rounds while \<open>running_\<close>, at most \<open>fuel\<close> of them
  (\<open>None\<close>: still running), each with the handler \<open>process\<close>, which may reach the thread
  object too; then \<open>Destory\<close>.
\<close>

fun LeaderThread_loop ::
  "(center_msg \<Rightarrow> msg_thread \<Rightarrow> msg_thread) \<Rightarrow> nat \<Rightarrow> msg_thread \<Rightarrow> (fault + msg_thread) option" where
  "LeaderThread_loop process fuel t =
     (if \<not> running t then Some (LeaderThread_Destory t)
      else (case fuel of
        0 \<Rightarrow> None
      | Suc fuel \<Rightarrow>
          (case LeaderThread_round t of
             Inl f \<Rightarrow> Some (Inl f)
           | Inr (None, t) \<Rightarrow> LeaderThread_loop process fuel t
           | Inr (Some msg, t) \<Rightarrow> LeaderThread_loop process fuel (process msg t))))"

definition LeaderThread_Run ::
  "(center_msg \<Rightarrow> msg_thread \<Rightarrow> msg_thread) \<Rightarrow> nat \<Rightarrow> msg_thread \<Rightarrow> (fault + msg_thread) option" where
  "LeaderThread_Run process fuel t =
     LeaderThread_loop process fuel
       (if msg_q t = None then t\<lparr>msg_q := Some empty_queue\<rparr> else t)"

definition StopLeaderThread :: "msg_thread \<Rightarrow> msg_thread" where
  "StopLeaderThread t = t\<lparr>running := False\<rparr>"

subsection \<open>The queues as instances of the interface\<close>

text \<open>
  The messages a thread holds, and its operations where they do not fault: \<open>ok_push\<close> and
  \<open>ok_pop\<close> take the value out of the result and keep the state on a fault. \<open>holds_msgs\<close> rules
  the faults out.
\<close>

definition holds_msgs :: "msg_thread \<Rightarrow> center_msg list \<Rightarrow> bool" where
  "holds_msgs t ms \<longleftrightarrow> (\<exists>q. msg_q t = Some q \<and> q_holds (items t, q) ms)"

definition ok_push ::
  "(int \<Rightarrow> CentersProto \<Rightarrow> msg_thread \<Rightarrow> fault + msg_thread) \<Rightarrow> center_msg \<Rightarrow> msg_thread \<Rightarrow> msg_thread" where
  "ok_push f m t = (case f (fst m) (snd m) t of Inl _ \<Rightarrow> t | Inr t' \<Rightarrow> t')"

definition ok_pop ::
  "(msg_thread \<Rightarrow> fault + (center_msg option \<times> msg_thread)) \<Rightarrow> msg_thread \<Rightarrow> center_msg option \<times> msg_thread" where
  "ok_pop f t = (case f t of Inl _ \<Rightarrow> (None, t) | Inr r \<Rightarrow> r)"

lemma holds_msgs_new: "holds_msgs ElectionThread_new []" "holds_msgs LeaderThread_new []"
  using q_holds_new by (auto simp: holds_msgs_def ElectionThread_new_def LeaderThread_new_def)

lemma same_code:
  "PushFollowerMessage = PushElectionMessage" "LeaderThread_round = ElectionThread_round"
  by (simp_all add: fun_eq_iff PushFollowerMessage_def PushElectionMessage_def
      LeaderThread_round_def ElectionThread_round_def PopFollowerMessage_def PopElectionMessage_def)

lemma PushElectionMessage_holds:
  assumes "holds_msgs t ms"
  shows "\<exists>t'. PushElectionMessage fd m t = Inr t' \<and> holds_msgs t' (ms @ [(fd, m)]) \<and>
    running t' = running t \<and> base t' = base t"
proof -
  from assms obtain q where q: "msg_q t = Some q" "q_holds (items t, q) ms"
    by (auto simp: holds_msgs_def)
  obtain a st where new: "new_item (fd, m) (items t) = (a, st)" by fastforce
  obtain st' q' where link: "link_tail a (st, q) = (st', q')" by fastforce
  from q_holds_put [OF q(2) new] link have "q_holds (st', q') (ms @ [(fd, m)])" by simp
  with q(1) new link show ?thesis by (simp add: PushElectionMessage_def holds_msgs_def)
qed

lemma ElectionThread_round_empty:
  assumes "holds_msgs t []" shows "ElectionThread_round t = Inr (None, t)"
proof -
  from assms obtain q where q: "msg_q t = Some q" "q_holds (items t, q) []"
    by (auto simp: holds_msgs_def)
  with q_holds_none [OF q(2)] show ?thesis
    by (simp add: ElectionThread_round_def PopElectionMessage_def)
qed

lemma ElectionThread_round_first:
  assumes "holds_msgs t (m # ms)"
  shows "\<exists>t'. ElectionThread_round t = Inr (Some m, t') \<and> holds_msgs t' ms \<and>
    running t' = running t \<and> base t' = base t"
proof -
  from assms obtain q where q: "msg_q t = Some q" "q_holds (items t, q) (m # ms)"
    by (auto simp: holds_msgs_def)
  obtain a it q' where "unlink_head (items t, q) = (Some a, q')" "cells (items t) a = Some it"
    "content it = Some m" "q_holds (delete_item a (items t), q') ms"
    by (rule q_holds_take [OF q(2)])
  with q(1) show ?thesis
    by (simp add: ElectionThread_round_def PopElectionMessage_def holds_msgs_def)
qed

interpretation election_queue: fifo holds_msgs "ok_push PushElectionMessage" "ok_pop ElectionThread_round"
proof unfold_locales
  fix t ms m
  assume "holds_msgs t ms"
  from PushElectionMessage_holds [OF this, of "fst m" "snd m"]
  show "holds_msgs (ok_push PushElectionMessage m t) (ms @ [m])" by (auto simp: ok_push_def)
next
  fix t
  assume "holds_msgs t []"
  with ElectionThread_round_empty [OF this]
  show "fst (ok_pop ElectionThread_round t) = None \<and> holds_msgs (snd (ok_pop ElectionThread_round t)) []"
    by (simp add: ok_pop_def)
next
  fix t m ms
  assume "holds_msgs t (m # ms)"
  from ElectionThread_round_first [OF this]
  show "fst (ok_pop ElectionThread_round t) = Some m \<and> holds_msgs (snd (ok_pop ElectionThread_round t)) ms"
    by (auto simp: ok_pop_def)
qed

interpretation follower_queue: fifo holds_msgs "ok_push PushFollowerMessage" "ok_pop LeaderThread_round"
  unfolding same_code by (rule election_queue.fifo_axioms)

subsection \<open>Properties\<close>

text \<open>A run of pushes and rounds on the election thread: the messages handed out, and the state.\<close>

primrec run_election :: "center_msg queue_op list \<Rightarrow> msg_thread \<Rightarrow> fault + (center_msg list \<times> msg_thread)" where
  "run_election [] t = Inr ([], t)"
| "run_election (x # xs) t =
     (case x of
        Push m \<Rightarrow> (case PushElectionMessage (fst m) (snd m) t of
                     Inl f \<Rightarrow> Inl f | Inr t \<Rightarrow> run_election xs t)
      | Pop \<Rightarrow> (case ElectionThread_round t of
                  Inl f \<Rightarrow> Inl f
                | Inr (r, t) \<Rightarrow> (case run_election xs t of
                    Inl f \<Rightarrow> Inl f
                  | Inr (ms, t) \<Rightarrow> Inr ((case r of None \<Rightarrow> ms | Some m \<Rightarrow> m # ms), t))))"

definition pushed :: "center_msg queue_op list \<Rightarrow> center_msg list" where
  "pushed xs = concat (map (\<lambda>x. case x of Push m \<Rightarrow> [m] | Pop \<Rightarrow> []) xs)"

lemma run_election_serve:
  "holds_msgs t ms \<Longrightarrow> run_election xs t = Inr (election_queue.serve xs t)"
proof (induction xs arbitrary: t ms)
  case (Cons x xs)
  show ?case
  proof (cases x)
    case (Push m)
    obtain t' where t': "PushElectionMessage (fst m) (snd m) t = Inr t'" "holds_msgs t' (ms @ [m])"
      using PushElectionMessage_holds [OF Cons.prems, of "fst m" "snd m"] by auto
    then have "ok_push PushElectionMessage m t = t'" by (simp add: ok_push_def)
    with t' Push Cons.IH [OF t'(2)] show ?thesis by simp
  next
    case Pop
    show ?thesis
    proof (cases ms)
      case Nil
      with Cons.prems have r: "ElectionThread_round t = Inr (None, t)"
        by (simp add: ElectionThread_round_empty)
      then have "ok_pop ElectionThread_round t = (None, t)" by (simp add: ok_pop_def)
      with r Pop Cons.IH [OF Cons.prems] show ?thesis by (simp split: prod.splits)
    next
      case (Cons m ms')
      with Cons.prems obtain t' where r: "ElectionThread_round t = Inr (Some m, t')" "holds_msgs t' ms'"
        using ElectionThread_round_first by blast
      then have "ok_pop ElectionThread_round t = (Some m, t')" by (simp add: ok_pop_def)
      with r Pop Cons.IH [OF r(2)] show ?thesis by (simp split: prod.splits)
    qed
  qed
qed simp

text \<open>The election queue is first in, first out and loses nothing. From a new
  \<open>ElectionThread\<close>, any run of \<open>PushElectionMessage\<close> and of loop rounds meets no invalid
  pointer, and the messages handed to \<open>ProcessCenterData\<close> so far are the oldest ones pushed, in
  order, the others being still in the queue.\<close>

theorem election_queue_fifo:
  "\<exists>out t rest. run_election xs ElectionThread_new = Inr (out, t) \<and> holds_msgs t rest \<and>
     out @ rest = pushed xs"
proof -
  from election_queue.serve_fifo [OF holds_msgs_new(1), of xs]
    run_election_serve [OF holds_msgs_new(1), of xs]
  show ?thesis by (metis pushed_def append_Nil prod.collapse)
qed

lemma LeaderThread_Destory_new:
  "holds_msgs t [] \<Longrightarrow> LeaderThread_Destory t = Inr (t\<lparr>msg_q := None\<rparr>)"
  by (auto simp: holds_msgs_def q_holds_def queue_of_def LeaderThread_Destory_def)

text \<open>The leader thread never processes a message. With \<open>running_\<close> initialised to false
  and set nowhere else, \<open>Run\<close> of a new \<open>LeaderThread\<close> returns at once whatever the handler is,
  with the queue pointer cleared, and every later \<open>PushFollowerMessage\<close>, which does not test that
  pointer, goes through the null pointer.\<close>

theorem LeaderThread_never_processes:
  "\<exists>t. LeaderThread_Run process fuel LeaderThread_new = Some (Inr t) \<and>
     LeaderThread_Run process fuel LeaderThread_new = LeaderThread_Run process' 0 LeaderThread_new \<and>
     PushFollowerMessage fd m t = Inl NullDeref"
  using LeaderThread_Destory_new [OF holds_msgs_new(2)]
  by (auto simp: LeaderThread_Run_def LeaderThread_new_def PushFollowerMessage_def split: prod.splits)

text \<open>Ending a message thread with two or more messages waiting is a use after free: the
  loop of \<open>Destory\<close> reads the \<open>next\<close> field of the item it has just deleted. With at most one
  message it ends cleanly (and the message is dropped, not deleted).\<close>

theorem Destory_use_after_free:
  assumes "holds_msgs t ms"
  shows "ElectionThread_Destory t =
    (if 2 \<le> length ms then Inl UseAfterFree else Inr (t\<lparr>msg_q := None\<rparr>))"
proof -
  from assms obtain q as where q: "msg_q t = Some q" "queue_of (items t, q) as"
    and len: "length as = length ms"
    by (auto simp: holds_msgs_def q_holds_def dest!: arg_cong [where f = length])
  show ?thesis
  proof (cases as)
    case Nil
    with q len show ?thesis by (simp add: ElectionThread_Destory_def queue_of_def)
  next
    case (Cons a bs)
    with q len show ?thesis
      by (cases bs rule: rev_cases)
        (auto simp: ElectionThread_Destory_def queue_of_def)
  qed
qed

theorem Destory_use_after_free_witness:
  "\<exists>t t'. PushElectionMessage 1 CentersProto_default ElectionThread_new = Inr t \<and>
     PushElectionMessage 2 CentersProto_default t = Inr t' \<and>
     ElectionThread_Destory t' = Inl UseAfterFree"
proof -
  obtain t where t: "PushElectionMessage 1 CentersProto_default ElectionThread_new = Inr t"
    "holds_msgs t ([] @ [(1, CentersProto_default)])"
    using PushElectionMessage_holds [OF holds_msgs_new(1)] by blast
  obtain t' where "PushElectionMessage 2 CentersProto_default t = Inr t'"
    "holds_msgs t' (([] @ [(1, CentersProto_default)]) @ [(2, CentersProto_default)])"
    using PushElectionMessage_holds [OF t(2)] by blast
  with Destory_use_after_free [OF this(2)] t(1) show ?thesis by auto
qed

end
