(* ===== verification/RpcCenter.thy ===== *)
theory RpcCenter
  imports CenterThreads LoadBalancer Wire "HOL-Library.List_Lexorder" "HOL-Library.Char_ord" "HOL-Library.AList"
begin

section \<open>The center: state, leader order, votes (rpc\_center/rpc\_center.cpp)\<close>

text \<open>
  The singleton \<open>RpcCenter\<close>. Its state is the record \<open>rpc_center\<close>; the system it runs on is
  the record \<open>center_env\<close>, whose results are indexed by the number of effects so far, so that
  two calls need not agree. A handler returns a fault or its boolean and the new state. The
  effects (connections, messages, closed descriptors) are recorded in order in \<open>trace\<close>.
  The locks are not in the state: each handler runs as one step.
\<close>

subsection \<open>State\<close>

text \<open>\<open>current_follow_leader_center\<close> is a \<open>char[128]\<close>; the model keeps the string in it.\<close>

record OtherCenter =
  oc_start_time :: u64
  oc_center_status :: CenterStatus
  vote_count :: u32
  current_follow_leader_center :: string

text \<open>Effects, oldest first. \<open>Overflow\<close> is a write of that many bytes past a heap block.\<close>

datatype effect =
    Connect string int
  | Send int CenterType string send_result
  | Receive int recv_outcome
  | Close int
  | Overflow nat

text \<open>
  \<open>other_centers\<close> and \<open>rpc_server_buf\<close> are the unordered containers, as lists with distinct
  keys. \<open>LeaderInfos\<close> is the pair of fields \<open>lc_start_time\<close> and \<open>leader_center\<close>.
\<close>

record rpc_center =
  center_port :: "string option"
  center_status :: CenterStatus
  start_time :: u64
  lc_start_time :: u64
  leader_center :: string
  other_centers :: "(string \<times> OtherCenter) list"
  election_done_num :: u32
  logical_clock :: u64
  fastleader_running :: bool
  center_server_thread :: "thread option"
  election_thread :: "msg_thread option"
  reporter_thread :: "thread option"
  leader_thread :: "msg_thread option"
  load_balancer :: "ConsistentHashLoadBalancer option"
  center_hash_map :: "string ordmap"
  rpc_server_buf :: "RpcClusterServer list"
  trace :: "effect list"

text \<open>
  The system: the machine's address, results of \<open>TcpConnect\<close>, of the \<open>send\<close> calls of one
  \<open>RpcSend\<close>, of the \<open>recv\<close> calls of one \<open>RpcRecv\<close>, of the pthread calls, the order in which an
  unordered container is visited, and the protobuf functions.
\<close>

record center_env =
  local_address :: string
  connects :: "nat \<Rightarrow> string \<Rightarrow> string option \<Rightarrow> int"
  sends :: "nat \<Rightarrow> int \<Rightarrow> nat \<Rightarrow> int"
  receives :: "nat \<Rightarrow> int \<Rightarrow> recv_event list"
  thread_ok :: "nat \<Rightarrow> bool"
  visit :: "string list \<Rightarrow> string list"
  visit_servers :: "RpcClusterServer list \<Rightarrow> RpcClusterServer list"
  cp_to_string :: "CentersProto \<Rightarrow> string option"
  cp_of_string :: "string \<Rightarrow> CentersProto option"
  cwc_to_string :: "ClientWithCenter \<Rightarrow> string option"
  cwc_of_string :: "string \<Rightarrow> ClientWithCenter option"
  crc_to_string :: "CenterResponseCluster \<Rightarrow> string option"
  rcs_of_string :: "string \<Rightarrow> RpcClusterServer option"

subsection \<open>Effects\<close>

definition effect :: "effect \<Rightarrow> rpc_center \<Rightarrow> rpc_center" where
  "effect e c = c\<lparr>trace := trace c @ [e]\<rparr>"

definition connect_center :: "center_env \<Rightarrow> string \<Rightarrow> rpc_center \<Rightarrow> int \<times> rpc_center" where
  "connect_center env addr c =
     (let fd = connects env (length (trace c)) addr (center_port c) in (fd, effect (Connect addr fd) c))"

definition send_on ::
  "center_env \<Rightarrow> int \<Rightarrow> CenterType \<Rightarrow> string \<Rightarrow> bool \<Rightarrow> rpc_center \<Rightarrow> int \<times> rpc_center" where
  "send_on env fd ty message need_closed c =
     (let r = RpcSend (sends env (length (trace c)) fd) (center_type_code ty) message need_closed
      in (ret r, effect (Send fd ty message r) c))"

text \<open>A receiver that waits for ever is the fault \<open>Hang\<close>.\<close>

definition receive_on :: "center_env \<Rightarrow> int \<Rightarrow> rpc_center \<Rightarrow> fault + (int \<times> string \<times> rpc_center)" where
  "receive_on env fd c =
     (let r = RpcRecv (receives env (length (trace c)) fd) [] False
      in case r of
           Returned code message nc evs \<Rightarrow> Inr (code, message, effect (Receive fd r) c)
         | Blocked message \<Rightarrow> Inl Hang
         | OverRead \<Rightarrow> Inl BufferOverRead)"

definition close_fd :: "int \<Rightarrow> rpc_center \<Rightarrow> rpc_center" where
  "close_fd fd c = effect (Close fd) c"

text \<open>\<open>insert\<close> of the unordered map: an existing key keeps its value.\<close>

definition umap_insert :: "'k \<Rightarrow> 'v \<Rightarrow> ('k \<times> 'v) list \<Rightarrow> ('k \<times> 'v) list" where
  "umap_insert k v m = (case map_of m k of None \<Rightarrow> m @ [(k, v)] | Some _ \<Rightarrow> m)"

subsection \<open>Construction and accessors\<close>

definition RpcCenter_new :: "center_env \<Rightarrow> u64 \<Rightarrow> rpc_center" where
  "RpcCenter_new env now =
     \<lparr>center_port = None, center_status = LOOKING, start_time = now, lc_start_time = now,
      leader_center = local_address env, other_centers = [], election_done_num = 0,
      logical_clock = 0, fastleader_running = False, center_server_thread = None,
      election_thread = None, reporter_thread = None, leader_thread = None, load_balancer = None,
      center_hash_map = [], rpc_server_buf = [], trace = []\<rparr>"

definition UpdateCenterStatus :: "CenterStatus \<Rightarrow> rpc_center \<Rightarrow> rpc_center" where
  "UpdateCenterStatus cs c = c\<lparr>center_status := cs\<rparr>"

definition UpdateLeadingCenterInfos :: "CentersProto \<Rightarrow> rpc_center \<Rightarrow> rpc_center" where
  "UpdateLeadingCenterInfos centers_proto c =
     c\<lparr>lc_start_time := cp_lc_start_time centers_proto, leader_center := cp_leader_center centers_proto\<rparr>"

definition IncreaseLogicalClock :: "rpc_center \<Rightarrow> rpc_center" where
  "IncreaseLogicalClock c = c\<lparr>logical_clock := logical_clock c + 1\<rparr>"

definition GetLocalCenterStatus :: "rpc_center \<Rightarrow> CenterStatus" where
  "GetLocalCenterStatus c = center_status c"

definition GetCenterStatus :: "rpc_center \<Rightarrow> CenterStatus" where
  "GetCenterStatus c = center_status c"

definition GetOCStartTime :: "string \<Rightarrow> rpc_center \<Rightarrow> u64" where
  "GetOCStartTime center c =
     (case map_of (other_centers c) center of None \<Rightarrow> 0 | Some oc \<Rightarrow> oc_start_time oc)"

definition GetLeadingCenter :: "rpc_center \<Rightarrow> string" where
  "GetLeadingCenter c = leader_center c"

definition GetLeadingCenterStartTime :: "rpc_center \<Rightarrow> u64" where
  "GetLeadingCenterStartTime c = lc_start_time c"

definition GetLogicalClock :: "rpc_center \<Rightarrow> u64" where
  "GetLogicalClock c = logical_clock c"

definition SetFastLeaderRunning :: "bool \<Rightarrow> rpc_center \<Rightarrow> rpc_center" where
  "SetFastLeaderRunning is_running c = c\<lparr>fastleader_running := is_running\<rparr>"

definition IsFastLeaderRunning :: "rpc_center \<Rightarrow> bool" where
  "IsFastLeaderRunning c = fastleader_running c"

definition CenterIsReady :: "rpc_center \<Rightarrow> bool" where
  "CenterIsReady c =
     (let cs = GetCenterStatus c in \<not> (cs \<noteq> FOLLOWING \<and> cs \<noteq> LEADING))"

text \<open>The set of registered servers compares addresses only.\<close>

definition AddRpcServerToBuf :: "RpcClusterServer \<Rightarrow> rpc_center \<Rightarrow> rpc_center" where
  "AddRpcServerToBuf rcs c =
     (if cluster_server_addr rcs \<in> cluster_server_addr ` set (rpc_server_buf c) then c
      else c\<lparr>rpc_server_buf := rpc_server_buf c @ [rcs]\<rparr>)"

definition RegistNewCenter :: "string \<Rightarrow> rpc_center \<Rightarrow> rpc_center" where
  "RegistNewCenter new_center c =
     c\<lparr>center_hash_map := om_insert_all
          (map (\<lambda>i. (node_key new_center i, new_center)) [0..<50]) (center_hash_map c)\<rparr>"

lemmas [center_defs] =
  effect_def close_fd_def UpdateCenterStatus_def UpdateLeadingCenterInfos_def
  IncreaseLogicalClock_def GetCenterStatus_def GetLeadingCenter_def GetLeadingCenterStartTime_def
  GetLogicalClock_def SetFastLeaderRunning_def IsFastLeaderRunning_def CenterIsReady_def
  AddRpcServerToBuf_def RegistNewCenter_def

subsection \<open>The leader predicate\<close>

text \<open>\<open>string::compare\<close> orders by unsigned characters, which is the order on lists of characters here.\<close>

definition LeaderPredicate :: "CentersProto \<Rightarrow> rpc_center \<Rightarrow> CenterAction" where
  "LeaderPredicate centers_proto c =
     (let clock = GetLogicalClock c in
      if cp_logical_clock centers_proto < clock then REFUSED
      else if cp_logical_clock centers_proto = clock then
        (let lc = GetLeadingCenter c; lc_start = GetLeadingCenterStartTime c in
         if cp_lc_start_time centers_proto > lc_start then REFUSED
         else if cp_lc_start_time centers_proto = lc_start \<and> lc \<ge> cp_leader_center centers_proto
         then REFUSED
         else ACCEPT)
      else ACCEPT)"

subsection \<open>Broadcast\<close>

primrec broadcast_to :: "center_env \<Rightarrow> string \<Rightarrow> string list \<Rightarrow> rpc_center \<Rightarrow> rpc_center" where
  "broadcast_to env bc_info [] c = c"
| "broadcast_to env bc_info (center_addr # rest) c =
     (case connect_center env center_addr c of (conn_fd, c) \<Rightarrow>
        if conn_fd \<le> 0 then broadcast_to env bc_info rest c
        else (case send_on env conn_fd CENTER2CENTER bc_info False c of (r, c) \<Rightarrow>
          broadcast_to env bc_info rest (close_fd conn_fd c)))"

definition BroadcastInfo :: "center_env \<Rightarrow> string \<Rightarrow> rpc_center \<Rightarrow> rpc_center" where
  "BroadcastInfo env bc_info c = broadcast_to env bc_info (visit env (map fst (other_centers c))) c"

subsection \<open>Votes\<close>

definition strcpy_follow :: "string \<Rightarrow> fault + string" where
  "strcpy_follow s = (if length (c_str s) < 128 then Inr (c_str s) else Inl StrcpyOverflow)"

text \<open>The first critical section: what a message says of its sender.\<close>

definition record_sender :: "CentersProto \<Rightarrow> rpc_center \<Rightarrow> fault + rpc_center" where
  "record_sender centers_proto c =
     (case strcpy_follow (cp_leader_center centers_proto) of
        Inl f \<Rightarrow> Inl f
      | Inr follow \<Rightarrow>
          (let addr = from_center_addr centers_proto in
           case map_of (other_centers c) addr of
             None \<Rightarrow> Inr (c\<lparr>other_centers := umap_insert addr
                 \<lparr>oc_start_time = cp_start_time centers_proto,
                  oc_center_status = cp_center_status centers_proto, vote_count = 0,
                  current_follow_leader_center = follow\<rparr> (other_centers c)\<rparr>)
           | Some oc \<Rightarrow> Inr (c\<lparr>other_centers := AList.update addr
                 (oc\<lparr>oc_start_time := cp_start_time centers_proto,
                     oc_center_status := cp_center_status centers_proto,
                     current_follow_leader_center := follow\<rparr>) (other_centers c)\<rparr>)))"

text \<open>
  The second: the vote. A vote for a center that is not in the table is inserted at the
  address of the sender, which the first section has just put there.
\<close>

definition count_vote :: "CentersProto \<Rightarrow> rpc_center \<Rightarrow> u32 \<times> rpc_center" where
  "count_vote centers_proto c =
     (let addr = from_center_addr centers_proto; leader = cp_leader_center centers_proto in
      case map_of (other_centers c) leader of
        None \<Rightarrow> (0, c\<lparr>other_centers := umap_insert addr
            \<lparr>oc_start_time = 0, oc_center_status = LOOKING, vote_count = 1,
             current_follow_leader_center = []\<rparr> (other_centers c)\<rparr>)
      | Some oc \<Rightarrow> (vote_count oc + 1, c\<lparr>other_centers := AList.update leader
            (oc\<lparr>vote_count := vote_count oc + 1\<rparr>) (other_centers c)\<rparr>))"

definition confirm_message :: "center_env \<Rightarrow> rpc_center \<Rightarrow> CentersProto" where
  "confirm_message env c =
     CentersProto_default\<lparr>from_center_addr := local_address env, center_action := LEADER_CONFIRM,
       cp_start_time := start_time c, cp_logical_clock := GetLogicalClock c,
       cp_center_status := LEADING, cp_lc_start_time := start_time c,
       cp_leader_center := local_address env\<rparr>"

text \<open>The branch taken when the local center has been elected.\<close>

definition become_leader :: "center_env \<Rightarrow> rpc_center \<Rightarrow> fault + (bool \<times> rpc_center)" where
  "become_leader env c =
     (let c = UpdateCenterStatus LEADING c in
      case leader_thread c of
        None \<Rightarrow> Inl NullDeref
      | Some lt \<Rightarrow>
          (case Start (thread_ok env (length (trace c))) (base lt) of (ok, b) \<Rightarrow>
             if \<not> ok then Inr (False, c)
             else
               (let c = c\<lparr>leader_thread := Some (lt\<lparr>base := b\<rparr>)\<rparr>;
                    c = (case cp_to_string env (confirm_message env c) of
                           None \<Rightarrow> c
                         | Some confirm_str \<Rightarrow> BroadcastInfo env confirm_str c)
                in case election_thread c of
                     None \<Rightarrow> Inl NullDeref
                   | Some et \<Rightarrow>
                       Inr (True, c\<lparr>election_thread := Some (et\<lparr>base :=
                         snd (Stop (thread_ok env (length (trace c))) (base et))\<rparr>)\<rparr>))))"

definition UpdateOCStatus :: "center_env \<Rightarrow> CentersProto \<Rightarrow> rpc_center \<Rightarrow> fault + (bool \<times> rpc_center)" where
  "UpdateOCStatus env centers_proto c =
     (if cp_logical_clock centers_proto < GetLogicalClock c then Inr (False, c)
      else
        (case record_sender centers_proto c of
           Inl f \<Rightarrow> Inl f
         | Inr c \<Rightarrow>
             (case count_vote centers_proto c of (votes, c) \<Rightarrow>
                if election_done_num c \<noteq> 0 \<and> votes \<ge> election_done_num c then
                  (let c = UpdateLeadingCenterInfos centers_proto c in
                   if c_str (GetLeadingCenter c) = c_str (local_address env) then become_leader env c
                   else Inr (True, if GetCenterStatus c \<noteq> FOLLOWING
                                   then UpdateCenterStatus OBSERVING c else c))
                else Inr (True, c))))"

end
