(* ===== verification/CenterElection.thy ===== *)
theory CenterElection
  imports RpcCenter
begin

section \<open>Election rounds of the center (rpc\_center/rpc\_center.cpp)\<close>

text \<open>
  The inquiry and proposal rounds, the handler \<open>ProcessCenterData\<close> of the election thread,
  and the life of the center from \<open>InitRpcCenter\<close> to \<open>StopCenter\<close>. The lemmas characterise the
  leader predicate as a strict order on candidates, the result of an inquiry as a maximum,
  and show what a center can and cannot become.
\<close>

subsection \<open>Inquiry and proposal\<close>

definition inquiry_message :: "center_env \<Rightarrow> rpc_center \<Rightarrow> CentersProto" where
  "inquiry_message env c =
     CentersProto_default\<lparr>from_center_addr := local_address env, cp_center_status := GetCenterStatus c,
       center_action := INQUIRY, cp_start_time := start_time c, cp_logical_clock := GetLogicalClock c\<rparr>"

text \<open>What the loop does with a parsed response of the center at \<open>addr\<close>.\<close>

definition consider_response :: "string \<Rightarrow> CentersProto \<Rightarrow> rpc_center \<Rightarrow> rpc_center" where
  "consider_response addr response_proto c =
     (let c = c\<lparr>other_centers := AList.map_entry addr
            (\<lambda>oc. oc\<lparr>oc_start_time := cp_start_time response_proto,
                     oc_center_status := cp_center_status response_proto\<rparr>) (other_centers c)\<rparr>;
          p = response_proto\<lparr>cp_lc_start_time := cp_start_time response_proto,
                             cp_leader_center := from_center_addr response_proto\<rparr>
      in if LeaderPredicate p c = ACCEPT then UpdateLeadingCenterInfos p c else c)"

definition inquire_one :: "center_env \<Rightarrow> string \<Rightarrow> string \<Rightarrow> rpc_center \<Rightarrow> fault + rpc_center" where
  "inquire_one env inquiry_str center_addr c =
     (if map_option oc_center_status (map_of (other_centers c) center_addr) \<noteq> Some UNKONW then Inr c
      else (case connect_center env center_addr c of (conn_fd, c) \<Rightarrow>
        if conn_fd \<le> 0 then Inr c
        else (case send_on env conn_fd CENTER2CENTER inquiry_str False c of (r, c) \<Rightarrow>
          if r < 0 then Inr c
          else (case receive_on env conn_fd c of
                  Inl f \<Rightarrow> Inl f
                | Inr (center_type, recv_message, c) \<Rightarrow>
                    if center_type < 0 then Inr c
                    else (case cp_of_string env recv_message of
                            None \<Rightarrow> Inr (close_fd conn_fd c)
                          | Some response_proto \<Rightarrow>
                              Inr (close_fd conn_fd (consider_response center_addr response_proto c)))))))"

primrec inquire_all :: "center_env \<Rightarrow> string \<Rightarrow> string list \<Rightarrow> rpc_center \<Rightarrow> fault + rpc_center" where
  "inquire_all env inquiry_str [] c = Inr c"
| "inquire_all env inquiry_str (addr # rest) c =
     (case inquire_one env inquiry_str addr c of
        Inl f \<Rightarrow> Inl f
      | Inr c \<Rightarrow> inquire_all env inquiry_str rest c)"

definition InquiryCenters :: "center_env \<Rightarrow> rpc_center \<Rightarrow> fault + (bool \<times> rpc_center)" where
  "InquiryCenters env c =
     (case cp_to_string env (inquiry_message env c) of
        None \<Rightarrow> Inr (False, c)
      | Some inquiry_str \<Rightarrow>
          map_sum id (Pair True)
            (inquire_all env inquiry_str (visit env (map fst (other_centers c))) c))"

definition proposal_message :: "center_env \<Rightarrow> rpc_center \<Rightarrow> CentersProto" where
  "proposal_message env c =
     CentersProto_default\<lparr>from_center_addr := local_address env, cp_center_status := LOOKING,
       center_action := PROPOSAL, cp_start_time := start_time c,
       cp_lc_start_time := GetLeadingCenterStartTime c, cp_logical_clock := GetLogicalClock c,
       cp_leader_center := GetLeadingCenter c\<rparr>"

definition ProposalLeaderElection :: "center_env \<Rightarrow> rpc_center \<Rightarrow> bool \<times> rpc_center" where
  "ProposalLeaderElection env c =
     (let c = IncreaseLogicalClock c in
      case cp_to_string env (proposal_message env c) of
        None \<Rightarrow> (False, c)
      | Some proposal_str \<Rightarrow> (True, BroadcastInfo env proposal_str c))"

definition FastLeaderElection :: "center_env \<Rightarrow> rpc_center \<Rightarrow> fault + (bool \<times> rpc_center)" where
  "FastLeaderElection env c =
     (case InquiryCenters env c of
        Inl f \<Rightarrow> Inl f
      | Inr (_, c) \<Rightarrow> Inr (True, snd (ProposalLeaderElection env c)))"

definition StartFastLeaderElection :: "center_env \<Rightarrow> rpc_center \<Rightarrow> fault + (bool \<times> rpc_center)" where
  "StartFastLeaderElection env c =
     (if \<not> IsFastLeaderRunning c then
        (case election_thread c of
           None \<Rightarrow> Inl NullDeref
         | Some et \<Rightarrow>
             (case Start (thread_ok env (length (trace c))) (base et) of (ok, b) \<Rightarrow>
                if \<not> ok then Inr (False, c)
                else FastLeaderElection env
                       (SetFastLeaderRunning True (c\<lparr>election_thread := Some (et\<lparr>base := b\<rparr>)\<rparr>))))
      else FastLeaderElection env c)"

subsection \<open>The handler of the election thread\<close>

definition inquiry_response :: "center_env \<Rightarrow> CenterAction \<Rightarrow> rpc_center \<Rightarrow> CentersProto" where
  "inquiry_response env ca c =
     CentersProto_default\<lparr>from_center_addr := local_address env, cp_center_status := GetCenterStatus c,
       center_action := ca, cp_start_time := start_time c,
       cp_lc_start_time := GetLeadingCenterStartTime c, cp_logical_clock := GetLogicalClock c,
       cp_leader_center := GetLeadingCenter c\<rparr>"

definition process_confirm :: "center_env \<Rightarrow> CentersProto \<Rightarrow> rpc_center \<Rightarrow> fault + rpc_center" where
  "process_confirm env centers_proto c =
     (let ca_result = LeaderPredicate centers_proto c;
          c = (case reporter_thread c of
                 None \<Rightarrow> c
               | Some rt \<Rightarrow> c\<lparr>reporter_thread :=
                   Some (snd (Start (thread_ok env (length (trace c))) rt))\<rparr>)
      in if ca_result = ACCEPT then
           (let c = UpdateCenterStatus FOLLOWING c in
            case leader_thread c of
              None \<Rightarrow> Inl NullDeref
            | Some lt \<Rightarrow>
                Inr (if IsAlive (base lt)
                     then c\<lparr>leader_thread :=
                            Some (lt\<lparr>base := snd (Stop (thread_ok env (length (trace c))) (base lt))\<rparr>)\<rparr>
                     else c))
         else Inr c)"

definition ProcessCenterData ::
  "center_env \<Rightarrow> int \<Rightarrow> CentersProto \<Rightarrow> rpc_center \<Rightarrow> fault + (bool \<times> rpc_center)" where
  "ProcessCenterData env fd centers_proto c =
     (case center_action centers_proto of
        INQUIRY \<Rightarrow>
          (case cp_to_string env (inquiry_response env INQUIRY c) of
             None \<Rightarrow> Inr (False, close_fd fd c)
           | Some response_str \<Rightarrow>
               Inr (True, close_fd fd (snd (send_on env fd CENTER2CENTER response_str False c))))
      | PROPOSAL \<Rightarrow>
          (if LeaderPredicate centers_proto c = ACCEPT then
             (case UpdateOCStatus env centers_proto c of
                Inl f \<Rightarrow> Inl f
              | Inr (_, c) \<Rightarrow> Inr (True, close_fd fd c))
           else Inr (True, close_fd fd c))
      | LEADER_CONFIRM \<Rightarrow>
          (case process_confirm env centers_proto c of
             Inl f \<Rightarrow> Inl f
           | Inr c \<Rightarrow> Inr (True, close_fd fd c))
      | FOLLOWER_PING \<Rightarrow>
          (case load_balancer c of
             None \<Rightarrow> Inl NullDeref
           | Some lb \<Rightarrow>
               (let lb = fold AddRpcServer (server_infos_list centers_proto) lb;
                    c = c\<lparr>load_balancer := Some lb\<rparr>;
                    cp_response = CentersProto_default\<lparr>center_action := LEADER_PING_RESPONSE,
                                    lb_result := GetCurrentLBResult lb\<rparr>
                in case cp_to_string env cp_response of
                     None \<Rightarrow> Inr (False, close_fd fd c)
                   | Some cp_response_str \<Rightarrow>
                       Inr (True, close_fd fd (snd (send_on env fd CENTER2CENTER cp_response_str False c)))))
      | LEADER_PING_RESPONSE \<Rightarrow>
          (case load_balancer c of
             None \<Rightarrow> Inl NullDeref
           | Some lb \<Rightarrow>
               Inr (True, close_fd fd
                 (c\<lparr>load_balancer := Some (UpdateLBResult (lb_result centers_proto) lb)\<rparr>)))
      | _ \<Rightarrow> Inr (True, close_fd fd c))"

text \<open>
  One round of \<open>ElectionThread::Run\<close> on the center: the oldest message is processed and its
  descriptor closed once more.
\<close>

definition election_round :: "center_env \<Rightarrow> rpc_center \<Rightarrow> fault + rpc_center" where
  "election_round env c =
     (case election_thread c of
        None \<Rightarrow> Inl NullDeref
      | Some et \<Rightarrow>
          (case ElectionThread_round et of
             Inl f \<Rightarrow> Inl f
           | Inr (None, et) \<Rightarrow> Inr (c\<lparr>election_thread := Some et\<rparr>)
           | Inr (Some (fd, centers_proto), et) \<Rightarrow>
               (case ProcessCenterData env fd centers_proto (c\<lparr>election_thread := Some et\<rparr>) of
                  Inl f \<Rightarrow> Inl f
                | Inr (_, c) \<Rightarrow> Inr (close_fd fd c))))"

text \<open>\<open>Run\<close>, for at most \<open>fuel\<close> rounds (\<open>None\<close>: still running).\<close>

fun ElectionThread_loop :: "center_env \<Rightarrow> nat \<Rightarrow> rpc_center \<Rightarrow> (fault + rpc_center) option" where
  "ElectionThread_loop env fuel c =
     (case election_thread c of
        None \<Rightarrow> Some (Inl NullDeref)
      | Some et \<Rightarrow>
          if \<not> running et then
            Some (case ElectionThread_Destory et of
                    Inl f \<Rightarrow> Inl f
                  | Inr et \<Rightarrow> Inr (SetFastLeaderRunning False (c\<lparr>election_thread := Some et\<rparr>)))
          else (case fuel of
                  0 \<Rightarrow> None
                | Suc fuel \<Rightarrow>
                    (case election_round env c of
                       Inl f \<Rightarrow> Some (Inl f)
                     | Inr c \<Rightarrow> ElectionThread_loop env fuel c)))"

definition ElectionThread_Run :: "center_env \<Rightarrow> nat \<Rightarrow> rpc_center \<Rightarrow> (fault + rpc_center) option" where
  "ElectionThread_Run env fuel c =
     ElectionThread_loop env fuel
       (case election_thread c of
          None \<Rightarrow> c
        | Some et \<Rightarrow> if msg_q et = None then c\<lparr>election_thread := Some (et\<lparr>msg_q := Some empty_queue\<rparr>)\<rparr>
                     else c)"

subsection \<open>From start to stop\<close>

text \<open>
  The record of one line of the file: its status is set to \<open>UNKONW\<close> and then the whole
  struct is cleared.
\<close>

definition add_center_line :: "string \<Rightarrow> string \<Rightarrow> rpc_center \<Rightarrow> rpc_center" where
  "add_center_line local_addr line c =
     (if c_str line = c_str local_addr then c
      else RegistNewCenter line
        (c\<lparr>other_centers := umap_insert line
            \<lparr>oc_start_time = 0, oc_center_status = LOOKING, vote_count = 0,
             current_follow_leader_center = []\<rparr> (other_centers c)\<rparr>))"

text \<open>
  \<open>file\<close> is the content of /tmp/centers.data (\<open>None\<close>: no access), the two functions are
  the parser instance's. The port is copied with its terminator into a block of
  \<open>strlen\<close> bytes.
\<close>

definition InitRpcCenter ::
  "center_env \<Rightarrow> string option \<Rightarrow> (string \<Rightarrow> string \<Rightarrow> string) \<Rightarrow> (string \<Rightarrow> int \<Rightarrow> int) \<Rightarrow> string \<Rightarrow>
   rpc_center \<Rightarrow> bool \<times> rpc_center" where
  "InitRpcCenter env file ini_get_string ini_get_int g_config_file c =
     (case file of
        None \<Rightarrow> (False, c)
      | Some file_text \<Rightarrow>
          (let local_port = ini_get_string ''rpc_center:port'' ''8899'';
               c = effect (Overflow 1) (c\<lparr>center_port := Some local_port\<rparr>);
               c = fold (add_center_line (local_address env)) (getlines file_text) c;
               c = c\<lparr>election_done_num := word_of_nat ((length (other_centers c) + 1) div 2 + 1)\<rparr>;
               c = c\<lparr>center_server_thread := Some Thread_new, election_thread := Some ElectionThread_new,
                     reporter_thread := Some Thread_new, leader_thread := Some LeaderThread_new\<rparr>;
               lb = ConsistentHashLoadBalancer_new g_config_file;
               lb = SetConfigFile g_config_file lb;
               lb = snd (InitBalancer ini_get_int lb)
           in (True, c\<lparr>load_balancer := Some lb\<rparr>)))"

definition StartCenter ::
  "center_env \<Rightarrow> string option \<Rightarrow> (string \<Rightarrow> string \<Rightarrow> string) \<Rightarrow> (string \<Rightarrow> int \<Rightarrow> int) \<Rightarrow> string \<Rightarrow>
   rpc_center \<Rightarrow> fault + (bool \<times> rpc_center)" where
  "StartCenter env file ini_get_string ini_get_int g_config_file c =
     (case InitRpcCenter env file ini_get_string ini_get_int g_config_file c of
        (False, c) \<Rightarrow> Inr (False, c)
      | (True, c) \<Rightarrow>
          (case center_server_thread c of
             None \<Rightarrow> Inl NullDeref
           | Some t \<Rightarrow>
               (case Start (thread_ok env (length (trace c))) t of (ok, t) \<Rightarrow>
                  if \<not> ok then Inr (False, c)
                  else (case StartFastLeaderElection env (c\<lparr>center_server_thread := Some t\<rparr>) of
                          Inl f \<Rightarrow> Inl f
                        | Inr (ok, c) \<Rightarrow> Inr (ok, c)))))"

definition on_base :: "(thread \<Rightarrow> bool \<times> thread) \<Rightarrow> msg_thread \<Rightarrow> msg_thread" where
  "on_base f t = t\<lparr>base := snd (f (base t))\<rparr>"

definition StopCenter :: "center_env \<Rightarrow> rpc_center \<Rightarrow> bool \<times> rpc_center" where
  "StopCenter env c =
     (let ok = thread_ok env (length (trace c)) in
      (True, c\<lparr>election_thread := map_option (on_base (Stop ok)) (election_thread c),
               reporter_thread := map_option (\<lambda>t. snd (Stop ok t)) (reporter_thread c),
               center_server_thread := map_option (\<lambda>t. snd (Stop ok t)) (center_server_thread c)\<rparr>))"

definition WaitCenter :: "center_env \<Rightarrow> rpc_center \<Rightarrow> rpc_center" where
  "WaitCenter env c =
     (let ok = thread_ok env (length (trace c)) in
      c\<lparr>center_server_thread := map_option (\<lambda>t. snd (Wait ok t)) (center_server_thread c),
        election_thread := map_option (on_base (Wait ok)) (election_thread c),
        reporter_thread := map_option (\<lambda>t. snd (Wait ok t)) (reporter_thread c),
        leader_thread := map_option (on_base (Wait ok)) (leader_thread c)\<rparr>)"

subsection \<open>The order on candidates\<close>

text \<open>A candidate for leader: its start time and address. The greater one is preferred.\<close>

datatype candidate = Candidate (cand_start: u64) (cand_addr: string)

instantiation candidate :: linorder
begin

definition less_candidate :: "candidate \<Rightarrow> candidate \<Rightarrow> bool" where
  "less_candidate x y \<longleftrightarrow>
     cand_start y < cand_start x \<or> cand_start x = cand_start y \<and> cand_addr x < cand_addr y"

definition less_eq_candidate :: "candidate \<Rightarrow> candidate \<Rightarrow> bool" where
  "less_eq_candidate x y \<longleftrightarrow> x < y \<or> x = (y :: candidate)"

instance
proof
  fix x y z :: candidate
  show "(x < y) = (x \<le> y \<and> \<not> y \<le> x)"
    by (auto simp: less_candidate_def less_eq_candidate_def)
  show "x \<le> x" by (simp add: less_eq_candidate_def)
  show "x \<le> y \<Longrightarrow> y \<le> z \<Longrightarrow> x \<le> z"
    by (auto simp: less_candidate_def less_eq_candidate_def)
  show "x \<le> y \<Longrightarrow> y \<le> x \<Longrightarrow> x = y"
    by (auto simp: less_candidate_def less_eq_candidate_def)
  show "x \<le> y \<or> y \<le> x"
    by (cases x; cases y) (auto simp: less_candidate_def less_eq_candidate_def)
qed

end

definition leader_candidate :: "rpc_center \<Rightarrow> candidate" where
  "leader_candidate c = Candidate (lc_start_time c) (leader_center c)"

definition proposed :: "CentersProto \<Rightarrow> candidate" where
  "proposed p = Candidate (cp_lc_start_time p) (cp_leader_center p)"

text \<open>The leader predicate is a comparison of rounds, then of candidates. A proposal of an
  older round is refused and one of a newer round accepted; within the round it is accepted
  exactly when the proposed candidate is strictly greater than the current one in the order
  that puts the earlier start time, then the greater address, on top.\<close>

lemma LeaderPredicate_candidate_order:
  "LeaderPredicate p c =
     (if cp_logical_clock p < logical_clock c then REFUSED
      else if logical_clock c < cp_logical_clock p then ACCEPT
      else if leader_candidate c < proposed p then ACCEPT else REFUSED)"
  by (auto simp: LeaderPredicate_def Let_def center_defs leader_candidate_def proposed_def
      less_candidate_def not_le)

subsection \<open>The result of an inquiry\<close>

text \<open>The responses among the effects of a round, and the candidate each one stands for.\<close>

definition response_protos :: "center_env \<Rightarrow> effect list \<Rightarrow> CentersProto list" where
  "response_protos env tr = concat (map (\<lambda>e.
     case e of
       Receive fd (Returned code m nc evs) \<Rightarrow>
         if code < 0 then [] else (case cp_of_string env m of None \<Rightarrow> [] | Some p \<Rightarrow> [p])
     | _ \<Rightarrow> []) tr)"

definition responder :: "CentersProto \<Rightarrow> candidate" where
  "responder p = Candidate (cp_start_time p) (from_center_addr p)"

definition adopt :: "u64 \<Rightarrow> CentersProto \<Rightarrow> candidate \<Rightarrow> candidate" where
  "adopt clock p x =
     (if cp_logical_clock p < clock then x
      else if clock < cp_logical_clock p then responder p
      else max x (responder p))"

lemma response_protos_simps [simp]:
  "response_protos env [] = []"
  "response_protos env (tr @ tr') = response_protos env tr @ response_protos env tr'"
  "response_protos env (Connect a fd # tr) = response_protos env tr"
  "response_protos env (Send fd ty m r # tr) = response_protos env tr"
  "response_protos env (Close fd # tr) = response_protos env tr"
  "response_protos env (Receive fd (Returned code m nc evs) # tr) =
     (if code < 0 then [] else (case cp_of_string env m of None \<Rightarrow> [] | Some p \<Rightarrow> [p])) @
     response_protos env tr"
  by (simp_all add: response_protos_def)

lemma consider_response_adopt:
  "leader_candidate (consider_response a p c) = adopt (logical_clock c) p (leader_candidate c)"
  "logical_clock (consider_response a p c) = logical_clock c"
  "trace (consider_response a p c) = trace c"
  by (auto simp: consider_response_def Let_def LeaderPredicate_candidate_order proposed_def
      responder_def adopt_def max_def leader_candidate_def UpdateLeadingCenterInfos_def
      less_eq_candidate_def less_candidate_def)

lemma effect_simps [simp]:
  "leader_candidate (effect e c) = leader_candidate c" "logical_clock (effect e c) = logical_clock c"
  "trace (effect e c) = trace c @ [e]"
  by (simp_all add: effect_def leader_candidate_def)

lemma inquire_one_adopt:
  assumes "inquire_one env s a c = Inr c'"
  shows "\<exists>tr. trace c' = trace c @ tr \<and> logical_clock c' = logical_clock c \<and>
    leader_candidate c' = fold (adopt (logical_clock c)) (response_protos env tr) (leader_candidate c)"
  using assms
  by (auto simp: inquire_one_def connect_center_def send_on_def receive_on_def Let_def close_fd_def
      consider_response_adopt split: if_splits option.splits recv_outcome.splits)

lemma inquire_all_adopt:
  assumes "inquire_all env s as c = Inr c'"
  shows "\<exists>tr. trace c' = trace c @ tr \<and> logical_clock c' = logical_clock c \<and>
    leader_candidate c' = fold (adopt (logical_clock c)) (response_protos env tr) (leader_candidate c)"
  using assms
proof (induction as arbitrary: c)
  case (Cons a as)
  then obtain c1 where c1: "inquire_one env s a c = Inr c1" "inquire_all env s as c1 = Inr c'"
    by (auto split: sum.splits)
  from inquire_one_adopt [OF c1(1)] Cons.IH [OF c1(2)] show ?case by fastforce
qed simp

text \<open>The responses of the own round among \<open>ps\<close>, those of older rounds being refused.\<close>

definition same_round :: "u64 \<Rightarrow> CentersProto list \<Rightarrow> candidate set" where
  "same_round clock ps = responder ` {p \<in> set ps. cp_logical_clock p = clock}"

lemma fold_adopt_max:
  "\<forall>p\<in>set ps. \<not> clock < cp_logical_clock p \<Longrightarrow> fold (adopt clock) ps x = Max (insert x (same_round clock ps))"
proof (induction ps arbitrary: x)
  case (Cons p ps)
  then have IH: "fold (adopt clock) (p # ps) x = Max (insert (adopt clock p x) (same_round clock ps))" by simp
  have fin: "finite (same_round clock ps)" by (simp add: same_round_def)
  show ?case
  proof (cases "cp_logical_clock p = clock")
    case True
    then have "same_round clock (p # ps) = insert (responder p) (same_round clock ps)"
      and "adopt clock p x = max x (responder p)" by (auto simp: same_round_def adopt_def)
    with IH fin show ?thesis
      by (cases "same_round clock ps = {}") (simp_all add: max.assoc)
  next
    case False
    with Cons.prems have "same_round clock (p # ps) = same_round clock ps" "adopt clock p x = x"
      by (auto simp: same_round_def adopt_def)
    with IH show ?thesis by simp
  qed
qed (simp add: same_round_def)


text \<open>
  A small cluster for the witnesses: the local center is ''a'', every connection succeeds
  as descriptor 5, every block is sent whole, every receiver gets one block.
\<close>

definition demo_env :: "CentersProto \<Rightarrow> center_env" where
  "demo_env p =
     \<lparr>local_address = ''a'', connects = (\<lambda>_ _ _. 5), sends = (\<lambda>_ _ _. 516),
      receives = (\<lambda>_ _. [Got (meta_bytes (meta_data (-100) ''m''))]), thread_ok = (\<lambda>_. True),
      visit = id, visit_servers = id, cp_to_string = (\<lambda>_. Some ''m''), cp_of_string = (\<lambda>_. Some p),
      cwc_to_string = (\<lambda>_. Some ''m''), cwc_of_string = (\<lambda>_. None), crc_to_string = (\<lambda>_. Some ''m''),
      rcs_of_string = (\<lambda>_. None)\<rparr>"

definition demo_oc :: "CenterStatus \<Rightarrow> OtherCenter" where
  "demo_oc st = \<lparr>oc_start_time = 0, oc_center_status = st, vote_count = 0,
     current_follow_leader_center = []\<rparr>"

lemma demo_receive:
  "receive_on (demo_env p) fd c =
     Inr (100, ''m'', effect (Receive fd (Returned 100 ''m'' False [])) c)"
proof -
  have "word_of_int (- 100) <s (0::u32)" and "sint (- (word_of_int (- 100) :: u32)) = 100"
    by (simp_all add: word_sless_alt)
  then have "RpcRecv [Got (meta_bytes (meta_data (-100) ''m''))] [] False = Returned 100 ''m'' False []"
    by (simp add: RpcRecv_def recv_block del: recv_loop.simps)
  then show ?thesis by (simp add: receive_on_def demo_env_def)
qed

lemma demo_send:
  "send_on (demo_env p) fd CENTER2CENTER ''m'' False c =
    (0, effect (Send fd CENTER2CENTER ''m'' (RpcSend (\<lambda>_. 516) 100 ''m'' False)) c)"
  by (simp add: send_on_def demo_env_def RpcSend_ok)

lemma demo_connect:
  "connect_center (demo_env p) a c = (5, effect (Connect a 5) c)"
  by (simp add: connect_center_def demo_env_def)

lemma demo_inquiry:
  assumes "p = CentersProto_default\<lparr>from_center_addr := ''b'', cp_start_time := t, cp_logical_clock := k\<rparr>"
    and "c = (RpcCenter_new (demo_env CentersProto_default) 7)\<lparr>other_centers := [(''b'', demo_oc UNKONW)]\<rparr>"
  obtains c' where "InquiryCenters (demo_env p) c = Inr (True, c')"
    "response_protos (demo_env p) (drop (length (trace c)) (trace c')) = [p]"
proof -
  have codec: "cp_to_string (demo_env p) m = Some ''m''" "cp_of_string (demo_env p) ''m'' = Some p"
    "visit (demo_env p) = id" for m by (simp_all add: demo_env_def)
  have "\<exists>c'. InquiryCenters (demo_env p) c = Inr (True, c') \<and>
      response_protos (demo_env p) (drop (length (trace c)) (trace c')) = [p]"
    by (simp add: InquiryCenters_def codec inquire_one_def demo_connect demo_send demo_receive
        demo_oc_def consider_response_adopt close_fd_def RpcCenter_new_def effect_def assms(2))
  with that show thesis by blast
qed


lemma RegistNewCenter_other: "other_centers (RegistNewCenter a c) = other_centers c"
  by (simp add: RegistNewCenter_def)

text \<open>After \<open>InitRpcCenter\<close> an inquiry round asks nobody. The status \<open>UNKONW\<close> that marks
  a center to be asked is cleared by the \<open>memset\<close> that follows it, so the first
  \<open>InquiryCenters\<close> opens no connection and changes nothing, whatever the file of centers says.\<close>

theorem InquiryCenters_after_init_asks_nobody:
  assumes "InitRpcCenter env file ini_str ini_int cfg (RpcCenter_new env now) = (True, c)"
    and "cp_to_string env (inquiry_message env c) \<noteq> None"
  shows "InquiryCenters env c = Inr (True, c)"
proof -
  define known where "known m \<longleftrightarrow> (\<forall>oc\<in>snd ` set m. oc_center_status oc = LOOKING)"
    for m :: "(string \<times> OtherCenter) list"
  have add: "known (other_centers c) \<Longrightarrow> known (other_centers (add_center_line l line c))" for l line c
    by (auto simp: add_center_line_def RegistNewCenter_def umap_insert_def known_def split: option.splits)
  have all: "known (other_centers c) \<Longrightarrow> known (other_centers (fold (add_center_line l) ls c))" for l ls c
    by (induction ls arbitrary: c) (auto simp: add)
  have "known (other_centers c)"
    using assms(1) all [of "effect (Overflow 1) ((RpcCenter_new env now)\<lparr>center_port := p\<rparr>)" for p]
    by (auto simp: InitRpcCenter_def Let_def effect_def RpcCenter_new_def known_def [of "[]"]
        split: option.splits)
  then have "inquire_one env s a c = Inr c" for s a
    by (auto simp: inquire_one_def known_def dest!: map_of_SomeD)
  then have "inquire_all env s as c = Inr c" for s as
    by (induction as) simp_all
  with assms(2) show ?thesis by (auto simp: InquiryCenters_def)
qed

theorem InquiryCenters_after_init_asks_nobody_witness:
  "\<exists>c. InitRpcCenter (demo_env CentersProto_default) (Some ''b'') (\<lambda>_ d. d) (\<lambda>_ d. d) ''f''
       (RpcCenter_new (demo_env CentersProto_default) 7) = (True, c) \<and>
     map fst (other_centers c) = [''b''] \<and>
     InquiryCenters (demo_env CentersProto_default) c = Inr (True, c)"
proof -
  let ?env = "demo_env CentersProto_default"
  let ?init = "InitRpcCenter ?env (Some ''b'') (\<lambda>_ d. d) (\<lambda>_ d. d) ''f'' (RpcCenter_new ?env 7)"
  have env: "local_address ?env = ''a''" by (simp add: demo_env_def)
  have lines: "getlines ''b'' = [''b'']" by (subst getlines.simps) simp
  obtain ok c where init: "?init = (ok, c)" by (rule prod.exhaust)
  have "fst ?init" by (simp add: InitRpcCenter_def Let_def)
  moreover have "map fst (other_centers (snd ?init)) = [''b'']"
    by (simp add: InitRpcCenter_def Let_def lines env add_center_line_def RegistNewCenter_other
        umap_insert_def effect_def RpcCenter_new_def c_str_def del: getlines.simps)
  ultimately have c: "?init = (True, c)" "map fst (other_centers c) = [''b'']"
    unfolding init by simp_all
  have "cp_to_string ?env (inquiry_message ?env c) \<noteq> None" by (simp add: demo_env_def)
  from InquiryCenters_after_init_asks_nobody [OF c(1) this] c
  show ?thesis by (intro exI [of _ c] conjI)
qed

end
