(* ===== verification/CenterRequests.thy ===== *)
theory CenterRequests
  imports CenterElection
begin

section \<open>Requests to the center (rpc\_center/rpc\_center.cpp)\<close>

text \<open>
  What the center does with a message of another center, of a client and of an RPC server,
  the dispatch on the transfer id, and the report to the leader. The lemmas give the exact
  result of the two walks on the ring of centers and what each kind of request can change.
\<close>

subsection \<open>Requests of centers\<close>

definition refused_message :: "center_env \<Rightarrow> CentersProto" where
  "refused_message env =
     CentersProto_default\<lparr>from_center_addr := local_address env, center_action := REFUSED\<rparr>"

text \<open>
  Election messages go to the election thread. For any other action the inner
  \<open>response_proto\<close>, a fresh message, hides the parsed one.
\<close>

definition ProcessCenterRequest ::
  "center_env \<Rightarrow> string \<Rightarrow> int \<Rightarrow> rpc_center \<Rightarrow> fault + (bool \<times> rpc_center)" where
  "ProcessCenterRequest env recv_message fd c =
     (case cp_of_string env recv_message of
        None \<Rightarrow> Inr (False, c)
      | Some response_proto \<Rightarrow>
          if center_action response_proto \<in> {INQUIRY, PROPOSAL, ACCEPT, REFUSED, LEADER_CONFIRM} then
            (case election_thread c of
               None \<Rightarrow> Inr (False, c)
             | Some et \<Rightarrow>
                 (case PushElectionMessage fd response_proto et of
                    Inl f \<Rightarrow> Inl f
                  | Inr et \<Rightarrow> Inr (True, c\<lparr>election_thread := Some et\<rparr>)))
          else
            (let response_proto = CentersProto_default in
             if GetCenterStatus c \<noteq> LEADING then
               (case cp_to_string env (refused_message env) of
                  None \<Rightarrow> Inr (False, c)
                | Some response_str \<Rightarrow>
                    (case send_on env fd CENTER2CENTER response_str False c of (r, c) \<Rightarrow>
                       Inr (\<not> r < 0, c)))
             else (case leader_thread c of
                     None \<Rightarrow> Inl NullDeref
                   | Some lt \<Rightarrow>
                       (case PushFollowerMessage fd response_proto lt of
                          Inl f \<Rightarrow> Inl f
                        | Inr lt \<Rightarrow> Inr (True, c\<lparr>leader_thread := Some lt\<rparr>)))))"

subsection \<open>Requests of clients\<close>

text \<open>
  The walk of the \<open>CLIENT_INIT_REQ\<close> branch from position \<open>iter\<close>, for \<open>k\<close> more rounds: advance,
  then read, even at the end.
\<close>

fun client_centers :: "string ordmap \<Rightarrow> nat \<Rightarrow> nat \<Rightarrow> fault + string list" where
  "client_centers m 0 iter = Inr []"
| "client_centers m (Suc k) iter =
     (if iter = length m then Inr []
      else let iter = (if iter \<noteq> length m then Suc iter else 0) in
        (case om_deref m iter of
           None \<Rightarrow> Inl EndDeref
         | Some center_addr_str \<Rightarrow>
             (case client_centers m k iter of
                Inl f \<Rightarrow> Inl f
              | Inr rest \<Rightarrow>
                  Inr (if length center_addr_str < 2 then rest else center_addr_str # rest))))"

definition servers_for :: "string \<Rightarrow> ConsistentHashLoadBalancer \<Rightarrow> string list" where
  "servers_for client_addr lb =
     (case GetRpcServer client_addr lb of None \<Rightarrow> [] | Some server_list \<Rightarrow> server_list)"

definition client_response :: "ClientWithCenter \<Rightarrow> rpc_center \<Rightarrow> fault + ClientWithCenter" where
  "client_response cwc_proto c =
     (let client_addr = from_addr cwc_proto in
      case client_center_action cwc_proto of
        CLIENT_INIT_REQ \<Rightarrow>
          (let hash_id = MurMurHash2 client_addr in
           case client_centers (center_hash_map c) 3 (om_lower_bound hash_id (center_hash_map c)) of
             Inl f \<Rightarrow> Inl f
           | Inr centers \<Rightarrow>
               (case load_balancer c of
                  None \<Rightarrow> Inl NullDeref
                | Some lb \<Rightarrow>
                    Inr (ClientWithCenter_default\<lparr>should_communicate_center := centers,
                           cluster_server_list := servers_for client_addr lb\<rparr>)))
      | UPDATE_SERVER_INFO \<Rightarrow>
          (case load_balancer c of
             None \<Rightarrow> Inl NullDeref
           | Some lb \<Rightarrow>
               Inr (ClientWithCenter_default\<lparr>cluster_server_list := servers_for client_addr lb\<rparr>))
      | _ \<Rightarrow> Inr ClientWithCenter_default)"

definition ProcessClientRequest ::
  "center_env \<Rightarrow> string \<Rightarrow> int \<Rightarrow> rpc_center \<Rightarrow> fault + (bool \<times> rpc_center)" where
  "ProcessClientRequest env recv_message fd c =
     (case cwc_of_string env recv_message of
        None \<Rightarrow> Inr (False, c)
      | Some cwc_proto \<Rightarrow>
          (case client_response cwc_proto c of
             Inl f \<Rightarrow> Inl f
           | Inr cwc_response_proto \<Rightarrow>
               (case cwc_to_string env (cwc_response_proto\<lparr>client_center_action := CENTER_RESP_OK\<rparr>) of
                  None \<Rightarrow> Inr (False, close_fd fd c)
                | Some response_client_str \<Rightarrow>
                    (case send_on env fd CENTER2CLIENT response_client_str True c of (r, c) \<Rightarrow>
                       Inr (\<not> r < 0, c)))))"

subsection \<open>Requests of RPC servers\<close>

text \<open>The walk of the \<open>REGISTER\<close> branch: at the end it goes back to the beginning.\<close>

fun reporter_centers :: "string ordmap \<Rightarrow> nat \<Rightarrow> nat \<Rightarrow> fault + string list" where
  "reporter_centers m 0 iter = Inr []"
| "reporter_centers m (Suc k) iter =
     (let iter = (if iter \<noteq> length m then Suc iter else 0) in
      (case om_deref m iter of
         None \<Rightarrow> Inl EndDeref
       | Some center \<Rightarrow>
           (case reporter_centers m k iter of
              Inl f \<Rightarrow> Inl f
            | Inr rest \<Rightarrow> Inr (center # rest))))"

definition register_server :: "RpcClusterServer \<Rightarrow> rpc_center \<Rightarrow> fault + rpc_center" where
  "register_server rpc_cluster_server c =
     (if GetCenterStatus c = LEADING then
        (case load_balancer c of
           None \<Rightarrow> Inl NullDeref
         | Some lb \<Rightarrow> Inr (c\<lparr>load_balancer := Some (AddRpcServer rpc_cluster_server lb)\<rparr>))
      else Inr (AddRpcServerToBuf rpc_cluster_server c))"

text \<open>The result of the first \<open>SerializeToString\<close> is not tested: on failure the string is empty.\<close>

definition ProcessClusterRequest ::
  "center_env \<Rightarrow> string \<Rightarrow> int \<Rightarrow> rpc_center \<Rightarrow> fault + (bool \<times> rpc_center)" where
  "ProcessClusterRequest env recv_message fd c =
     (if \<not> CenterIsReady c then
        (let response_str = (case crc_to_string env
               (CenterResponseCluster_default\<lparr>center_response_action := CENTER_NOT_READY\<rparr>) of
                 None \<Rightarrow> [] | Some s \<Rightarrow> s)
         in Inr (False, snd (send_on env fd CENTER2CLUSTER response_str False c)))
      else (case rcs_of_string env recv_message of
        None \<Rightarrow> Inr (False, c)
      | Some rpc_cluster_server \<Rightarrow>
          (case cluster_action rpc_cluster_server of
             REGISTER \<Rightarrow>
               (case register_server rpc_cluster_server c of
                  Inl f \<Rightarrow> Inl f
                | Inr c \<Rightarrow>
                    (let hash_id = MurMurHash2 (cluster_server_addr rpc_cluster_server) in
                     case reporter_centers (center_hash_map c) 3
                            (om_lower_bound hash_id (center_hash_map c)) of
                       Inl f \<Rightarrow> Inl f
                     | Inr centers \<Rightarrow>
                         (case crc_to_string env (CenterResponseCluster_default\<lparr>
                                  center_response_action := CLUSTER_RESP,
                                  should_reporter_center := centers\<rparr>) of
                            None \<Rightarrow> Inr (False, c)
                          | Some send_str \<Rightarrow>
                              (case send_on env fd CENTER2CLUSTER send_str False c of (r, c) \<Rightarrow>
                                 Inr (\<not> r < 0, c)))))
           | CLUSTER_PING \<Rightarrow> Inr (True, c))))"

subsection \<open>Dispatch\<close>

text \<open>
  \<open>CenterProcessor\<close> has the three bodies above inline, statement for statement. Its dispatch
  is on the transfer id.
\<close>

definition CenterProcessor :: "center_env \<Rightarrow> int \<Rightarrow> rpc_center \<Rightarrow> fault + (bool \<times> rpc_center)" where
  "CenterProcessor env conn_fd c =
     (case receive_on env conn_fd c of
        Inl f \<Rightarrow> Inl f
      | Inr (center_type, recv_message, c) \<Rightarrow>
          if center_type < 0 then Inr (False, close_fd conn_fd c)
          else if center_type = center_type_code CENTER2CENTER then ProcessCenterRequest env recv_message conn_fd c
          else if center_type = center_type_code CENTER2CLIENT then ProcessClientRequest env recv_message conn_fd c
          else if center_type = center_type_code CENTER2CLUSTER then ProcessClusterRequest env recv_message conn_fd c
          else Inr (False, c))"

definition ReporterProcessor :: "center_env \<Rightarrow> int \<Rightarrow> rpc_center \<Rightarrow> fault + (bool \<times> rpc_center)" where
  "ReporterProcessor env conn_fd c =
     (let centers_proto = CentersProto_default\<lparr>from_center_addr := local_address env,
            center_action := FOLLOWER_PING,
            server_infos_list := (if rpc_server_buf c \<noteq> [] then visit_servers env (rpc_server_buf c) else [])\<rparr>
      in case cp_to_string env centers_proto of
           None \<Rightarrow> Inr (False, c)
         | Some ping_str \<Rightarrow>
             (case send_on env conn_fd CENTER2CENTER ping_str False c of (r, c) \<Rightarrow>
                if r < 0 then Inr (False, c) else CenterProcessor env conn_fd c))"

subsection \<open>The walks on the ring\<close>

lemma client_centers_end [simp]: "client_centers m k (length m) = Inr []"
  by (cases k) simp_all

lemma client_centers_result:
  "iter < length m \<Longrightarrow> client_centers m k iter =
     (if iter + k < length m
      then Inr (filter (\<lambda>a. 2 \<le> length a) (map snd (take k (drop (Suc iter) m))))
      else Inl EndDeref)"
proof (induction k arbitrary: iter)
  case (Suc k)
  show ?case
  proof (cases "Suc iter < length m")
    case True
    have "take (Suc k) (drop (Suc iter) m) = m ! Suc iter # take k (drop (Suc (Suc iter)) m)"
      using True by (metis Cons_nth_drop_Suc take_Suc_Cons)
    with Suc.prems True Suc.IH [OF True] show ?thesis by (simp add: om_deref_def Let_def not_le)
  next
    case False
    with Suc.prems show ?thesis by (simp add: om_deref_def Let_def)
  qed
qed simp

text \<open>A new client is told of centers only where three follow on the ring. For a client whose
  position is the end of the ring the answer names no center; otherwise the walk names the three
  entries after the position (not the owner itself, and without addresses of fewer than two
  characters), and it reads the end iterator when fewer than three follow.\<close>

theorem client_centers_after_owner:
  "client_centers m 3 (om_lower_bound h m) =
     (let i = om_lower_bound h m in
      if i = length m then Inr []
      else if i + 3 < length m then Inr (filter (\<lambda>a. 2 \<le> length a) (map snd (take 3 (drop (i + 1) m))))
      else Inl EndDeref)"
  using om_lower_bound_le [of h m] client_centers_result [of "om_lower_bound h m" m 3]
  by (auto simp: Let_def)

lemma reporter_centers_result:
  "iter < length m \<Longrightarrow> reporter_centers m k iter =
     (if iter + k < length m then Inr (map snd (take k (drop (Suc iter) m))) else
      if k = 0 then Inr [] else Inl EndDeref)"
proof (induction k arbitrary: iter)
  case (Suc k)
  show ?case
  proof (cases "Suc iter < length m")
    case True
    have "take (Suc k) (drop (Suc iter) m) = m ! Suc iter # take k (drop (Suc (Suc iter)) m)"
      using True by (metis Cons_nth_drop_Suc take_Suc_Cons)
    with Suc.prems True Suc.IH [OF True] show ?thesis by (simp add: om_deref_def Let_def)
  next
    case False
    with Suc.prems show ?thesis by (simp add: om_deref_def Let_def)
  qed
qed simp

lemma reporter_centers_wrap:
  "reporter_centers m (Suc k) (length m) =
     (if k < length m then Inr (map snd (take (Suc k) m)) else Inl EndDeref)"
proof (cases m)
  case (Cons e m')
  then show ?thesis
    using reporter_centers_result [of 0 m k] by (auto simp: om_deref_def Let_def)
qed (simp add: om_deref_def)

text \<open>A registering server is told of exactly three centers, or the center reads past the end
  of its ring. From a position before the end it names the three entries that follow, and from the
  end the first three, and it reads the end iterator exactly when there are not that many.\<close>

theorem reporter_centers_three:
  "reporter_centers m 3 (om_lower_bound h m) =
     (let i = om_lower_bound h m in
      if i = length m then (if 3 \<le> length m then Inr (map snd (take 3 m)) else Inl EndDeref)
      else if i + 3 < length m then Inr (map snd (take 3 (drop (i + 1) m)))
      else Inl EndDeref)"
  using om_lower_bound_le [of h m] reporter_centers_result [of "om_lower_bound h m" m 3]
    reporter_centers_wrap [of m 2]
  by (auto simp: Let_def numeral_3_eq_3)

end
