(* ===== verification/CenterSafety.thy ===== *)
theory CenterSafety
  imports CenterRequests
begin

section \<open>What the election can reach\<close>

text \<open>
  Centers that exchange messages: a step relation on the states of all of them, with the
  handlers of the other theories as its steps. The invariant \<open>quiet\<close> is carried through every
  handler. The properties are about every reachable state, and about sequences of votes.
\<close>

subsection \<open>The invariant of one center\<close>

text \<open>A message from another address that does not confirm a leader, and a queue of such messages.\<close>

definition good_msg :: "string \<Rightarrow> CentersProto \<Rightarrow> bool" where
  "good_msg a p \<longleftrightarrow> c_str (from_center_addr p) \<noteq> c_str a \<and> center_action p \<noteq> LEADER_CONFIRM"

definition all_items :: "(center_msg \<Rightarrow> bool) \<Rightarrow> msg_thread \<Rightarrow> bool" where
  "all_items P t \<longleftrightarrow> (\<forall>i m. value_at (items t) i = Some m \<longrightarrow> P m)"

definition names :: "('k \<times> 'v) list \<Rightarrow> 'k set" where
  "names m = fst ` set m"

definition quiet :: "string \<Rightarrow> rpc_center \<Rightarrow> bool" where
  "quiet a c \<longleftrightarrow>
     (\<forall>k\<in>names (other_centers c). c_str k \<noteq> c_str a) \<and>
     center_status c \<notin> {LEADING, FOLLOWING} \<and>
     (\<forall>t. election_thread c = Some t \<longrightarrow> all_items (\<lambda>m. good_msg a (snd m)) t)"

text \<open>Every message a center has sent to others: its own or without address, and no confirmation.\<close>

definition sent_ok :: "center_env \<Rightarrow> string \<Rightarrow> bool" where
  "sent_ok env s \<longleftrightarrow>
     (\<exists>p. cp_to_string env p = Some s \<and> from_center_addr p \<in> {local_address env, []} \<and>
          center_action p \<noteq> LEADER_CONFIRM)"

definition sends_ok :: "center_env \<Rightarrow> effect list \<Rightarrow> bool" where
  "sends_ok env tr \<longleftrightarrow>
     (\<forall>fd s r. Send fd CENTER2CENTER s r \<in> set tr \<longrightarrow> sent_ok env s)"

definition calm :: "center_env \<Rightarrow> rpc_center \<Rightarrow> bool" where
  "calm env c \<longleftrightarrow> quiet (local_address env) c \<and> sends_ok env (trace c)"

lemma quiet_effect [simp]: "quiet a (effect e c) = quiet a c"
  by (simp add: quiet_def effect_def)

lemma sends_ok_append [simp]:
  "sends_ok env (tr @ [e]) \<longleftrightarrow>
     sends_ok env tr \<and> (case e of Send fd CENTER2CENTER s r \<Rightarrow> sent_ok env s | _ \<Rightarrow> True)"
  by (cases e) (auto simp: sends_ok_def split: CenterType.splits)

lemma calm_effect [simp]:
  "calm env (effect e c) \<longleftrightarrow>
     calm env c \<and> (case e of Send fd CENTER2CENTER s r \<Rightarrow> sent_ok env s | _ \<Rightarrow> True)"
  by (auto simp: calm_def)

lemma calm_close [simp]: "calm env (close_fd fd c) = calm env c"
  by (simp add: close_fd_def)

lemma calm_connect: "calm env c \<Longrightarrow> calm env (snd (connect_center env addr c))"
  by (simp add: connect_center_def Let_def)

lemma calm_send:
  assumes "calm env c" and "ty = CENTER2CENTER \<Longrightarrow> sent_ok env s"
  shows "calm env (snd (send_on env fd ty s nc c))"
  using assms by (cases ty) (simp_all add: send_on_def Let_def)

lemma sent_okI:
  "cp_to_string env p = Some s \<Longrightarrow> from_center_addr p \<in> {local_address env, []} \<Longrightarrow>
   center_action p \<noteq> LEADER_CONFIRM \<Longrightarrow> sent_ok env s"
  by (auto simp: sent_ok_def)

lemma calm_receive: "calm env c \<Longrightarrow> receive_on env fd c = Inr (code, m, c') \<Longrightarrow> calm env c'"
  by (auto simp: receive_on_def Let_def split: recv_outcome.splits)

text \<open>Fields outside the invariant.\<close>

lemma calm_updates [simp]:
  "calm env (c\<lparr>lc_start_time := x1\<rparr>) = calm env c" "calm env (c\<lparr>leader_center := x2\<rparr>) = calm env c"
  "calm env (c\<lparr>logical_clock := x3\<rparr>) = calm env c" "calm env (c\<lparr>fastleader_running := x4\<rparr>) = calm env c"
  "calm env (c\<lparr>leader_thread := x5\<rparr>) = calm env c" "calm env (c\<lparr>load_balancer := x6\<rparr>) = calm env c"
  "calm env (c\<lparr>rpc_server_buf := x7\<rparr>) = calm env c" "calm env (c\<lparr>reporter_thread := x8\<rparr>) = calm env c"
  by (simp_all add: calm_def quiet_def)

lemma broadcast_to_calm:
  assumes "sent_ok env s"
  shows "calm env c \<Longrightarrow> calm env (broadcast_to env s as c)"
proof (induction as arbitrary: c)
  case (Cons a as)
  obtain fd c1 where c1: "connect_center env a c = (fd, c1)" "calm env c1"
    using calm_connect [OF Cons.prems, of a] by (cases "connect_center env a c") auto
  obtain r c2 where c2: "send_on env fd CENTER2CENTER s False c1 = (r, c2)" "calm env c2"
    using calm_send [OF c1(2), of CENTER2CENTER s fd False] assms
    by (cases "send_on env fd CENTER2CENTER s False c1") auto
  show ?case by (simp add: c1 c2 Cons.IH)
qed simp

subsection \<open>Votes\<close>

lemma fst_umap_insert: "names (umap_insert k v m) = insert k (names m)"
  unfolding names_def by (auto simp: umap_insert_def dest: map_of_SomeD split: option.splits)
    (force dest: map_of_SomeD)

lemma fst_map_entry: "names (AList.map_entry k f m) = names m"
  unfolding names_def by (metis dom_map_entry dom_map_of_conv_image_fst)

lemma map_of_names: "map_of m k = None \<longleftrightarrow> k \<notin> names m"
  by (simp add: names_def map_of_eq_None_iff)

lemma fst_update: "names (AList.update k v m) = insert k (names m)"
  unfolding names_def by (simp add: dom_update [symmetric] flip: dom_map_of_conv_image_fst) (auto simp: update_conv')

lemma UpdateOCStatus_calm:
  assumes "calm env c" "good_msg (local_address env) p" "UpdateOCStatus env p c = Inr (ok, c')"
  shows "calm env c'"
proof (cases "cp_logical_clock p < GetLogicalClock c")
  case True
  with assms show ?thesis by (simp add: UpdateOCStatus_def)
next
  case False
  with assms(3) obtain c1 where c1: "record_sender p c = Inr c1"
    by (auto simp: UpdateOCStatus_def split: sum.splits)
  have keys1: "names (other_centers c1) = insert (from_center_addr p) (names (other_centers c))"
    and same1: "center_status c1 = center_status c" "election_thread c1 = election_thread c"
      "trace c1 = trace c"
    using c1 by (auto simp: record_sender_def Let_def fst_umap_insert fst_update
        split: sum.splits option.splits)
  obtain v c2 where c2: "count_vote p c1 = (v, c2)" by fastforce
  have "names (other_centers c2) = names (other_centers c1) \<and> center_status c2 = center_status c1 \<and>
      election_thread c2 = election_thread c1 \<and> trace c2 = trace c1 \<and>
      (cp_leader_center p \<notin> names (other_centers c1) \<longrightarrow> v = 0)"
  proof (cases "map_of (other_centers c1) (cp_leader_center p)")
    case None
    from keys1 have "from_center_addr p \<in> names (other_centers c1)" by blast
    then have absorb: "umap_insert (from_center_addr p) oc (other_centers c1) = other_centers c1" for oc
      using map_of_names [of "other_centers c1" "from_center_addr p"]
      by (auto simp: umap_insert_def split: option.splits)
    have "count_vote p c1 = (0, c1)"
      unfolding count_vote_def Let_def None option.case absorb by simp
    then have "c2 = c1" "v = 0" using c2 by simp_all
    then show ?thesis by simp
  next
    case (Some oc)
    then have "cp_leader_center p \<in> names (other_centers c1)"
      by (metis map_of_names option.distinct(1))
    then have absorb: "insert (cp_leader_center p) (names (other_centers c1)) = names (other_centers c1)"
      and mem: "(cp_leader_center p \<notin> names (other_centers c1)) = False"
      by (simp_all add: insert_absorb)
    have "count_vote p c1 = (vote_count oc + 1, c1\<lparr>other_centers :=
        AList.update (cp_leader_center p) (oc\<lparr>vote_count := vote_count oc + 1\<rparr>) (other_centers c1)\<rparr>)"
      unfolding count_vote_def Let_def Some option.case ..
    from trans [OF c2 [symmetric] this] have "c2 = c1\<lparr>other_centers :=
        AList.update (cp_leader_center p) (oc\<lparr>vote_count := vote_count oc + 1\<rparr>) (other_centers c1)\<rparr>"
      by (rule Pair_inject)
    then show ?thesis by (simp add: fst_update absorb mem)
  qed
  then have keys2: "names (other_centers c2) = names (other_centers c1)"
    and same2: "center_status c2 = center_status c1" "election_thread c2 = election_thread c1"
      "trace c2 = trace c1"
    and vote: "cp_leader_center p \<notin> names (other_centers c1) \<Longrightarrow> v = 0"
    by simp_all
  have calm2: "calm env c2"
    using assms(1,2) keys1 same1 keys2 same2 by (auto simp: calm_def quiet_def good_msg_def)
  show ?thesis
  proof (cases "election_done_num c2 \<noteq> 0 \<and> v \<ge> election_done_num c2")
    case True
    then have "v \<noteq> 0" by auto
    with vote have "cp_leader_center p \<in> names (other_centers c2)" using keys2 by blast
    with calm2 have "c_str (cp_leader_center p) \<noteq> c_str (local_address env)"
      by (auto simp: calm_def quiet_def)
    with assms(3) False c1 c2 True calm2 show ?thesis
      by (auto simp: UpdateOCStatus_def Let_def UpdateLeadingCenterInfos_def GetLeadingCenter_def
          UpdateCenterStatus_def calm_def quiet_def split: if_splits)
  next
    case no: False
    with assms(3) False c1 c2 calm2 show ?thesis by (auto simp: UpdateOCStatus_def)
  qed
qed

subsection \<open>The handlers\<close>

lemma consider_response_calm: "calm env c \<Longrightarrow> calm env (consider_response a p c)"
  by (auto simp: consider_response_def Let_def UpdateLeadingCenterInfos_def calm_def quiet_def fst_map_entry)

lemma inquire_one_calm:
  assumes "calm env c" "inquire_one env s a c = Inr c'" "sent_ok env s"
  shows "calm env c'"
proof -
  obtain fd c1 where c1: "connect_center env a c = (fd, c1)" "calm env c1"
    using calm_connect [OF assms(1), of a] by (cases "connect_center env a c") auto
  obtain r c2 where c2: "send_on env fd CENTER2CENTER s False c1 = (r, c2)" "calm env c2"
    using calm_send [OF c1(2), of CENTER2CENTER s fd False] assms
    by (cases "send_on env fd CENTER2CENTER s False c1") auto
  show ?thesis
    using assms(1,2) c1(2) c2(2)
    by (auto simp: inquire_one_def c1(1) c2(1) intro!: consider_response_calm
        dest!: calm_receive [OF c2(2)] split: if_splits sum.splits option.splits)
qed

lemma inquire_all_calm:
  "inquire_all env s as c = Inr c' \<Longrightarrow> sent_ok env s \<Longrightarrow> calm env c \<Longrightarrow> calm env c'"
proof (induction as arbitrary: c)
  case (Cons a as)
  then obtain c1 where "inquire_one env s a c = Inr c1" "inquire_all env s as c1 = Inr c'"
    by (auto split: sum.splits)
  with Cons inquire_one_calm [of env c s a c1] show ?case by blast
qed simp

lemma InquiryCenters_calm:
  assumes "calm env c" "InquiryCenters env c = Inr (ok, c')"
  shows "calm env c'"
proof (cases "cp_to_string env (inquiry_message env c)")
  case None
  with assms show ?thesis by (simp add: InquiryCenters_def)
next
  case (Some s)
  then have "sent_ok env s" by (rule sent_okI) (simp_all add: inquiry_message_def)
  moreover from assms(2) Some have "inquire_all env s (visit env (map fst (other_centers c))) c = Inr c'"
    by (auto simp: InquiryCenters_def map_sum_def split: sum.splits)
  ultimately show ?thesis using inquire_all_calm assms(1) by blast
qed

lemma ProposalLeaderElection_calm:
  assumes "calm env c" shows "calm env (snd (ProposalLeaderElection env c))"
proof (cases "cp_to_string env (proposal_message env (IncreaseLogicalClock c))")
  case None
  with assms show ?thesis by (simp add: ProposalLeaderElection_def IncreaseLogicalClock_def)
next
  case (Some s)
  then have "sent_ok env s" by (rule sent_okI) (simp_all add: proposal_message_def)
  with Some assms show ?thesis
    by (simp add: ProposalLeaderElection_def BroadcastInfo_def broadcast_to_calm IncreaseLogicalClock_def)
qed

lemma FastLeaderElection_calm:
  "calm env c \<Longrightarrow> FastLeaderElection env c = Inr (ok, c') \<Longrightarrow> calm env c'"
  by (auto simp: FastLeaderElection_def dest: InquiryCenters_calm ProposalLeaderElection_calm split: sum.splits)

lemma calm_thread:
  "calm env c \<Longrightarrow> (\<And>t. et = Some t \<Longrightarrow> all_items (\<lambda>m. good_msg (local_address env) (snd m)) t) \<Longrightarrow>
   calm env (c\<lparr>election_thread := et\<rparr>)"
  by (simp add: calm_def quiet_def)

lemma calm_items: "calm env c \<Longrightarrow> election_thread c = Some t \<Longrightarrow> all_items (\<lambda>m. good_msg (local_address env) (snd m)) t"
  by (simp add: calm_def quiet_def)

lemma StartFastLeaderElection_calm:
  assumes "calm env c" "StartFastLeaderElection env c = Inr (ok, c')"
  shows "calm env c'"
proof (cases "IsFastLeaderRunning c")
  case True
  with assms show ?thesis by (auto simp: StartFastLeaderElection_def dest: FastLeaderElection_calm)
next
  case False
  with assms(2) obtain et where et: "election_thread c = Some et"
    by (auto simp: StartFastLeaderElection_def split: option.splits)
  from calm_items [OF assms(1) et]
  have "calm env (SetFastLeaderRunning True (c\<lparr>election_thread := Some (et\<lparr>base := b\<rparr>)\<rparr>))" for b
    unfolding SetFastLeaderRunning_def calm_updates
    by (intro calm_thread [OF assms(1)]) (auto simp: all_items_def)
  with assms et False show ?thesis
    by (auto simp: StartFastLeaderElection_def dest: FastLeaderElection_calm split: prod.splits if_splits)
qed

lemma ProcessCenterData_calm:
  assumes "calm env c" "good_msg (local_address env) p" "ProcessCenterData env fd p c = Inr (ok, c')"
  shows "calm env c'"
proof (cases "center_action p")
  case INQUIRY
  with assms show ?thesis
    by (auto simp: ProcessCenterData_def inquiry_response_def intro!: calm_send sent_okI split: option.splits)
next
  case FOLLOWER_PING
  with assms show ?thesis
    by (auto simp: ProcessCenterData_def Let_def CentersProto_default_def intro!: calm_send sent_okI
        split: option.splits)
qed (use assms in \<open>auto simp: ProcessCenterData_def good_msg_def dest: UpdateOCStatus_calm [OF assms(1,2)]
    split: if_splits sum.splits option.splits\<close>)

lemma all_items_round:
  assumes "all_items P t" "ElectionThread_round t = Inr (r, t')"
  shows "all_items P t' \<and> (\<forall>m. r = Some m \<longrightarrow> P m)"
  using assms
  by (auto simp: ElectionThread_round_def PopElectionMessage_def all_items_def value_at_def
      delete_item_def split: option.splits prod.splits sum.splits if_splits)

lemma election_round_calm:
  assumes "calm env c" "election_round env c = Inr c'"
  shows "calm env c'"
proof -
  from assms(2) obtain et r et' where et: "election_thread c = Some et" "ElectionThread_round et = Inr (r, et')"
    by (auto simp: election_round_def split: option.splits sum.splits)
  note inv = all_items_round [OF calm_items [OF assms(1) et(1)] et(2)]
  have calm': "calm env (c\<lparr>election_thread := Some et'\<rparr>)"
    by (rule calm_thread [OF assms(1)]) (use inv in auto)
  show ?thesis
  proof (cases r)
    case None
    with assms(2) et calm' show ?thesis by (simp add: election_round_def)
  next
    case (Some m)
    with inv have "good_msg (local_address env) (snd m)" by simp
    with assms(2) et Some show ?thesis
      by (auto simp: election_round_def dest: ProcessCenterData_calm [OF calm'] split: prod.splits sum.splits)
  qed
qed

lemma all_items_push:
  assumes "all_items P t" "PushElectionMessage fd m t = Inr t'" "P (fd, m)"
  shows "all_items P t'"
proof -
  obtain a st where new: "new_item (fd, m) (items t) = (a, st)" by fastforce
  from assms(2) obtain q st' q' where q: "msg_q t = Some q" "link_tail a (st, q) = (st', q')"
    "t' = t\<lparr>items := st', msg_q := Some q'\<rparr>"
    by (auto simp: PushElectionMessage_def new split: option.splits prod.splits)
  have "value_at st' = value_at st" using link_tail_store(1) [of a st q] q(2) by simp
  with assms(1,3) q(3) new_item_store(4) [OF new] show ?thesis by (auto simp: all_items_def)
qed

lemma ProcessCenterRequest_calm:
  assumes "calm env c" "ProcessCenterRequest env s fd c = Inr (ok, c')"
    "\<And>p. cp_of_string env s = Some p \<Longrightarrow> good_msg (local_address env) p"
  shows "calm env c'"
proof (cases "cp_of_string env s")
  case None
  with assms(1,2) show ?thesis by (simp add: ProcessCenterRequest_def)
next
  case (Some p)
  show ?thesis
  proof (cases "center_action p \<in> {INQUIRY, PROPOSAL, ACCEPT, REFUSED, LEADER_CONFIRM}")
    case True
    with assms Some show ?thesis
      by (auto simp: ProcessCenterRequest_def intro!: calm_thread dest: calm_items
          elim!: all_items_push [rotated] split: option.splits sum.splits)
  next
    case False
    have st: "center_status c \<noteq> LEADING" using assms(1) by (auto simp: calm_def quiet_def)
    show ?thesis
    proof (cases "cp_to_string env (refused_message env)")
      case None
      with assms(1,2) Some False st show ?thesis by (simp add: ProcessCenterRequest_def GetCenterStatus_def)
    next
      case (Some m)
      then have "sent_ok env m" by (rule sent_okI) (simp_all add: refused_message_def)
      moreover have "c' = snd (send_on env fd CENTER2CENTER m False c)"
        using assms(2) \<open>cp_of_string env s = Some p\<close> Some False st
        by (auto simp: ProcessCenterRequest_def GetCenterStatus_def split: prod.splits)
      ultimately show ?thesis using calm_send assms(1) by blast
    qed
  qed
qed

lemma calm_sent:
  "send_on env fd ty s nc c = (r, c') \<Longrightarrow> calm env c \<Longrightarrow> ty \<noteq> CENTER2CENTER \<Longrightarrow> calm env c'"
  using calm_send [of env c ty s fd nc] by simp

lemma ProcessClientRequest_calm:
  "calm env c \<Longrightarrow> ProcessClientRequest env s fd c = Inr (ok, c') \<Longrightarrow> calm env c'"
  by (auto simp: ProcessClientRequest_def dest: calm_sent split: option.splits sum.splits prod.splits)

lemma calm_not_ready: "calm env c \<Longrightarrow> \<not> CenterIsReady c"
  by (auto simp: calm_def quiet_def CenterIsReady_def GetCenterStatus_def)

lemma ProcessClusterRequest_calm:
  "calm env c \<Longrightarrow> ProcessClusterRequest env s fd c = Inr (ok, c') \<Longrightarrow> calm env c'"
  by (auto simp: ProcessClusterRequest_def Let_def calm_not_ready intro!: calm_send)

subsection \<open>All centers together\<close>

type_synonym world = "string \<Rightarrow> rpc_center"

text \<open>
  The steps of the centers \<open>A\<close>. A message that is delivered was sent by another center, at
  any time before, and may be delivered again. Requests of clients and of servers are
  arbitrary strings.
\<close>

inductive net_step :: "string set \<Rightarrow> (string \<Rightarrow> center_env) \<Rightarrow> world \<Rightarrow> world \<Rightarrow> bool"
  for A :: "string set" and envs :: "string \<Rightarrow> center_env" where
  deliver: "a \<in> A \<Longrightarrow> b \<in> A \<Longrightarrow> b \<noteq> a \<Longrightarrow> Send fd' CENTER2CENTER s r \<in> set (trace (w b)) \<Longrightarrow>
    ProcessCenterRequest (envs a) s fd (w a) = Inr (ok, c) \<Longrightarrow> net_step A envs w (w(a := c))"
| elect: "a \<in> A \<Longrightarrow> election_round (envs a) (w a) = Inr c \<Longrightarrow> net_step A envs w (w(a := c))"
| begin_election: "a \<in> A \<Longrightarrow> StartFastLeaderElection (envs a) (w a) = Inr (ok, c) \<Longrightarrow>
    net_step A envs w (w(a := c))"
| client: "a \<in> A \<Longrightarrow> ProcessClientRequest (envs a) s fd (w a) = Inr (ok, c) \<Longrightarrow>
    net_step A envs w (w(a := c))"
| cluster: "a \<in> A \<Longrightarrow> ProcessClusterRequest (envs a) s fd (w a) = Inr (ok, c) \<Longrightarrow>
    net_step A envs w (w(a := c))"

inductive net_reach :: "string set \<Rightarrow> (string \<Rightarrow> center_env) \<Rightarrow> world \<Rightarrow> world \<Rightarrow> bool"
  for A :: "string set" and envs :: "string \<Rightarrow> center_env" and w0 :: world where
  here: "net_reach A envs w0 w0"
| further: "net_reach A envs w0 w \<Longrightarrow> net_step A envs w w' \<Longrightarrow> net_reach A envs w0 w'"

text \<open>
  Addresses are C strings, each center knows its own, and whatever one of them serialises
  another parses back.
\<close>

definition well_named :: "string set \<Rightarrow> (string \<Rightarrow> center_env) \<Rightarrow> bool" where
  "well_named A envs \<longleftrightarrow> (\<forall>a\<in>A. a \<noteq> [] \<and> nul_free a \<and> local_address (envs a) = a)"

definition same_messages :: "string set \<Rightarrow> (string \<Rightarrow> center_env) \<Rightarrow> bool" where
  "same_messages A envs \<longleftrightarrow>
     (\<forall>a\<in>A. \<forall>b\<in>A. \<forall>p s q. cp_to_string (envs b) p = Some s \<longrightarrow> cp_of_string (envs a) s = Some q \<longrightarrow> q = p)"

definition initialised :: "string set \<Rightarrow> (string \<Rightarrow> center_env) \<Rightarrow> world \<Rightarrow> bool" where
  "initialised A envs w \<longleftrightarrow>
     (\<forall>a\<in>A. \<exists>file ini_str ini_int cfg now.
        InitRpcCenter (envs a) (Some file) ini_str ini_int cfg (RpcCenter_new (envs a) now) = (True, w a))"

lemma calm_init:
  assumes "InitRpcCenter env (Some file) ini_str ini_int cfg (RpcCenter_new env now) = (True, c)"
  shows "calm env c"
proof -
  define a where "a = local_address env"
  define ok where "ok c \<longleftrightarrow> (\<forall>k\<in>names (other_centers c). c_str k \<noteq> c_str a) \<and> center_status c = LOOKING \<and>
      sends_ok env (trace c)" for c :: rpc_center
  have add: "ok c \<Longrightarrow> ok (add_center_line a line c)" for line c
    by (auto simp: ok_def add_center_line_def RegistNewCenter_def fst_umap_insert)
  have all: "ok c \<Longrightarrow> ok (fold (add_center_line a) ls c)" for ls c
    by (induction ls arbitrary: c) (auto simp: add)
  have "ok (fold (add_center_line a) (getlines file)
      (effect (Overflow 1) ((RpcCenter_new env now)\<lparr>center_port := Some (ini_str ''rpc_center:port'' ''8899'')\<rparr>)))"
    by (rule all) (simp add: ok_def effect_def RpcCenter_new_def names_def sends_ok_def)
  moreover have "all_items P ElectionThread_new" for P
    by (simp add: all_items_def ElectionThread_new_def empty_store_def value_at_def)
  ultimately show ?thesis
    using assms by (auto simp: InitRpcCenter_def Let_def calm_def quiet_def ok_def a_def)
qed

lemma net_step_calm:
  assumes "well_named A envs" "same_messages A envs" "\<forall>a\<in>A. calm (envs a) (w a)" "net_step A envs w w'"
  shows "\<forall>a\<in>A. calm (envs a) (w' a)"
proof -
  have upd: "calm (envs a) c \<Longrightarrow> \<forall>b\<in>A. calm (envs b) ((w(a := c)) b)" for a c
    using assms(3) by simp
  show ?thesis
    using assms(4)
  proof cases
    case (deliver a b fd' s r fd ok c)
    then have "sent_ok (envs b) s" using assms(3) by (auto simp: calm_def sends_ok_def)
    then obtain q where q: "cp_to_string (envs b) q = Some s" "from_center_addr q \<in> {b, []}"
      "center_action q \<noteq> LEADER_CONFIRM"
      using assms(1) deliver by (auto simp: sent_ok_def well_named_def)
    then have other: "c_str (from_center_addr q) \<noteq> c_str a"
      using assms(1) deliver by (auto simp: well_named_def)
    have self: "local_address (envs a) = a" using assms(1) deliver(2) by (simp add: well_named_def)
    have good: "good_msg (local_address (envs a)) p" if "cp_of_string (envs a) s = Some p" for p
    proof -
      have "p = q" using assms(2) deliver(2,3) q(1) that unfolding same_messages_def by blast
      with other self q(3) show ?thesis by (simp add: good_msg_def)
    qed
    from deliver(2) assms(3) have "calm (envs a) (w a)" by simp
    from ProcessCenterRequest_calm [OF this deliver(6) good] show ?thesis
      unfolding deliver(1) by (rule upd)
  qed (use assms(3) in \<open>auto simp: upd dest: election_round_calm StartFastLeaderElection_calm
      ProcessClientRequest_calm ProcessClusterRequest_calm\<close>)
qed

lemma net_reach_calm:
  "net_reach A envs w0 w \<Longrightarrow> well_named A envs \<Longrightarrow> same_messages A envs \<Longrightarrow> initialised A envs w0 \<Longrightarrow>
   \<forall>a\<in>A. calm (envs a) (w a)"
proof (induction rule: net_reach.induct)
  case here
  then show ?case by (auto simp: initialised_def dest: calm_init)
next
  case (further w w')
  then show ?case using net_step_calm by blast
qed

text \<open>C1: No election ever elects a leader. From centers set up by \<open>InitRpcCenter\<close>, whatever
  elections they start, whatever messages of other centers are delivered, in any order and any
  number of times, and whatever clients and RPC servers send: no center ever becomes \<open>LEADING\<close> or
  \<open>FOLLOWING\<close>, and so none is ever ready for an RPC server. (A vote for a center at that center
  itself is looked up in the table of the other centers, where its own address never is.)\<close>

theorem no_center_ever_leads:
  assumes "net_reach A envs w0 w" "well_named A envs" "same_messages A envs" "initialised A envs w0"
    and "a \<in> A"
  shows "center_status (w a) \<noteq> LEADING \<and> center_status (w a) \<noteq> FOLLOWING \<and> \<not> CenterIsReady (w a)"
  using net_reach_calm [OF assms(1-4)] assms(5)
  by (auto dest: calm_not_ready) (auto simp: calm_def quiet_def)

text \<open>Two centers ''a'' and ''b'', of which ''a'' starts an election and sends its proposal to ''b''.\<close>

definition demo_proposal :: CentersProto where
  "demo_proposal = CentersProto_default\<lparr>from_center_addr := ''a'', center_action := PROPOSAL,
     cp_start_time := 7, cp_lc_start_time := 7, cp_logical_clock := 1, cp_leader_center := ''a''\<rparr>"

definition demo_net :: "string \<Rightarrow> center_env" where
  "demo_net a = (demo_env demo_proposal)\<lparr>local_address := a,
     cp_to_string := (\<lambda>p. if p = demo_proposal then Some ''m'' else None)\<rparr>"

definition demo_init :: "string \<Rightarrow> bool \<times> rpc_center" where
  "demo_init a = InitRpcCenter (demo_net a) (Some (if a = ''a'' then ''b'' else ''a'')) (\<lambda>_ d. d) (\<lambda>_ d. d)
     ''f'' (RpcCenter_new (demo_net a) 7)"

lemma demo_init_fields:
  "fst (demo_init a)" "fastleader_running (snd (demo_init a)) = False"
  "election_thread (snd (demo_init a)) = Some ElectionThread_new"
  "logical_clock (snd (demo_init ''a'')) = 0" "start_time (snd (demo_init ''a'')) = 7"
  "lc_start_time (snd (demo_init ''a'')) = 7" "leader_center (snd (demo_init ''a'')) = ''a''"
  "map fst (other_centers (snd (demo_init ''a''))) = [''b'']"
proof -
  have lines: "getlines ''b'' = [''b'']" by (subst getlines.simps) simp
  have keep: "fastleader_running (add_center_line l x c) = fastleader_running c"
    "logical_clock (add_center_line l x c) = logical_clock c"
    "start_time (add_center_line l x c) = start_time c"
    "lc_start_time (add_center_line l x c) = lc_start_time c"
    "leader_center (add_center_line l x c) = leader_center c" for l x c
    by (simp_all add: add_center_line_def RegistNewCenter_def)
  have fast: "fastleader_running (fold (add_center_line l) xs c) = fastleader_running c" for l xs c
    by (induction xs arbitrary: c) (simp_all add: keep)
  show "fst (demo_init a)" "fastleader_running (snd (demo_init a)) = False"
    "election_thread (snd (demo_init a)) = Some ElectionThread_new"
    by (simp_all add: demo_init_def InitRpcCenter_def Let_def fast effect_def RpcCenter_new_def)
  show "logical_clock (snd (demo_init ''a'')) = 0" "start_time (snd (demo_init ''a'')) = 7"
    "lc_start_time (snd (demo_init ''a'')) = 7" "leader_center (snd (demo_init ''a'')) = ''a''"
    by (simp_all add: demo_init_def InitRpcCenter_def Let_def lines keep effect_def RpcCenter_new_def
        demo_net_def del: getlines.simps)
  show "map fst (other_centers (snd (demo_init ''a''))) = [''b'']"
    by (simp add: demo_init_def InitRpcCenter_def Let_def lines add_center_line_def RegistNewCenter_other
        umap_insert_def effect_def RpcCenter_new_def demo_net_def c_str_def del: getlines.simps)
qed

lemma demo_election:
  "\<exists>c. StartFastLeaderElection (demo_net ''a'') (snd (demo_init ''a'')) = Inr (True, c) \<and>
     (\<exists>r. Send 5 CENTER2CENTER ''m'' r \<in> set (trace c))"
proof -
  let ?env = "demo_net ''a''"
  have env: "thread_ok ?env n" "cp_to_string ?env p = (if p = demo_proposal then Some ''m'' else None)"
    "visit ?env = id" "local_address ?env = ''a''" for n p
    by (simp_all add: demo_net_def demo_env_def)
  have conn: "connect_center ?env a c = (5, effect (Connect a 5) c)" for a c
    by (simp add: connect_center_def demo_net_def demo_env_def)
  have send: "\<exists>c1. send_on ?env 5 CENTER2CENTER ''m'' False c = (0, effect (Send 5 CENTER2CENTER ''m'' c1) c)"
    for c by (auto simp: send_on_def demo_net_def demo_env_def RpcSend_ok Let_def)
  have inq: "inquiry_message ?env c \<noteq> demo_proposal" for c
    by (auto simp: inquiry_message_def demo_proposal_def CentersProto_default_def)
  obtain b where start: "Start True (base ElectionThread_new) = (True, b)"
    by (simp add: Start_def ElectionThread_new_def Thread_new_def)
  let ?c = "SetFastLeaderRunning True ((snd (demo_init ''a''))\<lparr>election_thread :=
      Some (ElectionThread_new\<lparr>base := b\<rparr>)\<rparr>)"
  define d where "d = IncreaseLogicalClock ?c"
  have msg: "proposal_message ?env d = demo_proposal"
    by (simp add: d_def proposal_message_def demo_proposal_def CentersProto_default_def center_defs
        demo_init_fields env)
  have keys: "map fst (other_centers d) = [''b'']"
    by (simp add: d_def center_defs demo_init_fields)
  obtain r where "send_on ?env 5 CENTER2CENTER ''m'' False (effect (Connect ''b'' 5) d)
      = (0, effect (Send 5 CENTER2CENTER ''m'' r) (effect (Connect ''b'' 5) d))"
    using send by blast
  then have "snd (ProposalLeaderElection ?env ?c) = close_fd 5 (effect (Send 5 CENTER2CENTER ''m'' r)
      (effect (Connect ''b'' 5) d))"
    unfolding ProposalLeaderElection_def Let_def d_def [symmetric] BroadcastInfo_def keys env msg
    by (simp add: conn)
  moreover have "StartFastLeaderElection ?env (snd (demo_init ''a'')) =
      Inr (True, snd (ProposalLeaderElection ?env ?c))"
    by (simp add: StartFastLeaderElection_def IsFastLeaderRunning_def demo_init_fields env start
        FastLeaderElection_def InquiryCenters_def inq)
  ultimately show ?thesis by (auto simp: close_fd_def)
qed

theorem no_center_ever_leads_witness:
  "\<exists>w r. net_reach {''a'', ''b''} demo_net (\<lambda>a. snd (demo_init a)) w \<and>
     Send 5 CENTER2CENTER ''m'' r \<in> set (trace (w ''a'')) \<and> \<not> CenterIsReady (w ''a'')"
proof -
  let ?A = "{''a'', ''b''}" and ?w = "\<lambda>a. snd (demo_init a)"
  obtain c r where c: "StartFastLeaderElection (demo_net ''a'') (?w ''a'') = Inr (True, c)"
    "Send 5 CENTER2CENTER ''m'' r \<in> set (trace c)"
    using demo_election by blast
  have "net_step ?A demo_net ?w (?w(''a'' := c))" by (rule begin_election [where w = ?w and a = "''a''" and envs = demo_net, OF _ c(1)]) simp
  from further [OF here this] have reach: "net_reach ?A demo_net ?w (?w(''a'' := c))" .
  have "well_named ?A demo_net" "same_messages ?A demo_net"
    by (auto simp: well_named_def same_messages_def demo_net_def demo_env_def split: if_splits)
  moreover have "initialised ?A demo_net ?w"
    unfolding initialised_def
  proof
    fix a
    have "demo_init a = (True, ?w a)" using demo_init_fields(1) [of a] by (cases "demo_init a") simp
    then show "\<exists>file ini_str ini_int cfg now. InitRpcCenter (demo_net a) (Some file) ini_str ini_int cfg
        (RpcCenter_new (demo_net a) now) = (True, ?w a)"
      unfolding demo_init_def [of a] by blast
  qed
  ultimately have "\<not> CenterIsReady ((?w(''a'' := c)) ''a'')"
    using no_center_ever_leads [OF reach] by blast
  with reach c(2) show ?thesis by (intro exI [of _ "?w(''a'' := c)"] exI [of _ r]) simp
qed

subsection \<open>Counting votes\<close>

text \<open>Messages processed one after the other.\<close>

primrec process_all :: "center_env \<Rightarrow> (int \<times> CentersProto) list \<Rightarrow> rpc_center \<Rightarrow> fault + rpc_center" where
  "process_all env [] c = Inr c"
| "process_all env (m # ms) c =
     (case ProcessCenterData env (fst m) (snd m) c of
        Inl f \<Rightarrow> Inl f
      | Inr (_, c) \<Rightarrow> process_all env ms c)"

text \<open>A proposal of a newer round for a center of the table, and the state after the first section.\<close>

definition fresh_vote :: "center_env \<Rightarrow> CentersProto \<Rightarrow> rpc_center \<Rightarrow> bool" where
  "fresh_vote env p c \<longleftrightarrow>
     center_action p = PROPOSAL \<and> logical_clock c < cp_logical_clock p \<and>
     cp_leader_center p \<in> names (other_centers c) \<and> length (c_str (cp_leader_center p)) < 128 \<and>
     c_str (cp_leader_center p) \<noteq> c_str (local_address env) \<and>
     election_done_num c \<noteq> 0 \<and> center_status c \<noteq> FOLLOWING"

definition votes_for :: "string \<Rightarrow> rpc_center \<Rightarrow> u32" where
  "votes_for a c = (case map_of (other_centers c) a of None \<Rightarrow> 0 | Some oc \<Rightarrow> vote_count oc)"

lemma record_sender_votes:
  assumes "record_sender p c = Inr c1" "a \<in> names (other_centers c)"
  shows "votes_for a c1 = votes_for a c" "a \<in> names (other_centers c1)"
    "logical_clock c1 = logical_clock c" "election_done_num c1 = election_done_num c"
    "center_status c1 = center_status c" "leader_candidate c1 = leader_candidate c"
proof -
  let ?addr = "from_center_addr p"
  from assms(1) obtain follow where follow: "strcpy_follow (cp_leader_center p) = Inr follow"
    by (auto simp: record_sender_def split: sum.splits)
  have "votes_for a c1 = votes_for a c \<and> a \<in> names (other_centers c1) \<and>
    logical_clock c1 = logical_clock c \<and> election_done_num c1 = election_done_num c \<and>
    center_status c1 = center_status c \<and> leader_candidate c1 = leader_candidate c"
  proof (cases "map_of (other_centers c) ?addr")
    case None
    then have "a \<noteq> ?addr" using assms(2) map_of_names by metis
    moreover have "umap_insert ?addr v (other_centers c) = other_centers c @ [(?addr, v)]" for v
      by (simp add: umap_insert_def None)
    moreover have "a \<in> names (other_centers c @ [(?addr, v)])" for v
      using assms(2) by (simp add: names_def)
    ultimately show ?thesis
      using assms(1) follow None
      by (auto simp: record_sender_def Let_def votes_for_def leader_candidate_def map_add_def
          split: option.splits)
  next
    case (Some oc)
    with assms follow show ?thesis
      by (auto simp: record_sender_def Let_def votes_for_def leader_candidate_def fst_update update_conv)
  qed
  then show "votes_for a c1 = votes_for a c" "a \<in> names (other_centers c1)"
    "logical_clock c1 = logical_clock c" "election_done_num c1 = election_done_num c"
    "center_status c1 = center_status c" "leader_candidate c1 = leader_candidate c"
    by simp_all
qed

lemma count_vote_votes:
  assumes "cp_leader_center p \<in> names (other_centers c)"
  obtains c1 where "count_vote p c = (votes_for (cp_leader_center p) c + 1, c1)"
    "votes_for (cp_leader_center p) c1 = votes_for (cp_leader_center p) c + 1"
    "cp_leader_center p \<in> names (other_centers c1)" "logical_clock c1 = logical_clock c"
    "election_done_num c1 = election_done_num c" "center_status c1 = center_status c"
    "leader_candidate c1 = leader_candidate c"
proof -
  from assms obtain oc where oc: "map_of (other_centers c) (cp_leader_center p) = Some oc"
    by (metis map_of_names option.exhaust)
  show thesis
    by (rule that [of "c\<lparr>other_centers := AList.update (cp_leader_center p)
          (oc\<lparr>vote_count := vote_count oc + 1\<rparr>) (other_centers c)\<rparr>"])
      (simp_all add: count_vote_def Let_def oc votes_for_def update_conv fst_update leader_candidate_def)
qed

lemma proposal_vote:
  assumes "fresh_vote env p c"
  shows "\<exists>c'. ProcessCenterData env fd p c = Inr (True, c') \<and> fresh_vote env p c' \<and>
    election_done_num c' = election_done_num c \<and>
    votes_for (cp_leader_center p) c' = votes_for (cp_leader_center p) c + 1 \<and>
    (if election_done_num c \<le> votes_for (cp_leader_center p) c + 1
     then leader_candidate c' = proposed p \<and> center_status c' = OBSERVING
     else leader_candidate c' = leader_candidate c)"
proof -
  let ?a = "cp_leader_center p"
  have fv: "center_action p = PROPOSAL" "logical_clock c < cp_logical_clock p" "?a \<in> names (other_centers c)"
    "length (c_str ?a) < 128" "c_str ?a \<noteq> c_str (local_address env)" "election_done_num c \<noteq> 0"
    "center_status c \<noteq> FOLLOWING"
    using assms by (simp_all add: fresh_vote_def)
  have acc: "LeaderPredicate p c = ACCEPT" "\<not> cp_logical_clock p < GetLogicalClock c"
    using fv(2) by (auto simp: LeaderPredicate_def Let_def GetLogicalClock_def)
  obtain c1 where c1: "record_sender p c = Inr c1"
    using fv(4) by (cases "map_of (other_centers c) (from_center_addr p)")
      (simp_all add: record_sender_def strcpy_follow_def Let_def)
  note rs = record_sender_votes [OF c1 fv(3)]
  obtain c2 where c2: "count_vote p c1 = (votes_for ?a c1 + 1, c2)"
    "votes_for ?a c2 = votes_for ?a c1 + 1" "?a \<in> names (other_centers c2)"
    "logical_clock c2 = logical_clock c1" "election_done_num c2 = election_done_num c1"
    "center_status c2 = center_status c1" "leader_candidate c2 = leader_candidate c1"
    by (rule count_vote_votes [OF rs(2)])
  show ?thesis
  proof (cases "election_done_num c \<le> votes_for ?a c + 1")
    case True
    have "UpdateOCStatus env p c =
        Inr (True, UpdateCenterStatus OBSERVING (UpdateLeadingCenterInfos p c2))"
      using acc c1 c2 rs fv True
      by (simp add: UpdateOCStatus_def Let_def UpdateLeadingCenterInfos_def GetLeadingCenter_def GetCenterStatus_def)
    with True acc c2 rs fv show ?thesis
      by (simp add: ProcessCenterData_def fresh_vote_def UpdateCenterStatus_def UpdateLeadingCenterInfos_def
          close_fd_def effect_def votes_for_def leader_candidate_def proposed_def)
  next
    case False
    then have "UpdateOCStatus env p c = Inr (True, c2)"
      using acc c1 c2 rs by (simp add: UpdateOCStatus_def)
    with False acc c2 rs fv show ?thesis
      by (simp add: ProcessCenterData_def fresh_vote_def close_fd_def effect_def votes_for_def
          leader_candidate_def)
  qed
qed

lemma repeated_votes:
  assumes "fresh_vote env p c" "votes_for (cp_leader_center p) c = 0" "k \<le> unat (election_done_num c)"
  shows "\<exists>c'. process_all env (replicate k (fd, p)) c = Inr c' \<and> fresh_vote env p c' \<and>
    election_done_num c' = election_done_num c \<and> votes_for (cp_leader_center p) c' = word_of_nat k \<and>
    (if k = unat (election_done_num c) then leader_candidate c' = proposed p \<and> center_status c' = OBSERVING
     else leader_candidate c' = leader_candidate c)"
  using assms(3)
proof (induction k)
  case 0
  have "unat (election_done_num c) \<noteq> 0" using assms(1) by (simp add: fresh_vote_def unat_eq_0)
  with assms(1,2) show ?case by simp
next
  case (Suc k)
  have app: "process_all env (ms @ [m]) c = (case process_all env ms c of
      Inl f \<Rightarrow> Inl f | Inr c \<Rightarrow> process_all env [m] c)" for ms m c
    by (induction ms arbitrary: c) (auto split: sum.splits prod.splits)
  from Suc obtain c1 where c1: "process_all env (replicate k (fd, p)) c = Inr c1" "fresh_vote env p c1"
    "election_done_num c1 = election_done_num c" "votes_for (cp_leader_center p) c1 = word_of_nat k"
    "leader_candidate c1 = leader_candidate c"
    by auto
  have lt: "k < unat (election_done_num c)" using Suc.prems by simp
  moreover have "unat (election_done_num c) < 2 ^ 32"
    using unsigned_less [of "election_done_num c"] by simp
  ultimately have "unat (of_nat (Suc k) :: u32) = Suc k"
    by (simp add: unsigned_of_nat take_bit_nat_eq_self del: of_nat_Suc)
  moreover have "(of_nat k + 1 :: u32) = of_nat (Suc k)" by simp
  ultimately have "election_done_num c \<le> word_of_nat k + 1 \<longleftrightarrow> Suc k = unat (election_done_num c)"
    using lt by (auto simp: word_le_nat_alt add.commute)
  with proposal_vote [OF c1(2), of fd] c1 show ?case
    by (auto simp: replicate_append_same [symmetric] app simp del: replicate_append_same)
qed



subsection \<open>Confirmation and descriptors\<close>

text \<open>A confirmation makes a follower but does not tell it whom to follow. Processing a
  \<open>LEADER_CONFIRM\<close> leaves the leader a center holds as it was; the status becomes \<open>FOLLOWING\<close> when
  the leader predicate accepts the message and stays otherwise. In particular a center that
  already holds the confirmed leader, in the same round, refuses the confirmation.\<close>

theorem confirm_keeps_leader:
  assumes "ProcessCenterData env fd p c = Inr (ok, c')" and "center_action p = LEADER_CONFIRM"
  shows "leader_candidate c' = leader_candidate c \<and>
    center_status c' = (if cp_logical_clock p > logical_clock c \<or>
        cp_logical_clock p = logical_clock c \<and> leader_candidate c < proposed p
      then FOLLOWING else center_status c)"
  using assms
  by (auto simp: ProcessCenterData_def process_confirm_def Let_def LeaderPredicate_candidate_order
      UpdateCenterStatus_def close_fd_def effect_def leader_candidate_def
      split: if_splits option.splits)

theorem confirm_keeps_leader_witness:
  "\<exists>c'. ProcessCenterData (demo_env CentersProto_default) 4 (demo_proposal\<lparr>center_action := LEADER_CONFIRM\<rparr>)
      ((RpcCenter_new (demo_env CentersProto_default) 9)\<lparr>leader_thread := Some LeaderThread_new\<rparr>) = Inr (True, c') \<and>
    center_status c' = FOLLOWING \<and> leader_candidate c' = Candidate 9 ''a''"
proof -
  let ?p = "demo_proposal\<lparr>center_action := LEADER_CONFIRM\<rparr>"
  let ?c = "(RpcCenter_new (demo_env CentersProto_default) 9)\<lparr>leader_thread := Some LeaderThread_new\<rparr>"
  have clock: "logical_clock ?c = 0" "cp_logical_clock ?p = 1" "center_action ?p = LEADER_CONFIRM"
    by (simp_all add: RpcCenter_new_def demo_proposal_def)
  then obtain c' where c': "ProcessCenterData (demo_env CentersProto_default) 4 ?p ?c = Inr (True, c')"
    by (simp add: ProcessCenterData_def process_confirm_def Let_def LeaderPredicate_candidate_order
        RpcCenter_new_def UpdateCenterStatus_def)
  from confirm_keeps_leader [OF c' clock(3)] clock
  have "center_status c' = FOLLOWING" "leader_candidate c' = leader_candidate ?c" by simp_all
  with c' show ?thesis by (simp add: leader_candidate_def RpcCenter_new_def demo_env_def)
qed

lemma ProcessCenterData_closes:
  "ProcessCenterData env fd p c = Inr (ok, c') \<Longrightarrow> \<exists>tr. trace c' = tr @ [Close fd]"
  by (auto simp: ProcessCenterData_def Let_def close_fd_def
      split: CenterAction.splits if_splits option.splits sum.splits)

text \<open>Every descriptor of the election queue is closed twice. Whatever the message is, the
  handler closes the connection as its last effect, and the loop of the election thread closes the
  same number once more.\<close>

theorem election_round_closes_twice:
  assumes "election_thread c = Some et" and "holds_msgs et ((fd, p) # ms)"
    and "election_round env c = Inr c'"
  shows "\<exists>tr. trace c' = tr @ [Close fd, Close fd]"
proof -
  obtain et' where "ElectionThread_round et = Inr (Some (fd, p), et')"
    using ElectionThread_round_first [OF assms(2)] by blast
  with assms(1,3) obtain ok c1 where c1: "ProcessCenterData env fd p (c\<lparr>election_thread := Some et'\<rparr>) = Inr (ok, c1)"
    "c' = close_fd fd c1"
    by (auto simp: election_round_def split: sum.splits prod.splits)
  from ProcessCenterData_closes [OF c1(1)] c1(2) show ?thesis by (auto simp: close_fd_def)
qed

theorem election_round_closes_twice_witness:
  "\<exists>et c' tr. PushElectionMessage 4 (CentersProto_default\<lparr>center_action := ACCEPT\<rparr>) ElectionThread_new = Inr et \<and>
     election_round (demo_env CentersProto_default)
       ((RpcCenter_new (demo_env CentersProto_default) 9)\<lparr>election_thread := Some et\<rparr>) = Inr c' \<and>
     trace c' = tr @ [Close 4, Close 4]"
proof -
  let ?p = "CentersProto_default\<lparr>center_action := ACCEPT\<rparr>" and ?env = "demo_env CentersProto_default"
  obtain et where et: "PushElectionMessage 4 ?p ElectionThread_new = Inr et" "holds_msgs et ([] @ [(4, ?p)])"
    using PushElectionMessage_holds [OF holds_msgs_new(1)] by blast
  then have holds: "holds_msgs et ((4, ?p) # [])" by simp
  let ?c = "(RpcCenter_new ?env 9)\<lparr>election_thread := Some et\<rparr>"
  have th: "election_thread ?c = Some et" by simp
  obtain et' where r: "ElectionThread_round et = Inr (Some (4, ?p), et')"
    using ElectionThread_round_first [OF holds] by blast
  obtain c' where c': "election_round ?env ?c = Inr c'"
    by (simp add: election_round_def r ProcessCenterData_def CentersProto_default_def)
  from election_round_closes_twice [OF th holds c'] c' et(1) show ?thesis by blast
qed

end
