(* ===== verification/Pools.thy ===== *)
theory Pools
  imports Queues
begin

section \<open>Pools of items: what taking and giving keep\<close>

text \<open>
  Lemmas on the free lists of theory Queues: taking an item from the list or from a new block
  leaves every item in use as it was, giving it back makes it the first of the list.
\<close>

subsection \<open>Pools of items\<close>

text \<open>\<open>fs\<close> is the free list, and nothing beyond \<open>brk\<close> is in use.\<close>

definition set_content :: "nat \<Rightarrow> 'a \<Rightarrow> 'a store \<Rightarrow> 'a store" where
  "set_content a x st = st\<lparr>cells := (cells st)(a := map_option (\<lambda>it. it\<lparr>content := Some x\<rparr>) (cells st a))\<rparr>"

definition pool_ok :: "'a store \<times> nat option \<Rightarrow> nat list \<Rightarrow> bool" where
  "pool_ok sf fs \<longleftrightarrow>
     (case sf of (st, free) \<Rightarrow> chain st free fs \<and> distinct fs \<and> (\<forall>a\<ge>brk st. \<not> live st a))"

lemma set_content_simps [simp]:
  "live (set_content a x st) b = live st b" "get_next (set_content a x st) b = get_next st b"
  "brk (set_content a x st) = brk st"
  by (simp_all add: set_content_def live_def get_next_def split: option.splits)

lemma value_set_content: "value_at (set_content a x st) b = (if b = a \<and> live st a then Some x else value_at st b)"
  by (auto simp: set_content_def value_at_def live_def split: option.splits)

lemma chain_set_content [simp]: "chain (set_content a x st) p as = chain st p as"
  by (rule chain_cong) simp

lemma queue_of_set_content [simp]: "queue_of (set_content a x st, q) as = queue_of (st, q) as"
  by (simp add: queue_of_def)

lemma pool_ok_set_content [simp]: "pool_ok (set_content a x st, free) fs = pool_ok (st, free) fs"
  by (simp add: pool_ok_def)

lemma stray_update [simp]:
  "live (st\<lparr>stray := x\<rparr>) b = live st b" "value_at (st\<lparr>stray := x\<rparr>) b = value_at st b"
  "get_next (st\<lparr>stray := x\<rparr>) b = get_next st b"
  by (simp_all add: live_def value_at_def get_next_def)

lemma link_block_keeps [simp]:
  "live (link_block base i k st) b = live st b" "value_at (link_block base i k st) b = value_at st b"
  "brk (link_block base i k st) = brk st"
  by (induction base i k st rule: link_block.induct) simp_all

lemma link_block_next:
  assumes "\<forall>j. i \<le> Suc j \<longrightarrow> j < i + k \<longrightarrow> live st (base + j)"
  shows "get_next (link_block base i k st) b =
    (if base \<le> b \<and> i \<le> Suc (b - base) \<and> Suc (b - base) < i + k then Some (Suc b) else get_next st b)"
  using assms
proof (induction base i k st rule: link_block.induct)
  case (2 base i k st)
  show ?case
  proof (cases "i = 0")
    case True
    have "\<forall>j. Suc 0 \<le> Suc j \<longrightarrow> j < Suc 0 + k \<longrightarrow> live (st\<lparr>stray := stray st @ [int base - 1]\<rparr>) (base + j)"
      using "2.prems" True by (auto simp: live_def)
    from "2.IH" [unfolded True, simplified, OF this [simplified]] True show ?thesis
      by (auto simp: get_next_def)
  next
    case False
    have "\<forall>j. Suc i \<le> Suc j \<longrightarrow> j < Suc i + k \<longrightarrow>
        live (set_next (base + i - 1) (Some (base + i)) st) (base + j)"
      using "2.prems" by auto
    moreover have "live st (base + (i - 1))"
      using "2.prems" False by (intro "2.prems" [rule_format]) auto
    ultimately show ?thesis
      using "2.IH" False by (auto simp: get_next_set_next)
  qed
qed auto

lemma chain_upto:
  "(\<And>j. base \<le> j \<Longrightarrow> j < base + k \<Longrightarrow> live st j) \<Longrightarrow>
   (\<And>j. base \<le> j \<Longrightarrow> Suc j < base + k \<Longrightarrow> get_next st j = Some (Suc j)) \<Longrightarrow>
   (0 < k \<Longrightarrow> get_next st (base + k - 1) = None) \<Longrightarrow> 
   chain st (if k = 0 then None else Some base) [base..<base + k]"
proof (induction k arbitrary: base)
  case (Suc k)
  show ?case
  proof (cases k)
    case 0
    with Suc.prems show ?thesis by simp
  next
    case (Suc k')
    have "chain st (if k = 0 then None else Some (Suc base)) [Suc base..<Suc base + k]"
      by (rule Suc.IH) (use Suc.prems Suc in auto)
    with Suc.prems Suc show ?thesis by (simp add: upt_conv_Cons del: upt_Suc)
  qed
qed simp

lemma dead_value: "\<not> live st b \<Longrightarrow> value_at st b = None"
  by (simp add: live_def value_at_def split: option.splits)

text \<open>Taking an item: it is in use and not free, everything else is as before.\<close>

lemma take_item_ok:
  assumes "pool_ok (st, free) fs" "2 \<le> n"
  obtains a st' free' fs' where "take_item n (st, free) = (a, st', free')"
    "pool_ok (st', free') fs'" "a \<notin> set fs'" "live st' a"
    "set fs' \<subseteq> set fs \<union> {b. \<not> live st b}" "a \<in> set fs \<or> \<not> live st a"
    "\<And>b. live st b \<Longrightarrow> live st' b \<and> get_next st' b = get_next st b \<and> value_at st' b = value_at st b"
    "\<And>b. \<not> live st b \<Longrightarrow> value_at st' b = None"
    "insert a (set fs') = set fs \<union> {brk st..<brk st'}" "brk st' \<in> {brk st, brk st + n}"
proof (cases free)
  case (Some a)
  with assms(1) obtain fs' where "fs = a # fs'" "chain st (get_next st a) fs'" "live st a"
    by (cases fs) (auto simp: pool_ok_def)
  with assms(1) Some show ?thesis
    by (intro that [of a st "get_next st a" fs'])
      (auto simp: take_item_def pool_ok_def dead_value)
next
  case None
  define base where "base = brk st"
  define st1 where "st1 = snd (alloc_block n st)"
  define st2 where "st2 = set_next (base + n - 1) None (set_next (base + n - 1) None (link_block base 0 n st1))"
  have fresh: "\<forall>b\<ge>base. \<not> live st b" using assms(1) by (simp add: pool_ok_def base_def)
  have live1: "live st1 b = (live st b \<or> base \<le> b \<and> b < base + n)" for b
    by (auto simp: st1_def alloc_block_def live_def base_def)
  have old: "value_at st1 b = value_at st b \<and> get_next st1 b = get_next st b" if "live st b" for b
  proof -
    have "b < brk st" using fresh that unfolding base_def by (meson not_le)
    then show ?thesis by (simp add: st1_def alloc_block_def value_at_def get_next_def)
  qed
  have blk: "\<forall>j. 0 \<le> Suc j \<longrightarrow> j < 0 + n \<longrightarrow> live st1 (base + j)"
    by (simp add: live1)
  have nx: "get_next st2 b =
      (if b = base + n - 1 then None
       else if base \<le> b \<and> Suc (b - base) < n then Some (Suc b) else get_next st1 b)" for b
    using assms(2) by (auto simp: st2_def get_next_set_next link_block_next [OF blk] live1)
  have live2: "live st2 b = live st1 b" for b by (simp add: st2_def)
  have val2: "value_at st2 b = value_at st1 b" for b by (simp add: st2_def)
  have brk2: "brk st2 = base + n" by (simp add: st2_def st1_def alloc_block_def base_def)
  have "chain st2 (if n - 1 = 0 then None else Some (base + 1)) [base + 1..<base + 1 + (n - 1)]"
    by (rule chain_upto) (use assms(2) in \<open>auto simp: nx live2 live1\<close>)
  then have free2: "chain st2 (Some (base + 1)) [base + 1..<base + n]" using assms(2) by simp
  have take: "take_item n (st, free) = (base, st2, Some (base + 1))"
    using None by (simp add: take_item_def Let_def st2_def st1_def base_def alloc_block_def)
  have ok: "pool_ok (st2, Some (base + 1)) [base + 1..<base + n]"
    using free2 fresh by (auto simp: pool_ok_def live2 live1 brk2)
  have keep: "live st2 b \<and> get_next st2 b = get_next st b \<and> value_at st2 b = value_at st b"
    if "live st b" for b
  proof -
    have "b < base" using fresh that by (meson not_le)
    with old [OF that] that assms(2) show ?thesis by (auto simp: nx live2 live1 val2)
  qed
  have new: "set [base + 1..<base + n] \<subseteq> set fs \<union> {b. \<not> live st b}"
    using fresh by auto
  have dead: "value_at st2 b = None" if "\<not> live st b" for b
    unfolding val2
    using that by (auto simp: st1_def alloc_block_def value_at_def live_def split: option.splits)
  have none: "fs = []" using assms(1) None by (cases fs) (auto simp: pool_ok_def)
  have cover: "insert base (set [base + 1..<base + n]) = set fs \<union> {brk st..<brk st2}"
    using assms(2) by (auto simp: none brk2 base_def)
  show ?thesis
    by (rule that [OF take ok _ _ new _ keep dead cover])
      (use fresh assms(2) in \<open>auto simp: live2 live1 brk2 base_def\<close>)
qed

lemma give_item_ok:
  assumes "pool_ok (st, free) fs" "live st a" "a \<notin> set fs"
  shows "pool_ok (give_item a (st, free)) (a # fs)"
  using assms by (auto simp: pool_ok_def give_item_def get_next_set_next chain_set_next)

lemma link_tail_next:
  "queue_of (st, q) as \<Longrightarrow> b \<noteq> a \<Longrightarrow> b \<notin> set as \<Longrightarrow>
   get_next (fst (link_tail a (st, q))) b = get_next st b"
  by (cases as rule: rev_cases) (auto simp: queue_of_def link_tail_def Let_def get_next_set_next)

lemma pool_ok_cong:
  assumes "pool_ok (st, free) fs" "brk st' = brk st"
    and "\<And>a. a \<in> set fs \<Longrightarrow> get_next st' a = get_next st a" "\<And>a. live st' a = live st a"
  shows "pool_ok (st', free) fs"
  using assms chain_cong [of fs st' st free] by (simp add: pool_ok_def)

text \<open>An item taken from the pool, filled and linked at the end of a queue.\<close>

lemma take_link_ok:
  assumes pool: "pool_ok (st, free) fs" and q: "queue_of (st, q) as" and d: "distinct (fs @ as)"
    and n: "2 \<le> n"
  obtains a st1 free' st2 q' fs' where "take_item n (st, free) = (a, st1, free')"
    "link_tail a (set_content a x st1, q) = (st2, q')"
    "pool_ok (st2, free') fs'" "queue_of (st2, q') (as @ [a])" "distinct (fs' @ as @ [a])" "live st2 a"
    "value_at st2 a = Some x"
    "\<And>b. b \<noteq> a \<Longrightarrow> value_at st2 b = value_at st b" "\<And>b. live st b \<Longrightarrow> live st2 b"
    "insert a (set fs') = set fs \<union> {brk st..<brk st2}" "brk st2 \<in> {brk st, brk st + n}"
proof -
  obtain a st1 free' fs' where take: "take_item n (st, free) = (a, st1, free')"
    and ok1: "pool_ok (st1, free') fs'" and a: "a \<notin> set fs'" "live st1 a"
    and sub: "set fs' \<subseteq> set fs \<union> {b. \<not> live st b}" and mem: "a \<in> set fs \<or> \<not> live st a"
    and keep: "\<And>b. live st b \<Longrightarrow> live st1 b \<and> get_next st1 b = get_next st b \<and> value_at st1 b = value_at st b"
    and dead: "\<And>b. \<not> live st b \<Longrightarrow> value_at st1 b = None"
    and cover: "insert a (set fs') = set fs \<union> {brk st..<brk st1}" "brk st1 \<in> {brk st, brk st + n}"
    by (rule take_item_ok [OF pool n]) blast
  have as: "b \<noteq> a \<and> b \<notin> set fs' \<and> live st b" if "b \<in> set as" for b
    using queue_of_live [OF q that] d that mem sub by auto
  obtain st2 q' where link: "link_tail a (set_content a x st1, q) = (st2, q')"
    by (cases "link_tail a (set_content a x st1, q)")
  have st2: "st2 = fst (link_tail a (set_content a x st1, q))" by (simp add: link)
  have q1: "queue_of (set_content a x st1, q) as"
    unfolding queue_of_set_content by (rule queue_of_cong [OF q]) (use keep as in auto)
  have q2: "queue_of (st2, q') (as @ [a])"
    using queue_of_link [OF q1, of a] as a(2) link by auto
  have live2: "live st2 b = live st1 b" "brk st2 = brk st1" for b by (simp_all add: st2)
  have val2: "value_at st2 b = (if b = a then Some x else value_at st1 b)" for b
    using a(2) by (simp add: st2 value_set_content)
  have "pool_ok (st2, free') fs'"
  proof (rule pool_ok_cong [OF ok1 live2(2) _ live2(1)])
    fix b assume b: "b \<in> set fs'"
    then have "b \<noteq> a" "b \<notin> set as" using a(1) as by auto
    then show "get_next st2 b = get_next st1 b" using link_tail_next [OF q1] by (simp add: st2)
  qed
  moreover have "distinct (fs' @ as @ [a])"
    using ok1 d a(1) as by (auto simp: pool_ok_def)
  moreover have "value_at st2 b = value_at st b" if "b \<noteq> a" for b
    using that keep [of b] dead [of b] dead_value [of st b] by (cases "live st b") (simp_all add: val2)
  moreover have "live st2 b" if "live st b" for b using keep [OF that] by (simp add: live2)
  ultimately show ?thesis
    using that [OF take link _ q2] cover by (simp add: val2 live2 a(2))
qed

end
