(* ===== verification/EventThreads.thy ===== *)
theory EventThreads
  imports Pools Sockets
begin

section \<open>Connections of the accepting threads\<close>

text \<open>
  \<open>DispatchThread\<close> of the RPC server (rpc\_server/dispatch\_thread.cpp) and \<open>CenterServerThread\<close>
  of the center (rpc\_center/center\_server\_thread.cpp) keep their connections the same way, function
  for function: an item with a libev watcher per accepted connection, taken from a free list that grows
  by blocks of four, and a list of the items in use. An item's content is its watcher: the
  descriptor and whether libev watches it. \<open>Accept\<close> and the handler of a readable connection are
  arguments: the result of the one, and what is done with the descriptor by the caller. The lemmas
  show that the list of items in use never runs empty under a watched connection, what holds when
  connections become readable in the order of their acceptance, and what happens when they do not.
\<close>

subsection \<open>State and operations\<close>

record watcher =
  w_fd :: int
  w_active :: bool

record event_thread =
  eio_items :: "watcher store"
  eio_freelist :: "nat option"
  eio_uselist :: queue

definition ei_per_alloc :: nat where
  "ei_per_alloc = 4"

definition DispatchThread_new :: event_thread where
  "DispatchThread_new =
     \<lparr>eio_items = empty_store, eio_freelist = None, eio_uselist = \<lparr>head = None, tail = None\<rparr>\<rparr>"

definition NewEIO :: "event_thread \<Rightarrow> nat \<times> event_thread" where
  "NewEIO t =
     (case take_item ei_per_alloc (eio_items t, eio_freelist t) of (ei, st, free) \<Rightarrow>
        (ei, t\<lparr>eio_items := st, eio_freelist := free\<rparr>))"

definition FreeEIO :: "nat \<Rightarrow> event_thread \<Rightarrow> event_thread" where
  "FreeEIO ei t =
     (case give_item ei (eio_items t, eio_freelist t) of (st, free) \<Rightarrow>
        t\<lparr>eio_items := st, eio_freelist := free\<rparr>)"

definition PushEIO :: "nat \<Rightarrow> event_thread \<Rightarrow> event_thread" where
  "PushEIO ei t =
     (case link_tail ei (eio_items t, eio_uselist t) of (st, q) \<Rightarrow>
        t\<lparr>eio_items := st, eio_uselist := q\<rparr>)"

definition PopEIO :: "event_thread \<Rightarrow> nat option \<times> event_thread" where
  "PopEIO t =
     (case unlink_head (eio_items t, eio_uselist t) of (ei, q) \<Rightarrow> (ei, t\<lparr>eio_uselist := q\<rparr>))"

text \<open>\<open>cfd\<close> is the result of \<open>Accept\<close>, \<open>err\<close> the test of \<open>EV_ERROR\<close>.\<close>

definition AcceptCb :: "bool \<Rightarrow> int \<Rightarrow> event_thread \<Rightarrow> event_thread" where
  "AcceptCb err cfd t =
     (if err then t
      else if cfd < 0 then t
      else
        (case NewEIO t of (ei, t) \<Rightarrow>
           PushEIO ei (t\<lparr>eio_items := set_content ei \<lparr>w_fd = cfd, w_active = True\<rparr> (eio_items t)\<rparr>)))"

text \<open>
  \<open>ProcessCb\<close> on the item \<open>a\<close> whose watcher libev found readable; the first result is the
  descriptor handed to the handler. The item freed is the oldest one in use.
\<close>

definition ProcessCb :: "bool \<Rightarrow> nat \<Rightarrow> event_thread \<Rightarrow> fault + (int option \<times> event_thread)" where
  "ProcessCb err a t =
     (if err then Inr (None, t)
      else
        (case value_at (eio_items t) a of
           None \<Rightarrow> Inl UseAfterFree
         | Some w \<Rightarrow>
             (let t = t\<lparr>eio_items := set_content a (w\<lparr>w_active := False\<rparr>) (eio_items t)\<rparr>
              in case PopEIO t of
                   (None, _) \<Rightarrow> Inl NullDeref
                 | (Some ei, t) \<Rightarrow> Inr (Some (w_fd w), FreeEIO ei t))))"

subsection \<open>Runs\<close>

text \<open>A readable event for an address that libev does not watch does not happen.\<close>

datatype conn_event = NewConn int | Readable nat

definition watched :: "event_thread \<Rightarrow> nat \<Rightarrow> bool" where
  "watched t a \<longleftrightarrow> (case value_at (eio_items t) a of None \<Rightarrow> False | Some w \<Rightarrow> w_active w)"

definition conn_step :: "conn_event \<Rightarrow> event_thread \<Rightarrow> fault + (int list \<times> event_thread)" where
  "conn_step e t =
     (case e of
        NewConn cfd \<Rightarrow> Inr ([], AcceptCb False cfd t)
      | Readable a \<Rightarrow>
          if \<not> watched t a then Inr ([], t)
          else (case ProcessCb False a t of
                  Inl f \<Rightarrow> Inl f
                | Inr (r, t) \<Rightarrow> Inr (case r of None \<Rightarrow> [] | Some fd \<Rightarrow> [fd], t)))"

primrec conn_run :: "conn_event list \<Rightarrow> event_thread \<Rightarrow> fault + (int list \<times> event_thread)" where
  "conn_run [] t = Inr ([], t)"
| "conn_run (e # es) t =
     (case conn_step e t of
        Inl f \<Rightarrow> Inl f
      | Inr (out, t) \<Rightarrow> (case conn_run es t of Inl f \<Rightarrow> Inl f | Inr (outs, t) \<Rightarrow> Inr (out @ outs, t)))"

text \<open>
  \<open>InitializeService\<close> opens the listening socket and the event loop, \<open>Run\<close> works through the events of the
  loop. Without a loop it returns at once; \<open>RpcServer::Start\<close> does not look at the first result.
\<close>

record accept_loop =
  loop_set :: bool
  listen_on :: "int option"

definition InitializeService ::
  "listen_try list option \<Rightarrow> (int \<Rightarrow> int) \<Rightarrow> bool \<Rightarrow> accept_loop \<Rightarrow> bool \<times> accept_loop" where
  "InitializeService addrs listen_call loop_ok l =
     (let listenfd = fst (TcpListen addrs listen_call) in
      if listenfd < 0 then (False, l)
      else if \<not> loop_ok then (False, l\<lparr>loop_set := False\<rparr>)
      else (True, l\<lparr>loop_set := True, listen_on := Some listenfd\<rparr>))"

definition DispatchThread_Run ::
  "conn_event list \<Rightarrow> accept_loop \<Rightarrow> event_thread \<Rightarrow> fault + (int list \<times> accept_loop \<times> event_thread)" where
  "DispatchThread_Run es l t =
     (if \<not> loop_set l then Inr ([], l, t)
      else map_sum id (\<lambda>(out, t). (out, l\<lparr>loop_set := False\<rparr>, t)) (conn_run es t))"

text \<open>Every readable event is for the connection accepted first among those in use.\<close>

primrec in_order :: "conn_event list \<Rightarrow> event_thread \<Rightarrow> bool" where
  "in_order [] t \<longleftrightarrow> True"
| "in_order (e # es) t \<longleftrightarrow>
     (case e of NewConn cfd \<Rightarrow> True | Readable a \<Rightarrow> head (eio_uselist t) = Some a) \<and>
     (case conn_step e t of Inl f \<Rightarrow> True | Inr (out, t) \<Rightarrow> in_order es t)"

definition accepted :: "conn_event list \<Rightarrow> int list" where
  "accepted es = concat (map (\<lambda>e. case e of NewConn cfd \<Rightarrow> if cfd < 0 then [] else [cfd] | Readable _ \<Rightarrow> []) es)"

subsection \<open>Invariants\<close>

text \<open>
  At most as many items are watched as are in use (\<open>as\<close>), and every item of the blocks allocated so far is
  in use or free (\<open>fs\<close>).
\<close>

definition conns_inv :: "event_thread \<Rightarrow> nat list \<Rightarrow> nat list \<Rightarrow> bool" where
  "conns_inv t fs as \<longleftrightarrow>
     pool_ok (eio_items t, eio_freelist t) fs \<and> queue_of (eio_items t, eio_uselist t) as \<and>
     distinct (fs @ as) \<and> finite {a. watched t a} \<and> card {a. watched t a} \<le> length as \<and>
     set (fs @ as) = {1..<brk (eio_items t)} \<and> brk (eio_items t) mod ei_per_alloc = 1"

lemma conns_inv_new: "conns_inv DispatchThread_new [] []"
  by (simp add: conns_inv_def DispatchThread_new_def pool_ok_def queue_of_def empty_store_def
      live_def watched_def value_at_def ei_per_alloc_def)

lemma AcceptCb_cases:
  assumes inv: "pool_ok (eio_items t, eio_freelist t) fs" "queue_of (eio_items t, eio_uselist t) as"
    "distinct (fs @ as)" and cfd: "0 \<le> cfd"
  defines "t' \<equiv> AcceptCb False cfd t"
  obtains a fs' where "pool_ok (eio_items t', eio_freelist t') fs'"
    "queue_of (eio_items t', eio_uselist t') (as @ [a])" "distinct (fs' @ as @ [a])"
    "value_at (eio_items t') a = Some \<lparr>w_fd = cfd, w_active = True\<rparr>"
    "\<And>b. b \<noteq> a \<Longrightarrow> value_at (eio_items t') b = value_at (eio_items t) b"
    "insert a (set fs') = set fs \<union> {brk (eio_items t)..<brk (eio_items t')}"
    "brk (eio_items t') \<in> {brk (eio_items t), brk (eio_items t) + ei_per_alloc}"
proof -
  obtain a st1 free' st2 q' fs' where
    "take_item ei_per_alloc (eio_items t, eio_freelist t) = (a, st1, free')"
    "link_tail a (set_content a \<lparr>w_fd = cfd, w_active = True\<rparr> st1, eio_uselist t) = (st2, q')"
    "pool_ok (st2, free') fs'" "queue_of (st2, q') (as @ [a])" "distinct (fs' @ as @ [a])" "live st2 a"
    "value_at st2 a = Some \<lparr>w_fd = cfd, w_active = True\<rparr>"
    "\<And>b. b \<noteq> a \<Longrightarrow> value_at st2 b = value_at (eio_items t) b"
    "insert a (set fs') = set fs \<union> {brk (eio_items t)..<brk st2}"
    "brk st2 \<in> {brk (eio_items t), brk (eio_items t) + ei_per_alloc}"
    by (rule take_link_ok [OF inv, of ei_per_alloc]) (simp add: ei_per_alloc_def, blast)
  moreover from calculation(1,2) cfd
  have "eio_items t' = st2" "eio_freelist t' = free'" "eio_uselist t' = q'"
    by (simp_all add: t'_def AcceptCb_def NewEIO_def PushEIO_def)
  ultimately show ?thesis by (intro that [of fs' a]) simp_all
qed

lemma AcceptCb_rejected: "cfd < 0 \<Longrightarrow> AcceptCb False cfd t = t"
  by (simp add: AcceptCb_def)

lemma AcceptCb_inv:
  assumes "conns_inv t fs as"
  shows "\<exists>fs as. conns_inv (AcceptCb False cfd t) fs as"
proof (cases "cfd < 0")
  case True
  with assms show ?thesis by (auto simp: AcceptCb_rejected)
next
  case False
  let ?t = "AcceptCb False cfd t"
  obtain a fs' where a: "pool_ok (eio_items ?t, eio_freelist ?t) fs'"
    "queue_of (eio_items ?t, eio_uselist ?t) (as @ [a])" "distinct (fs' @ as @ [a])"
    "\<And>b. b \<noteq> a \<Longrightarrow> value_at (eio_items ?t) b = value_at (eio_items t) b"
    and cover: "insert a (set fs') = set fs \<union> {brk (eio_items t)..<brk (eio_items ?t)}"
    "brk (eio_items ?t) \<in> {brk (eio_items t), brk (eio_items t) + ei_per_alloc}"
    by (rule AcceptCb_cases [of t fs as cfd]) (use assms False in \<open>auto simp: conns_inv_def\<close>)
  have old: "set fs \<union> set as = {1..<brk (eio_items t)}" "brk (eio_items t) mod ei_per_alloc = 1"
    using assms by (simp_all add: conns_inv_def)
  then have pos: "1 \<le> brk (eio_items t)" by (cases "brk (eio_items t)") simp_all
  have "set fs' \<union> insert a (set as) = set fs \<union> set as \<union> {brk (eio_items t)..<brk (eio_items ?t)}"
    using cover(1) by blast
  also have "\<dots> = {1..<brk (eio_items ?t)}" unfolding old(1) using pos cover(2) by auto
  finally have set_eq: "set fs' \<union> insert a (set as) = {1..<brk (eio_items ?t)}" .
  have mod_eq: "brk (eio_items ?t) mod ei_per_alloc = 1" using cover(2) old(2) by auto
  have fin: "finite {b. watched t b}" and card: "card {b. watched t b} \<le> length as"
    using assms by (simp_all add: conns_inv_def)
  have sub: "{b. watched ?t b} \<subseteq> insert a {b. watched t b}"
    using a(4) by (auto simp: watched_def)
  have "card {b. watched ?t b} \<le> card (insert a {b. watched t b})"
    by (rule card_mono) (use fin sub in auto)
  also have "\<dots> \<le> Suc (card {b. watched t b})" by (rule card_insert_le_m1) simp_all
  finally have "card {b. watched ?t b} \<le> length (as @ [a])" using card by simp
  moreover have "finite {b. watched ?t b}" by (rule finite_subset [OF sub]) (simp add: fin)
  ultimately have "conns_inv ?t fs' (as @ [a])" using a set_eq mod_eq by (simp add: conns_inv_def)
  then show ?thesis by blast
qed

text \<open>A readable connection: its own watcher stops, the oldest item in use becomes free.\<close>

lemma ProcessCb_cases:
  assumes q: "queue_of (eio_items t, eio_uselist t) (e # as)"
    and pool: "pool_ok (eio_items t, eio_freelist t) fs" and d: "distinct (fs @ e # as)"
    and v: "value_at (eio_items t) a = Some w"
  obtains t' where "ProcessCb False a t = Inr (Some (w_fd w), t')"
    "queue_of (eio_items t', eio_uselist t') as" "pool_ok (eio_items t', eio_freelist t') (e # fs)"
    "\<And>b. value_at (eio_items t') b =
      (if b = a then Some (w\<lparr>w_active := False\<rparr>) else value_at (eio_items t) b)"
    "brk (eio_items t') = brk (eio_items t)"
proof -
  let ?st = "set_content a (w\<lparr>w_active := False\<rparr>) (eio_items t)"
  have q1: "queue_of (?st, eio_uselist t) (e # as)" using q by simp
  obtain q' where u: "unlink_head (?st, eio_uselist t) = (Some e, q')"
    using queue_of_unlink(1) [OF q1] by (cases "unlink_head (?st, eio_uselist t)") auto
  have q': "queue_of (?st, q') as" using queue_of_unlink(2) [OF q1] u by simp
  have live_e: "live ?st e" using queue_of_live [OF q1, of e] by simp
  have live_a: "live (eio_items t) a"
    using v dead_value [of "eio_items t" a] by (cases "live (eio_items t) a") simp_all
  let ?t' = "t\<lparr>eio_items := set_next e (eio_freelist t) ?st, eio_freelist := Some e, eio_uselist := q'\<rparr>"
  have "ProcessCb False a t = Inr (Some (w_fd w), ?t')"
    using v u by (simp add: ProcessCb_def PopEIO_def FreeEIO_def give_item_def)
  moreover have "queue_of (set_next e (eio_freelist t) ?st, q') as"
    by (rule queue_of_cong [OF q']) (use d in \<open>auto simp: get_next_set_next\<close>)
  moreover have "pool_ok (set_next e (eio_freelist t) ?st, Some e) (e # fs)"
    using give_item_ok [of ?st "eio_freelist t" fs e] pool d live_e by (simp add: give_item_def)
  moreover have "value_at (set_next e (eio_freelist t) ?st) b =
      (if b = a then Some (w\<lparr>w_active := False\<rparr>) else value_at (eio_items t) b)" for b
    using live_a by (simp add: value_set_content)
  ultimately show ?thesis by (intro that [of ?t']) simp_all
qed

lemma ProcessCb_inv:
  assumes inv: "conns_inv t fs as" and a: "watched t a"
  obtains t' fd fs' as' where "ProcessCb False a t = Inr (Some fd, t')" "conns_inv t' fs' as'"
proof -
  have fin: "finite {b. watched t b}" and card: "card {b. watched t b} \<le> length as"
    using inv by (simp_all add: conns_inv_def)
  have "{b. watched t b} \<noteq> {}" using a by blast
  with fin card have "as \<noteq> []" by (auto simp: card_gt_0_iff)
  then obtain e es where as: "as = e # es" by (auto simp: neq_Nil_conv)
  obtain w where w: "value_at (eio_items t) a = Some w"
    using a by (auto simp: watched_def split: option.splits)
  obtain t' where t': "ProcessCb False a t = Inr (Some (w_fd w), t')"
    "queue_of (eio_items t', eio_uselist t') es" "pool_ok (eio_items t', eio_freelist t') (e # fs)"
    "\<And>b. value_at (eio_items t') b =
      (if b = a then Some (w\<lparr>w_active := False\<rparr>) else value_at (eio_items t) b)"
    "brk (eio_items t') = brk (eio_items t)"
    by (rule ProcessCb_cases [of t e es fs a w]) (use inv as w in \<open>auto simp: conns_inv_def\<close>)
  have "{b. watched t' b} = {b. watched t b} - {a}"
    by (auto simp: watched_def t'(4))
  moreover from this have "card {b. watched t' b} \<le> length es"
    using card as a fin by (simp add: card_Diff_singleton)
  ultimately have "conns_inv t' (e # fs) es"
    using inv t'(2,3,5) as fin by (auto simp: conns_inv_def)
  with t'(1) show ?thesis by (rule that)
qed

lemma conn_step_inv:
  assumes "conns_inv t fs as"
  obtains out t' fs' as' where "conn_step e t = Inr (out, t')" "conns_inv t' fs' as'"
proof (cases e)
  case (NewConn cfd)
  obtain fs' as' where "conns_inv (AcceptCb False cfd t) fs' as'"
    using AcceptCb_inv [OF assms] by blast
  then show ?thesis by (rule that [rotated]) (simp add: NewConn conn_step_def)
next
  case (Readable a)
  show ?thesis
  proof (cases "watched t a")
    case True
    obtain t' fd fs' as' where p: "ProcessCb False a t = Inr (Some fd, t')" "conns_inv t' fs' as'"
      by (rule ProcessCb_inv [OF assms True])
    then show ?thesis by (intro that [OF _ p(2)]) (simp add: Readable True conn_step_def)
  next
    case False
    then show ?thesis by (intro that [OF _ assms]) (simp add: Readable conn_step_def)
  qed
qed

lemma conn_run_total: "conns_inv t fs as \<Longrightarrow> \<exists>out t'. conn_run es t = Inr (out, t')"
proof (induction es arbitrary: t fs as)
  case (Cons e es)
  obtain out t1 fs1 as1 where "conn_step e t = Inr (out, t1)" "conns_inv t1 fs1 as1"
    by (rule conn_step_inv [OF Cons.prems])
  with Cons.IH [OF this(2)] show ?case by auto
qed simp

subsection \<open>Connections served in the order of their acceptance\<close>

definition fd_of :: "event_thread \<Rightarrow> nat \<Rightarrow> int" where
  "fd_of t a = (case value_at (eio_items t) a of None \<Rightarrow> -1 | Some w \<Rightarrow> w_fd w)"

definition conns_exact :: "event_thread \<Rightarrow> nat list \<Rightarrow> nat list \<Rightarrow> bool" where
  "conns_exact t fs as \<longleftrightarrow>
     pool_ok (eio_items t, eio_freelist t) fs \<and> queue_of (eio_items t, eio_uselist t) as \<and>
     distinct (fs @ as) \<and> (\<forall>a. watched t a \<longleftrightarrow> a \<in> set as)"

lemma conns_exact_new: "conns_exact DispatchThread_new [] []"
  by (simp add: conns_exact_def DispatchThread_new_def pool_ok_def queue_of_def empty_store_def
      live_def watched_def value_at_def)

lemma exact_step:
  assumes ex: "conns_exact t fs as"
    and o: "case e of NewConn cfd \<Rightarrow> True | Readable a \<Rightarrow> head (eio_uselist t) = Some a"
  obtains out t' fs' as' where "conn_step e t = Inr (out, t')" "conns_exact t' fs' as'"
    "out @ map (fd_of t') as' = map (fd_of t) as @ accepted [e]"
proof (cases e)
  case (NewConn cfd)
  show ?thesis
  proof (cases "cfd < 0")
    case True
    with NewConn ex show ?thesis
      by (intro that [of "[]" t fs as]) (simp_all add: conn_step_def AcceptCb_rejected accepted_def)
  next
    case False
    let ?t = "AcceptCb False cfd t"
    obtain a fs' where a: "pool_ok (eio_items ?t, eio_freelist ?t) fs'"
      "queue_of (eio_items ?t, eio_uselist ?t) (as @ [a])" "distinct (fs' @ as @ [a])"
      "value_at (eio_items ?t) a = Some \<lparr>w_fd = cfd, w_active = True\<rparr>"
      "\<And>b. b \<noteq> a \<Longrightarrow> value_at (eio_items ?t) b = value_at (eio_items t) b"
      by (rule AcceptCb_cases [of t fs as cfd]) (use ex False in \<open>auto simp: conns_exact_def\<close>)
    have w: "watched ?t b \<longleftrightarrow> b = a \<or> watched t b" for b
      using a(4,5) by (cases "b = a") (auto simp: watched_def)
    have "conns_exact ?t fs' (as @ [a])"
      using a(1-3) ex by (auto simp: conns_exact_def w)
    moreover have "map (fd_of ?t) as = map (fd_of t) as"
    proof (rule map_cong [OF refl])
      fix b assume "b \<in> set as"
      with a(3) have "b \<noteq> a" by auto
      then show "fd_of ?t b = fd_of t b" by (simp add: fd_of_def a(5))
    qed
    moreover have "fd_of ?t a = cfd" using a(4) by (simp add: fd_of_def)
    ultimately show ?thesis using NewConn False
      by (intro that [of "[]" ?t fs' "as @ [a]"]) (simp_all add: conn_step_def accepted_def)
  qed
next
  case (Readable a)
  with o ex obtain es where as: "as = a # es"
    by (cases as) (auto simp: conns_exact_def queue_of_def)
  with ex have wa: "watched t a" by (simp add: conns_exact_def)
  then obtain w where w: "value_at (eio_items t) a = Some w"
    by (auto simp: watched_def split: option.splits)
  obtain t' where t': "ProcessCb False a t = Inr (Some (w_fd w), t')"
    "queue_of (eio_items t', eio_uselist t') es" "pool_ok (eio_items t', eio_freelist t') (a # fs)"
    "\<And>b. value_at (eio_items t') b =
      (if b = a then Some (w\<lparr>w_active := False\<rparr>) else value_at (eio_items t) b)"
    by (rule ProcessCb_cases [of t a es fs a w]) (use ex as w in \<open>auto simp: conns_exact_def\<close>)
  have "watched t' b \<longleftrightarrow> b \<noteq> a \<and> watched t b" for b
    by (simp add: watched_def t'(4))
  then have "conns_exact t' (a # fs) es"
    using ex t'(2,3) as by (auto simp: conns_exact_def)
  moreover have "map (fd_of t') es = map (fd_of t) es"
    using ex as by (intro map_cong) (auto simp: fd_of_def t'(4) conns_exact_def)
  moreover have "fd_of t a = w_fd w" by (simp add: fd_of_def w)
  ultimately show ?thesis using Readable wa t'(1) as
    by (intro that [of "[w_fd w]" t' "a # fs" es]) (simp_all add: conn_step_def accepted_def)
qed

lemma accepted_Cons: "accepted (e # es) = accepted [e] @ accepted es"
  by (simp add: accepted_def)

lemma exact_run:
  "conns_exact t fs as \<Longrightarrow> in_order es t \<Longrightarrow>
   \<exists>out t' fs' as'. conn_run es t = Inr (out, t') \<and> conns_exact t' fs' as' \<and>
     out @ map (fd_of t') as' = map (fd_of t) as @ accepted es"
proof (induction es arbitrary: t fs as)
  case Nil
  then show ?case by (auto simp: accepted_def)
next
  case (Cons e es)
  obtain out t1 fs1 as1 where st: "conn_step e t = Inr (out, t1)" "conns_exact t1 fs1 as1"
    "out @ map (fd_of t1) as1 = map (fd_of t) as @ accepted [e]"
    by (rule exact_step [OF Cons.prems(1)]) (use Cons.prems(2) in auto)
  with Cons.prems(2) have "in_order es t1" by simp
  from Cons.IH [OF st(2) this] obtain outs t2 fs2 as2 where rn: "conn_run es t1 = Inr (outs, t2)"
    "conns_exact t2 fs2 as2" "outs @ map (fd_of t2) as2 = map (fd_of t1) as1 @ accepted es" by blast
  have "(out @ outs) @ map (fd_of t2) as2 = map (fd_of t) as @ accepted (e # es)"
    using st(3) rn(3) by (metis accepted_Cons append.assoc)
  with st(1) rn(1,2) show ?case by fastforce
qed

subsection \<open>Properties\<close>

text \<open>The list of items in use never runs empty under a watched connection: whatever connections
  are accepted and whichever of them become readable, in any order, no callback goes through a null
  pointer.\<close>

theorem connections_never_fault:
  "\<exists>out t. conn_run es DispatchThread_new = Inr (out, t)"
  by (rule conn_run_total [OF conns_inv_new])

text \<open>C27: Connections that become readable in the order of their acceptance are all served. As long as
  every readable connection is the oldest one in use, the descriptors handed to the handler, followed by
  those of the items in use, are the accepted descriptors in order, and libev watches exactly the
  items in use.\<close>

theorem in_order_connections_served:
  assumes "in_order es DispatchThread_new"
  shows "\<exists>out t as. conn_run es DispatchThread_new = Inr (out, t) \<and>
    out @ map (fd_of t) as = accepted es \<and> (\<forall>a. watched t a \<longleftrightarrow> a \<in> set as)"
  using exact_run [OF conns_exact_new assms] by (fastforce simp: conns_exact_def)

theorem in_order_connections_served_witness:
  "\<exists>out t as. conn_run [NewConn 5, NewConn 6, Readable 1] DispatchThread_new = Inr (out, t) \<and>
    out @ map (fd_of t) as = accepted [NewConn 5, NewConn 6, Readable 1] \<and>
    (\<forall>a. watched t a \<longleftrightarrow> a \<in> set as)"
  by (rule in_order_connections_served) code_simp

text \<open>A connection overtaken by a later one can be lost. Of two waiting connections the second
  becomes readable first: its callback gives back the item of the first, whose watcher is still active,
  and the next accepted connection overwrites it. The first descriptor has not been handed to the
  handler and libev no longer watches it.\<close>

theorem overtaken_connection_lost:
  assumes "0 \<le> f1" "0 \<le> f2" "0 \<le> f3"
  shows "\<exists>t. conn_run [NewConn f1, NewConn f2, Readable 2, NewConn f3] DispatchThread_new = Inr ([f2], t) \<and>
    watched t 1 \<and> fd_of t 1 = f3 \<and> (\<forall>a. watched t a \<longrightarrow> a = 1)"
  using assms
  by (simp add: DispatchThread_new_def conn_step_def AcceptCb_def NewEIO_def take_item_def
      alloc_block_def empty_store_def ei_per_alloc_def numeral_eq_Suc set_next_def set_content_def
      PushEIO_def link_tail_def Let_def watched_def value_at_def fd_of_def ProcessCb_def PopEIO_def
      unlink_head_def get_next_def FreeEIO_def give_item_def)

theorem overtaken_connection_lost_witness:
  "\<exists>t. conn_run [NewConn 5, NewConn 6, Readable 2, NewConn 7] DispatchThread_new = Inr ([6], t) \<and>
    watched t 1 \<and> fd_of t 1 = 7 \<and> (\<forall>a. watched t a \<longrightarrow> a = 1)"
  by (rule overtaken_connection_lost) simp_all

end
