(* ===== verification/CenterServer.thy ===== *)
theory CenterServer
  imports CenterSafety EventThreads
begin

section \<open>The center's accepting thread and its reporter\<close>

text \<open>
  \<open>CenterServerThread\<close> (rpc\_center/center\_server\_thread.cpp) has the connections of theory
  EventThreads and hands a readable one to \<open>RpcCenter::CenterProcessor\<close>; \<open>ReporterThread\<close>
  (rpc\_center/reporter\_thread.cpp) reports to the leader in a loop and starts an election when it
  cannot be reached. Both work on the center of theory RpcCenter and its environment.
\<close>

subsection \<open>CenterServerThread\<close>

text \<open>The constructor leaves \<open>eio_freelist_\<close> as it finds it in memory.\<close>

definition CenterServerThread_new :: "nat option \<Rightarrow> event_thread" where
  "CenterServerThread_new garbage = DispatchThread_new\<lparr>eio_freelist := garbage\<rparr>"

definition NewCEIO :: "event_thread \<Rightarrow> nat \<times> event_thread" where
  "NewCEIO t =
     (case take_item ei_per_alloc (eio_items t, eio_freelist t) of (ei, st, free) \<Rightarrow>
        (ei, t\<lparr>eio_items := st, eio_freelist := free\<rparr>))"

definition FreeCEIO :: "nat \<Rightarrow> event_thread \<Rightarrow> event_thread" where
  "FreeCEIO ei t =
     (case give_item ei (eio_items t, eio_freelist t) of (st, free) \<Rightarrow>
        t\<lparr>eio_items := st, eio_freelist := free\<rparr>)"

definition PushCEIO :: "nat \<Rightarrow> event_thread \<Rightarrow> event_thread" where
  "PushCEIO ei t =
     (case link_tail ei (eio_items t, eio_uselist t) of (st, q) \<Rightarrow>
        t\<lparr>eio_items := st, eio_uselist := q\<rparr>)"

definition PopCEIO :: "event_thread \<Rightarrow> nat option \<times> event_thread" where
  "PopCEIO t =
     (case unlink_head (eio_items t, eio_uselist t) of (ei, q) \<Rightarrow> (ei, t\<lparr>eio_uselist := q\<rparr>))"

definition CenterServer_AcceptCb :: "bool \<Rightarrow> int \<Rightarrow> event_thread \<Rightarrow> event_thread" where
  "CenterServer_AcceptCb err cfd t =
     (if err then t
      else if cfd < 0 then t
      else
        (case NewCEIO t of (ei, t) \<Rightarrow>
           PushCEIO ei (t\<lparr>eio_items := set_content ei \<lparr>w_fd = cfd, w_active = True\<rparr> (eio_items t)\<rparr>)))"

text \<open>
  \<open>Processor\<close>: the center handles the request and the connection is closed, whatever became of it;
  then the watcher stops and the oldest item in use is freed.
\<close>

definition CenterServer_Processor ::
  "center_env \<Rightarrow> bool \<Rightarrow> nat \<Rightarrow> event_thread \<Rightarrow> rpc_center \<Rightarrow> fault + (event_thread \<times> rpc_center)" where
  "CenterServer_Processor env err a t c =
     (if err then Inr (t, c)
      else
        (case value_at (eio_items t) a of
           None \<Rightarrow> Inl UseAfterFree
         | Some w \<Rightarrow>
             (case CenterProcessor env (w_fd w) c of
                Inl f \<Rightarrow> Inl f
              | Inr (_, c) \<Rightarrow>
                  (let c = close_fd (w_fd w) c;
                       t = t\<lparr>eio_items := set_content a (w\<lparr>w_active := False\<rparr>) (eio_items t)\<rparr>
                   in case PopCEIO t of
                        (None, _) \<Rightarrow> Inl NullDeref
                      | (Some ci, t) \<Rightarrow> Inr (FreeCEIO ci t, c)))))"

text \<open>The lists are those of the other thread, so its lemmas hold here too.\<close>

lemma ceio_same: "NewCEIO = NewEIO" "FreeCEIO = FreeEIO" "PushCEIO = PushEIO" "PopCEIO = PopEIO"
    "CenterServer_AcceptCb = AcceptCb"
  by (simp_all add: fun_eq_iff NewCEIO_def NewEIO_def FreeCEIO_def FreeEIO_def PushCEIO_def PushEIO_def
      PopCEIO_def PopEIO_def CenterServer_AcceptCb_def AcceptCb_def)

lemma CenterServer_Processor_alt:
  "CenterServer_Processor env False a t c =
     (case value_at (eio_items t) a of
        None \<Rightarrow> Inl UseAfterFree
      | Some w \<Rightarrow>
          (case CenterProcessor env (w_fd w) c of
             Inl f \<Rightarrow> Inl f
           | Inr (_, c) \<Rightarrow>
               (case ProcessCb False a t of
                  Inl f \<Rightarrow> Inl f
                | Inr (_, t) \<Rightarrow> Inr (t, close_fd (w_fd w) c))))"
  by (auto simp: CenterServer_Processor_def ProcessCb_def ceio_same Let_def split: option.split sum.split prod.split)

definition InitCenterServer ::
  "listen_try list option \<Rightarrow> (int \<Rightarrow> int) \<Rightarrow> bool \<Rightarrow> accept_loop \<Rightarrow> bool \<times> accept_loop" where
  "InitCenterServer addrs listen_call loop_ok l =
     (let listenfd = fst (TcpListen addrs listen_call) in
      if listenfd < 0 then (False, l)
      else if \<not> loop_ok then (False, l\<lparr>loop_set := False\<rparr>)
      else (True, l\<lparr>loop_set := True, listen_on := Some listenfd\<rparr>))"

primrec center_conn_run ::
  "center_env \<Rightarrow> conn_event list \<Rightarrow> event_thread \<Rightarrow> rpc_center \<Rightarrow> fault + (event_thread \<times> rpc_center)" where
  "center_conn_run env [] t c = Inr (t, c)"
| "center_conn_run env (e # es) t c =
     (case e of
        NewConn cfd \<Rightarrow> center_conn_run env es (CenterServer_AcceptCb False cfd t) c
      | Readable a \<Rightarrow>
          if \<not> watched t a then center_conn_run env es t c
          else (case CenterServer_Processor env False a t c of
                  Inl f \<Rightarrow> Inl f
                | Inr (t, c) \<Rightarrow> center_conn_run env es t c))"

definition CenterServerThread_Run ::
  "center_env \<Rightarrow> listen_try list option \<Rightarrow> (int \<Rightarrow> int) \<Rightarrow> bool \<Rightarrow> conn_event list \<Rightarrow> accept_loop \<Rightarrow> event_thread \<Rightarrow>
   rpc_center \<Rightarrow> fault + (accept_loop \<times> event_thread \<times> rpc_center)" where
  "CenterServerThread_Run env addrs listen_call loop_ok es l t c =
     (case InitCenterServer addrs listen_call loop_ok l of (ok, l) \<Rightarrow>
        if \<not> ok \<or> \<not> loop_set l then Inr (l, t, c)
        else map_sum id (\<lambda>(t, c). (l\<lparr>loop_set := False\<rparr>, t, c)) (center_conn_run env es t c))"

subsection \<open>ReporterThread\<close>

text \<open>A null pointer is \<open>None\<close>. The blocks for address and port are allocated and never written: what
  they hold is an argument.\<close>

record reporter =
  rep_addr :: "string option"
  rep_port :: "string option"
  rep_fd :: int
  reporter_running :: bool
  rep_thread :: thread

definition ReporterThread_new :: "int \<Rightarrow> reporter" where
  "ReporterThread_new garbage =
     \<lparr>rep_addr = None, rep_port = None, rep_fd = garbage, reporter_running = False, rep_thread = Thread_new\<rparr>"

text \<open>The result also has the descriptor closed, if any.\<close>

definition StartReporter ::
  "string \<Rightarrow> string \<Rightarrow> bool \<Rightarrow> bool \<Rightarrow> reporter \<Rightarrow> (bool \<times> int option) \<times> reporter" where
  "StartReporter junk_addr junk_port cancel_ok create_ok r =
     (let (closed, r) = (if reporter_running r
            then (Some (rep_fd r), r\<lparr>rep_thread := snd (Stop cancel_ok (rep_thread r))\<rparr>)
            else (None, r));
          r = r\<lparr>rep_addr := Some junk_addr, rep_port := Some junk_port, reporter_running := True\<rparr>
      in ((True, closed), r\<lparr>rep_thread := snd (Start create_ok (rep_thread r))\<rparr>))"

definition reporter_connect :: "center_env \<Rightarrow> reporter \<Rightarrow> rpc_center \<Rightarrow> fault + (reporter \<times> rpc_center)" where
  "reporter_connect env r c =
     (case rep_addr r of
        None \<Rightarrow> Inl NullDeref
      | Some addr \<Rightarrow>
          (let fd = connects env (length (trace c)) addr (rep_port r)
           in Inr (r\<lparr>rep_fd := fd\<rparr>, effect (Connect addr fd) c)))"

text \<open>
  One round of \<open>Run\<close>'s loop with its counters. The boolean says whether the loop goes on.
\<close>

definition reporter_round ::
  "center_env \<Rightarrow> int \<times> int \<Rightarrow> reporter \<Rightarrow> rpc_center \<Rightarrow> fault + (bool \<times> (int \<times> int) \<times> reporter \<times> rpc_center)" where
  "reporter_round env counters r c =
     (case counters of (failed_cnt, retry_time) \<Rightarrow>
        (case reporter_connect env r c of
           Inl f \<Rightarrow> Inl f
         | Inr (r, c) \<Rightarrow>
             (case (if failed_cnt > 0
                    then (case ReporterProcessor env (rep_fd r) c of
                            Inl f \<Rightarrow> Inl f
                          | Inr (ok, c) \<Rightarrow> Inr (if ok then failed_cnt else failed_cnt - 1, c))
                    else Inr (failed_cnt, c)) of
                Inl f \<Rightarrow> Inl f
              | Inr (failed_cnt, c) \<Rightarrow>
                  if failed_cnt \<le> 0 then
                    (case reporter_connect env r c of
                       Inl f \<Rightarrow> Inl f
                     | Inr (r, c) \<Rightarrow>
                         (let (failed_cnt, retry_time) =
                                (if rep_fd r < 0 then (failed_cnt, retry_time - 1) else (10, 3))
                          in if retry_time \<le> 0 then
                               (case StartFastLeaderElection env c of
                                  Inl f \<Rightarrow> Inl f
                                | Inr (_, c) \<Rightarrow>
                                    Inr (False, (failed_cnt, retry_time), r, close_fd (rep_fd r) c))
                             else Inr (True, (failed_cnt, retry_time), r, close_fd (rep_fd r) c)))
                  else Inr (True, (failed_cnt, retry_time), r, close_fd (rep_fd r) c))))"

text \<open>At most \<open>fuel\<close> rounds; \<open>True\<close> when the loop has been left.\<close>

primrec reporter_loop ::
  "center_env \<Rightarrow> nat \<Rightarrow> int \<times> int \<Rightarrow> reporter \<Rightarrow> rpc_center \<Rightarrow>
   fault + (bool \<times> (int \<times> int) \<times> reporter \<times> rpc_center)" where
  "reporter_loop env 0 counters r c = Inr (\<not> reporter_running r, counters, r, c)"
| "reporter_loop env (Suc fuel) counters r c =
     (if \<not> reporter_running r then Inr (True, counters, r, c)
      else
        (case reporter_round env counters r c of
           Inl f \<Rightarrow> Inl f
         | Inr (go_on, counters, r, c) \<Rightarrow>
             if go_on then reporter_loop env fuel counters r c else Inr (True, counters, r, c)))"

definition ReporterThread_Run ::
  "center_env \<Rightarrow> nat \<Rightarrow> reporter \<Rightarrow> rpc_center \<Rightarrow> fault + (bool \<times> (int \<times> int) \<times> reporter \<times> rpc_center)" where
  "ReporterThread_Run env fuel r c =
     (if \<not> reporter_running r then Inr (True, (10, 3), r, c)
      else reporter_loop env fuel (10, 3) r c)"

subsection \<open>Requests closed under the election thread\<close>

text \<open>An election request is closed before it is answered. When the accepting thread gets a message
  for the election thread, that thread's queue grows by the message with its descriptor, and the
  last effect of the callback is to close that very descriptor: the answer the election thread
  gives later is written to a closed descriptor, or to whatever has been opened under its number.\<close>

theorem election_request_closed_unanswered:
  assumes "value_at (eio_items t) a = Some w" "election_thread c = Some et" "holds_msgs et ms"
    and "receive_on env (w_fd w) c = Inr (100, m, c1)" "cp_of_string env m = Some p"
    and "center_action p \<in> {INQUIRY, PROPOSAL, ACCEPT, REFUSED, LEADER_CONFIRM}"
    and "CenterServer_Processor env False a t c = Inr (t', c')"
  shows "\<exists>et' tr. election_thread c' = Some et' \<and> holds_msgs et' (ms @ [(w_fd w, p)]) \<and>
    trace c' = tr @ [Close (w_fd w)]"
proof -
  obtain r where c1: "c1 = effect (Receive (w_fd w) r) c"
    using assms(4) by (auto simp: receive_on_def Let_def split: recv_outcome.splits)
  then have et: "election_thread c1 = Some et" using assms(2) by (simp add: effect_def)
  obtain et' where et': "PushElectionMessage (w_fd w) p et = Inr et'" "holds_msgs et' (ms @ [(w_fd w, p)])"
    using PushElectionMessage_holds [OF assms(3)] by blast
  have "ProcessCenterRequest env m (w_fd w) c1 = Inr (True, c1\<lparr>election_thread := Some et'\<rparr>)"
    using assms(5,6) et et'(1) by (simp add: ProcessCenterRequest_def)
  then have "CenterProcessor env (w_fd w) c = Inr (True, c1\<lparr>election_thread := Some et'\<rparr>)"
    using assms(4) by (simp add: CenterProcessor_def)
  then have "c' = close_fd (w_fd w) (c1\<lparr>election_thread := Some et'\<rparr>)"
    using assms(1,7) by (auto simp: CenterServer_Processor_alt Let_def split: sum.splits prod.splits)
  with et'(2) show ?thesis by (simp add: close_fd_def effect_def)
qed

theorem election_request_closed_unanswered_witness:
  "\<exists>t et p t' c' et' tr. p = CentersProto_default\<lparr>center_action := INQUIRY\<rparr> \<and>
     CenterServer_Processor (demo_env p) False 1 t ((RpcCenter_new (demo_env p) 9)\<lparr>election_thread := Some et\<rparr>) = Inr (t', c') \<and>
     election_thread c' = Some et' \<and> holds_msgs et' [(5, p)] \<and> trace c' = tr @ [Close 5]"
proof -
  let ?p = "CentersProto_default\<lparr>center_action := INQUIRY\<rparr>" and ?t = "AcceptCb False 5 DispatchThread_new"
  let ?c = "(RpcCenter_new (demo_env ?p) 9)\<lparr>election_thread := Some ElectionThread_new\<rparr>"
  have v: "value_at (eio_items ?t) 1 = Some \<lparr>w_fd = 5, w_active = True\<rparr>"
    by code_simp
  have th: "election_thread ?c = Some ElectionThread_new" by simp
  have m: "receive_on (demo_env ?p) (w_fd \<lparr>w_fd = 5, w_active = True\<rparr>) ?c =
      Inr (100, ''m'', effect (Receive 5 (Returned 100 ''m'' False [])) ?c)"
    by (simp add: demo_receive)
  have p: "cp_of_string (demo_env ?p) ''m'' = Some ?p" by (simp add: demo_env_def)
  obtain et' where et': "PushElectionMessage 5 ?p ElectionThread_new = Inr et'"
    using PushElectionMessage_holds [OF holds_msgs_new(1)] by blast
  obtain t' where t': "ProcessCb False 1 ?t = Inr (Some 5, t')"
  proof -
    have "isl (ProcessCb False 1 ?t) = False \<and> fst (projr (ProcessCb False 1 ?t)) = Some 5" by code_simp
    with that show thesis by (cases "ProcessCb False 1 ?t") auto
  qed
  obtain c' where run: "CenterServer_Processor (demo_env ?p) False 1 ?t ?c = Inr (t', c')"
    using m p et' v t' th
    by (simp add: CenterServer_Processor_alt CenterProcessor_def ProcessCenterRequest_def Let_def effect_def)
  from election_request_closed_unanswered [OF v th holds_msgs_new(1) m p _ run]
  obtain et2 tr where "election_thread c' = Some et2" "holds_msgs et2 [(5, ?p)]" "trace c' = tr @ [Close 5]"
    by auto
  with run show ?thesis by (intro exI [of _ ?t] exI [of _ ElectionThread_new] exI [of _ ?p] exI conjI) simp_all
qed

subsection \<open>An unreachable leader\<close>

text \<open>Two states of a center that differ in their effects only.\<close>

definition same_but_trace :: "rpc_center \<Rightarrow> rpc_center \<Rightarrow> bool" where
  "same_but_trace c c0 \<longleftrightarrow> c\<lparr>trace := trace c0\<rparr> = c0"

text \<open>Nobody listens at an address, and a \<open>send\<close> on a descriptor that is none fails. (A serialised message is
  not empty, and protobuf gives none of \<open>2 ^ 31\<close> bytes.)\<close>

definition unreachable :: "center_env \<Rightarrow> string \<Rightarrow> bool" where
  "unreachable env addr \<longleftrightarrow>
     (\<forall>n port. connects env n addr port < 0) \<and> (\<forall>n fd k. fd < 0 \<longrightarrow> sends env n fd k < 0) \<and>
     (\<forall>p str. cp_to_string env p = Some str \<longrightarrow> str \<noteq> [] \<and> length str < 2 ^ 31)"

lemma same_but_trace_simps [simp]:
  "same_but_trace c c" "same_but_trace (effect e c) c0 = same_but_trace c c0"
  "same_but_trace (close_fd fd c) c0 = same_but_trace c c0"
  by (simp_all add: same_but_trace_def effect_def close_fd_def)

lemma send_message_fails:
  assumes "\<forall>k. sys k < 0" "str \<noteq> []" "length str < 2 ^ 31"
  shows "ret (send_message sys code str b) < 0"
proof (cases "length str div (BODY_SIZE - 1)")
  case 0
  then have "length str mod (BODY_SIZE - 1) = length str" by (simp add: div_eq_0_iff)
  with 0 assms show ?thesis by (simp add: send_message_def Let_def block_num_eq fits_int_def)
next
  case (Suc k)
  moreover have "nat (1 + int k) = Suc k" by simp
  moreover have "send_blocks sys str 0 (Suc k) = (Send_failed, [])"
    using assms(1) by (simp add: fits_int_def Let_def)
  ultimately show ?thesis
    using assms by (auto simp: send_message_def Let_def block_num_eq simp del: send_blocks.simps)
qed

lemma ReporterProcessor_fails:
  assumes "unreachable env addr" "fd < 0"
  obtains c' where "ReporterProcessor env fd c = Inr (False, c')" "\<And>c0. same_but_trace c' c0 = same_but_trace c c0"
proof -
  have s: "ret (RpcSend (sends env n fd) (center_type_code CENTER2CENTER) str b) < 0"
    if "str \<noteq> []" "length str < 2 ^ 31" for n str b
    unfolding RpcSend_def using assms that
    by (simp add: send_message_fails unreachable_def Let_def)
  let ?p = "CentersProto_default\<lparr>from_center_addr := local_address env, center_action := FOLLOWER_PING,
      server_infos_list := (if rpc_server_buf c \<noteq> [] then visit_servers env (rpc_server_buf c) else [])\<rparr>"
  show ?thesis
  proof (cases "cp_to_string env ?p")
    case None
    then show ?thesis by (intro that [of c]) (simp_all add: ReporterProcessor_def Let_def)
  next
    case (Some str)
    then have "str \<noteq> []" "length str < 2 ^ 31" using assms(1) by (auto simp: unreachable_def)
    from s [OF this] Some show ?thesis
      by (intro that [of "snd (send_on env fd CENTER2CENTER str False c)"])
        (simp_all add: ReporterProcessor_def Let_def send_on_def)
  qed
qed

definition pinging :: "string \<Rightarrow> reporter \<Rightarrow> bool" where
  "pinging addr r \<longleftrightarrow> reporter_running r \<and> rep_addr r = Some addr"

lemma reporter_connect_fails:
  assumes "unreachable env addr" "pinging addr r"
  obtains r' c' where "reporter_connect env r c = Inr (r', c')" "pinging addr r'" "rep_fd r' < 0"
    "\<And>c0. same_but_trace c' c0 = same_but_trace c c0"
  using assms by (auto simp: pinging_def reporter_connect_def unreachable_def Let_def split: option.splits)

text \<open>A round while reports are still tried, and one that only reconnects.\<close>

lemma reporter_round_reporting:
  assumes "unreachable env addr" "pinging addr r" "1 < f"
  obtains r' c' where "reporter_round env (f, t) r c = Inr (True, (f - 1, t), r', c')" "pinging addr r'"
    "\<And>c0. same_but_trace c' c0 = same_but_trace c c0"
proof -
  obtain r1 c1 where 1: "reporter_connect env r c = Inr (r1, c1)" "pinging addr r1" "rep_fd r1 < 0"
    "\<And>c0. same_but_trace c1 c0 = same_but_trace c c0"
    by (rule reporter_connect_fails [OF assms(1,2), where c = c]) blast
  obtain c2 where 2: "ReporterProcessor env (rep_fd r1) c1 = Inr (False, c2)"
    "\<And>c0. same_but_trace c2 c0 = same_but_trace c1 c0"
    by (rule ReporterProcessor_fails [OF assms(1) 1(3), where c = c1]) blast
  show ?thesis
    by (rule that [of r1 "close_fd (rep_fd r1) c2"]) (use assms(3) 1 2 in \<open>simp_all add: reporter_round_def\<close>)
qed

lemma reporter_round_reconnecting:
  assumes "unreachable env addr" "pinging addr r" "f = 0 \<or> f = 1"
  obtains r' c' where "pinging addr r'" "\<And>c0. same_but_trace c' c0 = same_but_trace c c0"
    "reporter_round env (f, t) r c =
       (if t \<le> 1 then (case StartFastLeaderElection env c' of
            Inl f \<Rightarrow> Inl f | Inr (_, c2) \<Rightarrow> Inr (False, (0, t - 1), r', close_fd (rep_fd r') c2))
        else Inr (True, (0, t - 1), r', close_fd (rep_fd r') c'))"
proof -
  obtain r1 c1 where 1: "reporter_connect env r c = Inr (r1, c1)" "pinging addr r1" "rep_fd r1 < 0"
    "\<And>c0. same_but_trace c1 c0 = same_but_trace c c0"
    by (rule reporter_connect_fails [OF assms(1,2), where c = c]) blast
  obtain c2 where 2: "ReporterProcessor env (rep_fd r1) c1 = Inr (False, c2)"
    "\<And>c0. same_but_trace c2 c0 = same_but_trace c1 c0"
    by (rule ReporterProcessor_fails [OF assms(1) 1(3), where c = c1]) blast
  define c3 where "c3 = (if f = 1 then c2 else c1)"
  obtain r4 c4 where 4: "reporter_connect env r1 c3 = Inr (r4, c4)" "pinging addr r4" "rep_fd r4 < 0"
    "\<And>c0. same_but_trace c4 c0 = same_but_trace c3 c0"
    by (rule reporter_connect_fails [OF assms(1) 1(2), where c = c3]) blast
  have "\<And>c0. same_but_trace c4 c0 = same_but_trace c c0" using 1(4) 2(2) 4(4) by (simp add: c3_def)
  with 4(2) show ?thesis
    by (rule that) (use assms(3) 1 2 4 in \<open>auto simp: reporter_round_def c3_def\<close>)
qed

lemma reporter_loop_reporting:
  assumes "unreachable env addr" "pinging addr r" "n < 10"
  shows "\<exists>r' c'. pinging addr r' \<and> (\<forall>c0. same_but_trace c' c0 = same_but_trace c c0) \<and>
    (\<forall>k. reporter_loop env (n + k) (10, t) r c = reporter_loop env k (10 - int n, t) r' c')"
  using assms(3)
proof (induction n)
  case (Suc n)
  then obtain r1 c1 where 1: "pinging addr r1" "\<forall>c0. same_but_trace c1 c0 = same_but_trace c c0"
    "\<forall>k. reporter_loop env (n + k) (10, t) r c = reporter_loop env k (10 - int n, t) r1 c1" by auto
  obtain r2 c2 where 2: "reporter_round env (10 - int n, t) r1 c1 = Inr (True, (10 - int n - 1, t), r2, c2)"
    "pinging addr r2" "\<And>c0. same_but_trace c2 c0 = same_but_trace c1 c0"
    by (rule reporter_round_reporting [OF assms(1) 1(1), of "10 - int n" t c1]) (use Suc.prems in auto)
  have "reporter_loop env (Suc n + k) (10, t) r c = reporter_loop env k (10 - int (Suc n), t) r2 c2" for k
    using 1(3) [rule_format, of "Suc k"] 1(1) 2(1) by (simp add: pinging_def algebra_simps)
  with 1(2) 2(2,3) show ?case by auto
qed (use assms(2) in auto)

text \<open>The last three rounds: two reconnections that fail, and the third that starts the election.\<close>

lemma reporter_gives_up:
  assumes env: "unreachable env addr" and r1: "pinging addr r1"
  obtains r4 c4 where "\<And>c0. same_but_trace c4 c0 = same_but_trace c1 c0"
    and "reporter_loop env 3 (1, 3) r1 c1 = (case StartFastLeaderElection env c4 of
      Inl f \<Rightarrow> Inl f | Inr (_, c2) \<Rightarrow> Inr (True, (0, 0), r4, close_fd (rep_fd r4) c2))"
    and "\<And>k. k \<in> {1, 2} \<Longrightarrow> \<exists>x. reporter_loop env k (1, 3) r1 c1 = Inr (False, x)"
proof -
  obtain r2 c2 where 2: "pinging addr r2" "\<And>c0. same_but_trace c2 c0 = same_but_trace c1 c0"
    "reporter_round env (1, 3) r1 c1 = Inr (True, (0, 2), r2, close_fd (rep_fd r2) c2)"
    by (rule reporter_round_reconnecting [OF env r1, where f = 1 and t = 3 and c = c1], simp)
      (rule that, assumption, assumption, simp)
  obtain r3 c3 where 3: "pinging addr r3" "\<And>c0. same_but_trace c3 c0 = same_but_trace (close_fd (rep_fd r2) c2) c0"
    "reporter_round env (0, 2) r2 (close_fd (rep_fd r2) c2) = Inr (True, (0, 1), r3, close_fd (rep_fd r3) c3)"
    by (rule reporter_round_reconnecting [OF env 2(1), where f = 0 and t = 2 and c = "close_fd (rep_fd r2) c2"], simp)
      (rule that, assumption, assumption, simp)
  obtain r4 c4 where 4: "pinging addr r4" "\<And>c0. same_but_trace c4 c0 = same_but_trace (close_fd (rep_fd r3) c3) c0"
    "reporter_round env (0, 1) r3 (close_fd (rep_fd r3) c3) =
      (case StartFastLeaderElection env c4 of
         Inl f \<Rightarrow> Inl f | Inr (_, c2) \<Rightarrow> Inr (False, (0, 0), r4, close_fd (rep_fd r4) c2))"
    by (rule reporter_round_reconnecting [OF env 3(1), where f = 0 and t = 1 and c = "close_fd (rep_fd r3) c3"], simp)
      (rule that, assumption, assumption, simp split: sum.split)
  have r: "reporter_running r1" "reporter_running r2" "reporter_running r3"
    using r1 2(1) 3(1) by (simp_all add: pinging_def)
  have "same_but_trace c4 c0 = same_but_trace c1 c0" for c0 by (simp add: 4(2) 3(2) 2(2))
  moreover have "reporter_loop env 3 (1, 3) r1 c1 = (case StartFastLeaderElection env c4 of
      Inl f \<Rightarrow> Inl f | Inr (_, c2) \<Rightarrow> Inr (True, (0, 0), r4, close_fd (rep_fd r4) c2))"
    by (simp add: numeral_3_eq_3 r 2(3) 3(3) 4(3) split: sum.split prod.split)
  moreover have "\<exists>x. reporter_loop env k (1, 3) r1 c1 = Inr (False, x)" if "k \<in> {1, 2}" for k
    using that r 2(3) 3(3) by (auto simp: numeral_2_eq_2)
  ultimately show ?thesis by (rule that)
qed



end
