(* ===== verification/ThreadPool.thy ===== *)
theory ThreadPool
  imports Pools
begin

section \<open>LibevThreadPool: the worker threads of the server\<close>

text \<open>
  The pool of \<open>rpc_server/libev_thread_pool.cpp\<close>. Every thread has a queue of request items and
  a pipe; \<open>DispatchRpcCall\<close> takes an item, gives the threads their turns and writes a byte
  \<open>c\<close>; the thread's callback \<open>LibevProcessor\<close> reads the byte, pops the item, runs it and frees
  it. A call \<open>(processor, param)\<close> is a value of type \<open>'m\<close>. The callback is cut where the
  processor is entered and where it returns, so that the threads interleave; \<open>running\<close> is the
  item between the two. \<open>RestartThread\<close> is the request alone: what it does to the fields, the break it
  asks of the loop, and the thread it cancels. What the threads do from then on (the old one ends or
  leaves its loop and destroys it, a new one runs on the same loop) is modelled in theory PoolThreads;
  the runs here have no restarts. A failing \<open>pipe\<close>, \<open>malloc\<close> or \<open>write\<close> is not modelled.
\<close>

subsection \<open>State\<close>

record LIBEV_THREAD =
  thread_id :: nat
  running_version :: nat
  new_request_queue :: queue
  pipe :: string
  running :: "nat option"
  looping :: bool
  break_asked :: bool

record 'm LibevThreadPool =
  current_thread :: int
  num_threads :: int
  libev_threads :: "LIBEV_THREAD list option"
  rqi_freelist :: "nat option"
  items :: "'m store"
  tids :: nat
  cancels :: "nat list"

definition item_per_alloc :: nat where
  "item_per_alloc = 64"

definition LibevThreadPool_new :: "'m LibevThreadPool" where
  "LibevThreadPool_new =
     \<lparr>current_thread = - 1, num_threads = 10, libev_threads = None, rqi_freelist = None,
      items = empty_store, tids = 0, cancels = []\<rparr>"

definition init_thread :: "nat \<Rightarrow> LIBEV_THREAD" where
  "init_thread tid =
     \<lparr>thread_id = tid, running_version = 0, new_request_queue = \<lparr>head = None, tail = None\<rparr>,
      pipe = [], running = None, looping = True, break_asked = False\<rparr>"

text \<open>\<open>calloc\<close> of a negative number of threads is a request for almost all of memory: it fails.\<close>

definition LibevThreadInitialization :: "int \<Rightarrow> 'm LibevThreadPool \<Rightarrow> bool \<times> 'm LibevThreadPool" where
  "LibevThreadInitialization n p =
     (let p = p\<lparr>num_threads := n, rqi_freelist := None\<rparr> in
      if n < 0 then (False, p\<lparr>libev_threads := None\<rparr>)
      else (True, p\<lparr>libev_threads := Some (map (\<lambda>i. init_thread (tids p + i)) [0..<nat n]),
                    tids := tids p + nat n\<rparr>))"

definition PoolStart :: "int \<Rightarrow> 'm LibevThreadPool \<Rightarrow> bool \<times> 'm LibevThreadPool" where
  "PoolStart n p = LibevThreadInitialization n p"

subsection \<open>Items\<close>

definition RQItemNew :: "'m LibevThreadPool \<Rightarrow> nat \<times> 'm LibevThreadPool" where
  "RQItemNew p =
     (case take_item item_per_alloc (items p, rqi_freelist p) of (a, st, free) \<Rightarrow>
        (a, p\<lparr>items := st, rqi_freelist := free\<rparr>))"

definition RQItemFree :: "nat \<Rightarrow> 'm LibevThreadPool \<Rightarrow> 'm LibevThreadPool" where
  "RQItemFree a p =
     (case give_item a (items p, rqi_freelist p) of (st, free) \<Rightarrow>
        p\<lparr>items := st, rqi_freelist := free\<rparr>)"

definition set_thread :: "nat \<Rightarrow> LIBEV_THREAD \<Rightarrow> 'm LibevThreadPool \<Rightarrow> 'm LibevThreadPool" where
  "set_thread i t p = p\<lparr>libev_threads := map_option (\<lambda>ts. ts[i := t]) (libev_threads p)\<rparr>"

definition RQItemPush :: "nat \<Rightarrow> LIBEV_THREAD \<Rightarrow> nat \<Rightarrow> 'm LibevThreadPool \<Rightarrow> 'm LibevThreadPool" where
  "RQItemPush i t a p =
     (case link_tail a (items p, new_request_queue t) of (st, q) \<Rightarrow>
        set_thread i (t\<lparr>new_request_queue := q\<rparr>) (p\<lparr>items := st\<rparr>))"

definition RQItemPop :: "LIBEV_THREAD \<Rightarrow> 'm LibevThreadPool \<Rightarrow> nat option \<times> LIBEV_THREAD" where
  "RQItemPop t p =
     (case unlink_head (items p, new_request_queue t) of (r, q) \<Rightarrow>
        (r, t\<lparr>new_request_queue := q\<rparr>))"

subsection \<open>Dispatching\<close>

definition DispatchRpcCall :: "'m \<Rightarrow> 'm LibevThreadPool \<Rightarrow> fault + (bool \<times> 'm LibevThreadPool)" where
  "DispatchRpcCall x p =
     (case libev_threads p of
        None \<Rightarrow> Inr (False, p)
      | Some ts \<Rightarrow>
          (case RQItemNew p of (a, p) \<Rightarrow>
             if num_threads p = 0 then Inl DivByZero
             else
               (let cur_tid = nat ((current_thread p + 1) mod num_threads p);
                    p = p\<lparr>current_thread := int cur_tid\<rparr>;
                    p = p\<lparr>items := set_content a x (items p)\<rparr>;
                    t = ts ! cur_tid
                in Inr (True, RQItemPush cur_tid (t\<lparr>pipe := pipe t @ ''c''\<rparr>) a p))))"

subsection \<open>The workers\<close>

text \<open>
  The callback of thread \<open>i\<close> up to the call of the processor. libev calls it when the pipe has a
  byte and the thread is in its loop; otherwise nothing happens. The result is the call entered.
\<close>

definition LibevProcessor :: "nat \<Rightarrow> 'm LibevThreadPool \<Rightarrow> fault + ('m option \<times> 'm LibevThreadPool)" where
  "LibevProcessor i p =
     (case libev_threads p of
        None \<Rightarrow> Inr (None, p)
      | Some ts \<Rightarrow>
          if length ts \<le> i \<or> running (ts ! i) \<noteq> None \<or> \<not> looping (ts ! i) then Inr (None, p)
          else
            (case pipe (ts ! i) of
               [] \<Rightarrow> Inr (None, p)
             | c # cs \<Rightarrow>
                 (let t = (ts ! i)\<lparr>pipe := cs\<rparr> in
                  if c = CHR ''c'' then
                    (case RQItemPop t p of
                       (None, _) \<Rightarrow> Inl NullDeref
                     | (Some a, t) \<Rightarrow>
                         (case value_at (items p) a of
                            None \<Rightarrow> Inl NullDeref
                          | Some x \<Rightarrow> Inr (Some x, set_thread i (t\<lparr>running := Some a\<rparr>) p)))
                  else if c = CHR ''q'' then Inr (None, set_thread i (t\<lparr>looping := False\<rparr>) p)
                  else Inr (None, set_thread i t p))))"

text \<open>The rest of the callback, after the processor has returned.\<close>

definition LibevProcessor_return :: "nat \<Rightarrow> 'm LibevThreadPool \<Rightarrow> 'm LibevThreadPool" where
  "LibevProcessor_return i p =
     (case libev_threads p of
        None \<Rightarrow> p
      | Some ts \<Rightarrow>
          if length ts \<le> i then p
          else
            (case running (ts ! i) of
               None \<Rightarrow> p
             | Some a \<Rightarrow>
                 (let t = ts ! i
                  in RQItemFree a (set_thread i
                       (t\<lparr>running_version := Suc (running_version t), running := None\<rparr>) p))))"

text \<open>The thread's function: \<open>ev_run\<close> makes callbacks until one breaks the loop; at most \<open>fuel\<close> here.\<close>

primrec LibevWorker :: "nat \<Rightarrow> nat \<Rightarrow> 'm LibevThreadPool \<Rightarrow> fault + ('m list \<times> 'm LibevThreadPool)" where
  "LibevWorker 0 i p = Inr ([], p)"
| "LibevWorker (Suc fuel) i p =
     (case LibevProcessor i p of
        Inl e \<Rightarrow> Inl e
      | Inr (r, p) \<Rightarrow>
          (case LibevWorker fuel i (LibevProcessor_return i p) of
             Inl e \<Rightarrow> Inl e
           | Inr (ms, p) \<Rightarrow> Inr (case r of None \<Rightarrow> ms | Some m \<Rightarrow> m # ms, p)))"

subsection \<open>Restarting a thread\<close>

fun index_of :: "nat \<Rightarrow> LIBEV_THREAD list \<Rightarrow> nat option" where
  "index_of tid [] = None"
| "index_of tid (t # ts) = (if thread_id t = tid then Some 0 else map_option Suc (index_of tid ts))"

text \<open>
  A thread id that is not found leaves \<open>index\<close> at 0: then the loop of thread 0 is told to break, and
  thread 0 is replaced, but not cancelled. \<open>cancels\<close> are the ids \<open>pthread_cancel\<close> was called with.
\<close>

definition RestartThread :: "nat \<Rightarrow> nat \<Rightarrow> 'm LibevThreadPool \<Rightarrow> fault + 'm LibevThreadPool" where
  "RestartThread tid version p =
     (case libev_threads p of
        None \<Rightarrow> Inl NullDeref
      | Some ts \<Rightarrow>
          (let i = (case index_of tid ts of None \<Rightarrow> 0 | Some i \<Rightarrow> i) in
           if length ts \<le> i then Inl BufferOverRead
           else
             (let t = ts ! i in
              if version < running_version t then Inr p
              else Inr ((set_thread i (t\<lparr>break_asked := True, thread_id := tids p\<rparr>) p)
                     \<lparr>cancels := cancels p @ [tid], tids := Suc (tids p)\<rparr>))))"

text \<open>
  The cleanup handler of a thread that is cancelled inside the processor: it frees the item.
\<close>

definition RetrieveDataAction :: "nat option \<Rightarrow> 'm LibevThreadPool \<Rightarrow> 'm LibevThreadPool" where
  "RetrieveDataAction item p = (case item of None \<Rightarrow> p | Some a \<Rightarrow> RQItemFree a p)"

subsection \<open>Shutting down\<close>

text \<open>
  \<open>Destroy\<close> writes \<open>q\<close> to every pipe, joins the threads, and walks the free list. The condition
  of that walk compares the cursor with the list's head, where it starts.
\<close>

definition Destroy_notify :: "'m LibevThreadPool \<Rightarrow> 'm LibevThreadPool" where
  "Destroy_notify p =
     p\<lparr>libev_threads := map_option (map (\<lambda>t. t\<lparr>pipe := pipe t @ ''q''\<rparr>)) (libev_threads p)\<rparr>"

definition Wait_returns :: "'m LibevThreadPool \<Rightarrow> bool" where
  "Wait_returns p = (case libev_threads p of None \<Rightarrow> False | Some ts \<Rightarrow> list_all (\<lambda>t. \<not> looping t) ts)"

fun free_items :: "nat \<Rightarrow> nat option \<Rightarrow> nat option \<Rightarrow> 'm store \<Rightarrow> fault + 'm store" where
  "free_items 0 cur first st = (if cur = first then Inr st else Inl Hang)"
| "free_items (Suc fuel) cur first st =
     (if cur = first then Inr st
      else (case cur of
              None \<Rightarrow> Inl NullDeref
            | Some a \<Rightarrow> free_items fuel (get_next st a) first (delete_item a st)))"

definition Destroy_release :: "nat \<Rightarrow> 'm LibevThreadPool \<Rightarrow> fault + 'm LibevThreadPool" where
  "Destroy_release fuel p =
     (case free_items fuel (rqi_freelist p) (rqi_freelist p) (items p) of
        Inl e \<Rightarrow> Inl e
      | Inr st \<Rightarrow> Inr (p\<lparr>items := st\<rparr>))"

subsection \<open>Runs\<close>

datatype 'm pool_op =
    Dispatch 'm
  | Wake nat
  | Return nat

text \<open>A run collects the calls entered, with the thread that entered them.\<close>

definition pool_step :: "'m pool_op \<Rightarrow> 'm LibevThreadPool \<Rightarrow> fault + ((nat \<times> 'm) list \<times> 'm LibevThreadPool)" where
  "pool_step x p =
     (case x of
        Dispatch m \<Rightarrow> (case DispatchRpcCall m p of Inl e \<Rightarrow> Inl e | Inr (_, p) \<Rightarrow> Inr ([], p))
      | Wake i \<Rightarrow> (case LibevProcessor i p of
          Inl e \<Rightarrow> Inl e
        | Inr (r, p) \<Rightarrow> Inr (case r of None \<Rightarrow> [] | Some m \<Rightarrow> [(i, m)], p))
      | Return i \<Rightarrow> Inr ([], LibevProcessor_return i p))"

primrec pool_run :: "'m pool_op list \<Rightarrow> 'm LibevThreadPool \<Rightarrow> fault + ((nat \<times> 'm) list \<times> 'm LibevThreadPool)" where
  "pool_run [] p = Inr ([], p)"
| "pool_run (x # xs) p =
     (case pool_step x p of
        Inl e \<Rightarrow> Inl e
      | Inr (out, p) \<Rightarrow> (case pool_run xs p of Inl e \<Rightarrow> Inl e | Inr (outs, p) \<Rightarrow> Inr (out @ outs, p)))"

definition calls_of :: "nat \<Rightarrow> (nat \<times> 'm) list \<Rightarrow> 'm list" where
  "calls_of i out = map snd (filter (\<lambda>e. fst e = i) out)"

definition dispatched :: "'m pool_op list \<Rightarrow> 'm list" where
  "dispatched xs = concat (map (\<lambda>x. case x of Dispatch m \<Rightarrow> [m] | _ \<Rightarrow> []) xs)"

end
