(* ===== verification/ThreadPoolSafety.thy ===== *)
theory ThreadPoolSafety
  imports ThreadPool "HOL-Library.Multiset" "HOL-Library.Sublist"
begin

section \<open>What the thread pool promises\<close>

text \<open>
  The invariant of the pool: every address is in exactly one place (the free list, a thread's
  queue, or a running call), every pipe holds one byte per queued item, and what a
  thread has entered and has waiting are the calls of its turns.
\<close>

subsection \<open>Lists of lists\<close>

lemma mset_concat_update:
  assumes "i < length xss"
  shows "mset (concat (xss[i := ys])) + mset (xss ! i) = mset (concat xss) + mset ys"
proof -
  have "mset (concat xss) = mset (concat (take i xss)) + mset (xss ! i) + mset (concat (drop (Suc i) xss))"
    using assms by (subst id_take_nth_drop [OF assms]) simp
  then show ?thesis using assms by (simp add: upd_conv_take_nth_drop)
qed

lemma distinct_concat_nth:
  assumes "distinct (concat xss)" "i < length xss" "j < length xss" "i \<noteq> j"
  shows "set (xss ! i) \<inter> set (xss ! j) = {}"
proof -
  have "distinct (concat (xss[i := []]) @ xss ! i)"
  proof -
    have "mset (concat (xss[i := []]) @ xss ! i) = mset (concat xss)"
      using mset_concat_update [OF assms(2), of "[]"] by simp
    with assms(1) show ?thesis using mset_eq_imp_distinct_iff by blast
  qed
  moreover have "set (xss ! j) \<subseteq> set (concat (xss[i := []]))"
    using assms(3,4) by (force simp: set_conv_nth [of "xss[i := []]"] nth_list_update)
  ultimately show ?thesis by auto
qed

lemma nths_snoc: "nths (xs @ [x]) A = nths xs A @ (if length xs \<in> A then [x] else [])"
  by (simp add: nths_append)

subsection \<open>The invariant\<close>

definition busy :: "LIBEV_THREAD \<Rightarrow> nat list" where
  "busy t = (case running t of None \<Rightarrow> [] | Some a \<Rightarrow> [a])"

text \<open>Thread \<open>t\<close> queues the items \<open>as\<close>, holding the calls \<open>vs\<close>; after their bytes its pipe
  has \<open>s\<close>.\<close>

definition thread_ok :: "string \<Rightarrow> 'm store \<Rightarrow> LIBEV_THREAD \<Rightarrow> nat list \<Rightarrow> 'm list \<Rightarrow> bool" where
  "thread_ok s st t as vs \<longleftrightarrow>
     queue_of (st, new_request_queue t) as \<and> map (value_at st) as = map Some vs \<and>
     (\<forall>a\<in>set (busy t). live st a) \<and> pipe t = replicate (length as) CHR ''c'' @ s \<and> looping t"

definition owned :: "LIBEV_THREAD list \<Rightarrow> nat list list \<Rightarrow> nat list list" where
  "owned ts ass = map2 (\<lambda>t as. as @ busy t) ts ass"

text \<open>\<open>h\<close>: the calls dispatched so far; \<open>out\<close>: the calls entered so far.\<close>

definition pool_inv ::
  "string \<Rightarrow> 'm LibevThreadPool \<Rightarrow> LIBEV_THREAD list \<Rightarrow> nat list \<Rightarrow> nat list list \<Rightarrow> 'm list list \<Rightarrow> bool" where
  "pool_inv s p ts fs ass vss \<longleftrightarrow>
     libev_threads p = Some ts \<and> ts \<noteq> [] \<and> num_threads p = int (length ts) \<and>
     length ass = length ts \<and> length vss = length ts \<and>
     pool_ok (items p, rqi_freelist p) fs \<and> distinct (fs @ concat (owned ts ass)) \<and>
     (\<forall>i<length ts. thread_ok s (items p) (ts ! i) (ass ! i) (vss ! i))"

definition served :: "'m list list \<Rightarrow> 'm list \<Rightarrow> (nat \<times> 'm) list \<Rightarrow> bool" where
  "served vss h out \<longleftrightarrow>
     (\<forall>i<length vss. calls_of i out @ vss ! i = nths h {j. j mod length vss = i})"

lemma owned_simps [simp]: "length ass = length ts \<Longrightarrow> length (owned ts ass) = length ts"
  by (simp add: owned_def)

lemma owned_nth: "i < length ts \<Longrightarrow> length ass = length ts \<Longrightarrow> owned ts ass ! i = ass ! i @ busy (ts ! i)"
  by (simp add: owned_def)

lemma owned_update:
  "i < length ts \<Longrightarrow> length ass = length ts \<Longrightarrow>
   owned (ts[i := t]) (ass[i := as]) = (owned ts ass)[i := as @ busy t]"
  by (simp add: owned_def list_eq_iff_nth_eq nth_list_update)

lemma thread_ok_cong:
  assumes "thread_ok s st t as vs"
    and "\<And>a. a \<in> set as \<Longrightarrow> get_next st' a = get_next st a"
    and "\<And>a. a \<in> set (as @ busy t) \<Longrightarrow> live st' a = live st a \<and> value_at st' a = value_at st a"
  shows "thread_ok s st' t as vs"
proof -
  have "queue_of (st', new_request_queue t) as"
    by (rule queue_of_cong [of st]) (use assms in \<open>auto simp: thread_ok_def\<close>)
  moreover have "map (value_at st') as = map Some vs"
  proof -
    have "map (value_at st') as = map (value_at st) as"
      using assms(3) by (intro map_cong) auto
    also have "\<dots> = map Some vs" using assms(1) by (simp add: thread_ok_def)
    finally show ?thesis .
  qed
  moreover have "\<forall>a\<in>set (busy t). live st' a"
    using assms(1,3) by (simp add: thread_ok_def)
  ultimately show ?thesis using assms(1) by (simp add: thread_ok_def)
qed

text \<open>The threads other than \<open>i\<close> own none of the addresses thread \<open>i\<close> or the free list has.\<close>

lemma pool_inv_apart:
  assumes "pool_inv s p ts fs ass vss" "i < length ts" "j < length ts" "i \<noteq> j"
    "a \<in> set (ass ! j @ busy (ts ! j))"
  shows "a \<notin> set fs" "a \<notin> set (ass ! i @ busy (ts ! i))" "live (items p) a"
proof -
  have d: "distinct (fs @ concat (owned ts ass))" and len: "length ass = length ts"
    and t: "thread_ok s (items p) (ts ! j) (ass ! j) (vss ! j)"
    using assms(1,3) by (auto simp: pool_inv_def)
  have "owned ts ass ! j \<in> set (owned ts ass)" using assms(3) len by simp
  then have "a \<in> set (concat (owned ts ass))"
    unfolding set_concat using assms(5) owned_nth [OF assms(3) len] by (intro UN_I) auto
  with d show "a \<notin> set fs" by auto
  show "a \<notin> set (ass ! i @ busy (ts ! i))"
    using distinct_concat_nth [of "owned ts ass" i j] d assms len by (auto simp: owned_nth)
  show "live (items p) a"
    using t assms(5) by (auto simp: thread_ok_def dest: queue_of_live)
qed

text \<open>Replacing thread \<open>i\<close>, when the addresses it and the free list have stay the same ones.\<close>

lemma pool_inv_update:
  assumes inv: "pool_inv s p ts fs ass vss" and i: "i < length ts"
    and d: "distinct (fs' @ concat ((owned ts ass)[i := as @ busy t]))"
    and p': "libev_threads p' = Some (ts[i := t])" "num_threads p' = num_threads p"
      "pool_ok (items p', rqi_freelist p') fs'"
    and t: "thread_ok s (items p') t as vs"
    and keep: "\<And>j a. j < length ts \<Longrightarrow> j \<noteq> i \<Longrightarrow> a \<in> set (ass ! j @ busy (ts ! j)) \<Longrightarrow>
      live (items p') a = live (items p) a \<and> value_at (items p') a = value_at (items p) a \<and>
      get_next (items p') a = get_next (items p) a"
  shows "pool_inv s p' (ts[i := t]) fs' (ass[i := as]) (vss[i := vs])"
proof -
  have len: "length ass = length ts" "length vss = length ts"
    using inv by (simp_all add: pool_inv_def)
  have "thread_ok s (items p') (ts[i := t] ! j) (ass[i := as] ! j) (vss[i := vs] ! j)"
    if j: "j < length ts" for j
  proof (cases "j = i")
    case True
    with t j len show ?thesis by simp
  next
    case False
    have "thread_ok s (items p) (ts ! j) (ass ! j) (vss ! j)" using inv j by (simp add: pool_inv_def)
    then have "thread_ok s (items p') (ts ! j) (ass ! j) (vss ! j)"
      by (rule thread_ok_cong) (use keep [OF j False] in auto)
    with False show ?thesis by simp
  qed
  then show ?thesis using inv p' d i len by (simp add: pool_inv_def owned_update)
qed

lemma distinct_moved:
  assumes "distinct (fs @ concat (owned ts ass))" "i < length ts" "length ass = length ts"
    and m: "mset fs' + mset (as @ busy t) = mset fs + mset (ass ! i @ busy (ts ! i))"
  shows "distinct (fs' @ concat ((owned ts ass)[i := as @ busy t]))"
proof -
  have "mset (concat ((owned ts ass)[i := as @ busy t])) + mset (ass ! i @ busy (ts ! i))
      = mset (concat (owned ts ass)) + mset (as @ busy t)"
    using mset_concat_update [of i "owned ts ass" "as @ busy t"] assms(2,3) by (simp add: owned_nth)
  then have "mset (fs' @ concat ((owned ts ass)[i := as @ busy t])) + mset (ass ! i @ busy (ts ! i))
      = mset (fs @ concat (owned ts ass)) + mset (ass ! i @ busy (ts ! i))"
    using m by (simp add: ac_simps)
  then show ?thesis
    using assms(1) mset_eq_imp_distinct_iff [of "fs' @ concat ((owned ts ass)[i := as @ busy t])"
        "fs @ concat (owned ts ass)"] by simp
qed

subsection \<open>Every operation keeps the invariant\<close>

lemma pool_inv_thread:
  "pool_inv s p ts fs ass vss \<Longrightarrow> i < length ts \<Longrightarrow> thread_ok s (items p) (ts ! i) (ass ! i) (vss ! i)"
  by (simp add: pool_inv_def)

lemma pool_inv_disjoint:
  assumes "pool_inv s p ts fs ass vss" "i < length ts"
  shows "distinct (fs @ ass ! i @ busy (ts ! i))"
proof -
  have d: "distinct (fs @ concat (owned ts ass))" and len: "length ass = length ts"
    using assms(1) by (auto simp: pool_inv_def)
  have "owned ts ass ! i \<in> set (owned ts ass)" using assms(2) len by simp
  with d have "distinct (owned ts ass ! i)" "set fs \<inter> set (owned ts ass ! i) = {}"
    by (auto simp: distinct_concat_iff)
  with d show ?thesis using assms(2) len by (simp add: owned_nth)
qed

text \<open>Giving back an item that thread \<open>i\<close> was busy with.\<close>

lemma pool_inv_free:
  assumes inv: "pool_inv s p ts fs ass vss" and i: "i < length ts"
    and m: "mset (busy (ts ! i)) = add_mset a (mset (busy t))"
    and t: "new_request_queue t = new_request_queue (ts ! i)" "pipe t = pipe (ts ! i)"
      "looping t = looping (ts ! i)"
  shows "pool_inv s (RQItemFree a (set_thread i t p)) (ts[i := t]) (a # fs) ass vss"
proof -
  have ti: "thread_ok s (items p) (ts ! i) (ass ! i) (vss ! i)" by (rule pool_inv_thread [OF inv i])
  have dis: "distinct (fs @ ass ! i @ busy (ts ! i))" by (rule pool_inv_disjoint [OF inv i])
  have a: "a \<in> set (busy (ts ! i))" using m by (metis set_mset_mset union_single_eq_member add_mset_add_single set_mset_add_mset_insert insertI1)
  have live: "live (items p) a" using ti a by (simp add: thread_ok_def)
  have okf: "pool_ok (items p, rqi_freelist p) fs" using inv by (simp add: pool_inv_def)
  have sub: "set (busy t) \<subseteq> set (busy (ts ! i))"
    using m by (metis set_mset_mset set_mset_add_mset_insert subset_insertI)
  have nexts: "get_next (set_next a q (items p)) b = get_next (items p) b" if "b \<noteq> a" for b q
    using that by (simp add: get_next_set_next)
  have "thread_ok s (items p) t (ass ! i) (vss ! i)"
    using ti t sub by (auto simp: thread_ok_def)
  then have t': "thread_ok s (set_next a (rqi_freelist p) (items p)) t (ass ! i) (vss ! i)"
  proof (rule thread_ok_cong)
    fix b assume "b \<in> set (ass ! i)"
    then have "b \<noteq> a" using a dis by auto
    then show "get_next (set_next a (rqi_freelist p) (items p)) b = get_next (items p) b"
      by (rule nexts)
  qed simp
  have p': "libev_threads (RQItemFree a (set_thread i t p)) = Some (ts[i := t])"
    "num_threads (RQItemFree a (set_thread i t p)) = num_threads p"
    "items (RQItemFree a (set_thread i t p)) = set_next a (rqi_freelist p) (items p)"
    "rqi_freelist (RQItemFree a (set_thread i t p)) = Some a"
    using inv by (auto simp: RQItemFree_def set_thread_def give_item_def pool_inv_def)
  have ok: "pool_ok (set_next a (rqi_freelist p) (items p), Some a) (a # fs)"
    using give_item_ok [OF okf live] a dis by (auto simp: give_item_def)
  have "pool_inv s (RQItemFree a (set_thread i t p)) (ts[i := t]) (a # fs)
      (ass[i := ass ! i]) (vss[i := vss ! i])"
  proof (rule pool_inv_update [OF inv i distinct_moved])
    show "distinct (fs @ concat (owned ts ass))" "i < length ts" "length ass = length ts"
      using inv i by (simp_all add: pool_inv_def)
    show "mset (a # fs) + mset (ass ! i @ busy t) = mset fs + mset (ass ! i @ busy (ts ! i))"
      using m by simp
    fix j b assume "j < length ts" "j \<noteq> i" "b \<in> set (ass ! j @ busy (ts ! j))"
    then have "b \<noteq> a" using pool_inv_apart(2) [OF inv i, of j b] a by auto
    then show "live (items (RQItemFree a (set_thread i t p))) b = live (items p) b \<and>
      value_at (items (RQItemFree a (set_thread i t p))) b = value_at (items p) b \<and>
      get_next (items (RQItemFree a (set_thread i t p))) b = get_next (items p) b"
      by (simp add: p' nexts)
  qed (simp_all add: p' ok t')
  then show ?thesis by simp
qed

text \<open>A change of thread \<open>i\<close> alone.\<close>

lemma pool_inv_local:
  assumes inv: "pool_inv s p ts fs ass vss" and i: "i < length ts"
    and m: "mset (as @ busy t) = mset (ass ! i @ busy (ts ! i))"
    and t: "thread_ok s (items p) t as vs"
  shows "pool_inv s (set_thread i t p) (ts[i := t]) fs (ass[i := as]) (vss[i := vs])"
  using inv i m t
  by (intro pool_inv_update [OF inv i distinct_moved]) (auto simp: set_thread_def pool_inv_def)

lemma LibevProcessor_return_inv:
  assumes inv: "pool_inv s p ts fs ass vss"
  shows "\<exists>ts fs. pool_inv s (LibevProcessor_return i p) ts fs ass vss"
proof (cases "i < length ts \<and> running (ts ! i) \<noteq> None")
  case True
  then obtain a where a: "running (ts ! i) = Some a" by auto
  define t where "t = (ts ! i)\<lparr>running_version := Suc (running_version (ts ! i)), running := None\<rparr>"
  have "pool_inv s (RQItemFree a (set_thread i t p)) (ts[i := t]) (a # fs) ass vss"
    by (rule pool_inv_free [OF inv]) (use True a in \<open>simp_all add: t_def busy_def\<close>)
  moreover have "LibevProcessor_return i p = RQItemFree a (set_thread i t p)"
    using inv True a by (simp add: LibevProcessor_return_def pool_inv_def t_def Let_def)
  ultimately show ?thesis by metis
next
  case False
  with inv have "LibevProcessor_return i p = p"
    by (auto simp: LibevProcessor_return_def pool_inv_def split: option.splits)
  with inv show ?thesis by metis
qed

subsection \<open>Entering and dispatching calls\<close>

text \<open>The callback finds an item whenever it is called: the call entered is the oldest waiting.\<close>

lemma LibevProcessor_enters:
  assumes inv: "pool_inv s p ts fs ass vss" and i: "i < length ts" and idle: "running (ts ! i) = None"
    and ne: "ass ! i \<noteq> []"
  obtains m p' ts' ass' vss' where "LibevProcessor i p = Inr (Some m, p')"
    "vss ! i = m # (vss' ! i)" "vss' = vss[i := vss' ! i]" "pool_inv s p' ts' fs ass' vss'"
    "length ts' = length ts" "current_thread p' = current_thread p"
proof -
  from ne obtain a as where as: "ass ! i = a # as" by (auto simp: neq_Nil_conv)
  have len: "length ass = length ts" "length vss = length ts" and ts: "libev_threads p = Some ts"
    using inv by (simp_all add: pool_inv_def)
  have ti: "thread_ok s (items p) (ts ! i) (a # as) (vss ! i)"
    using pool_inv_thread [OF inv i] as by simp
  then obtain m ms where vs: "vss ! i = m # ms" "value_at (items p) a = Some m"
    "map (value_at (items p)) as = map Some ms"
    by (auto simp: thread_ok_def map_eq_Cons_conv Cons_eq_map_conv)
  have q: "queue_of (items p, new_request_queue (ts ! i)) (a # as)" using ti by (simp add: thread_ok_def)
  then obtain q' where u: "unlink_head (items p, new_request_queue (ts ! i)) = (Some a, q')"
    using queue_of_unlink(1) [OF q] by (cases "unlink_head (items p, new_request_queue (ts ! i))") auto
  then have q': "queue_of (items p, q') as" using queue_of_unlink(2) [OF q] by simp
  have live: "live (items p) a" using q by (simp add: queue_of_def)
  define t where "t = (ts ! i)\<lparr>pipe := replicate (length as) CHR ''c'' @ s, new_request_queue := q',
     running := Some a\<rparr>"
  have "LibevProcessor i p = Inr (Some m, set_thread i t p)"
    using ti ts i idle u vs(2)
    by (simp add: LibevProcessor_def thread_ok_def RQItemPop_def Let_def t_def)
  moreover have "mset (as @ busy t) = mset (ass ! i @ busy (ts ! i))"
    using as idle by (simp add: t_def busy_def)
  moreover have "thread_ok s (items p) t as ms"
    using ti q' vs live by (simp add: thread_ok_def t_def busy_def idle)
  ultimately show ?thesis
    using pool_inv_local [OF inv i, of as t ms] vs(1) i len ts
    by (intro that [of m "set_thread i t p" "vss[i := ms]" "ts[i := t]" "ass[i := as]"])
      (simp_all add: set_thread_def)
qed

lemma LibevProcessor_inv:
  assumes inv: "pool_inv [] p ts fs ass vss"
  obtains (idle) "LibevProcessor i p = Inr (None, p)"
  | (entered) m p' ts' ass' vss' where "LibevProcessor i p = Inr (Some m, p')" "i < length ts"
      "vss ! i = m # (vss' ! i)" "vss' = vss[i := vss' ! i]" "pool_inv [] p' ts' fs ass' vss'"
      "length ts' = length ts" "current_thread p' = current_thread p"
proof (cases "i < length ts \<and> running (ts ! i) = None \<and> ass ! i \<noteq> []")
  case False
  have "LibevProcessor i p = Inr (None, p)"
  proof (cases "i < length ts \<and> running (ts ! i) = None")
    case True
    with False pool_inv_thread [OF inv] have "pipe (ts ! i) = []" by (simp add: thread_ok_def)
    with inv show ?thesis by (simp add: LibevProcessor_def pool_inv_def)
  next
    case f: False
    with inv show ?thesis by (auto simp: LibevProcessor_def pool_inv_def)
  qed
  then show ?thesis by (rule idle)
next
  case True
  then have i: "i < length ts" "running (ts ! i) = None" "ass ! i \<noteq> []" by simp_all
  show ?thesis by (rule LibevProcessor_enters [OF inv i], rule entered [OF _ i(1)])
qed

text \<open>A dispatched call goes to the thread after the last one served.\<close>

lemma DispatchRpcCall_inv:
  assumes inv: "pool_inv [] p ts fs ass vss"
    and k: "k = nat ((current_thread p + 1) mod int (length ts))"
  obtains p' ts' fs' ass' where "DispatchRpcCall m p = Inr (True, p')"
    "pool_inv [] p' ts' fs' ass' (vss[k := vss ! k @ [m]])" "current_thread p' = int k"
    "length ts' = length ts"
proof -
  have len: "length ass = length ts" "length vss = length ts" and ts: "libev_threads p = Some ts"
    "ts \<noteq> []" "num_threads p = int (length ts)" and okf: "pool_ok (items p, rqi_freelist p) fs"
    using inv by (simp_all add: pool_inv_def)
  have kl: "k < length ts" using ts(2) by (simp add: k nat_less_iff)
  obtain a st free fs' where take: "take_item item_per_alloc (items p, rqi_freelist p) = (a, st, free)"
    and ok': "pool_ok (st, free) fs'" and a': "a \<notin> set fs'" "live st a"
    and sub: "set fs' \<subseteq> set fs \<union> {b. \<not> live (items p) b}"
    and a: "a \<in> set fs \<or> \<not> live (items p) a"
    and keep: "\<And>b. live (items p) b \<Longrightarrow>
      live st b \<and> get_next st b = get_next (items p) b \<and> value_at st b = value_at (items p) b"
    by (rule take_item_ok [OF okf, of item_per_alloc]) (simp add: item_per_alloc_def, blast)
  let ?t = "ts ! k" and ?as = "ass ! k" and ?vs = "vss ! k"
  have tk: "thread_ok [] (items p) ?t ?as ?vs" by (rule pool_inv_thread [OF inv kl])
  have dis: "distinct (fs @ ?as @ busy ?t)" by (rule pool_inv_disjoint [OF inv kl])
  have own: "live (items p) b" "b \<noteq> a" "b \<notin> set fs'" if "b \<in> set (?as @ busy ?t)" for b
  proof -
    show l: "live (items p) b" using that tk by (auto simp: thread_ok_def dest: queue_of_live)
    have "b \<notin> set fs" using that dis by auto
    with l a sub show "b \<noteq> a" "b \<notin> set fs'" by auto
  qed
  define t where "t = ?t\<lparr>pipe := pipe ?t @ ''c''\<rparr>"
  define st1 where "st1 = set_content a m st"
  obtain st2 q where link: "link_tail a (st1, new_request_queue t) = (st2, q)"
    by (cases "link_tail a (st1, new_request_queue t)")
  have st2: "st2 = fst (link_tail a (st1, new_request_queue t))" by (simp add: link)
  have q1: "queue_of (st1, new_request_queue t) ?as"
  proof -
    have "queue_of (st, new_request_queue ?t) ?as"
      by (rule queue_of_cong [of "items p"]) (use tk keep own in \<open>auto simp: thread_ok_def\<close>)
    then show ?thesis by (simp add: st1_def t_def)
  qed
  have q2: "queue_of (st2, q) (?as @ [a])"
    using queue_of_link [OF q1, of a] own(2) a'(2) link by (auto simp: st1_def)
  have val2: "value_at st2 b = (if b = a then Some m else value_at st b)" for b
    using a'(2) by (simp add: st2 st1_def value_set_content)
  have live2: "live st2 b = live st b" "brk st2 = brk st" for b by (simp_all add: st2 st1_def)
  have next2: "get_next st2 b = get_next st b" if "b \<noteq> a" "b \<notin> set ?as" for b
    using link_tail_next [OF q1 that] by (simp add: st2 st1_def)
  have pool2: "pool_ok (st2, free) fs'"
  proof (rule pool_ok_cong [OF ok' live2(2) _ live2(1)])
    fix b assume "b \<in> set fs'"
    then have "b \<noteq> a" "b \<notin> set ?as" using a'(1) own(3) [of b] by auto
    then show "get_next st2 b = get_next st b" by (rule next2)
  qed
  define t' where "t' = t\<lparr>new_request_queue := q\<rparr>"
  define p' where "p' = p\<lparr>items := st2, rqi_freelist := free, current_thread := int k,
    libev_threads := Some (ts[k := t'])\<rparr>"
  have cur: "nat ((current_thread p + 1) mod num_threads p) = k" "num_threads p \<noteq> 0"
    using ts(2,3) k by simp_all
  have link': "link_tail a (set_content a m st, new_request_queue ?t) = (st2, q)"
    using link by (simp add: st1_def t_def)
  have disp: "DispatchRpcCall m p = Inr (True, p')"
    using cur(2) by (simp add: DispatchRpcCall_def ts(1) take RQItemNew_def cur(1) Let_def
        RQItemPush_def link' set_thread_def t_def t'_def p'_def)
  have bt: "busy t' = busy ?t" by (simp add: t'_def t_def busy_def)
  have tk': "thread_ok [] st2 t' (?as @ [a]) (?vs @ [m])"
  proof -
    have "map (value_at st2) ?as = map Some ?vs"
    proof -
      have "map (value_at st2) ?as = map (value_at (items p)) ?as"
        using keep own by (intro map_cong) (auto simp: val2)
      also have "\<dots> = map Some ?vs" using tk by (simp add: thread_ok_def)
      finally show ?thesis .
    qed
    moreover have "\<forall>b\<in>set (busy t'). live st2 b" using keep own by (auto simp: bt live2)
    ultimately show ?thesis
      using q2 tk by (simp add: thread_ok_def t'_def t_def val2 replicate_append_same)
  qed
  have out: "live (items p) b \<and> b \<noteq> a \<and> b \<notin> set fs'"
    if b: "b \<in> set (concat (owned ts ass))" for b
  proof -
    from b obtain j where j: "j < length ts" "b \<in> set (ass ! j @ busy (ts ! j))"
    proof -
      from b obtain xs where xs: "xs \<in> set (owned ts ass)" "b \<in> set xs" by (auto simp only: set_concat)
      from xs(1) obtain j where "j < length (owned ts ass)" "owned ts ass ! j = xs"
        by (auto simp only: in_set_conv_nth)
      with xs(2) len owned_nth [of j ts ass] show thesis by (intro that [of j]) simp_all
    qed
    have "thread_ok [] (items p) (ts ! j) (ass ! j) (vss ! j)" by (rule pool_inv_thread [OF inv j(1)])
    then have l: "live (items p) b" using j(2) by (auto simp: thread_ok_def dest: queue_of_live)
    have "b \<notin> set fs" using b inv by (auto simp: pool_inv_def)
    with l a sub show ?thesis by auto
  qed
  have d': "distinct (fs' @ concat ((owned ts ass)[k := (?as @ [a]) @ busy t']))"
  proof -
    have "mset (concat ((owned ts ass)[k := (?as @ [a]) @ busy t'])) = mset (a # concat (owned ts ass))"
      using mset_concat_update [of k "owned ts ass" "(?as @ [a]) @ busy t'"] kl len
      by (simp add: owned_nth bt)
    then have "mset (fs' @ concat ((owned ts ass)[k := (?as @ [a]) @ busy t']))
        = mset (fs' @ a # concat (owned ts ass))" by simp
    moreover have "distinct (fs' @ a # concat (owned ts ass))"
      using inv ok' a'(1) out by (auto simp: pool_inv_def pool_ok_def)
    ultimately show ?thesis using mset_eq_imp_distinct_iff by blast
  qed
  have "pool_inv [] p' (ts[k := t']) fs' (ass[k := ?as @ [a]]) (vss[k := ?vs @ [m]])"
  proof (rule pool_inv_update [OF inv kl d'])
    fix j b assume j: "j < length ts" "j \<noteq> k" "b \<in> set (ass ! j @ busy (ts ! j))"
    have l: "live (items p) b" and nk: "b \<notin> set ?as"
      using pool_inv_apart [OF inv kl, of j b] j by auto
    have "b \<notin> set fs" using pool_inv_apart(1) [OF inv kl, of j b] j by auto
    with l a have "b \<noteq> a" by auto
    with nk keep [OF l] l
    show "live (items p') b = live (items p) b \<and> value_at (items p') b = value_at (items p) b \<and>
      get_next (items p') b = get_next (items p) b"
      by (simp add: p'_def live2 val2 next2)
  qed (simp_all add: p'_def pool2 tk')
  then show ?thesis by (rule that [OF disp]) (simp_all add: p'_def)
qed

subsection \<open>Runs\<close>

lemma calls_of_simps [simp]:
  "calls_of i [] = []" "calls_of i (xs @ ys) = calls_of i xs @ calls_of i ys"
  "calls_of i [(j, m)] = (if j = i then [m] else [])"
  by (simp_all add: calls_of_def)

lemma dispatched_simps [simp]:
  "dispatched [] = []" "dispatched (x # xs) = (case x of Dispatch m \<Rightarrow> [m] | _ \<Rightarrow> []) @ dispatched xs"
  by (simp_all add: dispatched_def)

lemma served_entered:
  assumes "served vss h out" "vss ! i = m # (vss' ! i)" "vss' = vss[i := vss' ! i]"
  shows "served vss' h (out @ [(i, m)])"
proof -
  have len: "length vss' = length vss" by (subst assms(3)) simp
  have "calls_of j (out @ [(i, m)]) @ vss' ! j = calls_of j out @ vss ! j" if "j < length vss" for j
  proof (cases "j = i")
    case True
    with assms(2) show ?thesis by simp
  next
    case False
    then have "vss' ! j = vss ! j" by (subst assms(3)) simp
    with False show ?thesis by simp
  qed
  with assms(1) len show ?thesis by (simp add: served_def)
qed

lemma served_dispatched:
  assumes "served vss h out" "k = length h mod length vss"
  shows "served (vss[k := vss ! k @ [m]]) (h @ [m]) out"
  using assms by (auto simp: served_def nths_snoc nth_list_update simp flip: append_assoc)

lemma current_thread_kept:
  "current_thread (LibevProcessor_return i p) = current_thread p"
  by (auto simp: LibevProcessor_return_def RQItemFree_def set_thread_def Let_def split: option.splits prod.splits)

lemma pool_step_inv:
  assumes inv: "pool_inv [] p ts fs ass vss" and s: "served vss h out"
    and c: "nat ((current_thread p + 1) mod int (length ts)) = length h mod length ts"
  obtains o' p' ts' fs' ass' vss' where "pool_step x p = Inr (o', p')" "pool_inv [] p' ts' fs' ass' vss'"
    "served vss' (h @ dispatched [x]) (out @ o')" "length ts' = length ts"
    "nat ((current_thread p' + 1) mod int (length ts)) = length (h @ dispatched [x]) mod length ts"
proof (cases x)
  case (Dispatch m)
  obtain p' ts' fs' ass' where d: "DispatchRpcCall m p = Inr (True, p')"
    "current_thread p' = int (length h mod length ts)" "length ts' = length ts"
    and inv': "pool_inv [] p' ts' fs' ass'
      (vss[length h mod length ts := vss ! (length h mod length ts) @ [m]])"
    using DispatchRpcCall_inv [OF inv c [symmetric]] by metis
  have "length vss = length ts" using inv by (simp add: pool_inv_def)
  then have "served (vss[length h mod length ts := vss ! (length h mod length ts) @ [m]]) (h @ [m]) out"
    using served_dispatched [OF s] by simp
  moreover have "nat ((current_thread p' + 1) mod int (length ts)) = Suc (length h) mod length ts"
    by (simp add: d(2) flip: of_nat_mod) (metis add.commute mod_Suc_eq nat_int of_nat_Suc of_nat_mod)
  ultimately show ?thesis using d inv' Dispatch by (intro that [of "[]" p' ts' fs' ass']) (simp_all add: pool_step_def)
next
  case (Wake i)
  show ?thesis
  proof (rule LibevProcessor_inv [OF inv, of i], goal_cases idle entered)
    case idle
    with inv s c Wake show ?thesis by (intro that [of "[]" p]) (simp_all add: pool_step_def)
  next
    case (entered m p' ts' ass' vss')
    with served_entered [OF s entered(3,4)] c Wake show ?thesis
      by (intro that [of "[(i, m)]" p' ts' fs ass' vss']) (simp_all add: pool_step_def)
  qed
next
  case (Return i)
  obtain ts' fs' where i: "pool_inv [] (LibevProcessor_return i p) ts' fs' ass vss"
    using LibevProcessor_return_inv [OF inv] by metis
  moreover from i inv have "length ts' = length ts" by (simp add: pool_inv_def)
  ultimately show ?thesis using s c Return
    by (intro that [of "[]" "LibevProcessor_return i p" ts' fs' ass vss]) (simp_all add: pool_step_def current_thread_kept)
qed

lemma pool_run_inv:
  assumes "pool_inv [] p ts fs ass vss" "served vss h out"
    and "nat ((current_thread p + 1) mod int (length ts)) = length h mod length ts"
  obtains outs p' ts' fs' ass' vss' where "pool_run xs p = Inr (outs, p')"
    "pool_inv [] p' ts' fs' ass' vss'" "served vss' (h @ dispatched xs) (out @ outs)"
    "length ts' = length ts"
  using assms
proof (induction xs arbitrary: p ts fs ass vss h out thesis)
  case Nil
  show ?case by (rule Nil.prems(1) [of "[]" p]) (use Nil.prems in auto)
next
  case (Cons x xs)
  obtain o' p1 ts1 fs1 ass1 vss1 where st: "pool_step x p = Inr (o', p1)"
    "pool_inv [] p1 ts1 fs1 ass1 vss1" "served vss1 (h @ dispatched [x]) (out @ o')" "length ts1 = length ts"
    "nat ((current_thread p1 + 1) mod int (length ts)) = length (h @ dispatched [x]) mod length ts"
    by (rule pool_step_inv [OF Cons.prems(2-4)])
  from st(5) have c: "nat ((current_thread p1 + 1) mod int (length ts1)) =
      length (h @ dispatched [x]) mod length ts1" by (simp only: st(4))
  obtain outs p2 ts2 fs2 ass2 vss2 where rn: "pool_run xs p1 = Inr (outs, p2)"
    "pool_inv [] p2 ts2 fs2 ass2 vss2" "served vss2 ((h @ dispatched [x]) @ dispatched xs) ((out @ o') @ outs)"
    "length ts2 = length ts1"
    by (rule Cons.IH [OF _ st(2,3) c])
  show ?case
    by (rule Cons.prems(1) [of "o' @ outs" p2 ts2 fs2 ass2 vss2]) (use st rn in auto)
qed

lemma pool_inv_start:
  assumes "0 < n"
  shows "pool_inv [] (snd (PoolStart n LibevThreadPool_new)) (map init_thread [0..<nat n]) []
    (replicate (nat n) []) (replicate (nat n) [])"
proof -
  have "concat (owned (map init_thread [0..<nat n]) (replicate (nat n) [])) = []"
    by (auto simp: owned_def set_zip init_thread_def busy_def)
  then have "distinct (concat (owned (map init_thread [0..<nat n]) (replicate (nat n) [])))"
    by (simp only: distinct.simps)
  then show ?thesis
    using assms
    by (auto simp del: distinct_concat_iff simp: pool_inv_def PoolStart_def LibevThreadInitialization_def LibevThreadPool_new_def
        Let_def thread_ok_def init_thread_def queue_of_def busy_def pool_ok_def empty_store_def live_def)
qed

subsection \<open>Shutting down\<close>

lemma Destroy_notify_inv:
  assumes "pool_inv [] p ts fs ass vss"
  shows "pool_inv ''q'' (Destroy_notify p) (map (\<lambda>t. t\<lparr>pipe := pipe t @ ''q''\<rparr>) ts) fs ass vss"
proof -
  let ?f = "\<lambda>t. t\<lparr>pipe := pipe t @ ''q''\<rparr>"
  have "busy (?f t) = busy t" for t by (simp add: busy_def)
  then have "owned (map ?f ts) ass = owned ts ass"
    by (induction ts ass rule: list_induct2') (simp_all add: owned_def)
  with assms show ?thesis
    by (simp add: pool_inv_def Destroy_notify_def thread_ok_def) (simp add: busy_def)
qed

text \<open>A callback and its return, when a call is waiting.\<close>

lemma worker_round:
  assumes inv: "pool_inv s p ts fs ass vss" and i: "i < length ts" "running (ts ! i) = None"
    and vs: "vss ! i = m # ms"
  obtains p' ts' fs' ass' where "LibevProcessor i p = Inr (Some m, p')"
    "pool_inv s (LibevProcessor_return i p') ts' fs' ass' (vss[i := ms])"
    "length ts' = length ts" "running (ts' ! i) = None"
proof -
  have "ass ! i \<noteq> []" using pool_inv_thread [OF inv i(1)] vs by (auto simp: thread_ok_def)
  then obtain m' p' ts' ass' vss' where e: "LibevProcessor i p = Inr (Some m', p')"
    "vss ! i = m' # (vss' ! i)" "vss' = vss[i := vss' ! i]" "pool_inv s p' ts' fs ass' vss'"
    "length ts' = length ts"
    using LibevProcessor_enters [OF inv i] by metis
  obtain ts2 fs2 where r: "pool_inv s (LibevProcessor_return i p') ts2 fs2 ass' vss'"
    using LibevProcessor_return_inv [OF e(4)] by metis
  have "running (the (libev_threads (LibevProcessor_return i p')) ! i) = None"
    using e(4,5) i(1)
    by (simp add: LibevProcessor_return_def pool_inv_def RQItemFree_def set_thread_def Let_def
        give_item_def split: option.splits)
  then have "running (ts2 ! i) = None" using r by (simp add: pool_inv_def)
  moreover have "length ts2 = length ts" using r e(4,5) by (simp add: pool_inv_def)
  moreover have "m' = m" "vss' = vss[i := ms]" using e(2,3) vs by simp_all
  ultimately show ?thesis using that [of p' ts2 fs2 ass'] e(1) r by simp
qed

lemma worker_stopped:
  assumes "libev_threads p = Some ts" "\<not> looping (ts ! i)" "running (ts ! i) = None"
  shows "LibevWorker fuel i p = Inr ([], p)"
proof -
  have "LibevProcessor i p = Inr (None, p)" "LibevProcessor_return i p = p"
    using assms by (simp_all add: LibevProcessor_def LibevProcessor_return_def)
  then show ?thesis by (induction fuel) simp_all
qed

lemma worker_drains:
  assumes "pool_inv ''q'' p ts fs ass vss" "i < length ts" "running (ts ! i) = None"
    "length (vss ! i) < fuel"
  shows "\<exists>p' ts'. LibevWorker fuel i p = Inr (vss ! i, p') \<and>
    libev_threads p' = Some ts' \<and> \<not> looping (ts' ! i)"
  using assms
proof (induction fuel arbitrary: p ts fs ass vss)
  case (Suc fuel)
  show ?case
  proof (cases "vss ! i")
    case Nil
    have t: "thread_ok ''q'' (items p) (ts ! i) (ass ! i) (vss ! i)"
      by (rule pool_inv_thread [OF Suc.prems(1,2)])
    let ?t = "(ts ! i)\<lparr>pipe := [], looping := False\<rparr>"
    have ts: "libev_threads p = Some ts" using Suc.prems(1) by (simp add: pool_inv_def)
    have "LibevProcessor i p = Inr (None, set_thread i ?t p)"
      using t Nil ts Suc.prems(2,3) by (simp add: LibevProcessor_def thread_ok_def Let_def)
    moreover have st: "libev_threads (set_thread i ?t p) = Some (ts[i := ?t])"
      using ts by (simp add: set_thread_def)
    moreover have "LibevProcessor_return i (set_thread i ?t p) = set_thread i ?t p"
      using st Suc.prems(2,3) by (simp add: LibevProcessor_return_def)
    moreover have "LibevWorker fuel i (set_thread i ?t p) = Inr ([], set_thread i ?t p)"
      by (rule worker_stopped [OF st]) (simp_all add: Suc.prems(2,3))
    ultimately show ?thesis using Nil Suc.prems(2) by simp
  next
    case (Cons m ms)
    obtain p' ts' fs' ass' where e: "LibevProcessor i p = Inr (Some m, p')"
      "pool_inv ''q'' (LibevProcessor_return i p') ts' fs' ass' (vss[i := ms])"
      "length ts' = length ts" "running (ts' ! i) = None"
      by (rule worker_round [OF Suc.prems(1-3) Cons])
    have "i < length vss" using Suc.prems(1,2) by (simp add: pool_inv_def)
    with Suc.IH [OF e(2) _ e(4)] e(3) Suc.prems(2,4) Cons e(1) show ?thesis by fastforce
  qed
qed simp

subsection \<open>Properties\<close>

lemma Destroy_release_free: "Destroy_release steps p = Inr p"
  by (cases steps) (simp_all add: Destroy_release_def)

lemma pool_never_faults:
  assumes "0 < n"
  shows "\<exists>out p ts fs ass vss. pool_run xs (snd (PoolStart n LibevThreadPool_new)) = Inr (out, p) \<and>
    pool_inv [] p ts fs ass vss \<and> served vss (dispatched xs) out \<and> length ts = nat n"
proof -
  let ?p = "snd (PoolStart n LibevThreadPool_new)"
  have c: "nat ((current_thread ?p + 1) mod int (length (map init_thread [0..<nat n]))) =
      length [] mod length (map init_thread [0..<nat n])"
    by (simp add: PoolStart_def LibevThreadInitialization_def LibevThreadPool_new_def Let_def)
  obtain outs p' ts' fs' ass' vss' where r: "pool_run xs ?p = Inr (outs, p')"
    "pool_inv [] p' ts' fs' ass' vss'" "served vss' ([] @ dispatched xs) ([] @ outs)"
    "length ts' = length (map init_thread [0..<nat n])"
    by (rule pool_run_inv [OF pool_inv_start [OF assms] _ c, of "[]"]) (simp add: served_def)
  then show ?thesis by auto
qed

text \<open>Whatever the interleaving of dispatches, callbacks and returns, a pool started with \<open>n > 0\<close> threads
  never faults, and thread \<open>i\<close> enters a prefix of the calls of its turns, number \<open>i\<close>, \<open>i + n\<close>, \<open>i + 2 n\<close>...\<close>

lemma pool_serves_in_turn:
  assumes "0 < n"
  shows "\<exists>out p. pool_run xs (snd (PoolStart n LibevThreadPool_new)) = Inr (out, p) \<and>
    (\<forall>i<nat n. prefix (calls_of i out) (nths (dispatched xs) {j. j mod nat n = i}))"
proof -
  obtain out p ts fs ass vss where r: "pool_run xs (snd (PoolStart n LibevThreadPool_new)) = Inr (out, p)"
    "pool_inv [] p ts fs ass vss" "served vss (dispatched xs) out" "length ts = nat n"
    using pool_never_faults [OF assms] by metis
  then have "length vss = nat n" by (simp add: pool_inv_def)
  with r show ?thesis by (auto simp: served_def) (metis prefixI)
qed

text \<open>C29: Shutting down loses no call, unless a thread was restarted. Take any interleaving of dispatches,
  callbacks and returns on a pool of \<open>n > 0\<close> threads none of which is ever restarted, then let the destructor write its
  \<open>q\<close> bytes: the worker of thread \<open>i\<close>, once its present call has returned, enters every call of
  its turns that is still waiting, in order, and only then leaves its loop, so that the
  destructor's join returns. (Its walk over the free list then releases nothing at all: its
  condition is false at once, and every block of request items stays allocated.)\<close>

lemma Destroy_loses_no_call:
  assumes "0 < n" "pool_run xs (snd (PoolStart n LibevThreadPool_new)) = Inr (out, p)" "i < nat n"
    "length (dispatched xs) < fuel"
  shows "\<exists>rest p' ts. LibevWorker fuel i (LibevProcessor_return i (Destroy_notify p)) = Inr (rest, p') \<and>
    calls_of i out @ rest = nths (dispatched xs) {j. j mod nat n = i} \<and>
    libev_threads p' = Some ts \<and> \<not> looping (ts ! i) \<and> Destroy_release steps p' = Inr p'"
proof -
  obtain ts fs ass vss where inv: "pool_inv [] p ts fs ass vss" and s: "served vss (dispatched xs) out"
    and len: "length ts = nat n"
    using pool_never_faults [OF assms(1), of xs] assms(2) by auto
  let ?q = "Destroy_notify p" and ?ts = "map (\<lambda>t. t\<lparr>pipe := pipe t @ ''q''\<rparr>) ts"
  obtain ts2 fs2 where r: "pool_inv ''q'' (LibevProcessor_return i ?q) ts2 fs2 ass vss"
    using LibevProcessor_return_inv [OF Destroy_notify_inv [OF inv]] by metis
  have len2: "length ts2 = nat n" "length vss = nat n" using r inv len by (simp_all add: pool_inv_def)
  have "libev_threads ?q = Some ?ts" using inv by (simp add: Destroy_notify_def pool_inv_def)
  then have "running (the (libev_threads (LibevProcessor_return i ?q)) ! i) = None"
    using assms(3) len
    by (simp add: LibevProcessor_return_def RQItemFree_def set_thread_def Let_def
        give_item_def split: option.splits)
  then have idle: "running (ts2 ! i) = None" using r by (simp add: pool_inv_def)
  have split: "calls_of i out @ vss ! i = nths (dispatched xs) {j. j mod nat n = i}"
    using s assms(3) len2 by (simp add: served_def)
  then have "length (vss ! i) \<le> length (nths (dispatched xs) {j. j mod nat n = i})"
    by (metis length_append le_add2)
  also have "\<dots> \<le> length (dispatched xs)"
    by (simp add: length_nths) (metis (no_types, lifting) card_mono finite_Collect_less_nat card_Collect_less_nat mem_Collect_eq subsetI)
  finally have "length (vss ! i) < fuel" using assms(4) by simp
  with worker_drains [OF r _ idle] len2 assms(3) split show ?thesis
    by (fastforce simp: Destroy_release_free)
qed

theorem Destroy_loses_no_call_witness:
  "\<exists>out p. pool_run [Dispatch (7::nat), Dispatch 8, Dispatch 9, Wake 0]
      (snd (PoolStart 2 LibevThreadPool_new)) = Inr (out, p) \<and>
    (\<exists>rest p' ts. LibevWorker 4 0 (LibevProcessor_return 0 (Destroy_notify p)) = Inr (rest, p') \<and>
      calls_of 0 out @ rest = nths (dispatched [Dispatch 7, Dispatch 8, Dispatch 9, Wake 0])
        {j. j mod nat 2 = 0} \<and>
      libev_threads p' = Some ts \<and> \<not> looping (ts ! 0) \<and> Destroy_release 0 p' = Inr p')"
proof -
  let ?xs = "[Dispatch (7::nat), Dispatch 8, Dispatch 9, Wake 0]"
  obtain out p where r: "pool_run ?xs (snd (PoolStart 2 LibevThreadPool_new)) = Inr (out, p)"
    using pool_never_faults [of 2 ?xs] by auto
  show ?thesis
    using r Destroy_loses_no_call [OF _ r, of 0 4 0] by auto
qed

end
