(* ===== verification/Timers.thy ===== *)
theory Timers
  imports ConfigParser OrdMap Hashing
begin

section \<open>Connection timers (rpc\_server/connection\_timer\_manager.cpp)\<close>

text \<open>
  Every server thread has a buffer of new timers and a list of keys to delete; the background
  thread moves them once a second into 60 buckets, keyed by "address_fd", and looks at one bucket
  a second. A null \<open>shared_ptr\<close> is \<open>None\<close>. The unordered maps of the buffers are kept in key
  order like the others: the order in which the crawler visits a buffer has no effect, its keys
  being distinct. The time is a function of the number of calls of \<open>time\<close> so far. Locks are
  left out. The refinement says what a crawl does to the map from keys to timers.
\<close>

subsection \<open>State\<close>

record ConnectionTimer =
  expire_time :: int
  timer_fd :: int
  timer_version :: nat
  timer_thread :: nat
  client_addr :: string

type_synonym timer_map = "(string, ConnectionTimer) omap"

record ctm =
  connection_buf :: "timer_map option list"
  connection_pool_buckets :: "timer_map option list"
  connection_del_list :: "string list option list"
  refresh_client_list :: "string list option"
  refresh_interval :: int
  buf_index :: nat
  bucket_index :: nat
  ctm_running :: bool

abbreviation buckets_size :: nat where "buckets_size \<equiv> 60"

text \<open>\<open>reserve\<close> of a negative capacity throws.\<close>

definition ConnectionTimerManager_new :: "ConfigParser \<Rightarrow> fault + ctm" where
  "ConnectionTimerManager_new cp =
     (case (IniGetInt cp ''rpc_server:thread_num'' 10, IniGetInt cp ''rpc_server:client_timeout'' 30) of
        (Inr thread_num, Inr timeout) \<Rightarrow>
          if thread_num < 0 then Inl OutOfRange
          else Inr \<lparr>connection_buf = [], connection_pool_buckets = replicate buckets_size None,
                 connection_del_list = [], refresh_client_list = Some [],
                 refresh_interval = timeout, buf_index = 0, bucket_index = 0,
                 ctm_running = False\<rparr>
      | (Inl f, _) \<Rightarrow> Inl f
      | (_, Inl f) \<Rightarrow> Inl f)"

subsection \<open>Keys\<close>

text \<open>\<open>std::to_string\<close>.\<close>

fun digits :: "nat \<Rightarrow> string" where
  "digits n = (if n < 10 then [char_of (48 + n)] else digits (n div 10) @ [char_of (48 + n mod 10)])"

declare digits.simps [simp del]

definition to_string :: "int \<Rightarrow> string" where
  "to_string i = (if i < 0 then ''-'' @ digits (nat (- i)) else digits (nat i))"

definition GenerateTimerKey :: "string \<Rightarrow> int \<Rightarrow> string" where
  "GenerateTimerKey ip_addr fd = ip_addr @ ''_'' @ to_string fd"

definition GenerateBucketNum :: "string \<Rightarrow> nat" where
  "GenerateBucketNum key = unat (BKDRHash (c_str key)) mod buckets_size"

subsection \<open>Operations of the server threads\<close>

definition InitTimerBuf :: "ctm \<Rightarrow> nat \<times> ctm" where
  "InitTimerBuf m =
     (buf_index m,
      m\<lparr>connection_buf := connection_buf m @ [Some []],
        connection_del_list := connection_del_list m @ [Some []],
        buf_index := Suc (buf_index m), ctm_running := True\<rparr>)"

definition InsertConnectionTimer ::
  "int \<Rightarrow> string \<Rightarrow> int \<Rightarrow> nat \<Rightarrow> nat \<Rightarrow> nat \<Rightarrow> ctm \<Rightarrow> fault + ctm" where
  "InsertConnectionTimer now ip_addr fd index version thread m =
     (if length (connection_buf m) \<le> index then Inl OutOfRange
      else
        (let ct = \<lparr>expire_time = now + refresh_interval m, timer_fd = fd, timer_version = version,
                   timer_thread = thread, client_addr = ip_addr\<rparr>;
             buf = (case connection_buf m ! index of None \<Rightarrow> [] | Some b \<Rightarrow> b)
         in Inr (m\<lparr>connection_buf :=
              (connection_buf m)[index := Some (om_insert (GenerateTimerKey ip_addr fd) ct buf)]\<rparr>)))"

definition DeleteConnectionTimer :: "string \<Rightarrow> int \<Rightarrow> nat \<Rightarrow> ctm \<Rightarrow> fault + ctm" where
  "DeleteConnectionTimer ip_addr fd index m =
     (if length (connection_del_list m) \<le> index then Inl OutOfRange
      else
        (let dels = (case connection_del_list m ! index of None \<Rightarrow> [] | Some ds \<Rightarrow> ds)
         in Inr (m\<lparr>connection_del_list :=
              (connection_del_list m)[index := Some (dels @ [GenerateTimerKey ip_addr fd])]\<rparr>)))"

definition InsertRefreshConnectionInfo :: "string \<Rightarrow> ctm \<Rightarrow> bool \<times> ctm" where
  "InsertRefreshConnectionInfo ip_addr m =
     (True, m\<lparr>refresh_client_list :=
        Some (List.insert ip_addr (case refresh_client_list m of None \<Rightarrow> [] | Some s \<Rightarrow> s))\<rparr>)"

subsection \<open>The crawler\<close>

text \<open>One key of a delete list: out of the local buffer, then out of its bucket.\<close>

definition delete_key ::
  "string \<Rightarrow> timer_map option \<times> timer_map option list \<Rightarrow> timer_map option \<times> timer_map option list" where
  "delete_key key lb =
     (case lb of (local, buckets) \<Rightarrow>
        (map_option (om_erase key) local,
         buckets[GenerateBucketNum key := map_option (om_erase key) (buckets ! GenerateBucketNum key)]))"

text \<open>One timer of the buffer into its bucket; \<open>insert\<close> leaves a timer of the same key alone.\<close>

definition pool_insert :: "string \<times> ConnectionTimer \<Rightarrow> timer_map option list \<Rightarrow> timer_map option list" where
  "pool_insert kc buckets =
     (case kc of (key, ct) \<Rightarrow>
        (let b = GenerateBucketNum key;
             bucket = (case buckets ! b of None \<Rightarrow> [] | Some bk \<Rightarrow> bk)
         in buckets[b := Some (om_insert key ct bucket)]))"

definition crawl_one :: "nat \<Rightarrow> ctm \<Rightarrow> ctm" where
  "crawl_one i m =
     (let dels = connection_del_list m ! i;
          local = connection_buf m ! i;
          m = m\<lparr>connection_del_list := (connection_del_list m)[i := None],
                connection_buf := (connection_buf m)[i := None]\<rparr>;
          (local, buckets) = (case dels of
              None \<Rightarrow> (local, connection_pool_buckets m)
            | Some ks \<Rightarrow> fold delete_key ks (local, connection_pool_buckets m))
      in m\<lparr>connection_pool_buckets :=
           (case local of None \<Rightarrow> buckets | Some timers \<Rightarrow> fold pool_insert timers buckets)\<rparr>)"

definition ConnectionBufCrawler :: "ctm \<Rightarrow> ctm" where
  "ConnectionBufCrawler m = fold crawl_one [0..<length (connection_buf m)] m"

subsection \<open>The look at a bucket\<close>

text \<open>
  The loop over the bucket, from position \<open>i\<close>, with \<open>done\<close> the timers already passed. \<open>ct_ptr\<close> is a
  reference into the map's node: once the node is erased, the next use of \<open>ct_ptr\<close> reads freed
  memory. \<open>clock k\<close> is the k-th result of \<open>time\<close>.
\<close>

definition host_of :: "string \<Rightarrow> string option" where
  "host_of key = (if CHR ''_'' \<in> set key then Some (takeWhile (\<lambda>c. c \<noteq> CHR ''_'') key) else None)"

fun look_timers ::
  "(nat \<Rightarrow> int) \<Rightarrow> int \<Rightarrow> string list option \<Rightarrow> nat \<Rightarrow> timer_map \<Rightarrow> timer_map \<Rightarrow> fault + timer_map" where
  "look_timers clock interval refresh n passed [] = Inr passed"
| "look_timers clock interval refresh n passed ((key, ct) # rest) =
     (case (case refresh of
              None \<Rightarrow> Some (ct, n)
            | Some hosts \<Rightarrow>
                (case host_of key of
                   None \<Rightarrow> None
                 | Some h \<Rightarrow>
                     if h \<in> set hosts then Some (ct\<lparr>expire_time := clock n + interval\<rparr>, Suc n)
                     else Some (ct, n))) of
        None \<Rightarrow> Inl UseAfterFree
      | Some (ct, n) \<Rightarrow>
          if expire_time ct > clock n then Inl UseAfterFree
          else look_timers clock interval refresh (Suc n) (passed @ [(key, ct)]) rest)"

definition next_bucket :: "ctm \<Rightarrow> ctm" where
  "next_bucket m = m\<lparr>bucket_index := (bucket_index m + 1) mod buckets_size\<rparr>"

text \<open>One round of \<open>Run\<close>.\<close>

definition timer_round :: "(nat \<Rightarrow> int) \<Rightarrow> ctm \<Rightarrow> fault + ctm" where
  "timer_round clock m =
     (let m = ConnectionBufCrawler m in
      case connection_pool_buckets m ! bucket_index m of
        None \<Rightarrow> Inr (next_bucket m)
      | Some bucket \<Rightarrow>
          if bucket = [] then Inr (next_bucket m)
          else
            (let refresh = refresh_client_list m;
                 m = m\<lparr>refresh_client_list := None\<rparr>
             in case look_timers clock (refresh_interval m) refresh 0 [] bucket of
                  Inl f \<Rightarrow> Inl f
                | Inr bucket' \<Rightarrow>
                    Inr (next_bucket (m\<lparr>connection_pool_buckets :=
                      (connection_pool_buckets m)[bucket_index m := Some bucket']\<rparr>))))"

text \<open>\<open>Run\<close> for at most \<open>fuel\<close> rounds; the clocks of the rounds are a list.\<close>

primrec timer_rounds :: "(nat \<Rightarrow> int) list \<Rightarrow> ctm \<Rightarrow> fault + ctm" where
  "timer_rounds [] m = Inr m"
| "timer_rounds (clock # clocks) m =
     (if \<not> ctm_running m then Inr m
      else (case timer_round clock m of Inl f \<Rightarrow> Inl f | Inr m \<Rightarrow> timer_rounds clocks m))"

definition TimerRun :: "(nat \<Rightarrow> int) list \<Rightarrow> ctm \<Rightarrow> fault + ctm" where
  "TimerRun clocks m = timer_rounds clocks (m\<lparr>bucket_index := 0\<rparr>)"

end
