(* ===== verification/TimerSafety.thy ===== *)
theory TimerSafety
  imports Timers
begin

section \<open>What the connection timers promise\<close>

text \<open>
  The invariant of the buckets, the refinement of the crawler to a map from keys to timers, and
  what a look at a bucket does to the timers that are still running.
\<close>

subsection \<open>The buckets as one map\<close>

definition pool_lookup :: "timer_map option list \<Rightarrow> string \<Rightarrow> ConnectionTimer option" where
  "pool_lookup buckets k =
     (case buckets ! GenerateBucketNum k of None \<Rightarrow> None | Some b \<Rightarrow> map_of b k)"

definition bucket_ok :: "nat \<Rightarrow> timer_map option \<Rightarrow> bool" where
  "bucket_ok i bo \<longleftrightarrow>
     (case bo of None \<Rightarrow> True
      | Some b \<Rightarrow> om_wf b \<and> (\<forall>k\<in>fst ` set b. GenerateBucketNum k = i))"

definition pool_wf :: "timer_map option list \<Rightarrow> bool" where
  "pool_wf buckets \<longleftrightarrow> length buckets = buckets_size \<and> (\<forall>i<buckets_size. bucket_ok i (buckets ! i))"

lemma GenerateBucketNum_less [simp]: "GenerateBucketNum k < buckets_size"
  by (simp add: GenerateBucketNum_def)

lemma pool_wf_update: "pool_wf buckets \<Longrightarrow> bucket_ok i b \<Longrightarrow> pool_wf (buckets[i := b])"
  unfolding pool_wf_def by (metis length_list_update nth_list_update_eq nth_list_update_neq)

lemma pool_wf_bucket: "pool_wf buckets \<Longrightarrow> bucket_ok (GenerateBucketNum k) (buckets ! GenerateBucketNum k)"
  by (simp add: pool_wf_def)

lemma delete_key_pool:
  assumes "pool_wf buckets"
  shows "pool_wf (snd (delete_key k (local, buckets)))"
    "pool_lookup (snd (delete_key k (local, buckets))) = (pool_lookup buckets)(k := None)"
proof -
  let ?b = "GenerateBucketNum k"
  have "bucket_ok ?b (map_option (om_erase k) (buckets ! ?b))"
    using pool_wf_bucket [OF assms, of k]
    by (auto simp: bucket_ok_def om_erase_def om_wf_filter split: option.splits)
  with assms show "pool_wf (snd (delete_key k (local, buckets)))"
    by (simp add: delete_key_def pool_wf_update)
  have len: "length buckets = buckets_size" using assms by (simp add: pool_wf_def)
  show "pool_lookup (snd (delete_key k (local, buckets))) = (pool_lookup buckets)(k := None)"
  proof
    fix x
    show "pool_lookup (snd (delete_key k (local, buckets))) x = ((pool_lookup buckets)(k := None)) x"
      using len by (cases "GenerateBucketNum x = ?b")
        (auto simp: pool_lookup_def delete_key_def map_of_om_erase split: option.splits)
  qed
qed

lemma pool_insert_pool:
  assumes "pool_wf buckets"
  shows "pool_wf (pool_insert (k, ct) buckets)"
    "pool_lookup (pool_insert (k, ct) buckets) =
       (case pool_lookup buckets k of None \<Rightarrow> (pool_lookup buckets)(k \<mapsto> ct) | Some _ \<Rightarrow> pool_lookup buckets)"
proof -
  let ?b = "GenerateBucketNum k"
  define old where "old = (case buckets ! ?b of None \<Rightarrow> [] | Some bk \<Rightarrow> bk)"
  have old: "om_wf old" "\<forall>x\<in>fst ` set old. GenerateBucketNum x = ?b"
    using pool_wf_bucket [OF assms, of k] by (auto simp: old_def bucket_ok_def split: option.splits)
  have new: "pool_insert (k, ct) buckets = buckets[?b := Some (om_insert k ct old)]"
    by (simp add: pool_insert_def Let_def old_def)
  have "bucket_ok ?b (Some (om_insert k ct old))"
    unfolding bucket_ok_def option.case fst_om_insert using old by (intro conjI om_wf_insert) auto
  with assms show "pool_wf (pool_insert (k, ct) buckets)"
    unfolding new by (rule pool_wf_update)
  have len: "length buckets = buckets_size" using assms by (simp add: pool_wf_def)
  have look: "map_of old x = pool_lookup buckets x" if "GenerateBucketNum x = ?b" for x
    using that by (simp add: pool_lookup_def old_def split: option.splits)
  have ins: "pool_lookup (pool_insert (k, ct) buckets) x =
      (if GenerateBucketNum x = ?b then map_of (om_insert k ct old) x else pool_lookup buckets x)" for x
    using len by (simp add: new pool_lookup_def)
  show "pool_lookup (pool_insert (k, ct) buckets) =
       (case pool_lookup buckets k of None \<Rightarrow> (pool_lookup buckets)(k \<mapsto> ct) | Some _ \<Rightarrow> pool_lookup buckets)"
  proof
    fix x
    have k: "map_of old k = pool_lookup buckets k" by (rule look) simp
    show "pool_lookup (pool_insert (k, ct) buckets) x =
       (case pool_lookup buckets k of None \<Rightarrow> (pool_lookup buckets)(k \<mapsto> ct) | Some _ \<Rightarrow> pool_lookup buckets) x"
      using look [of x] k
      by (cases "GenerateBucketNum x = ?b")
        (auto simp: ins map_of_om_insert [OF old(1)] split: option.splits)
  qed
qed

subsection \<open>One buffer\<close>

lemma fold_delete_key:
  "pool_wf buckets \<Longrightarrow> pool_wf (snd (fold delete_key ks (local, buckets))) \<and>
   pool_lookup (snd (fold delete_key ks (local, buckets))) = pool_lookup buckets |` (- set ks) \<and>
   fst (fold delete_key ks (local, buckets)) = map_option (fold om_erase ks) local"
proof (induction ks arbitrary: local buckets)
  case Nil
  then show ?case by (cases local) (simp_all add: restrict_map_def)
next
  case (Cons k ks)
  let ?lb = "delete_key k (local, buckets)"
  have e: "?lb = (map_option (om_erase k) local, snd ?lb)" by (simp add: delete_key_def)
  have f: "fold delete_key (k # ks) (local, buckets) =
      fold delete_key ks (map_option (om_erase k) local, snd ?lb)"
    by (simp add: e [symmetric])
  have "pool_lookup (snd ?lb) |` (- set ks) = pool_lookup buckets |` (- set (k # ks))"
    by (simp add: delete_key_pool(2) [OF Cons.prems] restrict_map_def fun_eq_iff)
  then show ?case
    unfolding f using Cons.IH [OF delete_key_pool(1) [OF Cons.prems], of "map_option (om_erase k) local"]
    by (cases local) simp_all
qed

lemma fold_om_erase:
  "om_wf m \<Longrightarrow> om_wf (fold om_erase ks m) \<and> map_of (fold om_erase ks m) = map_of m |` (- set ks)"
proof (induction ks arbitrary: m)
  case (Cons k ks)
  from Cons.IH [OF om_wf_erase [OF Cons.prems]] show ?case
    by (simp add: map_of_om_erase restrict_map_def fun_eq_iff)
qed (simp add: restrict_map_def)

lemma fold_pool_insert:
  assumes "pool_wf buckets" "om_wf timers"
  shows "pool_wf (fold pool_insert timers buckets) \<and>
    pool_lookup (fold pool_insert timers buckets) = map_of timers ++ pool_lookup buckets"
  using assms
proof (induction timers arbitrary: buckets)
  case (Cons kc timers)
  obtain k ct where kc: "kc = (k, ct)" by fastforce
  have wf: "om_wf timers" and none: "map_of timers k = None"
    using Cons.prems(2) by (auto simp: kc om_wf_Cons map_of_eq_None_iff)
  note ins = pool_insert_pool [OF Cons.prems(1), of k ct]
  from Cons.IH [OF ins(1) wf] show ?case
    using none by (auto simp: kc ins(2) fun_eq_iff map_add_def split: option.splits)
qed simp

subsection \<open>The crawler\<close>

definition opt_map :: "timer_map option \<Rightarrow> string \<Rightarrow> ConnectionTimer option" where
  "opt_map bo = (case bo of None \<Rightarrow> Map.empty | Some b \<Rightarrow> map_of b)"

definition opt_keys :: "string list option \<Rightarrow> string set" where
  "opt_keys ds = (case ds of None \<Rightarrow> {} | Some ks \<Rightarrow> set ks)"

definition ctm_wf :: "ctm \<Rightarrow> bool" where
  "ctm_wf m \<longleftrightarrow>
     pool_wf (connection_pool_buckets m) \<and> bucket_index m < buckets_size \<and>
     length (connection_buf m) = buf_index m \<and> length (connection_del_list m) = buf_index m \<and>
     (\<forall>b\<in>set (connection_buf m). case b of None \<Rightarrow> True | Some t \<Rightarrow> om_wf t)"

text \<open>The abstract crawl of one buffer \<open>B\<close> with its deleted keys \<open>D\<close> into the timers \<open>T\<close>.\<close>

definition absorb ::
  "(string \<Rightarrow> ConnectionTimer option) \<times> string set \<Rightarrow> (string \<Rightarrow> ConnectionTimer option) \<Rightarrow>
   string \<Rightarrow> ConnectionTimer option" where
  "absorb BD T = (case BD of (B, D) \<Rightarrow> (B ++ T) |` (- D))"

lemma crawl_one_frame:
  "connection_buf (crawl_one i m) = (connection_buf m)[i := None]"
  "connection_del_list (crawl_one i m) = (connection_del_list m)[i := None]"
  "refresh_client_list (crawl_one i m) = refresh_client_list m"
  "refresh_interval (crawl_one i m) = refresh_interval m" "buf_index (crawl_one i m) = buf_index m"
  "bucket_index (crawl_one i m) = bucket_index m" "ctm_running (crawl_one i m) = ctm_running m"
  by (simp_all add: crawl_one_def Let_def split: prod.splits)

lemma crawl_one_pool:
  assumes "pool_wf (connection_pool_buckets m)"
    and "case connection_buf m ! i of None \<Rightarrow> True | Some t \<Rightarrow> om_wf t"
  shows "pool_wf (connection_pool_buckets (crawl_one i m)) \<and>
    pool_lookup (connection_pool_buckets (crawl_one i m)) =
      absorb (opt_map (connection_buf m ! i), opt_keys (connection_del_list m ! i))
        (pool_lookup (connection_pool_buckets m))"
proof -
  define ks where "ks = (case connection_del_list m ! i of None \<Rightarrow> [] | Some ks \<Rightarrow> ks)"
  have ks: "set ks = opt_keys (connection_del_list m ! i)"
    by (simp add: ks_def opt_keys_def split: option.splits)
  define lb where "lb = fold delete_key ks (connection_buf m ! i, connection_pool_buckets m)"
  have crawl: "connection_pool_buckets (crawl_one i m) =
      (case fst lb of None \<Rightarrow> snd lb | Some timers \<Rightarrow> fold pool_insert timers (snd lb))"
    by (simp add: crawl_one_def Let_def lb_def ks_def split: option.splits prod.splits)
  have del: "pool_wf (snd lb)" "pool_lookup (snd lb) = pool_lookup (connection_pool_buckets m) |` (- set ks)"
    "fst lb = map_option (fold om_erase ks) (connection_buf m ! i)"
    using fold_delete_key [OF assms(1)] unfolding lb_def by blast+
  show ?thesis
  proof (cases "connection_buf m ! i")
    case None
    with del show ?thesis
      by (simp add: crawl absorb_def opt_map_def ks [symmetric])
  next
    case (Some t)
    have t: "om_wf (fold om_erase ks t)" "map_of (fold om_erase ks t) = map_of t |` (- set ks)"
      using fold_om_erase [of t ks] assms(2) Some by simp_all
    have "map_of t |` (- set ks) ++ T |` (- set ks) = (map_of t ++ T) |` (- set ks)" for T
      by (simp add: restrict_map_def fun_eq_iff map_add_def)
    with Some del fold_pool_insert [OF del(1) t(1)] t(2) show ?thesis
      by (simp add: crawl absorb_def opt_map_def ks [symmetric])
  qed
qed

lemma crawl_upto:
  assumes "ctm_wf m" "k \<le> buf_index m"
  shows "let m' = fold crawl_one [0..<k] m in
    connection_buf m' = replicate k None @ drop k (connection_buf m) \<and>
    connection_del_list m' = replicate k None @ drop k (connection_del_list m) \<and>
    pool_wf (connection_pool_buckets m') \<and>
    pool_lookup (connection_pool_buckets m') =
      fold absorb (map (\<lambda>i. (opt_map (connection_buf m ! i), opt_keys (connection_del_list m ! i))) [0..<k])
        (pool_lookup (connection_pool_buckets m))"
  using assms(2)
proof (induction k)
  case 0
  with assms(1) show ?case by (simp add: ctm_wf_def)
next
  case (Suc k)
  let ?m = "fold crawl_one [0..<k] m"
  have len: "k < length (connection_buf m)" "k < length (connection_del_list m)"
    using Suc.prems assms(1) by (simp_all add: ctm_wf_def)
  have ih: "connection_buf ?m = replicate k None @ drop k (connection_buf m)"
    "connection_del_list ?m = replicate k None @ drop k (connection_del_list m)"
    "pool_wf (connection_pool_buckets ?m)"
    "pool_lookup (connection_pool_buckets ?m) =
      fold absorb (map (\<lambda>i. (opt_map (connection_buf m ! i), opt_keys (connection_del_list m ! i))) [0..<k])
        (pool_lookup (connection_pool_buckets m))"
    using Suc by (simp_all add: Let_def)
  have nth: "connection_buf ?m ! k = connection_buf m ! k" "connection_del_list ?m ! k = connection_del_list m ! k"
    using len by (simp_all add: ih nth_append)
  have "connection_buf m ! k \<in> set (connection_buf m)" using len by simp
  with assms(1) have "case connection_buf ?m ! k of None \<Rightarrow> True | Some t \<Rightarrow> om_wf t"
    unfolding nth ctm_wf_def by blast
  note one = crawl_one_pool [OF ih(3) this, unfolded nth ih(4)]
  have upd: "(replicate k None @ drop k xs)[k := None] = replicate (Suc k) None @ drop (Suc k) xs"
    if "k < length xs" for xs :: "'x option list"
    using that by (simp add: list_update_append Cons_nth_drop_Suc [symmetric] replicate_app_Cons_same)
  have "fold crawl_one [0..<Suc k] m = crawl_one k ?m" by simp
  then show ?case
    using one upd [OF len(1)] upd [OF len(2)] by (simp only: Let_def crawl_one_frame ih(1,2)) simp
qed

lemma fold_crawl_frame:
  "refresh_client_list (fold crawl_one is m) = refresh_client_list m"
  "refresh_interval (fold crawl_one is m) = refresh_interval m" "buf_index (fold crawl_one is m) = buf_index m"
  "bucket_index (fold crawl_one is m) = bucket_index m" "ctm_running (fold crawl_one is m) = ctm_running m"
  by (induction "is" arbitrary: m) (simp_all add: crawl_one_frame)

lemma crawler_frame:
  "refresh_client_list (ConnectionBufCrawler m) = refresh_client_list m"
  "refresh_interval (ConnectionBufCrawler m) = refresh_interval m"
  "buf_index (ConnectionBufCrawler m) = buf_index m"
  "bucket_index (ConnectionBufCrawler m) = bucket_index m"
  "ctm_running (ConnectionBufCrawler m) = ctm_running m"
  by (simp_all add: ConnectionBufCrawler_def fold_crawl_frame)

lemma crawler_spec:
  assumes "ctm_wf m"
  shows "ctm_wf (ConnectionBufCrawler m)"
    "pool_lookup (connection_pool_buckets (ConnectionBufCrawler m)) =
       fold absorb (zip (map opt_map (connection_buf m)) (map opt_keys (connection_del_list m)))
         (pool_lookup (connection_pool_buckets m))"
    "connection_buf (ConnectionBufCrawler m) = replicate (buf_index m) None"
    "connection_del_list (ConnectionBufCrawler m) = replicate (buf_index m) None"
proof -
  let ?n = "buf_index m"
  have len: "length (connection_buf m) = ?n" "length (connection_del_list m) = ?n"
    using assms by (simp_all add: ctm_wf_def)
  have "map (\<lambda>i. (opt_map (connection_buf m ! i), opt_keys (connection_del_list m ! i))) [0..<?n] =
      zip (map opt_map (connection_buf m)) (map opt_keys (connection_del_list m))"
    by (rule nth_equalityI) (simp_all add: len)
  then show "pool_lookup (connection_pool_buckets (ConnectionBufCrawler m)) =
       fold absorb (zip (map opt_map (connection_buf m)) (map opt_keys (connection_del_list m)))
         (pool_lookup (connection_pool_buckets m))"
    "connection_buf (ConnectionBufCrawler m) = replicate ?n None"
    "connection_del_list (ConnectionBufCrawler m) = replicate ?n None"
    using crawl_upto [OF assms order_refl] by (simp_all add: ConnectionBufCrawler_def len Let_def)
  moreover have "pool_wf (connection_pool_buckets (ConnectionBufCrawler m))"
    using crawl_upto [OF assms order_refl] by (simp add: ConnectionBufCrawler_def len Let_def)
  ultimately show "ctm_wf (ConnectionBufCrawler m)"
    using assms by (simp add: ctm_wf_def crawler_frame)
qed

subsection \<open>The other operations\<close>

lemma InitTimerBuf_wf: "ctm_wf m \<Longrightarrow> ctm_wf (snd (InitTimerBuf m))"
  by (simp add: InitTimerBuf_def ctm_wf_def)

lemma InsertConnectionTimer_wf:
  assumes "ctm_wf m" "InsertConnectionTimer now ip fd i v t m = Inr m'"
  shows "ctm_wf m'"
proof -
  have "om_wf (case connection_buf m ! i of None \<Rightarrow> [] | Some b \<Rightarrow> b)" if "i < length (connection_buf m)"
  proof -
    have "connection_buf m ! i \<in> set (connection_buf m)" using that by simp
    with assms(1) show ?thesis unfolding ctm_wf_def by (auto split: option.splits)
  qed
  with assms show ?thesis
    by (auto simp: InsertConnectionTimer_def ctm_wf_def Let_def split: if_splits
        dest!: set_update_subset_insert [THEN subsetD])
qed

lemma DeleteConnectionTimer_wf:
  "ctm_wf m \<Longrightarrow> DeleteConnectionTimer ip fd i m = Inr m' \<Longrightarrow> ctm_wf m'"
  by (auto simp: DeleteConnectionTimer_def ctm_wf_def Let_def split: if_splits)

lemma ConnectionTimerManager_new_wf: "ConnectionTimerManager_new cp = Inr m \<Longrightarrow> ctm_wf m"
  by (auto simp: ConnectionTimerManager_new_def ctm_wf_def pool_wf_def bucket_ok_def
      split: sum.splits if_splits)

subsection \<open>The look at a bucket\<close>

text \<open>A key that no refresh names.\<close>

definition not_refreshed :: "string list option \<Rightarrow> string \<Rightarrow> bool" where
  "not_refreshed refresh k \<longleftrightarrow>
     (case refresh of None \<Rightarrow> True
      | Some hosts \<Rightarrow> (case host_of k of None \<Rightarrow> False | Some h \<Rightarrow> h \<notin> set hosts))"

lemma look_timers_fault: "look_timers clock d r n passed b = Inl f \<Longrightarrow> f = UseAfterFree"
  by (induction clock d r n passed b rule: look_timers.induct)
    (auto split: option.splits if_splits)

lemma look_timers_keeps:
  "look_timers clock d r n passed b = Inr b' \<Longrightarrow>
   map fst b' = map fst (passed @ b) \<and>
   (\<forall>k. not_refreshed r k \<longrightarrow> map_of b' k = map_of (passed @ b) k)"
proof (induction clock d r n passed b rule: look_timers.induct)
  case (2 clock d r n passed key ct rest)
  from "2.prems" obtain ct' n' where step:
    "(case r of None \<Rightarrow> Some (ct, n)
      | Some hosts \<Rightarrow> (case host_of key of None \<Rightarrow> None
          | Some h \<Rightarrow> if h \<in> set hosts then Some (ct\<lparr>expire_time := clock n + d\<rparr>, Suc n) else Some (ct, n)))
      = Some (ct', n')"
    and le: "\<not> expire_time ct' > clock n'"
    and rest: "look_timers clock d r (Suc n') (passed @ [(key, ct')]) rest = Inr b'"
    by (auto split: option.splits if_splits)
  have ct': "ct' = ct" if "not_refreshed r key"
    using step that by (auto simp: not_refreshed_def split: option.splits if_splits)
  from "2.IH" [OF step refl le rest]
  have ih: "map fst b' = map fst ((passed @ [(key, ct')]) @ rest)"
    "\<forall>k. not_refreshed r k \<longrightarrow> map_of b' k = map_of ((passed @ [(key, ct')]) @ rest) k" by auto
  have "map_of ((passed @ [(key, ct')]) @ rest) k = map_of (passed @ (key, ct) # rest) k"
    if "not_refreshed r k" for k
    using that ct' by (cases "k = key") (simp_all add: map_add_def split: option.splits)
  with ih show ?case by simp
qed simp

text \<open>A timer that is still running at every reading of the clock.\<close>

lemma look_timers_running:
  assumes "(k, ct) \<in> set b" "not_refreshed r k" "\<And>n. clock n < expire_time ct"
  shows "look_timers clock d r n passed b = Inl UseAfterFree"
  using assms(1)
proof (induction b arbitrary: n passed)
  case (Cons kc b)
  show ?case
  proof (cases "kc = (k, ct)")
    case True
    with assms(2,3) show ?thesis by (auto simp: not_refreshed_def split: option.splits)
  next
    case False
    with Cons.prems have "(k, ct) \<in> set b" by auto
    with Cons.IH obtain key c where "kc = (key, c)"
      "\<And>n passed. look_timers clock d r n passed b = Inl UseAfterFree" by (cases kc) auto
    then show ?thesis by (auto split: option.splits)
  qed
qed simp

lemma look_timers_expired:
  assumes "\<forall>(k, ct)\<in>set b. not_refreshed r k \<and> (\<forall>n. expire_time ct \<le> clock n)"
  shows "look_timers clock d r n passed b = Inr (passed @ b)"
  using assms
proof (induction b arbitrary: n passed)
  case (Cons kc b)
  obtain k ct where kc: "kc = (k, ct)" by fastforce
  from Cons.prems have "not_refreshed r k" "\<And>n. \<not> expire_time ct > clock n" by (auto simp: kc not_less)
  moreover from Cons have "look_timers clock d r n passed b = Inr (passed @ b)" for n passed by simp
  ultimately show ?case by (simp add: kc not_refreshed_def split: option.splits)
qed simp

subsection \<open>A round\<close>

lemma next_bucket_simps [simp]:
  "connection_pool_buckets (next_bucket m) = connection_pool_buckets m"
  "connection_buf (next_bucket m) = connection_buf m"
  "connection_del_list (next_bucket m) = connection_del_list m"
  "refresh_client_list (next_bucket m) = refresh_client_list m"
  "buf_index (next_bucket m) = buf_index m" "ctm_running (next_bucket m) = ctm_running m"
  "bucket_index (next_bucket m) = (bucket_index m + 1) mod buckets_size"
  by (simp_all add: next_bucket_def)

lemma timer_round_cases:
  assumes wf: "ctm_wf m" and res: "timer_round clock m = r"
  defines "c \<equiv> ConnectionBufCrawler m"
  shows "(r = Inl UseAfterFree) \<or>
    (\<exists>m'. r = Inr m' \<and> ctm_wf m' \<and> connection_buf m' = replicate (buf_index m) None \<and>
       connection_del_list m' = replicate (buf_index m) None \<and> buf_index m' = buf_index m \<and>
       bucket_index m' = (bucket_index m + 1) mod buckets_size \<and> ctm_running m' = ctm_running m \<and>
       (refresh_client_list m' = refresh_client_list m \<or> refresh_client_list m' = None) \<and>
       (\<forall>k. not_refreshed (refresh_client_list m) k \<longrightarrow>
          pool_lookup (connection_pool_buckets m') k = pool_lookup (connection_pool_buckets c) k))"
proof -
  note cs = crawler_spec [OF wf, folded c_def] and cf = crawler_frame [of m, folded c_def]
  let ?i = "bucket_index m"
  have bi: "?i < buckets_size" using wf by (simp add: ctm_wf_def)
  have pw: "pool_wf (connection_pool_buckets c)" using cs(1) by (simp add: ctm_wf_def)
  have wf_next: "ctm_wf (next_bucket c)"
    using cs(1) by (simp add: ctm_wf_def)
  consider "connection_pool_buckets c ! ?i = None \<or> connection_pool_buckets c ! ?i = Some []"
    | b where "connection_pool_buckets c ! ?i = Some b" "b \<noteq> []"
    by (cases "connection_pool_buckets c ! ?i") auto
  then show ?thesis
  proof cases
    case 1
    then have "r = Inr (next_bucket c)"
      unfolding res [symmetric] by (auto simp: timer_round_def Let_def c_def [symmetric] cf)
    with wf_next cs cf show ?thesis by auto
  next
    case (2 b)
    let ?look = "look_timers clock (refresh_interval m) (refresh_client_list m) 0 [] b"
    have r: "r = (case ?look of Inl f \<Rightarrow> Inl f
        | Inr b' \<Rightarrow> Inr (next_bucket (c\<lparr>refresh_client_list := None, connection_pool_buckets :=
                      (connection_pool_buckets c)[?i := Some b']\<rparr>)))"
      unfolding res [symmetric] using 2
      by (simp add: timer_round_def Let_def c_def [symmetric] cf split: sum.split)
    show ?thesis
    proof (cases ?look)
      case (Inl f)
      with look_timers_fault r show ?thesis by fastforce
    next
      case (Inr b')
      let ?bs = "(connection_pool_buckets c)[?i := Some b']"
      have keep: "map fst b' = map fst b"
        "\<And>k. not_refreshed (refresh_client_list m) k \<Longrightarrow> map_of b' k = map_of b k"
        using look_timers_keeps [OF Inr] by auto
      have "bucket_ok ?i (Some b)" using pw bi 2(1) by (metis pool_wf_def)
      then have "bucket_ok ?i (Some b')"
        unfolding bucket_ok_def option.case om_wf_def set_map [symmetric] keep(1) .
      then have pw': "pool_wf ?bs" by (rule pool_wf_update [OF pw])
      have "pool_lookup ?bs k = pool_lookup (connection_pool_buckets c) k"
        if "not_refreshed (refresh_client_list m) k" for k
        using keep(2) [OF that] 2(1) pw bi
        by (cases "GenerateBucketNum k = ?i") (auto simp: pool_lookup_def pool_wf_def)
      with r Inr cs cf pw' wf_next show ?thesis by (auto simp: ctm_wf_def)
    qed
  qed
qed

text \<open>The round that comes to the bucket of a running timer.\<close>

lemma timer_round_running:
  assumes wf: "ctm_wf m" and k: "GenerateBucketNum k = bucket_index m"
    and look: "pool_lookup (connection_pool_buckets (ConnectionBufCrawler m)) k = Some ct"
    and r: "not_refreshed (refresh_client_list m) k" "\<And>n. clock n < expire_time ct"
  shows "timer_round clock m = Inl UseAfterFree"
proof -
  let ?c = "ConnectionBufCrawler m"
  note cf = crawler_frame [of m]
  from look obtain b where b: "connection_pool_buckets ?c ! bucket_index m = Some b" "map_of b k = Some ct"
    by (auto simp: pool_lookup_def k split: option.splits)
  then have "(k, ct) \<in> set b" "b \<noteq> []" by (auto dest: map_of_SomeD)
  with look_timers_running [OF this(1) r] b(1) show ?thesis
    by (simp add: timer_round_def Let_def cf)
qed

lemma absorb_nothing: "fold absorb (zip (map opt_map (replicate n None)) (map opt_keys (replicate n None))) T = T"
  by (induction n arbitrary: T) (simp_all add: absorb_def opt_map_def opt_keys_def restrict_map_def)

lemma timer_rounds_running:
  assumes "ctm_wf m" "ctm_running m"
    and "pool_lookup (connection_pool_buckets (ConnectionBufCrawler m)) k = Some ct"
    and "not_refreshed (refresh_client_list m) k"
    and "\<forall>clock\<in>set clocks. \<forall>n. clock n < expire_time ct"
    and "bucket_index m + d = GenerateBucketNum k" "d < length clocks"
  shows "timer_rounds clocks m = Inl UseAfterFree"
  using assms
proof (induction clocks arbitrary: m d)
  case (Cons clock clocks)
  show ?case
  proof (cases d)
    case 0
    with Cons.prems timer_round_running [OF Cons.prems(1) _ Cons.prems(3,4), of clock] show ?thesis by simp
  next
    case (Suc d')
    show ?thesis
    proof (cases "timer_round clock m = Inl UseAfterFree")
      case True
      with Cons.prems(2) show ?thesis by simp
    next
      case False
      then obtain m' where ok: "timer_round clock m = Inr m'" "ctm_wf m'"
        "connection_buf m' = replicate (buf_index m) None"
        "connection_del_list m' = replicate (buf_index m) None" "buf_index m' = buf_index m"
        "bucket_index m' = (bucket_index m + 1) mod buckets_size" "ctm_running m' = ctm_running m"
        "refresh_client_list m' = refresh_client_list m \<or> refresh_client_list m' = None"
        "\<forall>k. not_refreshed (refresh_client_list m) k \<longrightarrow> pool_lookup (connection_pool_buckets m') k =
          pool_lookup (connection_pool_buckets (ConnectionBufCrawler m)) k"
        using timer_round_cases [OF Cons.prems(1) refl, of clock] by blast
      have less: "GenerateBucketNum k < buckets_size" by simp
      have "pool_lookup (connection_pool_buckets (ConnectionBufCrawler m')) k = Some ct"
        using ok(9) Cons.prems(3,4) unfolding crawler_spec(2) [OF ok(2)] ok(3,4) absorb_nothing by simp
      moreover have "not_refreshed (refresh_client_list m') k"
        using ok(8) Cons.prems(4) by (auto simp: not_refreshed_def)
      moreover have "bucket_index m' + d' = GenerateBucketNum k"
        using ok(6) Suc Cons.prems(6) less by (simp add: mod_Suc_eq)
      ultimately have "timer_rounds clocks m' = Inl UseAfterFree"
        using Cons.prems(2,5,7) ok(2,7) Suc by (intro Cons.IH) auto
      with ok(1) Cons.prems(2) show ?thesis by simp
    qed
  qed
qed simp

subsection \<open>A manager with one buffer, for the witnesses\<close>

definition demo_ctm :: ctm where
  "demo_ctm = snd (InitTimerBuf
     \<lparr>connection_buf = [], connection_pool_buckets = replicate buckets_size None,
      connection_del_list = [], refresh_client_list = None, refresh_interval = 30, buf_index = 0,
      bucket_index = 0, ctm_running = False\<rparr>)"

lemma demo_ctm_wf: "ctm_wf demo_ctm"
  unfolding demo_ctm_def by (rule InitTimerBuf_wf) (simp add: ctm_wf_def pool_wf_def bucket_ok_def)

lemma pool_lookup_empty [simp]: "pool_lookup (replicate buckets_size None) k = None"
  unfolding pool_lookup_def by (subst nth_replicate) simp_all

subsection \<open>Properties\<close>

text \<open>C20: The crawler implements a map. It keeps the invariant of the buckets (60 sorted maps, every
  key in the bucket of its hash), empties every buffer and delete list, and the timers found
  afterwards are those of this rule, buffer by buffer: the timers already in the pool, which win over
  the buffer's, together with the buffer's, less the deleted keys.\<close>

theorem crawler_refines_map:
  assumes "ctm_wf m"
  shows "ctm_wf (ConnectionBufCrawler m) \<and>
    pool_lookup (connection_pool_buckets (ConnectionBufCrawler m)) =
      fold absorb (zip (map opt_map (connection_buf m)) (map opt_keys (connection_del_list m)))
        (pool_lookup (connection_pool_buckets m)) \<and>
    connection_buf (ConnectionBufCrawler m) = replicate (buf_index m) None \<and>
    connection_del_list (ConnectionBufCrawler m) = replicate (buf_index m) None"
  using crawler_spec [OF assms] by simp

theorem crawler_refines_map_witness:
  "ctm_wf (ConnectionBufCrawler demo_ctm) \<and>
   pool_lookup (connection_pool_buckets (ConnectionBufCrawler demo_ctm)) ''h_7'' = None"
  using crawler_refines_map [OF demo_ctm_wf]
  by (simp add: demo_ctm_def InitTimerBuf_def absorb_def opt_map_def opt_keys_def del: replicate.simps)

text \<open>A connection reopened between two crawls has no timer. When a thread registers a
  connection, closes it and registers a connection with the same address and descriptor again, before
  the crawler comes, the pending deletion removes the new timer too.\<close>

theorem reopened_connection_unwatched:
  assumes "ctm_wf m"
    and "InsertConnectionTimer now ip fd i v t m = Inr m1" "DeleteConnectionTimer ip fd i m1 = Inr m2"
    and "InsertConnectionTimer now' ip fd i v' t' m2 = Inr m3"
    and "\<forall>j<buf_index m. j \<noteq> i \<longrightarrow> opt_map (connection_buf m ! j) (GenerateTimerKey ip fd) = None"
  shows "pool_lookup (connection_pool_buckets (ConnectionBufCrawler m3)) (GenerateTimerKey ip fd) = None"
proof -
  let ?k = "GenerateTimerKey ip fd"
  have "ctm_wf m1" by (rule InsertConnectionTimer_wf [OF assms(1,2)])
  then have "ctm_wf m2" by (rule DeleteConnectionTimer_wf) (rule assms(3))
  then have wf: "ctm_wf m3" by (rule InsertConnectionTimer_wf) (rule assms(4))
  have len: "length (connection_buf m) = buf_index m" "length (connection_del_list m) = buf_index m"
    using assms(1) by (simp_all add: ctm_wf_def)
  have i: "i < buf_index m" using assms(2) len by (simp add: InsertConnectionTimer_def split: if_splits)
  have m3: "buf_index m3 = buf_index m" "?k \<in> opt_keys (connection_del_list m3 ! i)"
    "\<And>j. j < buf_index m \<Longrightarrow> j \<noteq> i \<Longrightarrow> opt_map (connection_buf m3 ! j) ?k = None"
    using assms(2-5) i len
    by (auto simp: InsertConnectionTimer_def DeleteConnectionTimer_def Let_def opt_keys_def
        split: if_splits option.splits)
  have len3: "length (connection_buf m3) = buf_index m" "length (connection_del_list m3) = buf_index m"
    using wf m3(1) by (simp_all add: ctm_wf_def)
  have "fold absorb (map (\<lambda>j. (opt_map (connection_buf m3 ! j), opt_keys (connection_del_list m3 ! j))) [0..<n]) T ?k = None"
    if "i < n" "n \<le> buf_index m" for n T
    using that
  proof (induction n)
    case (Suc n)
    show ?case
    proof (cases "n = i")
      case True
      with m3(2) show ?thesis by (simp add: absorb_def)
    next
      case False
      with Suc m3(3) [of n] show ?thesis by (simp add: absorb_def restrict_map_def map_add_def)
    qed
  qed simp
  from this [OF i order_refl] have "fold absorb (zip (map opt_map (connection_buf m3)) (map opt_keys (connection_del_list m3))) T ?k = None" for T
  proof -
    have "zip (map opt_map (connection_buf m3)) (map opt_keys (connection_del_list m3)) =
        map (\<lambda>j. (opt_map (connection_buf m3 ! j), opt_keys (connection_del_list m3 ! j))) [0..<buf_index m]"
      by (rule nth_equalityI) (simp_all add: len3)
    with \<open>\<And>T. fold absorb (map _ [0..<buf_index m]) T ?k = None\<close> show ?thesis by simp
  qed
  then show ?thesis by (simp add: crawler_spec(2) [OF wf])
qed

theorem reopened_connection_unwatched_witness:
  "\<exists>m1 m2 m3. InsertConnectionTimer 100 ''h'' 7 0 1 1 demo_ctm = Inr m1 \<and>
     DeleteConnectionTimer ''h'' 7 0 m1 = Inr m2 \<and> InsertConnectionTimer 101 ''h'' 7 0 2 1 m2 = Inr m3 \<and>
     pool_lookup (connection_pool_buckets (ConnectionBufCrawler m3)) (GenerateTimerKey ''h'' 7) = None"
proof -
  obtain m1 where m1: "InsertConnectionTimer 100 ''h'' 7 0 1 1 demo_ctm = Inr m1"
    "length (connection_del_list m1) = 1" "length (connection_buf m1) = 1"
    by (simp add: InsertConnectionTimer_def demo_ctm_def InitTimerBuf_def Let_def)
  obtain m2 where m2: "DeleteConnectionTimer ''h'' 7 0 m1 = Inr m2" "length (connection_buf m2) = 1"
    using m1 by (simp add: DeleteConnectionTimer_def Let_def)
  obtain m3 where m3: "InsertConnectionTimer 101 ''h'' 7 0 2 1 m2 = Inr m3"
    using m2 by (simp add: InsertConnectionTimer_def Let_def)
  have "buf_index demo_ctm = 1" by (simp add: demo_ctm_def InitTimerBuf_def)
  with reopened_connection_unwatched [OF demo_ctm_wf m1(1) m2(1) m3] m1(1) m2(1) m3 show ?thesis
    by auto
qed

text \<open>C37: A running timer stops the server. If, after the next crawl, the pool has a timer whose
  expiry no reading of the clock has reached, and no heartbeat of its client is recorded, then the
  background thread reads freed memory within its first 60 rounds: the test for expiry is the wrong
  way round, and the timer it takes for expired is used after the erase.\<close>

theorem running_timer_used_after_free:
  assumes "ctm_wf m" "ctm_running m" "bucket_index m = 0"
    and "pool_lookup (connection_pool_buckets (ConnectionBufCrawler m)) k = Some ct"
    and "not_refreshed (refresh_client_list m) k"
    and "\<forall>clock\<in>set clocks. \<forall>n. clock n < expire_time ct" "buckets_size \<le> length clocks"
  shows "TimerRun clocks m = Inl UseAfterFree"
proof -
  have m: "m\<lparr>bucket_index := 0\<rparr> = m" using assms(3) by simp
  have "GenerateBucketNum k < length clocks"
    using GenerateBucketNum_less [of k] assms(7) by (rule less_le_trans)
  then show ?thesis
    unfolding TimerRun_def m using assms(3)
    by (intro timer_rounds_running [OF assms(1,2,4-6), of "GenerateBucketNum k"]) simp_all
qed

theorem running_timer_used_after_free_witness:
  "\<exists>m. InsertConnectionTimer 100 ''h'' 7 0 1 1 demo_ctm = Inr m \<and>
     TimerRun (replicate 60 (\<lambda>_. 100)) m = Inl UseAfterFree"
proof -
  let ?k = "GenerateTimerKey ''h'' 7"
  obtain m where m: "InsertConnectionTimer 100 ''h'' 7 0 1 1 demo_ctm = Inr m"
    by (simp add: InsertConnectionTimer_def demo_ctm_def InitTimerBuf_def Let_def)
  have wf: "ctm_wf m" by (rule InsertConnectionTimer_wf [OF demo_ctm_wf m])
  obtain ct where st: "connection_buf m = [Some [(?k, ct)]]" "connection_del_list m = [Some []]"
    "connection_pool_buckets m = replicate buckets_size None" "expire_time ct = 130"
    "ctm_running m" "bucket_index m = 0" "refresh_client_list m = None"
    using m by (auto simp: InsertConnectionTimer_def demo_ctm_def InitTimerBuf_def Let_def)
  have look: "pool_lookup (connection_pool_buckets (ConnectionBufCrawler m)) ?k = Some ct"
    unfolding crawler_spec(2) [OF wf] st
    by (simp add: absorb_def opt_map_def opt_keys_def map_add_def del: replicate.simps)
  have "TimerRun (replicate 60 (\<lambda>_. 100)) m = Inl UseAfterFree"
    by (rule running_timer_used_after_free [OF wf st(5,6) look])
      (simp_all add: st not_refreshed_def)
  with m show ?thesis by blast
qed

end
