(* ===== verification/EventTeardown.thy ===== *)
theory EventTeardown
  imports EventThreads
begin

section \<open>The end of an accepting thread\<close>

text \<open>
  The destructor of \<open>DispatchThread\<close> (rpc\_server/dispatch\_thread.cpp) on the items of theory
  EventThreads. It frees the items one by one, though they were allocated four at a time. The thread
  has been stopped; the event loop is not part of the items. The lemmas show what a destructor that
  returns must have freed, and that it never does after a connection has been accepted.
\<close>

subsection \<open>The two loops\<close>

text \<open>
  The loop over the free list with its look-ahead \<open>eif\<close>, and the loop over the items in use, which stops before the
  tail. A freed item is not there any more: reading its \<open>next\<close> is \<open>UseAfterFree\<close>. Each round frees an
  item, so as many rounds as there are items are enough.
\<close>

fun free_freelist :: "nat \<Rightarrow> nat option \<Rightarrow> nat option \<Rightarrow> 'a store \<Rightarrow> fault + 'a store" where
  "free_freelist rounds None eif st = Inr st"
| "free_freelist 0 (Some a) eif st = Inl Hang"
| "free_freelist (Suc rounds) (Some a) eif st =
     (case free_item ei_per_alloc a st of
        Inl f \<Rightarrow> Inl f
      | Inr st \<Rightarrow>
          (case eif of
             None \<Rightarrow> free_freelist rounds None None st
           | Some e \<Rightarrow>
               if \<not> live st e then Inl UseAfterFree else free_freelist rounds (Some e) (get_next st e) st))"

fun free_uselist :: "nat \<Rightarrow> queue \<Rightarrow> 'a store \<Rightarrow> fault + (queue \<times> 'a store)" where
  "free_uselist rounds q st =
     (case head q of
        None \<Rightarrow> Inr (q, st)
      | Some a \<Rightarrow>
          if tail q = Some a then Inr (q, st)
          else
            (case rounds of
               0 \<Rightarrow> Inl Hang
             | Suc rounds \<Rightarrow>
                 if \<not> live st a then Inl UseAfterFree
                 else
                   (let q = q\<lparr>head := get_next st a\<rparr> in
                    case free_item ei_per_alloc a st of
                      Inl f \<Rightarrow> Inl f
                    | Inr st \<Rightarrow> free_uselist rounds q st)))"

declare free_uselist.simps [simp del]

definition DispatchThread_delete :: "event_thread \<Rightarrow> fault + event_thread" where
  "DispatchThread_delete t =
     (let rounds = brk (eio_items t) in
      case (case eio_freelist t of
              None \<Rightarrow> Inr (eio_items t)
            | Some a \<Rightarrow> free_freelist rounds (Some a) (get_next (eio_items t) a) (eio_items t)) of
        Inl f \<Rightarrow> Inl f
      | Inr st \<Rightarrow>
          (case free_uselist rounds (eio_uselist t) st of
             Inl f \<Rightarrow> Inl f
           | Inr (q, st) \<Rightarrow> Inr (t\<lparr>eio_items := st, eio_freelist := None, eio_uselist := q\<rparr>)))"

subsection \<open>What has been freed\<close>

text \<open>What is left of a store after some items were freed.\<close>

definition part_of :: "'a store \<Rightarrow> 'a store \<Rightarrow> bool" where
  "part_of st st0 \<longleftrightarrow> (\<forall>b. live st b \<longrightarrow> get_next st b = get_next st0 b)"

lemma part_of_refl [simp]: "part_of st st"
  by (simp add: part_of_def)

lemma free_item_cases:
  obtains "free_item n a st = Inl UseAfterFree" | "free_item n a st = Inl BadFree"
  | st' where "free_item n a st = Inr st'" "block_start n a" "\<And>st0. part_of st st0 \<Longrightarrow> part_of st' st0"
proof (cases "live st a \<and> block_start n a")
  case True
  let ?st = "st\<lparr>cells := (\<lambda>b. if a \<le> b \<and> b < a + n then None else cells st b)\<rparr>"
  have "free_item n a st = Inr ?st" using True by (simp add: free_item_def live_def split: option.splits)
  moreover have "part_of ?st st0" if "part_of st st0" for st0
    using that by (auto simp: part_of_def live_def get_next_def split: if_splits)
  ultimately show ?thesis using True that(3) by blast
next
  case False
  with that(1,2) show ?thesis by (auto simp: free_item_def live_def split: option.splits)
qed

lemma free_freelist_starts:
  assumes "chain st0 (Some a) (a # fs)" "part_of st st0" "eif = get_next st0 a" "length (a # fs) \<le> rounds"
  shows "free_freelist rounds (Some a) eif st \<in> {Inl BadFree, Inl UseAfterFree} \<or>
    (\<exists>st'. free_freelist rounds (Some a) eif st = Inr st' \<and> part_of st' st0 \<and>
       (\<forall>b \<in> set (a # fs). block_start ei_per_alloc b))"
  using assms
proof (induction fs arbitrary: a eif st rounds)
  case Nil
  then obtain r where r: "rounds = Suc r" "eif = None" by (cases rounds) auto
  show ?case
    by (cases rule: free_item_cases [of ei_per_alloc a st]) (use Nil.prems(2) r in simp_all)
next
  case (Cons b fs)
  then obtain r where r: "rounds = Suc r" "eif = Some b" "length (b # fs) \<le> r" "chain st0 (Some b) (b # fs)"
    by (cases rounds) auto
  show ?case
  proof (cases rule: free_item_cases [of ei_per_alloc a st])
    case (3 st')
    have part: "part_of st' st0" by (rule 3(3)) (rule Cons.prems(2))
    show ?thesis
    proof (cases "live st' b")
      case True
      then have "get_next st' b = get_next st0 b" using part by (simp add: part_of_def)
      from Cons.IH [OF r(4) part this r(3)] show ?thesis using 3 True r by simp
    qed (use 3 r in simp)
  qed (use r in simp_all)
qed

lemma free_uselist_starts:
  assumes "chain st0 p as" "distinct as" "part_of st st0" "head q = p" "length as \<le> rounds"
    and "tail q = (if as = [] then None else Some (last as))"
  shows "free_uselist rounds q st \<in> {Inl BadFree, Inl UseAfterFree} \<or>
    (\<exists>r. free_uselist rounds q st = Inr r \<and> (\<forall>b \<in> set (butlast as). block_start ei_per_alloc b))"
  using assms
proof (induction as arbitrary: p q st rounds)
  case Nil
  then show ?case by (simp add: free_uselist.simps)
next
  case (Cons a as)
  show ?case
  proof (cases "as = []")
    case True
    with Cons.prems show ?thesis by (simp add: free_uselist.simps)
  next
    case False
    with Cons.prems have ne: "tail q \<noteq> Some a" by auto
    obtain r where r: "rounds = Suc r" "length as \<le> r" using Cons.prems(5) by (cases rounds) auto
    show ?thesis
    proof (cases "live st a")
      case True
      let ?q = "q\<lparr>head := get_next st a\<rparr>"
      have nx: "get_next st a = get_next st0 a" using Cons.prems(3) True by (simp add: part_of_def)
      have step: "free_uselist rounds q st =
          (case free_item ei_per_alloc a st of Inl f \<Rightarrow> Inl f | Inr st \<Rightarrow> free_uselist r ?q st)"
        using Cons.prems(1,4) ne True r(1) by (subst free_uselist.simps) (simp add: Let_def)
      show ?thesis
      proof (cases rule: free_item_cases [of ei_per_alloc a st])
        case (3 st')
        have "free_uselist r ?q st' \<in> {Inl BadFree, Inl UseAfterFree} \<or>
            (\<exists>r'. free_uselist r ?q st' = Inr r' \<and> (\<forall>b \<in> set (butlast as). block_start ei_per_alloc b))"
          by (rule Cons.IH [of "get_next st0 a"]) (use Cons.prems False r nx 3 in auto)
        with 3 False show ?thesis by (auto simp: step)
      qed (simp_all add: step)
    next
      case False
      with Cons.prems(1,4) ne r(1) show ?thesis by (subst free_uselist.simps) simp
    qed
  qed
qed

text \<open>The rounds are enough: there are fewer items in either list than addresses handed out.\<close>

lemma distinct_length_less: "distinct as \<Longrightarrow> set as \<subseteq> {1..<n} \<Longrightarrow> 0 < n \<Longrightarrow> length as < (n::nat)"
  using card_mono [of "{1..<n}" "set as"] by (simp add: distinct_card)

lemma delete_frees_starts:
  assumes "conns_inv t fs as"
  shows "DispatchThread_delete t \<in> {Inl BadFree, Inl UseAfterFree} \<or>
    (\<forall>b \<in> set fs \<union> set (butlast as). block_start ei_per_alloc b)"
proof -
  let ?st = "eio_items t" and ?n = "brk (eio_items t)"
  have inv: "chain ?st (eio_freelist t) fs" "chain ?st (head (eio_uselist t)) as" "distinct fs" "distinct as"
    "tail (eio_uselist t) = (if as = [] then None else Some (last as))"
    "set fs \<subseteq> {1..<?n}" "set as \<subseteq> {1..<?n}" "?n mod ei_per_alloc = 1"
    using assms by (auto simp: conns_inv_def pool_ok_def queue_of_def)
  from inv(8) have "0 < ?n" by (cases ?n) simp_all
  with inv have len: "length fs < ?n" "length as < ?n" by (simp_all add: distinct_length_less)
  define r1 where "r1 = (case eio_freelist t of None \<Rightarrow> Inr ?st
      | Some a \<Rightarrow> free_freelist ?n (Some a) (get_next ?st a) ?st)"
  have "r1 \<in> {Inl BadFree, Inl UseAfterFree} \<or>
      (\<exists>st'. r1 = Inr st' \<and> part_of st' ?st \<and> (\<forall>b \<in> set fs. block_start ei_per_alloc b))"
  proof (cases fs)
    case Nil
    with inv(1) show ?thesis by (simp add: r1_def)
  next
    case (Cons a fs')
    with inv(1) len(1) free_freelist_starts [of ?st a fs' ?st "get_next ?st a" ?n] show ?thesis
      by (auto simp: r1_def)
  qed
  moreover have "free_uselist ?n (eio_uselist t) st' \<in> {Inl BadFree, Inl UseAfterFree} \<or>
      (\<exists>r. free_uselist ?n (eio_uselist t) st' = Inr r \<and> (\<forall>b \<in> set (butlast as). block_start ei_per_alloc b))"
    if "part_of st' ?st" for st'
    by (rule free_uselist_starts [OF inv(2,4) that refl _ inv(5)]) (use len(2) in simp)
  moreover have "DispatchThread_delete t =
      (case r1 of Inl f \<Rightarrow> Inl f | Inr st \<Rightarrow>
         (case free_uselist ?n (eio_uselist t) st of Inl f \<Rightarrow> Inl f
          | Inr (q, st) \<Rightarrow> Inr (t\<lparr>eio_items := st, eio_freelist := None, eio_uselist := q\<rparr>)))"
    by (simp add: DispatchThread_delete_def r1_def Let_def)
  ultimately show ?thesis by (fastforce split: prod.splits)
qed

subsection \<open>A thread that has accepted a connection\<close>

lemma conn_step_grows:
  assumes inv: "conns_inv t fs as" and st: "conn_step e t = Inr (out, t')"
  shows "\<exists>fs' as'. conns_inv t' fs' as' \<and>
    (1 < brk (eio_items t) \<or> accepted [e] \<noteq> [] \<longrightarrow> 1 < brk (eio_items t'))"
proof (cases e)
  case (NewConn cfd)
  with st have t': "t' = AcceptCb False cfd t" by (simp add: conn_step_def)
  obtain fs' as' where inv': "conns_inv t' fs' as'" using AcceptCb_inv [OF inv] unfolding t' by blast
  have "1 < brk (eio_items t')" if pos: "0 \<le> cfd"
  proof -
    obtain a where "queue_of (eio_items t', eio_uselist t') (as @ [a])"
      unfolding t' by (rule AcceptCb_cases [of t fs as cfd]) (use inv pos in \<open>auto simp: conns_inv_def\<close>)
    then have "head (eio_uselist t') \<noteq> None" by (cases as) (auto simp: queue_of_def)
    then have "set as' \<noteq> {}" using inv' by (cases as') (auto simp: conns_inv_def queue_of_def)
    then show ?thesis using inv' by (auto simp: conns_inv_def)
  qed
  moreover have "t' = t" if "cfd < 0" using that by (simp add: t' AcceptCb_rejected)
  ultimately show ?thesis using inv' NewConn by (cases "cfd < 0") (auto simp: accepted_def)
next
  case (Readable a)
  show ?thesis
  proof (cases "watched t a")
    case True
    obtain t1 fd fs1 as1 where p: "ProcessCb False a t = Inr (Some fd, t1)" "conns_inv t1 fs1 as1"
      by (rule ProcessCb_inv [OF inv True])
    then have "t' = t1" using st Readable True by (simp add: conn_step_def)
    moreover have "brk (eio_items t1) = brk (eio_items t)"
      using p(1) by (auto simp: ProcessCb_def PopEIO_def FreeEIO_def give_item_def Let_def
          split: option.splits prod.splits)
    ultimately show ?thesis using p(2) Readable by (auto simp: accepted_def)
  next
    case False
    with st Readable inv show ?thesis by (auto simp: conn_step_def accepted_def)
  qed
qed

lemma conn_run_grows:
  "conns_inv t fs as \<Longrightarrow> conn_run es t = Inr (out, t') \<Longrightarrow> 1 < brk (eio_items t) \<or> accepted es \<noteq> [] \<Longrightarrow>
   \<exists>fs' as'. conns_inv t' fs' as' \<and> 1 < brk (eio_items t')"
proof (induction es arbitrary: t fs as out)
  case Nil
  then show ?case by (auto simp: accepted_def)
next
  case (Cons e es)
  obtain out1 t1 out2 where s: "conn_step e t = Inr (out1, t1)" "conn_run es t1 = Inr (out2, t')"
    using Cons.prems(2) by (auto split: sum.splits prod.splits)
  obtain fs1 as1 where t1: "conns_inv t1 fs1 as1"
    "1 < brk (eio_items t) \<or> accepted [e] \<noteq> [] \<longrightarrow> 1 < brk (eio_items t1)"
    using conn_step_grows [OF Cons.prems(1) s(1)] by blast
  have "1 < brk (eio_items t1) \<or> accepted es \<noteq> []"
    using t1(2) Cons.prems(3) by (subst (asm) accepted_Cons) auto
  from Cons.IH [OF t1(1) s(2) this] show ?case .
qed

text \<open>Of the items 2 and 3 of the first block, one is freed by itself.\<close>

lemma delete_after_accept:
  assumes "conn_run es DispatchThread_new = Inr (out, t)" "accepted es \<noteq> []"
  shows "DispatchThread_delete t \<in> {Inl BadFree, Inl UseAfterFree}"
proof -
  obtain fs as where inv: "conns_inv t fs as" and brk: "1 < brk (eio_items t)"
    using conn_run_grows [OF conns_inv_new assms(1)] assms(2) by blast
  have "brk (eio_items t) mod 4 = 1" using inv by (simp add: conns_inv_def ei_per_alloc_def)
  with brk have "5 \<le> brk (eio_items t)" by presburger
  then have "{2, 3} \<subseteq> set fs \<union> set as" "distinct as" using inv by (auto simp: conns_inv_def)
  then have "2 \<in> set fs \<union> set (butlast as) \<or> 3 \<in> set fs \<union> set (butlast as)"
    by (cases as rule: rev_cases) auto
  moreover have "\<not> block_start ei_per_alloc 2" "\<not> block_start ei_per_alloc 3"
    by (simp_all add: block_start_def ei_per_alloc_def)
  ultimately have "\<not> (\<forall>b \<in> set fs \<union> set (butlast as). block_start ei_per_alloc b)" by metis
  with delete_frees_starts [OF inv] show ?thesis by blast
qed

subsection \<open>Properties\<close>

text \<open>C26: An accepting thread that has accepted a connection cannot be destroyed. Whatever the connections and their order,
  the destructor goes wrong: it frees an item inside a block of four, which \<open>malloc\<close> did not return, or
  reads or frees an item of a block that is already gone.\<close>

theorem destructor_frees_inside_block:
  assumes "conn_run es DispatchThread_new = Inr (out, t)" "accepted es \<noteq> []"
  shows "DispatchThread_delete t \<in> {Inl BadFree, Inl UseAfterFree}"
  by (rule delete_after_accept [OF assms])

theorem destructor_frees_inside_block_witness:
  "\<exists>out t. conn_run [NewConn 5, Readable 1] DispatchThread_new = Inr (out, t) \<and>
     DispatchThread_delete t \<in> {Inl BadFree, Inl UseAfterFree}"
proof -
  obtain out t where run: "conn_run [NewConn 5, Readable 1] DispatchThread_new = Inr (out, t)"
    using conn_run_total [OF conns_inv_new] by blast
  show ?thesis using run destructor_frees_inside_block [OF run] by (auto simp: accepted_def)
qed

end
