(* ===== verification/RpcServer.thy ===== *)
theory RpcServer
  imports ThreadPoolSafety ConfigParser Threads Wire EventTeardown
begin

section \<open>The RPC server (rpc\_server/rpc\_server.cpp)\<close>

text \<open>
  The table of methods, the way of a call from the accepting thread through the worker pool to the
  processor, and the start of the server. A method is what \<open>RpcMethod\<close> points to: its full name,
  and the generated code that parses a request, runs the service and serialises the response, as
  functions. A task of the pools is the function and its parameters. The results say which
  descriptors were closed and what was sent.
\<close>

subsection \<open>State\<close>

record ('q, 'r) RpcMethod =
  full_name :: string
  parse_request :: "string \<Rightarrow> 'q option"
  call_service :: "'q \<Rightarrow> 'r"
  serialize_response :: "'r \<Rightarrow> string option"

text \<open>\<open>rpc_controller_ptr\<close> is never set and only handed to the service: it is left out.\<close>

record 'r CallBackParams =
  event_fd :: int
  call_id :: int
  has_server :: bool
  recv_info :: string
  response_ptr :: "'r option"

datatype 'r task = RpcProcessorTask "'r CallBackParams" | RpcWriterTask "'r CallBackParams"

record ('q, 'r) rpc_server =
  method_hashmap :: "u32 \<Rightarrow> ('q, 'r) RpcMethod option"
  dispatcher_thread :: "event_thread option"
  worker_threads :: "'r task LibevThreadPool option"
  reader_threads :: "'r task LibevThreadPool option"
  writer_threads :: "'r task LibevThreadPool option"
  center_heartbeat :: bool
  timer_thread :: thread
  active_wtd_num :: int
  connection_timer_open :: bool

text \<open>The constructor with \<open>Initialize\<close>. \<open>create_ok\<close> is the result of creating the timer thread.\<close>

definition Initialize ::
  "ConfigParser \<Rightarrow> bool \<Rightarrow> ('q, 'r) rpc_server \<Rightarrow> fault + ('q, 'r) rpc_server" where
  "Initialize cp create_ok s =
     (case IniGetBool cp ''rpc_server:timer_open'' True of
        Inl f \<Rightarrow> Inl f
      | Inr timer_open \<Rightarrow>
          Inr (s\<lparr>connection_timer_open := timer_open,
                 timer_thread := (if timer_open then snd (Threads.Start create_ok (timer_thread s))
                                  else timer_thread s)\<rparr>))"

definition RpcServer_new :: "ConfigParser \<Rightarrow> bool \<Rightarrow> fault + ('q, 'r) rpc_server" where
  "RpcServer_new cp create_ok =
     Initialize cp create_ok
       \<lparr>method_hashmap = Map.empty, dispatcher_thread = None, worker_threads = None,
        reader_threads = None, writer_threads = None, center_heartbeat = False,
        timer_thread = Thread_new, active_wtd_num = 0, connection_timer_open = False\<rparr>"

subsection \<open>Registering services\<close>

definition method_code :: "('q, 'r) RpcMethod \<Rightarrow> u32" where
  "method_code m = BKDRHash (c_str (full_name m))"

text \<open>A service is the list of its methods; a method of the same hash is replaced.\<close>

definition register_method :: "('q, 'r) RpcMethod \<Rightarrow> ('q, 'r) rpc_server \<Rightarrow> ('q, 'r) rpc_server" where
  "register_method m s =
     s\<lparr>method_hashmap := (method_hashmap s)(method_code m \<mapsto> m)\<rparr>"

definition RegisteService :: "('q, 'r) RpcMethod list \<Rightarrow> ('q, 'r) rpc_server \<Rightarrow> bool \<times> ('q, 'r) rpc_server" where
  "RegisteService reg_service s = (True, fold register_method reg_service s)"

subsection \<open>Starting\<close>

text \<open>
  \<open>Start\<close>; that the listening socket could not be opened is not looked at. The pool is created before
  its threads: a call dispatched in between finds none.
\<close>

definition RpcServer_Start :: "ConfigParser \<Rightarrow> ('q, 'r) rpc_server \<Rightarrow> fault + ('q, 'r) rpc_server" where
  "RpcServer_Start cp s =
     (case (IniGetInt cp ''rpc_server:thread_num'' 10, IniGetInt cp ''rpc_server:reader_thread_num'' 0,
            IniGetInt cp ''rpc_server:writer_thread_num'' 0, IniGetBool cp ''rpc_server:p2c_mode'' False) of
        (Inr thread_num, Inr reader_num, Inr writer_num, Inr p2c_mode) \<Rightarrow>
          Inr (s\<lparr>dispatcher_thread := Some DispatchThread_new,
                 worker_threads := Some (snd (PoolStart thread_num LibevThreadPool_new)),
                 active_wtd_num := thread_num,
                 reader_threads := (if reader_num \<noteq> 0 then Some (snd (PoolStart reader_num LibevThreadPool_new))
                                    else reader_threads s),
                 writer_threads := (if writer_num \<noteq> 0 then Some (snd (PoolStart writer_num LibevThreadPool_new))
                                    else writer_threads s),
                 center_heartbeat := p2c_mode \<or> center_heartbeat s\<rparr>)
      | (Inl f, _) \<Rightarrow> Inl f | (_, Inl f, _) \<Rightarrow> Inl f | (_, _, Inl f, _) \<Rightarrow> Inl f | (_, _, _, Inl f) \<Rightarrow> Inl f)"

text \<open>
  \<open>Wait\<close>: the parts it joins, in this order. The destructor takes the pools down, then the accepting thread;
  what \<open>LibevThreadPool::Destroy\<close> does with the threads of a pool is the argument \<open>destroy\<close>.
\<close>

datatype server_part = DispatcherPart | WorkersPart | ReadersPart | WritersPart | HeartbeatPart

definition RpcServer_Wait :: "('q, 'r) rpc_server \<Rightarrow> bool \<times> server_part list" where
  "RpcServer_Wait s =
     (True,
      (if dispatcher_thread s \<noteq> None then [DispatcherPart] else []) @
      (if worker_threads s \<noteq> None then [WorkersPart] else []) @
      (if reader_threads s \<noteq> None then [ReadersPart] else []) @
      (if writer_threads s \<noteq> None then [WritersPart] else []) @
      (if center_heartbeat s then [HeartbeatPart] else []))"

definition delete_pool ::
  "('r task LibevThreadPool \<Rightarrow> fault + 'r task LibevThreadPool) \<Rightarrow> 'r task LibevThreadPool option \<Rightarrow> fault + unit" where
  "delete_pool destroy p =
     (case p of
        None \<Rightarrow> Inr ()
      | Some p \<Rightarrow> (case destroy p of Inl f \<Rightarrow> Inl f | Inr _ \<Rightarrow> Inr ()))"

definition RpcServer_delete ::
  "('r task LibevThreadPool \<Rightarrow> fault + 'r task LibevThreadPool) \<Rightarrow> ('q, 'r) rpc_server \<Rightarrow> fault + unit" where
  "RpcServer_delete destroy s =
     (case delete_pool destroy (reader_threads s) of
        Inl f \<Rightarrow> Inl f
      | Inr _ \<Rightarrow>
          (case delete_pool destroy (writer_threads s) of
             Inl f \<Rightarrow> Inl f
           | Inr _ \<Rightarrow>
               (case delete_pool destroy (worker_threads s) of
                  Inl f \<Rightarrow> Inl f
                | Inr _ \<Rightarrow>
                    (case dispatcher_thread s of
                       None \<Rightarrow> Inr ()
                     | Some t \<Rightarrow> (case DispatchThread_delete t of Inl f \<Rightarrow> Inl f | Inr _ \<Rightarrow> Inr ())))))"

definition RestartWorkerThread ::
  "nat \<Rightarrow> nat \<Rightarrow> ('q, 'r) rpc_server \<Rightarrow> fault + (bool \<times> ('q, 'r) rpc_server)" where
  "RestartWorkerThread tid version s =
     (case worker_threads s of
        None \<Rightarrow> Inr (False, s)
      | Some p \<Rightarrow>
          (case RestartThread tid version p of
             Inl f \<Rightarrow> Inl f
           | Inr p \<Rightarrow> Inr (True, s\<lparr>worker_threads := Some p\<rparr>)))"

subsection \<open>Calls\<close>

definition new_params :: "int \<Rightarrow> 'r CallBackParams" where
  "new_params fd = \<lparr>event_fd = fd, call_id = 0, has_server = True, recv_info = [], response_ptr = None\<rparr>"

text \<open>\<open>RpcCall\<close>, the handler of the accepting thread. The first result lists what was closed.\<close>

definition RpcCall :: "int \<Rightarrow> ('q, 'r) rpc_server option \<Rightarrow> fault + (int list \<times> ('q, 'r) rpc_server option)" where
  "RpcCall fd sp =
     (case sp of
        None \<Rightarrow> Inr ([], None)
      | Some s \<Rightarrow>
          (case worker_threads s of
             None \<Rightarrow> Inr ([], Some s)
           | Some p \<Rightarrow>
               (case DispatchRpcCall (RpcProcessorTask (new_params fd)) p of
                  Inl f \<Rightarrow> Inl f
                | Inr (ok, p) \<Rightarrow>
                    Inr (if ok then [] else [fd], Some (s\<lparr>worker_threads := Some p\<rparr>)))))"

text \<open>
  The processor from the call of the method on: \<open>rpc_method\<close> and \<open>request\<close> are the variables of the
  function's outer scope.
\<close>

definition RpcProcessor_call ::
  "(nat \<Rightarrow> int) \<Rightarrow> 'r CallBackParams \<Rightarrow> ('q, 'r) RpcMethod option \<Rightarrow> 'q option \<Rightarrow> ('q, 'r) rpc_server \<Rightarrow>
   fault + (int list \<times> send_result option \<times> ('q, 'r) rpc_server)" where
  "RpcProcessor_call sys params rpc_method request s =
     (case rpc_method of
        None \<Rightarrow> Inl NullDeref
      | Some m \<Rightarrow>
          (case request of
             None \<Rightarrow> Inl NullDeref
           | Some q \<Rightarrow>
               (let response = call_service m q in
                case serialize_response m response of
                  None \<Rightarrow> Inr ([event_fd params], None, s)
                | Some response_str \<Rightarrow>
                    (case writer_threads s of
                       None \<Rightarrow> Inr ([], Some (RpcSend sys 0 response_str True), s)
                     | Some p \<Rightarrow>
                         (case DispatchRpcCall (RpcWriterTask (params\<lparr>response_ptr := Some response\<rparr>)) p of
                            Inl f \<Rightarrow> Inl f
                          | Inr (_, p) \<Rightarrow> Inr ([], None, s\<lparr>writer_threads := Some p\<rparr>))))))"

text \<open>
  \<open>RpcProcessor\<close>. The block that looks the method up and parses the request declares variables of its
  own named \<open>rpc_method\<close> and \<open>request\<close>: those outside stay NULL.
\<close>

definition RpcProcessor ::
  "recv_event list \<Rightarrow> (nat \<Rightarrow> int) \<Rightarrow> 'r CallBackParams option \<Rightarrow> ('q, 'r) rpc_server \<Rightarrow>
   fault + (int list \<times> send_result option \<times> ('q, 'r) rpc_server)" where
  "RpcProcessor evs sys params_ptr s =
     (case params_ptr of
        None \<Rightarrow> Inr ([], None, s)
      | Some params \<Rightarrow>
          if \<not> has_server params then Inr ([], None, s)
          else
            (case (case reader_threads s of
                     Some _ \<Rightarrow> Inr (-1, [])
                   | None \<Rightarrow> (case RpcRecv evs [] False of
                       Returned code message nc evs' \<Rightarrow> Inr (code, message)
                     | Blocked message \<Rightarrow> Inl Hang
                     | OverRead \<Rightarrow> Inl BufferOverRead)) of
               Inl f \<Rightarrow> Inl f
             | Inr (code, info) \<Rightarrow>
                 if (case reader_threads s of None \<Rightarrow> True | Some _ \<Rightarrow> False) \<and> code = ERROR_RECV
                 then Inr ([event_fd params], None, s)
                 else
                   (let rpc_method = None; request = None in
                    case method_hashmap s (word_of_int code) of
                      None \<Rightarrow> Inr ([event_fd params], None, s)
                    | Some inner_method \<Rightarrow>
                        (case parse_request inner_method info of
                           None \<Rightarrow> Inr ([event_fd params], None, s)
                         | Some inner_request \<Rightarrow> RpcProcessor_call sys params rpc_method request s))))"

definition RpcReader ::
  "recv_event list \<Rightarrow> 'r CallBackParams option \<Rightarrow> ('q, 'r) rpc_server \<Rightarrow> fault + ('q, 'r) rpc_server" where
  "RpcReader evs params_ptr s =
     (case params_ptr of
        None \<Rightarrow> Inr s
      | Some params \<Rightarrow>
          if \<not> has_server params then Inl UseAfterFree
          else
            (case RpcRecv evs [] False of
               Blocked message \<Rightarrow> Inl Hang
             | OverRead \<Rightarrow> Inl BufferOverRead
             | Returned code message nc evs' \<Rightarrow>
                 (case worker_threads s of
                    None \<Rightarrow> Inl NullDeref
                  | Some p \<Rightarrow>
                      (case DispatchRpcCall
                          (RpcProcessorTask (params\<lparr>call_id := code, recv_info := message\<rparr>)) p of
                         Inl f \<Rightarrow> Inl f
                       | Inr (_, p) \<Rightarrow> Inr (s\<lparr>worker_threads := Some p\<rparr>)))))"

text \<open>A failing serialisation is only reported: what is sent is then the empty string.\<close>

definition RpcWriter ::
  "('r \<Rightarrow> string option) \<Rightarrow> (nat \<Rightarrow> int) \<Rightarrow> 'r CallBackParams option \<Rightarrow> fault + send_result option" where
  "RpcWriter serialize sys params_ptr =
     (case params_ptr of
        None \<Rightarrow> Inr None
      | Some params \<Rightarrow>
          if \<not> has_server params then Inr None
          else
            (case response_ptr params of
               None \<Rightarrow> Inl NullDeref
             | Some response \<Rightarrow>
                 Inr (Some (RpcSend sys 0 (case serialize response of None \<Rightarrow> [] | Some str \<Rightarrow> str) True))))"

subsection \<open>The table of methods\<close>

definition table_ok :: "('q, 'r) rpc_server \<Rightarrow> bool" where
  "table_ok s \<longleftrightarrow> (\<forall>h. case method_hashmap s h of None \<Rightarrow> True | Some m \<Rightarrow> h = method_code m)"

lemma table_ok_register: "table_ok s \<Longrightarrow> table_ok (register_method m s)"
  by (auto simp: table_ok_def register_method_def)

lemma table_ok_services: "table_ok s \<Longrightarrow> table_ok (snd (RegisteService ms s))"
  by (induction ms arbitrary: s) (auto simp: RegisteService_def table_ok_register)

lemma method_code_less: "unat (method_code m) < 2 ^ 31"
  unfolding method_code_def by (rule BKDRHash_less)

lemma no_method_minus_one: "table_ok s \<Longrightarrow> method_hashmap s (word_of_int (-1)) = None"
proof (rule ccontr)
  assume "table_ok s" "method_hashmap s (word_of_int (-1)) \<noteq> None"
  then obtain m where "method_hashmap s (- 1) = Some m" by auto
  with \<open>table_ok s\<close> have "- 1 = method_code m" by (auto simp: table_ok_def split: option.splits)
  then have "unat (- 1 :: u32) < 2 ^ 31" using method_code_less [of m] by (simp only:)
  moreover have "\<not> unat (- 1 :: u32) < 2 ^ 31"
    by (simp add: unsigned_minus_1_eq_mask mask_eq_exp_minus_1)
  ultimately show False by simp
qed

lemma register_methods_map:
  "method_hashmap (fold register_method ms s) =
     method_hashmap s ++ map_of (rev (map (\<lambda>m. (method_code m, m)) ms))"
proof (induction ms arbitrary: s)
  case (Cons m ms)
  then show ?case by (simp add: register_method_def map_add_def fun_eq_iff split: option.splits)
qed simp

subsection \<open>A server with one method, for the witnesses\<close>

definition demo_method :: "(string, string) RpcMethod" where
  "demo_method = \<lparr>full_name = ''a'', parse_request = Some, call_service = id, serialize_response = Some\<rparr>"

definition demo_server :: "(string, string) rpc_server" where
  "demo_server = snd (RegisteService [demo_method]
     \<lparr>method_hashmap = Map.empty, dispatcher_thread = None, worker_threads = None,
      reader_threads = None, writer_threads = None, center_heartbeat = False,
      timer_thread = Thread_new, active_wtd_num = 0, connection_timer_open = False\<rparr>)"

lemma demo_method_nonzero: "method_code demo_method \<noteq> 0"
  by code_simp

subsection \<open>Properties\<close>

text \<open>C33: The last registration of a hash wins. After any services have been registered, a call id finds the
  last registered method whose name has that hash, or what the table had before when there is none; every
  method stands under its own hash, so no id with the top bit set finds one.\<close>

theorem registered_methods_found:
  assumes "table_ok s"
  shows "method_hashmap (fold (\<lambda>ms s. snd (RegisteService ms s)) services s) h =
      (case find (\<lambda>m. method_code m = h) (rev (concat services)) of
         None \<Rightarrow> method_hashmap s h | Some m \<Rightarrow> Some m) \<and>
    table_ok (fold (\<lambda>ms s. snd (RegisteService ms s)) services s) \<and>
    (2 ^ 31 \<le> unat h \<longrightarrow> method_hashmap (fold (\<lambda>ms s. snd (RegisteService ms s)) services s) h = None)"
proof -
  let ?s = "fold (\<lambda>ms s. snd (RegisteService ms s)) services s"
  have all: "?s = fold register_method (concat services) s"
    by (induction services arbitrary: s) (simp_all add: RegisteService_def)
  have find: "map_of (map (\<lambda>m. (method_code m, m)) ms) h = find (\<lambda>m. method_code m = h) ms"
    for ms :: "('a, 'b) RpcMethod list"
    by (induction ms) auto
  have ok: "table_ok ?s"
    using table_ok_services [OF assms, of "concat services"] unfolding all by (simp add: RegisteService_def)
  have look: "method_hashmap ?s h = (case find (\<lambda>m. method_code m = h) (rev (concat services)) of
         None \<Rightarrow> method_hashmap s h | Some m \<Rightarrow> Some m)"
    by (simp add: all register_methods_map rev_map find map_add_def)
  have "method_hashmap ?s h = None" if "2 ^ 31 \<le> unat h"
  proof (cases "method_hashmap ?s h")
    case (Some m)
    have "case method_hashmap ?s h of None \<Rightarrow> True | Some m \<Rightarrow> h = method_code m"
      using ok unfolding table_ok_def by blast
    with Some have "h = method_code m" by simp
    with that method_code_less [of m] show ?thesis by (simp add: not_le [symmetric])
  qed
  with look ok show ?thesis by blast
qed

theorem registered_methods_found_witness:
  "table_ok (fold (\<lambda>ms s. snd (RegisteService ms s))
     [[\<lparr>full_name = ''a.B.c'', parse_request = Some, call_service = id, serialize_response = Some\<rparr>]]
     \<lparr>method_hashmap = Map.empty, dispatcher_thread = None, worker_threads = None,
      reader_threads = None, writer_threads = None, center_heartbeat = False,
      timer_thread = Thread_new, active_wtd_num = 0, connection_timer_open = False\<rparr>)"
  by (rule registered_methods_found [THEN conjunct2, THEN conjunct1]) (simp add: table_ok_def)

text \<open>C25: The server never answers a call. Whatever arrives on a connection, a call processed to its end
  has closed the connection and sent nothing; with a reader pool every call ends that way, because the
  processor then looks up the id -1 it started with.\<close>

theorem rpc_server_never_answers:
  assumes "table_ok s" "has_server params"
  shows "(\<forall>r. RpcProcessor evs sys (Some params) s = Inr r \<longrightarrow> r = ([event_fd params], None, s)) \<and>
    (\<forall>p. reader_threads s = Some p \<longrightarrow>
       RpcProcessor evs sys (Some params) s = Inr ([event_fd params], None, s))"
proof -
  have "\<forall>p. reader_threads s = Some p \<longrightarrow>
       RpcProcessor evs sys (Some params) s = Inr ([event_fd params], None, s)"
    using assms no_method_minus_one [OF assms(1)] by (simp add: RpcProcessor_def)
  moreover have "RpcProcessor evs sys (Some params) s = Inr r \<longrightarrow> r = ([event_fd params], None, s)" for r
    using assms(2)
    by (auto simp: RpcProcessor_def RpcProcessor_call_def split: option.splits sum.splits recv_outcome.splits if_splits)
  ultimately show ?thesis by blast
qed

theorem rpc_server_never_answers_witness:
  "RpcProcessor [Got []] (\<lambda>_. 516) (Some (new_params 5)) demo_server = Inr ([5], None, demo_server)"
proof -
  have ok: "table_ok demo_server"
    by (simp add: demo_server_def RegisteService_def register_method_def table_ok_def)
  have "method_hashmap demo_server 0 = None"
    by (simp add: demo_server_def RegisteService_def register_method_def demo_method_nonzero)
  then obtain r where r: "RpcProcessor [Got []] (\<lambda>_. 516) (Some (new_params 5)) demo_server = Inr r"
    by (simp add: RpcProcessor_def RpcRecv_def new_params_def demo_server_def RegisteService_def
        register_method_def)
  with rpc_server_never_answers [OF ok, of "new_params 5" "[Got []]" "\<lambda>_. 516"] show ?thesis
    by (cases r) (simp add: new_params_def)
qed

text \<open>A call of a registered method stops the server. A client sends a request with the hash of the
  method's name as its id, whole; if the method found under the hash parses the request, the processor
  goes through its outer, null \<open>rpc_method\<close>.\<close>

theorem registered_call_null_dereference:
  assumes "method_hashmap s (method_code m) = Some m" "method_code m \<noteq> 0" "reader_threads s = None"
    and "has_server params" "parse_request m str = Some q"
    and "\<And>j. csys j = int MetaSize" "nul_free str" "length str mod (BODY_SIZE - 1) \<noteq> 0" "length str < 2 ^ 31"
  shows "RpcProcessor (map Got (sent (RpcSend csys (uint (method_code m)) str False))) sys (Some params) s
    = Inl NullDeref"
proof -
  let ?id = "uint (method_code m)"
  have id: "0 < ?id"
    using assms(2) unsigned_greater_eq [of "method_code m"] by (metis order_le_less unsigned_eq_0_iff)
  have "int (unat (method_code m)) < int (2 ^ 31)"
    using method_code_less [of m] by (simp only: of_nat_less_iff)
  then have id2: "?id < 2 ^ 31" by simp
  have send: "sent (RpcSend csys ?id str False) = message_frames (- ?id) str"
    using id assms(9) by (simp add: RpcSend_ok [OF assms(6)])
  have recv: "RpcRecv (map Got (message_frames (- ?id) str)) [] False = Returned ?id str False []"
    using recv_message [OF assms(9) id id2, of "[]" False] assms(7,8) by (simp add: RpcRecv_def delivered_id)
  have code: "word_of_int ?id = method_code m" by simp
  have err: "(?id = ERROR_RECV) = False" using id by simp
  show ?thesis
    unfolding send RpcProcessor_def recv assms(3)
    by (simp only: option.case recv_outcome.case sum.case assms(1,4,5) code err Let_def if_False
        simp_thms prod.case RpcProcessor_call_def)
qed

theorem registered_call_null_dereference_witness:
  "RpcProcessor (map Got (sent (RpcSend (\<lambda>_. 516) (uint (method_code demo_method)) ''x'' False))) (\<lambda>_. 516)
     (Some (new_params 5)) demo_server = Inl NullDeref"
proof (rule registered_call_null_dereference)
  show "method_hashmap demo_server (method_code demo_method) = Some demo_method"
    by (simp add: demo_server_def RegisteService_def register_method_def)
  show "method_code demo_method \<noteq> 0" by (rule demo_method_nonzero)
  show "parse_request demo_method ''x'' = Some ''x''" by (simp add: demo_method_def)
qed (simp_all add: demo_server_def RegisteService_def register_method_def new_params_def)

text \<open>A server that has accepted a connection cannot be destroyed. The program ends through the
  destructor of the one server object: whatever becomes of the pools, it does not get past the items of the
  accepting thread.\<close>

theorem used_server_not_destroyed:
  assumes "conn_run es DispatchThread_new = Inr (out, t)" "accepted es \<noteq> []" "dispatcher_thread s = Some t"
  shows "\<exists>f. RpcServer_delete destroy s = Inl f"
  using delete_after_accept [OF assms(1,2)] assms(3) by (auto simp: RpcServer_delete_def split: sum.splits)

theorem used_server_not_destroyed_witness:
  "\<exists>out t f. conn_run [NewConn 5] DispatchThread_new = Inr (out, t) \<and>
     RpcServer_delete Inr (demo_server\<lparr>dispatcher_thread := Some t\<rparr>) = Inl f"
proof -
  obtain out t where run: "conn_run [NewConn 5] DispatchThread_new = Inr (out, t)"
    using conn_run_total [OF conns_inv_new] by blast
  have "\<exists>f. RpcServer_delete Inr (demo_server\<lparr>dispatcher_thread := Some t\<rparr>) = Inl f"
    by (rule used_server_not_destroyed [OF run]) (simp_all add: accepted_def)
  with run show ?thesis by blast
qed

end
