(* ===== verification/Heartbeats.thy ===== *)
theory Heartbeats
  imports ConfigParser Threads Wire Timers Sockets Proto
begin

section \<open>Heartbeats\<close>

text \<open>
  The threads that keep the parts of the system informed of one another: an RPC client asks the centers
  for servers (rpc\_client/center\_client\_heartbeat.cpp), an RPC server registers at a center and reports to
  the centers it was given (rpc\_server/center\_cluster\_heartbeat.cpp), and a client pings the server it
  uses over UDP (rpc\_client/rpc\_heartbeat\_client.cpp, rpc\_server/rpc\_heartbeat\_server.cpp). What one turn
  of a loop sees of the system is the record \<open>exchange\<close>; the turns are a list. Sleeping is left out.
\<close>

text \<open>
  One exchange: \<open>rand()\<close>, \<open>TcpConnect\<close> by address, the results of \<open>send\<close> and \<open>recv\<close>, and for the
  reports what \<open>sysinfo\<close> returned.
\<close>

record exchange =
  ex_rand :: nat
  ex_connect :: "string \<Rightarrow> int"
  ex_sends :: "nat \<Rightarrow> int"
  ex_receives :: "recv_event list"
  ex_sysinfo :: int
  ex_load :: u32

text \<open>A receive that does not come back is \<open>Hang\<close>: the code and the string of \<open>RpcRecv\<close> otherwise.\<close>

definition hb_receive :: "exchange \<Rightarrow> bool \<Rightarrow> fault + (int \<times> string)" where
  "hb_receive ex need_closed =
     (case RpcRecv (ex_receives ex) [] need_closed of
        Blocked message \<Rightarrow> Inl Hang
      | OverRead \<Rightarrow> Inl BufferOverRead
      | Returned code message nc evs \<Rightarrow> Inr (code, message))"

definition other_lines :: "string \<Rightarrow> string \<Rightarrow> string list" where
  "other_lines local_addr file_text = filter (\<lambda>line. c_str line \<noteq> c_str local_addr) (getlines file_text)"

text \<open>\<open>random(x)\<close>, an index into a vector of \<open>x\<close> elements, and \<open>at\<close>.\<close>

definition random_at :: "exchange \<Rightarrow> nat \<Rightarrow> string list \<Rightarrow> fault + string" where
  "random_at ex x addrs =
     (if x = 0 then Inl DivByZero
      else let i = ex_rand ex mod x in if i < length addrs then Inr (addrs ! i) else Inl OutOfRange)"

subsection \<open>CenterClientHeartbeat\<close>

record CenterClientHeartbeat =
  center_addrs :: "string list"
  updatecenter_addrs :: "string list"
  cluster_server_addrs_list :: "string list"
  cch_running :: bool
  cch_port :: "string option"

definition CenterClientHeartbeat_new :: CenterClientHeartbeat where
  "CenterClientHeartbeat_new =
     \<lparr>center_addrs = [], updatecenter_addrs = [], cluster_server_addrs_list = [],
      cch_running = False, cch_port = None\<rparr>"

record client_codec =
  cwc_to_string :: "ClientWithCenter \<Rightarrow> string option"
  cwc_of_string :: "string \<Rightarrow> ClientWithCenter option"

definition UpdateCenterAddrs :: "string list \<Rightarrow> CenterClientHeartbeat \<Rightarrow> CenterClientHeartbeat" where
  "UpdateCenterAddrs center_list hb = hb\<lparr>updatecenter_addrs := updatecenter_addrs hb @ center_list\<rparr>"

definition UpdateServerAddrs :: "string list \<Rightarrow> CenterClientHeartbeat \<Rightarrow> CenterClientHeartbeat" where
  "UpdateServerAddrs server_list hb =
     hb\<lparr>cluster_server_addrs_list := cluster_server_addrs_list hb @ server_list\<rparr>"

definition GetRpcServerList :: "CenterClientHeartbeat \<Rightarrow> string list" where
  "GetRpcServerList hb = cluster_server_addrs_list hb"

definition RandomGetRpcServerAddr :: "exchange \<Rightarrow> CenterClientHeartbeat \<Rightarrow> fault + string" where
  "RandomGetRpcServerAddr ex hb =
     random_at ex (length (cluster_server_addrs_list hb)) (cluster_server_addrs_list hb)"

definition cwc_request :: "ClientClusterAction \<Rightarrow> ClientWithCenter" where
  "cwc_request act = ClientWithCenter_default\<lparr>client_center_action := act\<rparr>"

text \<open>\<open>InitCenterClientHB\<close>: the answer to the first request fills both lists.\<close>

definition store_first_answer :: "client_codec \<Rightarrow> int \<times> string \<Rightarrow> CenterClientHeartbeat \<Rightarrow> CenterClientHeartbeat" where
  "store_first_answer codec answer hb =
     (if fst answer \<ge> 0
      then (case cwc_of_string codec (snd answer) of
              Some cwc \<Rightarrow>
                if client_center_action cwc = CENTER_RESP_OK
                then hb\<lparr>updatecenter_addrs := updatecenter_addrs hb @ should_communicate_center cwc,
                        cluster_server_addrs_list := cluster_server_addrs_list hb @ cluster_server_list cwc\<rparr>
                else hb
            | None \<Rightarrow> hb)
      else hb)"

definition InitCenterClientHB ::
  "client_codec \<Rightarrow> exchange \<Rightarrow> string option \<Rightarrow> string \<Rightarrow> ConfigParser \<Rightarrow> CenterClientHeartbeat \<Rightarrow>
   fault + (bool \<times> CenterClientHeartbeat)" where
  "InitCenterClientHB codec ex file local_addr cp hb =
     (case file of
        None \<Rightarrow> Inr (False, hb)
      | Some file_text \<Rightarrow>
          (case IniGetString cp ''rpc_client:port'' (Ptr ''8899'') of
             Ptr port \<Rightarrow>
               (let hb = hb\<lparr>cch_port := Some port, center_addrs := center_addrs hb @ other_lines local_addr file_text\<rparr> in
                if length (center_addrs hb) = 0 then Inr (False, hb)
                else
                  (case random_at ex (length (center_addrs hb)) (center_addrs hb) of
                     Inl f \<Rightarrow> Inl f
                   | Inr addr \<Rightarrow>
                       (if ex_connect ex addr \<le> 0 then Inr (False, hb)
                        else
                          (case cwc_to_string codec (cwc_request CLIENT_INIT_REQ) of
                             None \<Rightarrow> Inr (False, hb)
                           | Some cwc_str \<Rightarrow>
                               (if ret (RpcSend (ex_sends ex) (center_type_code CENTER2CLIENT) cwc_str False) < 0
                                then Inr (False, hb)
                                else
                                  (case hb_receive ex False of
                                     Inl f \<Rightarrow> Inl f
                                   | Inr answer \<Rightarrow>
                                       Inr (True, (store_first_answer codec answer hb)\<lparr>cch_running := True\<rparr>)))))))
           | _ \<Rightarrow> Inl NullDeref))"

text \<open>
  One turn of the loop. After a receive that succeeded the answer is not parsed: the \<open>||\<close> is satisfied,
  and both lists are taken from the message as it was constructed, empty.
\<close>

definition refresh_lists :: "client_codec \<Rightarrow> int \<times> string \<Rightarrow> CenterClientHeartbeat \<Rightarrow> CenterClientHeartbeat" where
  "refresh_lists codec answer hb =
     (if fst answer \<ge> 0
      then UpdateServerAddrs (cluster_server_list ClientWithCenter_default)
             (UpdateCenterAddrs (should_communicate_center ClientWithCenter_default) hb)
      else (case cwc_of_string codec (snd answer) of
              None \<Rightarrow> hb
            | Some cwc \<Rightarrow>
                UpdateServerAddrs (cluster_server_list cwc)
                  (UpdateCenterAddrs (should_communicate_center cwc) hb)))"

definition client_turn ::
  "client_codec \<Rightarrow> nat \<Rightarrow> exchange \<Rightarrow> CenterClientHeartbeat \<Rightarrow> fault + CenterClientHeartbeat" where
  "client_turn codec ca_size ex hb =
     (case cwc_to_string codec (cwc_request UPDATE_SERVER_INFO) of
        None \<Rightarrow> Inr hb
      | Some cwc_str \<Rightarrow>
          (case random_at ex ca_size (center_addrs hb) of
             Inl f \<Rightarrow> Inl f
           | Inr addr \<Rightarrow>
               (if ex_connect ex addr \<le> 0 then Inr hb
                else if ret (RpcSend (ex_sends ex) (center_type_code CENTER2CLIENT) cwc_str False) < 0 then Inr hb
                else
                  (case hb_receive ex True of
                     Inl f \<Rightarrow> Inl f
                   | Inr answer \<Rightarrow> Inr (refresh_lists codec answer hb)))))"

primrec client_turns ::
  "client_codec \<Rightarrow> nat \<Rightarrow> exchange list \<Rightarrow> CenterClientHeartbeat \<Rightarrow> fault + CenterClientHeartbeat" where
  "client_turns codec ca_size [] hb = Inr hb"
| "client_turns codec ca_size (ex # exs) hb =
     (if \<not> cch_running hb then Inr hb
      else (case client_turn codec ca_size ex hb of
              Inl f \<Rightarrow> Inl f
            | Inr hb \<Rightarrow> client_turns codec ca_size exs hb))"

definition CenterClientHeartbeat_Run ::
  "client_codec \<Rightarrow> exchange \<Rightarrow> exchange list \<Rightarrow> string option \<Rightarrow> string \<Rightarrow> ConfigParser \<Rightarrow>
   CenterClientHeartbeat \<Rightarrow> fault + CenterClientHeartbeat" where
  "CenterClientHeartbeat_Run codec ex exs file local_addr cp hb =
     (case InitCenterClientHB codec ex file local_addr cp hb of
        Inl f \<Rightarrow> Inl f
      | Inr (ok, hb) \<Rightarrow>
          if \<not> ok \<or> updatecenter_addrs hb = [] \<or> center_addrs hb = [] then Inr hb
          else client_turns codec (length (center_addrs hb)) exs hb)"

subsection \<open>CenterClusterHeartbeat\<close>

record CenterClusterHeartbeat =
  cl_center_addrs :: "string list"
  reporter_center_addrs :: "string list"
  cl_running :: bool
  cl_port :: "string option"

definition CenterClusterHeartbeat_new :: CenterClusterHeartbeat where
  "CenterClusterHeartbeat_new =
     \<lparr>cl_center_addrs = [], reporter_center_addrs = [], cl_running = False, cl_port = None\<rparr>"

record cluster_codec =
  rcs_to_string :: "RpcClusterServer \<Rightarrow> string option"
  crc_of_string :: "string \<Rightarrow> CenterResponseCluster option"

definition register_request :: "string \<Rightarrow> RpcClusterServer" where
  "register_request local_addr =
     RpcClusterServer_default\<lparr>cluster_action := REGISTER, cluster_server_addr := c_str local_addr\<rparr>"

definition ping_request :: "string \<Rightarrow> u32 \<Rightarrow> RpcClusterServer" where
  "ping_request local_addr load1 =
     RpcClusterServer_default\<lparr>cluster_action := CLUSTER_PING, cluster_server_addr := c_str local_addr, load := load1\<rparr>"

text \<open>The fourth argument of the \<open>RpcSend\<close> is \<open>false < 0\<close>, the test is its result as a boolean.\<close>

definition InitCenterClusterHB ::
  "cluster_codec \<Rightarrow> exchange \<Rightarrow> string option \<Rightarrow> string \<Rightarrow> ConfigParser \<Rightarrow> CenterClusterHeartbeat \<Rightarrow>
   fault + (bool \<times> CenterClusterHeartbeat)" where
  "InitCenterClusterHB codec ex file local_addr cp hb =
     (case file of
        None \<Rightarrow> Inr (False, hb)
      | Some file_text \<Rightarrow>
          (case IniGetString cp ''rpc_center:port'' (Ptr ''8899'') of
             Ptr port \<Rightarrow>
               (let hb = hb\<lparr>cl_port := Some port, cl_center_addrs := cl_center_addrs hb @ other_lines local_addr file_text\<rparr> in
                if length (cl_center_addrs hb) = 0 then Inr (False, hb)
                else
                  (case random_at ex (length (cl_center_addrs hb)) (cl_center_addrs hb) of
                     Inl f \<Rightarrow> Inl f
                   | Inr addr \<Rightarrow>
                       (if ex_connect ex addr \<le> 0 then Inr (False, hb)
                        else
                          (case rcs_to_string codec (register_request local_addr) of
                             None \<Rightarrow> Inr (False, hb)
                           | Some rcs_str \<Rightarrow>
                               (if ret (RpcSend (ex_sends ex) (center_type_code CENTER2CLUSTER) rcs_str False) \<noteq> 0
                                then Inr (False, hb)
                                else
                                  (case hb_receive ex True of
                                     Inl f \<Rightarrow> Inl f
                                   | Inr (code, crc_str) \<Rightarrow>
                                       (if code < 0 then Inr (False, hb)
                                        else
                                          (case crc_of_string codec crc_str of
                                             None \<Rightarrow> Inr (False, hb)
                                           | Some crc \<Rightarrow>
                                               Inr (True, hb\<lparr>reporter_center_addrs :=
                                                      reporter_center_addrs hb @ should_reporter_center crc,
                                                      cl_running := True\<rparr>)))))))))
           | _ \<Rightarrow> Inl NullDeref))"

text \<open>
  The state of the loop: \<open>rca_size\<close> was read once, before it. A failing connection counts, and past the
  limit the registration is made again, with the exchange \<open>re\<close>; the index of the next turn is drawn
  by \<open>next_rand\<close>. The result also has the address the turn contacted and the blocks it sent there.
\<close>

record report_turn =
  rt_exchange :: exchange
  rt_reinit :: exchange
  rt_file :: "string option"
  rt_next_rand :: nat

definition cluster_turn ::
  "cluster_codec \<Rightarrow> nat \<Rightarrow> int \<Rightarrow> string \<Rightarrow> ConfigParser \<Rightarrow> report_turn \<Rightarrow>
   nat \<times> int \<times> CenterClusterHeartbeat \<Rightarrow> fault + ((string \<times> string list) list \<times> nat \<times> int \<times> CenterClusterHeartbeat)" where
  "cluster_turn codec rca_size should_reinit local_addr cp rt st =
     (case st of (random_index, reinit_cnt, hb) \<Rightarrow>
        if ex_sysinfo (rt_exchange rt) < 0 then Inr ([], st)
        else
          (case rcs_to_string codec (ping_request local_addr (ex_load (rt_exchange rt))) of
             None \<Rightarrow> Inr ([], st)
           | Some rcs_str \<Rightarrow>
               (if length (reporter_center_addrs hb) \<le> random_index then Inl OutOfRange
                else
                  (let addr = reporter_center_addrs hb ! random_index in
                   if ex_connect (rt_exchange rt) addr < 0 then
                     (if reinit_cnt + 1 > should_reinit then
                        (case InitCenterClusterHB codec (rt_reinit rt) (rt_file rt) local_addr cp hb of
                           Inl f \<Rightarrow> Inl f
                         | Inr (_, hb) \<Rightarrow> Inr ([(addr, [])], rt_next_rand rt mod rca_size, 0, hb))
                      else Inr ([(addr, [])], rt_next_rand rt mod rca_size, reinit_cnt + 1, hb))
                   else
                     Inr ([(addr, sent (RpcSend (ex_sends (rt_exchange rt)) (center_type_code CENTER2CLUSTER)
                                     rcs_str True))], st)))))"

primrec cluster_turns ::
  "cluster_codec \<Rightarrow> nat \<Rightarrow> int \<Rightarrow> string \<Rightarrow> ConfigParser \<Rightarrow> report_turn list \<Rightarrow>
   nat \<times> int \<times> CenterClusterHeartbeat \<Rightarrow> fault + ((string \<times> string list) list \<times> nat \<times> int \<times> CenterClusterHeartbeat)" where
  "cluster_turns codec rca_size should_reinit local_addr cp [] st = Inr ([], st)"
| "cluster_turns codec rca_size should_reinit local_addr cp (rt # rts) st =
     (if \<not> cl_running (snd (snd st)) then Inr ([], st)
      else
        (case cluster_turn codec rca_size should_reinit local_addr cp rt st of
           Inl f \<Rightarrow> Inl f
         | Inr (contacted, st) \<Rightarrow>
             (case cluster_turns codec rca_size should_reinit local_addr cp rts st of
                Inl f \<Rightarrow> Inl f
              | Inr (rest, st) \<Rightarrow> Inr (contacted @ rest, st))))"

definition CenterClusterHeartbeat_Run ::
  "cluster_codec \<Rightarrow> exchange \<Rightarrow> nat \<Rightarrow> report_turn list \<Rightarrow> string option \<Rightarrow> string \<Rightarrow> ConfigParser \<Rightarrow>
   CenterClusterHeartbeat \<Rightarrow> fault + ((string \<times> string list) list \<times> CenterClusterHeartbeat)" where
  "CenterClusterHeartbeat_Run codec ex first_rand rts file local_addr cp hb =
     (case InitCenterClusterHB codec ex file local_addr cp hb of
        Inl f \<Rightarrow> Inl f
      | Inr (ok, hb) \<Rightarrow>
          (let rca_size = length (reporter_center_addrs hb) in
           if \<not> ok \<or> rca_size = 0 then Inr ([], hb)
           else
             (case IniGetInt cp ''rpc_center:should_reinit'' 10 of
                Inl f \<Rightarrow> Inl f
              | Inr should_reinit \<Rightarrow>
                  (case cluster_turns codec rca_size should_reinit local_addr cp rts (first_rand mod rca_size, 0, hb) of
                     Inl f \<Rightarrow> Inl f
                   | Inr (contacted, _, _, hb) \<Rightarrow> Inr (contacted, hb)))))"

subsection \<open>RpcHeartbeatClient\<close>

record RpcHeartbeatClient =
  hb_server_addr :: "string option"
  hb_server_port :: "string option"
  hbc_timeout :: int
  hbc_fd :: int
  to_addr :: "(string \<times> int) option"
  hbc_running :: bool

text \<open>The two strings are copied with their terminators into blocks of \<open>strlen\<close> bytes.\<close>

definition RpcHeartbeatClient_new :: "string option \<Rightarrow> string option \<Rightarrow> int \<Rightarrow> int \<Rightarrow> RpcHeartbeatClient" where
  "RpcHeartbeatClient_new addr port timeout garbage =
     (let both = addr \<noteq> None \<and> port \<noteq> None in
      \<lparr>hb_server_addr = (if both then addr else None), hb_server_port = (if both then port else None),
       hbc_timeout = timeout, hbc_fd = garbage, to_addr = None, hbc_running = True\<rparr>)"

definition CreateRpcConnection :: "int \<Rightarrow> RpcHeartbeatClient \<Rightarrow> bool \<times> RpcHeartbeatClient" where
  "CreateRpcConnection socket_ret hb =
     (case (hb_server_addr hb, hb_server_port hb) of
        (Some addr, Some port) \<Rightarrow>
          (case UdpClientInit socket_ret addr port of (fd, to) \<Rightarrow> (\<not> fd < 0, hb\<lparr>hbc_fd := fd, to_addr := to\<rparr>))
      | _ \<Rightarrow> (False, hb))"

text \<open>The datagrams of \<open>Run\<close>: one message for each turn, with the results of its \<open>sendto\<close> calls.\<close>

definition RpcHeartbeatClient_Run ::
  "int \<Rightarrow> string \<Rightarrow> (nat \<Rightarrow> int) list \<Rightarrow> RpcHeartbeatClient \<Rightarrow> string list list \<times> RpcHeartbeatClient" where
  "RpcHeartbeatClient_Run socket_ret local_addr turns hb =
     (case CreateRpcConnection socket_ret hb of
        (False, hb) \<Rightarrow> ([], hb)
      | (True, hb) \<Rightarrow>
          (if hbc_running hb then map (\<lambda>sys. sent (RpcSendTo sys (c_str local_addr) False)) turns else [], hb))"

subsection \<open>RpcHeartbeatServer\<close>

text \<open>\<open>epoller_\<close> is not initialised: \<open>LoopWild\<close> is what it may then hold.\<close>

datatype loop_ptr = LoopNull | LoopWild | LoopOn int

record RpcHeartbeatServer =
  hb_host :: string
  hb_port :: string
  hbs_running :: bool
  epoller :: loop_ptr

definition RpcHeartbeatServer_new :: "string \<Rightarrow> string \<Rightarrow> loop_ptr \<Rightarrow> RpcHeartbeatServer" where
  "RpcHeartbeatServer_new host port garbage =
     \<lparr>hb_host = host, hb_port = port, hbs_running = True, epoller = garbage\<rparr>"

definition InitHeartbeatServer ::
  "int \<Rightarrow> (string \<Rightarrow> int \<Rightarrow> int) \<Rightarrow> RpcHeartbeatServer \<Rightarrow> bool \<times> RpcHeartbeatServer" where
  "InitHeartbeatServer socket_ret bind_call s =
     (let server_fd = fst (UdpServerInit socket_ret (hb_host s) (hb_port s) bind_call) in
      if server_fd < 0 then (False, s) else (True, s\<lparr>epoller := LoopOn server_fd\<rparr>))"

text \<open>\<open>HeartBeatProcessor\<close>, on the manager's instance. A failing receive is reported and its string used.\<close>

definition HeartBeatProcessor :: "bool \<Rightarrow> recv_event list \<Rightarrow> ctm \<Rightarrow> fault + ctm" where
  "HeartBeatProcessor err evs m =
     (if err then Inr m
      else
        (case RpcRecvFrom evs [] False of
           Blocked message \<Rightarrow> Inl Hang
         | OverRead \<Rightarrow> Inl BufferOverRead
         | Returned code info nc evs \<Rightarrow> Inr (snd (InsertRefreshConnectionInfo info m))))"

primrec heartbeats :: "(bool \<times> recv_event list) list \<Rightarrow> ctm \<Rightarrow> fault + ctm" where
  "heartbeats [] m = Inr m"
| "heartbeats (x # xs) m =
     (case HeartBeatProcessor (fst x) (snd x) m of Inl f \<Rightarrow> Inl f | Inr m \<Rightarrow> heartbeats xs m)"

text \<open>\<open>Run\<close> with the datagrams that arrive while the loop runs: the loop runs on a pointer nobody set.\<close>

definition RpcHeartbeatServer_Run ::
  "int \<Rightarrow> (string \<Rightarrow> int \<Rightarrow> int) \<Rightarrow> (bool \<times> recv_event list) list \<Rightarrow> RpcHeartbeatServer \<Rightarrow> ctm \<Rightarrow>
   fault + (RpcHeartbeatServer \<times> ctm)" where
  "RpcHeartbeatServer_Run socket_ret bind_call arriving s m =
     (case InitHeartbeatServer socket_ret bind_call s of
        (True, s) \<Rightarrow> Inr (s, m)
      | (False, s) \<Rightarrow>
          (case epoller s of
             LoopNull \<Rightarrow> Inr (s, m)
           | LoopWild \<Rightarrow> Inl UseAfterFree
           | LoopOn fd \<Rightarrow> map_sum id (\<lambda>m. (s\<lparr>epoller := LoopNull\<rparr>, m)) (heartbeats arriving m)))"

subsection \<open>Facts about the client's lists\<close>

lemma hb_receive_message:
  assumes "filter (\<lambda>e. e \<noteq> Again) (ex_receives ex) = map Got (message_frames (- i) m)"
    and "nul_free m" "length m mod 511 \<noteq> 0" "length m < 2 ^ 31" "0 < i" "i < 2 ^ 31"
  shows "hb_receive ex nc = Inr (i, m)"
proof -
  have "outcome_of (RpcRecv (ex_receives ex) [] nc) = Some (i, m)"
    using outcome_skip_again [of "ex_receives ex" "[]" nc] recv_message [of m i "[]" nc] assms
    by (simp add: RpcRecv_def delivered_id)
  then show ?thesis by (cases "RpcRecv (ex_receives ex) [] nc") (simp_all add: hb_receive_def)
qed

text \<open>The addresses whose timers the next look at a bucket refreshes.\<close>

definition to_refresh :: "ctm \<Rightarrow> string set" where
  "to_refresh m = (case refresh_client_list m of None \<Rightarrow> {} | Some hosts \<Rightarrow> set hosts)"

lemma random_at_inD: "random_at ex (length addrs) addrs = Inr a \<Longrightarrow> a \<in> set addrs"
  by (auto simp: random_at_def Let_def split: if_splits)

lemma random_at_ok [simp]:
  "addrs \<noteq> [] \<Longrightarrow> random_at ex (length addrs) addrs = Inr (addrs ! (ex_rand ex mod length addrs))"
  by (simp add: random_at_def)

lemma refresh_lists_received: "0 \<le> fst answer \<Longrightarrow> refresh_lists codec answer hb = hb"
  by (simp add: refresh_lists_def UpdateServerAddrs_def UpdateCenterAddrs_def ClientWithCenter_default_def)

lemma client_turn_received:
  assumes "client_turn codec n ex hb = Inr hb'" and "\<And>code s. hb_receive ex True = Inr (code, s) \<Longrightarrow> 0 \<le> code"
  shows "hb' = hb"
  using assms by (auto simp: client_turn_def refresh_lists_received split: option.splits sum.splits if_splits)

lemma client_turns_received:
  assumes "client_turns codec n exs hb = Inr hb'"
    and "\<And>ex code s. ex \<in> set exs \<Longrightarrow> hb_receive ex True = Inr (code, s) \<Longrightarrow> 0 \<le> code"
  shows "hb' = hb"
  using assms
proof (induction exs arbitrary: hb)
  case (Cons ex exs)
  show ?case
  proof (cases "cch_running hb")
    case True
    with Cons.prems(1) obtain hb1 where t: "client_turn codec n ex hb = Inr hb1"
      and ts: "client_turns codec n exs hb1 = Inr hb'" by (auto split: sum.splits)
    have "hb1 = hb" using client_turn_received [OF t] Cons.prems(2) [of ex] by auto
    with Cons.IH [OF ts] Cons.prems(2) show ?thesis by auto
  qed (use Cons.prems(1) in auto)
qed simp

text \<open>What a client receives, whether whole or cut off, adds no server as long as none of it parses to one.\<close>

lemma client_turn_no_server:
  assumes "client_turn codec n ex hb = Inr hb'" and "cluster_server_addrs_list hb = []"
    and "\<And>code s q. hb_receive ex True = Inr (code, s) \<Longrightarrow> cwc_of_string codec s = Some q \<Longrightarrow> cluster_server_list q = []"
  shows "cluster_server_addrs_list hb' = []"
  using assms
  by (auto simp: client_turn_def refresh_lists_def UpdateServerAddrs_def UpdateCenterAddrs_def ClientWithCenter_default_def
      split: option.splits sum.splits if_splits)

lemma client_turns_no_server:
  assumes "client_turns codec n exs hb = Inr hb'" and "cluster_server_addrs_list hb = []"
    and "\<And>ex code s q. ex \<in> set exs \<Longrightarrow> hb_receive ex True = Inr (code, s) \<Longrightarrow> cwc_of_string codec s = Some q \<Longrightarrow>
      cluster_server_list q = []"
  shows "cluster_server_addrs_list hb' = []"
  using assms
proof (induction exs arbitrary: hb)
  case (Cons ex exs)
  show ?case
  proof (cases "cch_running hb")
    case True
    with Cons.prems(1) obtain hb1 where t: "client_turn codec n ex hb = Inr hb1"
      and ts: "client_turns codec n exs hb1 = Inr hb'" by (auto split: sum.splits)
    have "cluster_server_addrs_list hb1 = []"
      by (rule client_turn_no_server [OF t Cons.prems(2)]) (use Cons.prems(3) in auto)
    from Cons.IH [OF ts this] Cons.prems(3) show ?thesis by auto
  qed (use Cons.prems in auto)
qed simp

subsection \<open>Facts about the reports\<close>

text \<open>A registration only ever adds to the list of centers, at its end.\<close>

lemma InitCenterClusterHB_extends:
  "InitCenterClusterHB codec ex file local_addr cp hb = Inr (ok, hb') \<Longrightarrow>
   \<exists>more. reporter_center_addrs hb' = reporter_center_addrs hb @ more"
  by (auto simp: InitCenterClusterHB_def Let_def split: option.splits cptr.splits sum.splits if_splits)

definition first_centers :: "nat \<Rightarrow> string list \<Rightarrow> nat \<times> int \<times> CenterClusterHeartbeat \<Rightarrow> bool" where
  "first_centers n addrs st \<longleftrightarrow>
     fst st < n \<and> length addrs = n \<and> take n (reporter_center_addrs (snd (snd st))) = addrs"

lemma first_centers_nth:
  "first_centers n addrs (i, k, hb) \<Longrightarrow> i < length (reporter_center_addrs hb) \<and> reporter_center_addrs hb ! i \<in> set addrs"
  unfolding first_centers_def by (metis fst_conv snd_conv in_set_conv_nth length_take min_less_iff_conj nth_take)

lemma first_centers_le: "first_centers n addrs (i, k, hb) \<Longrightarrow> n \<le> length (reporter_center_addrs hb)"
  unfolding first_centers_def by (metis length_take min.cobounded1 snd_conv)

lemma cluster_turn_first:
  assumes turn: "cluster_turn codec n lim local_addr cp rt st = Inr (out, st')"
    and inv: "first_centers n addrs st"
  shows "first_centers n addrs st' \<and> fst ` set out \<subseteq> set addrs"
proof -
  obtain i k hb where st: "st = (i, k, hb)" by (cases st)
  have i: "i < length (reporter_center_addrs hb)" "reporter_center_addrs hb ! i \<in> set addrs" and n: "0 < n"
    using first_centers_nth [OF inv [unfolded st]] inv by (auto simp: st first_centers_def)
  have reinit: "first_centers n addrs (j mod n, k', hb')"
    if "InitCenterClusterHB codec ex f local_addr cp hb = Inr (ok, hb')" for ex f ok hb' j k'
    using InitCenterClusterHB_extends [OF that] first_centers_le [OF inv [unfolded st]] inv n by (auto simp: st first_centers_def)
  have same: "first_centers n addrs (j mod n, k', hb)" for j k'
    using inv n by (auto simp: st first_centers_def)
  show ?thesis
    using turn inv i reinit same
    by (auto simp: cluster_turn_def st Let_def split: option.splits sum.splits if_splits)
qed

lemma cluster_turns_first:
  assumes "cluster_turns codec n lim local_addr cp rts st = Inr (out, st')"
    and "first_centers n addrs st"
  shows "first_centers n addrs st' \<and> fst ` set out \<subseteq> set addrs"
  using assms
proof (induction rts arbitrary: st out)
  case (Cons rt rts)
  show ?case
  proof (cases "cl_running (snd (snd st))")
    case True
    with Cons.prems(1) obtain out1 st1 out2 where
      t: "cluster_turn codec n lim local_addr cp rt st = Inr (out1, st1)"
      and ts: "cluster_turns codec n lim local_addr cp rts st1 = Inr (out2, st')" and out: "out = out1 @ out2"
      by (auto split: sum.splits prod.splits)
    from cluster_turn_first [OF t Cons.prems(2)] Cons.IH [OF ts] show ?thesis unfolding out by auto
  qed (use Cons.prems in auto)
qed simp

subsection \<open>A concrete exchange\<close>

definition demo_exchange :: "int \<Rightarrow> exchange" where
  "demo_exchange fd =
     \<lparr>ex_rand = 0, ex_connect = (\<lambda>_. fd), ex_sends = (\<lambda>_. 516), ex_receives = map Got (message_frames (- 1) ''r''),
      ex_sysinfo = 0, ex_load = 7\<rparr>"

definition demo_codec :: client_codec where
  "demo_codec = \<lparr>cwc_to_string = (\<lambda>_. Some ''q''),
     cwc_of_string = (\<lambda>s. Some (ClientWithCenter_default\<lparr>client_center_action := CENTER_RESP_OK,
       should_communicate_center := [''c''], cluster_server_list := [s]\<rparr>))\<rparr>"

definition demo_cluster_codec :: cluster_codec where
  "demo_cluster_codec = \<lparr>rcs_to_string = (\<lambda>_. Some ''q''),
     crc_of_string = (\<lambda>s. Some (CenterResponseCluster_default\<lparr>should_reporter_center := [s]\<rparr>))\<rparr>"

definition no_config :: ConfigParser where
  "no_config = \<lparr>is_init = False, ini_file = None, dict_ini = None\<rparr>"

definition empty_ctm :: ctm where
  "empty_ctm = \<lparr>connection_buf = [], connection_pool_buckets = [], connection_del_list = [],
     refresh_client_list = Some [], refresh_interval = 30, buf_index = 0, bucket_index = 0, ctm_running = False\<rparr>"

lemma demo_exchange_simps [simp]:
  "ex_rand (demo_exchange fd) = 0" "ex_connect (demo_exchange fd) a = fd" "ex_sends (demo_exchange fd) = (\<lambda>_. 516)"
  "ex_sysinfo (demo_exchange fd) = 0" "ex_load (demo_exchange fd) = 7"
  by (simp_all add: demo_exchange_def)

lemma demo_codec_simps [simp]:
  "cwc_to_string demo_codec x = Some ''q''" "rcs_to_string demo_cluster_codec y = Some ''q''"
  by (simp_all add: demo_codec_def demo_cluster_codec_def)

lemma exchange_received [simp]: "hb_receive (demo_exchange fd) nc = Inr (1, ''r'')"
proof -
  have "nul_free ''r''" by (simp add: nul_free_def)
  then show ?thesis
    using recv_message [of "''r''" 1 "[]" nc]
    by (simp add: hb_receive_def RpcRecv_def demo_exchange_def delivered_id)
qed

lemma exchange_sent [simp]: "0 \<le> i \<Longrightarrow> length str < 2 ^ 31 \<Longrightarrow> ret (RpcSend (\<lambda>_. 516) i str nc) = 0"
  by (simp add: RpcSend_ok)

lemma no_config_gives [simp]: "IniGetString no_config key d = d" "IniGetInt no_config key n = Inr n"
  by (simp_all add: no_config_def IniGetString_def IniGetInt_def iniparser_getstring_def)

lemma one_line: "getlines ''c'' = [''c'']" by (subst getlines.simps) simp

lemma demo_client_init:
  "InitCenterClientHB demo_codec (demo_exchange 5) (Some ''c'') ''me'' no_config CenterClientHeartbeat_new =
   Inr (True, \<lparr>center_addrs = [''c''], updatecenter_addrs = [''c''], cluster_server_addrs_list = [''r''],
     cch_running = True, cch_port = Some ''8899''\<rparr>)"
  by (simp add: InitCenterClientHB_def CenterClientHeartbeat_new_def other_lines_def one_line c_str_def
      demo_codec_def [THEN arg_cong, of cwc_of_string] store_first_answer_def Let_def random_at_def del: getlines.simps)

lemma demo_cluster_init:
  "InitCenterClusterHB demo_cluster_codec (demo_exchange 5) (Some ''c'') ''me'' no_config CenterClusterHeartbeat_new =
   Inr (True, \<lparr>cl_center_addrs = [''c''], reporter_center_addrs = [''r''], cl_running = True, cl_port = Some ''8899''\<rparr>)"
  by (simp add: InitCenterClusterHB_def CenterClusterHeartbeat_new_def other_lines_def one_line c_str_def
      demo_cluster_codec_def [THEN arg_cong, of crc_of_string] CenterResponseCluster_default_def Let_def random_at_def
      del: getlines.simps)

subsection \<open>Properties\<close>

text \<open>A client never learns of new servers. After a start in which the first answer named centers,
  the list of servers that \<open>RandomGetRpcServerAddr\<close> draws from is what the initialisation left,
  however many turns follow and whatever the centers answer, as long as every receive comes back with
  a transfer id that is not negative.\<close>

theorem client_server_list_frozen:
  assumes "InitCenterClientHB codec ex file local_addr cp CenterClientHeartbeat_new = Inr (ok, hb)"
    and "CenterClientHeartbeat_Run codec ex exs file local_addr cp CenterClientHeartbeat_new = Inr hb'"
    and received: "\<forall>x \<in> set exs. \<forall>code s. hb_receive x True = Inr (code, s) \<longrightarrow> 0 \<le> code"
  shows "hb' = hb \<and> GetRpcServerList hb' = cluster_server_addrs_list hb \<and>
    (\<forall>r a. RandomGetRpcServerAddr r hb' = Inr a \<longrightarrow> a \<in> set (cluster_server_addrs_list hb))"
proof -
  have "hb' = hb"
    using assms(1,2) client_turns_received received
    by (fastforce simp: CenterClientHeartbeat_Run_def split: if_splits)
  then show ?thesis
    by (auto simp: GetRpcServerList_def RandomGetRpcServerAddr_def dest: random_at_inD)
qed

theorem client_server_list_frozen_witness:
  "\<exists>hb. CenterClientHeartbeat_Run demo_codec (demo_exchange 5) [demo_exchange 5, demo_exchange 6] (Some ''c'') ''me''
      no_config CenterClientHeartbeat_new = Inr hb \<and> GetRpcServerList hb = [''r'']"
proof -
  let ?run = "CenterClientHeartbeat_Run demo_codec (demo_exchange 5) [demo_exchange 5, demo_exchange 6] (Some ''c'') ''me''
      no_config CenterClientHeartbeat_new"
  obtain hb where run: "?run = Inr hb"
    by (simp add: CenterClientHeartbeat_Run_def demo_client_init client_turn_def random_at_def refresh_lists_received)
  have "\<forall>x \<in> set [demo_exchange 5, demo_exchange 6]. \<forall>code s. hb_receive x True = Inr (code, s) \<longrightarrow> 0 \<le> code"
    by simp
  from client_server_list_frozen [OF demo_client_init run this] run show ?thesis by auto
qed

text \<open>C34: The reports of a server go to the centers of its first registration only. Whatever the later
  registrations return (one is made again after every \<open>should_reinit\<close> + 1 connections that failed),
  every address the loop contacts was named in the first answer.\<close>

theorem reports_go_to_first_registration:
  assumes "InitCenterClusterHB codec ex file local_addr cp CenterClusterHeartbeat_new = Inr (True, hb)"
    and "CenterClusterHeartbeat_Run codec ex first_rand rts file local_addr cp CenterClusterHeartbeat_new
         = Inr (contacted, hb')"
  shows "fst ` set contacted \<subseteq> set (reporter_center_addrs hb)"
proof (cases "reporter_center_addrs hb = []")
  case False
  let ?n = "length (reporter_center_addrs hb)"
  from assms False obtain lim i k where
    turns: "cluster_turns codec ?n lim local_addr cp rts (first_rand mod ?n, 0, hb) = Inr (contacted, i, k, hb')"
    by (auto simp: CenterClusterHeartbeat_Run_def Let_def split: sum.splits if_splits prod.splits)
  have "first_centers ?n (reporter_center_addrs hb) (first_rand mod ?n, 0, hb)"
    using False by (simp add: first_centers_def)
  from cluster_turns_first [OF turns this] show ?thesis by blast
qed (use assms in \<open>auto simp: CenterClusterHeartbeat_Run_def Let_def\<close>)

theorem reports_go_to_first_registration_witness:
  "\<exists>contacted hb. CenterClusterHeartbeat_Run demo_cluster_codec (demo_exchange 5) 3
      [\<lparr>rt_exchange = demo_exchange 5, rt_reinit = demo_exchange 5, rt_file = None, rt_next_rand = 0\<rparr>] (Some ''c'') ''me''
      no_config CenterClusterHeartbeat_new = Inr (contacted, hb) \<and> contacted \<noteq> [] \<and> fst ` set contacted \<subseteq> {''r''}"
proof -
  let ?run = "CenterClusterHeartbeat_Run demo_cluster_codec (demo_exchange 5) 3
      [\<lparr>rt_exchange = demo_exchange 5, rt_reinit = demo_exchange 5, rt_file = None, rt_next_rand = 0\<rparr>] (Some ''c'') ''me''
      no_config CenterClusterHeartbeat_new"
  obtain contacted hb where run: "?run = Inr (contacted, hb)" and some: "contacted \<noteq> []"
    by (simp add: CenterClusterHeartbeat_Run_def demo_cluster_init cluster_turn_def)
  from reports_go_to_first_registration [OF demo_cluster_init run] run some show ?thesis by auto
qed

text \<open>C35: A heartbeat refreshes the connection of the client that sent it. When \<open>sendto\<close> takes the whole
  datagram and the server receives it, the processor adds the client's address to the addresses to
  refresh in the connection timers and changes nothing else of the timers. (The address has no NUL
  byte and less than 511 bytes, as those of \<open>GetLocalAddress\<close> have.)\<close>

theorem heartbeat_refreshes_sender:
  assumes "length local_addr < 511" and "nul_free local_addr" and "local_addr \<noteq> []" and "0 \<le> socket_ret"
  shows "\<exists>datagrams hb m'. RpcHeartbeatClient_Run socket_ret local_addr [\<lambda>_. 516]
        (RpcHeartbeatClient_new (Some host) (Some port) timeout fd) = ([datagrams], hb) \<and>
      HeartBeatProcessor False (map Got datagrams) m = Inr m' \<and>
      to_refresh m' = insert local_addr (to_refresh m) \<and>
      m'\<lparr>refresh_client_list := refresh_client_list m\<rparr> = m"
proof -
  have frames: "sent (RpcSendTo (\<lambda>_. 516) local_addr False) = message_frames (- 1) local_addr"
    using assms(1) by (simp add: RpcSendTo_def send_message_ok)
  have "RpcRecvFrom (map Got (message_frames (- 1) local_addr)) [] False = Returned 1 local_addr False []"
    using recv_message [of local_addr 1 "[]" False] assms
    by (simp add: RpcRecvFrom_def delivered_id)
  with frames assms show ?thesis
    by (simp add: RpcHeartbeatClient_Run_def CreateRpcConnection_def RpcHeartbeatClient_new_def UdpClientInit_def
        Socket_def HeartBeatProcessor_def Let_def InsertRefreshConnectionInfo_def to_refresh_def split: option.split)
qed

theorem heartbeat_refreshes_sender_witness:
  "\<exists>datagrams hb m'. RpcHeartbeatClient_Run 4 ''10.0.0.7'' [\<lambda>_. 516]
        (RpcHeartbeatClient_new (Some ''a'') (Some ''b'') 10 0) = ([datagrams], hb) \<and>
      HeartBeatProcessor False (map Got datagrams) empty_ctm = Inr m' \<and>
      to_refresh m' = {''10.0.0.7''}"
  using heartbeat_refreshes_sender [of "''10.0.0.7''" 4 "''a''" "''b''" 10 0 empty_ctm]
  by (auto simp: nul_free_def to_refresh_def empty_ctm_def)

text \<open>No heartbeat is ever processed. When the socket can be bound, \<open>Run\<close> takes the success of
  \<open>InitHeartbeatServer\<close> for a failure and returns; when it cannot, it goes on, to a loop pointer that
  was never set. In both cases the timers are as before.\<close>

theorem heartbeat_server_never_runs:
  assumes "garbage = LoopNull \<or> garbage = LoopWild"
  shows "RpcHeartbeatServer_Run socket_ret bind_call arriving (RpcHeartbeatServer_new host port garbage) m =
    (if fst (UdpServerInit socket_ret host port bind_call) < 0
     then (if garbage = LoopNull then Inr (RpcHeartbeatServer_new host port garbage, m) else Inl UseAfterFree)
     else Inr ((RpcHeartbeatServer_new host port garbage)
                 \<lparr>epoller := LoopOn (fst (UdpServerInit socket_ret host port bind_call))\<rparr>, m))"
  using assms
  by (auto simp: RpcHeartbeatServer_Run_def InitHeartbeatServer_def RpcHeartbeatServer_new_def Let_def)

theorem heartbeat_server_never_runs_witness:
  "RpcHeartbeatServer_Run 4 (\<lambda>_ _. 0) [(False, [])] (RpcHeartbeatServer_new ''h'' ''9999'' LoopWild) empty_ctm =
   Inr ((RpcHeartbeatServer_new ''h'' ''9999'' LoopWild)\<lparr>epoller := LoopOn 4\<rparr>, empty_ctm)"
  using heartbeat_server_never_runs [of LoopWild 4 "\<lambda>_ _. 0" "[(False, [])]" "''h''" "''9999''" empty_ctm]
  by (simp add: UdpServerInit_def Socket_def)

end
