(* ===== verification/RpcClient.thy ===== *)
theory RpcClient
  imports Heartbeats
begin

section \<open>The RPC client\<close>

text \<open>
  The controllers (rpc\_client/client\_rpc\_controller.cpp, rpc\_server/server\_rpc\_controller.cpp), the
  channel (rpc\_client/rpc\_channel.cpp) with its synchronous and asynchronous calls, and the client
  object (rpc\_client/rpc\_client.cpp). What the system and the generated code answer during one call is
  the record \<open>call_env\<close>. An asynchronous call is a worker that sends and receives in two steps, so
  that calls interleave. Locks are left out.
\<close>

subsection \<open>Controllers\<close>

record rpc_controller =
  ctl_error_info :: string

definition ClientRpcController_new :: rpc_controller where
  "ClientRpcController_new = \<lparr>ctl_error_info = []\<rparr>"

definition Controller_Reset :: "rpc_controller \<Rightarrow> rpc_controller" where
  "Controller_Reset c = c\<lparr>ctl_error_info := []\<rparr>"

definition Failed :: "rpc_controller \<Rightarrow> bool" where
  "Failed c \<longleftrightarrow> ctl_error_info c \<noteq> []"

definition ErrorText :: "rpc_controller \<Rightarrow> string" where
  "ErrorText c = ctl_error_info c"

text \<open>The client's controller collects the reasons, the server's keeps the last one.\<close>

definition SetFailed :: "string \<Rightarrow> rpc_controller \<Rightarrow> rpc_controller" where
  "SetFailed reason c = c\<lparr>ctl_error_info := ctl_error_info c @ reason @ [CHR 0x0A]\<rparr>"

definition ServerRpcController_new :: rpc_controller where
  "ServerRpcController_new = \<lparr>ctl_error_info = []\<rparr>"

definition Server_Reset :: "rpc_controller \<Rightarrow> rpc_controller" where
  "Server_Reset c = c\<lparr>ctl_error_info := []\<rparr>"

definition Server_Failed :: "rpc_controller \<Rightarrow> bool" where
  "Server_Failed c \<longleftrightarrow> ctl_error_info c \<noteq> []"

definition Server_ErrorText :: "rpc_controller \<Rightarrow> string" where
  "Server_ErrorText c = ctl_error_info c"

definition Server_SetFailed :: "string \<Rightarrow> rpc_controller \<Rightarrow> rpc_controller" where
  "Server_SetFailed reason c = c\<lparr>ctl_error_info := reason\<rparr>"

definition set_failed :: "string \<Rightarrow> rpc_controller option \<Rightarrow> rpc_controller option" where
  "set_failed reason c = map_option (SetFailed reason) c"

subsection \<open>The channel\<close>

text \<open>
  The pointer to the heartbeat of the distributed mode. The constructor for a single server does not
  initialise it: \<open>HbWild\<close> is a pointer that is not null and points nowhere.
\<close>

datatype hb_ptr = HbNull | HbWild | HbSet

record RpcCallParams =
  method_full_name :: string
  method_client_name :: string

datatype worker = Created RpcCallParams | Waiting RpcCallParams | Ended

record channel =
  ch_addr :: "string option"
  ch_port :: "string option"
  connect_fd :: int
  is_channel_async_call :: bool
  call_limit :: int
  tcp_conn_timeout :: int
  try_time :: int
  center_client_heartbeat :: hb_ptr
  error_info :: string
  call_tids_map :: "(u32 \<times> nat list) list"
  call_results_map :: "nat \<Rightarrow> string option"
  thread_ids_vec :: "nat list"
  workers :: "nat \<Rightarrow> worker option"
  next_tid :: nat
  sent_on :: "(nat \<times> int) list"

definition Channel_new :: "hb_ptr \<Rightarrow> string option \<Rightarrow> string \<Rightarrow> int \<Rightarrow> channel" where
  "Channel_new hb addr port garbage_fd =
     \<lparr>ch_addr = addr, ch_port = Some port, connect_fd = garbage_fd, is_channel_async_call = False,
      call_limit = 100, tcp_conn_timeout = 1000, try_time = 1, center_client_heartbeat = hb,
      error_info = [], call_tids_map = [], call_results_map = Map.empty, thread_ids_vec = [],
      workers = Map.empty, next_tid = 0, sent_on = []\<rparr>"

definition Channel_distributed :: "string \<Rightarrow> int \<Rightarrow> channel" where
  "Channel_distributed port garbage_fd = Channel_new HbSet None port garbage_fd"

definition Channel_single :: "hb_ptr \<Rightarrow> string \<Rightarrow> string \<Rightarrow> int \<Rightarrow> channel" where
  "Channel_single garbage_hb addr port garbage_fd = Channel_new garbage_hb (Some addr) port garbage_fd"

definition OpenRpcAsyncMode :: "channel \<Rightarrow> channel" where
  "OpenRpcAsyncMode ch = ch\<lparr>is_channel_async_call := True\<rparr>"

definition SetConnectionInfo :: "int \<Rightarrow> int \<Rightarrow> channel \<Rightarrow> channel" where
  "SetConnectionInfo timeout tries ch = ch\<lparr>tcp_conn_timeout := timeout, try_time := tries\<rparr>"

definition SetCallLimit :: "int \<Rightarrow> channel \<Rightarrow> channel" where
  "SetCallLimit limit ch = ch\<lparr>call_limit := limit\<rparr>"

text \<open>
  One call: the results of \<open>TcpConnect\<close> in turn, the random number and the state of the heartbeat for the
  distributed mode, the results of \<open>send\<close> and \<open>recv\<close>, the serialised request, whether
  the caller gave a response object, and its \<open>ParseFromString\<close>.
\<close>

record 'r call_env =
  tcp :: "nat \<Rightarrow> int"
  draw :: exchange
  heartbeat :: CenterClientHeartbeat
  call_sends :: "nat \<Rightarrow> int"
  call_receives :: "recv_event list"
  request_str :: "string option"
  has_response :: bool
  parse_response :: "string \<Rightarrow> 'r option"

text \<open>The loop around \<open>TcpConnect\<close>: the descriptor and the number of attempts, \<open>None\<close> while it still runs.\<close>

fun connect_tries :: "(nat \<Rightarrow> int) \<Rightarrow> nat \<Rightarrow> int \<Rightarrow> nat \<Rightarrow> (int \<times> nat) option" where
  "connect_tries tcp_result 0 try_times i = None"
| "connect_tries tcp_result (Suc fuel) try_times i =
     (if tcp_result i \<noteq> TCP_CONN_TIMEOUT then Some (tcp_result i, Suc i)
      else if try_times - 1 \<le> 0 then connect_tries tcp_result fuel (try_times - 1) (Suc i)
      else Some (tcp_result i, Suc i))"

text \<open>\<open>RpcCommunication\<close>: \<open>Inl\<close> of the error text, or the received string.\<close>

definition communicate ::
  "'r call_env \<Rightarrow> RpcCallParams \<Rightarrow> fault + (string + string)" where
  "communicate env params =
     (if \<not> has_response env then Inl NullDeref
      else
        (case request_str env of
           None \<Rightarrow> Inr (Inl ''SerializeToString request failed!'')
         | Some send_str \<Rightarrow>
             (let hash_code = BKDRHash (c_str (method_full_name params)) in
              if ret (RpcSend (call_sends env) (sint hash_code) send_str False) < 0
              then Inr (Inl ''Send data error in rpc channel.'')
              else
                (case RpcRecv (call_receives env) [] True of
                   Blocked message \<Rightarrow> Inl Hang
                 | OverRead \<Rightarrow> Inl BufferOverRead
                 | Returned code message nc evs \<Rightarrow>
                     if code = ERROR_RECV then Inr (Inl ''Recv data error in rpc channel.'')
                     else Inr (Inr message)))))"

definition RpcCommunication ::
  "'r call_env \<Rightarrow> RpcCallParams \<Rightarrow> channel \<Rightarrow> fault + (string option \<times> channel)" where
  "RpcCommunication env params ch =
     (case communicate env params of
        Inl f \<Rightarrow> Inl f
      | Inr (Inl e) \<Rightarrow> Inr (None, ch\<lparr>error_info := e\<rparr>)
      | Inr (Inr message) \<Rightarrow> Inr (Some message, ch))"

subsection \<open>Asynchronous calls\<close>

text \<open>The size is compared with the limit as an unsigned number: a negative limit is no limit.\<close>

definition AsyncRpcCall :: "RpcCallParams \<Rightarrow> channel \<Rightarrow> bool \<times> channel" where
  "AsyncRpcCall params ch =
     (if 0 \<le> call_limit ch \<and> int (length (call_tids_map ch)) \<ge> call_limit ch then (False, ch)
      else
        (let tid = next_tid ch;
             hash_code = BKDRHash (c_str (method_client_name params));
             tids = (case map_of (call_tids_map ch) hash_code of
                       None \<Rightarrow> call_tids_map ch @ [(hash_code, [tid])]
                     | Some ts \<Rightarrow> map (\<lambda>(h, ts). if h = hash_code then (h, ts @ [tid]) else (h, ts)) (call_tids_map ch))
         in (True, ch\<lparr>next_tid := Suc tid, workers := (workers ch)(tid \<mapsto> Created params),
                      call_tids_map := tids, thread_ids_vec := thread_ids_vec ch @ [tid]\<rparr>)))"

text \<open>
  The worker \<open>Channel::RpcProcessor\<close>: it sends on the channel's descriptor of that moment, and
  receives on the channel's descriptor of a later one. It ends without a \<open>return\<close>.
\<close>

definition worker_send :: "'r call_env \<Rightarrow> nat \<Rightarrow> channel \<Rightarrow> fault + channel" where
  "worker_send env tid ch =
     (case workers ch tid of
        Some (Created params) \<Rightarrow>
          (if \<not> has_response env then Inl NullDeref
           else
             (case request_str env of
                None \<Rightarrow> Inr (ch\<lparr>error_info := ''SerializeToString request failed!'',
                              workers := (workers ch)(tid \<mapsto> Ended)\<rparr>)
              | Some send_str \<Rightarrow>
                  (let ch = ch\<lparr>sent_on := sent_on ch @ [(tid, connect_fd ch)]\<rparr>;
                       r = ret (RpcSend (call_sends env) (sint (BKDRHash (c_str (method_full_name params)))) send_str False)
                   in if r < 0
                      then Inr (ch\<lparr>error_info := ''Send data error in rpc channel.'',
                                  workers := (workers ch)(tid \<mapsto> Ended)\<rparr>)
                      else Inr (ch\<lparr>workers := (workers ch)(tid \<mapsto> Waiting params)\<rparr>))))
      | _ \<Rightarrow> Inr ch)"

definition worker_receive :: "'r call_env \<Rightarrow> nat \<Rightarrow> channel \<Rightarrow> fault + channel" where
  "worker_receive env tid ch =
     (case workers ch tid of
        Some (Waiting params) \<Rightarrow>
          (case RpcRecv (call_receives env) [] True of
             Blocked message \<Rightarrow> Inl Hang
           | OverRead \<Rightarrow> Inl BufferOverRead
           | Returned code message nc evs \<Rightarrow>
               (let ch = ch\<lparr>workers := (workers ch)(tid \<mapsto> Ended)\<rparr>
                in Inr (if code = ERROR_RECV then ch\<lparr>error_info := ''Recv data error in rpc channel.''\<rparr>
                        else ch\<lparr>call_results_map := (call_results_map ch)(tid \<mapsto> message)\<rparr>)))
      | _ \<Rightarrow> Inr ch)"

text \<open>
  \<open>GetAsyncResponse\<close>: \<open>pthread_join\<close> of a worker that has not ended waits; that is \<open>Hang\<close> here. The
  response is \<open>None\<close> for the result \<open>false\<close>, else what \<open>ParseFromString\<close> made of the answer.
\<close>

definition GetAsyncResponse ::
  "(string \<Rightarrow> 'r option) \<Rightarrow> string \<Rightarrow> channel \<Rightarrow> fault + ('r option option \<times> channel)" where
  "GetAsyncResponse parse method_name ch =
     (let method_code = BKDRHash (c_str method_name) in
      case map_of (call_tids_map ch) method_code of
        None \<Rightarrow> Inr (None, ch\<lparr>error_info := ''Get the response list failed''\<rparr>)
      | Some [] \<Rightarrow> Inr (None, ch\<lparr>error_info := ''Get the response list failed''\<rparr>)
      | Some (cur_tid # rest) \<Rightarrow>
          (let ch = ch\<lparr>call_tids_map := map (\<lambda>(h, ts). if h = method_code then (h, rest) else (h, ts)) (call_tids_map ch)\<rparr>
           in case workers ch cur_tid of
                Some Ended \<Rightarrow>
                  (case call_results_map ch cur_tid of
                     None \<Rightarrow> Inr (None, ch)
                   | Some message \<Rightarrow>
                       Inr (Some (parse message),
                            ch\<lparr>call_results_map := (call_results_map ch)(cur_tid := None)\<rparr>))
              | _ \<Rightarrow> Inl Hang))"

subsection \<open>Calls\<close>

text \<open>
  \<open>CallMethod\<close>. In the distributed mode \<open>local_addr\<close> is the buffer of a temporary string that is gone when
  \<open>TcpConnect\<close> reads it; before that, an empty list of servers is a division by zero. The result
  has the controller and the parsed response, if there is one.
\<close>

definition CallMethod ::
  "'r call_env \<Rightarrow> nat \<Rightarrow> RpcCallParams \<Rightarrow> rpc_controller option \<Rightarrow> channel \<Rightarrow>
   fault + (rpc_controller option \<times> 'r option \<times> channel)" where
  "CallMethod env fuel params ctl ch =
     (case center_client_heartbeat ch of
        HbWild \<Rightarrow> Inl UseAfterFree
      | HbSet \<Rightarrow>
          (case RandomGetRpcServerAddr (draw env) (heartbeat env) of
             Inl f \<Rightarrow> Inl f
           | Inr temporary \<Rightarrow> Inl UseAfterFree)
      | HbNull \<Rightarrow>
          (case (ch_addr ch, ch_port ch) of
             (Some addr, Some port) \<Rightarrow>
               (case connect_tries (tcp env) fuel (try_time ch) 0 of
                  None \<Rightarrow> Inl Hang
                | Some (fd, _) \<Rightarrow>
                    (let ch = ch\<lparr>connect_fd := fd\<rparr> in
                     if fd < 0 then Inr (set_failed ''Rpc connect server failed!'' ctl, None, ch)
                     else if is_channel_async_call ch then Inr (ctl, None, snd (AsyncRpcCall params ch))
                     else
                       (case RpcCommunication env params ch of
                          Inl f \<Rightarrow> Inl f
                        | Inr (None, ch) \<Rightarrow> Inr (set_failed (error_info ch) ctl, None, ch)
                        | Inr (Some response_str, ch) \<Rightarrow>
                            (case parse_response env response_str of
                               None \<Rightarrow> Inr (set_failed ''SerializeToString response error in RpcChannel!'' ctl, None, ch)
                             | Some r \<Rightarrow> Inr (ctl, Some r, ch)))))
           | _ \<Rightarrow> Inr (ctl, None, ch)))"

subsection \<open>The client object\<close>

record rpc_client =
  rpc_channel :: "channel option"
  rpc_controller :: "rpc_controller option"
  rpc_heartbeat :: "(RpcHeartbeatClient \<times> thread) option"
  center_client_hb :: "(CenterClientHeartbeat \<times> thread) option"

definition cptr_text :: "cptr \<Rightarrow> string option" where
  "cptr_text p = (case p of Ptr s \<Rightarrow> Some s | _ \<Rightarrow> None)"

definition SetRpcConnectionInfo :: "int \<Rightarrow> int \<Rightarrow> rpc_client \<Rightarrow> bool \<times> rpc_client" where
  "SetRpcConnectionInfo rpc_timeout tries c =
     (case rpc_channel c of
        None \<Rightarrow> (False, c)
      | Some ch \<Rightarrow> (True, c\<lparr>rpc_channel := Some (SetConnectionInfo rpc_timeout tries ch)\<rparr>))"

text \<open>
  \<open>InitClient\<close>. What the memory of the new objects holds, and the results of creating the threads, are
  arguments.
\<close>

definition InitClient ::
  "ConfigParser \<Rightarrow> hb_ptr \<Rightarrow> int \<Rightarrow> bool \<Rightarrow> bool \<Rightarrow> rpc_client \<Rightarrow> fault + rpc_client" where
  "InitClient cp garbage_hb garbage_fd create_center create_hb c =
     (let addr = cptr_text (IniGetString cp ''rpc_server:addr'' (Ptr ''127.0.0.1''));
          port = cptr_text (IniGetString cp ''rpc_server:port'' (Ptr ''9998''));
          hb_port = cptr_text (IniGetString cp ''heartbeat:port'' (Ptr ''9999'')) in
      case (IniGetBool cp ''rpc_server:distributed_mode'' False, IniGetBool cp ''heartbeat:open'' True,
            IniGetInt cp ''connection:timeout'' 10) of
        (Inr distributed_mode, Inr hb_open, Inr timeout) \<Rightarrow>
          (case (if distributed_mode
                 then (case port of
                         None \<Rightarrow> Inl NullDeref
                       | Some p \<Rightarrow>
                           Inr (c\<lparr>center_client_hb := Some (CenterClientHeartbeat_new, snd (Start create_center Thread_new)),
                                  rpc_channel := Some (Channel_distributed p garbage_fd)\<rparr>))
                 else
                   (case (addr, port) of
                      (Some a, Some p) \<Rightarrow> Inr (c\<lparr>rpc_channel := Some (Channel_single garbage_hb a p garbage_fd)\<rparr>)
                    | _ \<Rightarrow> Inr (c\<lparr>rpc_channel := Some (Channel_single garbage_hb ''127.0.0.1'' ''9999'' garbage_fd)\<rparr>))) of
             Inl f \<Rightarrow> Inl f
           | Inr c \<Rightarrow>
               (let c = (if hb_open
                         then c\<lparr>rpc_heartbeat := Some (RpcHeartbeatClient_new addr hb_port timeout garbage_fd,
                                                       snd (Start create_hb Thread_new))\<rparr>
                         else c)
                in Inr (snd (SetRpcConnectionInfo 1000 1 (c\<lparr>rpc_controller := Some ClientRpcController_new\<rparr>)))))
      | (Inl f, _, _) \<Rightarrow> Inl f
      | (_, Inl f, _) \<Rightarrow> Inl f
      | (_, _, Inl f) \<Rightarrow> Inl f)"

definition RpcClient_new :: "ConfigParser \<Rightarrow> hb_ptr \<Rightarrow> int \<Rightarrow> bool \<Rightarrow> bool \<Rightarrow> fault + rpc_client" where
  "RpcClient_new cp garbage_hb garbage_fd create_center create_hb =
     InitClient cp garbage_hb garbage_fd create_center create_hb
       \<lparr>rpc_channel = None, rpc_controller = None, rpc_heartbeat = None, center_client_hb = None\<rparr>"

definition IsCallOk :: "rpc_client \<Rightarrow> bool" where
  "IsCallOk c = (case rpc_controller c of None \<Rightarrow> True | Some ctl \<Rightarrow> \<not> Failed ctl)"

definition GetErrorInfo :: "rpc_client \<Rightarrow> string" where
  "GetErrorInfo c = (case rpc_controller c of None \<Rightarrow> [] | Some ctl \<Rightarrow> ErrorText ctl)"

text \<open>\<open>None\<close> is the call of \<open>exit\<close>.\<close>

definition Client_OpenRpcAsyncMode :: "rpc_client \<Rightarrow> (bool \<times> rpc_client) option" where
  "Client_OpenRpcAsyncMode c =
     (case rpc_channel c of
        None \<Rightarrow> None
      | Some ch \<Rightarrow> Some (True, c\<lparr>rpc_channel := Some (OpenRpcAsyncMode ch)\<rparr>))"

definition Client_GetAsyncResponse ::
  "(string \<Rightarrow> 'r option) \<Rightarrow> string \<Rightarrow> rpc_client \<Rightarrow> fault + ('r option option \<times> rpc_client)" where
  "Client_GetAsyncResponse parse method_name c =
     (case rpc_channel c of
        None \<Rightarrow> Inr (None, c)
      | Some ch \<Rightarrow> map_sum id (\<lambda>(r, ch). (r, c\<lparr>rpc_channel := Some ch\<rparr>)) (GetAsyncResponse parse method_name ch))"

text \<open>A stub's call through the client: its channel, with its controller.\<close>

definition stub_call ::
  "'r call_env \<Rightarrow> nat \<Rightarrow> RpcCallParams \<Rightarrow> rpc_client \<Rightarrow> fault + ('r option \<times> rpc_client)" where
  "stub_call env fuel params c =
     (case rpc_channel c of
        None \<Rightarrow> Inl NullDeref
      | Some ch \<Rightarrow>
          (case CallMethod env fuel params (rpc_controller c) ch of
             Inl f \<Rightarrow> Inl f
           | Inr (ctl, r, ch) \<Rightarrow> Inr (r, c\<lparr>rpc_channel := Some ch, rpc_controller := ctl\<rparr>)))"

primrec stub_calls ::
  "('r call_env \<times> nat \<times> RpcCallParams) list \<Rightarrow> rpc_client \<Rightarrow> fault + ('r option list \<times> rpc_client)" where
  "stub_calls [] c = Inr ([], c)"
| "stub_calls (x # xs) c =
     (case stub_call (fst x) (fst (snd x)) (snd (snd x)) c of
        Inl f \<Rightarrow> Inl f
      | Inr (r, c) \<Rightarrow> (case stub_calls xs c of Inl f \<Rightarrow> Inl f | Inr (rs, c) \<Rightarrow> Inr (r # rs, c)))"

subsection \<open>Facts about calls\<close>

lemma BKDRHash_nonneg: "0 \<le> sint (BKDRHash s)"
proof -
  have "bit (BKDRHash s) 31 = False" by (simp add: BKDRHash_def bit_simps)
  then show ?thesis using bit_last_iff [of "BKDRHash s"] by (simp add: not_less)
qed

lemma connect_tries_stop:
  "tcp_result i \<noteq> TCP_CONN_TIMEOUT \<Longrightarrow> connect_tries tcp_result (Suc fuel) n i = Some (tcp_result i, Suc i)"
  by simp

lemma connect_tries_skip:
  assumes "n \<le> 1" and "\<And>k. i \<le> k \<Longrightarrow> k < i + d \<Longrightarrow> tcp_result k = TCP_CONN_TIMEOUT"
  shows "connect_tries tcp_result (d + fuel) n i = connect_tries tcp_result fuel (n - int d) (i + d)"
  using assms
proof (induction d arbitrary: n i)
  case (Suc d)
  have "connect_tries tcp_result (d + fuel) (n - 1) (Suc i) = connect_tries tcp_result fuel (n - 1 - int d) (Suc i + d)"
    by (rule Suc.IH) (use Suc.prems in auto)
  with Suc.prems(1) Suc.prems(2) [of i] show ?case by (simp add: algebra_simps)
qed simp

lemma connect_tries_hang:
  "n \<le> 1 \<Longrightarrow> (\<And>k. tcp_result k = TCP_CONN_TIMEOUT) \<Longrightarrow> connect_tries tcp_result fuel n i = None"
  using connect_tries_skip [of n i fuel tcp_result 0] by simp

lemma SetFailed_Failed [simp]: "Failed (SetFailed reason c)"
  by (simp add: Failed_def SetFailed_def)

lemma CallMethod_keeps_failure:
  assumes "CallMethod env fuel params ctl ch = Inr (ctl', r, ch')" and "map_option Failed ctl = Some True"
  shows "map_option Failed ctl' = Some True"
  using assms
  by (auto simp: CallMethod_def Let_def set_failed_def split: hb_ptr.splits option.splits sum.splits if_splits)

lemma stub_calls_keep_failure:
  "stub_calls xs c = Inr (rs, c') \<Longrightarrow> map_option Failed (rpc_controller c) = Some True \<Longrightarrow>
   map_option Failed (rpc_controller c') = Some True"
proof (induction xs arbitrary: c rs)
  case (Cons x xs)
  then obtain r c1 rs1 where call: "stub_call (fst x) (fst (snd x)) (snd (snd x)) c = Inr (r, c1)"
    and rest: "stub_calls xs c1 = Inr (rs1, c')" by (auto split: sum.splits)
  have "map_option Failed (rpc_controller c1) = Some True"
    using call Cons.prems(2) CallMethod_keeps_failure by (fastforce simp: stub_call_def split: option.splits sum.splits)
  with Cons.IH [OF rest] show ?case .
qed simp

lemma IsCallOk_iff: "\<not> IsCallOk c \<longleftrightarrow> map_option Failed (rpc_controller c) = Some True"
  by (auto simp: IsCallOk_def split: option.split)

text \<open>A synchronous call whose connection stands and whose request is sent.\<close>

lemma CallMethod_sync:
  assumes "center_client_heartbeat ch = HbNull" and "ch_addr ch = Some addr" and "ch_port ch = Some port"
    and "\<not> is_channel_async_call ch" and "tcp env 0 = fd" and "0 \<le> fd" and "has_response env"
    and "request_str env = Some req" and "ret (RpcSend (call_sends env) (sint (BKDRHash (c_str (method_full_name params)))) req False) \<ge> 0"
    and "RpcRecv (call_receives env) [] True = Returned code message nc evs" and "code \<noteq> ERROR_RECV"
  shows "CallMethod env (Suc fuel) params ctl ch =
    Inr (case parse_response env message of
           None \<Rightarrow> (set_failed ''SerializeToString response error in RpcChannel!'' ctl, None, ch\<lparr>connect_fd := fd\<rparr>)
         | Some r \<Rightarrow> (ctl, Some r, ch\<lparr>connect_fd := fd\<rparr>))"
proof -
  have "tcp env 0 \<noteq> TCP_CONN_TIMEOUT" using assms(5,6) by simp
  then have tries: "connect_tries (tcp env) (Suc fuel) (try_time ch) 0 = Some (fd, 1)"
    using connect_tries_stop [of "tcp env" 0 fuel "try_time ch"] assms(5) by simp
  have "communicate env params = Inr (Inr message)"
    using assms(7-11) by (simp add: communicate_def)
  then show ?thesis
    using assms(1-4,6) tries
    by (simp add: CallMethod_def RpcCommunication_def del: connect_tries.simps split: option.split)
qed

text \<open>The same call when the receive fails.\<close>

lemma CallMethod_recv_fails:
  assumes "center_client_heartbeat ch = HbNull" and "ch_addr ch = Some addr" and "ch_port ch = Some port"
    and "\<not> is_channel_async_call ch" and "tcp env 0 = fd" and "0 \<le> fd" and "has_response env"
    and "request_str env = Some req" and "ret (RpcSend (call_sends env) (sint (BKDRHash (c_str (method_full_name params)))) req False) \<ge> 0"
    and "RpcRecv (call_receives env) [] True = Returned ERROR_RECV message nc evs"
  shows "\<exists>ch'. CallMethod env (Suc fuel) params ctl ch =
    Inr (set_failed ''Recv data error in rpc channel.'' ctl, None, ch')"
proof -
  have "tcp env 0 \<noteq> TCP_CONN_TIMEOUT" using assms(5,6) by simp
  then have tries: "connect_tries (tcp env) (Suc fuel) (try_time ch) 0 = Some (fd, 1)"
    using connect_tries_stop [of "tcp env" 0 fuel "try_time ch"] assms(5) by simp
  have "communicate env params = Inr (Inl ''Recv data error in rpc channel.'')"
    using assms(7-10) by (simp add: communicate_def)
  then show ?thesis
    using assms(1-4,6) tries
    by (simp add: CallMethod_def RpcCommunication_def del: connect_tries.simps)
qed

subsection \<open>Facts about asynchronous calls\<close>

primrec async_gets ::
  "(string \<Rightarrow> 'r option) \<Rightarrow> string \<Rightarrow> nat \<Rightarrow> channel \<Rightarrow> fault + ('r option option list \<times> channel)" where
  "async_gets parse name 0 ch = Inr ([], ch)"
| "async_gets parse name (Suc n) ch =
     (case GetAsyncResponse parse name ch of
        Inl f \<Rightarrow> Inl f
      | Inr (r, ch) \<Rightarrow>
          (case async_gets parse name n ch of Inl f \<Rightarrow> Inl f | Inr (rs, ch) \<Rightarrow> Inr (r # rs, ch)))"

text \<open>The calls of a client one after the other, each answered by a worker of its own.\<close>

definition async_calls :: "RpcCallParams list \<Rightarrow> channel \<Rightarrow> channel" where
  "async_calls ps ch = fold (\<lambda>params c. snd (AsyncRpcCall params c)) ps ch"

definition method_hash :: "RpcCallParams \<Rightarrow> u32" where
  "method_hash params = BKDRHash (c_str (method_client_name params))"

definition tids_of :: "channel \<Rightarrow> u32 \<Rightarrow> nat list" where
  "tids_of ch h = (case map_of (call_tids_map ch) h of None \<Rightarrow> [] | Some ts \<Rightarrow> ts)"

definition calls_of :: "RpcCallParams list \<Rightarrow> u32 \<Rightarrow> nat list" where
  "calls_of ps h = filter (\<lambda>t. method_hash (ps ! t) = h) [0..<length ps]"

lemma map_of_update_key:
  "map_of (map (\<lambda>(h, ts). if h = k then (h, f ts) else (h, ts)) m) =
     (map_of m)(k := map_option f (map_of m k))"
  by (induction m) auto

lemma calls_of_snoc: "calls_of (ps @ [p]) h = calls_of ps h @ (if method_hash p = h then [length ps] else [])"
  by (auto simp: calls_of_def nth_append intro!: filter_cong)

lemma AsyncRpcCall_tids:
  assumes "call_limit ch = 100" and "length (call_tids_map ch) < 100"
  shows "tids_of (snd (AsyncRpcCall params ch)) h =
      tids_of ch h @ (if method_hash params = h then [next_tid ch] else [])"
    and "next_tid (snd (AsyncRpcCall params ch)) = Suc (next_tid ch)"
    and "call_limit (snd (AsyncRpcCall params ch)) = 100"
    and "length (call_tids_map (snd (AsyncRpcCall params ch))) \<le> Suc (length (call_tids_map ch))"
    and "workers (snd (AsyncRpcCall params ch)) = (workers ch)(next_tid ch \<mapsto> Created params)"
    and "call_results_map (snd (AsyncRpcCall params ch)) = call_results_map ch"
  using assms
  by (auto simp: AsyncRpcCall_def Let_def tids_of_def method_hash_def map_of_update_key
      split: option.split)

lemma async_calls_state:
  assumes "call_tids_map ch = []" and "next_tid ch = 0" and "call_limit ch = 100" and "length ps \<le> 100"
  shows "tids_of (async_calls ps ch) h = calls_of ps h"
    and "call_results_map (async_calls ps ch) = call_results_map ch"
    and "\<forall>t < length ps. workers (async_calls ps ch) t = Some (Created (ps ! t))"
proof -
  have "(\<forall>h. tids_of (async_calls ps ch) h = calls_of ps h) \<and> next_tid (async_calls ps ch) = length ps \<and>
      call_limit (async_calls ps ch) = 100 \<and> length (call_tids_map (async_calls ps ch)) \<le> length ps \<and>
      call_results_map (async_calls ps ch) = call_results_map ch \<and>
      (\<forall>t < length ps. workers (async_calls ps ch) t = Some (Created (ps ! t)))"
    using assms(4)
  proof (induction ps rule: rev_induct)
    case Nil
    with assms show ?case by (simp add: async_calls_def tids_of_def calls_of_def)
  next
    case (snoc p ps)
    let ?c = "async_calls ps ch"
    have step: "async_calls (ps @ [p]) ch = snd (AsyncRpcCall p ?c)" by (simp add: async_calls_def)
    have IH: "\<And>h. tids_of ?c h = calls_of ps h" "next_tid ?c = length ps" "call_limit ?c = 100"
      "length (call_tids_map ?c) \<le> length ps" "call_results_map ?c = call_results_map ch"
      "\<And>t. t < length ps \<Longrightarrow> workers ?c t = Some (Created (ps ! t))"
      using snoc by auto
    then have "length (call_tids_map ?c) < 100" using snoc.prems by simp
    note new = AsyncRpcCall_tids [OF IH(3) this, where params = p]
    show ?case
      unfolding step new calls_of_snoc using IH new(4) by (auto simp: nth_append less_Suc_eq)
  qed
  then show "tids_of (async_calls ps ch) h = calls_of ps h"
    and "call_results_map (async_calls ps ch) = call_results_map ch"
    and "\<forall>t < length ps. workers (async_calls ps ch) t = Some (Created (ps ! t))" by blast+
qed

text \<open>The workers' steps in any order. What a worker reads is what the descriptor of that moment delivers
  to it.\<close>

datatype async_step = Sends nat | Receives nat

primrec async_run :: "(nat \<Rightarrow> 'r call_env) \<Rightarrow> async_step list \<Rightarrow> channel \<Rightarrow> fault + channel" where
  "async_run env [] ch = Inr ch"
| "async_run env (x # xs) ch =
     (case (case x of Sends t \<Rightarrow> worker_send (env t) t ch | Receives t \<Rightarrow> worker_receive (env t) t ch) of
        Inl f \<Rightarrow> Inl f
      | Inr ch \<Rightarrow> async_run env xs ch)"

definition worker_read :: "'r call_env \<Rightarrow> string \<Rightarrow> bool" where
  "worker_read env message \<longleftrightarrow>
     (case RpcRecv (call_receives env) [] True of
        Returned code m nc evs \<Rightarrow> code \<noteq> ERROR_RECV \<and> m = message
      | _ \<Rightarrow> False)"

lemma worker_send_keeps:
  "worker_send env t ch = Inr ch' \<Longrightarrow> call_tids_map ch' = call_tids_map ch \<and> call_results_map ch' = call_results_map ch"
  by (auto simp: worker_send_def Let_def split: option.splits worker.splits if_splits)

lemma worker_receive_keeps:
  assumes "worker_receive env t ch = Inr ch'"
  shows "call_tids_map ch' = call_tids_map ch"
    and "call_results_map ch' u = Some m \<Longrightarrow> call_results_map ch u \<noteq> Some m \<Longrightarrow> u = t \<and> worker_read env m"
  using assms
  by (auto simp: worker_receive_def worker_read_def Let_def split: option.splits worker.splits recv_outcome.splits if_splits)

lemma async_run_keeps:
  assumes "async_run env steps ch = Inr ch'" and "\<And>t m. call_results_map ch t = Some m \<Longrightarrow> worker_read (env t) m"
  shows "call_tids_map ch' = call_tids_map ch \<and> (\<forall>t m. call_results_map ch' t = Some m \<longrightarrow> worker_read (env t) m)"
  using assms
proof (induction steps arbitrary: ch)
  case (Cons x steps)
  obtain ch1 where one: "(case x of Sends t \<Rightarrow> worker_send (env t) t ch | Receives t \<Rightarrow> worker_receive (env t) t ch) = Inr ch1"
    and rest: "async_run env steps ch1 = Inr ch'"
    using Cons.prems(1) by (auto split: sum.splits)
  have "call_tids_map ch1 = call_tids_map ch \<and> (\<forall>t m. call_results_map ch1 t = Some m \<longrightarrow> worker_read (env t) m)"
  proof (cases x)
    case (Sends t)
    with one have "worker_send (env t) t ch = Inr ch1" by simp
    from worker_send_keeps [OF this] Cons.prems(2) show ?thesis by simp
  next
    case (Receives t)
    with one have "worker_receive (env t) t ch = Inr ch1" by simp
    from worker_receive_keeps [OF this] Cons.prems(2) show ?thesis by metis
  qed
  with Cons.IH [OF rest] show ?case by simp
qed simp

lemma GetAsyncResponse_first:
  assumes "tids_of ch (BKDRHash (c_str name)) = t # ts" and "workers ch t = Some Ended"
    and "call_results_map ch t = Some message"
  obtains ch' where "GetAsyncResponse parse name ch = Inr (Some (parse message), ch')"
    "tids_of ch' (BKDRHash (c_str name)) = ts" "workers ch' = workers ch"
    "call_results_map ch' = (call_results_map ch)(t := None)"
  using assms
  by (auto simp: GetAsyncResponse_def Let_def tids_of_def map_of_update_key split: option.splits)

lemma async_gets_all:
  assumes "tids_of ch (BKDRHash (c_str name)) = ts" and "distinct ts"
    and "\<And>t. t \<in> set ts \<Longrightarrow> workers ch t = Some Ended \<and> call_results_map ch t = Some (f t)"
  shows "\<exists>ch'. async_gets parse name (length ts) ch = Inr (map (\<lambda>t. Some (parse (f t))) ts, ch')"
  using assms
proof (induction ts arbitrary: ch)
  case (Cons t ts)
  obtain ch1 where one: "GetAsyncResponse parse name ch = Inr (Some (parse (f t)), ch1)"
    "tids_of ch1 (BKDRHash (c_str name)) = ts" "workers ch1 = workers ch"
    "call_results_map ch1 = (call_results_map ch)(t := None)"
    using Cons.prems(3) [of t] by (auto intro: GetAsyncResponse_first [OF Cons.prems(1), of "f t" parse])
  then have "\<exists>ch'. async_gets parse name (length ts) ch1 = Inr (map (\<lambda>t. Some (parse (f t))) ts, ch')"
    using Cons.prems by (intro Cons.IH) auto
  with one(1) show ?case by auto
qed simp

lemma worker_send_descriptor:
  assumes "workers ch t = Some (Created params)" and "worker_send env t ch = Inr ch'" and "request_str env = Some req"
  shows "sent_on ch' = sent_on ch @ [(t, connect_fd ch)] \<and> connect_fd ch' = connect_fd ch"
  using assms by (auto simp: worker_send_def Let_def split: if_splits)

subsection \<open>A concrete client\<close>

definition demo_params :: RpcCallParams where
  "demo_params = \<lparr>method_full_name = ''Echo.Run'', method_client_name = ''Run''\<rparr>"

definition demo_call :: "(nat \<Rightarrow> int) \<Rightarrow> recv_event list \<Rightarrow> string call_env" where
  "demo_call tcp_result evs =
     \<lparr>tcp = tcp_result, draw = demo_exchange 5, heartbeat = CenterClientHeartbeat_new, call_sends = (\<lambda>_. 516),
      call_receives = evs, request_str = Some ''q'', has_response = True, parse_response = Some\<rparr>"

definition demo_channel :: channel where
  "demo_channel = (Channel_single HbNull ''10.0.0.7'' ''9998'' 0)"

definition demo_client :: rpc_client where
  "demo_client = \<lparr>rpc_channel = Some demo_channel, rpc_controller = Some ClientRpcController_new,
     rpc_heartbeat = None, center_client_hb = None\<rparr>"

lemma demo_call_simps [simp]:
  "tcp (demo_call g evs) = g" "call_sends (demo_call g evs) = (\<lambda>_. 516)" "call_receives (demo_call g evs) = evs"
  "request_str (demo_call g evs) = Some ''q''" "has_response (demo_call g evs)" "parse_response (demo_call g evs) = Some"
  by (simp_all add: demo_call_def)

lemma demo_channel_simps [simp]:
  "center_client_heartbeat demo_channel = HbNull" "ch_addr demo_channel = Some ''10.0.0.7''"
  "ch_port demo_channel = Some ''9998''" "\<not> is_channel_async_call demo_channel" "call_tids_map demo_channel = []"
  "next_tid demo_channel = 0" "call_limit demo_channel = 100" "try_time demo_channel = 1"
  by (simp_all add: demo_channel_def Channel_single_def Channel_new_def)

subsection \<open>Properties\<close>

text \<open>C23: A synchronous call returns the answer, up to the bytes the framing loses. On a channel of a single
  server that gets connected, when the request and the answer have less than \<open>2 ^ 31\<close> bytes, the answer's
  length is no multiple of 511, and the blocks of both arrive (with any number of \<open>EAGAIN\<close>), the
  response is what \<open>delivered answer\<close> parses to - the answer itself if it has no zero byte - and the
  controller is as it was, whatever transfer id the server used. All this if the heartbeat
  pointer, which the constructor for a single server does not initialise, happens to be null; if not,
  the call goes through a wild pointer.\<close>

theorem CallMethod_returns_answer:
  assumes "center_client_heartbeat ch = HbNull" and "ch_addr ch = Some addr" and "ch_port ch = Some port"
    and "\<not> is_channel_async_call ch" and "tcp env 0 = fd" and "0 \<le> fd" and "has_response env"
    and "request_str env = Some req" and "length req < 2 ^ 31" and "call_sends env = (\<lambda>_. 516)"
    and "filter (\<lambda>e. e \<noteq> Again) (call_receives env) = map Got (sent (RpcSend (\<lambda>_. 516) call_id answer True))"
    and "0 \<le> call_id" and "call_id < 2 ^ 31" and "length answer mod 511 \<noteq> 0" and "length answer < 2 ^ 31"
    and "parse_response env (delivered answer) = Some r"
  shows "CallMethod env (Suc fuel) params ctl ch = Inr (ctl, Some r, ch\<lparr>connect_fd := fd\<rparr>) \<and>
    (delivered answer = answer \<longleftrightarrow> nul_free answer) \<and>
    CallMethod env (Suc fuel) params ctl (ch\<lparr>center_client_heartbeat := HbWild\<rparr>) = Inl UseAfterFree"
proof -
  let ?id = "if call_id = 0 then 1 else call_id"
  have sends: "ret (RpcSend (call_sends env) (sint (BKDRHash (c_str (method_full_name params)))) req False) \<ge> 0"
    unfolding assms(10) using BKDRHash_nonneg assms(9) by simp
  have "sent (RpcSend (\<lambda>_. 516) call_id answer True) = message_frames (- ?id) answer"
    using assms(12,15) by (simp add: RpcSend_ok)
  then have "outcome_of (RpcRecv (call_receives env) [] True) = Some (?id, delivered answer)"
    using recv_message [of answer ?id "[]" True] outcome_skip_again [of "call_receives env" "[]" True] assms(11-15)
    by (simp add: RpcRecv_def)
  then obtain nc evs where "RpcRecv (call_receives env) [] True = Returned ?id (delivered answer) nc evs"
    by (cases "RpcRecv (call_receives env) [] True") auto
  moreover have "?id \<noteq> ERROR_RECV" using assms(12) by simp
  ultimately have "CallMethod env (Suc fuel) params ctl ch = Inr (ctl, Some r, ch\<lparr>connect_fd := fd\<rparr>)"
    using CallMethod_sync [where message = "delivered answer" and code = ?id, OF assms(1-8) sends, of nc evs fuel ctl] assms(16)
    by simp
  moreover have "CallMethod env (Suc fuel) params ctl (ch\<lparr>center_client_heartbeat := HbWild\<rparr>) = Inl UseAfterFree"
    by (simp add: CallMethod_def)
  ultimately show ?thesis by (simp add: delivered_eq_iff)
qed

theorem CallMethod_returns_answer_witness:
  "CallMethod (demo_call (\<lambda>_. 5) (Again # map Got (sent (RpcSend (\<lambda>_. 516) 0 ''pong'' True)))) 1 demo_params None demo_channel =
   Inr (None, Some ''pong'', demo_channel\<lparr>connect_fd := 5\<rparr>)"
proof -
  have "delivered ''pong'' = ''pong''" by (simp add: delivered_id nul_free_def)
  then show ?thesis
    using CallMethod_returns_answer [of demo_channel "''10.0.0.7''" "''9998''"
        "demo_call (\<lambda>_. 5) (Again # map Got (sent (RpcSend (\<lambda>_. 516) 0 ''pong'' True)))" 5 "''q''" 0 "''pong''" "''pong''" 0 demo_params None]
    by simp
qed

text \<open>A connection closed by the server is taken for an answer. When the first \<open>recv\<close> finds the stream
  at its end, and the response type can be parsed from no bytes, the call succeeds with the response
  of the empty message and the controller knows of no error.\<close>

theorem close_taken_for_answer:
  assumes "center_client_heartbeat ch = HbNull" and "ch_addr ch = Some addr" and "ch_port ch = Some port"
    and "\<not> is_channel_async_call ch" and "tcp env 0 = fd" and "0 \<le> fd" and "has_response env"
    and "request_str env = Some req" and "length req < 2 ^ 31" and "call_sends env = (\<lambda>_. 516)"
    and "call_receives env = Got [] # evs" and "parse_response env [] = Some r"
  shows "CallMethod env (Suc fuel) params ctl ch = Inr (ctl, Some r, ch\<lparr>connect_fd := fd\<rparr>)"
proof -
  have sends: "ret (RpcSend (call_sends env) (sint (BKDRHash (c_str (method_full_name params)))) req False) \<ge> 0"
    unfolding assms(10) using BKDRHash_nonneg assms(9) by simp
  have "RpcRecv (call_receives env) [] True = Returned 0 [] True evs"
    using assms(11) by (simp add: RpcRecv_def)
  from CallMethod_sync [OF assms(1-8) sends this] assms(12) show ?thesis by simp
qed

theorem close_taken_for_answer_witness:
  "CallMethod (demo_call (\<lambda>_. 5) [Got []]) 1 demo_params (Some ClientRpcController_new) demo_channel =
   Inr (Some ClientRpcController_new, Some [], demo_channel\<lparr>connect_fd := 5\<rparr>)"
  using close_taken_for_answer [of demo_channel "''10.0.0.7''" "''9998''" "demo_call (\<lambda>_. 5) [Got []]" 5 "''q''" "[]" "[]" 0
      demo_params "Some ClientRpcController_new"] by simp

text \<open>The number of attempts is used the wrong way round. With two attempts or more a connection that
  times out is not tried again; with one or fewer it is tried until it does not time out: the first
  other result is returned, and without one the loop never ends. (\<open>TcpConnect\<close> as it stands reports
  a timeout as -1, see theory Sockets, which ends the loop like any other failure.)\<close>

theorem connect_retries_inverted:
  "(2 \<le> n \<longrightarrow> connect_tries tcp_result (Suc fuel) n 0 = Some (tcp_result 0, 1)) \<and>
   (n \<le> 1 \<and> tcp_result d \<noteq> TCP_CONN_TIMEOUT \<and> (\<forall>k < d. tcp_result k = TCP_CONN_TIMEOUT) \<longrightarrow>
      connect_tries tcp_result (d + Suc fuel) n 0 = Some (tcp_result d, Suc d)) \<and>
   (n \<le> 1 \<and> (\<forall>k. tcp_result k = TCP_CONN_TIMEOUT) \<longrightarrow> connect_tries tcp_result fuel n 0 = None)"
  using connect_tries_skip [of n 0 d tcp_result "Suc fuel"] connect_tries_hang [of n tcp_result fuel 0]
  by auto

theorem connect_retries_inverted_witness:
  "connect_tries (\<lambda>_. TCP_CONN_TIMEOUT) 1 3 0 = Some (TCP_CONN_TIMEOUT, 1) \<and>
   connect_tries (\<lambda>k. if k = 4 then 7 else TCP_CONN_TIMEOUT) 5 1 0 = Some (7, 5) \<and>
   connect_tries (\<lambda>_. TCP_CONN_TIMEOUT) 60 1 0 = None"
  using connect_retries_inverted [of 3 "\<lambda>_. TCP_CONN_TIMEOUT" 0 0]
    connect_retries_inverted [of 1 "\<lambda>k. if k = 4 then 7 else TCP_CONN_TIMEOUT" 0 4]
    connect_retries_inverted [of 1 "\<lambda>_. TCP_CONN_TIMEOUT" 60 0]
  by (simp del: connect_tries.simps)

text \<open>One failed call condemns a client. After a call has set the controller failed, \<open>IsCallOk\<close> is false after
  every later sequence of calls through the client that returns, also when each of them succeeds: no call
  resets the controller.\<close>

theorem one_failure_condemns_client:
  assumes "\<not> IsCallOk c" and "stub_calls xs c = Inr (rs, c')"
  shows "\<not> IsCallOk c'"
  using stub_calls_keep_failure [OF assms(2)] assms(1) by (simp add: IsCallOk_iff)

theorem one_failure_condemns_client_witness:
  "\<exists>c rs c'. stub_calls [(demo_call (\<lambda>_. -1) [], 1, demo_params)] demo_client = Inr ([None], c) \<and>
     stub_calls [(demo_call (\<lambda>_. 5) [Got []], 1, demo_params)] c = Inr ([Some []], c') \<and> \<not> IsCallOk c'"
proof -
  let ?c = "demo_client\<lparr>rpc_channel := Some (demo_channel\<lparr>connect_fd := - 1\<rparr>),
    rpc_controller := Some (SetFailed ''Rpc connect server failed!'' ClientRpcController_new)\<rparr>"
  have first: "stub_calls [(demo_call (\<lambda>_. -1) [], 1, demo_params)] demo_client = Inr ([None], ?c)"
    by (simp add: stub_call_def demo_client_def CallMethod_def set_failed_def)
  have "CallMethod (demo_call (\<lambda>_. 5) [Got []]) (Suc 0) demo_params (rpc_controller ?c) (demo_channel\<lparr>connect_fd := - 1\<rparr>) =
      Inr (rpc_controller ?c, Some [], demo_channel\<lparr>connect_fd := 5\<rparr>)"
    by (subst CallMethod_sync [where fd = 5 and req = "''q''" and code = 0 and message = "[]" and nc = True and evs = "[]"])
      (use BKDRHash_nonneg in \<open>simp_all add: RpcRecv_def\<close>)
  then obtain c' where second: "stub_calls [(demo_call (\<lambda>_. 5) [Got []], 1, demo_params)] ?c = Inr ([Some []], c')"
    by (simp add: stub_call_def)
  have "\<not> IsCallOk ?c" by (simp add: IsCallOk_def)
  from one_failure_condemns_client [OF this second] first second show ?thesis by blast
qed

text \<open>C24: Asynchronous answers come back in the order of the calls. Let a client make up to 100 calls of any
  methods on a new channel, let the sends and receives of their workers interleave in any order, and let all
  workers end with an answer. Then the answers \<open>GetAsyncResponse\<close> returns for a method name are, in order,
  what the worker of the first call of that method read, what that of the second read, and so on (calls
  of methods with equal hashes counting as one method). What a worker reads need not be the answer to
  its own request: all workers use the one descriptor \<open>connect_fd_\<close>.\<close>

theorem async_answers_in_call_order:
  assumes "length ps \<le> 100"
    and "async_run env steps (async_calls ps (Channel_single hb addr port fd)) = Inr ch"
    and "\<forall>t < length ps. workers ch t = Some Ended \<and> call_results_map ch t = Some (received t)"
  shows "(\<exists>ch'. async_gets parse name (length (calls_of ps (BKDRHash (c_str name)))) ch =
      Inr (map (\<lambda>t. Some (parse (received t))) (calls_of ps (BKDRHash (c_str name))), ch')) \<and>
    (\<forall>t < length ps. worker_read (env t) (received t))"
proof -
  let ?new = "Channel_single hb addr port fd"
  have new: "call_tids_map ?new = []" "next_tid ?new = 0" "call_limit ?new = 100" "call_results_map ?new = Map.empty"
    by (simp_all add: Channel_single_def Channel_new_def)
  note state = async_calls_state [OF new(1-3) assms(1)]
  have "call_tids_map ch = call_tids_map (async_calls ps ?new) \<and>
      (\<forall>t m. call_results_map ch t = Some m \<longrightarrow> worker_read (env t) m)"
    using async_run_keeps [OF assms(2)] by (simp add: state(2) new(4))
  moreover from this have "tids_of ch h = calls_of ps h" for h using state(1) by (simp add: tids_of_def)
  then have "\<exists>ch'. async_gets parse name (length (calls_of ps (BKDRHash (c_str name)))) ch =
      Inr (map (\<lambda>t. Some (parse (received t))) (calls_of ps (BKDRHash (c_str name))), ch')"
    by (rule async_gets_all) (use assms(3) in \<open>auto simp: calls_of_def\<close>)
  ultimately show ?thesis using assms(3) by blast
qed

text \<open>Three calls of two methods; the worker of the last call is the first to end.\<close>

definition demo_calls :: "RpcCallParams list" where
  "demo_calls = [demo_params, \<lparr>method_full_name = ''Echo.Stop'', method_client_name = ''Stop''\<rparr>, demo_params]"

definition demo_answers :: "nat \<Rightarrow> string call_env" where
  "demo_answers t = demo_call (\<lambda>_. 5) (map Got (message_frames (- 1) (''abc'' ! t # ''!'')))"

lemma demo_answers_simps [simp]:
  "has_response (demo_answers t)" "request_str (demo_answers t) = Some ''q''" "call_sends (demo_answers t) = (\<lambda>_. 516)"
  by (simp_all add: demo_answers_def)

lemma demo_answers_read:
  "t < 3 \<Longrightarrow> RpcRecv (call_receives (demo_answers t)) [] True = Returned 1 (''abc'' ! t # ''!'') True []"
proof -
  assume "t < 3"
  then have "t = 0 \<or> t = 1 \<or> t = 2" by auto
  then have "nul_free (''abc'' ! t # ''!'')" by (auto simp: nul_free_def)
  then show ?thesis
    using recv_message [of "''abc'' ! t # ''!''" 1 "[]" True] by (simp add: RpcRecv_def demo_answers_def delivered_id)
qed

theorem async_answers_in_call_order_witness:
  "\<exists>ch ch'. async_run demo_answers [Sends 2, Sends 0, Receives 2, Sends 1, Receives 0, Receives 1]
        (async_calls demo_calls (Channel_single HbNull ''a'' ''b'' 0)) = Inr ch \<and>
     async_gets Some ''Run'' 2 ch = Inr ([Some (Some ''a!''), Some (Some ''c!'')], ch')"
proof -
  let ?ch = "async_calls demo_calls (Channel_single HbNull ''a'' ''b'' 0)"
  have w: "workers ?ch 0 = Some (Created (demo_calls ! 0))" "workers ?ch 1 = Some (Created (demo_calls ! 1))"
    "workers ?ch 2 = Some (Created (demo_calls ! 2))"
    using async_calls_state(3) [of "Channel_single HbNull ''a'' ''b'' 0" demo_calls]
    by (simp_all add: Channel_single_def Channel_new_def demo_calls_def)
  have hashes: "calls_of demo_calls (BKDRHash (c_str ''Run'')) = [0, 2]" by code_simp
  obtain ch where run: "async_run demo_answers [Sends 2, Sends 0, Receives 2, Sends 1, Receives 0, Receives 1] ?ch = Inr ch"
    and "workers ch 0 = Some Ended" "workers ch 1 = Some Ended" "workers ch 2 = Some Ended"
    and "call_results_map ch 0 = Some ''a!''" "call_results_map ch 1 = Some ''b!''" "call_results_map ch 2 = Some ''c!''"
    using w BKDRHash_nonneg by (simp add: worker_send_def worker_receive_def Let_def demo_answers_read)
  then have "\<forall>t < length demo_calls. workers ch t = Some Ended \<and> call_results_map ch t = Some (''abc'' ! t # ''!'')"
    by (simp add: demo_calls_def All_less_Suc numeral_3_eq_3 numeral_2_eq_2)
  from async_answers_in_call_order [OF _ run this, of Some "''Run''"] run hashes show ?thesis
    by (auto simp: demo_calls_def numeral_2_eq_2)
qed

text \<open>Asynchronous requests share the descriptor of the last call. When a second call connects before the
  worker of the first has sent, the first request goes out on the second call's descriptor.\<close>

theorem async_requests_on_last_descriptor:
  assumes "center_client_heartbeat ch = HbNull" and "ch_addr ch = Some addr" and "ch_port ch = Some port"
    and "is_channel_async_call ch" and "call_tids_map ch = []" and "1 < call_limit ch"
    and "tcp env 0 = fd" and "0 \<le> fd" and "tcp env' 0 = fd'" and "0 \<le> fd'"
    and "method_client_name params = method_client_name params'"
    and "has_response env" and "request_str env = Some req"
  shows "\<exists>ch1 ch2 ch3. CallMethod env (Suc fuel) params ctl ch = Inr (ctl, None, ch1) \<and>
    CallMethod env' (Suc fuel) params' ctl ch1 = Inr (ctl, None, ch2) \<and>
    worker_send env (next_tid ch) ch2 = Inr ch3 \<and> sent_on ch3 = sent_on ch @ [(next_tid ch, fd')]"
proof -
  have tcp: "tcp env 0 \<noteq> TCP_CONN_TIMEOUT" "tcp env' 0 \<noteq> TCP_CONN_TIMEOUT" using assms(7-10) by simp_all
  have "\<exists>ch3. worker_send env (next_tid ch) ch2 = Inr ch3" if "workers ch2 (next_tid ch) = Some (Created params)" for ch2
    using that assms(12,13) by (auto simp: worker_send_def Let_def)
  then show ?thesis
    using assms tcp
    by (auto simp: CallMethod_def Let_def AsyncRpcCall_def worker_send_def)
qed

theorem async_requests_on_last_descriptor_witness:
  "\<exists>ch1 ch2 ch3. CallMethod (demo_call (\<lambda>_. 5) []) 1 demo_params None (OpenRpcAsyncMode demo_channel) = Inr (None, None, ch1) \<and>
    CallMethod (demo_call (\<lambda>_. 6) []) 1 demo_params None ch1 = Inr (None, None, ch2) \<and>
    worker_send (demo_call (\<lambda>_. 5) []) 0 ch2 = Inr ch3 \<and>
    sent_on ch3 = sent_on (OpenRpcAsyncMode demo_channel) @ [(0, 6)]"
  using async_requests_on_last_descriptor [of "OpenRpcAsyncMode demo_channel" "''10.0.0.7''" "''9998''"
      "demo_call (\<lambda>_. 5) []" 5 "demo_call (\<lambda>_. 6) []" 6 demo_params demo_params "''q''" 0 None]
  by (simp add: OpenRpcAsyncMode_def)

end
