(* ===== verification/ProtobufCorrect.thy ===== *)
theory ProtobufCorrect
  imports Protobuf
begin

section \<open>Parsing inverts serialising\<close>

text \<open>
  The locale \<open>wire_format\<close> states what the documentation of the protocol buffer encoding says of
  the library's functions. In it: the generated \<open>ByteSize\<close> is the length of the serialised
  message, the generated parsers invert the serialisers and always end, and a field has a zero
  byte exactly when its value is zero, is empty or has a zero byte. The encoding itself is an
  interpretation, in the theory Base128.
\<close>

subsection \<open>The documented encoding\<close>

text \<open>The library refuses messages of 64 MiB and more.\<close>

definition TotalBytesLimit :: nat where
  "TotalBytesLimit = 67108864"

text \<open>
  What a pair of a writer and a reader promises for field numbers whose tag is one byte: the
  value \<open>v\<close> is written as the tag and a body of the stated size, and read back from the body with
  whatever follows. A reader fails on an empty stream and consumes at least one byte.
\<close>

definition field_codec ::
  "nat \<Rightarrow> ('v \<Rightarrow> bool) \<Rightarrow> (nat \<Rightarrow> 'v \<Rightarrow> string) \<Rightarrow> ('v \<Rightarrow> nat) \<Rightarrow> (string \<Rightarrow> ('v \<times> string) option) \<Rightarrow> bool" where
  "field_codec wiretype ok w sz rd \<longleftrightarrow>
     (\<forall>f v. 0 < f \<longrightarrow> f < 16 \<longrightarrow> ok v \<longrightarrow>
        (\<exists>body. w f v = char_of (8 * f + wiretype) # body \<and> length body = sz v \<and>
           (\<forall>rest. length (body @ rest) < TotalBytesLimit \<longrightarrow> rd (body @ rest) = Some (v, rest)))) \<and>
     rd [] = None \<and> (\<forall>s v rest. rd s = Some (v, rest) \<longrightarrow> length rest < length s)"

definition int32 :: "int \<Rightarrow> bool" where
  "int32 v \<longleftrightarrow> - (2 ^ 31) \<le> v \<and> v < 2 ^ 31"

locale wire_format =
  fixes lib :: wire_lib
  assumes tag_byte: "0 < t \<Longrightarrow> t < 128 \<Longrightarrow> ReadTag lib (char_of t # s) = (t, True, False, s)"
    and tag_end: "ReadTag lib [] = (0, False, True, [])"
    and tag_consumes: "ReadTag lib s = (t, ok, legitimate, rest) \<Longrightarrow> t \<noteq> 0 \<Longrightarrow> length rest < length s"
    and tag_ok: "ReadTag lib s = (t, True, legitimate, rest) \<Longrightarrow> t \<noteq> 0"
    and skip_consumes: "SkipField lib t s = Some (kept, rest) \<Longrightarrow> length rest \<le> length s"
    and enum_codec: "field_codec 0 int32 (WriteEnum lib) (EnumSize lib) (ReadEnum lib)"
    and uint32_codec: "field_codec 0 (\<lambda>_. True) (WriteUInt32 lib) (UInt32Size lib) (ReadUInt32 lib)"
    and uint64_codec: "field_codec 0 (\<lambda>_. True) (WriteUInt64 lib) (UInt64Size lib) (ReadUInt64 lib)"
    and int32_codec: "field_codec 0 int32 (WriteInt32 lib) (Int32Size lib) (ReadInt32 lib)"
    and float_codec: "field_codec 5 (\<lambda>_. True) (WriteFloat lib) (\<lambda>_. 4) (ReadFloat lib)"
    and string_codec: "field_codec 2 (\<lambda>_. True) (WriteString lib) (StringSize lib) (ReadString lib)"
    and message_codec:
      "field_codec 2 (\<lambda>_. True) (WriteMessage lib) (\<lambda>s. DelimitedSize lib (length s)) (ReadDelimited lib)"
    and delimited_size: "n < DelimitedSize lib n"
    and enum_zero: "0 < f \<Longrightarrow> f < 16 \<Longrightarrow> WriteEnum lib f 0 = [char_of (8 * f), NUL]"
    and enum_nul: "0 < f \<Longrightarrow> f < 16 \<Longrightarrow> int32 v \<Longrightarrow> nul_free (WriteEnum lib f v) \<longleftrightarrow> v \<noteq> 0"
    and uint32_nul: "0 < f \<Longrightarrow> f < 16 \<Longrightarrow> nul_free (WriteUInt32 lib f u) \<longleftrightarrow> u \<noteq> 0"
    and uint64_nul: "0 < f \<Longrightarrow> f < 16 \<Longrightarrow> nul_free (WriteUInt64 lib f x) \<longleftrightarrow> x \<noteq> 0"
    and string_nul: "0 < f \<Longrightarrow> f < 16 \<Longrightarrow> nul_free (WriteString lib f s) \<longleftrightarrow> s \<noteq> [] \<and> nul_free s"
    and message_nul: "0 < f \<Longrightarrow> f < 16 \<Longrightarrow> nul_free (WriteMessage lib f s) \<longleftrightarrow> s \<noteq> [] \<and> nul_free s"

subsection \<open>Fields\<close>

lemma field_codec_write:
  assumes "field_codec wt ok w sz rd" "0 < f" "f < 16" "ok v"
  shows "length (w f v) = 1 + sz v"
proof -
  from assms obtain body where "w f v = char_of (8 * f + wt) # body" "length body = sz v"
    unfolding field_codec_def by blast
  then show ?thesis by simp
qed

lemma field_codec_empty: "field_codec wt ok w sz rd \<Longrightarrow> rd [] = None"
  by (simp add: field_codec_def)

lemma field_codec_consumes: "field_codec wt ok w sz rd \<Longrightarrow> rd s = Some (v, rest) \<Longrightarrow> length rest < length s"
  by (simp add: field_codec_def)

lemma int32_codes [simp]:
  "int32 (ClusteAction_code a1)" "int32 (ResponseClusterAction_code a2)"
  "int32 (ClientClusterAction_code a3)" "int32 (CenterStatus_code a4)" "int32 (CenterAction_code a5)"
  by ((cases a1; simp add: int32_def), (cases a2; simp add: int32_def), (cases a3; simp add: int32_def),
      (cases a4; simp add: int32_def), (cases a5; simp add: int32_def))

text \<open>An assignment of an optional field, and of a repeated one.\<close>

definition assign_opt :: "('v \<Rightarrow> 'm \<Rightarrow> 'm) \<Rightarrow> 'v option \<Rightarrow> 'm \<Rightarrow> 'm" where
  "assign_opt assign v m = (case v of None \<Rightarrow> m | Some v \<Rightarrow> assign v m)"

lemma opt_field_simps [simp]: "opt_field w None = []" "opt_field w (Some v) = w v"
  by (simp_all add: opt_field_def)

lemma assign_opt_simps [simp]: "assign_opt a None = (\<lambda>m. m)" "assign_opt a (Some v) = a v"
  by (simp_all add: assign_opt_def fun_eq_iff)

lemma opt_size_simps [simp]: "opt_size sz None = 0" "opt_size sz (Some v) = 1 + sz v"
  by (simp_all add: opt_size_def)

lemma rep_field_simps [simp]: "rep_field w [] = []" "rep_field w (v # vs) = w v @ rep_field w vs"
  by (simp_all add: rep_field_def)

lemma length_opt_field: "(\<And>x. v = Some x \<Longrightarrow> length (w x) = 1 + sz x) \<Longrightarrow> length (opt_field w v) = opt_size sz v"
  by (cases v) auto

lemma length_rep_field:
  "(\<And>x. x \<in> set vs \<Longrightarrow> length (w x) = 1 + sz x) \<Longrightarrow> length (rep_field w vs) = rep_size sz vs"
  by (induction vs) (auto simp: rep_size_def)

lemma nul_free_opt_field: "nul_free (opt_field w v) \<longleftrightarrow> (\<forall>x. v = Some x \<longrightarrow> nul_free (w x))"
  by (cases v) auto

lemma nul_free_rep_field: "nul_free (rep_field w vs) \<longleftrightarrow> (\<forall>x\<in>set vs. nul_free (w x))"
  by (induction vs) auto

text \<open>
  A piece of the stream that the parse loop consumes with a given effect on the message, whatever
  follows the piece; and a case of a generated \<open>switch\<close> that reads one value.
\<close>

definition consumes ::
  "wire_lib \<Rightarrow> (nat \<Rightarrow> string \<Rightarrow> 'm \<Rightarrow> 'm step option) \<Rightarrow> string \<Rightarrow> ('m \<Rightarrow> 'm) \<Rightarrow> bool" where
  "consumes lib field s upd \<longleftrightarrow>
     (\<forall>unknown rest m. length (s @ rest) < TotalBytesLimit \<longrightarrow>
        merge_loop lib field unknown (s @ rest) m = merge_loop lib field unknown rest (upd m))"

definition handled ::
  "(nat \<Rightarrow> string \<Rightarrow> 'm \<Rightarrow> 'm step option) \<Rightarrow> nat \<Rightarrow> (string \<Rightarrow> ('v \<times> string) option) \<Rightarrow> ('v \<Rightarrow> 'm \<Rightarrow> 'm) \<Rightarrow> bool" where
  "handled field tag rd assign \<longleftrightarrow> (\<forall>body m. field tag body m = Some (read_into rd assign body m))"

lemma consumes_Nil: "consumes lib field [] (\<lambda>m. m)"
  by (simp add: consumes_def)

lemma consumes_append:
  assumes "consumes lib field s u" "consumes lib field t v"
  shows "consumes lib field (s @ t) (\<lambda>m. v (u m))"
  unfolding consumes_def
proof (intro allI impI)
  fix unknown rest m assume len: "length ((s @ t) @ rest) < TotalBytesLimit"
  then have "length (s @ t @ rest) < TotalBytesLimit" "length (t @ rest) < TotalBytesLimit" by simp_all
  with assms have "merge_loop lib field unknown (s @ t @ rest) m = merge_loop lib field unknown (t @ rest) (u m)"
    "merge_loop lib field unknown (t @ rest) (u m) = merge_loop lib field unknown rest (v (u m))"
    unfolding consumes_def by blast+
  then show "merge_loop lib field unknown ((s @ t) @ rest) m = merge_loop lib field unknown rest (v (u m))"
    by simp
qed

context wire_format
begin

lemma merge_end: "merge_loop lib field unknown [] m = Some (Parsed m True)"
  by (subst merge_loop.simps) (simp add: tag_end)

lemma consumes_parse:
  assumes "consumes lib field s upd" "length s < TotalBytesLimit"
  shows "parse_string lib field unknown cleared s = Some (Some (upd cleared))"
proof -
  have "merge_loop lib field unknown (s @ []) cleared = merge_loop lib field unknown [] (upd cleared)"
    using assms(1) [unfolded consumes_def, rule_format, of "[]" unknown cleared] assms(2) by simp
  then show ?thesis by (simp add: parse_string_def merge_end)
qed

text \<open>One written field, whatever follows it.\<close>

lemma consumes_field:
  assumes codec: "field_codec wt ok w sz rd" and field: "handled field (8 * f + wt) rd assign"
    and f: "0 < f" "f < 16" "wt < 8" and v: "ok v"
  shows "consumes lib field (w f v) (assign v)"
  unfolding consumes_def
proof (intro allI impI)
  fix unknown rest m assume len: "length (w f v @ rest) < TotalBytesLimit"
  obtain body where body: "w f v = char_of (8 * f + wt) # body"
    and rd: "length (body @ rest) < TotalBytesLimit \<Longrightarrow> rd (body @ rest) = Some (v, rest)"
    using codec f v unfolding field_codec_def by blast
  have "rd (body @ rest) = Some (v, rest)" using rd len body by simp
  then show "merge_loop lib field unknown (w f v @ rest) m = merge_loop lib field unknown rest (assign v m)"
    using f field by (subst merge_loop.simps) (simp add: body tag_byte handled_def read_into_def)
qed

lemma consumes_opt:
  assumes "field_codec wt ok w sz rd" "handled field (8 * f + wt) rd assign"
    and "0 < f" "f < 16" "wt < 8" "\<forall>x. v = Some x \<longrightarrow> ok x"
  shows "consumes lib field (opt_field (w f) v) (assign_opt assign v)"
proof (cases v)
  case None
  then show ?thesis by (simp add: consumes_Nil)
next
  case (Some x)
  with assms consumes_field [of wt ok w sz rd field f assign x] show ?thesis by simp
qed

lemma consumes_enum:
  assumes "handled field (8 * f + 0) (ReadEnum lib) (assign_enum of_code assign invalid)"
    and "0 < f" "f < 16" "\<forall>x. int32 (code x) \<and> of_code (code x) = Some x"
  shows "consumes lib field (opt_field (\<lambda>x. WriteEnum lib f (code x)) v) (assign_opt assign v)"
proof (cases v)
  case None
  then show ?thesis by (simp add: consumes_Nil)
next
  case (Some x)
  with assms consumes_field [OF enum_codec assms(1), of "code x"] show ?thesis
    by (simp add: assign_enum_def [abs_def])
qed

lemma consumes_rep:
  assumes "field_codec wt ok w sz rd" "handled field (8 * f + wt) rd assign"
    and "0 < f" "f < 16" "wt < 8" "\<forall>x\<in>set vs. ok x"
  shows "consumes lib field (rep_field (w f) vs) (fold assign vs)"
  using assms(6)
proof (induction vs)
  case Nil
  then show ?case by (simp add: consumes_Nil id_def)
next
  case (Cons v vs)
  with consumes_append [OF consumes_field [OF assms(1-5), of v], of "rep_field (w f) vs" "fold assign vs"]
  show ?case by (simp add: comp_def)
qed

text \<open>Embedded messages.\<close>

lemma length_WriteMessage: "0 < f \<Longrightarrow> f < 16 \<Longrightarrow> length (WriteMessage lib f s) = 1 + DelimitedSize lib (length s)"
  using field_codec_write [OF message_codec] by simp

lemma consumes_messages:
  assumes f: "0 < f" "f < 16"
    and field: "\<forall>body m. field (8 * f + 2) body m = read_message lib parse add body m"
    and sub: "\<forall>x\<in>set vs. parse (serial x) = Some (Some x)"
  shows "consumes lib field (rep_field (\<lambda>x. WriteMessage lib f (serial x)) vs) (fold add vs)"
  using sub
proof (induction vs)
  case Nil
  then show ?case by (simp add: consumes_Nil id_def)
next
  case (Cons v vs)
  have "consumes lib field (WriteMessage lib f (serial v)) (add v)"
    unfolding consumes_def
  proof (intro allI impI)
    fix unknown rest m assume len: "length (WriteMessage lib f (serial v) @ rest) < TotalBytesLimit"
    obtain body where body: "WriteMessage lib f (serial v) = char_of (8 * f + 2) # body"
      and rd: "length (body @ rest) < TotalBytesLimit \<Longrightarrow> ReadDelimited lib (body @ rest) = Some (serial v, rest)"
      using message_codec f unfolding field_codec_def by blast
    have "ReadDelimited lib (body @ rest) = Some (serial v, rest)" using rd len body by simp
    then show "merge_loop lib field unknown (WriteMessage lib f (serial v) @ rest) m =
        merge_loop lib field unknown rest (add v m)"
      using f Cons.prems
      by (subst merge_loop.simps)
        (simp add: body tag_byte field [rule_format] read_message_def del: add_2_eq_Suc')
  qed
  with Cons consumes_append [of lib field "WriteMessage lib f (serial v)" "add v"] show ?case
    by (simp add: comp_def)
qed

end

subsection \<open>The messages\<close>

text \<open>A message without unknown fields, its int32 in range.\<close>

definition RpcClusterServer_plain :: "RpcClusterServer_pb \<Rightarrow> bool" where
  "RpcClusterServer_plain m \<longleftrightarrow> rcs_unknown m = [] \<and> (\<forall>v. rcs_connection_num m = Some v \<longrightarrow> int32 v)"

definition CentersProto_plain :: "CentersProto_pb \<Rightarrow> bool" where
  "CentersProto_plain m \<longleftrightarrow>
     pb_unknown m = [] \<and> (\<forall>s\<in>set (pb_server_infos_list m). RpcClusterServer_plain s) \<and>
     (\<forall>s\<in>set (pb_lb_result m). lbm_unknown s = [])"

lemma fold_rcs [simp]:
  "fold (\<lambda>s m. m\<lparr>pb_server_infos_list := pb_server_infos_list m @ [s]\<rparr>) vs m =
    m\<lparr>pb_server_infos_list := pb_server_infos_list m @ vs\<rparr>"
  by (induction vs arbitrary: m) simp_all

lemma fold_lbm [simp]:
  "fold (\<lambda>s m. m\<lparr>pb_lb_result := pb_lb_result m @ [s]\<rparr>) vs m = m\<lparr>pb_lb_result := pb_lb_result m @ vs\<rparr>"
  by (induction vs arbitrary: m) simp_all

lemma fold_crc [simp]:
  "fold (\<lambda>s m. m\<lparr>crc_should_reporter_center := crc_should_reporter_center m @ [s]\<rparr>) vs m =
    m\<lparr>crc_should_reporter_center := crc_should_reporter_center m @ vs\<rparr>"
  by (induction vs arbitrary: m) simp_all

lemma fold_cwc [simp]:
  "fold (\<lambda>s m. m\<lparr>cwc_should_communicate_center := cwc_should_communicate_center m @ [s]\<rparr>) vs m =
    m\<lparr>cwc_should_communicate_center := cwc_should_communicate_center m @ vs\<rparr>"
  "fold (\<lambda>s m. m\<lparr>cwc_cluster_server_list := cwc_cluster_server_list m @ [s]\<rparr>) vs m =
    m\<lparr>cwc_cluster_server_list := cwc_cluster_server_list m @ vs\<rparr>"
  by (induction vs arbitrary: m) simp_all

lemma RpcClusterServer_handled:
  "handled (RpcClusterServer_field lib) (8 * 1 + 0) (ReadEnum lib) (assign_enum ClusteAction_of_code
      (\<lambda>e m. m\<lparr>rcs_cluster_action := Some e\<rparr>)
      (\<lambda>v m. m\<lparr>rcs_unknown := rcs_unknown m @ UnknownVarint lib 1 v\<rparr>))"
  "handled (RpcClusterServer_field lib) (8 * 2 + 2) (ReadString lib) (\<lambda>v m. m\<lparr>rcs_cluster_server_addr := Some v\<rparr>)"
  "handled (RpcClusterServer_field lib) (8 * 3 + 0) (ReadUInt32 lib) (\<lambda>v m. m\<lparr>rcs_load := Some v\<rparr>)"
  "handled (RpcClusterServer_field lib) (8 * 4 + 5) (ReadFloat lib) (\<lambda>v m. m\<lparr>rcs_cpu_used := Some v\<rparr>)"
  "handled (RpcClusterServer_field lib) (8 * 5 + 0) (ReadInt32 lib) (\<lambda>v m. m\<lparr>rcs_connection_num := Some v\<rparr>)"
  by (simp_all add: handled_def RpcClusterServer_field_def)

lemma CenterResponseCluster_handled:
  "handled (CenterResponseCluster_field lib) (8 * 1 + 0) (ReadEnum lib) (assign_enum ResponseClusterAction_of_code
      (\<lambda>e m. m\<lparr>crc_center_response_action := Some e\<rparr>)
      (\<lambda>v m. m\<lparr>crc_unknown := crc_unknown m @ UnknownVarint lib 1 v\<rparr>))"
  "handled (CenterResponseCluster_field lib) (8 * 2 + 2) (ReadString lib)
      (\<lambda>v m. m\<lparr>crc_should_reporter_center := crc_should_reporter_center m @ [v]\<rparr>)"
  by (simp_all add: handled_def CenterResponseCluster_field_def)

lemma ClientWithCenter_handled:
  "handled (ClientWithCenter_field lib) (8 * 1 + 2) (ReadString lib) (\<lambda>v m. m\<lparr>cwc_from_addr := Some v\<rparr>)"
  "handled (ClientWithCenter_field lib) (8 * 2 + 0) (ReadEnum lib) (assign_enum ClientClusterAction_of_code
      (\<lambda>e m. m\<lparr>cwc_client_center_action := Some e\<rparr>)
      (\<lambda>v m. m\<lparr>cwc_unknown := cwc_unknown m @ UnknownVarint lib 2 v\<rparr>))"
  "handled (ClientWithCenter_field lib) (8 * 3 + 2) (ReadString lib)
      (\<lambda>v m. m\<lparr>cwc_should_communicate_center := cwc_should_communicate_center m @ [v]\<rparr>)"
  "handled (ClientWithCenter_field lib) (8 * 4 + 2) (ReadString lib)
      (\<lambda>v m. m\<lparr>cwc_cluster_server_list := cwc_cluster_server_list m @ [v]\<rparr>)"
  by (simp_all add: handled_def ClientWithCenter_field_def)

lemma LoadBalancerMetaData_handled:
  "handled (LoadBalancerMetaData_field lib) (8 * 1 + 0) (ReadUInt32 lib) (\<lambda>v m. m\<lparr>lbm_vid := Some v\<rparr>)"
  "handled (LoadBalancerMetaData_field lib) (8 * 2 + 2) (ReadString lib) (\<lambda>v m. m\<lparr>lbm_server_addr := Some v\<rparr>)"
  by (simp_all add: handled_def LoadBalancerMetaData_field_def)

lemma CentersProto_handled:
  "handled (CentersProto_field lib) (8 * 1 + 2) (ReadString lib) (\<lambda>v m. m\<lparr>pb_from_center_addr := Some v\<rparr>)"
  "handled (CentersProto_field lib) (8 * 2 + 0) (ReadEnum lib) (assign_enum CenterStatus_of_code
      (\<lambda>e m. m\<lparr>pb_center_status := Some e\<rparr>)
      (\<lambda>v m. m\<lparr>pb_unknown := pb_unknown m @ UnknownVarint lib 2 v\<rparr>))"
  "handled (CentersProto_field lib) (8 * 3 + 0) (ReadEnum lib) (assign_enum CenterAction_of_code
      (\<lambda>e m. m\<lparr>pb_center_action := Some e\<rparr>)
      (\<lambda>v m. m\<lparr>pb_unknown := pb_unknown m @ UnknownVarint lib 3 v\<rparr>))"
  "handled (CentersProto_field lib) (8 * 4 + 0) (ReadUInt64 lib) (\<lambda>v m. m\<lparr>pb_start_time := Some v\<rparr>)"
  "handled (CentersProto_field lib) (8 * 5 + 0) (ReadUInt64 lib) (\<lambda>v m. m\<lparr>pb_lc_start_time := Some v\<rparr>)"
  "handled (CentersProto_field lib) (8 * 6 + 0) (ReadUInt64 lib) (\<lambda>v m. m\<lparr>pb_logical_clock := Some v\<rparr>)"
  "handled (CentersProto_field lib) (8 * 7 + 2) (ReadString lib) (\<lambda>v m. m\<lparr>pb_leader_center := Some v\<rparr>)"
  by (simp_all add: handled_def CentersProto_field_def)

context wire_format
begin

text \<open>
  Parsing a serialised message is merging it, into whatever message the loop has reached: this is how
  the generated parser and the generated \<open>MergeFrom\<close> agree.
\<close>

lemma RpcClusterServer_consumes:
  assumes "RpcClusterServer_plain m"
  shows "consumes lib (RpcClusterServer_field lib) (RpcClusterServer_Serialize lib m) (RpcClusterServer_MergeFrom m)"
proof -
  have upd: "(\<lambda>m0. assign_opt (\<lambda>v m. m\<lparr>rcs_connection_num := Some v\<rparr>) (rcs_connection_num m)
        (assign_opt (\<lambda>v m. m\<lparr>rcs_cpu_used := Some v\<rparr>) (rcs_cpu_used m)
        (assign_opt (\<lambda>v m. m\<lparr>rcs_load := Some v\<rparr>) (rcs_load m)
        (assign_opt (\<lambda>v m. m\<lparr>rcs_cluster_server_addr := Some v\<rparr>) (rcs_cluster_server_addr m)
        (assign_opt (\<lambda>v m. m\<lparr>rcs_cluster_action := Some v\<rparr>) (rcs_cluster_action m) m0))))) =
      RpcClusterServer_MergeFrom m"
    using assms
    by (simp add: fun_eq_iff RpcClusterServer_MergeFrom_def RpcClusterServer_plain_def assign_opt_def merge_opt_def
        split: option.splits)
  note consumes_append [OF consumes_enum [OF RpcClusterServer_handled(1), of ClusteAction_code "rcs_cluster_action m"]
    consumes_append [OF consumes_opt [OF string_codec RpcClusterServer_handled(2), of "rcs_cluster_server_addr m"]
    consumes_append [OF consumes_opt [OF uint32_codec RpcClusterServer_handled(3), of "rcs_load m"]
    consumes_append [OF consumes_opt [OF float_codec RpcClusterServer_handled(4), of "rcs_cpu_used m"]
      consumes_opt [OF int32_codec RpcClusterServer_handled(5), of "rcs_connection_num m"]]]], unfolded upd]
  then show ?thesis using assms by (simp add: RpcClusterServer_Serialize_def RpcClusterServer_plain_def)
qed

lemma LoadBalancerMetaData_consumes:
  assumes "lbm_unknown m = []"
  shows "consumes lib (LoadBalancerMetaData_field lib) (LoadBalancerMetaData_Serialize lib m)
    (LoadBalancerMetaData_MergeFrom m)"
proof -
  have upd: "(\<lambda>m0. assign_opt (\<lambda>v m. m\<lparr>lbm_server_addr := Some v\<rparr>) (lbm_server_addr m)
        (assign_opt (\<lambda>v m. m\<lparr>lbm_vid := Some v\<rparr>) (lbm_vid m) m0)) = LoadBalancerMetaData_MergeFrom m"
    using assms
    by (simp add: fun_eq_iff LoadBalancerMetaData_MergeFrom_def assign_opt_def merge_opt_def split: option.splits)
  note consumes_append [OF consumes_opt [OF uint32_codec LoadBalancerMetaData_handled(1), of "lbm_vid m"]
    consumes_opt [OF string_codec LoadBalancerMetaData_handled(2), of "lbm_server_addr m"], unfolded upd]
  then show ?thesis using assms by (simp add: LoadBalancerMetaData_Serialize_def)
qed

lemma CenterResponseCluster_consumes:
  assumes "crc_unknown m = []"
  shows "consumes lib (CenterResponseCluster_field lib) (CenterResponseCluster_Serialize lib m)
    (CenterResponseCluster_MergeFrom m)"
proof -
  have upd: "(\<lambda>m0. fold (\<lambda>s m. m\<lparr>crc_should_reporter_center := crc_should_reporter_center m @ [s]\<rparr>)
        (crc_should_reporter_center m)
        (assign_opt (\<lambda>v m. m\<lparr>crc_center_response_action := Some v\<rparr>) (crc_center_response_action m) m0)) =
      CenterResponseCluster_MergeFrom m"
    using assms
    by (simp add: fun_eq_iff CenterResponseCluster_MergeFrom_def assign_opt_def merge_opt_def split: option.splits)
  note consumes_append [OF consumes_enum [OF CenterResponseCluster_handled(1), of ResponseClusterAction_code "crc_center_response_action m"]
    consumes_rep [OF string_codec CenterResponseCluster_handled(2), of "crc_should_reporter_center m"], unfolded upd]
  then show ?thesis using assms by (simp add: CenterResponseCluster_Serialize_def)
qed

lemma ClientWithCenter_consumes:
  assumes "cwc_unknown m = []"
  shows "consumes lib (ClientWithCenter_field lib) (ClientWithCenter_Serialize lib m) (ClientWithCenter_MergeFrom m)"
proof -
  have upd: "(\<lambda>m0. fold (\<lambda>s m. m\<lparr>cwc_cluster_server_list := cwc_cluster_server_list m @ [s]\<rparr>)
        (cwc_cluster_server_list m)
      (fold (\<lambda>s m. m\<lparr>cwc_should_communicate_center := cwc_should_communicate_center m @ [s]\<rparr>)
        (cwc_should_communicate_center m)
      (assign_opt (\<lambda>v m. m\<lparr>cwc_client_center_action := Some v\<rparr>) (cwc_client_center_action m)
        (assign_opt (\<lambda>v m. m\<lparr>cwc_from_addr := Some v\<rparr>) (cwc_from_addr m) m0)))) =
      ClientWithCenter_MergeFrom m"
    using assms
    by (simp add: fun_eq_iff ClientWithCenter_MergeFrom_def assign_opt_def merge_opt_def split: option.splits)
  note consumes_append [OF consumes_opt [OF string_codec ClientWithCenter_handled(1), of "cwc_from_addr m"]
    consumes_append [OF consumes_enum [OF ClientWithCenter_handled(2), of ClientClusterAction_code "cwc_client_center_action m"]
    consumes_append [OF consumes_rep [OF string_codec ClientWithCenter_handled(3), of "cwc_should_communicate_center m"]
      consumes_rep [OF string_codec ClientWithCenter_handled(4), of "cwc_cluster_server_list m"]]], unfolded upd]
  then show ?thesis using assms by (simp add: ClientWithCenter_Serialize_def)
qed

text \<open>A cleared message merged with another is the other, so \<open>CopyFrom\<close> copies.\<close>

lemma merge_Clear [simp]:
  "RpcClusterServer_MergeFrom m1 RpcClusterServer_Clear = m1"
  "LoadBalancerMetaData_MergeFrom m2 LoadBalancerMetaData_Clear = m2"
  "CenterResponseCluster_MergeFrom m3 CenterResponseCluster_Clear = m3"
  "ClientWithCenter_MergeFrom m4 ClientWithCenter_Clear = m4"
  "CentersProto_MergeFrom m5 CentersProto_Clear = m5"
  by (simp_all add: RpcClusterServer_MergeFrom_def RpcClusterServer_Clear_def LoadBalancerMetaData_MergeFrom_def
      LoadBalancerMetaData_Clear_def CenterResponseCluster_MergeFrom_def CenterResponseCluster_Clear_def
      ClientWithCenter_MergeFrom_def ClientWithCenter_Clear_def CentersProto_MergeFrom_def CentersProto_Clear_def
      merge_opt_def)

lemma RpcClusterServer_roundtrip:
  assumes "RpcClusterServer_plain m" "length (RpcClusterServer_Serialize lib m) < TotalBytesLimit"
  shows "RpcClusterServer_ParseFromString lib (RpcClusterServer_Serialize lib m) = Some (Some m)"
  unfolding RpcClusterServer_ParseFromString_def
  using consumes_parse [OF RpcClusterServer_consumes [OF assms(1)] assms(2)] by simp

lemma LoadBalancerMetaData_roundtrip:
  assumes "lbm_unknown m = []" "length (LoadBalancerMetaData_Serialize lib m) < TotalBytesLimit"
  shows "LoadBalancerMetaData_ParseFromString lib (LoadBalancerMetaData_Serialize lib m) = Some (Some m)"
  unfolding LoadBalancerMetaData_ParseFromString_def
  using consumes_parse [OF LoadBalancerMetaData_consumes [OF assms(1)] assms(2)] by simp

lemma CenterResponseCluster_roundtrip:
  assumes "crc_unknown m = []" "length (CenterResponseCluster_Serialize lib m) < TotalBytesLimit"
  shows "CenterResponseCluster_ParseFromString lib (CenterResponseCluster_Serialize lib m) = Some (Some m)"
  unfolding CenterResponseCluster_ParseFromString_def
  using consumes_parse [OF CenterResponseCluster_consumes [OF assms(1)] assms(2)] by simp

lemma ClientWithCenter_roundtrip:
  assumes "cwc_unknown m = []" "length (ClientWithCenter_Serialize lib m) < TotalBytesLimit"
  shows "ClientWithCenter_ParseFromString lib (ClientWithCenter_Serialize lib m) = Some (Some m)"
  unfolding ClientWithCenter_ParseFromString_def
  using consumes_parse [OF ClientWithCenter_consumes [OF assms(1)] assms(2)] by simp

lemma length_rep_message:
  assumes "0 < f" "f < 16" "x \<in> set xs"
  shows "length (serial x) \<le> length (rep_field (\<lambda>s. WriteMessage lib f (serial s)) xs)"
  using assms(3)
proof (induction xs)
  case (Cons y ys)
  have "length (serial y) \<le> length (WriteMessage lib f (serial y))"
    using length_WriteMessage [OF assms(1,2), of "serial y"] delimited_size [of "length (serial y)"] by simp
  with Cons show ?case by auto
qed simp

lemma CentersProto_consumes:
  assumes "CentersProto_plain m" "length (CentersProto_Serialize lib m) < TotalBytesLimit"
  shows "consumes lib (CentersProto_field lib) (CentersProto_Serialize lib m) (CentersProto_MergeFrom m)"
proof -
  let ?rcs = "rep_field (\<lambda>s. WriteMessage lib 8 (RpcClusterServer_Serialize lib s)) (pb_server_infos_list m)"
  let ?lbm = "rep_field (\<lambda>s. WriteMessage lib 9 (LoadBalancerMetaData_Serialize lib s)) (pb_lb_result m)"
  have upd: "(\<lambda>m0. fold (\<lambda>s m. m\<lparr>pb_lb_result := pb_lb_result m @ [s]\<rparr>) (pb_lb_result m)
      (fold (\<lambda>s m. m\<lparr>pb_server_infos_list := pb_server_infos_list m @ [s]\<rparr>) (pb_server_infos_list m)
      (assign_opt (\<lambda>v m. m\<lparr>pb_leader_center := Some v\<rparr>) (pb_leader_center m)
      (assign_opt (\<lambda>v m. m\<lparr>pb_logical_clock := Some v\<rparr>) (pb_logical_clock m)
      (assign_opt (\<lambda>v m. m\<lparr>pb_lc_start_time := Some v\<rparr>) (pb_lc_start_time m)
      (assign_opt (\<lambda>v m. m\<lparr>pb_start_time := Some v\<rparr>) (pb_start_time m)
      (assign_opt (\<lambda>v m. m\<lparr>pb_center_action := Some v\<rparr>) (pb_center_action m)
      (assign_opt (\<lambda>v m. m\<lparr>pb_center_status := Some v\<rparr>) (pb_center_status m)
      (assign_opt (\<lambda>v m. m\<lparr>pb_from_center_addr := Some v\<rparr>) (pb_from_center_addr m) m0))))))))) =
      CentersProto_MergeFrom m"
    using assms(1)
    by (simp add: fun_eq_iff CentersProto_MergeFrom_def CentersProto_plain_def assign_opt_def merge_opt_def
        split: option.splits)
  have len: "length ?rcs + length ?lbm < TotalBytesLimit"
    using assms(2) by (simp add: CentersProto_Serialize_def)
  have rcs: "\<forall>s\<in>set (pb_server_infos_list m).
      RpcClusterServer_ParseFromString lib (RpcClusterServer_Serialize lib s) = Some (Some s)"
  proof
    fix s assume s: "s \<in> set (pb_server_infos_list m)"
    with length_rep_message [of 8 s "pb_server_infos_list m" "RpcClusterServer_Serialize lib"] len
    have "length (RpcClusterServer_Serialize lib s) < TotalBytesLimit" by simp
    with s assms(1) show "RpcClusterServer_ParseFromString lib (RpcClusterServer_Serialize lib s) = Some (Some s)"
      by (intro RpcClusterServer_roundtrip) (auto simp: CentersProto_plain_def)
  qed
  have lbm: "\<forall>s\<in>set (pb_lb_result m).
      LoadBalancerMetaData_ParseFromString lib (LoadBalancerMetaData_Serialize lib s) = Some (Some s)"
  proof
    fix s assume s: "s \<in> set (pb_lb_result m)"
    with length_rep_message [of 9 s "pb_lb_result m" "LoadBalancerMetaData_Serialize lib"] len
    have "length (LoadBalancerMetaData_Serialize lib s) < TotalBytesLimit" by simp
    with s assms(1)
    show "LoadBalancerMetaData_ParseFromString lib (LoadBalancerMetaData_Serialize lib s) = Some (Some s)"
      by (intro LoadBalancerMetaData_roundtrip) (auto simp: CentersProto_plain_def)
  qed
  note consumes_append [OF consumes_opt [OF string_codec CentersProto_handled(1), of "pb_from_center_addr m"]
    consumes_append [OF consumes_enum [OF CentersProto_handled(2), of CenterStatus_code "pb_center_status m"]
    consumes_append [OF consumes_enum [OF CentersProto_handled(3), of CenterAction_code "pb_center_action m"]
    consumes_append [OF consumes_opt [OF uint64_codec CentersProto_handled(4), of "pb_start_time m"]
    consumes_append [OF consumes_opt [OF uint64_codec CentersProto_handled(5), of "pb_lc_start_time m"]
    consumes_append [OF consumes_opt [OF uint64_codec CentersProto_handled(6), of "pb_logical_clock m"]
    consumes_append [OF consumes_opt [OF string_codec CentersProto_handled(7), of "pb_leader_center m"]
    consumes_append [OF consumes_messages [of 8 "CentersProto_field lib" "RpcClusterServer_ParseFromString lib"
        "\<lambda>s m. m\<lparr>pb_server_infos_list := pb_server_infos_list m @ [s]\<rparr>", OF _ _ _ rcs]
      consumes_messages [of 9 "CentersProto_field lib" "LoadBalancerMetaData_ParseFromString lib"
        "\<lambda>s m. m\<lparr>pb_lb_result := pb_lb_result m @ [s]\<rparr>", OF _ _ _ lbm]]]]]]]], unfolded upd]
  then show ?thesis
    using assms(1) by (simp add: CentersProto_Serialize_def CentersProto_plain_def CentersProto_field_def)
qed

lemma CentersProto_parse:
  assumes "CentersProto_plain m" "length (CentersProto_Serialize lib m) < TotalBytesLimit"
  shows "CentersProto_ParseFromString lib (CentersProto_Serialize lib m) = Some (Some m)"
  unfolding CentersProto_ParseFromString_def
  using consumes_parse [OF CentersProto_consumes [OF assms] assms(2)] by simp

lemma CentersProto_parse_append:
  assumes "CentersProto_plain a" "CentersProto_plain b"
    and "length (CentersProto_Serialize lib a @ CentersProto_Serialize lib b) < TotalBytesLimit"
  shows "CentersProto_ParseFromString lib (CentersProto_Serialize lib a @ CentersProto_Serialize lib b) =
    Some (Some (CentersProto_MergeFrom b a))"
proof -
  have "consumes lib (CentersProto_field lib) (CentersProto_Serialize lib a @ CentersProto_Serialize lib b)
      (\<lambda>m. CentersProto_MergeFrom b (CentersProto_MergeFrom a m))"
    using assms by (intro consumes_append CentersProto_consumes) simp_all
  from consumes_parse [OF this assms(3)] show ?thesis by (simp add: CentersProto_ParseFromString_def)
qed

text \<open>\<open>ByteSize\<close> is the length of what \<open>SerializeWithCachedSizes\<close> writes.\<close>

lemma codec_opt_length:
  "field_codec wt ok w sz rd \<Longrightarrow> 0 < f \<Longrightarrow> f < 16 \<Longrightarrow> \<forall>x. v = Some x \<longrightarrow> ok x \<Longrightarrow>
   length (opt_field (w f) v) = opt_size sz v"
  by (cases v) (simp_all add: field_codec_write)

lemma codec_rep_length:
  "field_codec wt (\<lambda>_. True) w sz rd \<Longrightarrow> 0 < f \<Longrightarrow> f < 16 \<Longrightarrow> length (rep_field (w f) vs) = rep_size sz vs"
  by (rule length_rep_field) (simp add: field_codec_write)

lemma enum_opt_length:
  assumes "0 < f" "f < 16" "\<forall>x. int32 (code x)"
  shows "length (opt_field (\<lambda>x. WriteEnum lib f (code x)) v) = opt_size (\<lambda>x. EnumSize lib (code x)) v"
  using assms by (cases v) (simp_all add: field_codec_write [OF enum_codec])

lemma message_rep_length:
  "0 < f \<Longrightarrow> f < 16 \<Longrightarrow> \<forall>s\<in>set vs. length (serial s) = size_of s \<Longrightarrow>
   length (rep_field (\<lambda>s. WriteMessage lib f (serial s)) vs) = rep_size (\<lambda>s. DelimitedSize lib (size_of s)) vs"
  by (rule length_rep_field) (simp add: length_WriteMessage)

lemmas field_lengths =
  codec_opt_length [OF string_codec] codec_opt_length [OF uint32_codec] codec_opt_length [OF uint64_codec]
  codec_opt_length [OF float_codec] codec_opt_length [OF int32_codec] codec_rep_length [OF string_codec]
  enum_opt_length message_rep_length

lemma RpcClusterServer_size:
  "RpcClusterServer_plain m \<Longrightarrow> length (RpcClusterServer_Serialize lib m) = RpcClusterServer_ByteSize lib m"
  by (simp add: RpcClusterServer_Serialize_def RpcClusterServer_ByteSize_def RpcClusterServer_plain_def field_lengths)

lemma LoadBalancerMetaData_size:
  "length (LoadBalancerMetaData_Serialize lib m) = LoadBalancerMetaData_ByteSize lib m"
  by (simp add: LoadBalancerMetaData_Serialize_def LoadBalancerMetaData_ByteSize_def field_lengths)

lemma CenterResponseCluster_size:
  "length (CenterResponseCluster_Serialize lib m) = CenterResponseCluster_ByteSize lib m"
  by (simp add: CenterResponseCluster_Serialize_def CenterResponseCluster_ByteSize_def field_lengths)

lemma ClientWithCenter_size:
  "length (ClientWithCenter_Serialize lib m) = ClientWithCenter_ByteSize lib m"
  by (simp add: ClientWithCenter_Serialize_def ClientWithCenter_ByteSize_def field_lengths)

lemma CentersProto_size:
  assumes "CentersProto_plain m"
  shows "length (CentersProto_Serialize lib m) = CentersProto_ByteSize lib m"
proof -
  have "length (rep_field (\<lambda>s. WriteMessage lib 8 (RpcClusterServer_Serialize lib s)) (pb_server_infos_list m)) =
      rep_size (\<lambda>s. DelimitedSize lib (RpcClusterServer_ByteSize lib s)) (pb_server_infos_list m)"
    using assms by (intro message_rep_length) (auto simp: CentersProto_plain_def RpcClusterServer_size)
  moreover have "length (rep_field (\<lambda>s. WriteMessage lib 9 (LoadBalancerMetaData_Serialize lib s)) (pb_lb_result m)) =
      rep_size (\<lambda>s. DelimitedSize lib (LoadBalancerMetaData_ByteSize lib s)) (pb_lb_result m)"
    by (intro message_rep_length) (auto simp: LoadBalancerMetaData_size)
  ultimately show ?thesis
    using assms
    by (simp add: CentersProto_Serialize_def CentersProto_ByteSize_def CentersProto_plain_def field_lengths)
qed

subsection \<open>The parsers always end\<close>

text \<open>Whatever the bytes: every round of the loop reads at least one of them.\<close>

definition shrinking :: "(nat \<Rightarrow> string \<Rightarrow> 'm \<Rightarrow> 'm step option) \<Rightarrow> bool" where
  "shrinking field \<longleftrightarrow> (\<forall>tag input m. \<exists>r. field tag input m = Some r \<and>
     (\<forall>m' rest. r = Good m' rest \<longrightarrow> length rest \<le> length input))"

lemma merge_loop_ends:
  assumes "shrinking field"
  shows "\<exists>r. merge_loop lib field unknown input m = Some r"
proof (induction input arbitrary: m rule: length_induct)
  case (1 input)
  obtain tag ok legitimate rest where tag: "ReadTag lib input = (tag, ok, legitimate, rest)"
    by (cases "ReadTag lib input") auto
  obtain r where r: "field tag rest m = Some r"
    and short: "\<And>m' rest'. r = Good m' rest' \<Longrightarrow> length rest' \<le> length rest"
    using assms unfolding shrinking_def by meson
  note unfold = merge_loop.simps [of lib field unknown input m]
  have unusual: "\<exists>r. (case SkipField lib tag rest of None \<Rightarrow> Some ParseFailed
      | Some (kept, input) \<Rightarrow> merge_loop lib field unknown input (unknown kept m)) = Some r" if "tag \<noteq> 0"
  proof (cases "SkipField lib tag rest")
    case (Some p)
    obtain kept rest' where p: "p = (kept, rest')" by (cases p)
    with Some tag_consumes [OF tag that] skip_consumes have "length rest' < length input"
      by (metis le_less_trans)
    with 1 show ?thesis by (simp add: Some p)
  qed simp
  show ?case
  proof (cases ok)
    case True
    then have "tag \<noteq> 0" using tag tag_ok by simp
    with 1 short tag_consumes [OF tag] unusual show ?thesis
      by (cases r) (auto simp: unfold tag True r intro: le_less_trans)
  next
    case False
    with unusual show ?thesis by (cases "tag = 0") (simp_all add: unfold tag)
  qed
qed

lemma parse_string_ends: "shrinking field \<Longrightarrow> \<exists>r. parse_string lib field unknown cleared s = Some r"
  using merge_loop_ends [of field unknown s cleared] by (auto simp: parse_string_def)

lemma read_into_shrinks:
  "field_codec wt ok w sz rd \<Longrightarrow> read_into rd assign input m = Good m' rest \<Longrightarrow> length rest \<le> length input"
  using field_codec_consumes by (fastforce simp: read_into_def split: option.splits)

lemmas reads_shrink =
  read_into_shrinks [OF enum_codec] read_into_shrinks [OF uint32_codec] read_into_shrinks [OF uint64_codec]
  read_into_shrinks [OF int32_codec] read_into_shrinks [OF float_codec] read_into_shrinks [OF string_codec]

lemma shrinking_leaves:
  "shrinking (RpcClusterServer_field lib)" "shrinking (CenterResponseCluster_field lib)"
  "shrinking (ClientWithCenter_field lib)" "shrinking (LoadBalancerMetaData_field lib)"
  unfolding shrinking_def RpcClusterServer_field_def CenterResponseCluster_field_def
    ClientWithCenter_field_def LoadBalancerMetaData_field_def
  by (auto dest: reads_shrink split: if_splits)

lemma read_message_shrinks:
  assumes "\<And>s. \<exists>r. parse s = Some r"
  shows "\<exists>r. read_message lib parse add input m = Some r \<and>
    (\<forall>m' rest. r = Good m' rest \<longrightarrow> length rest \<le> length input)"
proof (cases "ReadDelimited lib input")
  case (Some p)
  obtain bytes rest where p: "p = (bytes, rest)" by (cases p)
  obtain r where "parse bytes = Some r" using assms by blast
  with Some p field_codec_consumes [OF message_codec, of input bytes rest] show ?thesis
    by (cases r) (auto simp: read_message_def)
qed (simp add: read_message_def)

lemma CentersProto_ends: "\<exists>r. CentersProto_ParseFromString lib s = Some r"
proof -
  have rcs: "\<exists>r. RpcClusterServer_ParseFromString lib s = Some r"
    and lbm: "\<exists>r. LoadBalancerMetaData_ParseFromString lib s = Some r" for s
    by (simp_all add: RpcClusterServer_ParseFromString_def LoadBalancerMetaData_ParseFromString_def
        parse_string_ends shrinking_leaves del: not_None_eq)
  have "shrinking (CentersProto_field lib)"
    unfolding shrinking_def
  proof (intro allI)
    fix tag input m
    show "\<exists>r. CentersProto_field lib tag input m = Some r \<and>
        (\<forall>m' rest. r = Good m' rest \<longrightarrow> length rest \<le> length input)"
      using read_message_shrinks [OF rcs, where add = "\<lambda>s m. m\<lparr>pb_server_infos_list := pb_server_infos_list m @ [s]\<rparr>" and input = input and m = m]
        read_message_shrinks [OF lbm, where add = "\<lambda>s m. m\<lparr>pb_lb_result := pb_lb_result m @ [s]\<rparr>" and input = input and m = m]
      by (simp add: CentersProto_field_def reads_shrink)
  qed
  then show ?thesis by (simp add: CentersProto_ParseFromString_def parse_string_ends del: not_None_eq)
qed

subsection \<open>Zero bytes\<close>

lemma nul_free_opt:
  assumes "0 < f" "f < 16"
  shows "nul_free (opt_field (WriteUInt32 lib f) u) \<longleftrightarrow> u \<noteq> Some 0"
    "nul_free (opt_field (WriteUInt64 lib f) x) \<longleftrightarrow> x \<noteq> Some 0"
    "nul_free (opt_field (WriteString lib f) s) \<longleftrightarrow> s \<noteq> Some [] \<and> (\<forall>t. s = Some t \<longrightarrow> nul_free t)"
    "\<forall>e. int32 (code e) \<Longrightarrow>
      nul_free (opt_field (\<lambda>e. WriteEnum lib f (code e)) a) \<longleftrightarrow> (\<forall>e. a = Some e \<longrightarrow> code e \<noteq> 0)"
    "nul_free (rep_field (WriteString lib f) ss) \<longleftrightarrow> (\<forall>t\<in>set ss. t \<noteq> [] \<and> nul_free t)"
  using assms
  by ((cases u; simp add: uint32_nul), (cases x; simp add: uint64_nul), (cases s; simp add: string_nul),
      (cases a; simp add: enum_nul), (simp add: nul_free_rep_field string_nul))

lemma enum_codes_nonzero [simp]:
  "ClusteAction_code a1 \<noteq> 0" "ResponseClusterAction_code a2 \<noteq> 0" "ClientClusterAction_code a3 \<noteq> 0"
  "CenterStatus_code a4 = 0 \<longleftrightarrow> a4 = LOOKING" "CenterAction_code a5 = 0 \<longleftrightarrow> a5 = INQUIRY"
  by ((cases a1; simp), (cases a2; simp), (cases a3; simp), (cases a4; simp), (cases a5; simp))

end

end
