(* ===== verification/Base128.thy ===== *)
theory Base128
  imports ProtobufCorrect Wire
begin

section \<open>The documented encoding satisfies the interface\<close>

text \<open>
  The encoding as its documentation describes it: base-128 varints, a tag that is the field
  number times eight plus the wire type, four little-endian bytes, and length-delimited strings
  and messages. It interprets the locale \<open>wire_format\<close>, so the hypothesis of the theorems on the
  generated code can hold, and it is what the concrete instances of these theorems run on.
\<close>

fun varint :: "nat \<Rightarrow> string" where
  "varint n = (if n < 128 then [char_of n] else char_of (n mod 128 + 128) # varint (n div 128))"

declare varint.simps [simp del]

text \<open>At most \<open>k\<close> bytes.\<close>

fun read_varint :: "nat \<Rightarrow> string \<Rightarrow> (nat \<times> string) option" where
  "read_varint 0 s = None"
| "read_varint (Suc k) [] = None"
| "read_varint (Suc k) (c # s) =
     (if (of_char c :: nat) < 128 then Some (of_char c, s)
      else (case read_varint k s of
              None \<Rightarrow> None
            | Some (n, rest) \<Rightarrow> Some (of_char c - 128 + 128 * n, rest)))"

definition sign_extended :: "int \<Rightarrow> nat" where
  "sign_extended v = unat (word_of_int v :: u64)"

definition read_bytes :: "nat \<Rightarrow> string \<Rightarrow> (string \<times> string) option" where
  "read_bytes n s = (if n \<le> length s then Some (take n s, drop n s) else None)"

definition read_delimited :: "string \<Rightarrow> (string \<times> string) option" where
  "read_delimited s = Option.bind (read_varint 5 s) (\<lambda>(n, rest). read_bytes n rest)"

definition read_tag :: "string \<Rightarrow> nat \<times> bool \<times> bool \<times> string" where
  "read_tag s =
     (if s = [] then (0, False, True, [])
      else (case read_varint 5 s of
              None \<Rightarrow> (0, False, False, s)
            | Some (t, rest) \<Rightarrow> (t, 0 < t \<and> t < 128, False, rest)))"

text \<open>Groups are not used by any message and are not skipped.\<close>

definition skip_field :: "nat \<Rightarrow> string \<Rightarrow> (string \<times> string) option" where
  "skip_field t s =
     map_option (\<lambda>(_, rest). (varint t @ take (length s - length rest) s, rest))
       (if t mod 8 = 0 then map_option (apfst (\<lambda>_. [])) (read_varint 10 s)
        else if t mod 8 = 1 then read_bytes 8 s
        else if t mod 8 = 2 then read_delimited s
        else if t mod 8 = 5 then read_bytes 4 s
        else None)"

definition base128 :: wire_lib where
  "base128 =
     \<lparr>WriteEnum = \<lambda>f v. char_of (8 * f) # varint (sign_extended v),
      WriteUInt32 = \<lambda>f v. char_of (8 * f) # varint (unat v),
      WriteUInt64 = \<lambda>f v. char_of (8 * f) # varint (unat v),
      WriteInt32 = \<lambda>f v. char_of (8 * f) # varint (sign_extended v),
      WriteFloat = \<lambda>f v. char_of (8 * f + 5) # le32_bytes v,
      WriteString = \<lambda>f s. char_of (8 * f + 2) # varint (length s) @ s,
      WriteMessage = \<lambda>f s. char_of (8 * f + 2) # varint (length s) @ s,
      EnumSize = \<lambda>v. length (varint (sign_extended v)),
      UInt32Size = \<lambda>v. length (varint (unat v)),
      UInt64Size = \<lambda>v. length (varint (unat v)),
      Int32Size = \<lambda>v. length (varint (sign_extended v)),
      StringSize = \<lambda>s. length (varint (length s)) + length s,
      DelimitedSize = \<lambda>n. length (varint n) + n,
      ReadTag = read_tag,
      ReadEnum = \<lambda>s. map_option (apfst (\<lambda>n. sint (word_of_nat n :: u32))) (read_varint 10 s),
      ReadUInt32 = \<lambda>s. map_option (apfst word_of_nat) (read_varint 10 s),
      ReadUInt64 = \<lambda>s. map_option (apfst word_of_nat) (read_varint 10 s),
      ReadInt32 = \<lambda>s. map_option (apfst (\<lambda>n. sint (word_of_nat n :: u32))) (read_varint 10 s),
      ReadFloat = \<lambda>s. map_option (apfst (\<lambda>b. load32 (b ! 0) (b ! 1) (b ! 2) (b ! 3))) (read_bytes 4 s),
      ReadString = read_delimited,
      ReadDelimited = read_delimited,
      SkipField = skip_field,
      UnknownVarint = \<lambda>f v. char_of (8 * f) # varint (sign_extended v)\<rparr>"

subsection \<open>Varints\<close>

lemma length_varint: "0 < length (varint n)"
  by (subst varint.simps) simp

lemma char_of_nul: "char_of (m :: nat) = NUL \<longleftrightarrow> m mod 256 = 0"
  using of_char_eq_iff [of "char_of m" NUL, where 'a = nat] by simp

lemma nul_free_varint: "nul_free (varint n) \<longleftrightarrow> n \<noteq> 0"
proof (induction n rule: varint.induct)
  case (1 n)
  have small: "n < 128 \<Longrightarrow> char_of n = NUL \<longleftrightarrow> n = 0" by (simp add: char_of_nul)
  have "(n mod 128 + 128) mod 256 = n mod 128 + 128" by (rule mod_less) linarith
  then have large: "char_of (n mod 128 + 128) \<noteq> NUL" by (simp add: char_of_nul)
  show ?case
  proof (cases "n < 128")
    case True
    with small show ?thesis by (subst varint.simps) simp
  next
    case False
    with 1 large show ?thesis by (subst varint.simps) auto
  qed
qed

lemma read_varint_varint: "0 < k \<Longrightarrow> n < 128 ^ k \<Longrightarrow> read_varint k (varint n @ rest) = Some (n, rest)"
proof (induction n arbitrary: k rule: varint.induct)
  case (1 n)
  then obtain k' where k: "k = Suc k'" by (cases k) auto
  show ?case
  proof (cases "n < 128")
    case True
    then show ?thesis by (subst varint.simps) (simp add: k)
  next
    case False
    with 1 k have "n div 128 < 128 ^ k'" "0 < k'"
      by (auto simp: less_mult_imp_div_less mult.commute intro: gr0I)
    with 1(1) [OF False, of k'] False show ?thesis
      by (subst varint.simps) (simp add: k)
  qed
qed

lemma read_varint_Nil [simp]: "read_varint k [] = None"
  by (cases k) simp_all

lemma read_varint_byte [simp]: "t < 128 \<Longrightarrow> 0 < k \<Longrightarrow> read_varint k (char_of t # s) = Some (t, s)"
  by (cases k) simp_all

lemma read_varint_consumes: "read_varint k s = Some (n, rest) \<Longrightarrow> length rest < length s"
  by (induction k s arbitrary: n rest rule: read_varint.induct) (fastforce split: if_splits option.splits)+

subsection \<open>The interpretation\<close>

lemma sign_extended:
  assumes "int32 v"
  shows "sign_extended v < 128 ^ 10" "sint (word_of_nat (sign_extended v) :: u32) = v"
    "sign_extended v = 0 \<longleftrightarrow> v = 0"
proof -
  show "sign_extended v < 128 ^ 10"
    using unsigned_less [of "word_of_int v :: u64", where 'a = nat] by (simp add: sign_extended_def)
  have "(word_of_nat (sign_extended v) :: u32) = word_of_int v"
  proof (rule bit_word_eqI)
    fix n assume "n < LENGTH(32)"
    then show "bit (word_of_nat (sign_extended v) :: u32) n \<longleftrightarrow> bit (word_of_int v :: u32) n"
      by (simp add: sign_extended_def bit_simps)
  qed
  then show "sint (word_of_nat (sign_extended v) :: u32) = v"
    using sint_code [of v] assms by (simp add: int32_def)
  note sint = this
  show "sign_extended v = 0 \<longleftrightarrow> v = 0"
  proof
    assume "sign_extended v = 0"
    with sint show "v = 0" by simp
  qed (simp add: sign_extended_def)
qed

lemma unat_bounds: "unat (u :: u32) < 128 ^ 10" "unat (x :: u64) < 128 ^ 10"
  using unsigned_less [of u, where 'a = nat] unsigned_less [of x, where 'a = nat] by simp_all

lemma read_delimited_varint:
  assumes "length (varint (length s) @ s @ rest) < TotalBytesLimit"
  shows "read_delimited (varint (length s) @ s @ rest) = Some (s, rest)"
proof -
  have "length s < 128 ^ 5" using assms by (simp add: TotalBytesLimit_def)
  then show ?thesis by (simp add: read_delimited_def read_varint_varint read_bytes_def)
qed

lemma read_delimited_consumes: "read_delimited s = Some (v, rest) \<Longrightarrow> length rest < length s"
  by (auto simp: read_delimited_def read_bytes_def bind_eq_Some_conv dest!: read_varint_consumes split: if_splits)

lemma varint_codec:
  assumes "\<And>v. ok v \<Longrightarrow> enc v < 128 ^ 10" "\<And>v. ok v \<Longrightarrow> dec (enc v) = v"
  shows "field_codec 0 ok (\<lambda>f v. char_of (8 * f) # varint (enc v)) (\<lambda>v. length (varint (enc v)))
    (\<lambda>s. map_option (apfst dec) (read_varint 10 s))"
  unfolding field_codec_def
proof (intro conjI allI impI)
  fix f v assume "ok v"
  with assms show "\<exists>body. char_of (8 * f) # varint (enc v) = char_of (8 * f + 0) # body \<and>
      length body = length (varint (enc v)) \<and> (\<forall>rest. length (body @ rest) < TotalBytesLimit \<longrightarrow>
      map_option (apfst dec) (read_varint 10 (body @ rest)) = Some (v, rest))"
    by (simp add: read_varint_varint)
next
  show "map_option (apfst dec) (read_varint 10 []) = None" by simp
next
  fix s v rest assume "map_option (apfst dec) (read_varint 10 s) = Some (v, rest)"
  then show "length rest < length s" by (auto dest: read_varint_consumes)
qed

lemma delimited_codec:
  "field_codec 2 (\<lambda>_. True) (\<lambda>f s. char_of (8 * f + 2) # varint (length s) @ s)
    (\<lambda>s. length (varint (length s)) + length s) read_delimited"
  unfolding field_codec_def
  using read_delimited_varint read_delimited_consumes
  by simp (simp add: read_delimited_def)

lemma float_codec_base128:
  "field_codec 5 (\<lambda>_. True) (\<lambda>f. (#) (char_of (8 * f + 5)) \<circ> le32_bytes) (\<lambda>_. 4)
    (\<lambda>s. map_option (apfst (\<lambda>b. load32 (b ! 0) (b ! 1) (b ! 2) (b ! 3))) (read_bytes 4 s))"
  unfolding field_codec_def using load32_le32_bytes by (auto simp: read_bytes_def split: if_splits)

lemma skip_field_consumes: "skip_field t s = Some (kept, rest) \<Longrightarrow> length rest \<le> length s"
  by (auto simp: skip_field_def read_bytes_def dest!: read_varint_consumes read_delimited_consumes split: if_splits)

lemma read_tag_byte:
  assumes "0 < t" "t < 128"
  shows "read_tag (char_of t # s) = (t, True, False, s)"
  using assms by (simp add: read_tag_def)

interpretation base128: wire_format base128
proof (unfold_locales, goal_cases)
  case 1
  then show ?case by (simp add: base128_def read_tag_byte)
next
  case 2
  show ?case by (simp add: base128_def read_tag_def)
next
  case 3
  then show ?case
    by (auto simp: base128_def read_tag_def dest: read_varint_consumes split: if_splits option.splits)
next
  case 4
  then show ?case by (auto simp: base128_def read_tag_def split: if_splits option.splits)
next
  case 5
  then show ?case by (simp add: base128_def skip_field_consumes)
next
  case 6
  show ?case using varint_codec [of int32 sign_extended] sign_extended by (simp add: base128_def)
next
  case 7
  show ?case using varint_codec [of "\<lambda>_. True" unat "word_of_nat :: nat \<Rightarrow> u32"] unat_bounds(1) by (simp add: base128_def)
next
  case 8
  show ?case using varint_codec [of "\<lambda>_. True" unat "word_of_nat :: nat \<Rightarrow> u64"] unat_bounds(2) by (simp add: base128_def)
next
  case 9
  show ?case using varint_codec [of int32 sign_extended] sign_extended by (simp add: base128_def)
next
  case 10
  show ?case using float_codec_base128 by (simp add: base128_def comp_def)
next
  case 11
  show ?case using delimited_codec by (simp add: base128_def)
next
  case 12
  show ?case using delimited_codec by (simp add: base128_def)
next
  case (13 n)
  show ?case using length_varint [of n] by (simp add: base128_def)
next
  case 14
  show ?case by (simp add: base128_def sign_extended_def varint.simps char_of_nul)
qed (auto simp: base128_def nul_free_varint sign_extended char_of_nul unat_gt_0)

end
