(* ===== verification/CenterWire.thy ===== *)
theory CenterWire
  imports Base128 CenterSafety Heartbeats
begin

section \<open>The center's messages on the wire\<close>

text \<open>
  The composition of three parts: the messages the handlers of rpc\_center.cpp and
  center\_cluster\_heartbeat.cpp build with the generated setters, the generated serialisers, and the
  framing of util/rpc\_communication.cpp, which cuts every block at its first zero byte. The lemmas
  show which messages survive the way from one machine to the handler of another.
\<close>

subsection \<open>The messages with their has-bits\<close>

text \<open>\<open>InquiryCenters\<close>, \<open>ProposalLeaderElection\<close> and \<open>UpdateOCStatus\<close>.\<close>

definition inquiry_pb :: "center_env \<Rightarrow> rpc_center \<Rightarrow> CentersProto_pb" where
  "inquiry_pb env c =
     CentersProto_Clear\<lparr>pb_from_center_addr := Some (local_address env),
       pb_center_status := Some (GetCenterStatus c), pb_center_action := Some INQUIRY,
       pb_start_time := Some (start_time c), pb_logical_clock := Some (GetLogicalClock c)\<rparr>"

definition proposal_pb :: "center_env \<Rightarrow> rpc_center \<Rightarrow> CentersProto_pb" where
  "proposal_pb env c =
     CentersProto_Clear\<lparr>pb_from_center_addr := Some (local_address env),
       pb_center_status := Some LOOKING, pb_center_action := Some PROPOSAL,
       pb_start_time := Some (start_time c), pb_lc_start_time := Some (GetLeadingCenterStartTime c),
       pb_logical_clock := Some (GetLogicalClock c), pb_leader_center := Some (GetLeadingCenter c)\<rparr>"

definition confirm_pb :: "center_env \<Rightarrow> rpc_center \<Rightarrow> CentersProto_pb" where
  "confirm_pb env c =
     CentersProto_Clear\<lparr>pb_from_center_addr := Some (local_address env),
       pb_center_action := Some LEADER_CONFIRM, pb_start_time := Some (start_time c),
       pb_logical_clock := Some (GetLogicalClock c), pb_center_status := Some LEADING,
       pb_lc_start_time := Some (start_time c), pb_leader_center := Some (local_address env)\<rparr>"

text \<open>\<open>InitCenterClusterHB\<close> and the answer of a center that is not ready.\<close>

definition register_pb :: "string \<Rightarrow> RpcClusterServer_pb" where
  "register_pb local_addr =
     RpcClusterServer_Clear\<lparr>rcs_cluster_action := Some REGISTER,
       rcs_cluster_server_addr := Some (c_str local_addr)\<rparr>"

definition not_ready_pb :: CenterResponseCluster_pb where
  "not_ready_pb = CenterResponseCluster_Clear\<lparr>crc_center_response_action := Some CENTER_NOT_READY\<rparr>"

text \<open>The handlers' view of them, through the getters.\<close>

lemma pb_get:
  "CentersProto_get (inquiry_pb env c) = inquiry_message env c"
  "CentersProto_get (proposal_pb env c) = proposal_message env c"
  "CentersProto_get (confirm_pb env c) = confirm_message env c"
  "RpcClusterServer_get (register_pb a) = register_request a"
  "CenterResponseCluster_get not_ready_pb =
     CenterResponseCluster_default\<lparr>center_response_action := CENTER_NOT_READY\<rparr>"
  by (simp_all add: inquiry_pb_def inquiry_message_def proposal_pb_def proposal_message_def confirm_pb_def
      confirm_message_def register_pb_def register_request_def not_ready_pb_def CentersProto_get_def
      RpcClusterServer_get_def CenterResponseCluster_get_def CentersProto_Clear_def CentersProto_default_def
      RpcClusterServer_Clear_def RpcClusterServer_default_def CenterResponseCluster_Clear_def
      CenterResponseCluster_default_def)

text \<open>A center whose \<open>ParseFromString\<close> is the generated one.\<close>

definition parsed :: "('m \<Rightarrow> 'g) \<Rightarrow> 'm option option \<Rightarrow> 'g option" where
  "parsed get r = (case r of Some (Some m) \<Rightarrow> Some (get m) | _ \<Rightarrow> None)"

definition uses_protobuf :: "wire_lib \<Rightarrow> center_env \<Rightarrow> bool" where
  "uses_protobuf lib env \<longleftrightarrow>
     (\<forall>s. cp_of_string env s = parsed CentersProto_get (CentersProto_ParseFromString lib s) \<and>
          rcs_of_string env s = parsed RpcClusterServer_get (RpcClusterServer_ParseFromString lib s))"

subsection \<open>One block through the framing\<close>

lemma delivered_one: "0 < length s \<Longrightarrow> length s < 511 \<Longrightarrow> delivered s = c_str s"
  by (simp add: delivered_def payload_def)

lemma wire_receive:
  assumes "\<forall>j. sys j = int MetaSize" "0 < length s" "length s < 511"
    and "receives env (length (trace c)) fd = map Got (sent (RpcSend sys (center_type_code ty) s nc)) @ evs"
  shows "receive_on env fd c = Inr (center_type_code ty, c_str s,
    effect (Receive fd (Returned (center_type_code ty) (c_str s) False evs)) c)"
proof -
  have ty: "0 < center_type_code ty" "center_type_code ty < 2 ^ 31" by (cases ty; simp)+
  have "sent (RpcSend sys (center_type_code ty) s nc) = message_frames (- center_type_code ty) s"
    using assms(1,3) ty by (simp add: RpcSend_ok)
  with recv_message [OF _ ty, of s evs False] assms(2-4) show ?thesis
    by (simp add: receive_on_def RpcRecv_def delivered_one)
qed

subsection \<open>A field with the value zero\<close>

context wire_format
begin

text \<open>The string that arrives ends with the tag of the field, and the parser fails there.\<close>

lemma zero_enum_cut:
  assumes "0 < f" "f < 16" "nul_free pre"
  shows "c_str (pre @ WriteEnum lib f 0 @ rest) = pre @ [char_of (8 * f)]"
proof -
  have "char_of (8 * f) \<noteq> NUL"
  proof
    assume "char_of (8 * f) = NUL"
    then have "(of_char (char_of (8 * f)) :: nat) = of_char NUL" by (simp only:)
    with assms show False by simp
  qed
  with assms enum_zero [of f] show ?thesis
    using c_str_append_nul [of "pre @ [char_of (8 * f)]" rest] by simp
qed

lemma parse_cut:
  assumes "consumes lib field pre upd" "handled field (8 * f + 0) (ReadEnum lib) assign" "0 < f" "f < 16"
    and "length pre < 511"
  shows "parse_string lib field unknown cleared (pre @ [char_of (8 * f)]) = Some None"
proof -
  have "merge_loop lib field unknown (pre @ [char_of (8 * f)]) cleared =
      merge_loop lib field unknown [char_of (8 * f)] (upd cleared)"
    using assms(1,5) unfolding consumes_def by (simp add: TotalBytesLimit_def)
  also have "\<dots> = Some ParseFailed"
    using assms(2-4) field_codec_empty [OF enum_codec]
    by (subst merge_loop.simps) (simp add: tag_byte handled_def read_into_def)
  finally show ?thesis by (simp add: parse_string_def)
qed

text \<open>A message of a center with the status \<open>LOOKING\<close> or the action \<open>INQUIRY\<close>.\<close>

lemma zero_enum_not_parsed:
  assumes a: "pb_from_center_addr p = Some a" "nul_free a" "a \<noteq> []"
    and st: "pb_center_status p = Some st" and act: "pb_center_action p = Some act"
    and zero: "st = LOOKING \<or> act = INQUIRY"
    and len: "length (CentersProto_Serialize lib p) < 511"
  shows "CentersProto_ParseFromString lib (c_str (CentersProto_Serialize lib p)) = Some None"
proof -
  have ca: "consumes lib (CentersProto_field lib) (WriteString lib 1 a) (\<lambda>m. m\<lparr>pb_from_center_addr := Some a\<rparr>)"
    using consumes_field [OF string_codec CentersProto_handled(1)] by simp
  have na: "nul_free (WriteString lib 1 a)" using a by (simp add: string_nul)
  have la: "length (WriteString lib 1 a) < 511"
    using len by (simp add: CentersProto_Serialize_def a)
  show ?thesis
  proof (cases "st = LOOKING")
    case True
    obtain rest where s: "CentersProto_Serialize lib p = WriteString lib 1 a @ WriteEnum lib 2 0 @ rest"
      by (simp add: CentersProto_Serialize_def a st True)
    show ?thesis
      using parse_cut [OF ca CentersProto_handled(2), of "\<lambda>kept m. m\<lparr>pb_unknown := pb_unknown m @ kept\<rparr>"
          CentersProto_Clear] la zero_enum_cut [of 2 "WriteString lib 1 a" rest] na
      by (simp add: s CentersProto_ParseFromString_def)
  next
    case False
    let ?pre = "WriteString lib 1 a @ WriteEnum lib 2 (CenterStatus_code st)"
    obtain rest where s: "CentersProto_Serialize lib p = ?pre @ WriteEnum lib 3 0 @ rest"
      using zero False by (simp add: CentersProto_Serialize_def a st act)
    have c: "consumes lib (CentersProto_field lib) ?pre
        (\<lambda>m. assign_opt (\<lambda>e m. m\<lparr>pb_center_status := Some e\<rparr>) (Some st) (m\<lparr>pb_from_center_addr := Some a\<rparr>))"
      using consumes_append [OF ca consumes_enum [OF CentersProto_handled(2), of CenterStatus_code "Some st"]] by simp
    have n: "nul_free ?pre" using na False by (simp add: enum_nul)
    have l: "length ?pre < 511" using len s by simp
    show ?thesis
      using parse_cut [OF c CentersProto_handled(3), of "\<lambda>kept m. m\<lparr>pb_unknown := pb_unknown m @ kept\<rparr>"
          CentersProto_Clear] l zero_enum_cut [OF _ _ n, of 3 rest]
      by (simp add: s CentersProto_ParseFromString_def)
  qed
qed

text \<open>A registration has no zero byte, and arrives as it was sent.\<close>

lemma register_nul_free: "nul_free a \<Longrightarrow> a \<noteq> [] \<Longrightarrow> nul_free (RpcClusterServer_Serialize lib (register_pb a))"
  by (simp add: RpcClusterServer_Serialize_def register_pb_def RpcClusterServer_Clear_def enum_nul string_nul
      int32_def)

lemma register_parse:
  assumes "length (RpcClusterServer_Serialize lib (register_pb a)) < 511"
  shows "RpcClusterServer_ParseFromString lib (RpcClusterServer_Serialize lib (register_pb a)) = Some (Some (register_pb a))"
  using assms
  by (intro RpcClusterServer_roundtrip)
    (simp_all add: RpcClusterServer_plain_def register_pb_def RpcClusterServer_Clear_def TotalBytesLimit_def)

end

subsection \<open>Properties\<close>

text \<open>C9: What the generated code serialises it parses back: a \<open>CentersProto\<close> with any of its fields
  set, any servers and any balancer entries in it, is what \<open>ParseFromString\<close> makes of its
  serialisation, and \<open>ByteSize\<close> is the length of it.\<close>

theorem CentersProto_roundtrip:
  assumes "wire_format lib" "CentersProto_plain m" "length (CentersProto_Serialize lib m) < TotalBytesLimit"
  shows "CentersProto_ParseFromString lib (CentersProto_Serialize lib m) = Some (Some m) \<and>
    CentersProto_ByteSize lib m = length (CentersProto_Serialize lib m)"
  using wire_format.CentersProto_parse [OF assms] wire_format.CentersProto_size [OF assms(1,2)] by simp

lemmas base128_wire_format = base128.wire_format_axioms

definition demo_pb :: CentersProto_pb where
  "demo_pb = CentersProto_Clear\<lparr>pb_from_center_addr := Some ''a'', pb_center_action := Some LEADER_CONFIRM,
     pb_server_infos_list := [register_pb ''s'']\<rparr>"

theorem CentersProto_roundtrip_witness:
  "CentersProto_ParseFromString base128 (CentersProto_Serialize base128 demo_pb) = Some (Some demo_pb)"
proof -
  have "length (CentersProto_Serialize base128 demo_pb) < 511" by code_simp
  moreover have "CentersProto_plain demo_pb"
    by (simp add: demo_pb_def CentersProto_plain_def RpcClusterServer_plain_def register_pb_def
        CentersProto_Clear_def RpcClusterServer_Clear_def)
  ultimately show ?thesis
    using CentersProto_roundtrip [OF base128_wire_format, of demo_pb] by (simp add: TotalBytesLimit_def)
qed

text \<open>C13: Parsing merges. Of two messages sent one after the other \<open>ParseFromString\<close> makes what
  \<open>MergeFrom\<close> makes of the second and the first: a field of the second message overrides that of the first,
  its servers and its balancer entries follow those of the first. And one message parsed is that message
  copied into any other by \<open>CopyFrom\<close>.\<close>

theorem CentersProto_parse_merges:
  assumes "wire_format lib" "CentersProto_plain a" "CentersProto_plain b"
    and "length (CentersProto_Serialize lib a @ CentersProto_Serialize lib b) < TotalBytesLimit"
  shows "CentersProto_ParseFromString lib (CentersProto_Serialize lib a @ CentersProto_Serialize lib b) =
      Some (Some (CentersProto_MergeFrom b a)) \<and>
    CentersProto_ParseFromString lib (CentersProto_Serialize lib b) = Some (Some (CentersProto_CopyFrom False b m))"
  using wire_format.CentersProto_parse_append [OF assms] wire_format.CentersProto_parse [OF assms(1,3)] assms(3,4)
  by (simp add: CentersProto_CopyFrom_def)

theorem CentersProto_parse_merges_witness:
  "CentersProto_ParseFromString base128 (CentersProto_Serialize base128 demo_pb @
      CentersProto_Serialize base128 (demo_pb\<lparr>pb_from_center_addr := Some ''b'', pb_center_action := None\<rparr>)) =
    Some (Some (demo_pb\<lparr>pb_from_center_addr := Some ''b'', pb_server_infos_list := [register_pb ''s'', register_pb ''s'']\<rparr>))"
proof -
  let ?b = "demo_pb\<lparr>pb_from_center_addr := Some ''b'', pb_center_action := None\<rparr>"
  have "length (CentersProto_Serialize base128 demo_pb @ CentersProto_Serialize base128 ?b) < 511" by code_simp
  moreover have "CentersProto_plain demo_pb" "CentersProto_plain ?b"
    by (simp_all add: demo_pb_def CentersProto_plain_def RpcClusterServer_plain_def register_pb_def
        CentersProto_Clear_def RpcClusterServer_Clear_def)
  ultimately have "CentersProto_ParseFromString base128 (CentersProto_Serialize base128 demo_pb @
      CentersProto_Serialize base128 ?b) = Some (Some (CentersProto_MergeFrom ?b demo_pb))"
    using CentersProto_parse_merges [OF base128_wire_format, of demo_pb ?b] by (simp add: TotalBytesLimit_def)
  moreover have "CentersProto_MergeFrom ?b demo_pb =
      demo_pb\<lparr>pb_from_center_addr := Some ''b'', pb_server_infos_list := [register_pb ''s'', register_pb ''s'']\<rparr>"
    by (simp add: CentersProto_MergeFrom_def demo_pb_def CentersProto_Clear_def merge_opt_def)
  ultimately show ?thesis by simp
qed

text \<open>C32: The parsers always return: whatever bytes arrive, \<open>ParseFromString\<close> of a \<open>CentersProto\<close> ends,
  with a message or with failure.\<close>

theorem CentersProto_ParseFromString_terminates:
  assumes "wire_format lib"
  shows "CentersProto_ParseFromString lib s \<noteq> None"
  using wire_format.CentersProto_ends [OF assms, of s] by auto

theorem CentersProto_ParseFromString_terminates_witness:
  "CentersProto_ParseFromString base128 [CHR 0x0A, CHR 0xFF, CHR 0xFF] \<noteq> None"
  by (rule CentersProto_ParseFromString_terminates [OF base128_wire_format])

text \<open>C8: No inquiry and no proposal of an election is ever understood. Both carry an enum field with the
  value 0 (\<open>INQUIRY\<close>, or \<open>LOOKING\<close>), whose encoding is a zero byte; the framing cuts the message there, and
  the center that receives it fails to parse what is left: \<open>CenterProcessor\<close> returns \<open>false\<close>, nothing is
  queued, and the state of that center is as before, except that it has received a message.\<close>

theorem election_requests_not_understood:
  assumes "wire_format lib" "uses_protobuf lib env'"
    and "nul_free (local_address env)" "local_address env \<noteq> []"
    and "p \<in> {inquiry_pb env c, proposal_pb env c}" "length (CentersProto_Serialize lib p) < 511"
    and "\<forall>j. sys j = int MetaSize"
    and "receives env' (length (trace c')) fd =
      map Got (sent (RpcSend sys (center_type_code CENTER2CENTER) (CentersProto_Serialize lib p) nc)) @ evs"
  shows "\<exists>r. CenterProcessor env' fd c' = Inr (False, effect (Receive fd r) c')"
proof -
  let ?s = "CentersProto_Serialize lib p"
  have cut: "CentersProto_ParseFromString lib (c_str ?s) = Some None"
    using assms(3-6)
    by (intro wire_format.zero_enum_not_parsed [OF assms(1), of p "local_address env"
        "case pb_center_status p of Some st \<Rightarrow> st" "case pb_center_action p of Some act \<Rightarrow> act"])
      (auto simp: inquiry_pb_def proposal_pb_def)
  have "length (WriteString lib 1 (local_address env)) = 1 + StringSize lib (local_address env)"
    using field_codec_write [OF wire_format.string_codec [OF assms(1)], of 1] by simp
  with assms(5) have "0 < length ?s"
    by (auto simp: CentersProto_Serialize_def inquiry_pb_def proposal_pb_def)
  note wire_receive [where env = env' and c = c', OF assms(7) this assms(6,8)]
  moreover have "cp_of_string env' (c_str ?s) = None"
    using assms(2) cut by (simp add: uses_protobuf_def parsed_def)
  ultimately show ?thesis by (auto simp: CenterProcessor_def ProcessCenterRequest_def)
qed

text \<open>A machine that has received one message from another.\<close>

definition demo_pb_env :: "CenterType \<Rightarrow> string \<Rightarrow> center_env" where
  "demo_pb_env ty s = (demo_env CentersProto_default)\<lparr>
     receives := (\<lambda>_ _. map Got (sent (RpcSend (\<lambda>_. 516) (center_type_code ty) s False))),
     cp_of_string := (\<lambda>s. parsed CentersProto_get (CentersProto_ParseFromString base128 s)),
     rcs_of_string := (\<lambda>s. parsed RpcClusterServer_get (RpcClusterServer_ParseFromString base128 s))\<rparr>"

lemma demo_pb_env_uses: "uses_protobuf base128 (demo_pb_env ty s)"
  by (simp add: uses_protobuf_def demo_pb_env_def)

theorem election_requests_not_understood_witness:
  "\<exists>p r. center_action (CentersProto_get p) = INQUIRY \<and>
     CenterProcessor (demo_pb_env CENTER2CENTER (CentersProto_Serialize base128 p)) 4
       (RpcCenter_new (demo_env CentersProto_default) 9) =
     Inr (False, effect (Receive 4 r) (RpcCenter_new (demo_env CentersProto_default) 9))"
proof -
  let ?env = "demo_env CentersProto_default" and ?c = "RpcCenter_new (demo_env CentersProto_default) 9"
  let ?p = "inquiry_pb ?env ?c"
  have addr: "local_address ?env = ''a''" by (simp add: demo_env_def)
  have p: "?p = CentersProto_Clear\<lparr>pb_from_center_addr := Some ''a'', pb_center_status := Some LOOKING,
      pb_center_action := Some INQUIRY, pb_start_time := Some 9, pb_logical_clock := Some 0\<rparr>"
    by (simp add: inquiry_pb_def addr RpcCenter_new_def GetCenterStatus_def GetLogicalClock_def)
  have "length (CentersProto_Serialize base128 ?p) < 511" unfolding p by code_simp
  then have "\<exists>r. CenterProcessor (demo_pb_env CENTER2CENTER (CentersProto_Serialize base128 ?p)) 4 ?c =
      Inr (False, effect (Receive 4 r) ?c)"
    by (intro election_requests_not_understood [OF base128_wire_format demo_pb_env_uses,
          where env = ?env and c = ?c and p = ?p and sys = "\<lambda>_. 516" and nc = False and evs = "[]"])
      (simp_all add: addr demo_pb_env_def)
  moreover have "center_action (CentersProto_get ?p) = INQUIRY"
    by (simp add: pb_get inquiry_message_def)
  ultimately show ?thesis by blast
qed

text \<open>What the clients of a center are told: \<open>ss\<close> is the list of servers in every answer to a request
  for servers, be it the first one (\<open>CLIENT_INIT_REQ\<close>, where the walk on the ring of centers may
  fault) or a later one (\<open>UPDATE_SERVER_INFO\<close>, which is always answered).\<close>

definition clients_told :: "rpc_center \<Rightarrow> string list \<Rightarrow> bool" where
  "clients_told c ss \<longleftrightarrow>
     (\<forall>cwc r. client_center_action cwc \<in> {CLIENT_INIT_REQ, UPDATE_SERVER_INFO} \<longrightarrow>
        client_response cwc c = Inr r \<longrightarrow> cluster_server_list r = ss) \<and>
     (\<forall>cwc. client_center_action cwc = UPDATE_SERVER_INFO \<longrightarrow> (\<exists>r. client_response cwc c = Inr r))"

lemma clients_toldI: "load_balancer c = Some lb \<Longrightarrow> (\<And>cl. servers_for cl lb = ss) \<Longrightarrow> clients_told c ss"
  by (auto simp: clients_told_def client_response_def Let_def split: sum.splits)

lemma servers_for_empty: "vn_map lb = [] \<Longrightarrow> servers_for cl lb = []"
  by (simp add: servers_for_def GetRpcServer_def)

lemma servers_for_only:
  assumes "vn_map lb = []"
  shows "servers_for cl (AddRpcServer rcs lb) = (if 0 < virtual_node_num lb then [cluster_server_addr rcs] else [])"
proof (cases "0 < virtual_node_num lb")
  case True
  let ?lb = "AddRpcServer rcs lb"
  have inv: "lb_inv lb" using assms by (simp add: lb_inv_def om_wf_def)
  have "vn_map ?lb \<noteq> []"
  proof
    assume "vn_map ?lb = []"
    then have "lb_nodes ?lb = Map.empty" by (simp add: lb_nodes_def)
    moreover have "node_key (cluster_server_addr rcs) 0 \<in> lb_points lb (cluster_server_addr rcs)"
      using True by (auto simp: lb_points_def)
    ultimately show False
      using chash.nodes_add [OF inv, of rcs] assms by (auto simp: lb_nodes_def fun_eq_iff split: if_splits)
  qed
  then have "\<exists>ss. GetRpcServer cl ?lb = Some [ss]"
    by (cases "om_lower_bound (MurMurHash2 cl) (vn_map ?lb) = length (vn_map ?lb)") (simp_all add: GetRpcServer_def Let_def)
  then obtain ss where ss: "GetRpcServer cl ?lb = Some [ss]" ..
  with chash.serve_added [OF inv, of cl "[rcs]" "[ss]"] assms have "ss = cluster_server_addr rcs"
    by (simp add: lb_nodes_def)
  with ss True show ?thesis by (simp add: servers_for_def)
next
  case False
  then show ?thesis by (simp add: servers_for_empty AddRpcServer_def assms)
qed

lemma send_on_fields:
  assumes "send_on env fd ty m nc c = (r, c')"
  shows "load_balancer c' = load_balancer c" "rpc_server_buf c' = rpc_server_buf c"
  using assms by (auto simp: send_on_def effect_def Let_def)

lemma ProcessClusterRequest_register:
  assumes "rcs_of_string env s = Some rcs" "cluster_action rcs = REGISTER" "load_balancer c = Some lb"
  shows "if CenterIsReady c then
      (case reporter_centers (center_hash_map c) 3
              (om_lower_bound (MurMurHash2 (cluster_server_addr rcs)) (center_hash_map c)) of
         Inl f \<Rightarrow> ProcessClusterRequest env s fd c = Inl f
       | Inr centers \<Rightarrow> (\<exists>ok c'. ProcessClusterRequest env s fd c = Inr (ok, c') \<and>
           (if GetCenterStatus c = LEADING
            then load_balancer c' = Some (AddRpcServer rcs lb) \<and> rpc_server_buf c' = rpc_server_buf c
            else load_balancer c' = Some lb \<and> rpc_server_buf c' = rpc_server_buf (AddRpcServerToBuf rcs c))))
    else (\<exists>c'. ProcessClusterRequest env s fd c = Inr (False, c') \<and>
       load_balancer c' = Some lb \<and> rpc_server_buf c' = rpc_server_buf c)"
proof -
  obtain c1 where c1: "register_server rcs c = Inr c1" "center_hash_map c1 = center_hash_map c"
    "if GetCenterStatus c = LEADING
     then load_balancer c1 = Some (AddRpcServer rcs lb) \<and> rpc_server_buf c1 = rpc_server_buf c
     else load_balancer c1 = Some lb \<and> rpc_server_buf c1 = rpc_server_buf (AddRpcServerToBuf rcs c)"
  proof (cases "GetCenterStatus c = LEADING")
    case True
    with assms(3) show ?thesis
      by (intro that [of "c\<lparr>load_balancer := Some (AddRpcServer rcs lb)\<rparr>"]) (simp_all add: register_server_def)
  next
    case False
    then show ?thesis by (intro that [of "AddRpcServerToBuf rcs c"])
        (simp_all add: register_server_def AddRpcServerToBuf_def assms(3))
  qed
  show ?thesis
  proof (cases "CenterIsReady c")
    case True
    with c1 assms(1,2) show ?thesis
      by (cases "GetCenterStatus c = LEADING")
        (auto simp: ProcessClusterRequest_def Let_def split: sum.splits option.splits prod.splits
          dest: send_on_fields)
  next
    case False
    then show ?thesis
      by (auto simp: ProcessClusterRequest_def Let_def assms(3) send_on_fields [OF surjective_pairing])
  qed
qed

text \<open>C15: What becomes of the registration of an RPC server, in a center that has no server yet. The
  registration that \<open>InitCenterClusterHB\<close> sends arrives and is parsed. A center that is not ready keeps
  nothing of it. One that follows buffers the address for its next ping and leaves its balancer as it
  is, so its clients are told of no server. One that leads adds the server: as long as its balancer does
  not change again, every request for servers, whatever the client and whatever else changes, is answered
  with exactly this one (with none if the configuration sets the number of ring points below one). A
  ready center that cannot name three centers reads past the end of its ring instead. (By
  \<open>no_center_ever_leads\<close> only the first case happens in the program as it is.)\<close>

theorem registration_serves_clients:
  assumes "wire_format lib" "uses_protobuf lib env"
    and "nul_free a" "a \<noteq> []" "length (RpcClusterServer_Serialize lib (register_pb a)) < 511"
    and "\<forall>j. sys j = int MetaSize"
    and "receives env (length (trace c)) fd =
      map Got (sent (RpcSend sys (center_type_code CENTER2CLUSTER) (RpcClusterServer_Serialize lib (register_pb a)) nc)) @ evs"
    and "load_balancer c = Some lb" "vn_map lb = []"
  shows "if \<not> CenterIsReady c then
      (\<exists>c'. CenterProcessor env fd c = Inr (False, c') \<and> rpc_server_buf c' = rpc_server_buf c \<and>
        (\<forall>c''. load_balancer c'' = load_balancer c' \<longrightarrow> clients_told c'' []))
    else case reporter_centers (center_hash_map c) 3 (om_lower_bound (MurMurHash2 a) (center_hash_map c)) of
      Inl f \<Rightarrow> CenterProcessor env fd c = Inl f
    | Inr centers \<Rightarrow> (\<exists>ok c'. CenterProcessor env fd c = Inr (ok, c') \<and>
        (if GetCenterStatus c = LEADING
         then rpc_server_buf c' = rpc_server_buf c \<and>
           (\<forall>c''. load_balancer c'' = load_balancer c' \<longrightarrow>
              clients_told c'' (if 0 < virtual_node_num lb then [a] else []))
         else cluster_server_addr ` set (rpc_server_buf c') =
             insert a (cluster_server_addr ` set (rpc_server_buf c)) \<and>
           (\<forall>c''. load_balancer c'' = load_balancer c' \<longrightarrow> clients_told c'' [])))"
proof -
  let ?s = "RpcClusterServer_Serialize lib (register_pb a)"
  have cs: "c_str ?s = ?s" using wire_format.register_nul_free [OF assms(1,3,4)] by simp
  have parse: "rcs_of_string env ?s = Some (register_request a)"
    using assms(2) wire_format.register_parse [OF assms(1,5)] by (simp add: uses_protobuf_def parsed_def pb_get)
  have "length (WriteString lib 2 (c_str a)) = 1 + StringSize lib (c_str a)"
    using field_codec_write [OF wire_format.string_codec [OF assms(1)], of 2] by simp
  then have "0 < length ?s" by (simp add: RpcClusterServer_Serialize_def register_pb_def)
  note recv = wire_receive [where env = env and c = c, OF assms(6) this assms(5,7), unfolded cs]
  let ?c = "effect (Receive fd (Returned (center_type_code CENTER2CLUSTER) ?s False evs)) c"
  have req: "cluster_action (register_request a) = REGISTER" "cluster_server_addr (register_request a) = a"
    using assms(3) by (simp_all add: register_request_def)
  have process: "CenterProcessor env fd c = ProcessClusterRequest env ?s fd ?c"
    using recv by (simp add: CenterProcessor_def)
  have lb: "load_balancer ?c = Some lb" using assms(8) by (simp add: effect_def)
  have same: "CenterIsReady ?c = CenterIsReady c" "GetCenterStatus ?c = GetCenterStatus c"
    "center_hash_map ?c = center_hash_map c" "rpc_server_buf ?c = rpc_server_buf c"
    by (simp_all add: CenterIsReady_def GetCenterStatus_def effect_def)
  have buf: "cluster_server_addr ` set (rpc_server_buf (AddRpcServerToBuf (register_request a) ?c)) =
      insert a (cluster_server_addr ` set (rpc_server_buf c))"
    by (auto simp: AddRpcServerToBuf_def req effect_def)
  have none: "clients_told c'' []" if "load_balancer c'' = Some lb" for c''
    using that by (rule clients_toldI) (simp add: servers_for_empty assms(9))
  have one: "clients_told c'' (if 0 < virtual_node_num lb then [a] else [])"
    if "load_balancer c'' = Some (AddRpcServer (register_request a) lb)" for c''
    using that by (rule clients_toldI) (simp add: servers_for_only assms(9) req)
  note result = ProcessClusterRequest_register [OF parse req(1) lb, of fd, unfolded process [symmetric] same req(2)]
  show ?thesis
  proof (cases "CenterIsReady c")
    case False
    with result none show ?thesis by fastforce
  next
    case ready: True
    show ?thesis
    proof (cases "reporter_centers (center_hash_map c) 3 (om_lower_bound (MurMurHash2 a) (center_hash_map c))")
      case (Inl f)
      with ready result show ?thesis by simp
    next
      case (Inr centers)
      with ready result obtain ok c' where c': "CenterProcessor env fd c = Inr (ok, c')"
        "if GetCenterStatus c = LEADING
         then load_balancer c' = Some (AddRpcServer (register_request a) lb) \<and> rpc_server_buf c' = rpc_server_buf c
         else load_balancer c' = Some lb \<and> rpc_server_buf c' = rpc_server_buf (AddRpcServerToBuf (register_request a) ?c)"
        by auto
      then have "if GetCenterStatus c = LEADING
         then rpc_server_buf c' = rpc_server_buf c \<and> (\<forall>c''. load_balancer c'' = load_balancer c' \<longrightarrow>
              clients_told c'' (if 0 < virtual_node_num lb then [a] else []))
         else cluster_server_addr ` set (rpc_server_buf c') = insert a (cluster_server_addr ` set (rpc_server_buf c)) \<and>
           (\<forall>c''. load_balancer c'' = load_balancer c' \<longrightarrow> clients_told c'' [])"
        using none one buf by (cases "GetCenterStatus c = LEADING") simp_all
      with c'(1) ready Inr show ?thesis by simp
    qed
  qed
qed

theorem registration_serves_clients_witness:
  "\<exists>s c ok c'. CenterProcessor (demo_pb_env CENTER2CLUSTER s) 4 c = Inr (ok, c') \<and> clients_told c' [''s'']"
proof -
  let ?ring = "[(1, ''x''), (2, ''x''), (3, ''x'')] :: string ordmap"
  let ?c = "(RpcCenter_new (demo_env CentersProto_default) 9)\<lparr>center_status := LEADING,
    load_balancer := Some (ConsistentHashLoadBalancer_new ''f''), center_hash_map := ?ring\<rparr>"
  let ?s = "RpcClusterServer_Serialize base128 (register_pb ''s'')"
  have len: "length ?s < 511" by code_simp
  have ring: "reporter_centers ?ring 3 (om_lower_bound (MurMurHash2 ''s'') ?ring) = Inr [''x'', ''x'', ''x'']"
    by code_simp
  have state: "CenterIsReady ?c" "GetCenterStatus ?c = LEADING" "center_hash_map ?c = ?ring"
    "virtual_node_num (ConsistentHashLoadBalancer_new ''f'') = 20"
    by (simp_all add: CenterIsReady_def GetCenterStatus_def ConsistentHashLoadBalancer_new_def)
  let ?env = "demo_pb_env CENTER2CLUSTER ?s"
  have "receives ?env (length (trace ?c)) 4 =
      map Got (sent (RpcSend (\<lambda>_. int MetaSize) (center_type_code CENTER2CLUSTER) ?s False)) @ []"
    by (simp add: demo_pb_env_def)
  note told = registration_serves_clients [OF base128_wire_format demo_pb_env_uses _ _ len _ this]
  have "\<exists>ok c'. CenterProcessor ?env 4 ?c = Inr (ok, c') \<and>
      (\<forall>c''. load_balancer c'' = load_balancer c' \<longrightarrow>
        clients_told c'' (if 0 < virtual_node_num (ConsistentHashLoadBalancer_new ''f'') then [''s''] else []))"
    using told [of "ConsistentHashLoadBalancer_new ''f''"]
    by (simp add: state ring nul_free_def) (use ConsistentHashLoadBalancer_new_def in auto)
  then have "\<exists>ok c'. CenterProcessor ?env 4 ?c = Inr (ok, c') \<and> clients_told c' [''s'']"
    unfolding state by fastforce
  then show ?thesis by blast
qed

end
