(* ===== verification/EndToEnd.thy ===== *)
theory EndToEnd
  imports CenterWire RpcClient
begin

section \<open>Clients and servers of a cluster of centers\<close>

text \<open>
  The centers, an RPC server and an RPC client together. The states of the centers are those the
  step relation \<open>net_step\<close> of the theory CenterSafety reaches; the server registers with
  \<open>CenterClusterHeartbeat\<close>, the client asks with \<open>CenterClientHeartbeat\<close> and calls through its channel.
  The invariant \<open>idle\<close> (the balancer has no server, the election queue holds election messages only)
  is carried through every handler, next to \<open>calm\<close>.
\<close>

subsection \<open>No server is ever added\<close>

definition election_actions :: "CenterAction set" where
  "election_actions = {INQUIRY, PROPOSAL, ACCEPT, REFUSED, LEADER_CONFIRM}"

definition idle :: "rpc_center \<Rightarrow> bool" where
  "idle c \<longleftrightarrow>
     (\<exists>lb. load_balancer c = Some lb \<and> vn_map lb = []) \<and>
     (\<forall>t. election_thread c = Some t \<longrightarrow> all_items (\<lambda>m. center_action (snd m) \<in> election_actions) t)"

text \<open>What leaves the balancer and the election thread alone.\<close>

definition unmoved :: "rpc_center \<Rightarrow> rpc_center \<Rightarrow> bool" where
  "unmoved c c' \<longleftrightarrow> load_balancer c' = load_balancer c \<and> election_thread c' = election_thread c"

lemma unmoved_refl [simp]: "unmoved c c"
  by (simp add: unmoved_def)

lemma unmoved_trans: "unmoved c c' \<Longrightarrow> unmoved c' c'' \<Longrightarrow> unmoved c c''"
  by (simp add: unmoved_def)

lemma unmoved_idle: "unmoved c c' \<Longrightarrow> idle c \<Longrightarrow> idle c'"
  by (simp add: unmoved_def idle_def)

lemma unmoved_effects [simp]:
  "unmoved c (effect e c') = unmoved c c'" "unmoved c (close_fd fd c') = unmoved c c'"
  "unmoved c (snd (connect_center env addr c')) = unmoved c c'"
  "unmoved c (snd (send_on env fd ty s nc c')) = unmoved c c'"
  by (simp_all add: unmoved_def effect_def close_fd_def connect_center_def send_on_def Let_def)

lemma unmoved_receive: "receive_on env fd c = Inr (code, m, c') \<Longrightarrow> unmoved c c'"
  by (auto simp: receive_on_def Let_def split: recv_outcome.splits)

lemma broadcast_unmoved: "unmoved c (broadcast_to env s as c)"
proof (induction as arbitrary: c)
  case (Cons a as)
  obtain fd c1 where c1: "connect_center env a c = (fd, c1)" "unmoved c c1"
    using unmoved_effects(3) [of c env a c] by (cases "connect_center env a c") auto
  obtain r c2 where c2: "send_on env fd CENTER2CENTER s False c1 = (r, c2)" "unmoved c1 c2"
    using unmoved_effects(4) [of c1 env fd CENTER2CENTER s False c1]
    by (cases "send_on env fd CENTER2CENTER s False c1") auto
  have "unmoved c2 (broadcast_to env s as (close_fd fd c2))"
    using Cons.IH [of "close_fd fd c2"] by (auto simp: unmoved_def close_fd_def effect_def)
  with c1 c2 Cons.IH [of c1] show ?case by (auto intro: unmoved_trans)
qed simp

lemma consider_response_unmoved [simp]: "unmoved c (consider_response a p c') = unmoved c c'"
  by (simp add: consider_response_def Let_def UpdateLeadingCenterInfos_def unmoved_def)

lemma inquire_one_unmoved:
  assumes "inquire_one env s a c = Inr c'"
  shows "unmoved c c'"
proof -
  obtain fd c1 where c1: "connect_center env a c = (fd, c1)" "unmoved c c1"
    using unmoved_effects(3) [of c env a c] by (cases "connect_center env a c") auto
  obtain r c2 where c2: "send_on env fd CENTER2CENTER s False c1 = (r, c2)" "unmoved c1 c2"
    using unmoved_effects(4) [of c1 env fd CENTER2CENTER s False c1]
    by (cases "send_on env fd CENTER2CENTER s False c1") auto
  note c12 = unmoved_trans [OF c1(2) c2(2)]
  have recv: "unmoved c c3" if "receive_on env fd c2 = Inr (code, m, c3)" for code m c3
    by (rule unmoved_trans [OF c12 unmoved_receive [OF that]])
  from assms c1 c12 show ?thesis
    by (auto simp: inquire_one_def c2(1) dest!: recv split: if_splits sum.splits option.splits)
qed

lemma inquire_all_unmoved: "inquire_all env s as c = Inr c' \<Longrightarrow> unmoved c c'"
  by (induction as arbitrary: c) (auto dest!: inquire_one_unmoved intro: unmoved_trans split: sum.splits)

lemma FastLeaderElection_unmoved: "FastLeaderElection env c = Inr (ok, c') \<Longrightarrow> unmoved c c'"
proof -
  assume run: "FastLeaderElection env c = Inr (ok, c')"
  then obtain ok1 c1 where c1: "InquiryCenters env c = Inr (ok1, c1)" "c' = snd (ProposalLeaderElection env c1)"
    by (auto simp: FastLeaderElection_def split: sum.splits)
  have "unmoved c c1"
    using c1(1) by (auto simp: InquiryCenters_def map_sum_def dest: inquire_all_unmoved split: option.splits sum.splits)
  moreover have "unmoved c1 (snd (ProposalLeaderElection env c1))"
  proof -
    let ?c = "IncreaseLogicalClock c1"
    have "unmoved c1 ?c" by (simp add: unmoved_def IncreaseLogicalClock_def)
    then show ?thesis
      using broadcast_unmoved [of ?c env]
      by (auto simp: ProposalLeaderElection_def Let_def BroadcastInfo_def intro: unmoved_trans split: option.splits)
  qed
  ultimately show ?thesis using c1(2) unmoved_trans by blast
qed

subsection \<open>The handlers\<close>

lemma idle_thread:
  "idle c \<Longrightarrow> all_items (\<lambda>m. center_action (snd m) \<in> election_actions) t \<Longrightarrow> idle (c\<lparr>election_thread := Some t\<rparr>)"
  by (simp add: idle_def)

lemma idle_items:
  "idle c \<Longrightarrow> election_thread c = Some t \<Longrightarrow> all_items (\<lambda>m. center_action (snd m) \<in> election_actions) t"
  by (simp add: idle_def)

lemma idle_base:
  "idle c \<Longrightarrow> election_thread c = Some t \<Longrightarrow> idle (c\<lparr>election_thread := Some (t\<lparr>base := b\<rparr>)\<rparr>)"
  using idle_items [of c t] by (auto simp: idle_def all_items_def)

lemma idle_updates [simp]:
  "idle (c\<lparr>fastleader_running := x1\<rparr>) = idle c" "idle (c\<lparr>leader_thread := x2\<rparr>) = idle c"
  "idle (c\<lparr>center_status := x3\<rparr>) = idle c" "idle (c\<lparr>other_centers := x4\<rparr>) = idle c"
  "idle (c\<lparr>lc_start_time := x5, leader_center := x6\<rparr>) = idle c" "idle (c\<lparr>reporter_thread := x7\<rparr>) = idle c"
  "idle (effect e c) = idle c" "idle (close_fd fd c) = idle c"
  by (simp_all add: idle_def effect_def close_fd_def)

lemma idle_send [simp]: "idle (snd (send_on env fd ty s nc c)) = idle c"
  by (simp add: send_on_def Let_def)

lemma idle_sent: "send_on env fd ty s nc c = (r, c') \<Longrightarrow> idle c \<Longrightarrow> idle c'"
  using idle_send [of env fd ty s nc c] by simp

lemma StartFastLeaderElection_idle:
  assumes "idle c" "StartFastLeaderElection env c = Inr (ok, c')"
  shows "idle c'"
proof (cases "IsFastLeaderRunning c")
  case True
  with assms show ?thesis
    by (auto simp: StartFastLeaderElection_def intro: unmoved_idle dest: FastLeaderElection_unmoved)
next
  case False
  with assms obtain et where et: "election_thread c = Some et"
    by (auto simp: StartFastLeaderElection_def split: option.splits)
  have "idle (SetFastLeaderRunning True (c\<lparr>election_thread := Some (et\<lparr>base := b\<rparr>)\<rparr>))" for b
    using idle_base [OF assms(1) et] by (simp add: SetFastLeaderRunning_def)
  with assms et False show ?thesis
    by (auto simp: StartFastLeaderElection_def dest!: FastLeaderElection_unmoved intro: unmoved_idle
        split: prod.splits if_splits)
qed

lemma become_leader_idle:
  assumes "idle c" "become_leader env c = Inr (ok, c')"
  shows "idle c'"
proof -
  have bc: "idle c1 \<Longrightarrow> idle (BroadcastInfo env s c1)" for s c1
    unfolding BroadcastInfo_def by (rule unmoved_idle [OF broadcast_unmoved])
  show ?thesis
    using assms
    by (auto simp: become_leader_def Let_def UpdateCenterStatus_def bc intro: idle_base
        split: option.splits prod.splits if_splits)
qed

lemma UpdateOCStatus_idle:
  assumes "idle c" "UpdateOCStatus env p c = Inr (ok, c')"
  shows "idle c'"
proof -
  have rs: "idle c1" if "record_sender p c = Inr c1" for c1
    using that assms(1) by (auto simp: record_sender_def Let_def split: sum.splits option.splits)
  have cv: "idle (snd (count_vote p c1))" if "idle c1" for c1
    using that by (auto simp: count_vote_def Let_def split: option.splits)
  show ?thesis
  proof (cases "cp_logical_clock p < GetLogicalClock c")
    case True
    with assms show ?thesis by (simp add: UpdateOCStatus_def)
  next
    case False
    with assms(2) obtain c1 where c1: "record_sender p c = Inr c1"
      by (auto simp: UpdateOCStatus_def split: sum.splits)
    obtain v c2 where c2: "count_vote p c1 = (v, c2)" by fastforce
    have i2: "idle c2" using cv [OF rs [OF c1]] c2 by simp
    then have lead: "idle (UpdateLeadingCenterInfos p c2)" "idle (UpdateCenterStatus OBSERVING (UpdateLeadingCenterInfos p c2))"
      by (simp_all add: UpdateLeadingCenterInfos_def UpdateCenterStatus_def)
    from assms(2) False c1 c2 i2 lead show ?thesis
      by (auto simp: UpdateOCStatus_def Let_def dest: become_leader_idle [OF lead(1)] split: if_splits)
  qed
qed

lemma ProcessCenterData_idle:
  assumes "idle c" "center_action p \<in> election_actions" "ProcessCenterData env fd p c = Inr (ok, c')"
  shows "idle c'"
proof (cases "center_action p")
  case INQUIRY
  with assms show ?thesis by (auto simp: ProcessCenterData_def split: option.splits)
next
  case PROPOSAL
  with assms show ?thesis
    by (auto simp: ProcessCenterData_def dest: UpdateOCStatus_idle split: if_splits sum.splits)
next
  case LEADER_CONFIRM
  with assms show ?thesis
    by (auto simp: ProcessCenterData_def process_confirm_def Let_def UpdateCenterStatus_def
        split: if_splits sum.splits option.splits)
qed (use assms in \<open>auto simp: ProcessCenterData_def election_actions_def\<close>)

lemma election_round_idle:
  assumes "idle c" "election_round env c = Inr c'"
  shows "idle c'"
proof -
  from assms(2) obtain et r et' where et: "election_thread c = Some et" "ElectionThread_round et = Inr (r, et')"
    by (auto simp: election_round_def split: option.splits sum.splits)
  note inv = all_items_round [OF idle_items [OF assms(1) et(1)] et(2)]
  have idle': "idle (c\<lparr>election_thread := Some et'\<rparr>)" by (rule idle_thread [OF assms(1)]) (use inv in auto)
  show ?thesis
  proof (cases r)
    case None
    with assms(2) et idle' show ?thesis by (simp add: election_round_def)
  next
    case (Some m)
    with inv have "center_action (snd m) \<in> election_actions" by simp
    with assms(2) et Some show ?thesis
      by (auto simp: election_round_def dest: ProcessCenterData_idle [OF idle'] split: prod.splits sum.splits)
  qed
qed

lemma ProcessCenterRequest_idle:
  assumes "calm env c" "idle c" "ProcessCenterRequest env s fd c = Inr (ok, c')"
  shows "idle c'"
proof (cases "cp_of_string env s")
  case None
  with assms show ?thesis by (simp add: ProcessCenterRequest_def)
next
  case (Some p)
  have st: "GetCenterStatus c \<noteq> LEADING" using assms(1) by (auto simp: calm_def quiet_def GetCenterStatus_def)
  show ?thesis
  proof (cases "center_action p \<in> election_actions")
    case True
    with assms(2,3) Some show ?thesis
      by (auto simp: ProcessCenterRequest_def election_actions_def intro!: idle_thread dest: idle_items
          elim!: all_items_push [rotated] split: option.splits sum.splits)
  next
    case False
    with assms(2,3) Some st show ?thesis
      by (auto simp: ProcessCenterRequest_def election_actions_def dest: idle_sent split: option.splits prod.splits)
  qed
qed

lemma ProcessClientRequest_idle:
  assumes "idle c" "ProcessClientRequest env s fd c = Inr (ok, c')"
  shows "idle c'"
  using assms
  by (auto simp: ProcessClientRequest_def dest: idle_sent split: option.splits sum.splits prod.splits)

lemma ProcessClusterRequest_idle:
  assumes "calm env c" "idle c" "ProcessClusterRequest env s fd c = Inr (ok, c')"
  shows "idle c'"
  using assms by (auto simp: ProcessClusterRequest_def Let_def calm_not_ready)

lemma net_step_idle:
  assumes "\<forall>a\<in>A. calm (envs a) (w a)" "\<forall>a\<in>A. idle (w a)" "net_step A envs w w'"
  shows "\<forall>a\<in>A. idle (w' a)"
proof -
  have upd: "idle c \<Longrightarrow> \<forall>b\<in>A. idle ((w(a := c)) b)" for a c using assms(2) by simp
  show ?thesis
    using assms(3)
    by cases (use assms(1,2) in \<open>auto simp: upd dest: election_round_idle StartFastLeaderElection_idle
        ProcessClientRequest_idle ProcessClusterRequest_idle ProcessCenterRequest_idle\<close>)
qed

lemma idle_init:
  assumes "InitRpcCenter env (Some file) ini_str ini_int cfg (RpcCenter_new env now) = (True, c)"
  shows "idle c"
proof -
  have "all_items P ElectionThread_new" for P
    by (simp add: all_items_def ElectionThread_new_def empty_store_def value_at_def)
  with assms show ?thesis
    by (auto simp: InitRpcCenter_def Let_def idle_def InitBalancer_def SetConfigFile_def
        ConsistentHashLoadBalancer_new_def split: if_splits)
qed

lemma net_reach_idle:
  assumes "net_reach A envs w0 w" "well_named A envs" "same_messages A envs" "initialised A envs w0"
  shows "\<forall>a\<in>A. idle (w a)"
  using assms
proof (induction rule: net_reach.induct)
  case here
  then show ?case by (auto simp: initialised_def dest: idle_init)
next
  case (further w w')
  show ?case
    by (rule net_step_idle [OF net_reach_calm [OF further.hyps(1) further.prems]
          further.IH [OF further.prems] further.hyps(2)])
qed

text \<open>Whatever a client asks, an idle center names no server.\<close>

lemma idle_response:
  assumes "idle c" "client_response cwc c = Inr r"
  shows "cluster_server_list r = []"
proof -
  have def: "cluster_server_list ClientWithCenter_default = []" by (simp add: ClientWithCenter_default_def)
  from assms show ?thesis
    by (cases "client_center_action cwc")
      (auto simp: client_response_def Let_def idle_def servers_for_def GetRpcServer_def def
        split: sum.splits option.splits)
qed

subsection \<open>Properties\<close>

text \<open>C2: Every RPC server is turned away. Whatever state the centers have reached, the center answers a
  registration with the one field \<open>CENTER_NOT_READY\<close> and keeps nothing of the server; the answer is
  parsed to that field, names no center to report to, and when it arrives whole (with any number of
  \<open>EAGAIN\<close>) the server's heartbeat thread returns without having reported to anyone.\<close>

theorem servers_turned_away:
  assumes "net_reach A envs w0 w" "well_named A envs" "same_messages A envs" "initialised A envs w0" "a \<in> A"
    and "wire_format lib" "length (CenterResponseCluster_Serialize lib not_ready_pb) < 511"
    and "crc_to_string (envs a) (CenterResponseCluster_default\<lparr>center_response_action := CENTER_NOT_READY\<rparr>) =
      Some (CenterResponseCluster_Serialize lib not_ready_pb)"
    and "\<forall>s. crc_of_string codec s = parsed CenterResponseCluster_get (CenterResponseCluster_ParseFromString lib s)"
    and "\<forall>n j. sends (envs a) n fd j = int MetaSize"
    and "IniGetString cp ''rpc_center:port'' (Ptr ''8899'') = Ptr port"
  shows "\<exists>r. ProcessClusterRequest (envs a) s fd (w a) = Inr (False,
      effect (Send fd CENTER2CLUSTER (CenterResponseCluster_Serialize lib not_ready_pb) r) (w a)) \<and>
    crc_of_string codec (CenterResponseCluster_Serialize lib not_ready_pb) =
      Some (CenterResponseCluster_default\<lparr>center_response_action := CENTER_NOT_READY\<rparr>) \<and>
    sent r = message_frames (- center_type_code CENTER2CLUSTER) (CenterResponseCluster_Serialize lib not_ready_pb) \<and>
    (filter (\<lambda>e. e \<noteq> Again) (ex_receives ex) = map Got (sent r) \<longrightarrow>
       (\<exists>hb. CenterClusterHeartbeat_Run codec ex first_rand rts file addr cp CenterClusterHeartbeat_new = Inr ([], hb)))"
proof -
  let ?m = "CenterResponseCluster_Serialize lib not_ready_pb"
  have unready: "\<not> CenterIsReady (w a)"
    using net_reach_calm [OF assms(1-4)] assms(5) by (auto dest: calm_not_ready)
  define r where "r = RpcSend (sends (envs a) (length (trace (w a))) fd) (center_type_code CENTER2CLUSTER) ?m False"
  have sends: "sends (envs a) (length (trace (w a))) fd = (\<lambda>_. int MetaSize)" using assms(10) by auto
  have center: "ProcessClusterRequest (envs a) s fd (w a) = Inr (False, effect (Send fd CENTER2CLUSTER ?m r) (w a))"
    using unready by (simp add: ProcessClusterRequest_def assms(8) send_on_def Let_def r_def)
  have nul: "nul_free ?m"
    using wire_format.enum_nul [OF assms(6), of 1 2]
    by (simp add: CenterResponseCluster_Serialize_def not_ready_pb_def CenterResponseCluster_Clear_def int32_def)
  have pos: "0 < length ?m"
    using field_codec_write [OF wire_format.enum_codec [OF assms(6)], of 1 2]
    by (simp add: CenterResponseCluster_Serialize_def not_ready_pb_def int32_def)
  have "CenterResponseCluster_ParseFromString lib ?m = Some (Some not_ready_pb)"
    using assms(7)
    by (intro wire_format.CenterResponseCluster_roundtrip [OF assms(6)])
      (simp_all add: not_ready_pb_def CenterResponseCluster_Clear_def TotalBytesLimit_def)
  then have parse: "crc_of_string codec ?m =
      Some (CenterResponseCluster_default\<lparr>center_response_action := CENTER_NOT_READY\<rparr>)"
    using assms(9) by (simp add: parsed_def pb_get)
  have frames: "sent r = message_frames (- center_type_code CENTER2CLUSTER) ?m"
    unfolding r_def sends using assms(7) by (simp add: RpcSend_ok)
  have run: "\<exists>hb. CenterClusterHeartbeat_Run codec ex first_rand rts file addr cp CenterClusterHeartbeat_new = Inr ([], hb)"
    if ex: "filter (\<lambda>e. e \<noteq> Again) (ex_receives ex) = map Got (sent r)"
  proof -
    have recv: "hb_receive ex True = Inr (102, ?m)"
      by (rule hb_receive_message) (use ex frames pos assms(7) nul in simp_all)
    have "\<exists>ok hb. InitCenterClusterHB codec ex file addr cp CenterClusterHeartbeat_new = Inr (ok, hb) \<and>
        reporter_center_addrs hb = []"
      using assms(11)
      by (auto simp: InitCenterClusterHB_def CenterClusterHeartbeat_new_def Let_def random_at_def recv parse
          CenterResponseCluster_default_def split: option.splits)
    then obtain ok hb where "InitCenterClusterHB codec ex file addr cp CenterClusterHeartbeat_new = Inr (ok, hb)"
      "reporter_center_addrs hb = []" by blast
    then show ?thesis by (simp add: CenterClusterHeartbeat_Run_def Let_def)
  qed
  from center parse frames run show ?thesis by blast
qed

text \<open>One center ''a'' as \<open>InitRpcCenter\<close> leaves it, which parses every request of a client as one for servers.\<close>

definition demo_answer :: ClientWithCenter where
  "demo_answer = ClientWithCenter_default\<lparr>client_center_action := CENTER_RESP_OK\<rparr>"

definition demo_node :: center_env where
  "demo_node =
     center_env.cwc_of_string_update (\<lambda>_ _. Some (cwc_request UPDATE_SERVER_INFO))
       (center_env.cwc_to_string_update (\<lambda>_ p. if p = demo_answer then Some ''m'' else None)
         ((demo_net ''a'')\<lparr>crc_to_string := (\<lambda>_. Some (CenterResponseCluster_Serialize base128 not_ready_pb))\<rparr>))"

definition demo_center :: rpc_center where
  "demo_center = snd (InitRpcCenter demo_node (Some ''b'') (\<lambda>_ d. d) (\<lambda>_ d. d) ''f'' (RpcCenter_new demo_node 7))"

lemma demo_node_hyps:
  "well_named {''a''} (\<lambda>_. demo_node)" "same_messages {''a''} (\<lambda>_. demo_node)"
  "initialised {''a''} (\<lambda>_. demo_node) (\<lambda>_. demo_center)"
proof -
  show "well_named {''a''} (\<lambda>_. demo_node)" "same_messages {''a''} (\<lambda>_. demo_node)"
    by (auto simp: well_named_def same_messages_def demo_node_def demo_net_def demo_env_def split: if_splits)
  have "InitRpcCenter demo_node (Some ''b'') (\<lambda>_ d. d) (\<lambda>_ d. d) ''f'' (RpcCenter_new demo_node 7) = (True, demo_center)"
    by (simp add: demo_center_def InitRpcCenter_def Let_def)
  then show "initialised {''a''} (\<lambda>_. demo_node) (\<lambda>_. demo_center)" unfolding initialised_def by blast
qed

lemma demo_lengths: "length (CenterResponseCluster_Serialize base128 not_ready_pb) < 511"
  by code_simp

definition protobuf_cluster_codec :: cluster_codec where
  "protobuf_cluster_codec = \<lparr>rcs_to_string = (\<lambda>_. Some ''q''),
     crc_of_string = (\<lambda>s. parsed CenterResponseCluster_get (CenterResponseCluster_ParseFromString base128 s))\<rparr>"

text \<open>An exchange in which the answer arrives after one \<open>EAGAIN\<close>.\<close>

definition turned_away_exchange :: exchange where
  "turned_away_exchange = (demo_exchange 5)\<lparr>ex_receives :=
     Again # map Got (message_frames (- 102) (CenterResponseCluster_Serialize base128 not_ready_pb))\<rparr>"

theorem servers_turned_away_witness:
  "\<exists>r hb. ProcessClusterRequest demo_node ''q'' 4 demo_center =
      Inr (False, effect (Send 4 CENTER2CLUSTER (CenterResponseCluster_Serialize base128 not_ready_pb) r) demo_center) \<and>
    filter (\<lambda>e. e \<noteq> Again) (ex_receives turned_away_exchange) = map Got (sent r) \<and>
    CenterClusterHeartbeat_Run protobuf_cluster_codec turned_away_exchange 0 [] (Some ''a'') ''me'' no_config
      CenterClusterHeartbeat_new = Inr ([], hb)"
proof -
  have "filter (\<lambda>e. e \<noteq> Again) (ex_receives turned_away_exchange) = map Got (message_frames (- center_type_code CENTER2CLUSTER)
      (CenterResponseCluster_Serialize base128 not_ready_pb))"
    by (simp add: turned_away_exchange_def)
  moreover have "\<exists>r. ProcessClusterRequest demo_node ''q'' 4 demo_center =
      Inr (False, effect (Send 4 CENTER2CLUSTER (CenterResponseCluster_Serialize base128 not_ready_pb) r) demo_center) \<and>
    crc_of_string protobuf_cluster_codec (CenterResponseCluster_Serialize base128 not_ready_pb) =
      Some (CenterResponseCluster_default\<lparr>center_response_action := CENTER_NOT_READY\<rparr>) \<and>
    sent r = message_frames (- center_type_code CENTER2CLUSTER) (CenterResponseCluster_Serialize base128 not_ready_pb) \<and>
    (filter (\<lambda>e. e \<noteq> Again) (ex_receives turned_away_exchange) = map Got (sent r) \<longrightarrow>
       (\<exists>hb. CenterClusterHeartbeat_Run protobuf_cluster_codec turned_away_exchange 0 [] (Some ''a'') ''me'' no_config
          CenterClusterHeartbeat_new = Inr ([], hb)))"
    by (rule servers_turned_away [where w = "\<lambda>_. demo_center" and envs = "\<lambda>_. demo_node" and a = "''a''",
          OF here demo_node_hyps _ base128_wire_format demo_lengths])
      (simp_all add: demo_node_def demo_net_def demo_env_def protobuf_cluster_codec_def no_config_def IniGetString_def
        iniparser_getstring_def)
  ultimately show ?thesis by auto
qed

text \<open>The answers clients are sent: what a center sends while it processes a request, in any state the
  centers can reach.\<close>

inductive center_answer ::
  "string set \<Rightarrow> (string \<Rightarrow> center_env) \<Rightarrow> (string \<Rightarrow> rpc_center) \<Rightarrow> string \<Rightarrow> bool"
  for A envs w0 where
  answered: "net_reach A envs w0 w \<Longrightarrow> a \<in> A \<Longrightarrow> ProcessClientRequest (envs a) q fd (w a) = Inr (ok, c) \<Longrightarrow>
    Send fd CENTER2CLIENT s r \<in> set (trace c) \<Longrightarrow> Send fd CENTER2CLIENT s r \<notin> set (trace (w a)) \<Longrightarrow>
    center_answer A envs w0 s"

lemma center_answer_no_server:
  assumes "center_answer A envs w0 s" "well_named A envs" "same_messages A envs" "initialised A envs w0"
  obtains a p where "a \<in> A" "center_env.cwc_to_string (envs a) p = Some s" "cluster_server_list p = []"
  using assms(1)
proof cases
  case (answered w a q fd ok c r)
  have idle: "idle (w a)" using net_reach_idle [OF answered(1) assms(2-4)] answered(2) by blast
  obtain cwc resp where resp: "client_response cwc (w a) = Inr resp"
    "center_env.cwc_to_string (envs a) (resp\<lparr>client_center_action := CENTER_RESP_OK\<rparr>) = Some s"
    using answered(3-5)
    by (auto simp: ProcessClientRequest_def send_on_def Let_def effect_def close_fd_def
        split: option.splits sum.splits prod.splits)
  show thesis
    by (rule that [OF answered(2) resp(2)]) (use idle_response [OF idle resp(1)] in simp)
qed

text \<open>C3: No client ever finds a server in the distributed mode. Suppose the client's first receive and
  those of all later turns, whether they succeed or fail, leave it a beginning (the whole, a part, or
  nothing) of an answer some center sent in some state the centers reached, and that the beginning of
  a serialised message parses, if at all, to no server that is not in the message. Then the client's
  list is empty after any number of turns of the heartbeat thread, and every call through a channel of the
  distributed mode divides by zero.\<close>

theorem distributed_calls_divide_by_zero:
  assumes "well_named A envs" "same_messages A envs" "initialised A envs w0"
    and "\<forall>a p s k q. a \<in> A \<longrightarrow> center_env.cwc_to_string (envs a) p = Some s \<longrightarrow>
      client_codec.cwc_of_string codec (take k s) = Some q \<longrightarrow> set (cluster_server_list q) \<subseteq> set (cluster_server_list p)"
    and "\<forall>x \<in> set (ex # exs). \<forall>nc code m. hb_receive x nc = Inr (code, m) \<longrightarrow>
      (\<exists>s k. center_answer A envs w0 s \<and> m = take k s)"
    and "CenterClientHeartbeat_Run codec ex exs file addr cp CenterClientHeartbeat_new = Inr hb"
    and "center_client_heartbeat ch = HbSet" "heartbeat env = hb"
  shows "GetRpcServerList hb = [] \<and> CallMethod env fuel params ctl ch = Inl DivByZero"
proof -
  have parse: "cluster_server_list q = []"
    if x: "x \<in> set (ex # exs)" "hb_receive x nc = Inr (code, m)" and q: "client_codec.cwc_of_string codec m = Some q"
    for x nc code m q
  proof -
    obtain s k where s: "center_answer A envs w0 s" "m = take k s" using assms(5) x by blast
    obtain a p where "a \<in> A" "center_env.cwc_to_string (envs a) p = Some s" "cluster_server_list p = []"
      by (rule center_answer_no_server [OF s(1) assms(1-3)])
    with assms(4) s(2) q have "set (cluster_server_list q) \<subseteq> set []" by metis
    then show ?thesis by simp
  qed
  have init: "cluster_server_addrs_list hb1 = []"
    if "InitCenterClientHB codec ex file addr cp CenterClientHeartbeat_new = Inr (ok1, hb1)" for ok1 hb1
    using that parse [of ex]
    by (auto simp: InitCenterClientHB_def CenterClientHeartbeat_new_def Let_def store_first_answer_def
        split: option.splits cptr.splits sum.splits if_splits)
  have "cluster_server_addrs_list hb = []"
    using assms(6) init client_turns_no_server [where exs = exs and codec = codec] parse
    by (fastforce simp: CenterClientHeartbeat_Run_def split: sum.splits if_splits)
  then show ?thesis
    using assms(7,8) by (simp add: GetRpcServerList_def CallMethod_def RandomGetRpcServerAddr_def random_at_def)
qed

definition demo_answer_codec :: client_codec where
  "demo_answer_codec = \<lparr>cwc_to_string = (\<lambda>_. Some ''q''),
     cwc_of_string = (\<lambda>s. if s = ''m'' then Some demo_answer else if s = [] then Some ClientWithCenter_default else None)\<rparr>"

definition answer_exchange :: exchange where
  "answer_exchange = (demo_exchange 5)\<lparr>ex_receives := map Got (message_frames (- 101) ''m'')\<rparr>"

definition reset_exchange :: exchange where
  "reset_exchange = (demo_exchange 5)\<lparr>ex_receives := [Again, RecvFail]\<rparr>"

definition distributed_call :: "CenterClientHeartbeat \<Rightarrow> string call_env" where
  "distributed_call hb = \<lparr>tcp = (\<lambda>_. 5), draw = demo_exchange 5, heartbeat = hb, call_sends = (\<lambda>_. 516),
     call_receives = [], request_str = Some ''x'', has_response = True, parse_response = Some\<rparr>"

theorem distributed_calls_divide_by_zero_witness:
  "\<exists>ok c r hb. ProcessClientRequest demo_node ''q'' 4 demo_center = Inr (ok, c) \<and>
    Send 4 CENTER2CLIENT ''m'' r \<in> set (trace c) \<and>
    CenterClientHeartbeat_Run demo_answer_codec answer_exchange [reset_exchange] (Some ''c'') ''me'' no_config
      CenterClientHeartbeat_new = Inr hb \<and> hb \<noteq> CenterClientHeartbeat_new \<and>
    CallMethod (distributed_call hb) 1 \<lparr>method_full_name = ''S.m'', method_client_name = ''m''\<rparr> None
      (Channel_distributed ''9998'' 0) = Inl DivByZero"
proof -
  have init: "InitRpcCenter demo_node (Some ''b'') (\<lambda>_ d. d) (\<lambda>_ d. d) ''f'' (RpcCenter_new demo_node 7) = (True, demo_center)"
    by (simp add: demo_center_def InitRpcCenter_def Let_def)
  obtain lb where lb: "load_balancer demo_center = Some lb" "vn_map lb = []"
    using idle_init [OF init] by (auto simp: idle_def)
  have env: "center_env.cwc_of_string demo_node s = Some (cwc_request UPDATE_SERVER_INFO)"
    "center_env.cwc_to_string demo_node p = (if p = demo_answer then Some ''m'' else None)" for s p
    by (simp_all add: demo_node_def)
  have resp: "client_response (cwc_request UPDATE_SERVER_INFO) demo_center = Inr ClientWithCenter_default"
    by (simp add: client_response_def cwc_request_def lb servers_for_def GetRpcServer_def ClientWithCenter_default_def)
  obtain r c0 where send: "send_on demo_node 4 CENTER2CLIENT ''m'' True demo_center = (r, c0)"
    "\<exists>r. trace c0 = trace demo_center @ [Send 4 CENTER2CLIENT ''m'' r]"
    by (simp add: send_on_def effect_def Let_def)
  then obtain sr where tr: "trace c0 = trace demo_center @ [Send 4 CENTER2CLIENT ''m'' sr]" by blast
  have proc: "ProcessClientRequest demo_node ''q'' 4 demo_center = Inr (\<not> r < 0, c0)"
    using env(2) [of demo_answer]
    by (simp add: ProcessClientRequest_def env(1) resp send(1) demo_answer_def)
  have old: "Send 4 CENTER2CLIENT ''m'' sr \<notin> set (trace demo_center)"
  proof -
    have line: "trace (add_center_line l x c) = trace c" for l x c
      by (simp add: add_center_line_def RegistNewCenter_def)
    then have "trace (fold (add_center_line l) ls c) = trace c" for l ls c
      by (induction ls arbitrary: c) simp_all
    with line show ?thesis
      by (simp add: demo_center_def InitRpcCenter_def Let_def effect_def RpcCenter_new_def)
  qed
  have recv: "hb_receive answer_exchange nc = Inr (101, ''m'')" "hb_receive reset_exchange nc = Inr (ERROR_RECV, [])" for nc
    using hb_receive_message [of answer_exchange 101 "''m''" nc]
    by (simp_all add: answer_exchange_def nul_free_def hb_receive_def reset_exchange_def RpcRecv_def)
  have "ex_rand answer_exchange = 0" "ex_connect answer_exchange a = 5" "ex_sends answer_exchange = (\<lambda>_. 516)"
    "ex_rand reset_exchange = 0" "ex_connect reset_exchange a = 5" "ex_sends reset_exchange = (\<lambda>_. 516)" for a
    by (simp_all add: answer_exchange_def reset_exchange_def)
  then obtain hb where run: "CenterClientHeartbeat_Run demo_answer_codec answer_exchange [reset_exchange] (Some ''c'') ''me'' no_config
      CenterClientHeartbeat_new = Inr hb" "hb \<noteq> CenterClientHeartbeat_new"
    using recv
    by (simp add: CenterClientHeartbeat_Run_def InitCenterClientHB_def CenterClientHeartbeat_new_def other_lines_def
        one_line c_str_def demo_answer_codec_def demo_answer_def ClientWithCenter_default_def store_first_answer_def Let_def random_at_def
        client_turn_def refresh_lists_def UpdateServerAddrs_def UpdateCenterAddrs_def del: getlines.simps)
  have answer: "center_answer {''a''} (\<lambda>_. demo_node) (\<lambda>_. demo_center) ''m''"
    by (rule answered [OF here _ proc _ old]) (simp_all add: tr)
  have "\<exists>s k. center_answer {''a''} (\<lambda>_. demo_node) (\<lambda>_. demo_center) s \<and> ''m'' = take k s"
    by (rule exI [of _ "''m''"], rule exI [of _ 1]) (simp add: answer)
  moreover have "\<exists>s k. center_answer {''a''} (\<lambda>_. demo_node) (\<lambda>_. demo_center) s \<and> [] = take k s"
    by (rule exI [of _ "''m''"], rule exI [of _ 0]) (simp add: answer)
  ultimately have "\<forall>x \<in> set [answer_exchange, reset_exchange]. \<forall>nc code m. hb_receive x nc = Inr (code, m) \<longrightarrow>
      (\<exists>s k. center_answer {''a''} (\<lambda>_. demo_node) (\<lambda>_. demo_center) s \<and> m = take k s)"
    by (simp add: recv)
  moreover have "\<forall>a p s k q. a \<in> {''a''} \<longrightarrow> center_env.cwc_to_string demo_node p = Some s \<longrightarrow>
      client_codec.cwc_of_string demo_answer_codec (take k s) = Some q \<longrightarrow> set (cluster_server_list q) \<subseteq> set (cluster_server_list p)"
    by (auto simp: env demo_answer_codec_def demo_answer_def ClientWithCenter_default_def split: if_splits)
  ultimately have "CallMethod (distributed_call hb) 1 \<lparr>method_full_name = ''S.m'', method_client_name = ''m''\<rparr> None
      (Channel_distributed ''9998'' 0) = Inl DivByZero"
    using distributed_calls_divide_by_zero [where A = "{''a''}" and ?w0.0 = "\<lambda>_. demo_center" and envs = "\<lambda>_. demo_node"
        and hb = hb and env = "distributed_call hb" and ch = "Channel_distributed ''9998'' 0",
        OF demo_node_hyps _ _ run(1)]
    by (simp add: Channel_distributed_def Channel_new_def distributed_call_def)
  with proc tr run show ?thesis by (intro exI [of _ "\<not> r < 0"] exI [of _ c0] exI [of _ sr] exI [of _ hb]) simp
qed

end
