(* ===== verification/Locks.thy ===== *)
theory Locks
  imports Main
begin

section \<open>Locks (util/pthread\_mutex.h, util/pthread\_rwlock.h)\<close>

text \<open>
  The wrappers of a mutex and of a read-write lock and their three scope guards. A lock is the
  POSIX object: who holds it. The constructor of a guard makes attempts, one step each: it waits or spins
  while the lock is busy, and it ends with \<open>lock_success_\<close> false on any other error; the destructor
  always unlocks. Threads take guards in any interleaving. The lemmas are those of the locale
  \<open>guarded\<close>, proved once for both kinds of lock.
\<close>

subsection \<open>POSIX locks\<close>

text \<open>
  The error an attempt returns is the environment's choice, 0 for none. A thread has one guard of a lock
  at a time, so the readers are a set. Unlocking a lock one does not hold is undefined: \<open>None\<close>.
\<close>

abbreviation EBUSY :: int where "EBUSY \<equiv> 16"

type_synonym tid = nat

record pthread_mutex =
  owner :: "tid option"

record pthread_rwlock =
  writer :: "tid option"
  readers :: "tid set"

text \<open>The return code of the call and the lock after it; \<open>None\<close> while the caller waits.\<close>

definition pthread_mutex_lock :: "int \<Rightarrow> tid \<Rightarrow> pthread_mutex \<Rightarrow> (int \<times> pthread_mutex) option" where
  "pthread_mutex_lock err t m =
     (if err \<noteq> 0 then Some (err, m)
      else case owner m of None \<Rightarrow> Some (0, m\<lparr>owner := Some t\<rparr>) | Some _ \<Rightarrow> None)"

definition pthread_mutex_trylock :: "int \<Rightarrow> tid \<Rightarrow> pthread_mutex \<Rightarrow> int \<times> pthread_mutex" where
  "pthread_mutex_trylock err t m =
     (if err \<noteq> 0 then (err, m)
      else case owner m of None \<Rightarrow> (0, m\<lparr>owner := Some t\<rparr>) | Some _ \<Rightarrow> (EBUSY, m))"

definition pthread_mutex_unlock :: "tid \<Rightarrow> pthread_mutex \<Rightarrow> pthread_mutex option" where
  "pthread_mutex_unlock t m = (if owner m = Some t then Some (m\<lparr>owner := None\<rparr>) else None)"

definition rd_free :: "pthread_rwlock \<Rightarrow> bool" where
  "rd_free l \<longleftrightarrow> writer l = None"

definition wr_free :: "pthread_rwlock \<Rightarrow> bool" where
  "wr_free l \<longleftrightarrow> writer l = None \<and> readers l = {}"

definition pthread_rwlock_rdlock :: "int \<Rightarrow> tid \<Rightarrow> pthread_rwlock \<Rightarrow> (int \<times> pthread_rwlock) option" where
  "pthread_rwlock_rdlock err t l =
     (if err \<noteq> 0 then Some (err, l)
      else if rd_free l then Some (0, l\<lparr>readers := insert t (readers l)\<rparr>) else None)"

definition pthread_rwlock_tryrdlock :: "int \<Rightarrow> tid \<Rightarrow> pthread_rwlock \<Rightarrow> int \<times> pthread_rwlock" where
  "pthread_rwlock_tryrdlock err t l =
     (if err \<noteq> 0 then (err, l)
      else if rd_free l then (0, l\<lparr>readers := insert t (readers l)\<rparr>) else (EBUSY, l))"

definition pthread_rwlock_wrlock :: "int \<Rightarrow> tid \<Rightarrow> pthread_rwlock \<Rightarrow> (int \<times> pthread_rwlock) option" where
  "pthread_rwlock_wrlock err t l =
     (if err \<noteq> 0 then Some (err, l) else if wr_free l then Some (0, l\<lparr>writer := Some t\<rparr>) else None)"

definition pthread_rwlock_trywrlock :: "int \<Rightarrow> tid \<Rightarrow> pthread_rwlock \<Rightarrow> int \<times> pthread_rwlock" where
  "pthread_rwlock_trywrlock err t l =
     (if err \<noteq> 0 then (err, l) else if wr_free l then (0, l\<lparr>writer := Some t\<rparr>) else (EBUSY, l))"

definition pthread_rwlock_unlock :: "tid \<Rightarrow> pthread_rwlock \<Rightarrow> pthread_rwlock option" where
  "pthread_rwlock_unlock t l =
     (if writer l = Some t then Some (l\<lparr>writer := None\<rparr>)
      else if t \<in> readers l then Some (l\<lparr>readers := readers l - {t}\<rparr>) else None)"

subsection \<open>Mutex and RWLock\<close>

text \<open>Constructor, destructor and \<open>IsSuccess\<close>. A failed \<open>init\<close> or \<open>destroy\<close> is only printed.\<close>

record Mutex =
  create_success :: bool
  mutex_obj :: pthread_mutex

definition Mutex_new :: "int \<Rightarrow> Mutex" where
  "Mutex_new init_ret = \<lparr>create_success = (0 = init_ret), mutex_obj = \<lparr>owner = None\<rparr>\<rparr>"

definition Mutex_IsSuccess :: "Mutex \<Rightarrow> bool" where
  "Mutex_IsSuccess m = create_success m"

definition MMutex :: "Mutex \<Rightarrow> pthread_mutex" where
  "MMutex m = mutex_obj m"

text \<open>\<open>pthread_mutex_destroy\<close> of a mutex somebody holds fails with \<open>EBUSY\<close>: whether a line is printed.\<close>

definition Mutex_delete :: "Mutex \<Rightarrow> bool" where
  "Mutex_delete m = (let ret = (if owner (mutex_obj m) = None then 0 else EBUSY) in 0 \<noteq> ret)"

record RWLock =
  rw_create_success :: bool
  rwlock_obj :: pthread_rwlock

definition RWLock_new :: "int \<Rightarrow> RWLock" where
  "RWLock_new init_ret =
     \<lparr>rw_create_success = (0 = init_ret), rwlock_obj = \<lparr>writer = None, readers = {}\<rparr>\<rparr>"

definition RWLock_IsSuccess :: "RWLock \<Rightarrow> bool" where
  "RWLock_IsSuccess l = rw_create_success l"

definition MLock :: "RWLock \<Rightarrow> pthread_rwlock" where
  "MLock l = rwlock_obj l"

definition RWLock_delete :: "RWLock \<Rightarrow> bool" where
  "RWLock_delete l = (let ret = (if wr_free (rwlock_obj l) then 0 else EBUSY) in 0 \<noteq> ret)"

subsection \<open>The guards\<close>

text \<open>
  One attempt of a constructor: it waits in the call, it goes round its loop once more, or it ends with
  a value of \<open>lock_success_\<close>.
\<close>

datatype 'l attempt = Waits | Spins | Entered bool 'l

definition MutexLockGuard_attempt :: "bool \<Rightarrow> int \<Rightarrow> tid \<Rightarrow> pthread_mutex \<Rightarrow> pthread_mutex attempt" where
  "MutexLockGuard_attempt trylock err t m =
     (if False = trylock then
        (case pthread_mutex_lock err t m of
           None \<Rightarrow> Waits
         | Some (ret, m) \<Rightarrow> Entered (0 = ret) m)
      else
        (case pthread_mutex_trylock err t m of (ret, m) \<Rightarrow>
           if ret = EBUSY then Spins else Entered (0 = ret) m))"

definition MutexLockGuard_delete :: "tid \<Rightarrow> pthread_mutex \<Rightarrow> pthread_mutex option" where
  "MutexLockGuard_delete t m = pthread_mutex_unlock t m"

definition ReadLockGuard_attempt :: "bool \<Rightarrow> int \<Rightarrow> tid \<Rightarrow> pthread_rwlock \<Rightarrow> pthread_rwlock attempt" where
  "ReadLockGuard_attempt trylock err t l =
     (if False = trylock then
        (case pthread_rwlock_rdlock err t l of
           None \<Rightarrow> Waits
         | Some (ret, l) \<Rightarrow> Entered (0 = ret) l)
      else
        (case pthread_rwlock_tryrdlock err t l of (ret, l) \<Rightarrow>
           if ret = EBUSY then Spins else Entered (0 = ret) l))"

definition ReadLockGuard_delete :: "tid \<Rightarrow> pthread_rwlock \<Rightarrow> pthread_rwlock option" where
  "ReadLockGuard_delete t l = pthread_rwlock_unlock t l"

definition WriteLockGuard_attempt :: "bool \<Rightarrow> int \<Rightarrow> tid \<Rightarrow> pthread_rwlock \<Rightarrow> pthread_rwlock attempt" where
  "WriteLockGuard_attempt trylock err t l =
     (if False = trylock then
        (case pthread_rwlock_wrlock err t l of
           None \<Rightarrow> Waits
         | Some (ret, l) \<Rightarrow> Entered (0 = ret) l)
      else
        (case pthread_rwlock_trywrlock err t l of (ret, l) \<Rightarrow>
           if ret = EBUSY then Spins else Entered (0 = ret) l))"

definition WriteLockGuard_delete :: "tid \<Rightarrow> pthread_rwlock \<Rightarrow> pthread_rwlock option" where
  "WriteLockGuard_delete t l = pthread_rwlock_unlock t l"

text \<open>The two classes of guards of a read-write lock together, and the one of a mutex.\<close>

datatype rw_class = ReadLockGuard | WriteLockGuard

definition rw_attempt :: "rw_class \<Rightarrow> bool \<Rightarrow> int \<Rightarrow> tid \<Rightarrow> pthread_rwlock \<Rightarrow> pthread_rwlock attempt" where
  "rw_attempt g = (case g of ReadLockGuard \<Rightarrow> ReadLockGuard_attempt | WriteLockGuard \<Rightarrow> WriteLockGuard_attempt)"

definition rw_delete :: "rw_class \<Rightarrow> tid \<Rightarrow> pthread_rwlock \<Rightarrow> pthread_rwlock option" where
  "rw_delete g = (case g of ReadLockGuard \<Rightarrow> ReadLockGuard_delete | WriteLockGuard \<Rightarrow> WriteLockGuard_delete)"

definition mutex_attempt :: "unit \<Rightarrow> bool \<Rightarrow> int \<Rightarrow> tid \<Rightarrow> pthread_mutex \<Rightarrow> pthread_mutex attempt" where
  "mutex_attempt g = MutexLockGuard_attempt"

definition mutex_delete :: "unit \<Rightarrow> tid \<Rightarrow> pthread_mutex \<Rightarrow> pthread_mutex option" where
  "mutex_delete g = MutexLockGuard_delete"

subsection \<open>Threads\<close>

text \<open>
  A thread is outside, in the constructor of a guard (of a class, with or without \<open>trylock\<close>), or in
  the scope of a guard that has ended its constructor with some \<open>lock_success_\<close>. The errors that
  may occur are the set \<open>errs\<close>.
\<close>

datatype 'g phase = Outside | Trying 'g bool | Inside 'g bool

inductive guard_step ::
  "('g \<Rightarrow> bool \<Rightarrow> int \<Rightarrow> tid \<Rightarrow> 'l \<Rightarrow> 'l attempt) \<Rightarrow> ('g \<Rightarrow> tid \<Rightarrow> 'l \<Rightarrow> 'l option) \<Rightarrow> int set \<Rightarrow>
   'l \<times> (tid \<Rightarrow> 'g phase) \<Rightarrow> 'l \<times> (tid \<Rightarrow> 'g phase) \<Rightarrow> bool"
  for attempt delete errs where
  construct: "ph t = Outside \<Longrightarrow> guard_step attempt delete errs (l, ph) (l, ph(t := Trying g trylock))"
| enter: "ph t = Trying g trylock \<Longrightarrow> err \<in> errs \<Longrightarrow> attempt g trylock err t l = Entered ok l' \<Longrightarrow>
    guard_step attempt delete errs (l, ph) (l', ph(t := Inside g ok))"
| leave: "ph t = Inside g ok \<Longrightarrow> delete g t l = Some l' \<Longrightarrow>
    guard_step attempt delete errs (l, ph) (l', ph(t := Outside))"

inductive guard_reach ::
  "('g \<Rightarrow> bool \<Rightarrow> int \<Rightarrow> tid \<Rightarrow> 'l \<Rightarrow> 'l attempt) \<Rightarrow> ('g \<Rightarrow> tid \<Rightarrow> 'l \<Rightarrow> 'l option) \<Rightarrow> int set \<Rightarrow> 'l \<Rightarrow>
   'l \<times> (tid \<Rightarrow> 'g phase) \<Rightarrow> bool"
  for attempt delete errs l0 where
  start: "guard_reach attempt delete errs l0 (l0, \<lambda>_. Outside)"
| step: "guard_reach attempt delete errs l0 s \<Longrightarrow> guard_step attempt delete errs s s' \<Longrightarrow>
    guard_reach attempt delete errs l0 s'"

inductive_cases guard_stepE: "guard_step attempt delete errs (l, ph) s'"

lemmas guard_step_cases = guard_stepE [consumes 1, case_names construct enter leave]

subsection \<open>What a lock promises its guards\<close>

locale guarded =
  fixes attempt :: "'g \<Rightarrow> bool \<Rightarrow> int \<Rightarrow> tid \<Rightarrow> 'l \<Rightarrow> 'l attempt"
    and delete :: "'g \<Rightarrow> tid \<Rightarrow> 'l \<Rightarrow> 'l option"
    and holds :: "'l \<Rightarrow> tid \<Rightarrow> 'g option"
    and conflict :: "'g \<Rightarrow> 'g \<Rightarrow> bool"
    and wf :: "'l \<Rightarrow> bool"
    and l0 :: 'l
  assumes fresh: "wf l0 \<and> holds l0 t = None"
    and conflict_sym: "conflict g g' \<longleftrightarrow> conflict g' g"
    and grants: "attempt g b 0 t l = Entered ok l' \<Longrightarrow> wf l \<Longrightarrow> holds l t = None \<Longrightarrow>
          ok \<and> wf l' \<and> holds l' = (holds l)(t \<mapsto> g) \<and> (\<forall>t' g'. holds l t' = Some g' \<longrightarrow> \<not> conflict g g')"
    and fails: "err \<noteq> 0 \<Longrightarrow> attempt g b err t l = Entered ok l' \<Longrightarrow> \<not> ok \<and> l' = l"
    and free: "\<forall>t'. holds l t' = None \<Longrightarrow> \<exists>l'. attempt g b 0 t l = Entered True l'"
    and gives_back: "wf l \<Longrightarrow> holds l t = Some g \<Longrightarrow> \<exists>l'. delete g' t l = Some l' \<and> wf l' \<and> holds l' = (holds l)(t := None)"
    and undefined_unlock: "holds l t = None \<Longrightarrow> delete g t l = None"
begin

text \<open>Whatever errors occur, who holds the lock is who has a guard that succeeded.\<close>

lemma reach_holds:
  "guard_reach attempt delete errs l0 s \<Longrightarrow> wf (fst s) \<and>
   (\<forall>t. holds (fst s) t = (case snd s t of Inside g True \<Rightarrow> Some g | _ \<Rightarrow> None)) \<and>
   (\<forall>t t' g g'. t \<noteq> t' \<longrightarrow> holds (fst s) t = Some g \<longrightarrow> holds (fst s) t' = Some g' \<longrightarrow> \<not> conflict g g')"
proof (induction rule: guard_reach.induct)
  case start
  then show ?case by (simp add: fresh)
next
  case (step s s')
  obtain l ph where s: "s = (l, ph)" by (cases s)
  have wf: "wf l" using step.IH unfolding s by simp
  have h: "holds l t = (case ph t of Inside g True \<Rightarrow> Some g | _ \<Rightarrow> None)" for t
    using step.IH unfolding s by auto
  have x: "t \<noteq> t' \<Longrightarrow> holds l t = Some g \<Longrightarrow> holds l t' = Some g' \<Longrightarrow> \<not> conflict g g'" for t t' g g'
    using step.IH unfolding s by auto
  from step.hyps(2) [unfolded s] show ?case
  proof (cases rule: guard_step_cases)
    case (construct t g b)
    have "holds l t = None" using h [of t] construct by simp
    with construct h x wf show ?thesis by auto
  next
    case (enter t g b err ok l')
    have out: "holds l t = None" using h [of t] enter(2) by simp
    show ?thesis
    proof (cases "err = 0")
      case True
      with grants [of g b t l ok l'] enter(4) out wf
      have g: "ok" "wf l'" "holds l' = (holds l)(t \<mapsto> g)" "\<And>t' g'. holds l t' = Some g' \<Longrightarrow> \<not> conflict g g'" by auto
      with enter(1) h x conflict_sym show ?thesis by (auto split: if_splits)
    next
      case False
      with fails [of err g b t l ok l'] enter(4) have "\<not> ok" "l' = l" by auto
      with enter(1) h x out wf show ?thesis by auto
    qed
  next
    case (leave t g ok l')
    then obtain g' where held: "holds l t = Some g'" using undefined_unlock by (cases "holds l t") auto
    with gives_back [OF wf held, of g] leave have "wf l'" "holds l' = (holds l)(t := None)" by auto
    with leave(1) h x show ?thesis by (auto split: if_splits)
  qed
qed

text \<open>Without errors every guard succeeds, guards in scope never conflict, and every destructor may unlock.\<close>

lemma no_error_success:
  "guard_reach attempt delete {0} l0 s \<Longrightarrow> snd s t = Inside g ok \<Longrightarrow> ok"
proof (induction arbitrary: t g ok rule: guard_reach.induct)
  case (step s s')
  obtain l ph where s: "s = (l, ph)" by (cases s)
  have out: "wf l" "ph t' = Trying g' b \<Longrightarrow> holds l t' = None" for t' g' b
    using reach_holds [OF step.hyps(1)] s by auto
  have ih: "ph t' = Inside g' ok' \<Longrightarrow> ok'" for t' g' ok' using step.IH s by simp
  from step.hyps(2) [unfolded s] show ?case
  proof (cases rule: guard_step_cases)
    case (enter t' g' b err ok' l')
    with grants [of g' b t' l ok' l'] out(1) out(2) [of t' g' b] have "ok'" by auto
    with enter(1) step.prems ih show ?thesis by (auto split: if_splits)
  qed (use step.prems ih in \<open>auto split: if_splits\<close>)
qed simp

lemma exclusion:
  assumes "guard_reach attempt delete {0} l0 s" "snd s t = Inside g ok" "snd s t' = Inside g' ok'" "t \<noteq> t'"
  shows "\<not> conflict g g'"
proof -
  from no_error_success [OF assms(1,2)] no_error_success [OF assms(1,3)] have "ok" "ok'" .
  with assms(2,3) reach_holds [OF assms(1)] have "holds (fst s) t = Some g" "holds (fst s) t' = Some g'" by auto
  with reach_holds [OF assms(1)] assms(4) show ?thesis by blast
qed

lemma destructor_defined:
  assumes "guard_reach attempt delete errs l0 s" "snd s t = Inside g ok"
  shows "delete g t (fst s) \<noteq> None \<longleftrightarrow> ok"
proof -
  have "wf (fst s)" "holds (fst s) t = (if ok then Some g else None)" using reach_holds [OF assms(1)] assms(2) by auto
  then show ?thesis using gives_back [of "fst s" t g g] undefined_unlock [of "fst s" t g] by (cases ok) auto
qed

text \<open>When nobody is in a scope, any constructor can end.\<close>

lemma progress:
  assumes "guard_reach attempt delete errs l0 s" "\<forall>t'. \<nexists>g ok. snd s t' = Inside g ok"
  shows "\<exists>l'. attempt g b 0 t (fst s) = Entered True l'"
proof (rule free, rule allI)
  fix t'
  from assms(2) have "snd s t' = Outside \<or> (\<exists>g b. snd s t' = Trying g b)" by (cases "snd s t'") auto
  then show "holds (fst s) t' = None" using reach_holds [OF assms(1)] by auto
qed

end

subsection \<open>The two locks keep the promise\<close>

definition mutex_holds :: "pthread_mutex \<Rightarrow> tid \<Rightarrow> unit option" where
  "mutex_holds m t = (if owner m = Some t then Some () else None)"

definition rw_holds :: "pthread_rwlock \<Rightarrow> tid \<Rightarrow> rw_class option" where
  "rw_holds l t =
     (if writer l = Some t then Some WriteLockGuard else if t \<in> readers l then Some ReadLockGuard else None)"

definition rw_wf :: "pthread_rwlock \<Rightarrow> bool" where
  "rw_wf l \<longleftrightarrow> writer l = None \<or> readers l = {}"

definition rw_conflict :: "rw_class \<Rightarrow> rw_class \<Rightarrow> bool" where
  "rw_conflict g g' \<longleftrightarrow> g = WriteLockGuard \<or> g' = WriteLockGuard"

lemmas mutex_defs = mutex_attempt_def mutex_delete_def MutexLockGuard_attempt_def MutexLockGuard_delete_def
  pthread_mutex_lock_def pthread_mutex_trylock_def pthread_mutex_unlock_def mutex_holds_def

lemmas rw_defs = rw_attempt_def rw_delete_def ReadLockGuard_attempt_def ReadLockGuard_delete_def
  WriteLockGuard_attempt_def WriteLockGuard_delete_def pthread_rwlock_rdlock_def pthread_rwlock_tryrdlock_def
  pthread_rwlock_wrlock_def pthread_rwlock_trywrlock_def pthread_rwlock_unlock_def rd_free_def wr_free_def
  rw_holds_def rw_wf_def rw_conflict_def

lemma mutex_entered:
  "mutex_attempt g b err t m = Entered ok m' \<longleftrightarrow>
     (if err \<noteq> 0 then \<not> (b \<and> err = EBUSY) \<and> \<not> ok \<and> m' = m
      else ok \<and> owner m = None \<and> m' = m\<lparr>owner := Some t\<rparr>)"
  by (auto simp: mutex_defs split: option.splits)

lemma rw_entered:
  "rw_attempt g b err t l = Entered ok l' \<longleftrightarrow>
     (if err \<noteq> 0 then \<not> (b \<and> err = EBUSY) \<and> \<not> ok \<and> l' = l
      else ok \<and> (case g of ReadLockGuard \<Rightarrow> writer l = None \<and> l' = l\<lparr>readers := insert t (readers l)\<rparr>
                         | WriteLockGuard \<Rightarrow> writer l = None \<and> readers l = {} \<and> l' = l\<lparr>writer := Some t\<rparr>))"
  by (cases g) (auto simp: rw_defs)

lemma rw_deleted:
  "rw_delete g t l =
     (if writer l = Some t then Some (l\<lparr>writer := None\<rparr>)
      else if t \<in> readers l then Some (l\<lparr>readers := readers l - {t}\<rparr>) else None)"
  by (cases g) (simp_all add: rw_defs)

interpretation mutex: guarded mutex_attempt mutex_delete mutex_holds "\<lambda>_ _. True" "\<lambda>_. True" "MMutex (Mutex_new ret)"
proof (unfold_locales, goal_cases)
  case (3 g b t l ok l')
  then show ?case by (auto simp: mutex_entered mutex_holds_def fun_eq_iff)
next
  case (5 l g b t)
  then have "owner l = None" by (cases "owner l") (auto simp: mutex_holds_def split: if_splits)
  then show ?case by (simp add: mutex_entered)
qed (auto simp: mutex_entered mutex_defs Mutex_new_def MMutex_def fun_eq_iff split: if_splits)

lemma rw_holds_None: "\<forall>t. rw_holds l t = None \<Longrightarrow> writer l = None \<and> readers l = {}"
  by (cases "writer l") (auto simp: rw_holds_def split: if_splits)

interpretation rwlock: guarded rw_attempt rw_delete rw_holds rw_conflict rw_wf "MLock (RWLock_new ret)"
proof (unfold_locales, goal_cases)
  case (1 t)
  show ?case by (simp add: rw_wf_def rw_holds_def MLock_def RWLock_new_def)
next
  case (2 g g')
  show ?case by (auto simp: rw_conflict_def)
next
  case (3 g b t l ok l')
  then show ?case
    by (cases g) (auto simp: rw_entered rw_holds_def rw_wf_def rw_conflict_def fun_eq_iff split: if_splits)
next
  case (4 err g b t l ok l')
  then show ?case by (simp add: rw_entered)
next
  case (5 l g b t)
  from rw_holds_None [OF this] show ?case by (cases g) (simp_all add: rw_entered)
next
  case (6 l t g g')
  then show ?case by (auto simp: rw_deleted rw_holds_def rw_wf_def fun_eq_iff split: if_splits)
next
  case (7 l t g)
  then show ?case by (auto simp: rw_deleted rw_holds_def split: if_splits)
qed

subsection \<open>Properties\<close>

text \<open>C31: A writer is alone. As long as no lock call fails, whatever threads take and leave read and write
  guards of a lock, with and without \<open>trylock\<close>, in any order: a thread in the scope of a write guard has
  locked it, and no other thread is in the scope of any guard of the lock.\<close>

theorem writer_alone:
  assumes "guard_reach rw_attempt rw_delete {0} (MLock (RWLock_new ret)) (l, ph)"
    and "ph t = Inside WriteLockGuard ok" and "t' \<noteq> t"
  shows "ok \<and> writer l = Some t \<and> (\<nexists>g ok'. ph t' = Inside g ok')"
proof -
  have ok: "ok" using rwlock.no_error_success [OF assms(1), of t WriteLockGuard ok] assms(2) by simp
  with rwlock.reach_holds [OF assms(1)] assms(2) have "rw_holds l t = Some WriteLockGuard" by auto
  then have "writer l = Some t" by (auto simp: rw_holds_def split: if_splits)
  moreover have "ph t' \<noteq> Inside g ok'" for g ok'
    using rwlock.exclusion [OF assms(1), of t WriteLockGuard ok t' g ok'] assms(2,3) by (auto simp: rw_conflict_def)
  ultimately show ?thesis using ok by blast
qed

theorem writer_alone_witness:
  "\<exists>l ph. guard_reach rw_attempt rw_delete {0} (MLock (RWLock_new 0)) (l, ph) \<and>
     ph 1 = Inside WriteLockGuard True \<and> (\<nexists>g ok. ph 2 = Inside g ok)"
proof -
  let ?l0 = "MLock (RWLock_new 0)" and ?ph = "(\<lambda>_. Outside) :: tid \<Rightarrow> rw_class phase"
  have "guard_reach rw_attempt rw_delete {0} ?l0 (?l0, ?ph(1 := Trying WriteLockGuard True))"
    by (rule guard_reach.step [OF guard_reach.start]) (rule guard_step.construct, simp)
  then have reach: "guard_reach rw_attempt rw_delete {0} ?l0
      (?l0\<lparr>writer := Some 1\<rparr>, (?ph(1 := Trying WriteLockGuard True))(1 := Inside WriteLockGuard True))"
    by (rule guard_reach.step)
      (rule guard_step.enter [where trylock = True and err = 0], simp_all add: rw_entered MLock_def RWLock_new_def)
  have alone: "\<nexists>g ok. ((?ph(1 := Trying WriteLockGuard True))(1 := Inside WriteLockGuard True)) 2 = Inside g ok"
    using writer_alone [OF reach, of 1 True 2] by simp
  show ?thesis by (intro exI conjI, rule reach) (use alone in simp_all)
qed

text \<open>A guard that could not lock still unlocks. Whatever errors the lock calls return: the destructor of a
  guard may call \<open>unlock\<close> exactly when its constructor locked; for every guard whose constructor ended
  with \<open>lock_success_\<close> false the destructor unlocks a mutex its thread does not hold.\<close>

theorem failed_guard_unlocks_anyway:
  assumes "guard_reach mutex_attempt mutex_delete errs (MMutex (Mutex_new ret)) (m, ph)" and "ph t = Inside () ok"
  shows "(ok \<longleftrightarrow> owner m = Some t) \<and> (mutex_delete () t m = None \<longleftrightarrow> \<not> ok)"
proof -
  have "mutex_holds m t = (if ok then Some () else None)" using mutex.reach_holds [OF assms(1)] assms(2) by auto
  then have "ok \<longleftrightarrow> owner m = Some t" by (auto simp: mutex_holds_def split: if_splits)
  with mutex.destructor_defined [OF assms(1), of t "()" ok] assms(2) show ?thesis by auto
qed

theorem failed_guard_unlocks_anyway_witness:
  "\<exists>m ph. guard_reach mutex_attempt mutex_delete {0, 35} (MMutex (Mutex_new 0)) (m, ph) \<and>
     ph 1 = Inside () False \<and> mutex_delete () 1 m = None"
proof -
  let ?m0 = "MMutex (Mutex_new 0)" and ?ph = "(\<lambda>_. Outside) :: tid \<Rightarrow> unit phase"
  have "guard_reach mutex_attempt mutex_delete {0, 35} ?m0 (?m0, ?ph(1 := Trying () False))"
    by (rule guard_reach.step [OF guard_reach.start]) (rule guard_step.construct, simp)
  then have reach: "guard_reach mutex_attempt mutex_delete {0, 35} ?m0
      (?m0, (?ph(1 := Trying () False))(1 := Inside () False))"
    by (rule guard_reach.step)
      (rule guard_step.enter [where trylock = False and err = 35], simp_all add: mutex_entered)
  have undefined: "mutex_delete () 1 ?m0 = None"
    using failed_guard_unlocks_anyway [OF reach, of 1 False] by simp
  show ?thesis by (intro exI conjI, rule reach) (use undefined in simp_all)
qed

text \<open>Spinning is waiting: with and without \<open>trylock\<close> a constructor ends in the same states, with the same
  lock after it, and otherwise makes no progress.\<close>

theorem trylock_enters_when_lock_does:
  "(rw_attempt g True 0 t l = Entered ok l' \<longleftrightarrow> rw_attempt g False 0 t l = Entered ok l') \<and>
   (mutex_attempt () True 0 t m = Entered ok m' \<longleftrightarrow> mutex_attempt () False 0 t m = Entered ok m')"
  by (simp add: rw_entered mutex_entered)

text \<open>Of two threads at a mutex one is outside or still in its constructor.\<close>

theorem mutex_one_inside:
  assumes "guard_reach mutex_attempt mutex_delete {0} (MMutex (Mutex_new ret)) (m, ph)"
    and "ph t = Inside () ok" and "ph t' = Inside () ok'"
  shows "t = t'"
  using mutex.exclusion [OF assms(1), of t "()" ok t' "()" ok'] assms(2,3) by auto

text \<open>No guard is left waiting for nothing: once no thread is in a scope, an attempt succeeds.\<close>

theorem rwlock_progress:
  assumes "guard_reach rw_attempt rw_delete errs (MLock (RWLock_new ret)) (l, ph)" "\<forall>t'. \<nexists>g ok. ph t' = Inside g ok"
  shows "\<exists>l'. rw_attempt g b 0 t l = Entered True l'"
  using rwlock.progress [OF assms(1)] assms(2) by simp

end
