(* ===== verification/Programs.thy ===== *)
theory Programs
  imports CenterRequests RpcClient RpcServer
begin

section \<open>The programs\<close>

text \<open>
  The three \<open>main\<close> functions: the daemon of a center (rpc\_center/rpc\_center\_server.cc) and the sample
  server and client (sample/src). They compose the operations of the other theories; the results of the
  system calls are arguments. The lemmas show what a failure looks like from outside, and what
  happens when the sample client calls the sample server.
\<close>

subsection \<open>The daemon of a center\<close>

text \<open>A result \<open>Inl\<close> is a call of \<open>exit\<close> with that status.\<close>

definition InitSignal :: "int \<Rightarrow> int + unit" where
  "InitSignal sigaction_ret = (if -1 = sigaction_ret then Inl 1 else Inr ())"

text \<open>
  What the child has after \<open>Daemonize\<close>: whether its standard descriptors are \<open>/dev/null\<close>, and which
  descriptor was closed.
\<close>

record daemon =
  std_null :: bool
  closed_fd :: "int option"

definition Daemonize :: "int \<Rightarrow> int \<Rightarrow> int \<Rightarrow> int + daemon" where
  "Daemonize fork_ret setsid_ret open_ret =
     (if 0 \<noteq> fork_ret then Inl 0
      else if -1 = setsid_ret then Inl (-1)
      else Inr (if -1 \<noteq> open_ret
                then \<lparr>std_null = True, closed_fd = (if open_ret > 2 then Some open_ret else None)\<rparr>
                else \<lparr>std_null = False, closed_fd = None\<rparr>))"

record daemon_env =
  sigaction_ret :: int
  fork_ret :: int
  setsid_ret :: int
  open_ret :: int

text \<open>\<open>main\<close>: the exit status, and the center it leaves if it came that far.\<close>

definition center_main ::
  "daemon_env \<Rightarrow> center_env \<Rightarrow> string option \<Rightarrow> (string \<Rightarrow> string \<Rightarrow> string) \<Rightarrow> (string \<Rightarrow> int \<Rightarrow> int) \<Rightarrow> u64 \<Rightarrow>
   fault + (int \<times> rpc_center option)" where
  "center_main d env file ini_get_string ini_get_int now =
     (case InitSignal (sigaction_ret d) of
        Inl code \<Rightarrow> Inr (code, None)
      | Inr _ \<Rightarrow>
          (case Daemonize (fork_ret d) (setsid_ret d) (open_ret d) of
             Inl code \<Rightarrow> Inr (code, None)
           | Inr _ \<Rightarrow>
               (let rc = RpcCenter_new env now in
                case StartCenter env file ini_get_string ini_get_int ''conf/rpc_center.ini'' rc of
                  Inl f \<Rightarrow> Inl f
                | Inr (started, rc) \<Rightarrow>
                    (let rc = WaitCenter env rc; rc = snd (StopCenter env rc) in Inr (0, Some rc)))))"

subsection \<open>The sample server\<close>

text \<open>\<open>EchoServiceImpl\<close>; the messages are the strings in them, their parsing and serialising are arguments.\<close>

definition Echo :: "string \<Rightarrow> string" where
  "Echo request = ''sevice echo is : '' @ request"

definition echo_method :: "(string \<Rightarrow> string option) \<Rightarrow> (string \<Rightarrow> string option) \<Rightarrow> (string, string) RpcMethod" where
  "echo_method parse serialize =
     \<lparr>full_name = ''echo.EchoService.Echo'', parse_request = parse, call_service = Echo,
      serialize_response = serialize\<rparr>"

text \<open>\<open>main\<close>, up to its \<open>Wait\<close>.\<close>

definition sample_server ::
  "ConfigParser \<Rightarrow> bool \<Rightarrow> (string \<Rightarrow> string option) \<Rightarrow> (string \<Rightarrow> string option) \<Rightarrow>
   fault + (string, string) rpc_server" where
  "sample_server cp create_ok parse serialize =
     (case RpcServer_new cp create_ok of
        Inl f \<Rightarrow> Inl f
      | Inr rpc_server \<Rightarrow>
          RpcServer_Start cp (snd (RegisteService [echo_method parse serialize] rpc_server)))"

subsection \<open>The sample client\<close>

definition echo_params :: RpcCallParams where
  "echo_params = \<lparr>method_full_name = ''echo.EchoService.Echo'', method_client_name = ''Echo''\<rparr>"

text \<open>
  The destructor of \<open>RpcClient\<close>: its threads are stopped, then waited for. \<open>oks\<close> is the result of
  \<open>pthread_cancel\<close> and of \<open>pthread_join\<close>.
\<close>

definition end_thread :: "bool \<times> bool \<Rightarrow> thread \<Rightarrow> thread" where
  "end_thread oks t = snd (Wait (snd oks) (snd (Stop (fst oks) t)))"

definition RpcClient_delete :: "bool \<times> bool \<Rightarrow> rpc_client \<Rightarrow> thread list" where
  "RpcClient_delete oks c =
     (case rpc_heartbeat c of None \<Rightarrow> [] | Some (_, t) \<Rightarrow> [end_thread oks t]) @
     (case center_client_hb c of None \<Rightarrow> [] | Some (_, t) \<Rightarrow> [end_thread oks t])"

text \<open>
  \<open>SysncCall\<close>. The stub is called with a null controller. The result tells whether an error was
  printed, and the string the response object holds at the end.
\<close>

definition SysncCall ::
  "ConfigParser \<Rightarrow> hb_ptr \<Rightarrow> int \<Rightarrow> bool \<Rightarrow> bool \<Rightarrow> string call_env \<Rightarrow> nat \<Rightarrow> fault + (bool \<times> string)" where
  "SysncCall cp garbage_hb garbage_fd create_center create_hb env fuel =
     (case RpcClient_new cp garbage_hb garbage_fd create_center create_hb of
        Inl f \<Rightarrow> Inl f
      | Inr rpc_client \<Rightarrow>
          (case rpc_channel rpc_client of
             None \<Rightarrow> Inl NullDeref
           | Some ch \<Rightarrow>
               (case CallMethod env fuel echo_params None ch of
                  Inl f \<Rightarrow> Inl f
                | Inr (_, response, ch) \<Rightarrow>
                    (let rpc_client = rpc_client\<lparr>rpc_channel := Some ch\<rparr> in
                     Inr (\<not> IsCallOk rpc_client, case response of None \<Rightarrow> [] | Some r \<Rightarrow> r)))))"

text \<open>
  \<open>AsyscCall\<close>: what the worker of the call does in the five seconds before the result is asked for is
  \<open>meanwhile\<close>, a function of the channel.
\<close>

definition AsyscCall ::
  "ConfigParser \<Rightarrow> hb_ptr \<Rightarrow> int \<Rightarrow> bool \<Rightarrow> bool \<Rightarrow> string call_env \<Rightarrow> nat \<Rightarrow> (channel \<Rightarrow> fault + channel) \<Rightarrow>
   fault + (bool \<times> string)" where
  "AsyscCall cp garbage_hb garbage_fd create_center create_hb env fuel meanwhile =
     (case RpcClient_new cp garbage_hb garbage_fd create_center create_hb of
        Inl f \<Rightarrow> Inl f
      | Inr rpc_client \<Rightarrow>
          (case Client_OpenRpcAsyncMode rpc_client of
             None \<Rightarrow> Inl NullDeref
           | Some (_, rpc_client) \<Rightarrow>
               (case stub_call env fuel echo_params rpc_client of
                  Inl f \<Rightarrow> Inl f
                | Inr (_, rpc_client) \<Rightarrow>
                    (case rpc_channel rpc_client of
                       None \<Rightarrow> Inl NullDeref
                     | Some ch \<Rightarrow>
                         (case meanwhile ch of
                            Inl f \<Rightarrow> Inl f
                          | Inr ch \<Rightarrow>
                              (case Client_GetAsyncResponse (parse_response env) ''Echo'' (rpc_client\<lparr>rpc_channel := Some ch\<rparr>) of
                                 Inl f \<Rightarrow> Inl f
                               | Inr (response, rpc_client) \<Rightarrow>
                                   Inr (\<not> IsCallOk rpc_client,
                                        case response of Some (Some r) \<Rightarrow> r | _ \<Rightarrow> [])))))))"

subsection \<open>Facts\<close>

lemma RpcClient_new_controller:
  "RpcClient_new cp g fd cc ch = Inr c \<Longrightarrow> rpc_controller c = Some ClientRpcController_new"
  by (auto simp: RpcClient_new_def InitClient_def SetRpcConnectionInfo_def Let_def
      split: sum.splits option.splits if_splits)

text \<open>A client set up without a configuration file.\<close>

lemma IniGetBool_no_config [simp]: "IniGetBool no_config key b = Inr b"
  by (simp add: IniGetBool_def no_config_def iniparser_getboolean_def iniparser_getstring_def)

lemma IniGetInt_no_config [simp]: "IniGetInt no_config key n = Inr n"
  by (simp add: IniGetInt_def no_config_def iniparser_getint_def iniparser_getstring_def)

lemma client_no_config:
  "\<exists>c ch. RpcClient_new no_config garbage_hb garbage_fd cc hb = Inr c \<and> rpc_channel c = Some ch \<and>
     center_client_heartbeat ch = garbage_hb \<and> ch_addr ch = Some ''127.0.0.1'' \<and> ch_port ch = Some ''9998'' \<and>
     \<not> is_channel_async_call ch \<and> try_time ch = 1"
  by (simp add: RpcClient_new_def InitClient_def SetRpcConnectionInfo_def Let_def cptr_text_def
      Channel_single_def Channel_new_def SetConnectionInfo_def)

text \<open>The sample's server: one method, and no pool of readers.\<close>

lemma sample_server_no_config:
  assumes "sample_server no_config create_ok parse serialize = Inr s"
  shows "method_hashmap s (method_code (echo_method parse serialize)) = Some (echo_method parse serialize)"
    "reader_threads s = None"
  using assms
  by (auto simp: sample_server_def RpcServer_new_def Initialize_def RpcServer_Start_def RegisteService_def
      register_method_def)

lemma sample_server_starts: "\<exists>s. sample_server no_config create_ok parse serialize = Inr s"
  by (simp add: sample_server_def RpcServer_new_def Initialize_def RpcServer_Start_def)

lemma echo_code_nonzero: "method_code (echo_method parse serialize) \<noteq> 0"
proof -
  have "BKDRHash (c_str ''echo.EchoService.Echo'') \<noteq> 0" by code_simp
  then show ?thesis by (simp add: method_code_def echo_method_def)
qed

lemma sint_BKDRHash: "sint (BKDRHash s) = uint (BKDRHash s)"
proof -
  have "uint (BKDRHash s) < 2 ^ 31"
    using BKDRHash_less [of s] unfolding unat_eq_nat_uint by (subst (asm) nat_less_iff) simp_all
  then have "sint (word_of_int (uint (BKDRHash s)) :: u32) = uint (BKDRHash s)"
    by (intro sint_code) (use uint_ge_0 [of "BKDRHash s"] in linarith, assumption)
  then show ?thesis by (simp only: word_of_int_uint)
qed

subsection \<open>Properties\<close>

text \<open>The daemon of a center hides its failures. When \<open>fork\<close> fails the process exits with status 0; and
  without /tmp/centers.data the daemon ends with status 0 as well: it has started no thread, sent nothing and
  closed nothing, and its center is as constructed.\<close>

theorem center_main_hides_failures:
  assumes "sigaction_ret d \<noteq> -1"
  shows "(fork_ret d \<noteq> 0 \<longrightarrow> center_main d env file s i now = Inr (0, None)) \<and>
    (fork_ret d = 0 \<and> setsid_ret d \<noteq> -1 \<longrightarrow> center_main d env None s i now = Inr (0, Some (RpcCenter_new env now)))"
  using assms
  by (auto simp: center_main_def InitSignal_def Daemonize_def Let_def StartCenter_def InitRpcCenter_def
      WaitCenter_def StopCenter_def RpcCenter_new_def)

theorem center_main_hides_failures_witness:
  "center_main \<lparr>sigaction_ret = 0, fork_ret = 0, setsid_ret = 1, open_ret = 3\<rparr> (demo_env CentersProto_default) None
     (\<lambda>_ d. d) (\<lambda>_ d. d) 7 = Inr (0, Some (RpcCenter_new (demo_env CentersProto_default) 7))"
  using center_main_hides_failures [of "\<lparr>sigaction_ret = 0, fork_ret = 0, setsid_ret = 1, open_ret = 3\<rparr>"] by simp

text \<open>The sample's synchronous call never reports an error: the stub is given no controller, and
  \<open>IsCallOk\<close> looks at the client's own.\<close>

theorem sync_call_never_reports:
  assumes "SysncCall cp garbage_hb garbage_fd cc hb env fuel = Inr (reported, text)"
  shows "\<not> reported"
  using assms
  by (auto simp: SysncCall_def Let_def IsCallOk_def Failed_def ClientRpcController_new_def
      dest!: RpcClient_new_controller split: sum.splits option.splits)

text \<open>The sample client and the sample server, both without a configuration file. The request of the
  client arrives, the server finds and parses it, and dereferences a null pointer. The client, whose
  connection then ends or breaks, prints no error and has an empty answer; that is, if the heartbeat
  pointer its channel does not initialise is null: else it goes through a wild pointer.\<close>

theorem sample_call_crashes_server:
  assumes "sample_server no_config create_ok parse serialize = Inr s" "parse req = Some q"
    and "\<forall>j. call_sends env j = int MetaSize" "nul_free req" "length req mod (BODY_SIZE - 1) \<noteq> 0" "length req < 2 ^ 31"
    and "0 \<le> tcp env 0" "has_response env" "request_str env = Some req"
    and "call_receives env = [Got []] \<or> call_receives env = [RecvFail]" "parse_response env [] = Some []"
  shows "RpcProcessor (map Got (sent (RpcSend (call_sends env)
        (sint (BKDRHash (c_str (method_full_name echo_params)))) req False))) sys (Some (new_params sfd)) s = Inl NullDeref \<and>
    SysncCall no_config HbNull garbage_fd cc hb env (Suc fuel) = Inr (False, []) \<and>
    SysncCall no_config HbWild garbage_fd cc hb env (Suc fuel) = Inl UseAfterFree"
proof -
  let ?m = "echo_method parse serialize"
  have code: "sint (BKDRHash (c_str (method_full_name echo_params))) = uint (method_code ?m)"
    by (simp add: sint_BKDRHash method_code_def echo_method_def echo_params_def)
  have server: "RpcProcessor (map Got (sent (RpcSend (call_sends env) (uint (method_code ?m)) req False))) sys
      (Some (new_params sfd)) s = Inl NullDeref"
    by (rule registered_call_null_dereference [where q = q])
      (use assms sample_server_no_config [OF assms(1)] echo_code_nonzero in
        \<open>simp_all add: new_params_def echo_method_def\<close>)
  obtain c ch where c: "RpcClient_new no_config HbNull garbage_fd cc hb = Inr c" "rpc_channel c = Some ch"
    and ch: "center_client_heartbeat ch = HbNull" "ch_addr ch = Some ''127.0.0.1''" "ch_port ch = Some ''9998''"
      "\<not> is_channel_async_call ch" "try_time ch = 1"
    using client_no_config by metis
  have sent: "ret (RpcSend (call_sends env) (sint (BKDRHash (c_str (method_full_name echo_params)))) req False) \<ge> 0"
    using assms(3,6) BKDRHash_nonneg by (simp add: RpcSend_ok)
  have "\<exists>ctl ch'. CallMethod env (Suc fuel) echo_params None ch = Inr (None, ctl, ch') \<and> (ctl = None \<or> ctl = Some [])"
    using assms(10)
  proof
    assume "call_receives env = [Got []]"
    then have recv: "RpcRecv (call_receives env) [] True = Returned 0 [] True []" by (simp add: RpcRecv_def)
    show ?thesis using CallMethod_sync [OF ch(1-4) refl assms(7-9) sent recv] assms(11) by simp
  next
    assume "call_receives env = [RecvFail]"
    then have recv: "RpcRecv (call_receives env) [] True = Returned ERROR_RECV [] True []" by (simp add: RpcRecv_def)
    show ?thesis using CallMethod_recv_fails [OF ch(1-4) refl assms(7-9) sent recv, of fuel None] by (auto simp: set_failed_def)
  qed
  then have "SysncCall no_config HbNull garbage_fd cc hb env (Suc fuel) = Inr (False, [])"
    using c RpcClient_new_controller [OF c(1)]
    by (auto simp: SysncCall_def Let_def IsCallOk_def Failed_def ClientRpcController_new_def)
  moreover have "SysncCall no_config HbWild garbage_fd cc hb env (Suc fuel) = Inl UseAfterFree"
    using client_no_config [of HbWild garbage_fd cc hb] by (auto simp: SysncCall_def CallMethod_def)
  ultimately show ?thesis using server code by simp
qed

theorem sample_call_crashes_server_witness:
  "\<exists>s. sample_server no_config True Some Some = Inr s \<and>
     RpcProcessor (map Got (sent (RpcSend (call_sends (demo_call (\<lambda>_. 5) [Got []]))
        (sint (BKDRHash (c_str (method_full_name echo_params)))) ''q'' False))) (\<lambda>_. 516) (Some (new_params 7)) s = Inl NullDeref \<and>
     SysncCall no_config HbNull 0 True True (demo_call (\<lambda>_. 5) [Got []]) (Suc 0) = Inr (False, [])"
proof -
  obtain s where s: "sample_server no_config True Some Some = Inr s" using sample_server_starts by blast
  show ?thesis
    using s sample_call_crashes_server [OF s, where req = "''q''" and q = "''q''" and env = "demo_call (\<lambda>_. 5) [Got []]"]
    by (simp add: nul_free_def)
qed

end
