(* ===== verification/DictionaryHeap.thy ===== *)
theory DictionaryHeap
  imports Dictionary Queues "HOL-Library.Multiset"
begin

section \<open>The memory of the dictionary\<close>

text \<open>
  The operations of config\_parser/dictionary.cpp once more, now with the heap: keys and values are blocks
  the dictionary copies with \<open>xstrdup\<close> and frees, the arrays are blocks that \<open>mem_double\<close> replaces,
  and the arguments are pointers of the caller. Reading or freeing a block that is not there is the
  fault \<open>UseAfterFree\<close>. Allocation is taken to succeed. The lemmas show that these operations are
  those of theory Dictionary on the texts, that the caller's blocks stay as they are, and that
  \<open>dictionary_del\<close> frees exactly what the dictionary allocated.
\<close>

subsection \<open>The heap\<close>

text \<open>A block has the characters of a C string, or it is an array or the dictionary object itself.\<close>

datatype block = Chars string | Array

record heap =
  blocks :: "nat \<Rightarrow> block option"
  next_addr :: nat

definition malloc :: "block \<Rightarrow> heap \<Rightarrow> nat \<times> heap" where
  "malloc b h = (next_addr h, h\<lparr>blocks := (blocks h)(next_addr h \<mapsto> b), next_addr := Suc (next_addr h)\<rparr>)"

definition release :: "nat \<Rightarrow> heap \<Rightarrow> fault + heap" where
  "release a h =
     (case blocks h a of
        None \<Rightarrow> Inl UseAfterFree
      | Some _ \<Rightarrow> Inr (h\<lparr>blocks := (blocks h)(a := None)\<rparr>))"

definition free_ptr :: "nat option \<Rightarrow> heap \<Rightarrow> fault + heap" where
  "free_ptr p h = (case p of None \<Rightarrow> Inr h | Some a \<Rightarrow> release a h)"

definition chars :: "heap \<Rightarrow> nat \<Rightarrow> fault + string" where
  "chars h a = (case blocks h a of Some (Chars s) \<Rightarrow> Inr s | _ \<Rightarrow> Inl UseAfterFree)"

definition put_chars :: "nat \<Rightarrow> string \<Rightarrow> heap \<Rightarrow> fault + heap" where
  "put_chars a s h =
     (case blocks h a of
        None \<Rightarrow> Inl UseAfterFree
      | Some _ \<Rightarrow> Inr (h\<lparr>blocks := (blocks h)(a \<mapsto> Chars s)\<rparr>))"

definition xstrdup :: "nat option \<Rightarrow> heap \<Rightarrow> fault + (nat option \<times> heap)" where
  "xstrdup s h =
     (case s of
        None \<Rightarrow> Inr (None, h)
      | Some a \<Rightarrow>
          (case chars h a of
             Inl f \<Rightarrow> Inl f
           | Inr str \<Rightarrow> (case malloc (Chars str) h of (t, h) \<Rightarrow> Inr (Some t, h))))"

subsection \<open>The operations\<close>

record heap_dict =
  hd_n :: nat
  hd_size :: nat
  hd_val :: "nat option list"
  hd_key :: "nat option list"
  hd_hash :: "u32 list"
  val_block :: nat
  key_block :: nat
  hash_block :: nat
  self_block :: nat

definition heap_new :: "nat \<Rightarrow> heap \<Rightarrow> heap_dict \<times> heap" where
  "heap_new size0 h =
     (let sz = (if size0 < DICTMINSZ then DICTMINSZ else size0);
          (self, h) = malloc Array h; (vals, h) = malloc Array h; (keys, h) = malloc Array h;
          (hashes, h) = malloc Array h
      in (\<lparr>hd_n = 0, hd_size = sz, hd_val = replicate sz None, hd_key = replicate sz None,
           hd_hash = replicate sz 0, val_block = vals, key_block = keys, hash_block = hashes,
           self_block = self\<rparr>, h))"

text \<open>The search loop, with \<open>strcmp\<close> on the blocks of the keys.\<close>

fun heap_find :: "heap \<Rightarrow> heap_dict \<Rightarrow> u32 \<Rightarrow> string \<Rightarrow> nat \<Rightarrow> nat \<Rightarrow> fault + nat option" where
  "heap_find h d hash key i 0 = Inr None"
| "heap_find h d hash key i (Suc k) =
     (case hd_key d ! i of
        None \<Rightarrow> heap_find h d hash key (Suc i) k
      | Some a \<Rightarrow>
          if hash = hd_hash d ! i then
            (case chars h a of
               Inl f \<Rightarrow> Inl f
             | Inr key_i \<Rightarrow> if key = key_i then Inr (Some i) else heap_find h d hash key (Suc i) k)
          else heap_find h d hash key (Suc i) k)"

definition heap_get :: "heap \<Rightarrow> heap_dict \<Rightarrow> nat \<Rightarrow> nat option \<Rightarrow> fault + nat option" where
  "heap_get h d key deflt =
     (case chars h key of
        Inl f \<Rightarrow> Inl f
      | Inr str \<Rightarrow>
          (case heap_find h d (dictionary_hash str) str 0 (hd_size d) of
             Inl f \<Rightarrow> Inl f
           | Inr None \<Rightarrow> Inr deflt
           | Inr (Some i) \<Rightarrow> Inr (hd_val d ! i)))"

text \<open>\<open>mem_double\<close> of the block of an array: the new block, with the old one freed.\<close>

definition double_block :: "nat \<Rightarrow> heap \<Rightarrow> fault + (nat \<times> heap)" where
  "double_block a h =
     (case malloc Array h of (b, h) \<Rightarrow>
        (case release a h of Inl f \<Rightarrow> Inl f | Inr h \<Rightarrow> Inr (b, h)))"

definition heap_grow :: "heap_dict \<Rightarrow> heap \<Rightarrow> fault + (heap_dict \<times> heap)" where
  "heap_grow d h =
     (case double_block (val_block d) h of
        Inl f \<Rightarrow> Inl f
      | Inr (v, h) \<Rightarrow>
          (case double_block (key_block d) h of
             Inl f \<Rightarrow> Inl f
           | Inr (k, h) \<Rightarrow>
               (case double_block (hash_block d) h of
                  Inl f \<Rightarrow> Inl f
                | Inr (x, h) \<Rightarrow>
                    Inr (d\<lparr>hd_val := mem_double None (hd_val d), hd_key := mem_double None (hd_key d),
                           hd_hash := mem_double 0 (hd_hash d), hd_size := hd_size d * 2,
                           val_block := v, key_block := k, hash_block := x\<rparr>, h))))"

text \<open>The copies into a free slot, and a new value for a key that is there.\<close>

definition heap_insert ::
  "u32 \<Rightarrow> nat \<Rightarrow> nat option \<Rightarrow> nat \<Rightarrow> heap_dict \<Rightarrow> heap \<Rightarrow> fault + (heap_dict \<times> heap)" where
  "heap_insert hash key val i d h =
     (case xstrdup (Some key) h of
        Inl f \<Rightarrow> Inl f
      | Inr (k, h) \<Rightarrow>
          (case xstrdup val h of
             Inl f \<Rightarrow> Inl f
           | Inr (v, h) \<Rightarrow>
               Inr (d\<lparr>hd_key := (hd_key d)[i := k], hd_val := (hd_val d)[i := v],
                      hd_hash := (hd_hash d)[i := hash], hd_n := hd_n d + 1\<rparr>, h)))"

definition heap_replace ::
  "nat option \<Rightarrow> nat \<Rightarrow> heap_dict \<Rightarrow> heap \<Rightarrow> fault + (heap_dict \<times> heap)" where
  "heap_replace val i d h =
     (case free_ptr (hd_val d ! i) h of
        Inl f \<Rightarrow> Inl f
      | Inr h \<Rightarrow>
          (case xstrdup val h of
             Inl f \<Rightarrow> Inl f
           | Inr (v, h) \<Rightarrow> Inr (d\<lparr>hd_val := (hd_val d)[i := v]\<rparr>, h)))"

definition heap_put ::
  "heap_dict \<Rightarrow> nat \<Rightarrow> nat option \<Rightarrow> heap \<Rightarrow> fault + (heap_dict \<times> heap)" where
  "heap_put d key val h =
     (case chars h key of
        Inl f \<Rightarrow> Inl f
      | Inr str \<Rightarrow>
          (let hash = dictionary_hash str in
           case (if 0 < hd_n d then heap_find h d hash str 0 (hd_size d) else Inr None) of
             Inl f \<Rightarrow> Inl f
           | Inr (Some i) \<Rightarrow> heap_replace val i d h
           | Inr None \<Rightarrow>
               (case (if hd_n d = hd_size d then heap_grow d h else Inr (d, h)) of
                  Inl f \<Rightarrow> Inl f
                | Inr (d, h) \<Rightarrow>
                    (case probe (hd_key d) (hd_size d) (hd_n d) (hd_size d) of
                       None \<Rightarrow> Inl Hang
                     | Some i \<Rightarrow> heap_insert hash key val i d h))))"

definition heap_remove :: "nat \<Rightarrow> heap_dict \<Rightarrow> heap \<Rightarrow> fault + (heap_dict \<times> heap)" where
  "heap_remove i d h =
     (case free_ptr (hd_key d ! i) h of
        Inl f \<Rightarrow> Inl f
      | Inr h \<Rightarrow>
          (case free_ptr (hd_val d ! i) h of
             Inl f \<Rightarrow> Inl f
           | Inr h \<Rightarrow>
               Inr (d\<lparr>hd_key := (hd_key d)[i := None], hd_val := (hd_val d)[i := None],
                      hd_hash := (hd_hash d)[i := 0], hd_n := hd_n d - 1\<rparr>, h)))"

definition heap_take :: "heap_dict \<Rightarrow> nat \<Rightarrow> heap \<Rightarrow> fault + (heap_dict \<times> heap)" where
  "heap_take d key h =
     (case chars h key of
        Inl f \<Rightarrow> Inl f
      | Inr str \<Rightarrow>
          (case heap_find h d (dictionary_hash str) str 0 (hd_size d) of
             Inl f \<Rightarrow> Inl f
           | Inr None \<Rightarrow> Inr (d, h)
           | Inr (Some i) \<Rightarrow> heap_remove i d h))"

text \<open>\<open>dictionary_set\<close> and \<open>dictionary_unset\<close> with their tests for null pointers.\<close>

definition heap_set ::
  "heap_dict option \<Rightarrow> nat option \<Rightarrow> nat option \<Rightarrow> heap \<Rightarrow> fault + (int \<times> heap_dict option \<times> heap)" where
  "heap_set dp keyp val h =
     (case (dp, keyp) of
        (Some d, Some key) \<Rightarrow>
          (case heap_put d key val h of Inl f \<Rightarrow> Inl f | Inr (d, h) \<Rightarrow> Inr (0, Some d, h))
      | _ \<Rightarrow> Inr (-1, dp, h))"

definition heap_unset ::
  "heap_dict option \<Rightarrow> nat option \<Rightarrow> heap \<Rightarrow> fault + (heap_dict option \<times> heap)" where
  "heap_unset dp keyp h =
     (case keyp of
        None \<Rightarrow> Inr (dp, h)
      | Some key \<Rightarrow>
          (case dp of
             None \<Rightarrow> Inl NullDeref
           | Some d \<Rightarrow> (case heap_take d key h of Inl f \<Rightarrow> Inl f | Inr (d, h) \<Rightarrow> Inr (Some d, h))))"

text \<open>\<open>dictionary_del\<close>: the strings slot by slot, then the arrays and the object.\<close>

fun free_ptrs :: "nat option list \<Rightarrow> heap \<Rightarrow> fault + heap" where
  "free_ptrs [] h = Inr h"
| "free_ptrs (p # ps) h = (case free_ptr p h of Inl f \<Rightarrow> Inl f | Inr h \<Rightarrow> free_ptrs ps h)"

definition heap_del :: "heap_dict option \<Rightarrow> heap \<Rightarrow> fault + heap" where
  "heap_del dp h =
     (case dp of
        None \<Rightarrow> Inr h
      | Some d \<Rightarrow>
          free_ptrs (concat (map (\<lambda>i. [hd_key d ! i, hd_val d ! i]) [0..<hd_size d]) @
            [Some (val_block d), Some (key_block d), Some (hash_block d), Some (self_block d)]) h)"

subsection \<open>Blocks that belong together\<close>

text \<open>
  \<open>M\<close> is the bag of the addresses of one owner: each is allocated, none occurs twice. Everything else in the
  heap is the rest.
\<close>

definition mem_ok :: "nat multiset \<Rightarrow> heap \<Rightarrow> bool" where
  "mem_ok M h \<longleftrightarrow>
     (\<forall>a. count M a \<le> 1) \<and> (\<forall>a \<in># M. blocks h a \<noteq> None) \<and> (\<forall>a \<ge> next_addr h. blocks h a = None)"

definition rest :: "nat multiset \<Rightarrow> heap \<Rightarrow> nat \<Rightarrow> block option" where
  "rest M h = (blocks h) |` (- set_mset M)"

definition ptrs :: "nat option \<Rightarrow> nat multiset" where
  "ptrs p = (case p of None \<Rightarrow> {#} | Some a \<Rightarrow> {#a#})"

lemma ptrs_simps [simp]: "ptrs None = {#}" "ptrs (Some a) = {#a#}"
  by (simp_all add: ptrs_def)

lemma rest_empty [simp]: "rest {#} h = blocks h"
  by (simp add: rest_def restrict_map_def fun_eq_iff)

lemma mem_ok_malloc:
  assumes "mem_ok M h" "malloc b h = (a, h')"
  shows "mem_ok (add_mset a M) h'" "rest (add_mset a M) h' = rest M h" "blocks h' a = Some b"
    "\<And>x. x \<in># M \<Longrightarrow> blocks h' x = blocks h x"
proof -
  have a: "a = next_addr h" "h' = h\<lparr>blocks := (blocks h)(next_addr h \<mapsto> b), next_addr := Suc (next_addr h)\<rparr>"
    using assms(2) by (auto simp: malloc_def)
  have new: "blocks h a = None" "a \<notin># M" using assms(1) by (auto simp: mem_ok_def a(1))
  show "mem_ok (add_mset a M) h'"
    using assms(1) new by (auto simp: mem_ok_def a count_eq_zero_iff)
  show "rest (add_mset a M) h' = rest M h"
    using new by (auto simp: rest_def a restrict_map_def fun_eq_iff)
  show "blocks h' a = Some b" by (simp add: a)
  show "blocks h' x = blocks h x" if "x \<in># M" for x using that new by (auto simp: a)
qed

lemma mem_ok_release:
  assumes "mem_ok (add_mset a M) h"
  obtains h' where "release a h = Inr h'" "mem_ok M h'" "rest M h' = rest (add_mset a M) h"
    "\<And>x. x \<in># M \<Longrightarrow> blocks h' x = blocks h x"
proof
  let ?h = "h\<lparr>blocks := (blocks h)(a := None)\<rparr>"
  have a: "a \<notin># M" "blocks h a \<noteq> None"
    using assms by (auto simp: mem_ok_def count_eq_zero_iff [symmetric] dest!: spec [of _ a])
  have one: "count M x \<le> 1" for x
  proof -
    have "count M x \<le> count (add_mset a M) x" by simp
    also have "\<dots> \<le> 1" using assms by (simp only: mem_ok_def)
    finally show ?thesis .
  qed
  show "release a h = Inr ?h" using a(2) by (auto simp: release_def)
  show "mem_ok M ?h" using assms a one by (auto simp: mem_ok_def)
  show "rest M ?h = rest (add_mset a M) h" by (auto simp: rest_def restrict_map_def fun_eq_iff)
  show "blocks ?h x = blocks h x" if "x \<in># M" for x using that a(1) by auto
qed

lemma free_ptr_ok:
  assumes "mem_ok (M + ptrs p) h"
  obtains h' where "free_ptr p h = Inr h'" "mem_ok M h'" "rest M h' = rest (M + ptrs p) h"
    "\<And>x. x \<in># M \<Longrightarrow> blocks h' x = blocks h x"
proof (cases p)
  case None
  with assms that [of h] show ?thesis by (simp add: free_ptr_def)
next
  case (Some a)
  then have ok: "mem_ok (add_mset a M) h" using assms by simp
  obtain h' where "release a h = Inr h'" "mem_ok M h'" "rest M h' = rest (add_mset a M) h"
    "\<And>x. x \<in># M \<Longrightarrow> blocks h' x = blocks h x"
    by (rule mem_ok_release [OF ok]) blast
  with Some that [of h'] show ?thesis by (simp add: free_ptr_def)
qed

text \<open>A pointer of the caller: null, or a string outside the owner's blocks.\<close>

definition caller_text :: "nat multiset \<Rightarrow> heap \<Rightarrow> nat option \<Rightarrow> string option \<Rightarrow> bool" where
  "caller_text M h p s \<longleftrightarrow>
     (case p of None \<Rightarrow> s = None | Some a \<Rightarrow> \<exists>t. s = Some t \<and> rest M h a = Some (Chars t))"

definition text_at :: "heap \<Rightarrow> nat \<Rightarrow> string" where
  "text_at h a = (case blocks h a of Some (Chars s) \<Rightarrow> s | _ \<Rightarrow> [])"

lemma caller_text_cong: "rest M h = rest M' h' \<Longrightarrow> caller_text M h p s = caller_text M' h' p s"
  by (simp add: caller_text_def split: option.splits)

lemma caller_chars: "caller_text M h (Some a) s \<Longrightarrow> chars h a = Inr (the s)"
  by (auto simp: caller_text_def rest_def restrict_map_def chars_def split: if_splits)

lemma xstrdup_ok:
  assumes "mem_ok M h" "caller_text M h p s"
  obtains q h' where "xstrdup p h = Inr (q, h')" "mem_ok (M + ptrs q) h'" "rest (M + ptrs q) h' = rest M h"
    "map_option (text_at h') q = s" "\<And>x. x \<in># M \<Longrightarrow> blocks h' x = blocks h x"
    "\<And>x. x \<in># ptrs q \<Longrightarrow> \<exists>t. blocks h' x = Some (Chars t)" "q = None \<longleftrightarrow> p = None"
proof (cases p)
  case None
  with assms that [of None h] show ?thesis by (simp add: xstrdup_def caller_text_def)
next
  case (Some a)
  then obtain t where t: "s = Some t" "chars h a = Inr t"
    using assms(2) caller_chars by (auto simp: caller_text_def)
  obtain b h' where m: "malloc (Chars t) h = (b, h')" by (cases "malloc (Chars t) h")
  show ?thesis
    using Some t m mem_ok_malloc [OF assms(1) m]
    by (intro that [of "Some b" h']) (simp_all add: xstrdup_def text_at_def)
qed

subsection \<open>What a dictionary owns\<close>

definition somes :: "nat option list \<Rightarrow> nat multiset" where
  "somes xs = sum_list (map ptrs xs)"

definition owned :: "heap_dict \<Rightarrow> nat multiset" where
  "owned d =
     {#self_block d, val_block d, key_block d, hash_block d#} + somes (hd_key d) + somes (hd_val d)"

definition texts :: "heap \<Rightarrow> nat option list \<Rightarrow> string option list" where
  "texts h xs = map (map_option (text_at h)) xs"

text \<open>The invariant, and the dictionary it stands for.\<close>

definition heap_ok :: "heap_dict \<Rightarrow> heap \<Rightarrow> bool" where
  "heap_ok d h \<longleftrightarrow>
     mem_ok (owned d) h \<and> (\<forall>a \<in># somes (hd_key d) + somes (hd_val d). \<exists>s. blocks h a = Some (Chars s)) \<and>
     length (hd_key d) = hd_size d \<and> length (hd_val d) = hd_size d \<and>
     (\<forall>i < hd_size d. hd_key d ! i = None \<longrightarrow> hd_val d ! i = None)"

definition dict_of :: "heap_dict \<Rightarrow> heap \<Rightarrow> dictionary" where
  "dict_of d h =
     \<lparr>d_n = hd_n d, d_size = hd_size d, d_val = texts h (hd_val d), d_key = texts h (hd_key d),
      d_hash = hd_hash d\<rparr>"

lemma dict_of_simps [simp]:
  "d_n (dict_of d h) = hd_n d" "d_size (dict_of d h) = hd_size d" "d_val (dict_of d h) = texts h (hd_val d)"
  "d_key (dict_of d h) = texts h (hd_key d)" "d_hash (dict_of d h) = hd_hash d"
  by (simp_all add: dict_of_def)

lemma somes_simps [simp]: "somes [] = {#}" "somes (p # ps) = ptrs p + somes ps" "somes (xs @ ys) = somes xs + somes ys"
    "somes (replicate n None) = {#}"
  by (simp_all add: somes_def) (induction n, simp_all)

lemma somes_update: "i < length xs \<Longrightarrow> somes (xs[i := q]) + ptrs (xs ! i) = somes xs + ptrs q"
  by (induction xs arbitrary: i) (auto simp: less_Suc_eq_0_disj ac_simps)

lemma somes_clear: "i < length xs \<Longrightarrow> somes xs = somes (xs[i := None]) + ptrs (xs ! i)"
  using somes_update [of i xs None] by simp

lemma somes_set: "i < length xs \<Longrightarrow> somes (xs[i := q]) = somes (xs[i := None]) + ptrs q"
  using somes_clear [of i "xs[i := q]"] by simp

lemma somes_mem: "xs ! i = Some a \<Longrightarrow> i < length xs \<Longrightarrow> a \<in># somes xs"
  using somes_clear [of i xs] by simp

lemma texts_cong: "(\<And>a. a \<in># somes xs \<Longrightarrow> blocks h' a = blocks h a) \<Longrightarrow> texts h' xs = texts h xs"
proof (induction xs)
  case (Cons p xs)
  then have "map_option (text_at h') p = map_option (text_at h) p" by (cases p) (simp_all add: text_at_def)
  with Cons show ?case by (simp add: texts_def)
qed (simp add: texts_def)

lemma texts_update:
  assumes "\<And>a. a \<in># somes (xs[i := None]) \<Longrightarrow> blocks h' a = blocks h a" and i: "i < length xs"
  shows "texts h' (xs[i := q]) = (texts h xs)[i := map_option (text_at h') q]"
proof -
  have "texts h' (xs[i := None]) = texts h (xs[i := None])" by (rule texts_cong) (rule assms(1))
  then have eq: "map (map_option (text_at h')) xs ! j = map (map_option (text_at h)) xs ! j"
    if "j \<noteq> i" for j
    using that by (metis texts_def nth_list_update_neq map_update)
  show ?thesis
  proof (rule nth_equalityI)
    fix j assume j: "j < length (texts h' (xs[i := q]))"
    show "texts h' (xs[i := q]) ! j = (texts h xs)[i := map_option (text_at h') q] ! j"
      using eq [of j] i j by (cases "j = i") (simp_all add: texts_def)
  qed (simp add: texts_def)
qed

lemma texts_nth: "i < length xs \<Longrightarrow> texts h xs ! i = map_option (text_at h) (xs ! i)" "length (texts h xs) = length xs"
  by (simp_all add: texts_def)

subsection \<open>The operations on the invariant\<close>

lemma heap_find_dict:
  assumes "heap_ok d h" "i + k \<le> hd_size d"
  shows "heap_find h d hash key i k = Inr (find_key (dict_of d h) hash key i k)"
  using assms(2)
proof (induction k arbitrary: i)
  case (Suc k)
  have i: "i < length (hd_key d)" using assms(1) Suc.prems by (simp add: heap_ok_def)
  show ?case
  proof (cases "hd_key d ! i")
    case None
    with Suc i show ?thesis by (simp add: texts_nth)
  next
    case (Some a)
    then obtain s where "blocks h a = Some (Chars s)"
      using assms(1) somes_mem [OF Some i] by (auto simp: heap_ok_def)
    with Some Suc i show ?thesis by (auto simp: texts_nth chars_def text_at_def)
  qed
qed simp

lemma heap_ok_lengths: "heap_ok d h \<Longrightarrow> length (hd_key d) = hd_size d \<and> length (hd_val d) = hd_size d"
  by (simp add: heap_ok_def)

text \<open>A slot of the values with other content; everything else as it was.\<close>

lemma heap_replace_ok:
  assumes ok: "heap_ok d h" and i: "i < hd_size d" "hd_key d ! i \<noteq> None"
    and v: "caller_text (owned d) h val s"
  obtains d' h' where "heap_replace val i d h = Inr (d', h')" "heap_ok d' h'" "rest (owned d') h' = rest (owned d) h"
    "dict_of d' h' = (dict_of d h)\<lparr>d_val := (texts h (hd_val d))[i := s]\<rparr>"
proof -
  let ?M = "owned (d\<lparr>hd_val := (hd_val d)[i := None]\<rparr>)"
  have len: "i < length (hd_val d)" using ok i(1) by (simp add: heap_ok_def)
  have M: "owned d = ?M + ptrs (hd_val d ! i)" using somes_clear [OF len] by (simp add: owned_def)
  have "mem_ok (?M + ptrs (hd_val d ! i)) h" using ok unfolding heap_ok_def M by simp
  then obtain h1 where h1: "free_ptr (hd_val d ! i) h = Inr h1" "mem_ok ?M h1"
    "rest ?M h1 = rest (?M + ptrs (hd_val d ! i)) h" "\<And>x. x \<in># ?M \<Longrightarrow> blocks h1 x = blocks h x"
    by (rule free_ptr_ok) blast
  have "caller_text ?M h1 val s" using v caller_text_cong [OF h1(3)] by (simp only: M [symmetric])
  then obtain q h2 where h2: "xstrdup val h1 = Inr (q, h2)" "mem_ok (?M + ptrs q) h2"
    "rest (?M + ptrs q) h2 = rest ?M h1" "map_option (text_at h2) q = s"
    "\<And>x. x \<in># ?M \<Longrightarrow> blocks h2 x = blocks h1 x"
    "\<And>x. x \<in># ptrs q \<Longrightarrow> \<exists>t. blocks h2 x = Some (Chars t)"
    by (rule xstrdup_ok [OF h1(2)]) blast
  let ?d = "d\<lparr>hd_val := (hd_val d)[i := q]\<rparr>"
  have own: "owned ?d = ?M + ptrs q" using somes_set [OF len, of q] by (simp add: owned_def)
  have same: "blocks h2 x = blocks h x" if "x \<in># ?M" for x using h1(4) h2(5) that by simp
  have "heap_replace val i d h = Inr (?d, h2)" by (simp add: heap_replace_def h1(1) h2(1))
  moreover have "heap_ok ?d h2"
  proof -
    have "\<exists>t. blocks h2 a = Some (Chars t)" if "a \<in># somes (hd_key d) + (somes ((hd_val d)[i := None]) + ptrs q)" for a
    proof (cases "a \<in># ptrs q")
      case False
      with that have "a \<in># ?M" "a \<in># somes (hd_key d) + somes (hd_val d)"
        using somes_clear [OF len] by (auto simp: owned_def)
      with ok same show ?thesis by (auto simp: heap_ok_def)
    qed (rule h2(6))
    then show ?thesis
      using ok h2(2) i somes_set [OF len, of q] unfolding heap_ok_def own by (auto simp: nth_list_update)
  qed
  moreover have "rest (owned ?d) h2 = rest (owned d) h" unfolding own M using h2(3) h1(3) by simp
  moreover have "texts h2 (hd_key d) = texts h (hd_key d)" by (rule texts_cong) (rule same, simp add: owned_def)
  moreover have "texts h2 ((hd_val d)[i := q]) = (texts h (hd_val d))[i := s]"
    unfolding h2(4) [symmetric] by (rule texts_update [OF same len]) (simp add: owned_def)
  ultimately show ?thesis by (intro that [of ?d h2]) (simp_all add: dict_of_def)
qed

lemma heap_insert_ok:
  assumes ok: "heap_ok d h" and i: "i < hd_size d" "hd_key d ! i = None"
    and k: "caller_text (owned d) h (Some key) (Some str)" and v: "caller_text (owned d) h val s"
  obtains d' h' where "heap_insert hash key val i d h = Inr (d', h')" "heap_ok d' h'"
    "rest (owned d') h' = rest (owned d) h"
    "dict_of d' h' = (dict_of d h)\<lparr>d_key := (texts h (hd_key d))[i := Some str],
       d_val := (texts h (hd_val d))[i := s], d_hash := (hd_hash d)[i := hash], d_n := hd_n d + 1\<rparr>"
proof -
  let ?M = "owned d"
  have len: "i < length (hd_key d)" "i < length (hd_val d)" using ok i(1) by (simp_all add: heap_ok_def)
  have free: "hd_val d ! i = None" using ok i by (simp add: heap_ok_def)
  have mem: "mem_ok ?M h" using ok by (simp add: heap_ok_def)
  obtain p h1 where h1: "xstrdup (Some key) h = Inr (p, h1)" "mem_ok (?M + ptrs p) h1"
    "rest (?M + ptrs p) h1 = rest ?M h" "map_option (text_at h1) p = Some str"
    "\<And>x. x \<in># ?M \<Longrightarrow> blocks h1 x = blocks h x"
    "\<And>x. x \<in># ptrs p \<Longrightarrow> \<exists>t. blocks h1 x = Some (Chars t)" "p = None \<longleftrightarrow> Some key = None"
    by (rule xstrdup_ok [OF mem k]) blast
  have "caller_text (?M + ptrs p) h1 val s" using v caller_text_cong [OF h1(3)] by simp
  then obtain q h2 where h2: "xstrdup val h1 = Inr (q, h2)" "mem_ok (?M + ptrs p + ptrs q) h2"
    "rest (?M + ptrs p + ptrs q) h2 = rest (?M + ptrs p) h1" "map_option (text_at h2) q = s"
    "\<And>x. x \<in># ?M + ptrs p \<Longrightarrow> blocks h2 x = blocks h1 x"
    "\<And>x. x \<in># ptrs q \<Longrightarrow> \<exists>t. blocks h2 x = Some (Chars t)" "q = None \<longleftrightarrow> val = None"
    by (rule xstrdup_ok [OF h1(2)]) blast
  let ?d = "d\<lparr>hd_key := (hd_key d)[i := p], hd_val := (hd_val d)[i := q],
              hd_hash := (hd_hash d)[i := hash], hd_n := hd_n d + 1\<rparr>"
  have som: "somes ((hd_key d)[i := p]) = somes (hd_key d) + ptrs p"
    "somes ((hd_val d)[i := q]) = somes (hd_val d) + ptrs q"
    using somes_update [OF len(1), of p] somes_update [OF len(2), of q] i(2) free by simp_all
  have own: "owned ?d = ?M + ptrs p + ptrs q" by (simp add: owned_def som)
  have same: "blocks h2 x = blocks h x" if "x \<in># ?M" for x using h1(5) h2(5) that by simp
  obtain a where p: "p = Some a" using h1(7) by blast
  have ta: "blocks h2 a = blocks h1 a" using h2(5) by (simp add: p)
  have "heap_insert hash key val i d h = Inr (?d, h2)" by (simp add: heap_insert_def h1(1) h2(1))
  moreover have "heap_ok ?d h2"
  proof -
    have "\<exists>t. blocks h2 x = Some (Chars t)"
      if "x \<in># somes (hd_key d) + ptrs p + (somes (hd_val d) + ptrs q)" for x
    proof (cases "x \<in># ptrs q \<or> x \<in># ptrs p")
      case True
      with h1(6) h2(6) ta show ?thesis by (auto simp: p)
    next
      case False
      with that have "x \<in># ?M" "x \<in># somes (hd_key d) + somes (hd_val d)" by (auto simp: owned_def)
      with ok same show ?thesis by (auto simp: heap_ok_def)
    qed
    moreover have "(hd_key d)[i := p] ! j = None \<longrightarrow> (hd_val d)[i := q] ! j = None" if "j < hd_size d" for j
      using ok that len p by (cases "j = i") (simp_all add: heap_ok_def)
    ultimately show ?thesis using ok h2(2) unfolding heap_ok_def own by (simp add: som)
  qed
  moreover have "rest (owned ?d) h2 = rest (owned d) h" unfolding own using h2(3) h1(3) by simp
  moreover have "texts h2 ((hd_key d)[i := p]) = (texts h (hd_key d))[i := Some str]"
  proof -
    have "map_option (text_at h2) p = Some str" using h1(4) ta by (simp add: p text_at_def)
    moreover have "texts h2 ((hd_key d)[i := p]) = (texts h (hd_key d))[i := map_option (text_at h2) p]"
      by (rule texts_update [OF same len(1)]) (use somes_clear [OF len(1)] in \<open>auto simp: owned_def\<close>)
    ultimately show ?thesis by (simp only:)
  qed
  moreover have "texts h2 ((hd_val d)[i := q]) = (texts h (hd_val d))[i := s]"
    unfolding h2(4) [symmetric]
    by (rule texts_update [OF same len(2)]) (use somes_clear [OF len(2)] in \<open>auto simp: owned_def\<close>)
  ultimately show ?thesis by (intro that [of ?d h2]) (simp_all add: dict_of_def)
qed

lemma heap_remove_ok:
  assumes ok: "heap_ok d h" and i: "i < hd_size d"
  obtains d' h' where "heap_remove i d h = Inr (d', h')" "heap_ok d' h'" "rest (owned d') h' = rest (owned d) h"
    "dict_of d' h' = (dict_of d h)\<lparr>d_key := (texts h (hd_key d))[i := None],
       d_val := (texts h (hd_val d))[i := None], d_hash := (hd_hash d)[i := 0], d_n := hd_n d - 1\<rparr>"
proof -
  let ?d = "d\<lparr>hd_key := (hd_key d)[i := None], hd_val := (hd_val d)[i := None],
              hd_hash := (hd_hash d)[i := 0], hd_n := hd_n d - 1\<rparr>"
  let ?M = "owned ?d"
  have len: "i < length (hd_key d)" "i < length (hd_val d)" using ok i by (simp_all add: heap_ok_def)
  have M: "owned d = ?M + ptrs (hd_val d ! i) + ptrs (hd_key d ! i)"
    using somes_clear [OF len(1)] somes_clear [OF len(2)] by (simp add: owned_def ac_simps)
  have "mem_ok (?M + ptrs (hd_val d ! i) + ptrs (hd_key d ! i)) h" using ok unfolding heap_ok_def M by simp
  then obtain h1 where h1: "free_ptr (hd_key d ! i) h = Inr h1" "mem_ok (?M + ptrs (hd_val d ! i)) h1"
    "rest (?M + ptrs (hd_val d ! i)) h1 = rest (owned d) h"
    "\<And>x. x \<in># ?M + ptrs (hd_val d ! i) \<Longrightarrow> blocks h1 x = blocks h x"
    unfolding M by (rule free_ptr_ok) blast
  from h1(2) obtain h2 where h2: "free_ptr (hd_val d ! i) h1 = Inr h2" "mem_ok ?M h2"
    "rest ?M h2 = rest (?M + ptrs (hd_val d ! i)) h1" "\<And>x. x \<in># ?M \<Longrightarrow> blocks h2 x = blocks h1 x"
    by (rule free_ptr_ok) blast
  have same: "blocks h2 x = blocks h x" if "x \<in># ?M" for x using h1(4) h2(4) that by simp
  have "heap_remove i d h = Inr (?d, h2)" by (simp add: heap_remove_def h1(1) h2(1))
  moreover have "heap_ok ?d h2"
  proof -
    have "\<exists>t. blocks h2 x = Some (Chars t)"
      if "x \<in># somes ((hd_key d)[i := None]) + somes ((hd_val d)[i := None])" for x
    proof -
      have "x \<in># ?M" "x \<in># somes (hd_key d) + somes (hd_val d)"
        using that somes_clear [OF len(1)] somes_clear [OF len(2)] by (auto simp: owned_def)
      with ok same show ?thesis by (auto simp: heap_ok_def)
    qed
    moreover have "(hd_key d)[i := None] ! j = None \<longrightarrow> (hd_val d)[i := None] ! j = None" if "j < hd_size d" for j
      using ok that len by (cases "j = i") (simp_all add: heap_ok_def)
    ultimately show ?thesis using ok h2(2) unfolding heap_ok_def by simp
  qed
  moreover have "rest ?M h2 = rest (owned d) h" using h2(3) h1(3) by simp
  moreover have "texts h2 ((hd_key d)[i := None]) = (texts h (hd_key d))[i := None]"
    using texts_update [OF same len(1), of None] by (simp add: owned_def)
  moreover have "texts h2 ((hd_val d)[i := None]) = (texts h (hd_val d))[i := None]"
    using texts_update [OF same len(2), of None] by (simp add: owned_def)
  ultimately show ?thesis by (intro that [of ?d h2]) (simp_all add: dict_of_def)
qed

lemma double_block_ok:
  assumes "mem_ok (add_mset a M) h"
  obtains b h' where "double_block a h = Inr (b, h')" "mem_ok (add_mset b M) h'"
    "rest (add_mset b M) h' = rest (add_mset a M) h" "\<And>x. x \<in># M \<Longrightarrow> blocks h' x = blocks h x"
proof -
  obtain b h1 where m: "malloc Array h = (b, h1)" by (cases "malloc Array h")
  note new = mem_ok_malloc [OF assms m]
  have "mem_ok (add_mset a (add_mset b M)) h1" using new(1) by (simp add: add_mset_commute)
  then obtain h2 where h2: "release a h1 = Inr h2" "mem_ok (add_mset b M) h2"
    "rest (add_mset b M) h2 = rest (add_mset a (add_mset b M)) h1"
    "\<And>x. x \<in># add_mset b M \<Longrightarrow> blocks h2 x = blocks h1 x"
    by (rule mem_ok_release) blast
  show ?thesis
    using h2 new by (intro that [of b h2]) (simp_all add: double_block_def m add_mset_commute)
qed

lemma heap_grow_ok:
  assumes ok: "heap_ok d h"
  obtains d' h' where "heap_grow d h = Inr (d', h')" "heap_ok d' h'" "rest (owned d') h' = rest (owned d) h"
    "dict_of d' h' = dictionary_grow (dict_of d h)" "hd_n d' = hd_n d" "hd_size d' = hd_size d * 2"
proof -
  let ?S = "somes (hd_key d) + somes (hd_val d)"
  have "mem_ok (add_mset (val_block d) (add_mset (key_block d) (add_mset (hash_block d) (add_mset (self_block d) ?S)))) h"
    using ok by (simp add: heap_ok_def owned_def add_mset_commute)
  then obtain v h1 where h1: "double_block (val_block d) h = Inr (v, h1)"
    "mem_ok (add_mset v (add_mset (key_block d) (add_mset (hash_block d) (add_mset (self_block d) ?S)))) h1"
    "rest (add_mset v (add_mset (key_block d) (add_mset (hash_block d) (add_mset (self_block d) ?S)))) h1 =
     rest (add_mset (val_block d) (add_mset (key_block d) (add_mset (hash_block d) (add_mset (self_block d) ?S)))) h"
    "\<And>x. x \<in># ?S \<Longrightarrow> blocks h1 x = blocks h x"
    by (rule double_block_ok) (simp add: that)
  from h1(2) have "mem_ok (add_mset (key_block d) (add_mset v (add_mset (hash_block d) (add_mset (self_block d) ?S)))) h1"
    by (simp add: add_mset_commute)
  then obtain k h2 where h2: "double_block (key_block d) h1 = Inr (k, h2)"
    "mem_ok (add_mset k (add_mset v (add_mset (hash_block d) (add_mset (self_block d) ?S)))) h2"
    "rest (add_mset k (add_mset v (add_mset (hash_block d) (add_mset (self_block d) ?S)))) h2 =
     rest (add_mset (key_block d) (add_mset v (add_mset (hash_block d) (add_mset (self_block d) ?S)))) h1"
    "\<And>x. x \<in># ?S \<Longrightarrow> blocks h2 x = blocks h1 x"
    by (rule double_block_ok) simp
  from h2(2) have "mem_ok (add_mset (hash_block d) (add_mset k (add_mset v (add_mset (self_block d) ?S)))) h2"
    by (simp add: add_mset_commute)
  then obtain x h3 where h3: "double_block (hash_block d) h2 = Inr (x, h3)"
    "mem_ok (add_mset x (add_mset k (add_mset v (add_mset (self_block d) ?S)))) h3"
    "rest (add_mset x (add_mset k (add_mset v (add_mset (self_block d) ?S)))) h3 =
     rest (add_mset (hash_block d) (add_mset k (add_mset v (add_mset (self_block d) ?S)))) h2"
    "\<And>y. y \<in># ?S \<Longrightarrow> blocks h3 y = blocks h2 y"
    by (rule double_block_ok) simp
  let ?d = "d\<lparr>hd_val := mem_double None (hd_val d), hd_key := mem_double None (hd_key d),
              hd_hash := mem_double 0 (hd_hash d), hd_size := hd_size d * 2,
              val_block := v, key_block := k, hash_block := x\<rparr>"
  have som: "somes (mem_double None xs) = somes xs" for xs by (simp add: mem_double_def)
  have own: "owned ?d = add_mset x (add_mset k (add_mset v (add_mset (self_block d) ?S)))"
    by (simp add: owned_def som add_mset_commute)
  have same: "blocks h3 y = blocks h y" if "y \<in># ?S" for y using h1(4) h2(4) h3(4) that by simp
  have tx: "texts h3 (mem_double None xs) = mem_double None (texts h xs)" if "set_mset (somes xs) \<subseteq> set_mset ?S" for xs
    using texts_cong [of xs h3 h] same that by (auto simp: texts_def mem_double_def map_replicate_const)
  have "heap_grow d h = Inr (?d, h3)" by (simp add: heap_grow_def h1(1) h2(1) h3(1))
  moreover have "heap_ok ?d h3"
    using ok h3(2) same unfolding heap_ok_def own by (auto simp: som mem_double_def nth_append)
  moreover have "rest (owned ?d) h3 = rest (owned d) h"
    unfolding own using h3(3) h2(3) h1(3) by (simp add: owned_def add_mset_commute)
  moreover have "dict_of ?d h3 = dictionary_grow (dict_of d h)"
    by (simp add: dict_of_def dictionary_grow_def tx)
  ultimately show ?thesis by (intro that [of ?d h3]) simp_all
qed

text \<open>The whole operations. The hash values of the dictionary it stands for are right.\<close>

definition dict_inv :: "heap_dict \<Rightarrow> heap \<Rightarrow> bool" where
  "dict_inv d h \<longleftrightarrow> heap_ok d h \<and> dict_wf (dict_of d h)"

lemma probe_texts:
  "i < sz \<Longrightarrow> length keys = sz \<Longrightarrow> probe (texts h keys) sz i fuel = probe keys sz i fuel"
  by (induction fuel arbitrary: i) (auto simp: texts_nth)

lemma heap_insert_free_ok:
  assumes ok: "heap_ok d h" and wf: "dict_wf (dict_of d h)" and n: "hd_n d < hd_size d"
    and k: "caller_text (owned d) h (Some key) (Some str)" and v: "caller_text (owned d) h val s"
    and i: "probe (texts h (hd_key d)) (hd_size d) (hd_n d) (hd_size d) = Some i"
  obtains d' h' where "heap_insert hash key val i d h = Inr (d', h')" "heap_ok d' h'"
    "rest (owned d') h' = rest (owned d) h"
    "dict_of d' h' = (dict_of d h)\<lparr>d_key := (texts h (hd_key d))[i := Some str],
       d_val := (texts h (hd_val d))[i := s], d_hash := (hd_hash d)[i := hash], d_n := hd_n d + 1\<rparr>"
proof -
  have len: "length (texts h (hd_key d)) = hd_size d" using ok by (simp add: heap_ok_def texts_nth)
  have "occupied (texts h (hd_key d)) < hd_size d" using wf n by (simp add: dict_wf_def)
  from probe_free_slot [OF len n this] i have "i < hd_size d" "texts h (hd_key d) ! i = None" by auto
  then have "i < hd_size d" "hd_key d ! i = None" using ok by (simp_all add: texts_nth heap_ok_def)
  from heap_insert_ok [OF ok this k v] that show ?thesis by metis
qed

lemma heap_put_ok:
  assumes inv: "dict_inv d h" and k: "caller_text (owned d) h (Some key) (Some str)"
    and v: "caller_text (owned d) h val s"
  obtains d' h' where "heap_put d key val h = Inr (d', h')" "dict_inv d' h'"
    "rest (owned d') h' = rest (owned d) h" "dict_of d' h' = dict_put (dict_of d h) str s"
proof -
  have ok: "heap_ok d h" and wf: "dict_wf (dict_of d h)" using inv by (simp_all add: dict_inv_def)
  have str: "chars h key = Inr str" using caller_chars [OF k] by simp
  define hash where "hash = dictionary_hash str"
  have put: "dictionary_set (Some (dict_of d h)) (Some str) s = Some (0, Some (dict_put (dict_of d h) str s))"
    "dict_wf (dict_put (dict_of d h) str s)" using dict_put [OF wf] by simp_all
  define look where "look = (if 0 < hd_n d then find_key (dict_of d h) hash str 0 (hd_size d) else None)"
  have look: "(if 0 < hd_n d then heap_find h d hash str 0 (hd_size d) else Inr None) = Inr look"
    using heap_find_dict [OF ok, of 0 "hd_size d"] by (simp add: look_def)
  show ?thesis
  proof (cases look)
    case (Some i)
    then have i: "i < hd_size d" "hd_key d ! i \<noteq> None"
      using find_key_Some [OF wf, of str i] ok
      by (auto simp: look_def hash_def texts_nth heap_ok_def split: if_splits)
    obtain d' h' where r: "heap_replace val i d h = Inr (d', h')" "heap_ok d' h'"
      "rest (owned d') h' = rest (owned d) h" "dict_of d' h' = (dict_of d h)\<lparr>d_val := (texts h (hd_val d))[i := s]\<rparr>"
      by (rule heap_replace_ok [OF ok i v])
    have "heap_put d key val h = Inr (d', h')"
      using look Some r(1) by (simp add: heap_put_def str hash_def [symmetric] Let_def)
    moreover have "dict_put (dict_of d h) str s = dict_of d' h'"
      using put(1) Some by (simp add: dictionary_set_def look_def hash_def Let_def r(4) split: if_splits)
    ultimately show ?thesis using r put(2) that by (simp add: dict_inv_def)
  next
    case None
    have n: "hd_n d \<le> hd_size d" "0 < hd_size d"
      using wf occupied_le [of "texts h (hd_key d)"] by (simp_all add: dict_wf_def)
    obtain d1 h1 where g: "(if hd_n d = hd_size d then heap_grow d h else Inr (d, h)) = Inr (d1, h1)"
      "heap_ok d1 h1" "rest (owned d1) h1 = rest (owned d) h" "hd_n d1 < hd_size d1"
      "dict_of d1 h1 = (if hd_n d = hd_size d then dictionary_grow (dict_of d h) else dict_of d h)"
    proof (cases "hd_n d = hd_size d")
      case True
      then show ?thesis using heap_grow_ok [OF ok] that n by (metis less_add_same_cancel1 mult_2_right)
    next
      case False
      then show ?thesis using ok n by (intro that [of d h]) simp_all
    qed
    have wf1: "dict_wf (dict_of d1 h1)" using g(5) wf dict_grow(1) [OF wf] by simp
    have len1: "length (hd_key d1) = hd_size d1" using g(2) by (simp add: heap_ok_def)
    have set_eq: "dictionary_set (Some (dict_of d h)) (Some str) s =
        (case probe (texts h1 (hd_key d1)) (hd_size d1) (hd_n d1) (hd_size d1) of
           None \<Rightarrow> None
         | Some i \<Rightarrow> Some (0, Some ((dict_of d1 h1)\<lparr>d_key := (texts h1 (hd_key d1))[i := Some str],
             d_val := (texts h1 (hd_val d1))[i := s], d_hash := (hd_hash d1)[i := hash], d_n := hd_n d1 + 1\<rparr>)))"
    proof -
      have miss: "(if 0 < d_n (dict_of d h) then find_key (dict_of d h) hash str 0 (d_size (dict_of d h)) else None) = None"
        using None by (cases "0 < hd_n d") (simp_all add: look_def)
      show ?thesis
        unfolding dictionary_set_def prod.case option.case Let_def hash_def [symmetric] miss
        by (simp only: dict_of_simps g(5) [symmetric] option.case)
    qed
    with put(1) obtain i where i: "probe (texts h1 (hd_key d1)) (hd_size d1) (hd_n d1) (hd_size d1) = Some i"
      by (cases "probe (texts h1 (hd_key d1)) (hd_size d1) (hd_n d1) (hd_size d1)") auto
    have k1: "caller_text (owned d1) h1 (Some key) (Some str)" "caller_text (owned d1) h1 val s"
      using k v caller_text_cong [OF g(3)] by simp_all
    obtain d' h' where r: "heap_insert hash key val i d1 h1 = Inr (d', h')" "heap_ok d' h'"
      "rest (owned d') h' = rest (owned d1) h1"
      "dict_of d' h' = (dict_of d1 h1)\<lparr>d_key := (texts h1 (hd_key d1))[i := Some str],
         d_val := (texts h1 (hd_val d1))[i := s], d_hash := (hd_hash d1)[i := hash], d_n := hd_n d1 + 1\<rparr>"
      by (rule heap_insert_free_ok [OF g(2) wf1 g(4) k1 i])
    have "heap_put d key val h = Inr (d', h')"
      using look None g(1) r(1) i
      by (simp add: heap_put_def str hash_def [symmetric] Let_def probe_texts [OF g(4) len1])
    moreover have "dict_put (dict_of d h) str s = dict_of d' h'" using put(1) i by (simp add: set_eq r(4))
    ultimately show ?thesis using r g(3) put(2) that by (simp add: dict_inv_def)
  qed
qed

lemma heap_take_ok:
  assumes inv: "dict_inv d h" and k: "caller_text (owned d) h (Some key) (Some str)"
  obtains d' h' where "heap_take d key h = Inr (d', h')" "dict_inv d' h'"
    "rest (owned d') h' = rest (owned d) h" "dict_of d' h' = dictionary_unset (dict_of d h) (Some str)"
proof -
  have ok: "heap_ok d h" and wf: "dict_wf (dict_of d h)" using inv by (simp_all add: dict_inv_def)
  have str: "chars h key = Inr str" using caller_chars [OF k] by simp
  have find: "heap_find h d (dictionary_hash str) str 0 (hd_size d) =
      Inr (find_key (dict_of d h) (dictionary_hash str) str 0 (hd_size d))"
    using heap_find_dict [OF ok, of 0 "hd_size d"] by simp
  show ?thesis
  proof (cases "find_key (dict_of d h) (dictionary_hash str) str 0 (hd_size d)")
    case None
    then show ?thesis
      using inv by (intro that [of d h]) (simp_all add: heap_take_def str find dictionary_unset_def)
  next
    case (Some i)
    then have "i < hd_size d" using find_key_Some(1) [OF wf, of str i] by simp
    then obtain d' h' where r: "heap_remove i d h = Inr (d', h')" "heap_ok d' h'" "rest (owned d') h' = rest (owned d) h"
      "dict_of d' h' = (dict_of d h)\<lparr>d_key := (texts h (hd_key d))[i := None],
         d_val := (texts h (hd_val d))[i := None], d_hash := (hd_hash d)[i := 0], d_n := hd_n d - 1\<rparr>"
      by (rule heap_remove_ok [OF ok])
    have eq: "dict_of d' h' = dictionary_unset (dict_of d h) (Some str)"
      using Some by (simp add: dictionary_unset_def r(4))
    show ?thesis
      using r Some eq dictionary_unset_map(1) [OF wf, of str]
      by (intro that [of d' h']) (simp_all add: heap_take_def str find dict_inv_def)
  qed
qed

lemma free_ptrs_ok:
  assumes "mem_ok (M + somes ps) h"
  obtains h' where "free_ptrs ps h = Inr h'" "mem_ok M h'" "rest M h' = rest (M + somes ps) h"
  using assms
proof (induction ps arbitrary: h thesis)
  case Nil
  then show ?case by simp
next
  case (Cons p ps)
  have "mem_ok (M + somes ps + ptrs p) h" using Cons.prems(2) by (simp add: ac_simps)
  then obtain h1 where h1: "free_ptr p h = Inr h1" "mem_ok (M + somes ps) h1"
    "rest (M + somes ps) h1 = rest (M + somes ps + ptrs p) h" by (rule free_ptr_ok) blast
  obtain h' where "free_ptrs ps h1 = Inr h'" "mem_ok M h'" "rest M h' = rest (M + somes ps) h1"
    by (rule Cons.IH [OF _ h1(2)])
  with h1 show ?case by (intro Cons.prems(1) [of h']) (simp_all add: ac_simps)
qed

lemma somes_slots:
  "length xs = n \<Longrightarrow> length ys = n \<Longrightarrow> somes (concat (map (\<lambda>i. [xs ! i, ys ! i]) [0..<n])) = somes xs + somes ys"
proof (induction n arbitrary: xs ys)
  case (Suc n)
  obtain x xs' y ys' where eq: "xs = xs' @ [x]" "ys = ys' @ [y]"
    using Suc.prems by (metis length_Suc_conv_rev)
  then have len: "length xs' = n" "length ys' = n" using Suc.prems by simp_all
  have "concat (map (\<lambda>i. [xs ! i, ys ! i]) [0..<Suc n]) =
      concat (map (\<lambda>i. [xs ! i, ys ! i]) [0..<n]) @ [xs ! n, ys ! n]" by simp
  also have "map (\<lambda>i. [xs ! i, ys ! i]) [0..<n] = map (\<lambda>i. [xs' ! i, ys' ! i]) [0..<n]"
    by (rule map_cong) (auto simp: eq nth_append len)
  also have "[xs ! n, ys ! n] = [x, y]" by (simp add: eq nth_append len)
  finally have "concat (map (\<lambda>i. [xs ! i, ys ! i]) [0..<Suc n]) =
      concat (map (\<lambda>i. [xs' ! i, ys' ! i]) [0..<n]) @ [x, y]" .
  with Suc.IH [OF len] show ?case by (simp only: somes_simps eq) (simp add: ac_simps)
qed simp

lemma heap_del_ok:
  assumes "heap_ok d h"
  obtains h' where "heap_del (Some d) h = Inr h'" "blocks h' = rest (owned d) h"
proof -
  let ?ps = "concat (map (\<lambda>i. [hd_key d ! i, hd_val d ! i]) [0..<hd_size d]) @
      [Some (val_block d), Some (key_block d), Some (hash_block d), Some (self_block d)]"
  have own: "somes ?ps = owned d"
    using assms by (simp add: somes_slots heap_ok_def owned_def add_mset_commute)
  have "mem_ok ({#} + somes ?ps) h" using assms unfolding own by (simp add: heap_ok_def)
  then obtain h' where h': "free_ptrs ?ps h = Inr h'" "rest {#} h' = rest ({#} + somes ?ps) h"
    by (rule free_ptrs_ok) blast
  have "blocks h' = rest (owned d) h" using h'(2) unfolding own by simp
  moreover have "heap_del (Some d) h = Inr h'" unfolding heap_del_def option.case by (rule h'(1))
  ultimately show ?thesis by (rule that [rotated])
qed

lemma heap_new_ok:
  assumes "\<forall>a \<ge> next_addr h. blocks h a = None"
  obtains d h' where "heap_new n h = (d, h')" "dict_inv d h'" "rest (owned d) h' = blocks h"
    "dict_of d h' = dictionary_new n"
proof -
  obtain s h1 where m1: "malloc Array h = (s, h1)" by (cases "malloc Array h")
  obtain v h2 where m2: "malloc Array h1 = (v, h2)" by (cases "malloc Array h1")
  obtain k h3 where m3: "malloc Array h2 = (k, h3)" by (cases "malloc Array h2")
  obtain x h4 where m4: "malloc Array h3 = (x, h4)" by (cases "malloc Array h3")
  have ok0: "mem_ok {#} h" using assms by (simp add: mem_ok_def)
  note ok1 = mem_ok_malloc(1,2) [OF ok0 m1]
  note ok2 = mem_ok_malloc(1,2) [OF ok1(1) m2]
  note ok3 = mem_ok_malloc(1,2) [OF ok2(1) m3]
  note ok4 = mem_ok_malloc(1,2) [OF ok3(1) m4]
  define sz where "sz = (if n < DICTMINSZ then DICTMINSZ else n)"
  let ?d = "\<lparr>hd_n = 0, hd_size = sz, hd_val = replicate sz None, hd_key = replicate sz None,
     hd_hash = replicate sz 0, val_block = v, key_block = k, hash_block = x, self_block = s\<rparr>"
  have new: "heap_new n h = (?d, h4)" by (simp add: heap_new_def sz_def m1 m2 m3 m4)
  have own: "owned ?d = add_mset x (add_mset k (add_mset v {#s#}))" by (simp add: owned_def add_mset_commute)
  have "heap_ok ?d h4" using ok4(1) unfolding heap_ok_def own by simp
  moreover have "dict_of ?d h4 = dictionary_new n"
    by (simp add: dict_of_def dictionary_new_def texts_def sz_def map_replicate_const)
  moreover have "rest (owned ?d) h4 = blocks h"
    unfolding own using ok1(2) ok2(2) ok3(2) ok4(2) by simp
  ultimately show ?thesis using new dict_wf_new [of n] by (intro that [of ?d h4]) (simp_all add: dict_inv_def)
qed

subsection \<open>Runs\<close>

text \<open>Calls with the caller's pointers, and the same calls on theory Dictionary with the texts there.\<close>

datatype dict_call = SetCall "nat option" "nat option" | UnsetCall "nat option"

primrec heap_calls :: "dict_call list \<Rightarrow> heap_dict option \<times> heap \<Rightarrow> fault + (heap_dict option \<times> heap)" where
  "heap_calls [] dh = Inr dh"
| "heap_calls (c # cs) dh =
     (case (case c of
              SetCall key val \<Rightarrow> map_sum id snd (heap_set (fst dh) key val (snd dh))
            | UnsetCall key \<Rightarrow> heap_unset (fst dh) key (snd dh)) of
        Inl f \<Rightarrow> Inl f
      | Inr dh \<Rightarrow> heap_calls cs dh)"

definition text_call :: "heap \<Rightarrow> dict_call \<Rightarrow> dictionary \<Rightarrow> dictionary" where
  "text_call h0 c d =
     (case c of
        SetCall key val \<Rightarrow>
          (case key of None \<Rightarrow> d | Some key \<Rightarrow> dict_put d (text_at h0 key) (map_option (text_at h0) val))
      | UnsetCall key \<Rightarrow> dictionary_unset d (map_option (text_at h0) key))"

definition call_ptrs :: "dict_call \<Rightarrow> nat set" where
  "call_ptrs c =
     (case c of SetCall key val \<Rightarrow> set_option key \<union> set_option val | UnsetCall key \<Rightarrow> set_option key)"

lemma caller_text_at:
  "rest M h = blocks h0 \<Longrightarrow> \<forall>a \<in> set_option p. \<exists>s. blocks h0 a = Some (Chars s) \<Longrightarrow>
   caller_text M h p (map_option (text_at h0) p)"
  by (cases p) (auto simp: caller_text_def text_at_def)

lemma heap_call_ok:
  assumes inv: "dict_inv d h" "rest (owned d) h = blocks h0"
    and c: "\<forall>a \<in> call_ptrs c. \<exists>s. blocks h0 a = Some (Chars s)"
  obtains d1 h1 where "heap_calls (c # cs) (Some d, h) = heap_calls cs (Some d1, h1)" "dict_inv d1 h1"
    "rest (owned d1) h1 = rest (owned d) h" "dict_of d1 h1 = text_call h0 c (dict_of d h)"
proof -
  have ptr: "caller_text (owned d) h p (map_option (text_at h0) p)" if "set_option p \<subseteq> call_ptrs c" for p
    by (rule caller_text_at [OF inv(2)]) (use c that in auto)
  show ?thesis
  proof (cases c)
    case (SetCall keyp val)
    show ?thesis
    proof (cases keyp)
      case None
      then show ?thesis
        using inv by (intro that [of d h]) (simp_all add: SetCall text_call_def heap_set_def)
    next
      case (Some key)
      have k: "caller_text (owned d) h (Some key) (Some (text_at h0 key))"
        using ptr [of "Some key"] by (simp add: SetCall Some call_ptrs_def)
      have v: "caller_text (owned d) h val (map_option (text_at h0) val)"
        using ptr [of val] by (auto simp: SetCall call_ptrs_def)
      obtain d1 h1 where "heap_put d key val h = Inr (d1, h1)" "dict_inv d1 h1" "rest (owned d1) h1 = rest (owned d) h"
        "dict_of d1 h1 = dict_put (dict_of d h) (text_at h0 key) (map_option (text_at h0) val)"
        by (rule heap_put_ok [OF inv(1) k v])
      then show ?thesis by (intro that [of d1 h1]) (simp_all add: SetCall Some text_call_def heap_set_def)
    qed
  next
    case (UnsetCall keyp)
    show ?thesis
    proof (cases keyp)
      case None
      then show ?thesis
        using inv by (intro that [of d h]) (simp_all add: UnsetCall text_call_def heap_unset_def dictionary_unset_def)
    next
      case (Some key)
      have k: "caller_text (owned d) h (Some key) (Some (text_at h0 key))"
        using ptr [of "Some key"] by (simp add: UnsetCall Some call_ptrs_def)
      obtain d1 h1 where "heap_take d key h = Inr (d1, h1)" "dict_inv d1 h1" "rest (owned d1) h1 = rest (owned d) h"
        "dict_of d1 h1 = dictionary_unset (dict_of d h) (Some (text_at h0 key))"
        by (rule heap_take_ok [OF inv(1) k])
      then show ?thesis by (intro that [of d1 h1]) (simp_all add: UnsetCall Some text_call_def heap_unset_def)
    qed
  qed
qed

lemma heap_calls_ok:
  "dict_inv d h \<Longrightarrow> rest (owned d) h = blocks h0 \<Longrightarrow>
   \<forall>c \<in> set cs. \<forall>a \<in> call_ptrs c. \<exists>s. blocks h0 a = Some (Chars s) \<Longrightarrow>
   \<exists>d' h'. heap_calls cs (Some d, h) = Inr (Some d', h') \<and> dict_inv d' h' \<and> rest (owned d') h' = blocks h0 \<and>
     dict_of d' h' = fold (text_call h0) cs (dict_of d h)"
proof (induction cs arbitrary: d h)
  case (Cons c cs)
  obtain d1 h1 where step: "heap_calls (c # cs) (Some d, h) = heap_calls cs (Some d1, h1)" "dict_inv d1 h1"
    "rest (owned d1) h1 = rest (owned d) h" "dict_of d1 h1 = text_call h0 c (dict_of d h)"
    by (rule heap_call_ok [OF Cons.prems(1,2)]) (use Cons.prems(3) in auto)
  have "rest (owned d1) h1 = blocks h0" using step(3) Cons.prems(2) by simp
  from Cons.IH [OF step(2) this] Cons.prems(3) obtain d' h' where "heap_calls cs (Some d1, h1) = Inr (Some d', h')"
    "dict_inv d' h'" "rest (owned d') h' = blocks h0"
    "dict_of d' h' = fold (text_call h0) cs (dict_of d1 h1)" by auto
  with step(1,4) show ?case by (simp del: heap_calls.simps)
qed simp

subsection \<open>The test program\<close>

text \<open>
  \<open>main\<close> of dictionary.cpp, compiled with \<open>TESTDIC\<close>, for \<open>nvals\<close> values: the keys of the lines ``cannot get
  value'', and whether it prints ``error deleting values''.
\<close>

definition cval :: "nat \<Rightarrow> string" where
  "cval i = (let s = decimal i in replicate (4 - length s) CHR ''0'' @ s)"

definition dictionary_main :: "nat \<Rightarrow> string list \<times> bool" where
  "dictionary_main nvals =
     (let d = fold (\<lambda>i d. dict_put d (cval i) (Some ''salut'')) [0..<nvals] (dictionary_new 0);
          missing = filter (\<lambda>k. dictionary_get d k InvalidKey = InvalidKey) (map cval [0..<nvals]);
          d = fold (\<lambda>i d. dictionary_unset d (Some (cval i))) [0..<nvals] d
      in (missing, d_n d \<noteq> 0))"

lemma unset_all:
  "dict_wf d \<Longrightarrow> dict_wf (fold (\<lambda>i d. dictionary_unset d (Some (f i))) is d) \<and>
   dict_map (fold (\<lambda>i d. dictionary_unset d (Some (f i))) is d) =
     (\<lambda>k. if k \<in> f ` set is then None else dict_map d k)"
  by (induction "is" arbitrary: d) (auto simp: dictionary_unset_map fun_eq_iff)

lemma empty_map_no_entries: "dict_wf d \<Longrightarrow> dict_map d = (\<lambda>_. None) \<Longrightarrow> d_n d = 0"
  by (auto simp: dict_wf_def occupied_def fun_eq_iff dict_map_None filter_empty_conv in_set_conv_nth)
    (metis not_Some_eq)

subsection \<open>Properties\<close>

text \<open>C17: The dictionary manages its memory. For any calls of \<open>dictionary_set\<close> and \<open>dictionary_unset\<close> with
  strings of the caller, null pointers among them, growth and replaced values included: no call reads or frees a block that is not there; the
  dictionary in memory is the one of the model on the texts; and \<open>dictionary_del\<close> leaves the heap exactly as it
  was before \<open>dictionary_new\<close>, with every block the dictionary allocated freed once and no block of the
  caller touched.\<close>

theorem dictionary_manages_memory:
  assumes "\<forall>a \<ge> next_addr h0. blocks h0 a = None"
    and "\<forall>c \<in> set cs. \<forall>a \<in> call_ptrs c. \<exists>s. blocks h0 a = Some (Chars s)"
  shows "\<exists>d h h'. heap_calls cs (apfst Some (heap_new n h0)) = Inr (Some d, h) \<and>
    dict_of d h = fold (text_call h0) cs (dictionary_new n) \<and>
    heap_del (Some d) h = Inr h' \<and> blocks h' = blocks h0"
proof -
  obtain d0 h1 where new: "heap_new n h0 = (d0, h1)" "dict_inv d0 h1" "rest (owned d0) h1 = blocks h0"
    "dict_of d0 h1 = dictionary_new n"
    by (rule heap_new_ok [OF assms(1)])
  obtain d h where calls: "heap_calls cs (Some d0, h1) = Inr (Some d, h)" "dict_inv d h" "rest (owned d) h = blocks h0"
    "dict_of d h = fold (text_call h0) cs (dict_of d0 h1)"
    using heap_calls_ok [OF new(2,3) assms(2)] by blast
  obtain h' where "heap_del (Some d) h = Inr h'" "blocks h' = rest (owned d) h"
    by (rule heap_del_ok [of d h]) (use calls(2) in \<open>auto simp: dict_inv_def\<close>)
  with new calls show ?thesis by auto
qed

theorem dictionary_manages_memory_witness:
  "\<exists>d h h'. heap_calls [SetCall (Some 1) (Some 2), SetCall (Some 1) (Some 1), UnsetCall (Some 1)]
       (apfst Some (heap_new 0 \<lparr>blocks = [1 \<mapsto> Chars ''k'', 2 \<mapsto> Chars ''v''], next_addr = 3\<rparr>)) = Inr (Some d, h) \<and>
     heap_del (Some d) h = Inr h' \<and> blocks h' = [1 \<mapsto> Chars ''k'', 2 \<mapsto> Chars ''v'']"
  using dictionary_manages_memory [of "\<lparr>blocks = [1 \<mapsto> Chars ''k'', 2 \<mapsto> Chars ''v''], next_addr = 3\<rparr>"
      "[SetCall (Some 1) (Some 2), SetCall (Some 1) (Some 1), UnsetCall (Some 1)]" 0]
  by (auto simp: call_ptrs_def simp del: heap_calls.simps)

text \<open>A value must not be set to what \<open>dictionary_get\<close> returned for the same key. The pointer that
  \<open>dictionary_get\<close> returns is the dictionary's own, and \<open>dictionary_set\<close> frees the old value before it copies the
  new one.\<close>

theorem set_of_own_value_faults:
  assumes "dict_inv d h" "caller_text (owned d) h (Some key) (Some str)" "dict_map (dict_of d h) str \<noteq> None"
    and "heap_get h d key deflt = Inr (Some a)"
  shows "heap_set (Some d) (Some key) (Some a) h = Inl UseAfterFree"
proof -
  have ok: "heap_ok d h" and wf: "dict_wf (dict_of d h)" using assms(1) by (simp_all add: dict_inv_def)
  have str: "chars h key = Inr str" using caller_chars [OF assms(2)] by simp
  have find: "heap_find h d (dictionary_hash str) str 0 (hd_size d) =
      Inr (find_key (dict_of d h) (dictionary_hash str) str 0 (hd_size d))"
    using heap_find_dict [OF ok, of 0 "hd_size d"] by simp
  obtain i where i: "find_key (dict_of d h) (dictionary_hash str) str 0 (hd_size d) = Some i"
    using find_key_None [OF wf, of str] assms(3) by auto
  then have a: "hd_val d ! i = Some a" using assms(4) by (simp add: heap_get_def str find)
  from find_key_Some [OF wf, of str i] i have "i < d_size (dict_of d h)" "d_key (dict_of d h) ! i = Some str" by simp_all
  then have n: "0 < hd_n d" and len: "i < length (hd_val d)"
    using wf ok occupied_pos [of i "texts h (hd_key d)" str] by (simp_all add: dict_wf_def heap_ok_def)
  have "blocks h a \<noteq> None" using ok somes_mem [OF a len] by (auto simp: heap_ok_def)
  then have "free_ptr (Some a) h = Inr (h\<lparr>blocks := (blocks h)(a := None)\<rparr>)"
    by (auto simp: free_ptr_def release_def)
  then have "heap_replace (Some a) i d h = Inl UseAfterFree"
    by (simp add: heap_replace_def a xstrdup_def chars_def)
  then show ?thesis using n by (simp add: heap_set_def heap_put_def str find i Let_def)
qed

text \<open>The test program finds nothing. For any number of values it prints neither of its complaints: every
  value set is got back, and after all keys are unset the dictionary is empty.\<close>

theorem dictionary_main_passes: "dictionary_main nvals = ([], False)"
proof -
  let ?d = "fold (\<lambda>i d. dict_put d (cval i) (Some ''salut'')) [0..<nvals] (dictionary_new 0)"
  let ?e = "fold (\<lambda>i d. dictionary_unset d (Some (cval i))) [0..<nvals] ?d"
  have d: "?d = fold (\<lambda>(k, v) d. dict_put d k v) (map (\<lambda>i. (cval i, Some ''salut'')) [0..<nvals]) (dictionary_new 0)"
    by (simp add: fold_map comp_def)
  have wf: "dict_wf ?d" unfolding d by (rule dict.wf_put_all [OF dict_wf_new])
  have map: "dict_map ?d = map_of (rev (map (\<lambda>i. (cval i, Some ''salut'')) [0..<nvals]))"
    unfolding d dict.look_put_all [OF dict_wf_new] by (simp add: dict_map_new)
  have get: "dictionary_get ?d (cval i) InvalidKey = Ptr ''salut''" if "i < nvals" for i
  proof -
    have "dict_map ?d (cval i) \<noteq> None" unfolding map map_of_eq_None_iff using that by (auto simp: image_image)
    moreover have "dict_map ?d (cval i) = Some v \<Longrightarrow> v = Some ''salut''" for v
      unfolding map by (auto dest!: map_of_SomeD)
    ultimately show ?thesis by (auto simp: dictionary_get_map [OF wf] val_ptr_def)
  qed
  have "dict_map ?e = (\<lambda>_. None)"
  proof
    fix k
    show "dict_map ?e k = None"
    proof (cases "k \<in> cval ` set [0..<nvals]")
      case False
      then have "dict_map ?d k = None" unfolding map map_of_eq_None_iff by force
      then show ?thesis using unset_all [OF wf, of cval "[0..<nvals]"] by simp
    qed (use unset_all [OF wf, of cval "[0..<nvals]"] in simp)
  qed
  then have "d_n ?e = 0" using unset_all [OF wf, of cval "[0..<nvals]"] by (intro empty_map_no_entries) simp_all
  then show ?thesis using get by (auto simp: dictionary_main_def Let_def filter_empty_conv)
qed

end
