(* ===== verification/Addresses.thy ===== *)
theory Addresses
  imports Queues
begin

section \<open>Addresses as text\<close>

text \<open>
  \<open>GetLocalAddress\<close> (util/rpc\_util.cpp) and \<open>GetPeerAddr\<close> (util/rpc\_communication.cpp), over what the
  resolver and \<open>getpeername\<close> return, with the text \<open>inet_ntoa\<close> makes of an address. The lemmas show that the
  text is a C string that is not empty, and that it determines the address: machines with different
  addresses have different names, which is what the centers compare.
\<close>

type_synonym in_addr = "u8 \<times> u8 \<times> u8 \<times> u8"

definition inet_ntoa :: "in_addr \<Rightarrow> string" where
  "inet_ntoa a =
     (case a of (b0, b1, b2, b3) \<Rightarrow>
        decimal (unat b0) @ ''.'' @ decimal (unat b1) @ ''.'' @ decimal (unat b2) @ ''.'' @ decimal (unat b3))"

text \<open>The host entry is null when the name cannot be resolved, and the first pointer of its list is null when it has
  no address.\<close>

definition GetLocalAddress :: "in_addr list option \<Rightarrow> fault + string" where
  "GetLocalAddress hptr =
     (case hptr of
        None \<Rightarrow> Inl NullDeref
      | Some [] \<Rightarrow> Inl NullDeref
      | Some (a # _) \<Rightarrow> Inr (inet_ntoa a))"

definition GetPeerAddr :: "in_addr option \<Rightarrow> string \<Rightarrow> int \<times> string" where
  "GetPeerAddr peer guest_addr =
     (case peer of
        None \<Rightarrow> (-1, guest_addr)
      | Some a \<Rightarrow>
          (let addr = inet_ntoa a in
           if length (c_str addr) = 0 then (-1, guest_addr) else (0, c_str addr)))"

subsection \<open>Decimal numbers\<close>

definition number :: "string \<Rightarrow> nat" where
  "number s = foldl (\<lambda>n c. 10 * n + (of_char c - 48)) 0 s"

lemma digit_code: "(of_char (digit n) :: nat) = 48 + n mod 10"
  by (simp add: digit_def)

lemma number_decimal: "number (decimal n) = n"
proof (induction n rule: decimal.induct)
  case (1 n)
  then show ?case
    by (subst decimal.simps) (simp add: number_def digit_code)
qed

lemma decimal_digits: "c \<in> set (decimal n) \<Longrightarrow> \<exists>k < 10. (of_char c :: nat) = 48 + k"
proof (induction n rule: decimal.induct)
  case (1 n)
  have "\<exists>k < 10. (of_char (digit n) :: nat) = 48 + k" by (simp add: digit_code)
  with 1 show ?case by (subst (asm) (2) decimal.simps) (auto split: if_splits)
qed

lemma decimal_no_dot: "CHR ''.'' \<notin> set (decimal n)"
  using decimal_digits [of "CHR ''.''" n] by auto

lemma decimal_nonempty: "decimal n \<noteq> []"
  by (subst decimal.simps) simp

lemma decimal_nul_free: "nul_free (decimal n)"
  using decimal_digits [of "CHR 0x00" n] by (auto simp: nul_free_def)

lemma split_at:
  "xs @ c # xs' = ys @ c # ys' \<Longrightarrow> c \<notin> set xs \<Longrightarrow> c \<notin> set ys \<Longrightarrow> xs = ys \<and> xs' = ys'"
  by (induction xs arbitrary: ys) (auto simp: append_eq_Cons_conv Cons_eq_append_conv)

lemma inet_ntoa_inj: "inet_ntoa a = inet_ntoa b \<Longrightarrow> a = b"
proof -
  assume eq: "inet_ntoa a = inet_ntoa b"
  obtain a0 a1 a2 a3 where a: "a = (a0, a1, a2, a3)" by (cases a)
  obtain b0 b1 b2 b3 where b: "b = (b0, b1, b2, b3)" by (cases b)
  have inj: "x = y" if "decimal (unat x) = decimal (unat y)" for x y :: u8
    using that number_decimal by (metis unsigned_word_eqI)
  note split = split_at [OF _ decimal_no_dot decimal_no_dot]
  from eq have "decimal (unat a0) @ CHR ''.'' # decimal (unat a1) @ ''.'' @ decimal (unat a2) @ ''.'' @ decimal (unat a3) =
      decimal (unat b0) @ CHR ''.'' # decimal (unat b1) @ ''.'' @ decimal (unat b2) @ ''.'' @ decimal (unat b3)"
    by (simp add: inet_ntoa_def a b)
  from split [OF this] have 0: "a0 = b0" and
    eq1: "decimal (unat a1) @ CHR ''.'' # decimal (unat a2) @ ''.'' @ decimal (unat a3) =
      decimal (unat b1) @ CHR ''.'' # decimal (unat b2) @ ''.'' @ decimal (unat b3)"
    by (auto intro: inj)
  from split [OF eq1] have 1: "a1 = b1" and
    eq2: "decimal (unat a2) @ CHR ''.'' # decimal (unat a3) = decimal (unat b2) @ CHR ''.'' # decimal (unat b3)"
    by (auto intro: inj)
  from split [OF eq2] have "a2 = b2" "a3 = b3" by (auto intro: inj)
  with 0 1 show ?thesis by (simp add: a b)
qed

lemma inet_ntoa_text: "nul_free (inet_ntoa a)" "inet_ntoa a \<noteq> []"
  using decimal_nul_free decimal_nonempty
  by (auto simp: inet_ntoa_def nul_free_def split: prod.splits)

subsection \<open>Properties\<close>

text \<open>Names are faithful. A machine that has an address gets a name that is not empty and has no zero byte,
  and so does a peer; machines with different addresses get different names. A machine whose name does
  not resolve goes through a null pointer.\<close>

theorem local_names_faithful:
  "(\<exists>name. GetLocalAddress (Some (a # as)) = Inr name \<and> name \<noteq> [] \<and> nul_free name \<and>
      GetPeerAddr (Some a) guest = (0, name) \<and>
      (GetLocalAddress (Some (b # bs)) = Inr name \<longleftrightarrow> b = a)) \<and>
   GetLocalAddress None = Inl NullDeref"
proof -
  have "c_str (inet_ntoa a) = inet_ntoa a" by (rule c_str_id [OF inet_ntoa_text(1)])
  then show ?thesis
    using inet_ntoa_text [of a] inet_ntoa_inj [of b a] by (auto simp: GetLocalAddress_def GetPeerAddr_def Let_def)
qed

end
