(* ===== verification/PoolThreads.thy ===== *)
theory PoolThreads
  imports ThreadPool "HOL-Library.Multiset" "HOL-Library.Sublist"
begin

section \<open>The thread pool, statement by statement\<close>

text \<open>
  Theory ThreadPool runs \<open>DispatchRpcCall\<close> and the parts of \<open>LibevProcessor\<close> as one step each. Here
  any number of threads dispatch and any number of threads work at the same time, and a step is one access to
  what they share: a section under a mutex, a read or a write of \<open>current_thread_\<close> (which no mutex
  protects), a byte written to or read from a pipe. What a thread does alone between two of them is part of the
  step after it. The sections under a mutex are steps because of theory Locks. A dispatching, restarting or
  working thread is the place it has reached, with its local variables.

  Of libev the model has what its manual says: \<open>ev_run\<close> calls the callback while the pipe is readable,
  forgets an earlier \<open>ev_break\<close> when it starts, and returns after the callbacks when there was one. A
  thread that was cancelled ends at its next cancellation point: the wait of \<open>ev_run\<close>, one the
  processor may have, or the \<open>close\<close> of the backend's descriptor with which \<open>ev_loop_destroy\<close> begins, before
  it frees anything.
\<close>

subsection \<open>State\<close>

text \<open>
  A \<open>LIBEV_THREAD\<close>; \<open>watching\<close> says that its watcher has not been stopped, \<open>loop_live\<close> that its
  \<open>epoller\<close> has not been destroyed.
\<close>

record lane =
  lane_tid :: nat
  lane_version :: nat
  lane_queue :: queue
  lane_pipe :: string
  watching :: bool
  loop_done :: bool
  loop_live :: bool

text \<open>The places in \<open>DispatchRpcCall\<close>, \<open>RQItemNew\<close> and \<open>RQItemPush\<close>.\<close>

datatype 'm dispatcher =
    D_ready
  | D_new 'm
  | D_alloc 'm
  | D_link 'm nat
  | D_turn 'm nat
  | D_store 'm nat nat
  | D_fill 'm nat nat
  | D_push 'm nat nat
  | D_notify nat

text \<open>The places in \<open>LibevWorker\<close> and \<open>LibevProcessor\<close>.\<close>

datatype worker_pc =
    W_start
  | W_poll
  | W_pop
  | W_call "nat option"
  | W_in nat
  | W_count nat
  | W_free nat
  | W_check
  | W_leave
  | W_clean nat
  | W_dead

record worker =
  w_lane :: nat
  w_pc :: worker_pc
  cancelled :: bool

datatype restarter = R_ready | R_create nat

text \<open>The last three fields record what happened: the calls begun, the calls linked into a queue, the calls entered.\<close>

record 'm pool_state =
  mem :: "'m store"
  free_rq :: "nat option"
  turn :: int
  lanes :: "lane list"
  dispatchers :: "'m dispatcher list"
  workers :: "worker list"
  restarters :: "restarter list"
  begun :: "'m list"
  linked :: "(nat \<times> 'm) list"
  entered :: "(nat \<times> 'm) list"

definition pool_started :: "nat \<Rightarrow> nat \<Rightarrow> nat \<Rightarrow> 'm pool_state" where
  "pool_started n nd nr =
     \<lparr>mem = empty_store, free_rq = None, turn = - 1,
      lanes = map (\<lambda>i. \<lparr>lane_tid = i, lane_version = 0, lane_queue = \<lparr>head = None, tail = None\<rparr>,
        lane_pipe = [], watching = True, loop_done = False, loop_live = True\<rparr>) [0..<n],
      dispatchers = replicate nd D_ready,
      workers = map (\<lambda>i. \<lparr>w_lane = i, w_pc = W_start, cancelled = False\<rparr>) [0..<n],
      restarters = replicate nr R_ready, begun = [], linked = [], entered = []\<rparr>"

definition d_goto :: "nat \<Rightarrow> 'm dispatcher \<Rightarrow> 'm pool_state \<Rightarrow> 'm pool_state" where
  "d_goto d x s = s\<lparr>dispatchers := (dispatchers s)[d := x]\<rparr>"

definition w_goto :: "nat \<Rightarrow> worker_pc \<Rightarrow> 'm pool_state \<Rightarrow> 'm pool_state" where
  "w_goto w pc s = s\<lparr>workers := (workers s)[w := (workers s ! w)\<lparr>w_pc := pc\<rparr>]\<rparr>"

definition set_lane :: "nat \<Rightarrow> lane \<Rightarrow> 'm pool_state \<Rightarrow> 'm pool_state" where
  "set_lane i t s = s\<lparr>lanes := (lanes s)[i := t]\<rparr>"

subsection \<open>A thread that dispatches\<close>

definition begin_call :: "nat \<Rightarrow> 'm \<Rightarrow> 'm pool_state \<Rightarrow> 'm pool_state" where
  "begin_call d m s =
     (if d < length (dispatchers s) \<and> dispatchers s ! d = D_ready
      then d_goto d (D_new m) (s\<lparr>begun := begun s @ [m]\<rparr>) else s)"

text \<open>\<open>RQItemNew\<close>: the two sections under the mutex of the free list, and the new block between them.\<close>

definition new_from_list :: "nat \<Rightarrow> 'm \<Rightarrow> 'm pool_state \<Rightarrow> 'm pool_state" where
  "new_from_list d m s =
     (case free_rq s of
        Some a \<Rightarrow> d_goto d (D_turn m a) (s\<lparr>free_rq := get_next (mem s) a\<rparr>)
      | None \<Rightarrow> d_goto d (D_alloc m) s)"

definition new_block :: "nat \<Rightarrow> 'm \<Rightarrow> 'm pool_state \<Rightarrow> 'm pool_state" where
  "new_block d m s =
     (case alloc_block item_per_alloc (mem s) of (base, st) \<Rightarrow>
        d_goto d (D_link m base)
          (s\<lparr>mem := set_next (base + item_per_alloc - 1) None (link_block base 0 item_per_alloc st)\<rparr>))"

definition give_block :: "nat \<Rightarrow> 'm \<Rightarrow> nat \<Rightarrow> 'm pool_state \<Rightarrow> 'm pool_state" where
  "give_block d m base s =
     d_goto d (D_turn m base)
       (s\<lparr>mem := set_next (base + item_per_alloc - 1) (free_rq s) (mem s), free_rq := Some (base + 1)\<rparr>)"

text \<open>\<open>RQItemPush\<close>: the section under the mutex of the queue, with \<open>next = NULL\<close> before it.\<close>

definition push_item :: "nat \<Rightarrow> 'm \<Rightarrow> nat \<Rightarrow> nat \<Rightarrow> 'm pool_state \<Rightarrow> 'm pool_state" where
  "push_item d m a i s =
     (case link_tail a (mem s, lane_queue (lanes s ! i)) of (st, q) \<Rightarrow>
        d_goto d (D_notify i)
          (set_lane i ((lanes s ! i)\<lparr>lane_queue := q\<rparr>) (s\<lparr>mem := st, linked := linked s @ [(i, m)]\<rparr>)))"

definition dispatcher_step :: "nat \<Rightarrow> 'm pool_state \<Rightarrow> 'm pool_state" where
  "dispatcher_step d s =
     (if length (dispatchers s) \<le> d then s
      else
        (case dispatchers s ! d of
           D_ready \<Rightarrow> s
         | D_new m \<Rightarrow> new_from_list d m s
         | D_alloc m \<Rightarrow> new_block d m s
         | D_link m base \<Rightarrow> give_block d m base s
         | D_turn m a \<Rightarrow> d_goto d (D_store m a (nat ((turn s + 1) mod int (length (lanes s))))) s
         | D_store m a i \<Rightarrow> d_goto d (D_fill m a i) (s\<lparr>turn := int i\<rparr>)
         | D_fill m a i \<Rightarrow> d_goto d (D_push m a i) (s\<lparr>mem := set_content a m (mem s)\<rparr>)
         | D_push m a i \<Rightarrow> push_item d m a i s
         | D_notify i \<Rightarrow>
             d_goto d D_ready (set_lane i ((lanes s ! i)\<lparr>lane_pipe := lane_pipe (lanes s ! i) @ ''c''\<rparr>) s)))"

subsection \<open>A thread that works\<close>

text \<open>The callback, from the read of the byte to the call of the processor.\<close>

definition read_byte :: "nat \<Rightarrow> 'm pool_state \<Rightarrow> 'm pool_state" where
  "read_byte w s =
     (let i = w_lane (workers s ! w); t = lanes s ! i in
      case lane_pipe t of
        [] \<Rightarrow> s
      | c # cs \<Rightarrow>
          if c = CHR ''c'' then w_goto w W_pop (set_lane i (t\<lparr>lane_pipe := cs\<rparr>) s)
          else if c = CHR ''q'' then w_goto w W_check (set_lane i (t\<lparr>lane_pipe := cs, watching := False, loop_done := True\<rparr>) s)
          else w_goto w W_check (set_lane i (t\<lparr>lane_pipe := cs\<rparr>) s))"

definition pop_item :: "nat \<Rightarrow> 'm pool_state \<Rightarrow> 'm pool_state" where
  "pop_item w s =
     (let i = w_lane (workers s ! w); t = lanes s ! i in
      case unlink_head (mem s, lane_queue t) of (r, q) \<Rightarrow>
        w_goto w (W_call r) (set_lane i (t\<lparr>lane_queue := q\<rparr>) s))"

definition enter_call :: "nat \<Rightarrow> nat option \<Rightarrow> 'm pool_state \<Rightarrow> fault + 'm pool_state" where
  "enter_call w r s =
     (case r of
        None \<Rightarrow> Inl NullDeref
      | Some a \<Rightarrow>
          (case value_at (mem s) a of
             None \<Rightarrow> Inl NullDeref
           | Some m \<Rightarrow> Inr (w_goto w (W_in a) (s\<lparr>entered := entered s @ [(w_lane (workers s ! w), m)]\<rparr>))))"

definition free_rq_item :: "nat \<Rightarrow> 'm pool_state \<Rightarrow> 'm pool_state" where
  "free_rq_item a s =
     (case give_item a (mem s, free_rq s) of (st, free) \<Rightarrow> s\<lparr>mem := st, free_rq := free\<rparr>)"

text \<open>
  A worker in its loop. The processor returns in the step from \<open>W_in\<close>; a cancelled thread whose processor
  reaches a cancellation point takes \<open>cancel_step\<close> instead and frees the item in the cleanup handler.
\<close>

definition worker_step :: "nat \<Rightarrow> 'm pool_state \<Rightarrow> fault + 'm pool_state" where
  "worker_step w s =
     (if length (workers s) \<le> w then Inr s
      else
        (let i = w_lane (workers s ! w); t = lanes s ! i in
         case w_pc (workers s ! w) of
           W_start \<Rightarrow>
             if \<not> loop_live t then Inl UseAfterFree
             else Inr (w_goto w W_poll (set_lane i (t\<lparr>loop_done := False\<rparr>) s))
         | W_poll \<Rightarrow>
             if \<not> loop_live t then Inl UseAfterFree
             else if cancelled (workers s ! w) then Inr (w_goto w W_dead s)
             else if \<not> watching t then Inr (w_goto w W_check s)
             else Inr (read_byte w s)
         | W_pop \<Rightarrow> Inr (pop_item w s)
         | W_call r \<Rightarrow> enter_call w r s
         | W_in a \<Rightarrow> Inr (w_goto w (W_count a) s)
         | W_count a \<Rightarrow> Inr (w_goto w (W_free a) (set_lane i (t\<lparr>lane_version := Suc (lane_version t)\<rparr>) s))
         | W_free a \<Rightarrow> Inr (w_goto w W_check (free_rq_item a s))
         | W_check \<Rightarrow>
             if \<not> loop_live t then Inl UseAfterFree
             else Inr (w_goto w (if loop_done t \<or> \<not> watching t then W_leave else W_poll) s)
         | W_leave \<Rightarrow>
             if \<not> loop_live t then Inl UseAfterFree
             else if cancelled (workers s ! w) then Inr (w_goto w W_dead s)
             else Inr (w_goto w W_dead (set_lane i (t\<lparr>loop_live := False\<rparr>) s))
         | W_clean a \<Rightarrow> Inr (w_goto w W_dead (free_rq_item a s))
         | W_dead \<Rightarrow> Inr s))"

definition cancel_step :: "nat \<Rightarrow> 'm pool_state \<Rightarrow> 'm pool_state" where
  "cancel_step w s =
     (if w < length (workers s) \<and> cancelled (workers s ! w) then
        (case w_pc (workers s ! w) of W_in a \<Rightarrow> w_goto w (W_clean a) s | _ \<Rightarrow> s)
      else s)"

subsection \<open>A thread that restarts another, and the end\<close>

fun lane_index :: "nat \<Rightarrow> lane list \<Rightarrow> nat option" where
  "lane_index tid [] = None"
| "lane_index tid (t # ts) = (if lane_tid t = tid then Some 0 else map_option Suc (lane_index tid ts))"

text \<open>\<open>RestartThread\<close> up to the end of its section under the mutex, then the new thread.\<close>

definition restart_check :: "nat \<Rightarrow> nat \<Rightarrow> nat \<Rightarrow> 'm pool_state \<Rightarrow> 'm pool_state" where
  "restart_check r tid v s =
     (if r < length (restarters s) \<and> restarters s ! r = R_ready \<and> lanes s \<noteq> [] then
        (let i = (case lane_index tid (lanes s) of None \<Rightarrow> 0 | Some i \<Rightarrow> i); t = lanes s ! i in
         if v < lane_version t then s
         else (set_lane i (t\<lparr>loop_done := True\<rparr>) s)
           \<lparr>workers := (if tid < length (workers s)
                         then (workers s)[tid := (workers s ! tid)\<lparr>cancelled := True\<rparr>] else workers s),
            restarters := (restarters s)[r := R_create i]\<rparr>)
      else s)"

definition restart_create :: "nat \<Rightarrow> 'm pool_state \<Rightarrow> 'm pool_state" where
  "restart_create r s =
     (if r < length (restarters s) then
        (case restarters s ! r of
           R_ready \<Rightarrow> s
         | R_create i \<Rightarrow>
             (set_lane i ((lanes s ! i)\<lparr>lane_tid := length (workers s)\<rparr>) s)
               \<lparr>workers := workers s @ [\<lparr>w_lane = i, w_pc = W_start, cancelled = False\<rparr>],
                restarters := (restarters s)[r := R_ready]\<rparr>)
      else s)"

text \<open>\<open>Destroy\<close> writes one byte to each pipe.\<close>

definition quit_lane :: "nat \<Rightarrow> 'm pool_state \<Rightarrow> 'm pool_state" where
  "quit_lane i s =
     (if i < length (lanes s)
      then set_lane i ((lanes s ! i)\<lparr>lane_pipe := lane_pipe (lanes s ! i) @ ''q''\<rparr>) s else s)"

subsection \<open>Schedules\<close>

datatype 'm action =
    Call nat 'm
  | Dispatcher nat
  | Worker nat
  | Cancelled nat
  | RestartCheck nat nat nat
  | RestartCreate nat
  | Quit nat

definition act :: "'m action \<Rightarrow> 'm pool_state \<Rightarrow> fault + 'm pool_state" where
  "act x s =
     (case x of
        Call d m \<Rightarrow> Inr (begin_call d m s)
      | Dispatcher d \<Rightarrow> Inr (dispatcher_step d s)
      | Worker w \<Rightarrow> worker_step w s
      | Cancelled w \<Rightarrow> Inr (cancel_step w s)
      | RestartCheck r tid v \<Rightarrow> Inr (restart_check r tid v s)
      | RestartCreate r \<Rightarrow> Inr (restart_create r s)
      | Quit i \<Rightarrow> Inr (quit_lane i s))"

primrec schedule :: "'m action list \<Rightarrow> 'm pool_state \<Rightarrow> fault + 'm pool_state" where
  "schedule [] s = Inr s"
| "schedule (x # xs) s = (case act x s of Inl f \<Rightarrow> Inl f | Inr s \<Rightarrow> schedule xs s)"

definition restarts :: "'m action \<Rightarrow> bool" where
  "restarts x = (case x of RestartCheck _ _ _ \<Rightarrow> True | _ \<Rightarrow> False)"

text \<open>
  The calls on their way: those a dispatching thread has in hand, those in the queues (a walk from the head,
  of at most as many items as there are addresses), and those a worker has popped and not entered.
\<close>

definition call_in_hand :: "'m dispatcher \<Rightarrow> 'm list" where
  "call_in_hand x =
     (case x of
        D_new m \<Rightarrow> [m] | D_alloc m \<Rightarrow> [m] | D_link m _ \<Rightarrow> [m] | D_turn m _ \<Rightarrow> [m]
      | D_store m _ _ \<Rightarrow> [m] | D_fill m _ _ \<Rightarrow> [m] | D_push m _ _ \<Rightarrow> [m] | _ \<Rightarrow> [])"

fun queue_walk :: "nat \<Rightarrow> 'm store \<Rightarrow> nat option \<Rightarrow> 'm list" where
  "queue_walk 0 st p = []"
| "queue_walk (Suc k) st None = []"
| "queue_walk (Suc k) st (Some a) =
     (case value_at st a of None \<Rightarrow> [] | Some m \<Rightarrow> m # queue_walk k st (get_next st a))"

definition call_popped :: "'m store \<Rightarrow> worker_pc \<Rightarrow> 'm list" where
  "call_popped st pc =
     (case pc of W_call (Some a) \<Rightarrow> (case value_at st a of None \<Rightarrow> [] | Some m \<Rightarrow> [m]) | _ \<Rightarrow> [])"

definition in_flight :: "'m pool_state \<Rightarrow> 'm list" where
  "in_flight s =
     concat (map call_in_hand (dispatchers s)) @
     concat (map (\<lambda>t. queue_walk (brk (mem s)) (mem s) (head (lane_queue t))) (lanes s)) @
     concat (map (\<lambda>k. call_popped (mem s) (w_pc k)) (workers s))"

text \<open>Nobody is dispatching, and no byte of a call is on its way to the queue of its thread.\<close>

definition settled :: "'m pool_state \<Rightarrow> bool" where
  "settled s \<longleftrightarrow>
     (\<forall>x\<in>set (dispatchers s). x = D_ready) \<and> (\<forall>t\<in>set (lanes s). CHR ''c'' \<notin> set (lane_pipe t)) \<and>
     (\<forall>k\<in>set (workers s). w_pc k \<noteq> W_pop \<and> (case w_pc k of W_call _ \<Rightarrow> False | _ \<Rightarrow> True))"

end
