(* ===== verification/PoolInterleavings.thy ===== *)
theory PoolInterleavings
  imports PoolThreads ThreadPoolSafety
begin

section \<open>What the thread pool promises under every interleaving\<close>

text \<open>
  At every moment each request item is in one hand: the free list, the queue of a thread, a thread that
  dispatches, or one that works. So is each call that was begun and not yet entered. A queue has as many items
  as bytes \<open>c\<close> are in its pipe, about to be written, or read by a worker that has not popped yet. The
  lemmas show that every step keeps this, from which the properties follow.
\<close>

subsection \<open>Lists and sums\<close>

lemma length_filter_update:
  "i < length xs \<Longrightarrow> length (filter Q (xs[i := y])) + (if Q (xs ! i) then 1 else 0) =
     length (filter Q xs) + (if Q y then 1 else 0)"
proof (induction xs arbitrary: i)
  case (Cons x xs)
  then show ?case by (cases i) auto
qed simp

lemma sum_move:
  assumes "finite A" "x \<in> A" "y \<in> A" "x \<noteq> y"
  shows "(\<Sum>z\<in>A. mset ((M(x := xs, y := ys)) z)) + (mset (M x) + mset (M y)) =
    (\<Sum>z\<in>A. mset (M z)) + (mset xs + mset ys)"
proof -
  have A: "A = insert x (insert y (A - {x, y}))" using assms by auto
  have "sum (\<lambda>z. mset ((M(x := xs, y := ys)) z)) (A - {x, y}) = sum (\<lambda>z. mset (M z)) (A - {x, y})"
    by (rule sum.cong) auto
  then show ?thesis using assms by (subst (1 2) A) (simp add: ac_simps)
qed

subsection \<open>Who holds what\<close>

datatype owner = Free | Lane nat | Disp nat | Work nat

fun disp_holds :: "'m store \<Rightarrow> 'm dispatcher \<Rightarrow> nat list \<Rightarrow> 'm list \<Rightarrow> bool" where
  "disp_holds st D_ready as ms \<longleftrightarrow> as = [] \<and> ms = []"
| "disp_holds st (D_new m) as ms \<longleftrightarrow> as = [] \<and> ms = [m]"
| "disp_holds st (D_alloc m) as ms \<longleftrightarrow> as = [] \<and> ms = [m]"
| "disp_holds st (D_link m b) as ms \<longleftrightarrow> as = [b..<b + item_per_alloc] \<and> ms = [m] \<and>
     (\<forall>a\<in>set as. live st a) \<and> (\<forall>a. b \<le> a \<longrightarrow> Suc a < b + item_per_alloc \<longrightarrow> get_next st a = Some (Suc a))"
| "disp_holds st (D_turn m a) as ms \<longleftrightarrow> as = [a] \<and> ms = [m] \<and> live st a"
| "disp_holds st (D_store m a i) as ms \<longleftrightarrow> as = [a] \<and> ms = [m] \<and> live st a"
| "disp_holds st (D_fill m a i) as ms \<longleftrightarrow> as = [a] \<and> ms = [m] \<and> live st a"
| "disp_holds st (D_push m a i) as ms \<longleftrightarrow> as = [a] \<and> ms = [m] \<and> live st a \<and> value_at st a = Some m"
| "disp_holds st (D_notify i) as ms \<longleftrightarrow> as = [] \<and> ms = []"

fun work_holds :: "'m store \<Rightarrow> worker_pc \<Rightarrow> nat list \<Rightarrow> 'm list \<Rightarrow> bool" where
  "work_holds st (W_call None) as ms \<longleftrightarrow> False"
| "work_holds st (W_call (Some a)) as ms \<longleftrightarrow> as = [a] \<and> live st a \<and> map (value_at st) as = map Some ms"
| "work_holds st (W_in a) as ms \<longleftrightarrow> as = [a] \<and> live st a \<and> ms = []"
| "work_holds st (W_count a) as ms \<longleftrightarrow> as = [a] \<and> live st a \<and> ms = []"
| "work_holds st (W_free a) as ms \<longleftrightarrow> as = [a] \<and> live st a \<and> ms = []"
| "work_holds st (W_clean a) as ms \<longleftrightarrow> as = [a] \<and> live st a \<and> ms = []"
| "work_holds st _ as ms \<longleftrightarrow> as = [] \<and> ms = []"

fun holds :: "'m pool_state \<Rightarrow> owner \<Rightarrow> nat list \<Rightarrow> 'm list \<Rightarrow> bool" where
  "holds s Free as ms \<longleftrightarrow> chain (mem s) (free_rq s) as \<and> ms = []"
| "holds s (Lane i) as ms \<longleftrightarrow>
     (if i < length (lanes s)
      then queue_of (mem s, lane_queue (lanes s ! i)) as \<and> map (value_at (mem s)) as = map Some ms
      else as = [] \<and> ms = [])"
| "holds s (Disp d) as ms \<longleftrightarrow>
     (if d < length (dispatchers s) then disp_holds (mem s) (dispatchers s ! d) as ms else as = [] \<and> ms = [])"
| "holds s (Work w) as ms \<longleftrightarrow>
     (if w < length (workers s) then work_holds (mem s) (w_pc (workers s ! w)) as ms else as = [] \<and> ms = [])"

lemma holds_live: "holds s x as ms \<Longrightarrow> a \<in> set as \<Longrightarrow> live (mem s) a"
proof (cases x)
  case (Disp d)
  then show "holds s x as ms \<Longrightarrow> a \<in> set as \<Longrightarrow> live (mem s) a"
    by (cases "dispatchers s ! d") (auto split: if_splits)
next
  case (Work w)
  show "holds s x as ms \<Longrightarrow> a \<in> set as \<Longrightarrow> live (mem s) a"
  proof (cases "w_pc (workers s ! w)")
    case (W_call r)
    then show "holds s x as ms \<Longrightarrow> a \<in> set as \<Longrightarrow> live (mem s) a"
      using Work by (cases r) (auto split: if_splits)
  qed (use Work in \<open>auto split: if_splits\<close>)
qed (auto dest: chain_alloc queue_of_live split: if_splits)

text \<open>What another store has to agree on, and what another state.\<close>

definition agree :: "'m store \<Rightarrow> 'm store \<Rightarrow> nat set \<Rightarrow> bool" where
  "agree st st' A \<longleftrightarrow>
     (\<forall>a\<in>A. live st' a = live st a \<and> get_next st' a = get_next st a \<and> value_at st' a = value_at st a)"

definition same_place :: "'m pool_state \<Rightarrow> 'm pool_state \<Rightarrow> owner \<Rightarrow> bool" where
  "same_place s s' x \<longleftrightarrow>
     (case x of
        Free \<Rightarrow> free_rq s' = free_rq s
      | Lane i \<Rightarrow> length (lanes s') = length (lanes s) \<and> lane_queue (lanes s' ! i) = lane_queue (lanes s ! i)
      | Disp d \<Rightarrow> length (dispatchers s') = length (dispatchers s) \<and> dispatchers s' ! d = dispatchers s ! d
      | Work w \<Rightarrow> (w < length (workers s') \<longleftrightarrow> w < length (workers s)) \<and> 
          (w < length (workers s) \<longrightarrow> w_pc (workers s' ! w) = w_pc (workers s ! w)))"

lemma agree_refl [simp]: "agree st st A"
  by (simp add: agree_def)

lemma agree_values: "agree st st' (set as) \<Longrightarrow> map (value_at st') as = map (value_at st) as"
  by (simp add: agree_def)

lemma disp_frame: "disp_holds st x as ms \<Longrightarrow> agree st st' (set as) \<Longrightarrow> disp_holds st' x as ms"
  by (cases x) (simp_all add: agree_def)

lemma work_frame: "work_holds st pc as ms \<Longrightarrow> agree st st' (set as) \<Longrightarrow> work_holds st' pc as ms"
proof (cases pc)
  case (W_call r)
  then show "work_holds st pc as ms \<Longrightarrow> agree st st' (set as) \<Longrightarrow> work_holds st' pc as ms"
    by (cases r) (auto simp: agree_def)
qed (simp_all add: agree_def)

lemma holds_frame:
  assumes "holds s x as ms" "agree (mem s) (mem s') (set as)" "same_place s s' x"
  shows "holds s' x as ms"
proof (cases x)
  case Free
  have "chain (mem s') (free_rq s) as = chain (mem s) (free_rq s) as"
    by (rule chain_cong) (use assms(2) in \<open>simp add: agree_def\<close>)
  with Free assms show ?thesis by (simp add: same_place_def)
next
  case (Lane i)
  show ?thesis
  proof (cases "i < length (lanes s)")
    case True
    with Lane assms have q: "queue_of (mem s, lane_queue (lanes s ! i)) as" by simp
    have "queue_of (mem s', lane_queue (lanes s ! i)) as"
      by (rule queue_of_cong [OF q]) (use assms(2) in \<open>simp add: agree_def\<close>)
    with True Lane assms agree_values [OF assms(2)] show ?thesis by (simp add: same_place_def)
  qed (use Lane assms in \<open>simp add: same_place_def\<close>)
next
  case (Disp d)
  with assms show ?thesis by (auto simp: same_place_def intro: disp_frame)
next
  case (Work w)
  with assms show ?thesis by (auto simp: same_place_def intro: work_frame)
qed

definition own :: "'m pool_state \<Rightarrow> (owner \<Rightarrow> nat list) \<Rightarrow> (owner \<Rightarrow> 'm list) \<Rightarrow> bool" where
  "own s P M \<longleftrightarrow>
     (\<forall>x. holds s x (P x) (M x)) \<and> (\<forall>x. distinct (P x)) \<and>
     (\<forall>x y. x \<noteq> y \<longrightarrow> set (P x) \<inter> set (P y) = {}) \<and> (\<forall>a\<ge>brk (mem s). \<not> live (mem s) a)"

lemma ownD:
  assumes "own s P M"
  shows "holds s x (P x) (M x)" "distinct (P x)" "x \<noteq> y \<Longrightarrow> a \<in> set (P x) \<Longrightarrow> a \<notin> set (P y)"
    "a \<in> set (P x) \<Longrightarrow> live (mem s) a"
proof -
  show "holds s x (P x) (M x)" "distinct (P x)" using assms by (simp_all add: own_def)
  show "a \<notin> set (P y)" if "x \<noteq> y" "a \<in> set (P x)" using assms that by (auto simp: own_def disjoint_iff)
  show "live (mem s) a" if "a \<in> set (P x)"
    using assms that holds_live [of s x "P x" "M x" a] by (simp add: own_def)
qed

text \<open>
  A step moves items between two owners, may make new ones, and writes to these items only.
\<close>

lemma own_move:
  assumes "own s P M" "x \<noteq> y" "holds s' x as ms" "holds s' y bs ns"
    and "\<And>z. z \<noteq> x \<Longrightarrow> z \<noteq> y \<Longrightarrow> same_place s s' z"
    and "\<And>a. live (mem s) a \<Longrightarrow> a \<notin> set (P x) \<Longrightarrow> a \<notin> set (P y) \<Longrightarrow> agree (mem s) (mem s') {a}"
    and "distinct (as @ bs)" "\<And>a. a \<in> set (as @ bs) \<Longrightarrow> live (mem s) a \<Longrightarrow> a \<in> set (P x) \<union> set (P y)"
    and "\<forall>a\<ge>brk (mem s'). \<not> live (mem s') a"
  shows "own s' (P(x := as, y := bs)) (M(x := ms, y := ns))"
proof -
  have out: "a \<notin> set (as @ bs)" if "z \<noteq> x" "z \<noteq> y" "a \<in> set (P z)" for z a
    using ownD(3) [OF assms(1)] ownD(4) [OF assms(1)] that assms(8) by (metis UnE)
  have "holds s' z (P z) (M z)" if "z \<noteq> x" "z \<noteq> y" for z
  proof (rule holds_frame [OF ownD(1) [OF assms(1)] _ assms(5) [OF that]])
    show "agree (mem s) (mem s') (set (P z))"
      using that assms(6) ownD(3) [OF assms(1), of z] ownD(4) [OF assms(1)] by (auto simp: agree_def)
  qed
  moreover have "set ((P(x := as, y := bs)) z) \<inter> set ((P(x := as, y := bs)) z') = {}" if "z \<noteq> z'" for z z'
    using that out [of z] out [of z'] assms(1,7) by (auto simp: own_def)
  ultimately show ?thesis using assms(1-4,7,9) by (simp add: own_def)
qed

text \<open>One owner alone, with the same items.\<close>

lemma own_same:
  assumes "own s P M" "holds s' x (P x) ms" "\<And>z. z \<noteq> x \<Longrightarrow> same_place s s' z" 
    and "\<And>a. live (mem s) a \<Longrightarrow> a \<notin> set (P x) \<Longrightarrow> agree (mem s) (mem s') {a}"
    and "brk (mem s') = brk (mem s)" "live (mem s') = live (mem s)"
  shows "own s' P (M(x := ms))"
proof -
  have "holds s' z (P z) (M z)" if "z \<noteq> x" for z
  proof (rule holds_frame [OF ownD(1) [OF assms(1)] _ assms(3) [OF that]])
    show "agree (mem s) (mem s') (set (P z))"
      using that assms(4) ownD(3) [OF assms(1), of z] ownD(4) [OF assms(1)] by (auto simp: agree_def)
  qed
  with assms show ?thesis by (simp add: own_def)
qed

subsection \<open>The invariant\<close>

fun lane_chosen :: "'m dispatcher \<Rightarrow> nat option" where
  "lane_chosen (D_store m a i) = Some i"
| "lane_chosen (D_fill m a i) = Some i"
| "lane_chosen (D_push m a i) = Some i"
| "lane_chosen (D_notify i) = Some i"
| "lane_chosen _ = None"

definition in_range :: "'m pool_state \<Rightarrow> bool" where
  "in_range s \<longleftrightarrow>
     lanes s \<noteq> [] \<and> (\<forall>k\<in>set (workers s). w_lane k < length (lanes s)) \<and>
     (\<forall>x\<in>set (dispatchers s). \<forall>i. lane_chosen x = Some i \<longrightarrow> i < length (lanes s)) \<and>
     (\<forall>i. R_create i \<in> set (restarters s) \<longrightarrow> i < length (lanes s))"

definition tokens :: "'m pool_state \<Rightarrow> nat \<Rightarrow> nat" where
  "tokens s i =
     count_list (lane_pipe (lanes s ! i)) CHR ''c'' +
     length (filter (\<lambda>k. w_pc k = W_pop \<and> w_lane k = i) (workers s)) +
     length (filter (\<lambda>x. x = D_notify i) (dispatchers s))"

definition owners :: "'m pool_state \<Rightarrow> owner set" where
  "owners s =
     insert Free (Lane ` {..<length (lanes s)} \<union> Disp ` {..<length (dispatchers s)} \<union>
       Work ` {..<length (workers s)})"

definition pending :: "'m pool_state \<Rightarrow> (owner \<Rightarrow> 'm list) \<Rightarrow> 'm multiset" where
  "pending s M = (\<Sum>x\<in>owners s. mset (M x))"

definition interleaved_inv :: "'m pool_state \<Rightarrow> (owner \<Rightarrow> nat list) \<Rightarrow> (owner \<Rightarrow> 'm list) \<Rightarrow> bool" where
  "interleaved_inv s P M \<longleftrightarrow>
     own s P M \<and> in_range s \<and> (\<forall>i<length (lanes s). length (P (Lane i)) = tokens s i) \<and>
     mset (begun s) = mset (map snd (entered s)) + pending s M"

text \<open>Each thread has its own worker, as long as nobody restarts one.\<close>

definition one_each :: "'m pool_state \<Rightarrow> bool" where
  "one_each s \<longleftrightarrow>
     map w_lane (workers s) = [0..<length (lanes s)] \<and> map lane_tid (lanes s) = [0..<length (lanes s)] \<and>
     (\<forall>r\<in>set (restarters s). r = R_ready) \<and>
     (\<forall>w<length (workers s). loop_live (lanes s ! w) \<or> w_pc (workers s ! w) = W_dead)"

definition fifo_lanes :: "'m pool_state \<Rightarrow> (owner \<Rightarrow> 'm list) \<Rightarrow> bool" where
  "fifo_lanes s M \<longleftrightarrow>
     (\<forall>i<length (lanes s). calls_of i (linked s) = calls_of i (entered s) @ M (Work i) @ M (Lane i))"

lemma one_each_lane:
  assumes "one_each s" "w < length (workers s)"
  shows "w_lane (workers s ! w) = w"
proof -
  have "map w_lane (workers s) ! w = [0..<length (lanes s)] ! w" "w < length (lanes s)"
    using assms by (simp_all add: one_each_def) (metis length_map length_upt minus_nat.diff_0)
  then show ?thesis using assms(2) by simp
qed

lemma finite_owners [simp]: "finite (owners s)"
  by (simp add: owners_def)

lemma owners_simps [simp]:
  "Free \<in> owners s" "Lane i \<in> owners s \<longleftrightarrow> i < length (lanes s)"
  "Disp d \<in> owners s \<longleftrightarrow> d < length (dispatchers s)" "Work w \<in> owners s \<longleftrightarrow> w < length (workers s)"
  by (auto simp: owners_def)

lemma owners_cong:
  "length (lanes s') = length (lanes s) \<Longrightarrow> length (dispatchers s') = length (dispatchers s) \<Longrightarrow>
   length (workers s') = length (workers s) \<Longrightarrow> owners s' = owners s"
  by (simp add: owners_def)

lemma pending_move:
  assumes "owners s' = owners s" "x \<in> owners s" "y \<in> owners s" "x \<noteq> y"
  shows "pending s' (M(x := xs, y := ys)) + (mset (M x) + mset (M y)) = pending s M + (mset xs + mset ys)"
  unfolding pending_def assms(1) by (rule sum_move) (use assms in simp_all)

lemma pending_update:
  assumes "owners s' = owners s" "x \<in> owners s"
  shows "pending s' (M(x := xs)) + mset (M x) = pending s M + mset xs"
proof -
  have "pending s' (M(x := xs)) = mset xs + (\<Sum>z\<in>owners s - {x}. mset (M z))"
    using assms by (simp add: pending_def sum.remove [of _ x])
  moreover have "pending s M = mset (M x) + (\<Sum>z\<in>owners s - {x}. mset (M z))"
    using assms by (simp add: pending_def sum.remove [of _ x])
  ultimately show ?thesis by (simp add: ac_simps)
qed

lemma inv_own: "interleaved_inv s P M \<Longrightarrow> own s P M"
  and inv_range: "interleaved_inv s P M \<Longrightarrow> in_range s"
  and inv_tokens: "interleaved_inv s P M \<Longrightarrow> i < length (lanes s) \<Longrightarrow> length (P (Lane i)) = tokens s i"
  and inv_begun: "interleaved_inv s P M \<Longrightarrow> mset (begun s) = mset (map snd (entered s)) + pending s M"
  by (simp_all add: interleaved_inv_def)

lemma inv_worker: "interleaved_inv s P M \<Longrightarrow> w < length (workers s) \<Longrightarrow> w_lane (workers s ! w) < length (lanes s)"
  by (simp add: interleaved_inv_def in_range_def)

lemma inv_dispatcher:
  "interleaved_inv s P M \<Longrightarrow> d < length (dispatchers s) \<Longrightarrow> lane_chosen (dispatchers s ! d) = Some i \<Longrightarrow>
   i < length (lanes s)"
  unfolding interleaved_inv_def in_range_def by (meson nth_mem)

lemma inv_lanes: "interleaved_inv s P M \<Longrightarrow> 0 < length (lanes s)"
  by (simp add: interleaved_inv_def in_range_def)

text \<open>The state after a step, as the invariant sees it.\<close>

definition kept :: "'m pool_state \<Rightarrow> (owner \<Rightarrow> 'm list) \<Rightarrow> 'm pool_state \<Rightarrow> bool" where
  "kept s M s' \<longleftrightarrow>
     (\<exists>P' M'. interleaved_inv s' P' M' \<and> (one_each s \<longrightarrow> fifo_lanes s M \<longrightarrow> fifo_lanes s' M'))"

lemma keptI:
  "interleaved_inv s' P' M' \<Longrightarrow> (one_each s \<Longrightarrow> fifo_lanes s M \<Longrightarrow> fifo_lanes s' M') \<Longrightarrow> kept s M s'"
  by (auto simp: kept_def)

lemma kept_refl: "interleaved_inv s P M \<Longrightarrow> kept s M s"
  by (auto simp: kept_def)

subsection \<open>A thread that dispatches\<close>

named_theorems moves \<open>the updates of the steps\<close>

lemma nth_update_if: "xs[i := x] ! j = (if j = i \<and> i < length xs then x else xs ! j)"
  by (cases "i < length xs") (auto simp: list_update_beyond)

lemmas [moves] = d_goto_def w_goto_def set_lane_def same_place_def nth_update_if

lemma in_range_d_goto:
  "in_range s \<Longrightarrow> (\<And>i. lane_chosen x = Some i \<Longrightarrow> i < length (lanes s)) \<Longrightarrow> in_range (d_goto d x s)"
  by (auto simp: in_range_def d_goto_def dest: set_update_subset_insert [THEN subsetD])

lemma tokens_d_goto:
  assumes "d < length (dispatchers s)"
  shows "tokens (d_goto d x s) i + (if dispatchers s ! d = D_notify i then 1 else 0) =
    tokens s i + (if x = D_notify i then 1 else 0)"
  using length_filter_update [OF assms, of "\<lambda>x. x = D_notify i" x] by (simp add: tokens_def d_goto_def)

lemma tokens_eq:
  "lanes s' = lanes s \<Longrightarrow> workers s' = workers s \<Longrightarrow> dispatchers s' = dispatchers s \<Longrightarrow> tokens s' i = tokens s i"
  by (simp add: tokens_def)

lemma in_range_eq:
  "lanes s' = lanes s \<Longrightarrow> workers s' = workers s \<Longrightarrow> dispatchers s' = dispatchers s \<Longrightarrow>
   restarters s' = restarters s \<Longrightarrow> in_range s' = in_range s"
  by (simp add: in_range_def)

text \<open>A dispatching thread goes on, and neither the threads nor the queues change.\<close>

lemma inv_d_goto:
  assumes inv: "interleaved_inv s P M" and d: "d < length (dispatchers s)"
    and s': "lanes s' = lanes s" "workers s' = workers s" "dispatchers s' = (dispatchers s)[d := x]"
      "restarters s' = restarters s" "entered s' = entered s"
    and own: "own s' P' (M(Disp d := ms))" "\<And>i. P' (Lane i) = P (Lane i)"
    and x: "\<And>i. lane_chosen x = Some i \<Longrightarrow> i < length (lanes s)"
      "\<And>i. dispatchers s ! d \<noteq> D_notify i" "\<And>i. x \<noteq> D_notify i"
    and ms: "mset (begun s') + mset (M (Disp d)) = mset (begun s) + mset ms" "linked s' = linked s"
  shows "kept s M s'"
proof (rule keptI)
  have "in_range s'"
    using inv_range [OF inv] x(1) s'
    by (auto simp: in_range_def dest: set_update_subset_insert [THEN subsetD])
  moreover have "tokens s' i = tokens s i" for i
    using tokens_d_goto [OF d, of x i] x(2,3) s' by (simp add: tokens_def d_goto_def)
  moreover have "pending s' (M(Disp d := ms)) + mset (M (Disp d)) = pending s M + mset ms"
    by (rule pending_update) (use d s' in \<open>simp_all add: owners_def\<close>)
  then have "mset (begun s') + mset (M (Disp d)) =
      mset (map snd (entered s')) + pending s' (M(Disp d := ms)) + mset (M (Disp d))"
    using ms(1) inv_begun [OF inv] s'(5) by (simp add: ac_simps)
  ultimately show "interleaved_inv s' P' (M(Disp d := ms))"
    using own inv_tokens [OF inv] s'(1) by (simp add: interleaved_inv_def)
  show "fifo_lanes s' (M(Disp d := ms))" if "fifo_lanes s M"
    using that s' ms(2) by (simp add: fifo_lanes_def)
qed

lemma begin_call_kept:
  assumes inv: "interleaved_inv s P M"
  shows "kept s M (begin_call d m s)"
proof (cases "d < length (dispatchers s) \<and> dispatchers s ! d = D_ready")
  case True
  then have h: "P (Disp d) = []" "M (Disp d) = []"
    using ownD(1) [OF inv_own [OF inv], of "Disp d"] by simp_all
  show ?thesis
  proof (rule inv_d_goto [OF inv, of d _ "D_new m" P "[m]"])
    show "own (begin_call d m s) P (M(Disp d := [m]))"
      by (rule own_same [OF inv_own [OF inv]])
        (use True h in \<open>auto simp: begin_call_def moves split: owner.splits\<close>)
  qed (use True h in \<open>simp_all add: begin_call_def moves\<close>)
next
  case False
  then show ?thesis using kept_refl [OF inv] by (auto simp: begin_call_def)
qed

lemma chain_free:
  assumes "own s P M"
  shows "chain (mem s) (free_rq s) (P Free)" "M Free = []" "\<forall>a\<ge>brk (mem s). \<not> live (mem s) a"
  using ownD(1) [OF assms, of Free] assms by (simp_all add: own_def)

lemma new_from_list_kept:
  assumes inv: "interleaved_inv s P M" and d: "d < length (dispatchers s)" "dispatchers s ! d = D_new m"
  shows "kept s M (new_from_list d m s)"
proof -
  have h: "P (Disp d) = []" "M (Disp d) = [m]"
    using ownD(1) [OF inv_own [OF inv], of "Disp d"] d by simp_all
  note free = chain_free [OF inv_own [OF inv]]
  show ?thesis
  proof (cases "free_rq s")
    case None
    show ?thesis
    proof (rule inv_d_goto [OF inv, of d _ "D_alloc m" P "[m]"])
      show "own (new_from_list d m s) P (M(Disp d := [m]))"
        by (rule own_same [OF inv_own [OF inv]])
          (use d h None in \<open>auto simp: new_from_list_def moves split: owner.splits\<close>)
    qed (use d h None in \<open>simp_all add: new_from_list_def moves\<close>)
  next
    case (Some a)
    then obtain fs where fs: "P Free = a # fs" "live (mem s) a" "chain (mem s) (get_next (mem s) a) fs"
      using free(1) by (cases "P Free") auto
    have dist: "a \<notin> set fs" "distinct fs" using ownD(2) [OF inv_own [OF inv], of Free] fs by simp_all
    have "own (new_from_list d m s) (P(Free := fs, Disp d := [a])) (M(Free := [], Disp d := [m]))"
      by (rule own_move [OF inv_own [OF inv]])
        (use d fs Some dist free(3) in \<open>auto simp: new_from_list_def moves split: owner.splits\<close>)
    moreover have "M(Free := [], Disp d := [m]) = M(Disp d := [m])" using free(2) by (auto simp: fun_eq_iff)
    ultimately show ?thesis
      by (intro inv_d_goto [OF inv, of d _ "D_turn m a" "P(Free := fs, Disp d := [a])" "[m]"])
        (use d h Some in \<open>simp_all add: new_from_list_def moves\<close>)
  qed
qed

text \<open>A new block: its first item is for the call, the others go to the free list.\<close>

lemma new_block_kept:
  assumes inv: "interleaved_inv s P M" and d: "d < length (dispatchers s)" "dispatchers s ! d = D_alloc m"
  shows "kept s M (new_block d m s)"
proof -
  let ?b = "brk (mem s)" and ?n = item_per_alloc
  have h: "P (Disp d) = []" "M (Disp d) = [m]"
    using ownD(1) [OF inv_own [OF inv], of "Disp d"] d by simp_all
  note free = chain_free [OF inv_own [OF inv]]
  define st where "st = snd (alloc_block ?n (mem s))"
  define st' where "st' = set_next (?b + ?n - 1) None (link_block ?b 0 ?n st)"
  have n: "2 \<le> ?n" by (simp add: item_per_alloc_def)
  have live: "live st a \<longleftrightarrow> live (mem s) a \<or> ?b \<le> a \<and> a < ?b + ?n" for a
    by (auto simp: st_def alloc_block_def live_def)
  have old: "value_at st a = value_at (mem s) a \<and> get_next st a = get_next (mem s) a" if "live (mem s) a" for a
  proof -
    have "a < ?b" using free(3) that by (meson not_le)
    then show ?thesis by (simp add: st_def alloc_block_def value_at_def get_next_def)
  qed
  have nx: "get_next (link_block ?b 0 ?n st) a =
      (if ?b \<le> a \<and> Suc (a - ?b) < ?n then Some (Suc a) else get_next st a)" for a
    by (subst link_block_next) (auto simp: live)
  have brk: "brk st' = ?b + ?n" by (simp add: st'_def st_def alloc_block_def)
  have mem': "mem (new_block d m s) = st'"
    by (simp add: new_block_def alloc_block_def st'_def st_def moves)
  have agree: "agree (mem s) st' {a}" if "live (mem s) a" for a
  proof -
    have "a < ?b" using free(3) that by (meson not_le)
    with old [OF that] that n show ?thesis by (auto simp: agree_def st'_def live get_next_set_next nx)
  qed
  have "own (new_block d m s) (P(Free := P Free, Disp d := [?b..<?b + ?n])) (M(Free := [], Disp d := [m]))"
  proof (rule own_move [OF inv_own [OF inv]])
    have "holds s Free (P Free) []" using free by simp
    then show "holds (new_block d m s) Free (P Free) []"
    proof (rule holds_frame)
      show "agree (mem s) (mem (new_block d m s)) (set (P Free))"
        using agree ownD(4) [OF inv_own [OF inv]] by (simp add: mem' agree_def)
    qed (simp add: moves new_block_def alloc_block_def)
    have "get_next st' a = Some (Suc a)" if "?b \<le> a" "Suc a < ?b + ?n" for a
      using that n by (auto simp: st'_def get_next_set_next nx)
    moreover have "live st' a" if "?b \<le> a" "a < ?b + ?n" for a using that by (simp add: st'_def live)
    ultimately show "holds (new_block d m s) (Disp d) [?b..<?b + ?n] [m]"
      using d mem' by (simp add: moves new_block_def alloc_block_def)
    show "distinct (P Free @ [?b..<?b + ?n])"
      using ownD(2) [OF inv_own [OF inv], of Free] ownD(4) [OF inv_own [OF inv], of _ Free] free(3) by auto
    show "\<forall>a\<ge>brk (mem (new_block d m s)). \<not> live (mem (new_block d m s)) a"
      unfolding mem' using free(3) brk by (simp add: st'_def live)
    show "agree (mem s) (mem (new_block d m s)) {a}" if "live (mem s) a" for a using agree [OF that] by (simp add: mem')
    show "a \<in> set (P Free) \<union> set (P (Disp d))" if "a \<in> set (P Free @ [?b..<?b + ?n])" "live (mem s) a" for a
      using that free(3) by auto
  qed (auto simp: new_block_def alloc_block_def moves split: owner.splits)
  moreover have "M(Free := [], Disp d := [m]) = M(Disp d := [m])" using free(2) by (auto simp: fun_eq_iff)
  ultimately show ?thesis
    by (intro inv_d_goto [OF inv, of d _ "D_link m ?b" "P(Free := P Free, Disp d := [?b..<?b + ?n])" "[m]"])
      (use d h in \<open>simp_all add: new_block_def alloc_block_def moves\<close>)
qed

lemma give_block_kept:
  assumes inv: "interleaved_inv s P M" and d: "d < length (dispatchers s)" "dispatchers s ! d = D_link m b"
  shows "kept s M (give_block d m b s)"
proof -
  let ?n = item_per_alloc
  have h: "P (Disp d) = [b..<b + ?n]" "M (Disp d) = [m]" "\<forall>a\<in>{b..<b + ?n}. live (mem s) a"
    "\<forall>a. b \<le> a \<longrightarrow> Suc a < b + ?n \<longrightarrow> get_next (mem s) a = Some (Suc a)"
    using ownD(1) [OF inv_own [OF inv], of "Disp d"] d by simp_all
  note free = chain_free [OF inv_own [OF inv]]
  have n: "2 \<le> ?n" by (simp add: item_per_alloc_def)
  define st' where "st' = set_next (b + ?n - 1) (free_rq s) (mem s)"
  have mem': "mem (give_block d m b s) = st'" by (simp add: give_block_def st'_def moves)
  have apart: "a < b \<or> b + ?n \<le> a" if "a \<in> set (P Free)" for a
    using ownD(3) [OF inv_own [OF inv], of Free "Disp d" a] that h(1) by auto
  have old: "chain st' (free_rq s) (P Free)"
    unfolding st'_def using free(1) apart [of "b + ?n - 1"] n by (subst chain_set_next) auto
  have chain: "chain st' (if k = 0 then free_rq s else Some (b + ?n - k)) ([b + ?n - k..<b + ?n] @ P Free)"
    if "k < ?n" for k
    using that
  proof (induction k)
    case (Suc k)
    have up: "[b + ?n - Suc k..<b + ?n] = (b + ?n - Suc k) # [b + ?n - k..<b + ?n]"
      using Suc.prems by (subst upt_conv_Cons) (auto simp: Suc_diff_Suc)
    have "get_next st' (b + ?n - Suc k) = (if k = 0 then free_rq s else Some (b + ?n - k))"
      using Suc.prems h(3,4) by (auto simp: st'_def get_next_set_next Suc_diff_Suc)
    with Suc h(3) show ?case by (simp add: up st'_def)
  qed (use old in simp)
  have "own (give_block d m b s) (P(Free := [b + 1..<b + ?n] @ P Free, Disp d := [b])) (M(Free := [], Disp d := [m]))"
  proof (rule own_move [OF inv_own [OF inv]])
    show "holds (give_block d m b s) Free ([b + 1..<b + ?n] @ P Free) []"
      using chain [of "?n - 1"] n mem' by (simp add: give_block_def moves)
    show "holds (give_block d m b s) (Disp d) [b] [m]"
      using d h(3) n by (simp add: give_block_def moves)
    show "distinct (([b + 1..<b + ?n] @ P Free) @ [b])"
      using ownD(2) [OF inv_own [OF inv], of Free] apart n by force
    show "agree (mem s) (mem (give_block d m b s)) {a}" if "a \<notin> set (P (Disp d))" for a
      using that n by (auto simp: h(1) mem' st'_def agree_def get_next_set_next)
  qed (use free(3) h n in \<open>auto simp: give_block_def moves split: owner.splits\<close>)
  moreover have "M(Free := [], Disp d := [m]) = M(Disp d := [m])" using free(2) by (auto simp: fun_eq_iff)
  ultimately show ?thesis
    by (intro inv_d_goto [OF inv, of d _ "D_turn m b" "P(Free := [b + 1..<b + ?n] @ P Free, Disp d := [b])" "[m]"])
      (use d h in \<open>simp_all add: give_block_def moves\<close>)
qed

text \<open>The steps that touch nothing but the place, the turn, or the thread's own item.\<close>

lemma own_d_goto:
  assumes "own s P M" "d < length (dispatchers s)" "disp_holds (mem s') x (P (Disp d)) (M (Disp d))"
    and "lanes s' = lanes s" "workers s' = workers s" "dispatchers s' = (dispatchers s)[d := x]"
      "free_rq s' = free_rq s"
    and "\<And>a. live (mem s) a \<Longrightarrow> a \<notin> set (P (Disp d)) \<Longrightarrow> agree (mem s) (mem s') {a}"
      "brk (mem s') = brk (mem s)" "live (mem s') = live (mem s)"
  shows "own s' P (M(Disp d := M (Disp d)))"
  by (rule own_same [OF assms(1)]) (use assms(2-) in \<open>auto simp: moves split: owner.splits\<close>)

lemma dispatcher_turns_kept:
  assumes inv: "interleaved_inv s P M" and d: "d < length (dispatchers s)"
    and x: "dispatchers s ! d = D_turn m a \<and> s' = d_goto d (D_store m a (nat ((turn s + 1) mod int (length (lanes s))))) s \<or>
      dispatchers s ! d = D_store m a i \<and> s' = d_goto d (D_fill m a i) (s\<lparr>turn := int i\<rparr>) \<or>
      dispatchers s ! d = D_fill m a i \<and> s' = d_goto d (D_push m a i) (s\<lparr>mem := set_content a m (mem s)\<rparr>)"
  shows "kept s M s'"
proof -
  have h: "P (Disp d) = [a]" "M (Disp d) = [m]" "live (mem s) a"
    using ownD(1) [OF inv_own [OF inv], of "Disp d"] d x by auto
  have n: "nat ((turn s + 1) mod int (length (lanes s))) < length (lanes s)"
    using inv_lanes [OF inv] by (simp add: nat_less_iff)
  have i: "i < length (lanes s)" if "dispatchers s ! d \<noteq> D_turn m a"
    using x that inv_dispatcher [OF inv d, of i] by auto
  obtain y where y: "dispatchers s' = (dispatchers s)[d := y]" "y = D_store m a (nat ((turn s + 1) mod int (length (lanes s)))) \<or>
      i < length (lanes s) \<and> y \<in> {D_fill m a i, D_push m a i}" "\<And>j. y \<noteq> D_notify j" "disp_holds (mem s') y [a] [m]"
    using x h i d by (auto simp: d_goto_def value_set_content)
  have "own s' P (M(Disp d := M (Disp d)))"
    by (rule own_d_goto [OF inv_own [OF inv] d, where x = y])
      (use x h y in \<open>auto simp: moves agree_def value_set_content fun_eq_iff\<close>)
  then show ?thesis
    by (intro inv_d_goto [OF inv d, of _ y P "M (Disp d)"]) (use x y n in \<open>auto simp: moves\<close>)
qed

lemma link_tail_agree:
  assumes "queue_of (st, q) as" "b \<noteq> a" "b \<notin> set as"
  shows "agree st (fst (link_tail a (st, q))) {b}"
  using link_tail_next [OF assms] by (simp add: agree_def)

lemma calls_of_lane [simp]: "calls_of i [] = []"
  "calls_of i (xs @ [e]) = calls_of i xs @ (if fst e = i then [snd e] else [])"
  by (simp_all add: calls_of_def)

lemma in_range_update:
  assumes "in_range s" "length (lanes s') = length (lanes s)"
    and "\<And>k. k \<in> set (workers s') \<Longrightarrow> w_lane k < length (lanes s)"
    and "\<And>x i. x \<in> set (dispatchers s') \<Longrightarrow> lane_chosen x = Some i \<Longrightarrow> i < length (lanes s)"
    and "\<And>i. R_create i \<in> set (restarters s') \<Longrightarrow> i < length (lanes s)"
  shows "in_range s'"
  using assms by (auto simp: in_range_def)

lemma in_rangeD:
  assumes "in_range s"
  shows "k \<in> set (workers s) \<Longrightarrow> w_lane k < length (lanes s)"
    "x \<in> set (dispatchers s) \<Longrightarrow> lane_chosen x = Some i \<Longrightarrow> i < length (lanes s)"
    "R_create i \<in> set (restarters s) \<Longrightarrow> i < length (lanes s)"
  using assms by (auto simp: in_range_def)

lemma push_item_kept:
  assumes inv: "interleaved_inv s P M" and d: "d < length (dispatchers s)" "dispatchers s ! d = D_push m a i"
  shows "kept s M (push_item d m a i s)"
proof -
  have h: "P (Disp d) = [a]" "M (Disp d) = [m]" "live (mem s) a" "value_at (mem s) a = Some m"
    using ownD(1) [OF inv_own [OF inv], of "Disp d"] d by simp_all
  have i: "i < length (lanes s)" by (rule inv_dispatcher [OF inv d(1)]) (simp add: d)
  let ?q = "lane_queue (lanes s ! i)" and ?as = "P (Lane i)" and ?ms = "M (Lane i)"
  have q: "queue_of (mem s, ?q) ?as" "map (value_at (mem s)) ?as = map Some ?ms"
    using ownD(1) [OF inv_own [OF inv], of "Lane i"] i by simp_all
  have a: "a \<notin> set ?as" using ownD(3) [OF inv_own [OF inv], of "Disp d" "Lane i" a] h(1) by simp
  obtain st q' where l: "link_tail a (mem s, ?q) = (st, q')" by (cases "link_tail a (mem s, ?q)")
  have st: "st = fst (link_tail a (mem s, ?q))" by (simp add: l)
  let ?s' = "push_item d m a i s" and ?t = "(lanes s ! i)\<lparr>lane_queue := q'\<rparr>"
  have s': "mem ?s' = st" "free_rq ?s' = free_rq s" "lanes ?s' = (lanes s)[i := ?t]"
    "dispatchers ?s' = (dispatchers s)[d := D_notify i]" "workers ?s' = workers s" "restarters ?s' = restarters s"
    "begun ?s' = begun s" "entered ?s' = entered s" "linked ?s' = linked s @ [(i, m)]"
    by (simp_all add: push_item_def l moves)
  let ?P = "P(Disp d := [], Lane i := ?as @ [a])" and ?M = "M(Disp d := [], Lane i := ?ms @ [m])"
  have own: "own ?s' ?P ?M"
  proof (rule own_move [OF inv_own [OF inv]])
    have "queue_of (st, q') (?as @ [a])" using queue_of_link [OF q(1) a h(3)] by (simp add: l)
    moreover have "map (value_at st) (?as @ [a]) = map Some (?ms @ [m])" using q(2) h(4) by (simp add: st)
    ultimately show "holds ?s' (Lane i) (?as @ [a]) (?ms @ [m])" using i by (simp add: s')
    show "agree (mem s) (mem ?s') {b}" if "b \<notin> set (P (Disp d))" "b \<notin> set (P (Lane i))" for b
      using link_tail_agree [OF q(1), of b a] that by (simp add: h(1) s' st)
    show "same_place s ?s' z" if "z \<noteq> Disp d" "z \<noteq> Lane i" for z
      using that by (auto simp: s' moves split: owner.splits)
    show "distinct ([] @ ?as @ [a])" using a q(1) by (simp add: queue_of_def)
    show "\<forall>b\<ge>brk (mem ?s'). \<not> live (mem ?s') b" using chain_free(3) [OF inv_own [OF inv]] by (simp add: s' st)
  qed (use d h in \<open>auto simp: s'\<close>)
  have range: "in_range ?s'"
    by (rule in_range_update [OF inv_range [OF inv]])
      (use i in_rangeD [OF inv_range [OF inv]] in \<open>auto simp: s' dest: set_update_subset_insert [THEN subsetD]\<close>)
  have tok: "length (?P (Lane j)) = tokens ?s' j" if "j < length (lanes s)" for j
    using inv_tokens [OF inv that] i d length_filter_update [OF d(1), of "\<lambda>x. x = D_notify j" "D_notify i"]
    by (auto simp: tokens_def s' nth_update_if)
  have "pending ?s' ?M + (mset (M (Disp d)) + mset ?ms) = pending s M + (mset [] + mset (?ms @ [m]))"
    by (rule pending_move) (use d i s' in \<open>simp_all add: owners_def\<close>)
  then have "pending ?s' ?M = pending s M" by (simp add: h(2) ac_simps)
  with own range tok inv_begun [OF inv] have "interleaved_inv ?s' ?P ?M"
    by (simp add: interleaved_inv_def s')
  then show ?thesis
    by (rule keptI) (use i in \<open>auto simp: fifo_lanes_def s'\<close>)
qed

lemma notify_kept:
  assumes inv: "interleaved_inv s P M" and d: "d < length (dispatchers s)" "dispatchers s ! d = D_notify i"
    and s': "s' = d_goto d D_ready (set_lane i ((lanes s ! i)\<lparr>lane_pipe := lane_pipe (lanes s ! i) @ ''c''\<rparr>) s)"
  shows "kept s M s'"
proof -
  have h: "P (Disp d) = []" "M (Disp d) = []" using ownD(1) [OF inv_own [OF inv], of "Disp d"] d by simp_all
  have i: "i < length (lanes s)" by (rule inv_dispatcher [OF inv d(1)]) (simp add: d)
  have own: "own s' P (M(Disp d := []))"
    by (rule own_same [OF inv_own [OF inv]]) (use d h in \<open>auto simp: s' moves split: owner.splits\<close>)
  have M: "M(Disp d := []) = M" using h by (auto simp: fun_eq_iff)
  have "in_range s'"
    by (rule in_range_update [OF inv_range [OF inv]])
      (use in_rangeD [OF inv_range [OF inv]] in \<open>auto simp: s' moves dest: set_update_subset_insert [THEN subsetD]\<close>)
  moreover have "tokens s' j = tokens s j" if "j < length (lanes s)" for j
    using d i that length_filter_update [OF d(1), of "\<lambda>x. x = D_notify j" D_ready]
    by (auto simp: tokens_def s' moves)
  moreover have "pending s' M = pending s M" by (simp add: pending_def owners_def s' moves)
  ultimately have "interleaved_inv s' P M"
    using own inv_tokens [OF inv] inv_begun [OF inv] by (simp add: interleaved_inv_def M) (simp add: s' moves)
  then show ?thesis by (rule keptI) (simp add: fifo_lanes_def s' moves)
qed

lemma dispatcher_step_kept:
  assumes inv: "interleaved_inv s P M"
  shows "kept s M (dispatcher_step d s)"
proof (cases "d < length (dispatchers s)")
  case True
  show ?thesis
  proof (cases "dispatchers s ! d")
    case (D_turn m a)
    with True show ?thesis
      using dispatcher_turns_kept [OF inv True, of m a] by (simp add: dispatcher_step_def)
  next
    case (D_store m a i)
    with True show ?thesis
      using dispatcher_turns_kept [OF inv True, of m a _ i] by (simp add: dispatcher_step_def)
  next
    case (D_fill m a i)
    with True show ?thesis
      using dispatcher_turns_kept [OF inv True, of m a _ i] by (simp add: dispatcher_step_def)
  qed (use True inv in \<open>simp_all add: dispatcher_step_def kept_refl new_from_list_kept new_block_kept give_block_kept
      push_item_kept notify_kept\<close>)
qed (simp add: dispatcher_step_def kept_refl [OF inv])

subsection \<open>A thread that works\<close>

lemma in_range_workers:
  assumes "in_range s" "w < length (workers s)" "length (lanes s') = length (lanes s)"
    and "workers s' = (workers s)[w := (workers s ! w)\<lparr>w_pc := pc\<rparr>]" "dispatchers s' = dispatchers s"
      "restarters s' = restarters s"
  shows "in_range s'"
  using assms(3-) in_rangeD [OF assms(1)] nth_mem [OF assms(2)]
  by (intro in_range_update [OF assms(1)]) (auto dest!: set_update_subset_insert [THEN subsetD])

lemma pops_update:
  assumes "w < length (workers s)"
  shows "length (filter (\<lambda>k. w_pc k = W_pop \<and> w_lane k = i) ((workers s)[w := (workers s ! w)\<lparr>w_pc := pc\<rparr>])) +
      (if w_pc (workers s ! w) = W_pop \<and> w_lane (workers s ! w) = i then 1 else 0) =
    length (filter (\<lambda>k. w_pc k = W_pop \<and> w_lane k = i) (workers s)) +
      (if pc = W_pop \<and> w_lane (workers s ! w) = i then 1 else 0)"
  using length_filter_update [OF assms, of "\<lambda>k. w_pc k = W_pop \<and> w_lane k = i" "(workers s ! w)\<lparr>w_pc := pc\<rparr>"] by simp

text \<open>A worker goes on with what it has; the queues stay as they are.\<close>

lemma inv_w_goto:
  assumes inv: "interleaved_inv s P M" and w: "w < length (workers s)"
    and s': "mem s' = mem s" "free_rq s' = free_rq s" "dispatchers s' = dispatchers s" "restarters s' = restarters s"
      "begun s' = begun s" "linked s' = linked s" "entered s' = entered s"
      "workers s' = (workers s)[w := (workers s ! w)\<lparr>w_pc := pc\<rparr>]"
    and lanes: "length (lanes s') = length (lanes s)" "\<And>i. lane_queue (lanes s' ! i) = lane_queue (lanes s ! i)"
    and pc: "work_holds (mem s) pc (P (Work w)) (M (Work w))"
    and tok: "\<And>i. i < length (lanes s) \<Longrightarrow>
      count_list (lane_pipe (lanes s' ! i)) CHR ''c'' + (if pc = W_pop \<and> w_lane (workers s ! w) = i then 1 else 0) =
      count_list (lane_pipe (lanes s ! i)) CHR ''c'' +
        (if w_pc (workers s ! w) = W_pop \<and> w_lane (workers s ! w) = i then 1 else 0)"
  shows "kept s M s'"
proof (rule keptI)
  have "own s' P (M(Work w := M (Work w)))"
    by (rule own_same [OF inv_own [OF inv]]) (use w s' lanes pc in \<open>auto simp: moves split: owner.splits\<close>)
  then have "own s' P M" by simp
  moreover have "in_range s'" by (rule in_range_workers [OF inv_range [OF inv] w]) (use s' lanes in simp_all)
  moreover have "tokens s' i = tokens s i" if "i < length (lanes s)" for i
    using tok [OF that] pops_update [OF w, of i pc] by (simp add: tokens_def s')
  moreover have "pending s' M = pending s M" by (simp add: pending_def owners_def s' lanes)
  ultimately show "interleaved_inv s' P M"
    using inv_tokens [OF inv] inv_begun [OF inv] by (simp add: interleaved_inv_def s' lanes)
  show "fifo_lanes s' M" if "fifo_lanes s M" using that by (simp add: fifo_lanes_def s' lanes)
qed

lemma worker_stays_kept:
  assumes inv: "interleaved_inv s P M" and w: "w < length (workers s)"
    and pc: "w_pc (workers s ! w) \<in> {W_start, W_poll, W_check, W_leave}" "pc' \<in> {W_poll, W_check, W_leave, W_dead}"
    and t: "lane_queue t = lane_queue (lanes s ! i)" "lane_pipe t = lane_pipe (lanes s ! i)"
  shows "kept s M (w_goto w pc' (set_lane i t s))" "kept s M (w_goto w pc' s)"
proof -
  have h: "P (Work w) = []" "M (Work w) = []" using ownD(1) [OF inv_own [OF inv], of "Work w"] w pc(1) by auto
  show "kept s M (w_goto w pc' (set_lane i t s))"
    by (rule inv_w_goto [OF inv w, of _ pc']) (use h pc t in \<open>auto simp: moves\<close>)
  show "kept s M (w_goto w pc' s)"
    by (rule inv_w_goto [OF inv w, of _ pc']) (use h pc in \<open>auto simp: moves\<close>)
qed

lemma worker_goes_on_kept:
  assumes inv: "interleaved_inv s P M" and w: "w < length (workers s)"
    and pc: "w_pc (workers s ! w) = W_in a \<and> pc' \<in> {W_count a, W_clean a} \<or> w_pc (workers s ! w) = W_count a \<and> pc' = W_free a"
    and t: "lane_queue t = lane_queue (lanes s ! i)" "lane_pipe t = lane_pipe (lanes s ! i)"
  shows "kept s M (w_goto w pc' (set_lane i t s))" "kept s M (w_goto w pc' s)"
proof -
  have h: "P (Work w) = [a]" "M (Work w) = []" "live (mem s) a"
    using ownD(1) [OF inv_own [OF inv], of "Work w"] w pc by auto
  show "kept s M (w_goto w pc' (set_lane i t s))"
    by (rule inv_w_goto [OF inv w, of _ pc']) (use h pc t in \<open>auto simp: moves\<close>)
  show "kept s M (w_goto w pc' s)"
    by (rule inv_w_goto [OF inv w, of _ pc']) (use h pc in \<open>auto simp: moves\<close>)
qed

lemma read_byte_kept:
  assumes inv: "interleaved_inv s P M" and w: "w < length (workers s)" "w_pc (workers s ! w) = W_poll"
  shows "kept s M (read_byte w s)"
proof (cases "lane_pipe (lanes s ! w_lane (workers s ! w))")
  case Nil
  then show ?thesis using kept_refl [OF inv] by (simp add: read_byte_def)
next
  case (Cons c cs)
  let ?i = "w_lane (workers s ! w)"
  have h: "P (Work w) = []" "M (Work w) = []" using ownD(1) [OF inv_own [OF inv], of "Work w"] w by auto
  have i: "?i < length (lanes s)" by (rule inv_worker [OF inv w(1)])
  show ?thesis
    by (rule inv_w_goto [OF inv w(1), of _ "if c = CHR ''c'' then W_pop else W_check"])
      (use Cons h w i in \<open>auto simp: read_byte_def Let_def moves\<close>)
qed

text \<open>The queue has an item for every byte read.\<close>

lemma pop_item_kept:
  assumes inv: "interleaved_inv s P M" and w: "w < length (workers s)" "w_pc (workers s ! w) = W_pop"
  shows "kept s M (pop_item w s)"
proof -
  let ?i = "w_lane (workers s ! w)"
  let ?q = "lane_queue (lanes s ! ?i)" and ?as = "P (Lane ?i)"
  have h: "P (Work w) = []" "M (Work w) = []" using ownD(1) [OF inv_own [OF inv], of "Work w"] w by auto
  have i: "?i < length (lanes s)" by (rule inv_worker [OF inv w(1)])
  have q: "queue_of (mem s, ?q) ?as" "map (value_at (mem s)) ?as = map Some (M (Lane ?i))"
    using ownD(1) [OF inv_own [OF inv], of "Lane ?i"] i by simp_all
  have "workers s ! w \<in> set (filter (\<lambda>k. w_pc k = W_pop \<and> w_lane k = ?i) (workers s))" using w by simp
  then have "0 < length (filter (\<lambda>k. w_pc k = W_pop \<and> w_lane k = ?i) (workers s))" by (metis length_pos_if_in_set)
  then have "?as \<noteq> []" using inv_tokens [OF inv i] by (auto simp: tokens_def)
  then obtain a as m ms where as: "?as = a # as" "M (Lane ?i) = m # ms" "value_at (mem s) a = Some m"
    "map (value_at (mem s)) as = map Some ms"
    using q(2) by (cases ?as; cases "M (Lane ?i)") auto
  obtain q' where u: "unlink_head (mem s, ?q) = (Some a, q')" "queue_of (mem s, q') as"
    using queue_of_unlink [of "mem s" ?q a as] q(1) as(1) by (cases "unlink_head (mem s, ?q)") auto
  let ?s' = "pop_item w s" and ?t = "(lanes s ! ?i)\<lparr>lane_queue := q'\<rparr>"
  have s': "mem ?s' = mem s" "free_rq ?s' = free_rq s" "lanes ?s' = (lanes s)[?i := ?t]"
    "dispatchers ?s' = dispatchers s" "workers ?s' = (workers s)[w := (workers s ! w)\<lparr>w_pc := W_call (Some a)\<rparr>]"
    "restarters ?s' = restarters s" "begun ?s' = begun s" "entered ?s' = entered s" "linked ?s' = linked s"
    by (simp_all add: pop_item_def u Let_def moves)
  let ?P = "P(Lane ?i := as, Work w := [a])" and ?M = "M(Lane ?i := ms, Work w := [m])"
  have dist: "distinct (a # as)" using q(1) as(1) by (simp add: queue_of_def)
  have own: "own ?s' ?P ?M"
    by (rule own_move [OF inv_own [OF inv]])
      (use w i as u q dist queue_of_live [OF q(1)] chain_free(3) [OF inv_own [OF inv]]
        in \<open>auto simp: s' moves split: owner.splits\<close>)
  have range: "in_range ?s'" by (rule in_range_workers [OF inv_range [OF inv] w(1)]) (simp_all add: s')
  have tok: "length (?P (Lane j)) = tokens ?s' j" if "j < length (lanes s)" for j
    using inv_tokens [OF inv that] i w pops_update [OF w(1), of j "W_call (Some a)"] as(1)
    by (auto simp: tokens_def s' nth_update_if)
  have "pending ?s' ?M + (mset (M (Lane ?i)) + mset (M (Work w))) = pending s M + (mset ms + mset [m])"
    by (rule pending_move) (use w i s' in \<open>simp_all add: owners_def\<close>)
  then have "pending ?s' ?M = pending s M" by (simp add: h as(2))
  with own range tok inv_begun [OF inv] have "interleaved_inv ?s' ?P ?M" by (simp add: interleaved_inv_def s')
  then show ?thesis
  proof (rule keptI)
    assume "one_each s" and f: "fifo_lanes s M"
    then have "?i = w" by (simp add: one_each_lane w(1))
    with f i as(2) h(2) show "fifo_lanes ?s' ?M" by (auto simp: fifo_lanes_def s')
  qed
qed

lemma enter_call_kept:
  assumes inv: "interleaved_inv s P M" and w: "w < length (workers s)" "w_pc (workers s ! w) = W_call r"
  shows "\<exists>s'. enter_call w r s = Inr s' \<and> kept s M s'"
proof -
  have hold: "work_holds (mem s) (W_call r) (P (Work w)) (M (Work w))"
    using ownD(1) [OF inv_own [OF inv], of "Work w"] w by simp
  then obtain a where r: "r = Some a" by (cases r) auto
  with hold obtain m where h: "P (Work w) = [a]" "M (Work w) = [m]" "live (mem s) a" "value_at (mem s) a = Some m"
    by (auto simp: map_eq_Cons_conv)
  have i: "w_lane (workers s ! w) < length (lanes s)" by (rule inv_worker [OF inv w(1)])
  define s' where "s' = w_goto w (W_in a) (s\<lparr>entered := entered s @ [(w_lane (workers s ! w), m)]\<rparr>)"
  have "own s' P (M(Work w := []))"
    by (rule own_same [OF inv_own [OF inv]]) (use w h in \<open>auto simp: s'_def moves split: owner.splits\<close>)
  moreover have "in_range s'"
    by (rule in_range_workers [OF inv_range [OF inv] w(1)]) (simp_all add: s'_def moves)
  moreover have "tokens s' j = tokens s j" for j
    using pops_update [OF w(1), of j "W_in a"] w(2) by (simp add: tokens_def s'_def w_goto_def)
  moreover have "pending s' (M(Work w := [])) + mset (M (Work w)) = pending s M + mset []"
    by (rule pending_update) (use w in \<open>simp_all add: s'_def moves owners_def\<close>)
  then have "mset (begun s') = mset (map snd (entered s')) + pending s' (M(Work w := []))"
    using inv_begun [OF inv] h(2) by (simp add: s'_def moves ac_simps)
  ultimately have "interleaved_inv s' P (M(Work w := []))"
    using inv_tokens [OF inv] by (simp add: interleaved_inv_def) (simp add: s'_def moves)
  then have "kept s M s'"
  proof (rule keptI)
    assume "one_each s" and f: "fifo_lanes s M"
    then have "w_lane (workers s ! w) = w" by (simp add: one_each_lane w(1))
    with f i h(2) show "fifo_lanes s' (M(Work w := []))" by (auto simp: fifo_lanes_def s'_def moves)
  qed
  then show ?thesis by (simp add: enter_call_def r h(4) s'_def)
qed

lemma free_item_kept:
  assumes inv: "interleaved_inv s P M" and w: "w < length (workers s)"
    and pc: "w_pc (workers s ! w) \<in> {W_free a, W_clean a}" "pc' \<in> {W_check, W_dead}"
  shows "kept s M (w_goto w pc' (free_rq_item a s))"
proof -
  have h: "P (Work w) = [a]" "M (Work w) = []" "live (mem s) a"
    using ownD(1) [OF inv_own [OF inv], of "Work w"] w pc(1) by auto
  note free = chain_free [OF inv_own [OF inv]]
  have a: "a \<notin> set (P Free)" using ownD(3) [OF inv_own [OF inv], of "Work w" Free a] h(1) by simp
  define s' where "s' = w_goto w pc' (free_rq_item a s)"
  have s': "mem s' = set_next a (free_rq s) (mem s)" "free_rq s' = Some a" "lanes s' = lanes s"
    "dispatchers s' = dispatchers s" "workers s' = (workers s)[w := (workers s ! w)\<lparr>w_pc := pc'\<rparr>]"
    "restarters s' = restarters s" "begun s' = begun s" "entered s' = entered s" "linked s' = linked s"
    by (simp_all add: s'_def free_rq_item_def give_item_def moves)
  have chain: "chain (mem s') (Some a) (a # P Free)"
    using free(1) a h(3) by (simp add: s' get_next_set_next chain_set_next)
  have own: "own s' (P(Free := a # P Free, Work w := [])) (M(Free := [], Work w := []))"
    by (rule own_move [OF inv_own [OF inv]])
      (use w h a chain free(3) pc ownD(2) [OF inv_own [OF inv], of Free]
        in \<open>auto simp: s' moves agree_def get_next_set_next split: owner.splits\<close>)
  have M: "M(Free := [], Work w := []) = M" using h(2) free(2) by (auto simp: fun_eq_iff)
  have "in_range s'" by (rule in_range_workers [OF inv_range [OF inv] w]) (simp_all add: s')
  moreover have "tokens s' j = tokens s j" for j
    using pops_update [OF w, of j pc'] pc by (auto simp: tokens_def s')
  moreover have "pending s' M = pending s M" by (simp add: pending_def owners_def s')
  ultimately have "interleaved_inv s' (P(Free := a # P Free, Work w := [])) M"
    using own inv_tokens [OF inv] inv_begun [OF inv] by (simp add: interleaved_inv_def M s')
  then show ?thesis unfolding s'_def [symmetric] by (rule keptI) (simp add: fifo_lanes_def s')
qed

lemma worker_step_kept:
  assumes inv: "interleaved_inv s P M"
  shows "(\<exists>s'. worker_step w s = Inr s' \<and> kept s M s') \<or> worker_step w s = Inl UseAfterFree \<and> \<not> one_each s"
proof (cases "w < length (workers s)")
  case w: True
  have loop: "loop_live (lanes s ! w_lane (workers s ! w))" if "one_each s" "w_pc (workers s ! w) \<noteq> W_dead"
    using that w one_each_lane [of s w] by (auto simp: one_each_def)
  show ?thesis
  proof (cases "w_pc (workers s ! w)")
    case (W_call r)
    with w enter_call_kept [OF inv w W_call] show ?thesis by (simp add: worker_step_def)
  next
    case W_poll
    with w loop worker_stays_kept [OF inv w] read_byte_kept [OF inv w W_poll] show ?thesis
      by (auto simp: worker_step_def Let_def)
  qed (use w loop in \<open>auto simp: worker_step_def Let_def kept_refl [OF inv] pop_item_kept [OF inv]
      worker_stays_kept [OF inv] worker_goes_on_kept [OF inv] free_item_kept [OF inv]\<close>)
qed (simp add: worker_step_def kept_refl [OF inv])

lemma cancel_step_kept: "interleaved_inv s P M \<Longrightarrow> kept s M (cancel_step w s)"
  by (cases "w_pc (workers s ! w)") (auto simp: cancel_step_def kept_refl worker_goes_on_kept)

subsection \<open>Restarts and the end\<close>

lemma lane_index_less: "lane_index tid ts = Some i \<Longrightarrow> i < length ts"
  by (induction ts arbitrary: i) (auto split: if_splits)

lemma inv_elsewhere:
  assumes inv: "interleaved_inv s P M"
    and s': "mem s' = mem s" "free_rq s' = free_rq s" "dispatchers s' = dispatchers s"
      "begun s' = begun s" "linked s' = linked s" "entered s' = entered s"
    and w: "map w_lane (workers s') = map w_lane (workers s)" "map w_pc (workers s') = map w_pc (workers s)"
    and lanes: "length (lanes s') = length (lanes s)" "\<And>i. lane_queue (lanes s' ! i) = lane_queue (lanes s ! i)"
      "\<And>i. i < length (lanes s) \<Longrightarrow> count_list (lane_pipe (lanes s' ! i)) CHR ''c'' = count_list (lane_pipe (lanes s ! i)) CHR ''c''"
    and r: "\<And>i. R_create i \<in> set (restarters s') \<Longrightarrow> i < length (lanes s)"
  shows "kept s M s'"
proof (rule keptI)
  have l: "length (workers s') = length (workers s)" using w(1) by (metis length_map)
  have nth: "w_lane (workers s' ! i) = w_lane (workers s ! i)" "w_pc (workers s' ! i) = w_pc (workers s ! i)"
    if "i < length (workers s)" for i
    using arg_cong [OF w(1), of "\<lambda>xs. xs ! i"] arg_cong [OF w(2), of "\<lambda>xs. xs ! i"] that l by simp_all
  have "holds s' x (P x) (M x)" for x
    by (rule holds_frame [OF ownD(1) [OF inv_own [OF inv]]])
      (use s' lanes l nth in \<open>auto simp: moves split: owner.splits\<close>)
  then have "own s' P M" using inv_own [OF inv] s'(1) by (simp add: own_def)
  moreover have "in_range s'"
  proof (rule in_range_update [OF inv_range [OF inv] lanes(1)])
    fix k assume "k \<in> set (workers s')"
    then have "w_lane k \<in> set (map w_lane (workers s))" unfolding w(1) [symmetric] by simp
    then show "w_lane k < length (lanes s)" using in_rangeD(1) [OF inv_range [OF inv]] by auto
  qed (use r s' in_rangeD(2) [OF inv_range [OF inv]] in auto)
  moreover have "tokens s' i = tokens s i" if "i < length (lanes s)" for i
  proof -
    have "length (filter (\<lambda>k. w_pc k = W_pop \<and> w_lane k = i) (workers s')) =
        length (filter (\<lambda>k. w_pc k = W_pop \<and> w_lane k = i) (workers s))"
      unfolding length_filter_conv_card l by (rule arg_cong [where f = card]) (use nth in auto)
    with lanes(3) [OF that] s' show ?thesis by (simp add: tokens_def)
  qed
  moreover have "pending s' M = pending s M" by (simp add: pending_def owners_def s' lanes l)
  ultimately show "interleaved_inv s' P M"
    using inv_tokens [OF inv] inv_begun [OF inv] by (simp add: interleaved_inv_def s' lanes)
  show "fifo_lanes s' M" if "fifo_lanes s M" using that by (simp add: fifo_lanes_def s' lanes)
qed

lemma map_unchanged: "f y = f (xs ! i) \<Longrightarrow> map f (xs[i := y]) = map f xs"
  by (simp add: map_update) (metis list_update_id map_update)

lemma restart_check_kept:
  assumes inv: "interleaved_inv s P M"
  shows "kept s M (restart_check r tid v s)"
proof -
  let ?i = "case lane_index tid (lanes s) of None \<Rightarrow> 0 | Some i \<Rightarrow> i"
  have i: "?i < length (lanes s)" using inv_lanes [OF inv] by (auto split: option.splits dest: lane_index_less)
  have m: "map f ((workers s)[tid := (workers s ! tid)\<lparr>cancelled := True\<rparr>]) = map f (workers s)"
    if "\<And>k. f (k\<lparr>cancelled := True\<rparr>) = f k" for f
    by (rule map_unchanged) (rule that)
  show ?thesis
  proof (cases "r < length (restarters s) \<and> restarters s ! r = R_ready \<and> lanes s \<noteq> [] \<and> \<not> v < lane_version (lanes s ! ?i)")
    case True
    show ?thesis
      by (rule inv_elsewhere [OF inv])
        (use True i in_rangeD(3) [OF inv_range [OF inv]] in
          \<open>auto simp: restart_check_def Let_def moves m dest!: set_update_subset_insert [THEN subsetD]\<close>)
  next
    case False
    then have "restart_check r tid v s = s" by (auto simp: restart_check_def Let_def)
    then show ?thesis by (simp add: kept_refl [OF inv])
  qed
qed

lemma quit_lane_kept: "interleaved_inv s P M \<Longrightarrow> kept s M (quit_lane i s)"
  by (cases "i < length (lanes s)")
    (auto simp: quit_lane_def kept_refl moves intro!: inv_elsewhere in_rangeD(3) [OF inv_range])

lemma restart_create_kept:
  assumes inv: "interleaved_inv s P M"
  shows "kept s M (restart_create r s)"
proof (cases "r < length (restarters s) \<and> restarters s ! r \<noteq> R_ready")
  case True
  then obtain i where r: "restarters s ! r = R_create i" by (cases "restarters s ! r") auto
  have i: "i < length (lanes s)"
    using in_rangeD(3) [OF inv_range [OF inv], of i] True r by (metis nth_mem)
  let ?w = "length (workers s)" and ?s' = "restart_create r s"
  have s': "mem ?s' = mem s" "free_rq ?s' = free_rq s" "dispatchers ?s' = dispatchers s"
    "lanes ?s' = (lanes s)[i := (lanes s ! i)\<lparr>lane_tid := ?w\<rparr>]"
    "workers ?s' = workers s @ [\<lparr>w_lane = i, w_pc = W_start, cancelled = False\<rparr>]"
    "restarters ?s' = (restarters s)[r := R_ready]"
    "begun ?s' = begun s" "linked ?s' = linked s" "entered ?s' = entered s"
    using True r by (simp_all add: restart_create_def moves)
  have h: "P (Work ?w) = []" "M (Work ?w) = []" using ownD(1) [OF inv_own [OF inv], of "Work ?w"] by simp_all
  have "own ?s' P (M(Work ?w := []))"
    by (rule own_same [OF inv_own [OF inv]]) (use h in \<open>auto simp: s' moves nth_append split: owner.splits\<close>)
  moreover have M: "M(Work ?w := []) = M" using h by (auto simp: fun_eq_iff)
  moreover have "in_range ?s'"
    by (rule in_range_update [OF inv_range [OF inv]])
      (use i in_rangeD [OF inv_range [OF inv]] in \<open>auto simp: s' dest!: set_update_subset_insert [THEN subsetD]\<close>)
  moreover have "tokens ?s' j = tokens s j" for j by (simp add: tokens_def s' moves)
  moreover have "pending ?s' M = pending s M"
  proof -
    have "owners ?s' = insert (Work ?w) (owners s)" by (auto simp: owners_def s' less_Suc_eq)
    then show ?thesis by (simp add: pending_def h)
  qed
  ultimately have "interleaved_inv ?s' P M"
    using inv_tokens [OF inv] inv_begun [OF inv] by (simp add: interleaved_inv_def s')
  then show ?thesis by (rule keptI) (simp add: fifo_lanes_def s')
next
  case False
  then show ?thesis by (auto simp: restart_create_def kept_refl [OF inv] split: restarter.splits)
qed

lemma act_kept:
  assumes "interleaved_inv s P M"
  shows "(\<exists>s'. act x s = Inr s' \<and> kept s M s') \<or> act x s = Inl UseAfterFree \<and> \<not> one_each s"
  using worker_step_kept [OF assms]
  by (cases x) (simp_all add: act_def begin_call_kept [OF assms] dispatcher_step_kept [OF assms] cancel_step_kept [OF assms]
      restart_check_kept [OF assms] restart_create_kept [OF assms] quit_lane_kept [OF assms])

subsection \<open>Without restarts\<close>

lemma one_each_update:
  assumes "one_each s" "restarters s' = restarters s" "map lane_tid (lanes s') = map lane_tid (lanes s)"
    and "map w_lane (workers s') = map w_lane (workers s)"
    and "\<And>w. w < length (workers s) \<Longrightarrow> loop_live (lanes s ! w) \<or> w_pc (workers s ! w) = W_dead \<Longrightarrow>
      loop_live (lanes s' ! w) \<or> w_pc (workers s' ! w) = W_dead"
  shows "one_each s'"
proof -
  have "length (workers s') = length (workers s)" "length (lanes s') = length (lanes s)"
    using assms(3,4) by (metis length_map)+
  then show ?thesis using assms by (simp add: one_each_def)
qed

lemma one_each_w_goto:
  assumes "one_each s" "w < length (workers s)" "w_pc (workers s ! w) \<noteq> W_dead"
    and "loop_live t = loop_live (lanes s ! w) \<or> pc = W_dead" "lane_tid t = lane_tid (lanes s ! w)"
  shows "one_each (w_goto w pc (set_lane w t s))"
proof (rule one_each_update [OF assms(1)])
  fix v assume "v < length (workers s)" "loop_live (lanes s ! v) \<or> w_pc (workers s ! v) = W_dead"
  moreover have "loop_live (lanes s ! w)" using assms(1-3) by (auto simp: one_each_def)
  ultimately show "loop_live (lanes (w_goto w pc (set_lane w t s)) ! v) \<or>
      w_pc (workers (w_goto w pc (set_lane w t s)) ! v) = W_dead"
    using assms(2,4) by (auto simp: moves)
qed (simp_all add: moves map_unchanged assms(5))

lemma one_each_w_goto':
  assumes "one_each s" "w < length (workers s)" "w_pc (workers s ! w) \<noteq> W_dead"
  shows "one_each (w_goto w pc s)"
  using one_each_w_goto [OF assms, of "lanes s ! w" pc] by (simp add: set_lane_def)

lemma one_each_cong:
  "one_each s \<Longrightarrow> restarters s' = restarters s \<Longrightarrow> lanes s' = lanes s \<Longrightarrow> workers s' = workers s \<Longrightarrow> one_each s'"
  by (simp add: one_each_def)

lemma one_each_worker:
  assumes "one_each s" "worker_step w s = Inr s'"
  shows "one_each s'"
proof (cases "w < length (workers s) \<and> w_pc (workers s ! w) \<noteq> W_dead")
  case True
  note lane = one_each_lane [OF assms(1) conjunct1 [OF True]]
  note goes = one_each_w_goto [OF assms(1) conjunct1 [OF True] conjunct2 [OF True]]
    one_each_w_goto' [OF assms(1) conjunct1 [OF True] conjunct2 [OF True]]
  have free: "one_each (w_goto w pc (free_rq_item a s))" for pc a
    by (rule one_each_w_goto') (use True assms(1) in \<open>auto simp: free_rq_item_def give_item_def intro: one_each_cong\<close>)
  have enter: "one_each (w_goto w pc (s\<lparr>entered := e\<rparr>))" for pc e
    by (rule one_each_w_goto') (use True assms(1) in \<open>auto intro: one_each_cong\<close>)
  show ?thesis
    using assms(2) True lane goes free enter assms(1)
    by (cases "w_pc (workers s ! w)")
      (auto simp: worker_step_def Let_def enter_call_def read_byte_def pop_item_def
        split: if_splits option.splits list.splits prod.splits)
qed (use assms in \<open>auto simp: worker_step_def split: if_splits\<close>)

lemma dispatcher_step_rest:
  "workers (dispatcher_step d s) = workers s" "restarters (dispatcher_step d s) = restarters s"
  "map lane_tid (lanes (dispatcher_step d s)) = map lane_tid (lanes s)"
  "loop_live (lanes (dispatcher_step d s) ! i) = loop_live (lanes s ! i)"
  by (cases "dispatchers s ! d";
      simp add: dispatcher_step_def new_from_list_def new_block_def alloc_block_def give_block_def push_item_def
        moves map_unchanged split: option.split prod.split)+

lemma one_each_dispatcher: "one_each s \<Longrightarrow> one_each (dispatcher_step d s)"
  by (rule one_each_update) (simp_all add: dispatcher_step_rest)

lemma one_each_act:
  assumes "one_each s" "act x s = Inr s'" "\<not> restarts x"
  shows "one_each s'"
proof (cases x)
  case (Call d m)
  then show ?thesis using assms by (auto simp: act_def begin_call_def d_goto_def intro: one_each_cong)
next
  case (Cancelled w)
  then show ?thesis
    using assms by (auto simp: act_def cancel_step_def intro!: one_each_w_goto' split: worker_pc.splits if_splits)
next
  case (RestartCreate r)
  have "r < length (restarters s) \<Longrightarrow> restarters s ! r = R_ready"
    using assms(1) nth_mem [of r "restarters s"] by (simp add: one_each_def)
  then have "restart_create r s = s" by (simp add: restart_create_def)
  with RestartCreate assms show ?thesis by (simp add: act_def)
next
  case (Quit i)
  have "one_each (quit_lane i s)"
    by (rule one_each_update [OF assms(1)]) (auto simp: quit_lane_def moves map_unchanged)
  with Quit show ?thesis using assms(2) by (simp add: act_def)
qed (use assms in \<open>auto simp: act_def restarts_def one_each_worker one_each_dispatcher\<close>)

subsection \<open>Whole schedules\<close>

lemma schedule_kept:
  assumes "interleaved_inv s P M"
  shows "(\<exists>s' P' M'. schedule xs s = Inr s' \<and> interleaved_inv s' P' M' \<and>
      (one_each s \<and> fifo_lanes s M \<and> (\<forall>x\<in>set xs. \<not> restarts x) \<longrightarrow> one_each s' \<and> fifo_lanes s' M')) \<or>
    schedule xs s = Inl UseAfterFree \<and> (one_each s \<longrightarrow> (\<exists>x\<in>set xs. restarts x))"
  using assms
proof (induction xs arbitrary: s P M)
  case (Cons x xs)
  show ?case
  proof (cases "act x s")
    case (Inl f)
    then show ?thesis using act_kept [OF Cons.prems, of x] by auto
  next
    case (Inr s1)
    then obtain P1 M1 where inv1: "interleaved_inv s1 P1 M1"
      and f1: "one_each s \<Longrightarrow> fifo_lanes s M \<Longrightarrow> fifo_lanes s1 M1"
      using act_kept [OF Cons.prems, of x] by (auto simp: kept_def)
    have o1: "one_each s \<Longrightarrow> \<not> restarts x \<Longrightarrow> one_each s1" using one_each_act [OF _ Inr] by blast
    from Cons.IH [OF inv1] f1 o1 show ?thesis by (auto simp: Inr)
  qed
qed auto

lemma pool_started_inv:
  assumes "0 < n"
  shows "interleaved_inv (pool_started n nd nr :: 'm pool_state) (\<lambda>_. []) (\<lambda>_. [])"
    "one_each (pool_started n nd nr :: 'm pool_state)"
    "fifo_lanes (pool_started n nd nr :: 'm pool_state) (\<lambda>_. [])"
proof -
  let ?s = "pool_started n nd nr :: 'm pool_state"
  have "holds ?s x [] []" for x
    by (cases x) (auto simp: pool_started_def queue_of_def)
  then have "own ?s (\<lambda>_. []) (\<lambda>_. [])" by (simp add: own_def pool_started_def empty_store_def live_def)
  moreover have "tokens ?s i = 0" if "i < n" for i using that by (simp add: tokens_def pool_started_def)
  ultimately show "interleaved_inv ?s (\<lambda>_. []) (\<lambda>_. [])"
    using assms
    by (auto simp: interleaved_inv_def in_range_def pending_def pool_started_def tokens_def)
  show "one_each ?s" by (auto simp: one_each_def pool_started_def comp_def)
  show "fifo_lanes ?s (\<lambda>_. [])" by (simp add: fifo_lanes_def pool_started_def)
qed

lemma settled_pending:
  assumes inv: "interleaved_inv s P M" and "settled s"
  shows "pending s M = {#}"
proof -
  have "M x = []" for x
  proof (cases x)
    case (Lane i)
    have "i < length (lanes s) \<Longrightarrow> tokens s i = 0"
      using assms(2) by (auto simp: tokens_def settled_def count_list_0_iff filter_empty_conv)
    with inv_tokens [OF inv, of i] ownD(1) [OF inv_own [OF inv], of x] Lane show ?thesis
      by (auto split: if_splits)
  next
    case (Disp d)
    with ownD(1) [OF inv_own [OF inv], of x] assms(2) show ?thesis
      by (auto simp: settled_def all_set_conv_all_nth split: if_splits)
  next
    case (Work w)
    with ownD(1) [OF inv_own [OF inv], of x] assms(2) show ?thesis
      by (cases "w_pc (workers s ! w)") (auto simp: settled_def all_set_conv_all_nth split: if_splits)
  qed (use ownD(1) [OF inv_own [OF inv], of Free] in simp)
  then show ?thesis by (simp add: pending_def)
qed

text \<open>The calls on their way are those the owners hold.\<close>

lemma queue_walk_chain:
  "chain st p as \<Longrightarrow> map (value_at st) as = map Some ms \<Longrightarrow> length as \<le> k \<Longrightarrow> queue_walk k st p = ms"
proof (induction as arbitrary: p ms k)
  case Nil
  then show ?case by (cases k) (auto split: option.splits)
next
  case (Cons a as)
  then obtain k' m ms' where "k = Suc k'" "ms = m # ms'" by (cases k; cases ms) auto
  with Cons show ?case by auto
qed

lemma mset_concat_map: "mset (concat (map f xs)) = (\<Sum>i<length xs. mset (f (xs ! i)))"
  by (induction xs rule: rev_induct) (simp_all add: nth_append)

lemma in_flight_pending:
  assumes inv: "interleaved_inv s P M"
  shows "mset (in_flight s) = pending s M"
proof -
  have h: "holds s x (P x) (M x)" for x by (rule ownD(1) [OF inv_own [OF inv]])
  have disp: "call_in_hand (dispatchers s ! d) = M (Disp d)" if "d < length (dispatchers s)" for d
    using h [of "Disp d"] that by (cases "dispatchers s ! d") (auto simp: call_in_hand_def)
  have work: "call_popped (mem s) (w_pc (workers s ! w)) = M (Work w)" if "w < length (workers s)" for w
  proof (cases "w_pc (workers s ! w)")
    case (W_call r)
    with h [of "Work w"] that show ?thesis by (cases r) (auto simp: call_popped_def)
  qed (use h [of "Work w"] that in \<open>simp_all add: call_popped_def\<close>)
  have lane: "queue_walk (brk (mem s)) (mem s) (head (lane_queue (lanes s ! i))) = M (Lane i)"
    if "i < length (lanes s)" for i
  proof (rule queue_walk_chain)
    show "chain (mem s) (head (lane_queue (lanes s ! i))) (P (Lane i))"
      "map (value_at (mem s)) (P (Lane i)) = map Some (M (Lane i))"
      using h [of "Lane i"] that by (simp_all add: queue_of_def)
    have "set (P (Lane i)) \<subseteq> {..<brk (mem s)}"
      using ownD(4) [OF inv_own [OF inv], of _ "Lane i"] chain_free(3) [OF inv_own [OF inv]] by (auto simp: not_le [symmetric])
    then have "card (set (P (Lane i))) \<le> card {..<brk (mem s)}" by (intro card_mono) simp_all
    then show "length (P (Lane i)) \<le> brk (mem s)"
      using distinct_card [OF ownD(2) [OF inv_own [OF inv], of "Lane i"]] by simp
  qed
  have free: "M Free = []" using h [of Free] by simp
  have "pending s M = (\<Sum>i<length (lanes s). mset (M (Lane i))) + (\<Sum>d<length (dispatchers s). mset (M (Disp d))) +
      (\<Sum>w<length (workers s). mset (M (Work w)))"
    unfolding pending_def owners_def
    by (subst sum.insert, simp, blast, (subst sum.union_disjoint, simp, simp, blast)+)
      (simp add: sum.reindex inj_on_def free)
  then show ?thesis
    by (simp add: in_flight_def mset_concat_map disp lane work ac_simps)
qed

text \<open>The writes outside the blocks: one for each block, to the place before it.\<close>

definition stray_writes :: "'m store \<Rightarrow> bool" where
  "stray_writes st \<longleftrightarrow>
     (\<exists>k. brk st = 1 + k * item_per_alloc \<and> stray st = map (\<lambda>j. int (j * item_per_alloc)) [0..<k])"

lemma stray_link_block:
  "stray (link_block base i k st) = stray st @ (if i = 0 \<and> 0 < k then [int base - 1] else [])"
  by (induction base i k st rule: link_block.induct) (simp_all add: set_next_def)

lemma stray_keeps [simp]:
  "stray (set_next a p st) = stray st" "stray (set_content a x st) = stray st"
  "stray (fst (link_tail a (st, q))) = stray st"
  by (simp_all add: set_next_def set_content_def link_tail_def Let_def split: option.split)

lemma brk_link_tail [simp]: "brk (fst (link_tail a (st, q))) = brk st"
  by (simp add: set_next_def link_tail_def Let_def split: option.split)

lemma stray_writes_cong:
  "stray_writes st \<Longrightarrow> brk st' = brk st \<Longrightarrow> stray st' = stray st \<Longrightarrow> stray_writes st'"
  by (simp add: stray_writes_def)

lemma stray_new_block:
  assumes "stray_writes (mem s)"
  shows "stray_writes (mem (new_block d m s))"
proof -
  obtain k where k: "brk (mem s) = 1 + k * item_per_alloc"
    "stray (mem s) = map (\<lambda>j. int (j * item_per_alloc)) [0..<k]"
    using assms by (auto simp: stray_writes_def)
  then show ?thesis
    unfolding stray_writes_def
    by (intro exI [of _ "Suc k"])
      (simp add: new_block_def alloc_block_def d_goto_def stray_link_block item_per_alloc_def set_next_def)
qed

lemma stray_act:
  assumes "stray_writes (mem s)" "act x s = Inr s'"
  shows "stray_writes (mem s')"
proof (cases x)
  case (Dispatcher d)
  have "stray_writes (mem (dispatcher_step d s))"
  proof (cases "dispatchers s ! d")
    case (D_push m a i)
    obtain st q where l: "link_tail a (mem s, lane_queue (lanes s ! i)) = (st, q)"
      by (cases "link_tail a (mem s, lane_queue (lanes s ! i))")
    then have "stray_writes st"
      using assms(1) stray_keeps(3) [of a "mem s"] brk_link_tail [of a "mem s"]
      by (metis fst_conv stray_writes_cong)
    with assms(1) D_push l show ?thesis
      by (simp add: dispatcher_step_def push_item_def d_goto_def set_lane_def)
  next
    case (D_link m b)
    with assms(1) show ?thesis
      by (auto simp: dispatcher_step_def give_block_def d_goto_def set_next_def intro: stray_writes_cong)
  next
    case (D_fill m a i)
    with assms(1) show ?thesis
      by (auto simp: dispatcher_step_def d_goto_def intro: stray_writes_cong)
  qed (use assms(1) stray_new_block in \<open>auto simp: dispatcher_step_def new_from_list_def d_goto_def set_lane_def
      split: option.split\<close>)
  with Dispatcher assms(2) show ?thesis by (simp add: act_def)
next
  case (Worker w)
  have "stray_writes (mem (free_rq_item a s))" for a
    using assms(1) by (auto simp: free_rq_item_def give_item_def set_next_def intro: stray_writes_cong)
  with Worker assms show ?thesis
    by (cases "w_pc (workers s ! w)")
      (auto simp: act_def worker_step_def Let_def enter_call_def read_byte_def pop_item_def
        w_goto_def set_lane_def split: if_splits option.splits list.splits prod.splits)
qed (use assms in \<open>auto simp: act_def begin_call_def cancel_step_def restart_check_def restart_create_def quit_lane_def
      Let_def d_goto_def w_goto_def set_lane_def split: worker_pc.splits restarter.splits if_splits\<close>)

lemma stray_schedule: "stray_writes (mem s) \<Longrightarrow> schedule xs s = Inr s' \<Longrightarrow> stray_writes (mem s')"
  by (induction xs arbitrary: s) (auto split: sum.splits dest: stray_act)

subsection \<open>One thread that dispatches\<close>

definition in_turn :: "'m pool_state \<Rightarrow> bool" where
  "in_turn s \<longleftrightarrow>
     0 < length (lanes s) \<and> length (dispatchers s) = 1 \<and>
     (let n = length (lanes s); k = length (linked s); calls = map snd (linked s);
          next_turn = (nat ((turn s + 1) mod int n) = k mod n) in
      (\<forall>i<n. calls_of i (linked s) = nths calls {j. j mod n = i}) \<and>
      (case dispatchers s ! 0 of
         D_ready \<Rightarrow> next_turn \<and> begun s = calls
       | D_notify _ \<Rightarrow> next_turn \<and> begun s = calls
       | D_new m \<Rightarrow> next_turn \<and> begun s = calls @ [m]
       | D_alloc m \<Rightarrow> next_turn \<and> begun s = calls @ [m]
       | D_link m _ \<Rightarrow> next_turn \<and> begun s = calls @ [m]
       | D_turn m _ \<Rightarrow> next_turn \<and> begun s = calls @ [m]
       | D_store m _ i \<Rightarrow> i = k mod n \<and> begun s = calls @ [m]
       | D_fill m _ i \<Rightarrow> i = k mod n \<and> turn s = int i \<and> begun s = calls @ [m]
       | D_push m _ i \<Rightarrow> i = k mod n \<and> turn s = int i \<and> begun s = calls @ [m]))"

lemma in_turn_cong:
  assumes "in_turn s" "length (lanes s') = length (lanes s)" "dispatchers s' = dispatchers s" "turn s' = turn s"
    "linked s' = linked s" "begun s' = begun s"
  shows "in_turn s'"
  using assms(1) unfolding in_turn_def assms(2-6) .

lemma worker_step_else:
  assumes "worker_step w s = Inr s'"
  shows "length (lanes s') = length (lanes s) \<and> dispatchers s' = dispatchers s \<and> turn s' = turn s \<and>
    linked s' = linked s \<and> begun s' = begun s"
  using assms
  by (cases "w_pc (workers s ! w)")
    (auto simp: worker_step_def Let_def enter_call_def read_byte_def pop_item_def free_rq_item_def give_item_def
      w_goto_def set_lane_def split: if_splits option.splits list.splits prod.splits)

lemma next_turn_mod: "nat ((int (k mod n) + 1) mod int n) = Suc k mod n"
proof -
  have "(int (k mod n) + 1) mod int n = int (Suc k mod n)"
    by (simp add: zmod_int mod_add_right_eq add.commute [of _ 1])
  then show ?thesis by simp
qed

lemma in_turn_dispatcher:
  assumes "in_turn s"
  shows "in_turn (dispatcher_step d s)"
proof (cases "d = 0")
  case False
  with assms have "dispatcher_step d s = s" by (simp add: dispatcher_step_def in_turn_def)
  with assms show ?thesis by simp
next
  case True
  obtain x where x: "dispatchers s = [x]"
    using assms by (cases "dispatchers s") (auto simp: in_turn_def)
  show ?thesis
  proof (cases x)
    case (D_push m a i)
    obtain st q where "link_tail a (mem s, lane_queue (lanes s ! i)) = (st, q)"
      by (cases "link_tail a (mem s, lane_queue (lanes s ! i))")
    then show ?thesis
      using assms x True D_push
      by (auto simp: in_turn_def Let_def dispatcher_step_def push_item_def d_goto_def set_lane_def
          next_turn_mod nths_snoc)
  next
    case (D_new m)
    then show ?thesis
      using assms x True
      by (cases "free_rq s") (auto simp: in_turn_def Let_def dispatcher_step_def new_from_list_def d_goto_def)
  qed (use assms x True in \<open>auto simp: in_turn_def Let_def dispatcher_step_def new_block_def alloc_block_def
      give_block_def d_goto_def set_lane_def\<close>)
qed

lemma in_turn_act:
  assumes "in_turn s" "act x s = Inr s'"
  shows "in_turn s'"
proof (cases x)
  case (Call d m)
  show ?thesis
  proof (cases "d = 0 \<and> dispatchers s ! 0 = D_ready")
    case True
    obtain y where "dispatchers s = [y]" using assms(1) by (cases "dispatchers s") (auto simp: in_turn_def)
    with True Call assms show ?thesis
      by (auto simp: act_def begin_call_def in_turn_def Let_def d_goto_def)
  next
    case False
    with assms(1) have "begin_call d m s = s" by (auto simp: begin_call_def in_turn_def)
    with assms Call show ?thesis by (simp add: act_def)
  qed
next
  case (Dispatcher d)
  with assms in_turn_dispatcher show ?thesis by (auto simp: act_def)
next
  case (Worker w)
  with assms have "worker_step w s = Inr s'" by (simp add: act_def)
  from worker_step_else [OF this] in_turn_cong [OF assms(1)] show ?thesis by simp
qed (use assms in \<open>auto simp: act_def cancel_step_def restart_check_def restart_create_def quit_lane_def Let_def
      w_goto_def set_lane_def intro: in_turn_cong split: worker_pc.splits restarter.splits if_splits\<close>)

lemma in_turn_schedule: "in_turn s \<Longrightarrow> schedule xs s = Inr s' \<Longrightarrow> in_turn s'"
  by (induction xs arbitrary: s) (auto split: sum.splits dest: in_turn_act)

lemma in_turn_served:
  assumes "in_turn s" "fifo_lanes s M" "i < length (lanes s)"
  shows "prefix (calls_of i (entered s)) (nths (begun s) {j. j mod length (lanes s) = i})"
proof -
  have "prefix (map snd (linked s)) (begun s)"
    using assms(1) by (cases "dispatchers s ! 0") (auto simp: in_turn_def Let_def)
  then obtain ms where "begun s = map snd (linked s) @ ms" by (auto elim: prefixE)
  then have "prefix (nths (map snd (linked s)) A) (nths (begun s) A)" for A
    by (simp add: nths_append)
  moreover have "prefix (calls_of i (entered s)) (calls_of i (linked s))"
    using assms(2,3) by (simp add: fifo_lanes_def)
  ultimately show ?thesis using assms(1,3) by (auto simp: in_turn_def Let_def dest: prefix_order.trans)
qed

subsection \<open>Properties\<close>

lemma pool_schedule:
  assumes "0 < n"
  shows "(\<exists>s P M. schedule xs (pool_started n nd nr :: 'm pool_state) = Inr s \<and> interleaved_inv s P M \<and>
      ((\<forall>x\<in>set xs. \<not> restarts x) \<longrightarrow> one_each s \<and> fifo_lanes s M)) \<or>
    schedule xs (pool_started n nd nr) = Inl UseAfterFree \<and> (\<exists>x\<in>set xs. restarts x)"
  using schedule_kept [OF pool_started_inv(1) [OF assms], of xs nd nr] pool_started_inv(2,3) [OF assms] by blast

lemma schedule_append:
  "schedule (xs @ ys) s = (case schedule xs s of Inl f \<Rightarrow> Inl f | Inr s \<Rightarrow> schedule ys s)"
  by (induction xs arbitrary: s) (auto split: sum.split)

lemma schedule_restarters: "schedule xs s = Inr s' \<Longrightarrow> length (restarters s') = length (restarters s)"
proof (induction xs arbitrary: s)
  case (Cons x xs)
  then obtain s1 where s1: "act x s = Inr s1" "schedule xs s1 = Inr s'" by (auto split: sum.splits)
  have "length (restarters s1) = length (restarters s)"
  proof (cases x)
    case (Worker w)
    with s1(1) show ?thesis
      by (cases "w_pc (workers s ! w)")
        (auto simp: act_def worker_step_def Let_def enter_call_def read_byte_def pop_item_def free_rq_item_def
          give_item_def w_goto_def set_lane_def split: if_splits option.splits list.splits prod.splits)
  qed (use s1(1) in \<open>auto simp: act_def dispatcher_step_rest(2) begin_call_def cancel_step_def restart_check_def
      restart_create_def quit_lane_def Let_def d_goto_def w_goto_def set_lane_def
      split: worker_pc.splits restarter.splits if_splits\<close>)
  with Cons.IH [OF s1(2)] show ?case by simp
qed simp

lemma schedule_lanes: "schedule xs s = Inr s' \<Longrightarrow> length (lanes s') = length (lanes s)"
proof (induction xs arbitrary: s)
  case (Cons x xs)
  then obtain s1 where s1: "act x s = Inr s1" "schedule xs s1 = Inr s'" by (auto split: sum.splits)
  have "length (lanes s1) = length (lanes s)"
  proof (cases x)
    case (Worker w)
    with s1(1) worker_step_else show ?thesis by (auto simp: act_def)
  next
    case (Dispatcher d)
    have "length (lanes (dispatcher_step d s)) = length (lanes s)"
      using dispatcher_step_rest(3) [of d s] by (metis length_map)
    with Dispatcher s1(1) show ?thesis by (auto simp: act_def)
  qed (use s1(1) in \<open>auto simp: act_def begin_call_def cancel_step_def restart_check_def restart_create_def
      quit_lane_def Let_def d_goto_def w_goto_def set_lane_def split: worker_pc.splits restarter.splits if_splits\<close>)
  with Cons.IH [OF s1(2)] show ?case by simp
qed simp


definition demo_schedule :: "nat action list" where
  "demo_schedule = [Call 0 7, Call 1 8] @ concat (replicate 8 [Dispatcher 0, Dispatcher 1]) @
     concat (replicate 4 [Worker 0, Worker 1])"


text \<open>C5: With one thread that dispatches and without restarts, the pool does under every interleaving what
  the calls of theory ThreadPool do one at a time: it never faults, and thread \<open>i\<close> enters a prefix of the
  calls number \<open>i\<close>, \<open>i + n\<close>, \<open>i + 2 n\<close>..., in their order.\<close>

theorem one_dispatcher_serves_in_turn:
  assumes "0 < n" "\<forall>x\<in>set xs. \<not> restarts x"
  shows "\<exists>s. schedule xs (pool_started n 1 nr) = Inr s \<and>
    (\<forall>i<n. prefix (calls_of i (entered s)) (nths (begun s) {j. j mod n = i}))"
proof -
  obtain s P M where s: "schedule xs (pool_started n 1 nr) = Inr s" "interleaved_inv s P M" "fifo_lanes s M"
    using pool_schedule [OF assms(1), of xs 1 nr] assms(2) by auto
  have "in_turn (pool_started n 1 nr)"
    using assms(1) by (simp add: in_turn_def pool_started_def)
  then have "in_turn s" by (rule in_turn_schedule) (rule s)
  moreover have "length (lanes s) = n" using schedule_lanes [OF s(1)] by (simp add: pool_started_def)
  ultimately show ?thesis using s in_turn_served [OF _ s(3)] by auto
qed

theorem one_dispatcher_serves_in_turn_witness:
  "\<exists>s. schedule [Call 0 (7 :: nat), Dispatcher 0, Worker 0, Dispatcher 0, Dispatcher 0, Dispatcher 0] (pool_started 2 1 0) = Inr s \<and>
    (\<forall>i<2. prefix (calls_of i (entered s)) (nths (begun s) {j. j mod 2 = i}))"
  by (rule one_dispatcher_serves_in_turn) (simp_all add: restarts_def)

text \<open>
  With two threads that dispatch the turns are lost: both can read \<open>current_thread_\<close> before either writes
  it, and then choose the same thread.
\<close>

lemma two_dispatchers_same_turn:
  assumes "d < length (dispatchers s)" "e < length (dispatchers s)" "d \<noteq> e"
    and "dispatchers s ! d = D_turn m a" "dispatchers s ! e = D_turn m' b"
  shows "\<exists>s' i. schedule [Dispatcher d, Dispatcher e, Dispatcher d, Dispatcher e] s = Inr s' \<and>
    dispatchers s' ! d = D_fill m a i \<and> dispatchers s' ! e = D_fill m' b i"
  using assms by (simp add: act_def dispatcher_step_def d_goto_def)

subsection \<open>A restart that comes too late\<close>

lemma lane_index_nth:
  assumes "map lane_tid ts = [0..<length ts]" "w < length ts"
  shows "lane_index w ts = Some w"
proof -
  have "lane_index (k + w) ts = Some w" if "map lane_tid ts = [k..<k + length ts]" "w < length ts" for k
    using that
  proof (induction ts arbitrary: k w)
    case (Cons t ts)
    from Cons.prems(1) have t: "lane_tid t = k" "map lane_tid ts = [Suc k..<Suc k + length ts]"
      by (simp_all add: upt_conv_Cons del: upt_Suc)
    show ?case
    proof (cases w)
      case (Suc v)
      with Cons.IH [OF t(2), of v] Cons.prems(2) t(1) show ?thesis by simp
    qed (simp add: t(1))
  qed simp
  from this [of 0] assms show ?thesis by simp
qed

lemma lane_index_replaced:
  assumes "map lane_tid ts = [0..<n]" "w < n" "lane_tid t = n"
  shows "lane_index w (ts[w := t]) = None"
proof -
  have none: "lane_index w us = None" if "w \<notin> set (map lane_tid us)" for us
    using that by (induction us) auto
  have len: "length ts = n" using assms(1) by (metis length_map length_upt minus_nat.diff_0)
  have "lane_tid ((ts[w := t]) ! i) \<noteq> w" if "i < n" for i
  proof -
    have "map lane_tid ts ! i = [0..<n] ! i" by (simp only: assms(1))
    then have "lane_tid (ts ! i) = i" using that len by simp
    with assms that len show ?thesis by (cases "i = w") (simp_all add: nth_update_if)
  qed
  then have "w \<notin> set (map lane_tid (ts[w := t]))" unfolding in_set_conv_nth using len by simp
  then show ?thesis by (rule none)
qed

text \<open>Without restarts nobody is cancelled.\<close>

lemma act_cancelled:
  assumes "one_each s" "act x s = Inr s'" "\<not> restarts x"
  shows "map cancelled (workers s') = map cancelled (workers s)"
proof (cases x)
  case (Worker w)
  with assms show ?thesis
    by (cases "w_pc (workers s ! w)")
      (auto simp: act_def worker_step_def Let_def enter_call_def read_byte_def pop_item_def free_rq_item_def
        give_item_def w_goto_def set_lane_def map_unchanged split: if_splits option.splits list.splits prod.splits)
next
  case (Cancelled w)
  then show ?thesis
    using assms(2) by (cases "w_pc (workers s ! w)") (auto simp: act_def cancel_step_def w_goto_def map_unchanged split: if_splits)
next
  case (RestartCreate r)
  have "r < length (restarters s) \<Longrightarrow> restarters s ! r = R_ready"
    using assms(1) nth_mem [of r "restarters s"] by (simp add: one_each_def)
  then have "restart_create r s = s" by (simp add: restart_create_def)
  with RestartCreate assms show ?thesis by (simp add: act_def)
next
  case (Call d m)
  then show ?thesis using assms(2) by (auto simp: act_def begin_call_def d_goto_def)
next
  case (Quit i)
  then show ?thesis using assms(2) by (auto simp: act_def quit_lane_def set_lane_def)
qed (use assms in \<open>auto simp: act_def restarts_def dispatcher_step_rest(1)\<close>)

lemma schedule_cancelled:
  assumes "0 < n" "schedule xs (pool_started n nd nr) = Inr s" "\<forall>x\<in>set xs. \<not> restarts x"
  shows "\<forall>k\<in>set (workers s). \<not> cancelled k"
proof -
  have "map cancelled (workers s') = map cancelled (workers s0)" if "schedule xs s0 = Inr s'" "one_each s0" for s0 s'
    using that assms(3)
  proof (induction xs arbitrary: s0)
    case (Cons x xs)
    then obtain s1 where s1: "act x s0 = Inr s1" "schedule xs s1 = Inr s'" by (auto split: sum.splits)
    have x: "\<not> restarts x" using Cons.prems(3) by simp
    with Cons.IH [OF s1(2) one_each_act [OF Cons.prems(2) s1(1) x]] act_cancelled [OF Cons.prems(2) s1(1) x] Cons.prems(3)
    show ?case by simp
  qed simp
  from this [OF assms(2) pool_started_inv(2) [OF assms(1)]]
  have "map cancelled (workers s) = replicate n False" by (simp add: pool_started_def comp_def map_replicate_const)
  then have "\<not> b" if "b \<in> set (map cancelled (workers s))" for b using that by simp
  then show ?thesis by auto
qed


lemma demo_in_call:
  "\<exists>s. schedule ([Call 0 (7 :: nat)] @ replicate 8 (Dispatcher 0) @ replicate 4 (Worker 0)) (pool_started 2 1 1) = Inr s \<and>
     w_pc (workers s ! 0) = W_in 1 \<and> lane_version (lanes s ! 0) = 0 \<and> lane_version (lanes s ! 1) = 0"
proof -
  let ?st = "set_next item_per_alloc None (set_next item_per_alloc None (link_block 1 0 item_per_alloc
      (snd (alloc_block item_per_alloc (empty_store :: nat store)))))"
  have "live (snd (alloc_block item_per_alloc (empty_store :: nat store))) 1"
    by (simp add: alloc_block_def empty_store_def live_def item_per_alloc_def)
  then have "live ?st 1" by simp
  then have "value_at (set_content 1 7 ?st) 1 = Some 7" by (simp add: value_set_content)
  then show ?thesis
    by (simp add: numeral_eq_Suc act_def pool_started_def begin_call_def dispatcher_step_def new_from_list_def
        new_block_def give_block_def push_item_def link_tail_def worker_step_def read_byte_def pop_item_def
        enter_call_def unlink_head_def d_goto_def w_goto_def set_lane_def alloc_block_def empty_store_def Let_def)
qed


end
