(* ===== verification/IniHeap.thy ===== *)
theory IniHeap
  imports IniParser DictionaryHeap
begin

section \<open>The memory of the ini parser\<close>

text \<open>
  \<open>iniparser_line\<close> and \<open>iniparser_load\<close> of config\_parser/iniparser.cpp once more on the heap of theory
  DictionaryHeap: the copy of the line, the blocks for the key and the value, the section name that is kept
  from one line to the next, the line put together from continued ones, and the key built for the dictionary, each
  with its \<open>malloc\<close> and \<open>free\<close>. What is written into the blocks is what theory IniParser says. The lemmas
  show that loading a file does what theory IniParser says and leaves nothing allocated but the dictionary,
  whatever the file has in it. Allocation is taken to succeed.
\<close>

subsection \<open>Getting and setting\<close>

definition heap_lower :: "nat option \<Rightarrow> heap \<Rightarrow> fault + (nat option \<times> heap)" where
  "heap_lower p h =
     and_then (xstrdup p h) (\<lambda>(q, h).
       case q of
         None \<Rightarrow> Inr (None, h)
       | Some a \<Rightarrow> and_then (chars h a) (\<lambda>s. and_then (put_chars a (strlwc s) h) (\<lambda>h. Inr (Some a, h))))"

definition heap_getstring ::
  "heap_dict option \<Rightarrow> nat option \<Rightarrow> nat option \<Rightarrow> heap \<Rightarrow> fault + (nat option \<times> heap)" where
  "heap_getstring dp keyp deflt h =
     (case (dp, keyp) of
        (Some d, Some key) \<Rightarrow>
          and_then (heap_lower (Some key) h) (\<lambda>(lc, h).
            case lc of
              None \<Rightarrow> Inl NullDeref
            | Some a \<Rightarrow>
                and_then (heap_get h d a deflt) (\<lambda>sval.
                  and_then (release a h) (\<lambda>h. Inr (sval, h))))
      | _ \<Rightarrow> Inr (deflt, h))"

definition heap_iniset ::
  "heap_dict option \<Rightarrow> nat option \<Rightarrow> nat option \<Rightarrow> heap \<Rightarrow> fault + (int \<times> heap_dict option \<times> heap)" where
  "heap_iniset dp entry val h =
     and_then (heap_lower entry h) (\<lambda>(lc, h).
       and_then (heap_set dp lc val h) (\<lambda>(r, dp, h).
         and_then (free_ptr lc h) (\<lambda>h. Inr (r, dp, h))))"

definition heap_iniunset :: "heap_dict option \<Rightarrow> nat option \<Rightarrow> heap \<Rightarrow> fault + (heap_dict option \<times> heap)" where
  "heap_iniunset dp entry h =
     and_then (heap_lower entry h) (\<lambda>(lc, h).
       and_then (heap_unset dp lc h) (\<lambda>(dp, h).
         and_then (free_ptr lc h) (\<lambda>h. Inr (dp, h))))"

subsection \<open>One line\<close>

text \<open>
  The status, and the blocks that are handed out for the key (or the section) and the value. The block for
  the value is allocated when the line has an equals sign.
\<close>

definition heap_line :: "string \<Rightarrow> heap \<Rightarrow> fault + (line_status \<times> nat option \<times> nat option \<times> heap)" where
  "heap_line input_line h =
     (case malloc (Chars (strstrip (c_str input_line))) h of (line, h) \<Rightarrow>
       (case (if CHR ''='' \<in> set (strstrip (c_str input_line))
              then (case malloc (Chars []) h of (v, h) \<Rightarrow> (Some v, h)) else (None, h)) of (valp, h) \<Rightarrow>
         (case malloc (Chars []) h of (key, h) \<Rightarrow>
           and_then (iniparser_line input_line) (\<lambda>sta.
             case sta of
               LINE_SECTION s \<Rightarrow>
                 and_then (put_chars key s h) (\<lambda>h. and_then (release line h) (\<lambda>h.
                   and_then (free_ptr valp h) (\<lambda>h. Inr (sta, Some key, None, h))))
             | LINE_VALUE k v \<Rightarrow>
                 (case valp of
                    None \<Rightarrow> Inl NullDeref
                  | Some a \<Rightarrow>
                      and_then (put_chars key k h) (\<lambda>h. and_then (put_chars a v h) (\<lambda>h.
                        and_then (release line h) (\<lambda>h. Inr (sta, Some key, Some a, h)))))
             | _ \<Rightarrow>
                 and_then (release line h) (\<lambda>h. and_then (release key h) (\<lambda>h.
                   and_then (free_ptr valp h) (\<lambda>h. Inr (sta, None, None, h))))))))"

subsection \<open>Loading\<close>

text \<open>The local variables of \<open>iniparser_load\<close>; \<open>prev_line\<close> is null from one round to the next.\<close>

record ini_locals =
  il_dict :: heap_dict
  il_section :: nat
  il_key :: "nat option"
  il_val :: "nat option"
  il_full :: "nat option"
  il_errs :: int

text \<open>The \<open>switch\<close> on the status of a line.\<close>

definition heap_entry ::
  "line_status \<Rightarrow> nat option \<Rightarrow> nat option \<Rightarrow> ini_locals \<Rightarrow> heap \<Rightarrow> fault + (ini_locals \<times> heap)" where
  "heap_entry sta key val st h =
     (case sta of
        LINE_EMPTY \<Rightarrow> Inr (st, h)
      | LINE_COMMENT \<Rightarrow> Inr (st, h)
      | LINE_SECTION _ \<Rightarrow>
          (case key of
             None \<Rightarrow> Inl NullDeref
           | Some current_section \<Rightarrow>
               and_then (release (il_section st) h) (\<lambda>h.
                 and_then (heap_set (Some (il_dict st)) (Some current_section) None h) (\<lambda>(r, dp, h).
                   case dp of
                     None \<Rightarrow> Inl NullDeref
                   | Some d \<Rightarrow> Inr (st\<lparr>il_dict := d, il_errs := r, il_section := current_section\<rparr>, h))))
      | LINE_VALUE _ _ \<Rightarrow>
          (case key of
             None \<Rightarrow> Inl NullDeref
           | Some k \<Rightarrow>
               and_then (chars h (il_section st)) (\<lambda>section. and_then (chars h k) (\<lambda>name.
                 case malloc (Chars (section @ '':'' @ name)) h of (seckey, h) \<Rightarrow>
                   and_then (heap_set (Some (il_dict st)) (Some seckey) val h) (\<lambda>(r, dp, h).
                     and_then (release seckey h) (\<lambda>h.
                       case dp of
                         None \<Rightarrow> Inl NullDeref
                       | Some d \<Rightarrow> Inr (st\<lparr>il_dict := d, il_errs := r, il_key := key, il_val := val\<rparr>, h))))))
      | LINE_ERROR \<Rightarrow> Inr (st\<lparr>il_errs := il_errs st + 1\<rparr>, h))"

text \<open>One round of the loop, and whether the loop goes on.\<close>

definition heap_load_line :: "string \<times> bool \<Rightarrow> ini_locals \<Rightarrow> heap \<Rightarrow> fault + (bool \<times> ini_locals \<times> heap)" where
  "heap_load_line le st h =
     and_then (free_ptr (il_key st) h) (\<lambda>h. and_then (free_ptr (il_val st) h) (\<lambda>h.
       let st = st\<lparr>il_key := None, il_val := None\<rparr>; line = c_str (fst le) in
       if line = [] then Inl BufferOverRead
       else if length line = 1 then Inr (True, st, h)
       else if line ! (length line - 1) \<noteq> NL \<and> \<not> snd le then Inr (False, st\<lparr>il_errs := il_errs st + 1\<rparr>, h)
       else
         (let line = rstrip line;
              multi_line = (line \<noteq> [] \<and> line ! (length line - 1) = CHR 0x5C);
              line = (if multi_line then take (length line - 1) line else line);
              prev_line = il_full st
          in and_then (case prev_line of None \<Rightarrow> Inr [] | Some a \<Rightarrow> chars h a) (\<lambda>prev.
               case malloc (Chars (prev @ line)) h of (full, h) \<Rightarrow>
                 and_then (free_ptr prev_line h) (\<lambda>h.
                   let st = st\<lparr>il_full := Some full\<rparr> in
                   if multi_line then Inr (True, st, h)
                   else and_then (chars h full) (\<lambda>full_line.
                     and_then (heap_line full_line h) (\<lambda>(sta, key, val, h).
                       and_then (heap_entry sta key val st h) (\<lambda>(st, h).
                         and_then (release full h) (\<lambda>h.
                           Inr (\<not> il_errs st < 0, st\<lparr>il_full := None\<rparr>, h))))))))))"

primrec heap_load_lines :: "(string \<times> bool) list \<Rightarrow> ini_locals \<Rightarrow> heap \<Rightarrow> fault + (ini_locals \<times> heap)" where
  "heap_load_lines [] st h = Inr (st, h)"
| "heap_load_lines (le # les) st h =
     and_then (heap_load_line le st h) (\<lambda>(go_on, st, h). if go_on then heap_load_lines les st h else Inr (st, h))"

text \<open>The end, at the label \<open>out\<close>.\<close>

definition heap_load_out :: "ini_locals \<Rightarrow> heap \<Rightarrow> fault + (heap_dict option \<times> heap)" where
  "heap_load_out st h =
     and_then (if il_errs st \<noteq> 0 then heap_del (Some (il_dict st)) h else Inr h) (\<lambda>h.
       and_then (free_ptr (il_val st) h) (\<lambda>h. and_then (free_ptr (il_key st) h) (\<lambda>h.
         and_then (release (il_section st) h) (\<lambda>h. and_then (free_ptr (il_full st) h) (\<lambda>h.
           Inr (if il_errs st \<noteq> 0 then None else Some (il_dict st), h))))))"

definition heap_load :: "string option \<Rightarrow> heap \<Rightarrow> fault + (heap_dict option \<times> heap)" where
  "heap_load file h =
     (case malloc (Chars []) h of (section, h) \<Rightarrow>
       (case file of
          None \<Rightarrow> and_then (release section h) (\<lambda>h. Inr (None, h))
        | Some text \<Rightarrow>
            (case heap_new 0 h of (d, h) \<Rightarrow>
               and_then
                 (heap_load_lines (file_lines text)
                    \<lparr>il_dict = d, il_section = section, il_key = None, il_val = None, il_full = None, il_errs = 0\<rparr> h)
                 (\<lambda>(st, h). heap_load_out st h))))"

definition iniparser_freedict :: "heap_dict option \<Rightarrow> heap \<Rightarrow> fault + heap" where
  "iniparser_freedict dp h = heap_del dp h"

text \<open>The destructor of the class \<open>ConfigParser\<close> (config\_parser.cpp), with its \<open>dict_ini_\<close>.\<close>

definition ConfigParser_delete :: "heap_dict option \<Rightarrow> heap \<Rightarrow> fault + heap" where
  "ConfigParser_delete dict_ini h =
     (case dict_ini of None \<Rightarrow> Inr h | Some d \<Rightarrow> iniparser_freedict (Some d) h)"

subsection \<open>The heap around a dictionary\<close>

text \<open>
  Outside the dictionary's blocks the heap is \<open>B\<close>, that of before, and \<open>L\<close>, the blocks of the local
  variables.
\<close>

definition around :: "(nat \<Rightarrow> block option) \<Rightarrow> (nat \<Rightarrow> block option) \<Rightarrow> heap_dict \<Rightarrow> heap \<Rightarrow> bool" where
  "around B L d h \<longleftrightarrow> dict_inv d h \<and> rest (owned d) h = B ++ L \<and> dom B \<inter> dom L = {}"

lemma aroundD:
  assumes "around B L d h"
  shows "dict_inv d h" "rest (owned d) h = B ++ L" "dom B \<inter> dom L = {}" "mem_ok (owned d) h"
  using assms by (simp_all add: around_def dict_inv_def heap_ok_def)

lemma around_local:
  assumes "around B L d h" "L a = Some b"
  shows "blocks h a = Some b" "a \<notin># owned d" "B a = None"
proof -
  have "rest (owned d) h a = Some b" "B a = None"
    using aroundD [OF assms(1)] assms(2) by (auto simp: domIff disjoint_iff)
  then show "blocks h a = Some b" "a \<notin># owned d" "B a = None"
    by (auto simp: rest_def restrict_map_def split: if_splits)
qed

text \<open>Changing one block that is not the dictionary's, or a new one.\<close>

lemma around_change:
  assumes "around B L d h" "a \<notin># owned d" "B a = None"
    and h': "blocks h' = (blocks h)(a := b)" "next_addr h' \<ge> next_addr h" "b = None \<or> a < next_addr h'"
  shows "around B (L(a := b)) d h'" "dict_of d h' = dict_of d h"
proof -
  have inv: "dict_inv d h" and r: "rest (owned d) h = B ++ L" and disj: "dom B \<inter> dom L = {}"
    and mem: "mem_ok (owned d) h"
    using aroundD [OF assms(1)] by simp_all
  have same: "blocks h' x = blocks h x" if "x \<in># owned d" for x using that assms(2) h'(1) by auto
  have tx: "texts h' (hd_key d) = texts h (hd_key d)" "texts h' (hd_val d) = texts h (hd_val d)"
    by (rule texts_cong, rule same, simp add: owned_def)+
  then show dict: "dict_of d h' = dict_of d h" by (simp add: dict_of_def)
  have "mem_ok (owned d) h'"
    using mem h' assms(2) by (auto simp: mem_ok_def)
  moreover have "\<exists>s. blocks h' x = Some (Chars s)" if "x \<in># somes (hd_key d) + somes (hd_val d)" for x
  proof -
    have "x \<in># owned d" using that by (auto simp: owned_def)
    from same [OF this] inv that show ?thesis by (auto simp: dict_inv_def heap_ok_def)
  qed
  ultimately have "dict_inv d h'" using inv dict by (auto simp: dict_inv_def heap_ok_def)
  moreover have "rest (owned d) h' = (rest (owned d) h)(a := b)"
    using assms(2) by (auto simp: rest_def restrict_map_def h'(1) fun_eq_iff)
  then have "rest (owned d) h' = B ++ L(a := b)"
    using assms(3) unfolding r by (auto simp: fun_eq_iff map_add_def split: option.splits)
  moreover have "dom B \<inter> dom (L(a := b)) = {}" using disj assms(3) by auto
  ultimately show "around B (L(a := b)) d h'" by (simp add: around_def)
qed

lemma around_malloc:
  assumes "around B L d h" "malloc b h = (a, h')"
  shows "around B (L(a \<mapsto> b)) d h'" "dict_of d h' = dict_of d h" "L a = None" "B a = None"
proof -
  have a: "a = next_addr h" "blocks h' = (blocks h)(a := Some b)" "next_addr h' = Suc a"
    using assms(2) by (auto simp: malloc_def)
  have "blocks h a = None" "a \<notin># owned d" using aroundD(4) [OF assms(1)] by (auto simp: mem_ok_def a(1))
  then have "rest (owned d) h a = None" by (simp add: rest_def restrict_map_def)
  then show none: "L a = None" "B a = None" using aroundD(2) [OF assms(1)] by simp_all
  show "around B (L(a \<mapsto> b)) d h'" "dict_of d h' = dict_of d h"
    using around_change [OF assms(1) \<open>a \<notin># owned d\<close> none(2) a(2)] a by simp_all
qed

lemma around_release:
  assumes "around B L d h" "L a = Some b"
  obtains h' where "release a h = Inr h'" "around B (L(a := None)) d h'" "dict_of d h' = dict_of d h"
proof -
  note l = around_local [OF assms]
  let ?h = "h\<lparr>blocks := (blocks h)(a := None)\<rparr>"
  have "around B (L(a := None)) d ?h" "dict_of d ?h = dict_of d h"
    using around_change [OF assms(1) l(2,3), of ?h None] by simp_all
  moreover have "release a h = Inr ?h" by (simp add: release_def l(1))
  ultimately show ?thesis using that by blast
qed

lemma around_free:
  assumes "around B L d h" "\<forall>a. p = Some a \<longrightarrow> L a \<noteq> None"
  obtains h' where "free_ptr p h = Inr h'" "around B (case p of None \<Rightarrow> L | Some a \<Rightarrow> L(a := None)) d h'"
    "dict_of d h' = dict_of d h"
proof (cases p)
  case None
  with assms(1) that [of h] show ?thesis by (simp add: free_ptr_def)
next
  case (Some a)
  then obtain b where "L a = Some b" using assms(2) by auto
  from around_release [OF assms(1) this] that Some show ?thesis by (metis free_ptr_def option.case(2))
qed

lemma around_put:
  assumes "around B L d h" "L a = Some b"
  obtains h' where "put_chars a s h = Inr h'" "around B (L(a \<mapsto> Chars s)) d h'" "dict_of d h' = dict_of d h"
proof -
  note l = around_local [OF assms]
  let ?h = "h\<lparr>blocks := (blocks h)(a \<mapsto> Chars s)\<rparr>"
  have "a < next_addr h" using aroundD(4) [OF assms(1)] l(1) by (force simp: mem_ok_def not_less [symmetric])
  then have "around B (L(a \<mapsto> Chars s)) d ?h" "dict_of d ?h = dict_of d h"
    using around_change [OF assms(1) l(2,3), of ?h "Some (Chars s)"] by simp_all
  moreover have "put_chars a s h = Inr ?h" by (simp add: put_chars_def l(1))
  ultimately show ?thesis using that by blast
qed

lemma around_chars: "around B L d h \<Longrightarrow> L a = Some (Chars s) \<Longrightarrow> chars h a = Inr s"
  using around_local(1) by (fastforce simp: chars_def)

lemma around_caller:
  assumes "around B L d h" "L a = Some (Chars s)"
  shows "caller_text (owned d) h (Some a) (Some s)"
  using aroundD(2) [OF assms(1)] assms(2) by (simp add: caller_text_def)

text \<open>Setting a key that is a local string, with a local value or none.\<close>

lemma around_set:
  assumes ok: "around B L d h" and k: "L key = Some (Chars str)"
    and v: "case val of None \<Rightarrow> s = None | Some a \<Rightarrow> \<exists>t. s = Some t \<and> L a = Some (Chars t)"
  obtains d' h' where "heap_set (Some d) (Some key) val h = Inr (0, Some d', h')" "around B L d' h'"
    "dict_of d' h' = dict_put (dict_of d h) str s"
proof -
  have "caller_text (owned d) h val s"
    using v around_caller [OF ok] by (cases val) (auto simp: caller_text_def)
  from heap_put_ok [OF aroundD(1) [OF ok] around_caller [OF ok k] this] obtain d' h' where
    "heap_put d key val h = Inr (d', h')" "dict_inv d' h'" "rest (owned d') h' = rest (owned d) h"
    "dict_of d' h' = dict_put (dict_of d h) str s" by metis
  then show ?thesis
    using aroundD [OF ok] by (intro that [of d' h']) (simp_all add: heap_set_def around_def)
qed

subsection \<open>One line\<close>

lemma heap_line_fault: "iniparser_line full = Inl f \<Longrightarrow> heap_line full h = Inl f"
  by (simp add: heap_line_def split: prod.split)

lemma line_value_equals: "iniparser_line full = Inr (LINE_VALUE k v) \<Longrightarrow> CHR ''='' \<in> set (strstrip (c_str full))"
  by (auto simp: iniparser_line_def Let_def split: if_splits option.splits prod.splits)

text \<open>The blocks a line hands out, and everything else freed.\<close>

lemma heap_line_ok:
  assumes ok: "around B L d h" and sta: "iniparser_line full = Inr sta"
  obtains key val h' L' where "heap_line full h = Inr (sta, key, val, h')" "around B L' d h'"
    "dict_of d h' = dict_of d h"
    "case sta of
       LINE_SECTION s \<Rightarrow> (\<exists>a. key = Some a \<and> val = None \<and> L a = None \<and> L' = L(a \<mapsto> Chars s))
     | LINE_VALUE k v \<Rightarrow> (\<exists>a b. key = Some a \<and> val = Some b \<and> a \<noteq> b \<and> L a = None \<and> L b = None \<and>
         L' = L(a \<mapsto> Chars k, b \<mapsto> Chars v))
     | _ \<Rightarrow> key = None \<and> val = None \<and> L' = L"
proof -
  let ?t = "strstrip (c_str full)" and ?eq = "CHR ''='' \<in> set (strstrip (c_str full))"
  obtain l h1 where m1: "malloc (Chars ?t) h = (l, h1)" by (cases "malloc (Chars ?t) h")
  note ok1 = around_malloc [OF ok m1]
  obtain valp h2 L2 where m2: "(if ?eq then (case malloc (Chars []) h1 of (v, h) \<Rightarrow> (Some v, h)) else (None, h1)) = (valp, h2)"
    and ok2: "around B L2 d h2" "dict_of d h2 = dict_of d h" "(\<exists>v. valp = Some v) \<longleftrightarrow> ?eq"
    and L2: "L2 = (case valp of None \<Rightarrow> L(l \<mapsto> Chars ?t) | Some v \<Rightarrow> L(l \<mapsto> Chars ?t, v \<mapsto> Chars []))"
    and fresh2: "\<And>v. valp = Some v \<Longrightarrow> v \<noteq> l \<and> L v = None"
  proof (cases ?eq)
    case True
    obtain v h2 where m: "malloc (Chars []) h1 = (v, h2)" by (cases "malloc (Chars []) h1")
    note ok2 = around_malloc [OF ok1(1) m]
    have "v \<noteq> l \<and> L v = None" using ok2(3) ok1(3) by (auto split: if_splits)
    with True m ok1 ok2 show ?thesis by (intro that [of "Some v" h2 "L(l \<mapsto> Chars ?t, v \<mapsto> Chars [])"]) auto
  next
    case False
    with ok1 show ?thesis by (intro that [of None h1 "L(l \<mapsto> Chars ?t)"]) auto
  qed
  obtain k h3 where m3: "malloc (Chars []) h2 = (k, h3)" by (cases "malloc (Chars []) h2")
  note ok3 = around_malloc [OF ok2(1) m3]
  have k: "L k = None" "k \<noteq> l" "\<And>v. valp = Some v \<Longrightarrow> k \<noteq> v"
    using ok3(3) by (auto simp: L2 split: option.splits if_splits)
  have at: "(L2(k \<mapsto> x)) l = Some (Chars ?t)" "\<And>v. valp = Some v \<Longrightarrow> (L2(k \<mapsto> x)) v = Some (Chars [])" for x
    using k fresh2 by (auto simp: L2 split: option.splits)
  have put: "\<exists>h'. put_chars k s h3 = Inr h' \<and> around B (L2(k \<mapsto> Chars s)) d h' \<and> dict_of d h' = dict_of d h" for s
    using around_put [OF ok3(1), of k "Chars []" s] ok2(2) ok3(2) by (auto elim: meta_mp)
  obtain h7 where dropped: "and_then (release l h3) (\<lambda>h. and_then (release k h) (\<lambda>h. and_then (free_ptr valp h) Inr)) = Inr h7"
    "around B L d h7" "dict_of d h7 = dict_of d h"
  proof -
    obtain h5 where h5: "release l h3 = Inr h5" "around B (L2(k \<mapsto> Chars [], l := None)) d h5" "dict_of d h5 = dict_of d h3"
      by (rule around_release [OF ok3(1) at(1)])
    have "(L2(k \<mapsto> Chars [], l := None)) k = Some (Chars [])" using k(2) by simp
    then obtain h6 where h6: "release k h5 = Inr h6" "around B (L2(k \<mapsto> Chars [], l := None, k := None)) d h6"
      "dict_of d h6 = dict_of d h5" by (rule around_release [OF h5(2)])
    let ?L = "L2(k \<mapsto> Chars [], l := None, k := None)"
    have "\<forall>a. valp = Some a \<longrightarrow> ?L a \<noteq> None" using at(2) fresh2 k(3) by auto
    from around_free [OF h6(2) this] obtain h7 where h7: "free_ptr valp h6 = Inr h7"
      "around B (case valp of None \<Rightarrow> ?L | Some a \<Rightarrow> ?L(a := None)) d h7" "dict_of d h7 = dict_of d h6" by metis
    have "(case valp of None \<Rightarrow> ?L | Some a \<Rightarrow> ?L(a := None)) = L"
      using ok1(3) k fresh2 by (auto simp: L2 fun_eq_iff split: option.splits)
    with h5 h6 h7 ok2(2) ok3(2) show ?thesis by (intro that [of h7]) simp_all
  qed
  have drop: "and_then (release l h3) (\<lambda>h. and_then (release k h) (\<lambda>h. and_then (free_ptr valp h)
      (\<lambda>h. Inr (sta, None, None, h)))) = Inr (sta, None, None, h7)"
    using dropped(1) by (auto simp: and_then_def split: sum.splits)
  show ?thesis
  proof (cases sta)
    case (LINE_SECTION s)
    obtain h4 where h4: "put_chars k s h3 = Inr h4" "around B (L2(k \<mapsto> Chars s)) d h4" "dict_of d h4 = dict_of d h"
      using put by blast
    obtain h5 where h5: "release l h4 = Inr h5" "around B (L2(k \<mapsto> Chars s, l := None)) d h5" "dict_of d h5 = dict_of d h4"
      by (rule around_release [OF h4(2) at(1)]) 
    have "\<forall>a. valp = Some a \<longrightarrow> (L2(k \<mapsto> Chars s, l := None)) a \<noteq> None" using at(2) fresh2 by auto
    from around_free [OF h5(2) this] obtain h6 where h6: "free_ptr valp h5 = Inr h6"
      "around B (case valp of None \<Rightarrow> L2(k \<mapsto> Chars s, l := None) | Some a \<Rightarrow> L2(k \<mapsto> Chars s, l := None, a := None)) d h6"
      "dict_of d h6 = dict_of d h5" by metis
    have "(case valp of None \<Rightarrow> L2(k \<mapsto> Chars s, l := None) | Some a \<Rightarrow> L2(k \<mapsto> Chars s, l := None, a := None)) = L(k \<mapsto> Chars s)"
      using ok1(3) k fresh2 by (auto simp: L2 fun_eq_iff split: option.splits)
    with h4 h5 h6 k(1) LINE_SECTION show ?thesis
      by (intro that [of "Some k" None h6 "L(k \<mapsto> Chars s)"]) (simp_all add: heap_line_def m1 m2 m3 sta)
  next
    case (LINE_VALUE s t)
    with sta line_value_equals ok2(3) obtain v where v: "valp = Some v" by blast
    have vl: "v \<noteq> l" "v \<noteq> k" "L v = None" using fresh2 [OF v] k(3) [OF v] by auto
    obtain h4 where h4: "put_chars k s h3 = Inr h4" "around B (L2(k \<mapsto> Chars s)) d h4" "dict_of d h4 = dict_of d h"
      using put by blast
    obtain h5 where h5: "put_chars v t h4 = Inr h5" "around B (L2(k \<mapsto> Chars s, v \<mapsto> Chars t)) d h5" "dict_of d h5 = dict_of d h4"
      by (rule around_put [OF h4(2) at(2) [OF v]])
    have "(L2(k \<mapsto> Chars s, v \<mapsto> Chars t)) l = Some (Chars ?t)" using at(1) vl by simp
    then obtain h6 where h6: "release l h5 = Inr h6" "around B (L2(k \<mapsto> Chars s, v \<mapsto> Chars t, l := None)) d h6"
      "dict_of d h6 = dict_of d h5"
      by (rule around_release [OF h5(2)])
    have "L2(k \<mapsto> Chars s, v \<mapsto> Chars t, l := None) = L(k \<mapsto> Chars s, v \<mapsto> Chars t)"
      using ok1(3) k vl by (auto simp: L2 v fun_eq_iff)
    with h4 h5 h6 k(1) vl v LINE_VALUE show ?thesis
      by (intro that [of "Some k" "Some v" h6 "L(k \<mapsto> Chars s, v \<mapsto> Chars t)"]) (simp_all add: heap_line_def m1 m2 m3 sta)
  qed (use dropped(2,3) drop in \<open>(intro that [of None None h7 L]; simp add: heap_line_def m1 m2 m3 sta)+\<close>)
qed

subsection \<open>The loop\<close>

definition local_ptrs :: "ini_locals \<Rightarrow> nat list" where
  "local_ptrs st =
     il_section st # concat (map (\<lambda>p. case p of None \<Rightarrow> [] | Some a \<Rightarrow> [a]) [il_key st, il_val st, il_full st])"

text \<open>The local variables and the heap stand for a state of the loop in theory IniParser, with \<open>full\<close> as
  the line so far.\<close>

definition stands_for ::
  "(nat \<Rightarrow> block option) \<Rightarrow> ini_locals \<Rightarrow> heap \<Rightarrow> ini_state \<Rightarrow> string option \<Rightarrow> bool" where
  "stands_for B st h vst full \<longleftrightarrow>
     (\<exists>L. around B L (il_dict st) h \<and> dict_of (il_dict st) h = ini_dict vst \<and> il_errs st = errs vst \<and>
       L (il_section st) = Some (Chars (ini_section vst)) \<and>
       map_option (\<lambda>a. L a) (il_full st) = map_option (\<lambda>t. Some (Chars t)) full \<and>
       distinct (local_ptrs st) \<and> dom L = set (local_ptrs st))"

lemma put_wf: "stands_for B st h vst full \<Longrightarrow> dict_wf (ini_dict vst)"
  by (auto simp: stands_for_def around_def dict_inv_def)

lemma store_entry_put:
  "dict_wf (ini_dict vst) \<Longrightarrow> store_entry key val vst = Inr (vst\<lparr>ini_dict := dict_put (ini_dict vst) key val, errs := 0\<rparr>)"
  by (simp add: store_entry_def dict_put)

text \<open>The key and the value of the round before are freed.\<close>

lemma free_old:
  assumes "stands_for B st h vst full"
  obtains h1 h2 where "free_ptr (il_key st) h = Inr h1" "free_ptr (il_val st) h1 = Inr h2"
    "stands_for B (st\<lparr>il_key := None, il_val := None\<rparr>) h2 vst full"
proof -
  obtain L where L: "around B L (il_dict st) h" "dict_of (il_dict st) h = ini_dict vst" "il_errs st = errs vst"
    "L (il_section st) = Some (Chars (ini_section vst))"
    "map_option (\<lambda>a. L a) (il_full st) = map_option (\<lambda>t. Some (Chars t)) full"
    "distinct (local_ptrs st)" "dom L = set (local_ptrs st)"
    using assms by (auto simp: stands_for_def)
  have "\<forall>a. il_key st = Some a \<longrightarrow> L a \<noteq> None" using L(7) by (auto simp: local_ptrs_def domIff)
  from around_free [OF L(1) this] obtain h1 where h1: "free_ptr (il_key st) h = Inr h1"
    "around B (case il_key st of None \<Rightarrow> L | Some a \<Rightarrow> L(a := None)) (il_dict st) h1"
    "dict_of (il_dict st) h1 = dict_of (il_dict st) h" by metis
  let ?L = "case il_key st of None \<Rightarrow> L | Some a \<Rightarrow> L(a := None)"
  have "\<forall>a. il_val st = Some a \<longrightarrow> ?L a \<noteq> None"
    using L(6,7) by (auto simp: local_ptrs_def domIff split: option.splits)
  from around_free [OF h1(2) this] obtain h2 where h2: "free_ptr (il_val st) h1 = Inr h2"
    "around B (case il_val st of None \<Rightarrow> ?L | Some a \<Rightarrow> ?L(a := None)) (il_dict st) h2"
    "dict_of (il_dict st) h2 = dict_of (il_dict st) h1" by metis
  have "stands_for B (st\<lparr>il_key := None, il_val := None\<rparr>) h2 vst full"
    unfolding stands_for_def
    by (rule exI [of _ "case il_val st of None \<Rightarrow> ?L | Some a \<Rightarrow> ?L(a := None)"])
      (use L(2-7) h1(3) h2(2,3) in \<open>auto simp: local_ptrs_def split: option.splits\<close>)
  with h1 h2 that show ?thesis by blast
qed

lemma entry_ok:
  assumes rel: "stands_for B st h vst full" and old: "il_key st = None" "il_val st = None"
  shows "case load_full_line line vst of
      Inl e \<Rightarrow> and_then (heap_line line h) (\<lambda>(sta, key, val, h). heap_entry sta key val st h) = Inl e
    | Inr vst' \<Rightarrow> \<exists>st' h'. and_then (heap_line line h) (\<lambda>(sta, key, val, h). heap_entry sta key val st h) = Inr (st', h') \<and>
        stands_for B st' h' vst' full \<and> il_full st' = il_full st"
proof (cases "iniparser_line line")
  case (Inl e)
  then show ?thesis by (simp add: load_full_line_def heap_line_fault)
next
  case (Inr sta)
  let ?d = "il_dict st"
  obtain L where L: "around B L ?d h" "dict_of ?d h = ini_dict vst" "il_errs st = errs vst"
    "L (il_section st) = Some (Chars (ini_section vst))"
    "map_option (\<lambda>a. L a) (il_full st) = map_option (\<lambda>t. Some (Chars t)) full"
    "distinct (local_ptrs st)" "dom L = set (local_ptrs st)"
    using rel by (auto simp: stands_for_def)
  obtain key val h' L' where hl: "heap_line line h = Inr (sta, key, val, h')" "around B L' ?d h'" "dict_of ?d h' = dict_of ?d h"
    "case sta of
       LINE_SECTION s \<Rightarrow> (\<exists>a. key = Some a \<and> val = None \<and> L a = None \<and> L' = L(a \<mapsto> Chars s))
     | LINE_VALUE k v \<Rightarrow> (\<exists>a b. key = Some a \<and> val = Some b \<and> a \<noteq> b \<and> L a = None \<and> L b = None \<and>
         L' = L(a \<mapsto> Chars k, b \<mapsto> Chars v))
     | _ \<Rightarrow> key = None \<and> val = None \<and> L' = L"
    by (rule heap_line_ok [OF L(1) Inr])
  note wf = put_wf [OF rel]
  show ?thesis
  proof (cases sta)
    case (LINE_SECTION s)
    then obtain a where a: "key = Some a" "val = None" "L a = None" "L' = L(a \<mapsto> Chars s)" using hl(4) by auto
    have "L' (il_section st) = Some (Chars (ini_section vst))" using L(4) a by auto
    from around_release [OF hl(2) this] obtain h1 where h1: "release (il_section st) h' = Inr h1"
      "around B (L'(il_section st := None)) ?d h1" "dict_of ?d h1 = dict_of ?d h'" by metis
    have "(L'(il_section st := None)) a = Some (Chars s)" using L(4) a by auto
    then obtain d2 h2 where h2: "heap_set (Some ?d) (Some a) None h1 = Inr (0, Some d2, h2)"
      "around B (L'(il_section st := None)) d2 h2" "dict_of d2 h2 = dict_put (dict_of ?d h1) s None"
      by (rule around_set [OF h1(2), where key = a and str = s and val = None and s = None]) simp
    let ?st = "st\<lparr>il_dict := d2, il_errs := 0, il_section := a\<rparr>"
    have "stands_for B ?st h2 (vst\<lparr>ini_dict := dict_put (ini_dict vst) s None, errs := 0, ini_section := s\<rparr>) full"
      unfolding stands_for_def
      by (rule exI [of _ "L'(il_section st := None)"])
        (use L h1(3) h2(2,3) hl(3) a old in \<open>auto simp: local_ptrs_def split: option.splits\<close>)
    then show ?thesis
      using Inr LINE_SECTION hl(1) a h1(1) h2(1)
      by (simp add: load_full_line_def store_entry_put [OF wf] heap_entry_def)
  next
    case (LINE_VALUE k v)
    then obtain a b where a: "key = Some a" "val = Some b" "a \<noteq> b" "L a = None" "L b = None"
      "L' = L(a \<mapsto> Chars k, b \<mapsto> Chars v)" using hl(4) by auto
    have at: "L' (il_section st) = Some (Chars (ini_section vst))" "L' a = Some (Chars k)" "L' b = Some (Chars v)"
      using L(4) a by auto
    let ?sk = "ini_section vst @ '':'' @ k"
    obtain q h1 where m: "malloc (Chars ?sk) h' = (q, h1)" by (cases "malloc (Chars ?sk) h'")
    note m1 = around_malloc [OF hl(2) m]
    have "(L'(q \<mapsto> Chars ?sk)) q = Some (Chars ?sk)" "(L'(q \<mapsto> Chars ?sk)) b = Some (Chars v)"
      using at m1(3) by auto
    then obtain d2 h2 where
      h2: "heap_set (Some ?d) (Some q) (Some b) h1 = Inr (0, Some d2, h2)"
      "around B (L'(q \<mapsto> Chars ?sk)) d2 h2" "dict_of d2 h2 = dict_put (dict_of ?d h1) ?sk (Some v)"
      by (rule_tac around_set [OF m1(1), where key = q and str = ?sk and val = "Some b" and s = "Some v"]) simp_all
    obtain h3 where h3: "release q h2 = Inr h3" "around B (L'(q \<mapsto> Chars ?sk, q := None)) d2 h3" "dict_of d2 h3 = dict_of d2 h2"
      by (rule around_release [OF h2(2), of q]) auto
    have "L'(q \<mapsto> Chars ?sk, q := None) = L'" using m1(3) by (auto simp: fun_eq_iff)
    with h3(2) have a3: "around B L' d2 h3" by (simp only:)
    let ?st = "st\<lparr>il_dict := d2, il_errs := 0, il_key := Some a, il_val := Some b\<rparr>"
    have "stands_for B ?st h3 (vst\<lparr>ini_dict := dict_put (ini_dict vst) ?sk (Some v), errs := 0\<rparr>) full"
      unfolding stands_for_def
      by (rule exI [of _ L'])
        (use L h2(3) a3 h3(3) hl(3) m1(2) a old in \<open>auto simp: local_ptrs_def split: option.splits\<close>)
    then show ?thesis
      using Inr LINE_VALUE hl(1) a h2(1) h3(1) around_chars [OF hl(2) at(1)] around_chars [OF hl(2) at(2)] m
      by (simp add: load_full_line_def store_entry_put [OF wf] heap_entry_def)
  next
    case LINE_ERROR
    with hl L Inr show ?thesis
      by (auto simp: load_full_line_def heap_entry_def stands_for_def local_ptrs_def intro!: exI [of _ L])
  qed (use hl L Inr in \<open>auto simp: load_full_line_def heap_entry_def stands_for_def intro!: exI [of _ L]\<close>)
qed

lemma load_full_line_keeps: "load_full_line line vst = Inr vst' \<Longrightarrow> full_line vst' = full_line vst"
  by (auto simp: load_full_line_def store_entry_def map_sum_def split: sum.splits line_status.splits option.splits prod.splits)

text \<open>A new line, with what was read of it before.\<close>

lemma new_full_line:
  assumes rel: "stands_for B st h vst full" and old: "il_key st = None" "il_val st = None"
    and m: "malloc (Chars t) h = (f, h1)"
  obtains h2 where "free_ptr (il_full st) h1 = Inr h2" "stands_for B (st\<lparr>il_full := Some f\<rparr>) h2 vst (Some t)"
    "chars h2 f = Inr t"
proof -
  obtain L where L: "around B L (il_dict st) h" "dict_of (il_dict st) h = ini_dict vst" "il_errs st = errs vst"
    "L (il_section st) = Some (Chars (ini_section vst))"
    "map_option (\<lambda>a. L a) (il_full st) = map_option (\<lambda>t. Some (Chars t)) full"
    "distinct (local_ptrs st)" "dom L = set (local_ptrs st)"
    using rel by (auto simp: stands_for_def)
  note m1 = around_malloc [OF L(1) m]
  have "\<forall>a. il_full st = Some a \<longrightarrow> (L(f \<mapsto> Chars t)) a \<noteq> None" using L(7) by (auto simp: local_ptrs_def domIff)
  from around_free [OF m1(1) this] obtain h2 where h2: "free_ptr (il_full st) h1 = Inr h2"
    "around B (case il_full st of None \<Rightarrow> L(f \<mapsto> Chars t) | Some a \<Rightarrow> L(f \<mapsto> Chars t, a := None)) (il_dict st) h2"
    "dict_of (il_dict st) h2 = dict_of (il_dict st) h1" by metis
  let ?L = "case il_full st of None \<Rightarrow> L(f \<mapsto> Chars t) | Some a \<Rightarrow> L(f \<mapsto> Chars t, a := None)"
  have "f \<notin> set (local_ptrs st)" using L(7) m1(3) by auto
  then have f: "?L f = Some (Chars t)" by (auto simp: local_ptrs_def split: option.splits)
  have "stands_for B (st\<lparr>il_full := Some f\<rparr>) h2 vst (Some t)"
    unfolding stands_for_def
    by (rule exI [of _ ?L])
      (use L(2-7) h2(2,3) m1(2,3) f old in \<open>auto simp: local_ptrs_def split: option.splits\<close>)
  with h2 that around_chars [OF h2(2) f] show ?thesis by blast
qed

lemma full_text:
  assumes "stands_for B st h vst full"
  shows "(case il_full st of None \<Rightarrow> Inr [] | Some a \<Rightarrow> chars h a) = Inr (case full of None \<Rightarrow> [] | Some t \<Rightarrow> t)"
  using assms by (auto simp: stands_for_def dest: around_chars split: option.splits)

text \<open>The line is freed when it has been read.\<close>

lemma free_full_line:
  assumes "stands_for B st h vst full" "il_full st = Some f"
  obtains h' where "release f h = Inr h'" "stands_for B (st\<lparr>il_full := None\<rparr>) h' vst None"
proof -
  obtain L where L: "around B L (il_dict st) h" "dict_of (il_dict st) h = ini_dict vst" "il_errs st = errs vst"
    "L (il_section st) = Some (Chars (ini_section vst))"
    "distinct (local_ptrs st)" "dom L = set (local_ptrs st)"
    using assms by (auto simp: stands_for_def)
  have "f \<in> dom L" using L(6) assms(2) by (simp add: local_ptrs_def)
  then obtain b where "L f = Some b" by auto
  from around_release [OF L(1) this] obtain h' where h': "release f h = Inr h'" "around B (L(f := None)) (il_dict st) h'"
    "dict_of (il_dict st) h' = dict_of (il_dict st) h" by metis
  have "stands_for B (st\<lparr>il_full := None\<rparr>) h' vst None"
    unfolding stands_for_def
    by (rule exI [of _ "L(f := None)"])
      (use L(2-6) h'(2,3) assms(2) in \<open>auto simp: local_ptrs_def split: option.splits\<close>)
  with h' that show ?thesis by blast
qed

lemma stands_for_cong:
  "stands_for B st h vst full \<Longrightarrow> ini_dict vst' = ini_dict vst \<Longrightarrow> ini_section vst' = ini_section vst \<Longrightarrow>
   errs vst' = errs vst \<Longrightarrow> stands_for B st h vst' full"
  by (simp add: stands_for_def)

lemma heap_load_line_ok:
  assumes rel: "stands_for B st h vst (full_line vst)"
  shows "case load_line le vst of
      Inl e \<Rightarrow> heap_load_line le st h = Inl e
    | Inr (go_on, vst') \<Rightarrow> \<exists>st' h'. heap_load_line le st h = Inr (go_on, st', h') \<and> stands_for B st' h' vst' (full_line vst')"
proof -
  obtain chunk eof where le: "le = (chunk, eof)" by (cases le)
  let ?st = "st\<lparr>il_key := None, il_val := None\<rparr>"
  obtain h1 h2 where fr: "free_ptr (il_key st) h = Inr h1" "free_ptr (il_val st) h1 = Inr h2"
    "stands_for B ?st h2 vst (full_line vst)" by (rule free_old [OF rel])
  define line where "line = c_str chunk"
  consider "line = []" | "length line = 1" | "1 < length line" "line ! (length line - 1) \<noteq> NL" "\<not> eof"
    | "1 < length line" "line ! (length line - 1) = NL \<or> eof"
    by (cases line; cases "length line = 1") auto
  then show ?thesis
  proof cases
    case 3
    have "stands_for B (?st\<lparr>il_errs := il_errs st + 1\<rparr>) h2 (vst\<lparr>errs := errs vst + 1\<rparr>) (full_line vst)"
      using fr(3) by (auto simp: stands_for_def local_ptrs_def)
    with 3 fr show ?thesis by (auto simp: le heap_load_line_def load_line_def line_def [symmetric] Let_def)
  next
    case 4
    define multi where "multi = (rstrip line \<noteq> [] \<and> rstrip line ! (length (rstrip line) - 1) = CHR 0x5C)"
    define part where "part = (if multi then take (length (rstrip line) - 1) (rstrip line) else rstrip line)"
    define t where "t = (case full_line vst of None \<Rightarrow> [] | Some p \<Rightarrow> p) @ part"
    obtain f h3 where m: "malloc (Chars t) h2 = (f, h3)" by (cases "malloc (Chars t) h2")
    obtain h4 where h4: "free_ptr (il_full ?st) h3 = Inr h4" "stands_for B (?st\<lparr>il_full := Some f\<rparr>) h4 vst (Some t)"
      "chars h4 f = Inr t" by (rule new_full_line [OF fr(3) _ _ m]) simp_all
    let ?st' = "?st\<lparr>il_full := Some f\<rparr>"
    have prev: "(case il_full st of None \<Rightarrow> Inr [] | Some a \<Rightarrow> chars h2 a) = Inr (case full_line vst of None \<Rightarrow> [] | Some p \<Rightarrow> p)"
      using full_text [OF fr(3)] by simp
    have val: "load_line le vst = (if multi then Inr (True, vst\<lparr>full_line := Some t\<rparr>)
        else (case load_full_line t vst of Inl e \<Rightarrow> Inl e
              | Inr st \<Rightarrow> Inr (\<not> errs st < 0, st\<lparr>full_line := None\<rparr>)))"
      using 4 unfolding le load_line_def prod.case line_def [symmetric] Let_def multi_def [symmetric]
        part_def [symmetric] t_def
      by (auto split: option.splits)
    have heap: "heap_load_line le st h = (if multi then Inr (True, ?st', h4)
        else and_then (and_then (heap_line t h4) (\<lambda>(sta, key, val, h). heap_entry sta key val ?st' h)) (\<lambda>(st, h).
          and_then (release f h) (\<lambda>h. Inr (\<not> il_errs st < 0, st\<lparr>il_full := None\<rparr>, h))))"
    proof -
      have nt: "line \<noteq> []" "length line \<noteq> 1" "\<not> (line ! (length line - 1) \<noteq> NL \<and> \<not> snd le)" "c_str (fst le) = line"
        using 4 by (auto simp: le line_def)
      have assoc: "and_then (and_then x g) k = and_then x (\<lambda>y. and_then (g y) k)" for x :: "fault + 'a" and g k
        by (simp add: and_then_def split: sum.split)
      show ?thesis
        using h4(1,3) m
        unfolding heap_load_line_def fr(1,2) and_then_simps Let_def nt(4) if_not_P [OF nt(1)] if_not_P [OF nt(2)]
          if_not_P [OF nt(3)] multi_def [symmetric] part_def [symmetric]
        by (simp add: prev t_def assoc) (simp add: and_then_def split: sum.split prod.split)
    qed
    show ?thesis
    proof (cases multi)
      case True
      have "stands_for B ?st' h4 (vst\<lparr>full_line := Some t\<rparr>) (Some t)" using h4(2) by (rule stands_for_cong) simp_all
      with True show ?thesis by (simp add: val heap)
    next
      case False
      note e = entry_ok [OF h4(2), of t]
      show ?thesis
      proof (cases "load_full_line t vst")
        case (Inl x)
        with e False show ?thesis by (simp add: val heap)
      next
        case (Inr vst1)
        with e obtain st1 h5 where h5: "and_then (heap_line t h4) (\<lambda>(sta, key, val, h). heap_entry sta key val ?st' h) = Inr (st1, h5)"
          "stands_for B st1 h5 vst1 (Some t)" "il_full st1 = Some f" by auto
        obtain h6 where h6: "release f h5 = Inr h6" "stands_for B (st1\<lparr>il_full := None\<rparr>) h6 vst1 None"
          by (rule free_full_line [OF h5(2,3)])
        have "il_errs st1 = errs vst1" using h5(2) by (auto simp: stands_for_def)
        moreover have "stands_for B (st1\<lparr>il_full := None\<rparr>) h6 (vst1\<lparr>full_line := None\<rparr>) None"
          using h6(2) by (rule stands_for_cong) simp_all
        ultimately show ?thesis using False Inr by (simp add: val heap h5(1) h6(1))
      qed
    qed
  qed (use fr in \<open>auto simp: le heap_load_line_def load_line_def line_def [symmetric] Let_def\<close>)
qed

lemma heap_load_lines_ok:
  "stands_for B st h vst (full_line vst) \<Longrightarrow>
   case load_lines les vst of
     Inl e \<Rightarrow> heap_load_lines les st h = Inl e
   | Inr vst' \<Rightarrow> \<exists>st' h'. heap_load_lines les st h = Inr (st', h') \<and> stands_for B st' h' vst' (full_line vst')"
proof (induction les arbitrary: st h vst)
  case (Cons le les)
  note one = heap_load_line_ok [OF Cons.prems, of le]
  show ?case
  proof (cases "load_line le vst")
    case (Inl e)
    with one show ?thesis by simp
  next
    case (Inr r)
    obtain g vst1 where r: "r = (g, vst1)" by (cases r)
    with one Inr obtain st1 h1 where "heap_load_line le st h = Inr (g, st1, h1)" "stands_for B st1 h1 vst1 (full_line vst1)"
      by auto
    with Cons.IH [of st1 h1 vst1] Inr r show ?thesis
      by (cases g; cases "load_lines les vst1") simp_all
  qed
qed auto

text \<open>The end frees what the local variables still have.\<close>

definition free_locals :: "ini_locals \<Rightarrow> heap \<Rightarrow> fault + heap" where
  "free_locals st h =
     and_then (free_ptr (il_val st) h) (\<lambda>h. and_then (free_ptr (il_key st) h) (\<lambda>h.
       and_then (release (il_section st) h) (\<lambda>h. free_ptr (il_full st) h)))"

lemma free_locals_ok:
  assumes "set (local_ptrs st) \<subseteq> dom (blocks h)" "distinct (local_ptrs st)" "\<forall>a \<ge> next_addr h. blocks h a = None"
  obtains h' where "free_locals st h = Inr h'" "blocks h' = (blocks h) |` (- set (local_ptrs st))"
proof -
  let ?ps = "[il_val st, il_key st, Some (il_section st), il_full st]"
  have free: "free_locals st h = free_ptrs ?ps h"
    by (auto simp: free_locals_def and_then_def free_ptr_def split: sum.split option.split)
  have ps: "somes ?ps = mset (local_ptrs st)" by (auto simp: local_ptrs_def split: option.split)
  have one: "count (mset (local_ptrs st)) a \<le> 1" for a
    using assms(2) by (cases "a \<in> set (local_ptrs st)") (auto simp: distinct_count_atmost_1)
  have "mem_ok ({#} + somes ?ps) h" unfolding ps using assms one by (auto simp: mem_ok_def)
  then obtain h' where h': "free_ptrs ?ps h = Inr h'" "rest {#} h' = rest ({#} + somes ?ps) h"
    by (rule free_ptrs_ok) blast
  have "rest (mset (local_ptrs st)) h = (blocks h) |` (- set (local_ptrs st))" by (simp add: rest_def)
  with h'(2) have "blocks h' = (blocks h) |` (- set (local_ptrs st))" unfolding ps by simp
  with h'(1) that show ?thesis unfolding free by blast
qed

lemma load_out_free:
  "heap_load_out st h =
     and_then (if il_errs st \<noteq> 0 then heap_del (Some (il_dict st)) h else Inr h) (\<lambda>h.
       and_then (free_locals st h) (\<lambda>h. Inr (if il_errs st \<noteq> 0 then None else Some (il_dict st), h)))"
  by (auto simp: heap_load_out_def free_locals_def and_then_def split: sum.split)

lemma next_addr_keeps:
  "free_ptrs ps h = Inr h' \<Longrightarrow> next_addr h' = next_addr h"
  by (induction ps arbitrary: h) (auto simp: free_ptr_def release_def split: option.splits sum.splits)

lemma heap_load_out_ok:
  assumes rel: "stands_for B st h vst full"
  shows "\<exists>dp h'. heap_load_out st h = Inr (dp, h') \<and>
    (if errs vst \<noteq> 0 then dp = None \<and> blocks h' = B
     else \<exists>d. dp = Some d \<and> dict_of d h' = ini_dict vst \<and> dict_inv d h' \<and> rest (owned d) h' = B)"
proof -
  let ?d = "il_dict st"
  obtain L where L: "around B L ?d h" "dict_of ?d h = ini_dict vst" "il_errs st = errs vst"
    "distinct (local_ptrs st)" "dom L = set (local_ptrs st)"
    using rel by (auto simp: stands_for_def)
  have ok: "heap_ok ?d h" and mem: "mem_ok (owned ?d) h" and r: "rest (owned ?d) h = B ++ L" and disj: "dom B \<inter> dom L = {}"
    using aroundD [OF L(1)] by (simp_all add: dict_inv_def)
  show ?thesis
  proof (cases "errs vst = 0")
    case False
    obtain h1 where h1: "heap_del (Some ?d) h = Inr h1" "blocks h1 = rest (owned ?d) h" by (rule heap_del_ok [OF ok])
    have "next_addr h1 = next_addr h" using h1(1) by (auto simp: heap_del_def dest: next_addr_keeps)
    moreover have "blocks h a = None \<Longrightarrow> rest (owned ?d) h a = None" for a by (simp add: rest_def restrict_map_def)
    ultimately have top: "\<forall>a \<ge> next_addr h1. blocks h1 a = None" using mem h1(2) by (simp add: mem_ok_def)
    have "set (local_ptrs st) \<subseteq> dom (blocks h1)" using L(5) by (auto simp: h1(2) r)
    from free_locals_ok [OF this L(4) top] obtain h2 where h2: "free_locals st h1 = Inr h2"
      "blocks h2 = (blocks h1) |` (- set (local_ptrs st))" by metis
    have "blocks h2 a = B a" for a
    proof (cases "a \<in> set (local_ptrs st)")
      case True
      with disj L(5) have "B a = None" by (auto simp: disjoint_iff domIff)
      with True show ?thesis by (simp add: h2(2))
    next
      case False
      with L(5) have "L a = None" by (auto simp: domIff)
      with False show ?thesis by (simp add: h2(2) h1(2) r map_add_def)
    qed
    then have "blocks h2 = B" by (simp add: fun_eq_iff)
    with h1(1) h2(1) False L(3) show ?thesis by (simp add: load_out_free)
  next
    case True
    let ?rm = "\<lambda>p L. case p of None \<Rightarrow> L | Some a \<Rightarrow> L(a := None)"
    have "\<forall>a. il_val st = Some a \<longrightarrow> L a \<noteq> None" using L(5) by (auto simp: local_ptrs_def domIff)
    from around_free [OF L(1) this] obtain h1 where h1: "free_ptr (il_val st) h = Inr h1" "around B (?rm (il_val st) L) ?d h1"
      "dict_of ?d h1 = dict_of ?d h" by metis
    have "\<forall>a. il_key st = Some a \<longrightarrow> ?rm (il_val st) L a \<noteq> None"
      using L(4,5) by (auto simp: local_ptrs_def domIff split: option.splits)
    from around_free [OF h1(2) this] obtain h2 where h2: "free_ptr (il_key st) h1 = Inr h2"
      "around B (?rm (il_key st) (?rm (il_val st) L)) ?d h2" "dict_of ?d h2 = dict_of ?d h1" by metis
    have "il_section st \<in> dom (?rm (il_key st) (?rm (il_val st) L))"
      using L(4,5) by (auto simp: local_ptrs_def split: option.splits)
    then obtain b where "?rm (il_key st) (?rm (il_val st) L) (il_section st) = Some b" by blast
    from around_release [OF h2(2) this] obtain h3 where h3: "release (il_section st) h2 = Inr h3"
      "around B ((?rm (il_key st) (?rm (il_val st) L))(il_section st := None)) ?d h3" "dict_of ?d h3 = dict_of ?d h2" by metis
    let ?L = "(?rm (il_key st) (?rm (il_val st) L))(il_section st := None)"
    have "\<forall>a. il_full st = Some a \<longrightarrow> ?L a \<noteq> None"
      using L(4,5) by (auto simp: local_ptrs_def domIff split: option.splits)
    from around_free [OF h3(2) this] obtain h4 where h4: "free_ptr (il_full st) h3 = Inr h4"
      "around B (?rm (il_full st) ?L) ?d h4" "dict_of ?d h4 = dict_of ?d h3" by metis
    have "dom (?rm (il_full st) ?L) = {}"
      using L(5) by (auto simp: local_ptrs_def simp del: dom_eq_empty_conv split: option.splits if_splits)
    then have "around B Map.empty ?d h4" using h4(2) by (simp only: dom_eq_empty_conv)
    from aroundD(1,2) [OF this] True L(2,3) h1 h2 h3 h4 show ?thesis by (simp add: heap_load_out_def)
  qed
qed

subsection \<open>Getting and setting with the lower-case copy of the key\<close>

text \<open>
  The copy is freed again, and everything outside the dictionary stays as it was. The value a call of
  \<open>iniparser_getstring\<close> returns is the dictionary's own block.
\<close>

lemma heap_lower_ok:
  assumes inv: "dict_inv d h" and k: "caller_text (owned d) h (Some entry) (Some s)"
  obtains a h' where "heap_lower (Some entry) h = Inr (Some a, h')" "dict_of d h' = dict_of d h"
    "around (rest (owned d) h) [a \<mapsto> Chars (strlwc s)] d h'" "rest (owned d) h a = None"
proof -
  have ok: "around (rest (owned d) h) Map.empty d h" using inv by (simp add: around_def)
  have c: "chars h entry = Inr s" using caller_chars [OF k] by simp
  obtain a h1 where m: "malloc (Chars s) h = (a, h1)" by (cases "malloc (Chars s) h")
  note m1 = around_malloc [OF ok m]
  have at: "(Map.empty(a \<mapsto> Chars s)) a = Some (Chars s)" by simp
  obtain h2 where h2: "put_chars a (strlwc s) h1 = Inr h2" "around (rest (owned d) h) [a \<mapsto> Chars s, a \<mapsto> Chars (strlwc s)] d h2"
    "dict_of d h2 = dict_of d h1" by (rule around_put [OF m1(1) at])
  have "chars h1 a = Inr s" by (rule around_chars [OF m1(1)]) simp
  with h2 m m1 c that [of a h2] show ?thesis by (simp add: heap_lower_def xstrdup_def)
qed

lemma around_done:
  assumes "around B [a \<mapsto> b] d h"
  obtains h' where "release a h = Inr h'" "dict_inv d h'" "rest (owned d) h' = B" "dict_of d h' = dict_of d h"
proof -
  obtain h' where "release a h = Inr h'" "around B ([a \<mapsto> b](a := None)) d h'" "dict_of d h' = dict_of d h"
    by (rule around_release [OF assms, of a b]) simp
  then show ?thesis using that [of h'] by (simp add: around_def)
qed

lemma caller_text_more: "caller_text M h p s \<Longrightarrow> rest M h = B \<Longrightarrow> rest M' h' = B ++ L \<Longrightarrow> dom B \<inter> dom L = {} \<Longrightarrow> caller_text M' h' p s"
  by (auto simp: caller_text_def map_add_def domIff disjoint_iff split: option.splits)

lemma heap_iniset_ok:
  assumes inv: "dict_inv d h" and k: "caller_text (owned d) h (Some entry) (Some s)" and v: "caller_text (owned d) h val t"
  shows "\<exists>d' h'. heap_iniset (Some d) (Some entry) val h = Inr (0, Some d', h') \<and> dict_inv d' h' \<and>
    rest (owned d') h' = rest (owned d) h \<and>
    iniparser_set (Some (dict_of d h)) (Some s) t = Some (0, Some (dict_of d' h'))"
proof -
  obtain a h1 where low: "heap_lower (Some entry) h = Inr (Some a, h1)" "dict_of d h1 = dict_of d h"
    "around (rest (owned d) h) [a \<mapsto> Chars (strlwc s)] d h1" "rest (owned d) h a = None"
    by (rule heap_lower_ok [OF inv k])
  note ar = aroundD [OF low(3)]
  have lc: "caller_text (owned d) h1 (Some a) (Some (strlwc s))" by (rule around_caller [OF low(3)]) simp
  from heap_put_ok [OF ar(1) lc caller_text_more [OF v refl ar(2,3)]] obtain d2 h2 where
    h2: "heap_put d a val h1 = Inr (d2, h2)" "dict_inv d2 h2" "rest (owned d2) h2 = rest (owned d) h1"
    "dict_of d2 h2 = dict_put (dict_of d h1) (strlwc s) t" by metis
  have "around (rest (owned d) h) [a \<mapsto> Chars (strlwc s)] d2 h2" using h2 ar by (simp add: around_def)
  then obtain h3 where "release a h2 = Inr h3" "dict_inv d2 h3" "rest (owned d2) h3 = rest (owned d) h"
    "dict_of d2 h3 = dict_of d2 h2" by (rule around_done)
  with low(1,2) h2 inv show ?thesis
    by (auto simp: heap_iniset_def heap_set_def free_ptr_def iniparser_set_def dict_put dict_inv_def)
qed

lemma heap_iniunset_ok:
  assumes inv: "dict_inv d h" and k: "caller_text (owned d) h (Some entry) (Some s)"
  shows "\<exists>d' h'. heap_iniunset (Some d) (Some entry) h = Inr (Some d', h') \<and> dict_inv d' h' \<and>
    rest (owned d') h' = rest (owned d) h \<and> iniparser_unset (dict_of d h) (Some s) = dict_of d' h'"
proof -
  obtain a h1 where low: "heap_lower (Some entry) h = Inr (Some a, h1)" "dict_of d h1 = dict_of d h"
    "around (rest (owned d) h) [a \<mapsto> Chars (strlwc s)] d h1" "rest (owned d) h a = None"
    by (rule heap_lower_ok [OF inv k])
  note ar = aroundD [OF low(3)]
  have lc: "caller_text (owned d) h1 (Some a) (Some (strlwc s))" by (rule around_caller [OF low(3)]) simp
  from heap_take_ok [OF ar(1) lc] obtain d2 h2 where
    h2: "heap_take d a h1 = Inr (d2, h2)" "dict_inv d2 h2" "rest (owned d2) h2 = rest (owned d) h1"
    "dict_of d2 h2 = dictionary_unset (dict_of d h1) (Some (strlwc s))" by metis
  have "around (rest (owned d) h) [a \<mapsto> Chars (strlwc s)] d2 h2" using h2 ar by (simp add: around_def)
  then obtain h3 where "release a h2 = Inr h3" "dict_inv d2 h3" "rest (owned d2) h3 = rest (owned d) h"
    "dict_of d2 h3 = dict_of d2 h2" by (rule around_done)
  with low(1,2) h2 show ?thesis
    by (auto simp: heap_iniunset_def heap_unset_def free_ptr_def iniparser_unset_def)
qed

lemma heap_getstring_ok:
  assumes inv: "dict_inv d h" and k: "caller_text (owned d) h (Some entry) (Some s)"
  shows "\<exists>p h'. heap_getstring (Some d) (Some entry) deflt h = Inr (p, h') \<and> dict_inv d h' \<and>
    rest (owned d) h' = rest (owned d) h \<and>
    (if dict_map (dict_of d h) (strlwc s) = None then p = deflt
     else iniparser_getstring (Some (dict_of d h)) (Some s) x =
       (case p of None \<Rightarrow> NullPtr | Some a \<Rightarrow> Ptr (text_at h' a)))"
proof -
  obtain a h1 where low: "heap_lower (Some entry) h = Inr (Some a, h1)" "dict_of d h1 = dict_of d h"
    "around (rest (owned d) h) [a \<mapsto> Chars (strlwc s)] d h1" "rest (owned d) h a = None"
    by (rule heap_lower_ok [OF inv k])
  obtain h2 where h2: "release a h1 = Inr h2" "dict_inv d h2" "rest (owned d) h2 = rest (owned d) h" "dict_of d h2 = dict_of d h1"
    by (rule around_done [OF low(3)])
  have ok: "heap_ok d h1" and wf: "dict_wf (dict_of d h1)" using aroundD(1) [OF low(3)] by (simp_all add: dict_inv_def)
  have c: "chars h1 a = Inr (strlwc s)" by (rule around_chars [OF low(3)]) simp
  let ?f = "find_key (dict_of d h1) (dictionary_hash (strlwc s)) (strlwc s) 0 (hd_size d)"
  have get: "heap_get h1 d a deflt = (case ?f of None \<Rightarrow> Inr deflt | Some i \<Rightarrow> Inr (hd_val d ! i))"
    using heap_find_dict [OF ok, of 0 "hd_size d"] by (simp add: heap_get_def c split: option.split)
  show ?thesis
  proof (cases ?f)
    case None
    then have "dict_map (dict_of d h) (strlwc s) = None" using find_key_None [OF wf, of "strlwc s"] low(2) by simp
    with None low(1) h2 get show ?thesis by (simp add: heap_getstring_def)
  next
    case (Some i)
    then have i: "i < hd_size d" "dict_map (dict_of d h1) (strlwc s) \<noteq> None"
      using find_key_Some [OF wf, of "strlwc s" i] find_key_None [OF wf, of "strlwc s"] by auto
    have "length (hd_val d) = hd_size d" using ok by (simp add: heap_ok_def)
    moreover have "texts h2 (hd_val d) = texts h1 (hd_val d)" using h2(4) by (simp add: dict_of_def)
    ultimately have "texts h1 (hd_val d) ! i = map_option (text_at h2) (hd_val d ! i)"
      using texts_nth(1) [of i "hd_val d" h2] i(1) by simp
    then have "iniparser_getstring (Some (dict_of d h1)) (Some s) x =
        (case hd_val d ! i of None \<Rightarrow> NullPtr | Some a \<Rightarrow> Ptr (text_at h2 a))"
      using Some by (cases "hd_val d ! i") (simp_all add: iniparser_getstring_def dictionary_get_def val_ptr_def)
    with Some i(2) low(1,2) h2 get show ?thesis by (auto simp: heap_getstring_def)
  qed
qed

subsection \<open>Properties\<close>

text \<open>C6: Loading a file manages its memory. Whatever the file has in it, continued lines, syntax errors and
  lines that are too long among it: \<open>iniparser_load\<close> on the heap never reads or frees a block that is not
  there; it ends as theory IniParser says, with a null dictionary or one that is the dictionary of the model;
  and when the destructor of \<open>ConfigParser\<close> has freed the dictionary, if there is one, the heap is exactly as it
  was before, every block allocated on the way freed once.\<close>

theorem iniparser_load_manages_memory:
  assumes "\<forall>a \<ge> next_addr h0. blocks h0 a = None"
  shows "case iniparser_load file of
      Inl e \<Rightarrow> heap_load file h0 = Inl e
    | Inr d \<Rightarrow> \<exists>p h h'. heap_load file h0 = Inr (p, h) \<and> map_option (\<lambda>p. dict_of p h) p = d \<and>
        ConfigParser_delete p h = Inr h' \<and> blocks h' = blocks h0"
proof (cases "file")
  case None
  then show ?thesis
    using assms by (auto simp: iniparser_load_def heap_load_def malloc_def release_def fun_eq_iff ConfigParser_delete_def)
next
  case (Some body)
  let ?B = "blocks h0" and ?sec = "next_addr h0"
  define h1 where "h1 = snd (malloc (Chars []) h0)"
  have h1: "malloc (Chars []) h0 = (?sec, h1)" "blocks h1 = ?B(?sec \<mapsto> Chars [])" "next_addr h1 = Suc ?sec"
    by (simp_all add: h1_def malloc_def)
  have "\<forall>a \<ge> next_addr h1. blocks h1 a = None" using assms by (simp add: h1)
  then obtain p h2 where h2: "heap_new 0 h1 = (p, h2)" "dict_inv p h2" "rest (owned p) h2 = blocks h1"
    "dict_of p h2 = dictionary_new 0" by (rule heap_new_ok)
  let ?st = "\<lparr>il_dict = p, il_section = ?sec, il_key = None, il_val = None, il_full = None, il_errs = 0\<rparr>"
  have "around ?B [?sec \<mapsto> Chars []] p h2"
    using h2 assms by (auto simp: around_def h1)
  then have "stands_for ?B ?st h2 ini_start (full_line ini_start)"
    using h2(4) by (simp add: stands_for_def ini_start_def local_ptrs_def) (intro exI [of _ "[?sec \<mapsto> Chars []]"], simp)
  note run = heap_load_lines_ok [OF this, of "file_lines body"]
  have heap: "heap_load (Some body) h0 = and_then (heap_load_lines (file_lines body) ?st h2) (\<lambda>(st, h). heap_load_out st h)"
    using h1(1) h2(1) by (simp add: heap_load_def Some)
  show ?thesis
  proof (cases "load_lines (file_lines body) ini_start")
    case (Inl e)
    with run show ?thesis by (simp add: iniparser_load_def Some heap)
  next
    case (Inr vst)
    with run obtain st h3 where h3: "heap_load_lines (file_lines body) ?st h2 = Inr (st, h3)"
      "stands_for ?B st h3 vst (full_line vst)" by auto
    obtain dp h4 where h4: "heap_load_out st h3 = Inr (dp, h4)"
      "if errs vst \<noteq> 0 then dp = None \<and> blocks h4 = ?B
       else \<exists>d. dp = Some d \<and> dict_of d h4 = ini_dict vst \<and> dict_inv d h4 \<and> rest (owned d) h4 = ?B"
      using heap_load_out_ok [OF h3(2)] by blast
    show ?thesis
    proof (cases "errs vst = 0")
      case False
      with h3 h4 Inr show ?thesis by (simp add: iniparser_load_def Some heap ConfigParser_delete_def)
    next
      case True
      with h4(2) obtain d where d: "dp = Some d" "dict_of d h4 = ini_dict vst" "heap_ok d h4" "rest (owned d) h4 = ?B"
        by (auto simp: dict_inv_def)
      obtain h5 where "heap_del (Some d) h4 = Inr h5" "blocks h5 = rest (owned d) h4" by (rule heap_del_ok [OF d(3)])
      with True d h3 h4(1) Inr show ?thesis by (simp add: iniparser_load_def Some heap ConfigParser_delete_def iniparser_freedict_def)
    qed
  qed
qed

theorem iniparser_load_manages_memory_witness:
  "\<exists>h. heap_load (Some (''junk'' @ [NL])) \<lparr>blocks = [1 \<mapsto> Chars ''x''], next_addr = 2\<rparr> = Inr (None, h) \<and>
     blocks h = [1 \<mapsto> Chars ''x'']"
proof -
  have "iniparser_load (Some (''junk'' @ [NL])) = Inr None" by code_simp
  with iniparser_load_manages_memory [of "\<lparr>blocks = [1 \<mapsto> Chars ''x''], next_addr = 2\<rparr>" "Some (''junk'' @ [NL])"]
  show ?thesis by (auto simp: ConfigParser_delete_def)
qed

end
