(* ===== verification/ProtoArray.thy ===== *)
theory ProtoArray
  imports CenterWire
begin

section \<open>Serialising into an array (center\_proto/*.pb.cc, SerializeWithCachedSizesToArray)\<close>

text \<open>
  The members \<open>SerializeWithCachedSizesToArray\<close>, which \<open>SerializeToString\<close> of the library calls on a string it
  has resized to \<open>ByteSize\<close>. Nothing in them looks at the end of the array: that they stay inside it rests on
  \<open>ByteSize\<close>. A write beyond the end is \<open>HeapOverflow\<close>. The theorem shows that the array is overflown exactly when
  it is shorter than \<open>ByteSize\<close>, and that otherwise it holds what \<open>SerializeWithCachedSizes\<close> writes.
\<close>

subsection \<open>Writing at a target\<close>

text \<open>
  A target is a position and the array. \<open>to_array\<close> is what a \<open>Write...ToArray\<close> of the library does with the bytes of
  a field. \<open>MessageHeader\<close> stands for the tag and the size the library writes before an embedded message, the size
  being the one the last call of \<open>ByteSize\<close> has left in \<open>_cached_size_\<close>.
\<close>

type_synonym array_target = "nat \<times> string"

definition to_array :: "string \<Rightarrow> array_target \<Rightarrow> fault + array_target" where
  "to_array bytes t =
     (case t of (i, buf) \<Rightarrow>
        if i + length bytes \<le> length buf
        then Inr (i + length bytes, take i buf @ bytes @ drop (i + length bytes) buf) else Inl HeapOverflow)"

definition opt_to_array :: "('v \<Rightarrow> string) \<Rightarrow> 'v option \<Rightarrow> array_target \<Rightarrow> fault + array_target" where
  "opt_to_array w v t = (case v of None \<Rightarrow> Inr t | Some v \<Rightarrow> to_array (w v) t)"

primrec rep_to_array :: "('v \<Rightarrow> array_target \<Rightarrow> fault + array_target) \<Rightarrow> 'v list \<Rightarrow> array_target \<Rightarrow> fault + array_target" where
  "rep_to_array f [] t = Inr t"
| "rep_to_array f (v # vs) t = and_then (f v t) (rep_to_array f vs)"

definition unknown_to_array :: "string \<Rightarrow> array_target \<Rightarrow> fault + array_target" where
  "unknown_to_array kept t = (if kept \<noteq> [] then to_array kept t else Inr t)"

primrec targets_in_order :: "(array_target \<Rightarrow> fault + array_target) list \<Rightarrow> array_target \<Rightarrow> fault + array_target" where
  "targets_in_order [] t = Inr t"
| "targets_in_order (f # fs) t = and_then (f t) (targets_in_order fs)"

subsection \<open>The messages\<close>

definition RpcClusterServer_ToArray :: "wire_lib \<Rightarrow> RpcClusterServer_pb \<Rightarrow> array_target \<Rightarrow> fault + array_target" where
  "RpcClusterServer_ToArray lib m =
     targets_in_order
       [opt_to_array (\<lambda>v. WriteEnum lib 1 (ClusteAction_code v)) (rcs_cluster_action m),
        opt_to_array (WriteString lib 2) (rcs_cluster_server_addr m),
        opt_to_array (WriteUInt32 lib 3) (rcs_load m),
        opt_to_array (WriteFloat lib 4) (rcs_cpu_used m),
        opt_to_array (WriteInt32 lib 5) (rcs_connection_num m),
        unknown_to_array (rcs_unknown m)]"

definition CenterResponseCluster_ToArray ::
  "wire_lib \<Rightarrow> CenterResponseCluster_pb \<Rightarrow> array_target \<Rightarrow> fault + array_target" where
  "CenterResponseCluster_ToArray lib m =
     targets_in_order
       [opt_to_array (\<lambda>v. WriteEnum lib 1 (ResponseClusterAction_code v)) (crc_center_response_action m),
        rep_to_array (\<lambda>v. to_array (WriteString lib 2 v)) (crc_should_reporter_center m),
        unknown_to_array (crc_unknown m)]"

definition ClientWithCenter_ToArray :: "wire_lib \<Rightarrow> ClientWithCenter_pb \<Rightarrow> array_target \<Rightarrow> fault + array_target" where
  "ClientWithCenter_ToArray lib m =
     targets_in_order
       [opt_to_array (WriteString lib 1) (cwc_from_addr m),
        opt_to_array (\<lambda>v. WriteEnum lib 2 (ClientClusterAction_code v)) (cwc_client_center_action m),
        rep_to_array (\<lambda>v. to_array (WriteString lib 3 v)) (cwc_should_communicate_center m),
        rep_to_array (\<lambda>v. to_array (WriteString lib 4 v)) (cwc_cluster_server_list m),
        unknown_to_array (cwc_unknown m)]"

definition LoadBalancerMetaData_ToArray ::
  "wire_lib \<Rightarrow> LoadBalancerMetaData_pb \<Rightarrow> array_target \<Rightarrow> fault + array_target" where
  "LoadBalancerMetaData_ToArray lib m =
     targets_in_order
       [opt_to_array (WriteUInt32 lib 1) (lbm_vid m),
        opt_to_array (WriteString lib 2) (lbm_server_addr m),
        unknown_to_array (lbm_unknown m)]"

text \<open>An embedded message: its header, and the message itself through its own member.\<close>

definition message_to_array ::
  "(nat \<Rightarrow> nat \<Rightarrow> string) \<Rightarrow> nat \<Rightarrow> ('s \<Rightarrow> nat) \<Rightarrow> ('s \<Rightarrow> array_target \<Rightarrow> fault + array_target) \<Rightarrow>
   's \<Rightarrow> array_target \<Rightarrow> fault + array_target" where
  "message_to_array MessageHeader f cached_size write s =
     targets_in_order [to_array (MessageHeader f (cached_size s)), write s]"

definition CentersProto_ToArray ::
  "wire_lib \<Rightarrow> (nat \<Rightarrow> nat \<Rightarrow> string) \<Rightarrow> CentersProto_pb \<Rightarrow> array_target \<Rightarrow> fault + array_target" where
  "CentersProto_ToArray lib MessageHeader m =
     targets_in_order
       [opt_to_array (WriteString lib 1) (pb_from_center_addr m),
        opt_to_array (\<lambda>v. WriteEnum lib 2 (CenterStatus_code v)) (pb_center_status m),
        opt_to_array (\<lambda>v. WriteEnum lib 3 (CenterAction_code v)) (pb_center_action m),
        opt_to_array (WriteUInt64 lib 4) (pb_start_time m),
        opt_to_array (WriteUInt64 lib 5) (pb_lc_start_time m),
        opt_to_array (WriteUInt64 lib 6) (pb_logical_clock m),
        opt_to_array (WriteString lib 7) (pb_leader_center m),
        rep_to_array (message_to_array MessageHeader 8 (RpcClusterServer_ByteSize lib) (RpcClusterServer_ToArray lib))
          (pb_server_infos_list m),
        rep_to_array (message_to_array MessageHeader 9 (LoadBalancerMetaData_ByteSize lib) (LoadBalancerMetaData_ToArray lib))
          (pb_lb_result m),
        unknown_to_array (pb_unknown m)]"

subsection \<open>What the members write\<close>

text \<open>A member that writes these bytes, if they fit.\<close>

definition puts :: "string \<Rightarrow> (array_target \<Rightarrow> fault + array_target) \<Rightarrow> bool" where
  "puts bytes f \<longleftrightarrow> (\<forall>i buf. i \<le> length buf \<longrightarrow> f (i, buf) = to_array bytes (i, buf))"

lemma puts_to_array: "puts bytes (to_array bytes)"
  by (simp add: puts_def)

lemma puts_Nil: "puts [] Inr"
  by (simp add: puts_def to_array_def)

lemma puts_then:
  assumes "puts a f" "puts b g"
  shows "puts (a @ b) (\<lambda>t. and_then (f t) g)"
  unfolding puts_def
proof (intro allI impI)
  fix i and buf :: string
  assume i: "i \<le> length buf"
  then have f: "f (i, buf) = to_array a (i, buf)" using assms(1) by (simp add: puts_def)
  show "and_then (f (i, buf)) g = to_array (a @ b) (i, buf)"
  proof (cases "i + length a \<le> length buf")
    case True
    let ?buf = "take i buf @ a @ drop (i + length a) buf"
    have "g (i + length a, ?buf) = to_array b (i + length a, ?buf)"
      using assms(2) True i by (simp add: puts_def)
    also have "\<dots> = to_array (a @ b) (i, buf)"
      using True i by (simp add: to_array_def add.assoc add.commute [of "length b"])
    finally show ?thesis using True by (simp add: f to_array_def)
  qed (simp add: f to_array_def)
qed

lemma puts_opt: "puts (opt_field w v) (opt_to_array w v)"
  by (cases v) (simp_all add: puts_def opt_to_array_def to_array_def)

lemma puts_unknown: "puts kept (unknown_to_array kept)"
  by (simp add: puts_def unknown_to_array_def to_array_def)

lemma puts_rep:
  assumes "\<And>v. v \<in> set vs \<Longrightarrow> puts (w v) (f v)"
  shows "puts (rep_field w vs) (rep_to_array f vs)"
  using assms
proof (induction vs)
  case Nil
  then show ?case by (simp add: puts_def to_array_def)
next
  case (Cons v vs)
  then have "puts (w v @ rep_field w vs) (\<lambda>t. and_then (f v t) (rep_to_array f vs))" by (intro puts_then) simp_all
  then show ?case by (simp add: puts_def)
qed

lemma puts_end: "puts a f \<Longrightarrow> puts a (targets_in_order [f])"
  using puts_then [of a f "[]" Inr] by (simp add: puts_def to_array_def)

lemma puts_next: "puts a f \<Longrightarrow> puts b (targets_in_order (g # gs)) \<Longrightarrow> puts (a @ b) (targets_in_order (f # g # gs))"
  using puts_then [of a f b "targets_in_order (g # gs)"] by (simp add: puts_def)

lemmas puts_fields = puts_next puts_end puts_opt puts_rep puts_to_array puts_unknown

lemma RpcClusterServer_puts: "puts (RpcClusterServer_Serialize lib m) (RpcClusterServer_ToArray lib m)"
  unfolding RpcClusterServer_Serialize_def RpcClusterServer_ToArray_def by (intro puts_fields)

lemma CenterResponseCluster_puts: "puts (CenterResponseCluster_Serialize lib m) (CenterResponseCluster_ToArray lib m)"
  unfolding CenterResponseCluster_Serialize_def CenterResponseCluster_ToArray_def by (intro puts_fields)

lemma ClientWithCenter_puts: "puts (ClientWithCenter_Serialize lib m) (ClientWithCenter_ToArray lib m)"
  unfolding ClientWithCenter_Serialize_def ClientWithCenter_ToArray_def by (intro puts_fields)

lemma LoadBalancerMetaData_puts: "puts (LoadBalancerMetaData_Serialize lib m) (LoadBalancerMetaData_ToArray lib m)"
  unfolding LoadBalancerMetaData_Serialize_def LoadBalancerMetaData_ToArray_def by (intro puts_fields)

text \<open>
  The library's promise about embedded messages: \<open>WriteMessage\<close> of theory Protobuf is the header and the message.
\<close>

locale array_format = wire_format lib for lib +
  fixes MessageHeader :: "nat \<Rightarrow> nat \<Rightarrow> string"
  assumes message_header: "WriteMessage lib f s = MessageHeader f (length s) @ s"
begin

lemma puts_message:
  assumes "puts (serial s) (write s)" "length (serial s) = cached_size s"
  shows "puts (WriteMessage lib f (serial s)) (message_to_array MessageHeader f cached_size write s)"
  unfolding message_to_array_def using assms puts_next [OF puts_to_array puts_end]
  by (simp add: message_header)

lemma CentersProto_puts:
  assumes "CentersProto_plain m"
  shows "puts (CentersProto_Serialize lib m) (CentersProto_ToArray lib MessageHeader m)"
proof -
  have "puts (WriteMessage lib 8 (RpcClusterServer_Serialize lib s))
      (message_to_array MessageHeader 8 (RpcClusterServer_ByteSize lib) (RpcClusterServer_ToArray lib) s)"
    if "s \<in> set (pb_server_infos_list m)" for s
    using assms that by (intro puts_message RpcClusterServer_puts RpcClusterServer_size) (simp add: CentersProto_plain_def)
  moreover have "puts (WriteMessage lib 9 (LoadBalancerMetaData_Serialize lib s))
      (message_to_array MessageHeader 9 (LoadBalancerMetaData_ByteSize lib) (LoadBalancerMetaData_ToArray lib) s)" for s
    by (intro puts_message LoadBalancerMetaData_puts LoadBalancerMetaData_size)
  ultimately show ?thesis
    unfolding CentersProto_Serialize_def CentersProto_ToArray_def by (intro puts_fields)
qed

lemma CentersProto_fills:
  assumes "CentersProto_plain m" "i \<le> length buf"
  shows "CentersProto_ToArray lib MessageHeader m (i, buf) =
    (if i + CentersProto_ByteSize lib m \<le> length buf
     then Inr (i + CentersProto_ByteSize lib m,
       take i buf @ CentersProto_Serialize lib m @ drop (i + CentersProto_ByteSize lib m) buf)
     else Inl HeapOverflow)"
  using CentersProto_puts [OF assms(1)] assms(2) CentersProto_size [OF assms(1)]
  by (simp add: puts_def to_array_def)

end

interpretation base128_array: array_format base128 "\<lambda>f n. char_of (8 * f + 2) # varint n"
  by unfold_locales (simp add: base128_def)

subsection \<open>Property\<close>

text \<open>C11: \<open>SerializeWithCachedSizesToArray\<close> of a \<open>CentersProto\<close> with any servers and balancer entries, started at
  any place of an array, overflows it exactly when fewer than \<open>ByteSize\<close> bytes are left; otherwise it returns the
  position \<open>ByteSize\<close> bytes on, the bytes between are those of \<open>SerializeWithCachedSizes\<close>, and no other byte of the
  array has changed. An array of \<open>ByteSize\<close> bytes is filled exactly.\<close>

theorem CentersProto_ToArray_exact:
  assumes "array_format lib MessageHeader" "CentersProto_plain m" "i \<le> length buf"
  shows "CentersProto_ToArray lib MessageHeader m (i, buf) =
      (if i + CentersProto_ByteSize lib m \<le> length buf
       then Inr (i + CentersProto_ByteSize lib m,
         take i buf @ CentersProto_Serialize lib m @ drop (i + CentersProto_ByteSize lib m) buf)
       else Inl HeapOverflow) \<and>
    CentersProto_ToArray lib MessageHeader m (0, replicate (CentersProto_ByteSize lib m) NUL) =
      Inr (CentersProto_ByteSize lib m, CentersProto_Serialize lib m)"
  using array_format.CentersProto_fills [OF assms]
    array_format.CentersProto_fills [OF assms(1,2), of 0 "replicate (CentersProto_ByteSize lib m) NUL"] by simp

lemmas base128_array_format = base128_array.array_format_axioms

theorem CentersProto_ToArray_exact_witness:
  "CentersProto_ToArray base128 (\<lambda>f n. char_of (8 * f + 2) # varint n) demo_pb (0, ''123456789'') = Inl HeapOverflow \<and>
   CentersProto_ToArray base128 (\<lambda>f n. char_of (8 * f + 2) # varint n) demo_pb
      (0, replicate (CentersProto_ByteSize base128 demo_pb) NUL) =
     Inr (CentersProto_ByteSize base128 demo_pb, CentersProto_Serialize base128 demo_pb)"
proof -
  have "CentersProto_plain demo_pb"
    by (simp add: demo_pb_def CentersProto_plain_def RpcClusterServer_plain_def register_pb_def
        CentersProto_Clear_def RpcClusterServer_Clear_def)
  moreover have "\<not> CentersProto_ByteSize base128 demo_pb \<le> 9" by code_simp
  ultimately show ?thesis
    using CentersProto_ToArray_exact [OF base128_array_format, of demo_pb 0 "''123456789''"] by simp
qed

end
