(* ===== verification/EchoProto.thy ===== *)
theory EchoProto
  imports ProtoArray Programs
begin

section \<open>The sample's messages and service (sample/proto/rpc\_sample.pb.h and .pb.cc)\<close>

text \<open>
  The two messages of the sample, generated like those of center\_proto: one optional string each. Then the
  generated service, which finds a method by its index, and the implementation of the sample server. The
  theorem runs the sample: the request the client sets up is serialised, framed, received, parsed, and answered
  by the service; the server does not survive it.
\<close>

subsection \<open>EchoRequest\<close>

record EchoRequest_pb =
  er_request :: "string option"
  er_unknown :: string

definition EchoRequest_Clear :: EchoRequest_pb where
  "EchoRequest_Clear = \<lparr>er_request = None, er_unknown = []\<rparr>"

text \<open>The getter: the empty string, the default of the .proto file, when the field is not set.\<close>

definition EchoRequest_get :: "EchoRequest_pb \<Rightarrow> string" where
  "EchoRequest_get m = case_option [] id (er_request m)"

definition EchoRequest_Serialize :: "wire_lib \<Rightarrow> EchoRequest_pb \<Rightarrow> string" where
  "EchoRequest_Serialize lib m = opt_field (WriteString lib 1) (er_request m) @ er_unknown m"

definition EchoRequest_ToArray :: "wire_lib \<Rightarrow> EchoRequest_pb \<Rightarrow> array_target \<Rightarrow> fault + array_target" where
  "EchoRequest_ToArray lib m =
     targets_in_order [opt_to_array (WriteString lib 1) (er_request m), unknown_to_array (er_unknown m)]"

definition EchoRequest_ByteSize :: "wire_lib \<Rightarrow> EchoRequest_pb \<Rightarrow> nat" where
  "EchoRequest_ByteSize lib m = opt_size (StringSize lib) (er_request m) + length (er_unknown m)"

definition EchoRequest_field :: "wire_lib \<Rightarrow> nat \<Rightarrow> string \<Rightarrow> EchoRequest_pb \<Rightarrow> EchoRequest_pb step option" where
  "EchoRequest_field lib tag input m = Some
     (if tag = 10 then read_into (ReadString lib) (\<lambda>v m. m\<lparr>er_request := Some v\<rparr>) input m else Unusual)"

definition EchoRequest_ParseFromString :: "wire_lib \<Rightarrow> string \<Rightarrow> EchoRequest_pb option option" where
  "EchoRequest_ParseFromString lib =
     parse_string lib (EchoRequest_field lib) (\<lambda>kept m. m\<lparr>er_unknown := er_unknown m @ kept\<rparr>) EchoRequest_Clear"

definition EchoRequest_MergeFrom :: "EchoRequest_pb \<Rightarrow> EchoRequest_pb \<Rightarrow> EchoRequest_pb" where
  "EchoRequest_MergeFrom from_m m =
     \<lparr>er_request = merge_opt (er_request from_m) (er_request m), er_unknown = er_unknown m @ er_unknown from_m\<rparr>"

definition EchoRequest_CopyFrom :: "bool \<Rightarrow> EchoRequest_pb \<Rightarrow> EchoRequest_pb \<Rightarrow> EchoRequest_pb" where
  "EchoRequest_CopyFrom itself from_m m = (if itself then m else EchoRequest_MergeFrom from_m EchoRequest_Clear)"

subsection \<open>EchoResponse\<close>

record EchoResponse_pb =
  es_response :: "string option"
  es_unknown :: string

definition EchoResponse_Clear :: EchoResponse_pb where
  "EchoResponse_Clear = \<lparr>es_response = None, es_unknown = []\<rparr>"

text \<open>The getter: the empty string, the default of the .proto file, when the field is not set.\<close>

definition EchoResponse_get :: "EchoResponse_pb \<Rightarrow> string" where
  "EchoResponse_get m = case_option [] id (es_response m)"

definition EchoResponse_Serialize :: "wire_lib \<Rightarrow> EchoResponse_pb \<Rightarrow> string" where
  "EchoResponse_Serialize lib m = opt_field (WriteString lib 1) (es_response m) @ es_unknown m"

definition EchoResponse_ToArray :: "wire_lib \<Rightarrow> EchoResponse_pb \<Rightarrow> array_target \<Rightarrow> fault + array_target" where
  "EchoResponse_ToArray lib m =
     targets_in_order [opt_to_array (WriteString lib 1) (es_response m), unknown_to_array (es_unknown m)]"

definition EchoResponse_ByteSize :: "wire_lib \<Rightarrow> EchoResponse_pb \<Rightarrow> nat" where
  "EchoResponse_ByteSize lib m = opt_size (StringSize lib) (es_response m) + length (es_unknown m)"

definition EchoResponse_field :: "wire_lib \<Rightarrow> nat \<Rightarrow> string \<Rightarrow> EchoResponse_pb \<Rightarrow> EchoResponse_pb step option" where
  "EchoResponse_field lib tag input m = Some
     (if tag = 10 then read_into (ReadString lib) (\<lambda>v m. m\<lparr>es_response := Some v\<rparr>) input m else Unusual)"

definition EchoResponse_ParseFromString :: "wire_lib \<Rightarrow> string \<Rightarrow> EchoResponse_pb option option" where
  "EchoResponse_ParseFromString lib =
     parse_string lib (EchoResponse_field lib) (\<lambda>kept m. m\<lparr>es_unknown := es_unknown m @ kept\<rparr>) EchoResponse_Clear"

definition EchoResponse_MergeFrom :: "EchoResponse_pb \<Rightarrow> EchoResponse_pb \<Rightarrow> EchoResponse_pb" where
  "EchoResponse_MergeFrom from_m m =
     \<lparr>es_response = merge_opt (es_response from_m) (es_response m), es_unknown = es_unknown m @ es_unknown from_m\<rparr>"

definition EchoResponse_CopyFrom :: "bool \<Rightarrow> EchoResponse_pb \<Rightarrow> EchoResponse_pb \<Rightarrow> EchoResponse_pb" where
  "EchoResponse_CopyFrom itself from_m m = (if itself then m else EchoResponse_MergeFrom from_m EchoResponse_Clear)"

subsection \<open>EchoService\<close>

text \<open>
  The generated base class. A controller is a value its virtual \<open>SetFailed\<close> changes, a null one is \<open>None\<close>; so is the
  closure \<open>done\<close>, which here changes the controller. \<open>echo\<close> is the virtual \<open>Echo\<close> the switch calls; another index
  ends the program.
\<close>

definition EchoService_Echo ::
  "(string \<Rightarrow> 'c \<Rightarrow> 'c) \<Rightarrow> 'c option \<Rightarrow> ('c \<Rightarrow> 'c) option \<Rightarrow> EchoResponse_pb \<Rightarrow> fault + ('c \<times> EchoResponse_pb)" where
  "EchoService_Echo fails_with controller done_p response =
     (case controller of
        None \<Rightarrow> Inl NullDeref
      | Some c \<Rightarrow>
          (let c = fails_with ''Method Echo() not implemented.'' c in
           (case done_p of None \<Rightarrow> Inl NullDeref | Some run \<Rightarrow> Inr (run c, response))))"

definition EchoService_CallMethod ::
  "nat \<Rightarrow> (EchoRequest_pb \<Rightarrow> EchoResponse_pb \<Rightarrow> fault + 'r) \<Rightarrow> EchoRequest_pb \<Rightarrow> EchoResponse_pb \<Rightarrow> fault + 'r" where
  "EchoService_CallMethod index echo request response =
     (if index = 0 then echo request response else Inl CheckFailed)"

definition EchoService_GetRequestPrototype :: "nat \<Rightarrow> fault + EchoRequest_pb" where
  "EchoService_GetRequestPrototype index = (if index = 0 then Inr EchoRequest_Clear else Inl CheckFailed)"

definition EchoService_GetResponsePrototype :: "nat \<Rightarrow> fault + EchoResponse_pb" where
  "EchoService_GetResponsePrototype index = (if index = 0 then Inr EchoResponse_Clear else Inl CheckFailed)"

text \<open>\<open>EchoServiceImpl\<close> of the sample server, on the messages; the texts in them are those of theory Programs.\<close>

definition EchoServiceImpl_Echo :: "EchoRequest_pb \<Rightarrow> EchoResponse_pb \<Rightarrow> EchoResponse_pb" where
  "EchoServiceImpl_Echo request response = response\<lparr>es_response := Some (Echo (EchoRequest_get request))\<rparr>"

text \<open>
  What the server needs of the messages to run a call: the text of a request, and the bytes of a response with a
  text in it.
\<close>

definition echo_parse :: "wire_lib \<Rightarrow> string \<Rightarrow> string option" where
  "echo_parse lib s = parsed EchoRequest_get (EchoRequest_ParseFromString lib s)"

definition echo_serialize :: "wire_lib \<Rightarrow> string \<Rightarrow> string option" where
  "echo_serialize lib words = Some (EchoResponse_Serialize lib (EchoResponse_Clear\<lparr>es_response := Some words\<rparr>))"

subsection \<open>The messages on the wire\<close>

lemma echo_handled:
  "handled (EchoRequest_field lib) (8 * 1 + 2) (ReadString lib) (\<lambda>v m. m\<lparr>er_request := Some v\<rparr>)"
  "handled (EchoResponse_field lib) (8 * 1 + 2) (ReadString lib) (\<lambda>v m. m\<lparr>es_response := Some v\<rparr>)"
  by (simp_all add: handled_def EchoRequest_field_def EchoResponse_field_def)

lemma echo_merge_Clear [simp]:
  "EchoRequest_MergeFrom m1 EchoRequest_Clear = m1" "EchoResponse_MergeFrom m2 EchoResponse_Clear = m2"
  by (simp_all add: EchoRequest_MergeFrom_def EchoRequest_Clear_def EchoResponse_MergeFrom_def EchoResponse_Clear_def
      merge_opt_def)

lemma echo_puts:
  "puts (EchoRequest_Serialize lib m1) (EchoRequest_ToArray lib m1)"
  "puts (EchoResponse_Serialize lib m2) (EchoResponse_ToArray lib m2)"
  unfolding EchoRequest_Serialize_def EchoRequest_ToArray_def EchoResponse_Serialize_def EchoResponse_ToArray_def
  by (intro puts_fields)+

context wire_format
begin

lemma EchoRequest_consumes:
  assumes "er_unknown m = []"
  shows "consumes lib (EchoRequest_field lib) (EchoRequest_Serialize lib m) (EchoRequest_MergeFrom m)"
proof -
  have "assign_opt (\<lambda>v m. m\<lparr>er_request := Some v\<rparr>) (er_request m) = EchoRequest_MergeFrom m"
    using assms by (simp add: fun_eq_iff EchoRequest_MergeFrom_def assign_opt_def merge_opt_def split: option.splits)
  then show ?thesis
    using consumes_opt [OF string_codec echo_handled(1), of "er_request m"] assms by (simp add: EchoRequest_Serialize_def)
qed

lemma EchoResponse_consumes:
  assumes "es_unknown m = []"
  shows "consumes lib (EchoResponse_field lib) (EchoResponse_Serialize lib m) (EchoResponse_MergeFrom m)"
proof -
  have "assign_opt (\<lambda>v m. m\<lparr>es_response := Some v\<rparr>) (es_response m) = EchoResponse_MergeFrom m"
    using assms by (simp add: fun_eq_iff EchoResponse_MergeFrom_def assign_opt_def merge_opt_def split: option.splits)
  then show ?thesis
    using consumes_opt [OF string_codec echo_handled(2), of "es_response m"] assms by (simp add: EchoResponse_Serialize_def)
qed

lemma EchoRequest_roundtrip:
  assumes "er_unknown m = []" "length (EchoRequest_Serialize lib m) < TotalBytesLimit"
  shows "EchoRequest_ParseFromString lib (EchoRequest_Serialize lib m) = Some (Some m)"
  unfolding EchoRequest_ParseFromString_def
  using consumes_parse [OF EchoRequest_consumes [OF assms(1)] assms(2)] by simp

lemma EchoResponse_roundtrip:
  assumes "es_unknown m = []" "length (EchoResponse_Serialize lib m) < TotalBytesLimit"
  shows "EchoResponse_ParseFromString lib (EchoResponse_Serialize lib m) = Some (Some m)"
  unfolding EchoResponse_ParseFromString_def
  using consumes_parse [OF EchoResponse_consumes [OF assms(1)] assms(2)] by simp

lemma echo_sizes:
  "length (EchoRequest_Serialize lib m1) = EchoRequest_ByteSize lib m1"
  "length (EchoResponse_Serialize lib m2) = EchoResponse_ByteSize lib m2"
  by (simp_all add: EchoRequest_Serialize_def EchoRequest_ByteSize_def EchoResponse_Serialize_def
      EchoResponse_ByteSize_def field_lengths)

text \<open>The request of the sample client is a message whose bytes are no zero bytes, and which the server parses.\<close>

lemma EchoRequest_parsed:
  assumes "length (EchoRequest_Serialize lib (EchoRequest_Clear\<lparr>er_request := Some words\<rparr>)) < TotalBytesLimit"
  shows "echo_parse lib (EchoRequest_Serialize lib (EchoRequest_Clear\<lparr>er_request := Some words\<rparr>)) = Some words"
  using EchoRequest_roundtrip [OF _ assms] by (simp add: echo_parse_def parsed_def EchoRequest_get_def EchoRequest_Clear_def)

lemma EchoRequest_nul_free:
  "nul_free words \<Longrightarrow> words \<noteq> [] \<Longrightarrow> nul_free (EchoRequest_Serialize lib (EchoRequest_Clear\<lparr>er_request := Some words\<rparr>))"
  using string_nul [of 1 words] by (simp add: EchoRequest_Serialize_def EchoRequest_Clear_def)

end

subsection \<open>Property\<close>

text \<open>C12: The sample, client and server as they are in the repository, both without a configuration file, with
  the messages as generated. Let the request be a text without zero bytes, its serialisation of a length that is no
  multiple of 511 (and, as the answer, below protobuf's limit), and let the client connect and all its blocks be
  sent and received. Then the server finds the method, parses the text back, and goes through a null pointer. The
  client, whose connection then ends or breaks, prints no error and has an empty answer if the pointer to the
  heartbeat, which its channel does not initialise, happens to be null, and otherwise goes through a wild pointer
  before it sends anything. The service itself would have answered with a message that parses to the echo of
  the text.\<close>

theorem sample_request_crashes_server:
  fixes words :: string
  defines "request \<equiv> EchoRequest_Clear\<lparr>er_request := Some words\<rparr>"
  assumes "wire_format lib" "sample_server no_config create_ok (echo_parse lib) (echo_serialize lib) = Inr s"
    and "nul_free words" "words \<noteq> []" "EchoRequest_ByteSize lib request mod (BODY_SIZE - 1) \<noteq> 0"
    and "EchoRequest_ByteSize lib request < TotalBytesLimit" "EchoResponse_ByteSize lib
      (EchoServiceImpl_Echo request EchoResponse_Clear) < TotalBytesLimit"
    and "\<forall>j. call_sends env j = int MetaSize" "0 \<le> tcp env 0" "has_response env"
    and "request_str env = Some (EchoRequest_Serialize lib request)" "call_receives env = [Got []] \<or> call_receives env = [RecvFail]"
    and "parse_response env [] = Some []"
  shows "RpcProcessor (map Got (sent (RpcSend (call_sends env) (sint (BKDRHash (c_str (method_full_name echo_params))))
        (EchoRequest_Serialize lib request) False))) sys (Some (new_params sfd)) s = Inl NullDeref \<and>
    SysncCall no_config HbNull garbage_fd cc hb env (Suc fuel) = Inr (False, []) \<and>
    SysncCall no_config HbWild garbage_fd cc hb env (Suc fuel) = Inl UseAfterFree \<and>
    EchoService_CallMethod 0 (\<lambda>q r. Inr (EchoServiceImpl_Echo q r)) request EchoResponse_Clear =
      Inr (EchoServiceImpl_Echo request EchoResponse_Clear) \<and>
    parsed EchoResponse_get (EchoResponse_ParseFromString lib
      (EchoResponse_Serialize lib (EchoServiceImpl_Echo request EchoResponse_Clear))) = Some (''sevice echo is : '' @ words)"
proof -
  note sizes = wire_format.echo_sizes [OF assms(2)]
  have limit: "length (EchoRequest_Serialize lib request) < TotalBytesLimit" using assms(7) by (simp add: sizes)
  then have small: "length (EchoRequest_Serialize lib request) < 2 ^ 31" by (simp add: TotalBytesLimit_def)
  have parse: "echo_parse lib (EchoRequest_Serialize lib request) = Some words"
    using wire_format.EchoRequest_parsed [OF assms(2)] limit by (simp add: request_def)
  have nul: "nul_free (EchoRequest_Serialize lib request)"
    using wire_format.EchoRequest_nul_free [OF assms(2,4,5)] by (simp add: request_def)
  have mult: "length (EchoRequest_Serialize lib request) mod (BODY_SIZE - 1) \<noteq> 0" using assms(6) by (simp add: sizes)
  note crash = sample_call_crashes_server [OF assms(3) parse assms(9) nul mult small assms(10,11,12,13,14)]
  have "EchoResponse_ParseFromString lib (EchoResponse_Serialize lib (EchoServiceImpl_Echo request EchoResponse_Clear)) =
      Some (Some (EchoServiceImpl_Echo request EchoResponse_Clear))"
    using wire_format.EchoResponse_roundtrip [OF assms(2)] assms(8)
    by (simp add: sizes EchoServiceImpl_Echo_def EchoResponse_Clear_def)
  then show ?thesis
    using crash by (simp add: EchoService_CallMethod_def parsed_def EchoServiceImpl_Echo_def EchoResponse_get_def
        EchoRequest_get_def Echo_def request_def)
qed

definition demo_request :: EchoRequest_pb where
  "demo_request = EchoRequest_Clear\<lparr>er_request := Some ''Hello!''\<rparr>"

theorem sample_request_crashes_server_witness:
  "\<exists>s. sample_server no_config True (echo_parse base128) (echo_serialize base128) = Inr s \<and>
     RpcProcessor (map Got (sent (RpcSend (\<lambda>_. 516) (sint (BKDRHash (c_str (method_full_name echo_params))))
        (EchoRequest_Serialize base128 demo_request) False))) (\<lambda>_. 516) (Some (new_params 7)) s = Inl NullDeref \<and>
     parsed EchoResponse_get (EchoResponse_ParseFromString base128 (EchoResponse_Serialize base128
       (EchoServiceImpl_Echo demo_request EchoResponse_Clear))) = Some ''sevice echo is : Hello!''"
proof -
  obtain s where s: "sample_server no_config True (echo_parse base128) (echo_serialize base128) = Inr s"
    using sample_server_starts by blast
  have sizes: "EchoRequest_ByteSize base128 demo_request = 8"
    "EchoResponse_ByteSize base128 (EchoServiceImpl_Echo demo_request EchoResponse_Clear) = 25"
    by code_simp+
  let ?env = "(demo_call (\<lambda>_. 5) [Got []])\<lparr>request_str := Some (EchoRequest_Serialize base128 demo_request)\<rparr>"
  show ?thesis
    using s sample_request_crashes_server [OF base128_wire_format s, of "''Hello!''" ?env "\<lambda>_. 516" 7, folded demo_request_def] sizes
    by (simp add: nul_free_def TotalBytesLimit_def)
qed

end
