(* ===== verification/ProtoFields.thy ===== *)
theory ProtoFields
  imports Protobuf DictionaryHeap
begin

section \<open>The objects behind the messages\<close>

text \<open>
  In theory Protobuf a message is a record of options. The generated classes keep it otherwise: a word of
  has-bits, the fields whether set or not, and for a string field a pointer, either to the one empty string all
  messages share or to a string of the message's own. This theory has what the generated accessors have in
  common, and the locale \<open>generated_message\<close> with what a generated class promises to a program that has any
  number of its objects: they behave as the messages of theory Protobuf, no string is used after it was deleted,
  no two objects share one, and the destructors give back every one of them.
\<close>

unbundle bit_operations_syntax

subsection \<open>Has-bits\<close>

definition has_bit :: "u32 \<Rightarrow> u32 \<Rightarrow> bool" where
  "has_bit flag w \<longleftrightarrow> w AND flag \<noteq> 0"

definition set_has_bit :: "u32 \<Rightarrow> u32 \<Rightarrow> u32" where
  "set_has_bit flag w = w OR flag"

definition clear_has_bit :: "u32 \<Rightarrow> u32 \<Rightarrow> u32" where
  "clear_has_bit flag w = w AND NOT flag"

lemma has_bit_set: "flag AND flag' = 0 \<Longrightarrow> has_bit flag (set_has_bit flag' w) = has_bit flag w"
  by (simp add: has_bit_def set_has_bit_def bit.conj_disj_distrib2 and.commute [of flag' flag])

lemma has_bit_set_same: "flag \<noteq> 0 \<Longrightarrow> has_bit flag (set_has_bit flag w)"
  by (simp add: has_bit_def set_has_bit_def bit.conj_disj_distrib2)

lemma has_bit_clear:
  assumes "flag AND flag' = 0"
  shows "has_bit flag (clear_has_bit flag' w) = has_bit flag w"
proof -
  have "\<not> (bit flag n \<and> bit flag' n)" for n using assms by (metis bit_0_eq bit_and_iff bot_apply bot_bool_def)
  then have "(w AND NOT flag') AND flag = w AND flag" by (intro bit_word_eqI) (auto simp: bit_simps)
  then show ?thesis by (simp add: has_bit_def clear_has_bit_def)
qed

lemma has_bit_clear_same: "\<not> has_bit flag (clear_has_bit flag w)"
  by (simp add: has_bit_def clear_has_bit_def and.assoc)

lemma has_bit_0 [simp]: "\<not> has_bit flag 0"
  by (simp add: has_bit_def)

lemma has_bit_within:
  assumes "has_bit flag w" "flag AND within = flag"
  shows "has_bit within w"
  unfolding has_bit_def
proof
  assume "w AND within = 0"
  then have "w AND (flag AND within) = 0" by (simp add: and.left_commute [of w flag])
  with assms show False by (simp add: has_bit_def)
qed

lemma has_bit_outside: "\<not> has_bit within w \<Longrightarrow> flag AND within = flag \<Longrightarrow> \<not> has_bit flag w"
  using has_bit_within by blast

lemmas has_bit_simps = has_bit_set has_bit_set_same has_bit_clear has_bit_clear_same

definition field_if :: "bool \<Rightarrow> 'v \<Rightarrow> 'v option" where
  "field_if b v = (if b then Some v else None)"

lemma field_if_simps [simp]: "field_if True v = Some v" "field_if False v = None"
  by (simp_all add: field_if_def)

subsection \<open>String fields\<close>

text \<open>The address of the empty string all messages share; null is the pointer \<open>None\<close>.\<close>

definition GetEmptyString :: nat where
  "GetEmptyString = 0"

text \<open>
  What the accessors of a string field do with its pointer \<open>p\<close>: a string of its own when it has none yet, as
  in \<open>mutable_\<close>, the assignment of \<open>set_\<close>, \<open>clear_\<close>, \<open>release_\<close>, \<open>set_allocated_\<close>, and the part
  of \<open>SharedDtor\<close>.
\<close>

definition string_mutable :: "nat \<Rightarrow> heap \<Rightarrow> nat \<times> heap" where
  "string_mutable p h = (if p = GetEmptyString then malloc (Chars []) h else (p, h))"

definition string_assign :: "nat \<Rightarrow> string \<Rightarrow> heap \<Rightarrow> fault + (nat \<times> heap)" where
  "string_assign p v h =
     (case string_mutable p h of (p, h) \<Rightarrow> and_then (put_chars p v h) (\<lambda>h. Inr (p, h)))"

definition string_clear :: "nat \<Rightarrow> heap \<Rightarrow> fault + heap" where
  "string_clear p h = (if p \<noteq> GetEmptyString then put_chars p [] h else Inr h)"

definition string_delete :: "nat \<Rightarrow> heap \<Rightarrow> fault + heap" where
  "string_delete p h = (if p \<noteq> GetEmptyString then release p h else Inr h)"

definition string_release :: "nat \<Rightarrow> nat option \<times> nat" where
  "string_release p = (if p = GetEmptyString then (None, p) else (Some p, GetEmptyString))"

text \<open>The new pointer, and whether the field is set now.\<close>

definition string_set_allocated :: "nat \<Rightarrow> nat option \<Rightarrow> heap \<Rightarrow> fault + (bool \<times> nat \<times> heap)" where
  "string_set_allocated p given h =
     and_then (string_delete p h) (\<lambda>h.
       Inr (case given of None \<Rightarrow> (False, GetEmptyString, h) | Some q \<Rightarrow> (True, q, h)))"

text \<open>\<open>assign\<close> from a buffer of a given size.\<close>

definition sized :: "string \<Rightarrow> nat \<Rightarrow> fault + string" where
  "sized buf n = (if length buf < n then Inl BufferOverRead else Inr (take n buf))"

subsection \<open>Programs over one object\<close>

type_synonym 'm member = "'m \<Rightarrow> heap \<Rightarrow> fault + ('m \<times> heap)"

definition pure_member :: "('m \<Rightarrow> 'm) \<Rightarrow> 'm member" where
  "pure_member f m h = Inr (f m, h)"

definition member_if :: "bool \<Rightarrow> 'm member \<Rightarrow> 'm member" where
  "member_if b f m h = (if b then f m h else Inr (m, h))"

primrec in_order :: "'m member list \<Rightarrow> 'm member" where
  "in_order [] m h = Inr (m, h)"
| "in_order (f # fs) m h = and_then (f m h) (\<lambda>(m, h). in_order fs m h)"

subsection \<open>Programs over many objects\<close>

text \<open>A generated class: the constructor, \<open>Clear\<close>, \<open>MergeFrom\<close>, \<open>Swap\<close>, the destructor.\<close>

record 'm message_class =
  new_object :: 'm
  clear_member :: "'m member"
  merge_member :: "'m \<Rightarrow> 'm member"
  swap_members :: "'m \<Rightarrow> 'm \<Rightarrow> 'm \<times> 'm"
  delete_object :: "'m \<Rightarrow> heap \<Rightarrow> fault + heap"

text \<open>
  What a program does with its objects, which are numbered: a new one, a call of an accessor together with what
  it does to the message, \<open>Clear\<close>, \<open>MergeFrom\<close> and \<open>CopyFrom\<close> and the copy constructor, \<open>Swap\<close>.
\<close>

datatype ('m, 'v) object_op =
    Make
  | Access nat "'m member" "'v \<Rightarrow> 'v"
  | ClearAt nat
  | MergeInto nat nat
  | CopyInto nat nat
  | MakeCopy nat
  | SwapAt nat nat

definition update_at :: "nat \<Rightarrow> 'm member \<Rightarrow> 'm list \<times> heap \<Rightarrow> fault + ('m list \<times> heap)" where
  "update_at i f s =
     (case s of (ms, h) \<Rightarrow>
        if i < length ms then and_then (f (ms ! i) h) (\<lambda>(m, h). Inr (ms[i := m], h)) else Inr (ms, h))"

definition copy_member :: "'m message_class \<Rightarrow> 'm \<Rightarrow> 'm member" where
  "copy_member c from_m = in_order [clear_member c, merge_member c from_m]"

definition object_step :: "'m message_class \<Rightarrow> ('m, 'v) object_op \<Rightarrow> 'm list \<times> heap \<Rightarrow> fault + ('m list \<times> heap)" where
  "object_step c x s =
     (case s of (ms, h) \<Rightarrow>
        (case x of
           Make \<Rightarrow> Inr (ms @ [new_object c], h)
         | Access i f g \<Rightarrow> update_at i f s
         | ClearAt i \<Rightarrow> update_at i (clear_member c) s
         | MergeInto i j \<Rightarrow>
             if i = j then Inl CheckFailed
             else if j < length ms then update_at i (merge_member c (ms ! j)) s else Inr s
         | CopyInto i j \<Rightarrow>
             if i = j then Inr s
             else if j < length ms then update_at i (copy_member c (ms ! j)) s else Inr s
         | MakeCopy j \<Rightarrow>
             if j < length ms
             then and_then (merge_member c (ms ! j) (new_object c) h) (\<lambda>(m, h). Inr (ms @ [m], h)) else Inr s
         | SwapAt i j \<Rightarrow>
             if i = j \<or> length ms \<le> i \<or> length ms \<le> j then Inr s
             else (case swap_members c (ms ! i) (ms ! j) of (a, b) \<Rightarrow> Inr (ms[i := a, j := b], h))))"

primrec object_run :: "'m message_class \<Rightarrow> ('m, 'v) object_op list \<Rightarrow> 'm list \<times> heap \<Rightarrow> fault + ('m list \<times> heap)" where
  "object_run c [] s = Inr s"
| "object_run c (x # xs) s = and_then (object_step c x s) (object_run c xs)"

primrec delete_objects :: "'m message_class \<Rightarrow> 'm list \<Rightarrow> heap \<Rightarrow> fault + heap" where
  "delete_objects c [] h = Inr h"
| "delete_objects c (m # ms) h = and_then (delete_object c m h) (delete_objects c ms)"

text \<open>The same program over values.\<close>

definition value_at_op :: "nat \<Rightarrow> ('v \<Rightarrow> 'v) \<Rightarrow> 'v list \<Rightarrow> 'v list" where
  "value_at_op i f vs = (if i < length vs then vs[i := f (vs ! i)] else vs)"

definition value_step :: "'v \<Rightarrow> ('v \<Rightarrow> 'v \<Rightarrow> 'v) \<Rightarrow> ('m, 'v) object_op \<Rightarrow> 'v list \<Rightarrow> 'v list" where
  "value_step cleared merge x vs =
     (case x of
        Make \<Rightarrow> vs @ [cleared]
      | Access i f g \<Rightarrow> value_at_op i g vs
      | ClearAt i \<Rightarrow> value_at_op i (\<lambda>_. cleared) vs
      | MergeInto i j \<Rightarrow> if j < length vs then value_at_op i (merge (vs ! j)) vs else vs
      | CopyInto i j \<Rightarrow> if i \<noteq> j \<and> j < length vs then value_at_op i (\<lambda>_. merge (vs ! j) cleared) vs else vs
      | MakeCopy j \<Rightarrow> if j < length vs then vs @ [merge (vs ! j) cleared] else vs
      | SwapAt i j \<Rightarrow> if i < length vs \<and> j < length vs then vs[i := vs ! j, j := vs ! i] else vs)"

subsection \<open>The strings of an object\<close>

definition own_strings :: "nat list \<Rightarrow> nat multiset" where
  "own_strings ps = filter_mset (\<lambda>p. p \<noteq> GetEmptyString) (mset ps)"

definition strings_ok :: "nat list \<Rightarrow> heap \<Rightarrow> bool" where
  "strings_ok ps h \<longleftrightarrow>
     mem_ok (own_strings ps) h \<and> blocks h GetEmptyString = Some (Chars []) \<and>
     (\<forall>p\<in>set ps. \<exists>s. blocks h p = Some (Chars s))"

lemma own_strings_simps [simp]:
  "own_strings [] = {#}"
  "own_strings (p # ps) = (if p = GetEmptyString then own_strings ps else add_mset p (own_strings ps))"
  "own_strings (ps @ qs) = own_strings ps + own_strings qs"
  by (simp_all add: own_strings_def)

lemma set_own_strings [simp]: "set_mset (own_strings ps) = {p \<in> set ps. p \<noteq> GetEmptyString}"
  by (auto simp: own_strings_def)

lemma strings_okD:
  assumes "strings_ok (ps @ p # qs) h" "p \<noteq> GetEmptyString"
  shows "p \<notin> set ps" "p \<notin> set qs"
proof -
  have "count (own_strings (ps @ p # qs)) p \<le> 1" using assms(1) by (simp only: strings_ok_def mem_ok_def)
  then have "count (own_strings (ps @ qs)) p = 0" using assms(2) by simp
  then show "p \<notin> set ps" "p \<notin> set qs" using assms(2) by (simp_all add: count_eq_zero_iff flip: not_in_iff)
qed

text \<open>Writing into a string, and taking a new one in the place of the shared one.\<close>

lemma put_string_ok:
  assumes "strings_ok (ps @ p # qs) h" "p \<noteq> GetEmptyString"
  obtains h' where "put_chars p v h = Inr h'" "strings_ok (ps @ p # qs) h'"
    "rest (own_strings (ps @ p # qs)) h' = rest (own_strings (ps @ p # qs)) h"
    "blocks h' p = Some (Chars v)" "\<And>x. x \<in> set ps \<union> set qs \<Longrightarrow> blocks h' x = blocks h x"
proof -
  let ?h = "h\<lparr>blocks := (blocks h)(p \<mapsto> Chars v)\<rparr>"
  obtain s where "blocks h p = Some (Chars s)" using assms(1) by (auto simp: strings_ok_def)
  then have "put_chars p v h = Inr ?h" by (simp add: put_chars_def)
  moreover have "strings_ok (ps @ p # qs) ?h" using assms by (auto simp: strings_ok_def mem_ok_def)
  moreover have "rest (own_strings (ps @ p # qs)) ?h = rest (own_strings (ps @ p # qs)) h"
    using assms(2) by (auto simp: rest_def restrict_map_def fun_eq_iff)
  moreover have "blocks ?h x = blocks h x" if "x \<in> set ps \<union> set qs" for x
    using that strings_okD [OF assms] by auto
  ultimately show ?thesis by (intro that [of ?h]) simp_all
qed

lemma string_mutable_ok:
  assumes "strings_ok (ps @ p # qs) h"
  obtains q h' where "string_mutable p h = (q, h')" "strings_ok (ps @ q # qs) h'" "q \<noteq> GetEmptyString"
    "rest (own_strings (ps @ q # qs)) h' = rest (own_strings (ps @ p # qs)) h"
    "blocks h' q = blocks h p" "\<And>x. x \<in> set ps \<union> set qs \<Longrightarrow> blocks h' x = blocks h x"
proof (cases "p = GetEmptyString")
  case True
  obtain q h' where m: "malloc (Chars []) h = (q, h')" by (cases "malloc (Chars []) h")
  have ok: "mem_ok (own_strings (ps @ qs)) h" "blocks h GetEmptyString = Some (Chars [])"
    using assms True by (simp_all add: strings_ok_def)
  note new = mem_ok_malloc [OF ok(1) m]
  have q: "q = next_addr h" "blocks h' = (blocks h)(q \<mapsto> Chars [])" using m by (auto simp: malloc_def)
  then have fresh: "blocks h q = None" using ok(1) by (simp add: mem_ok_def)
  moreover have "\<forall>x \<in> set ps \<union> set qs. blocks h x \<noteq> None" using assms by (fastforce simp: strings_ok_def)
  ultimately have q': "q \<noteq> GetEmptyString" "q \<notin> set ps" "q \<notin> set qs"
    using ok(2) by (metis UnCI option.distinct(1))+
  have "strings_ok (ps @ q # qs) h'" using new(1) q q' assms ok(2) by (auto simp: strings_ok_def)
  moreover have "blocks h' x = blocks h x" if "x \<in> set ps \<union> set qs" for x using that q' q(2) by auto
  ultimately show ?thesis using q' new(2) ok(2) True q by (intro that [of q h']) (simp_all add: string_mutable_def m)
next
  case False
  with that [of p h] assms show ?thesis by (simp add: string_mutable_def)
qed

lemma string_assign_ok:
  assumes "strings_ok (ps @ p # qs) h"
  obtains q h' where "string_assign p v h = Inr (q, h')" "strings_ok (ps @ q # qs) h'" "q \<noteq> GetEmptyString"
    "rest (own_strings (ps @ q # qs)) h' = rest (own_strings (ps @ p # qs)) h"
    "blocks h' q = Some (Chars v)" "\<And>x. x \<in> set ps \<union> set qs \<Longrightarrow> blocks h' x = blocks h x"
proof -
  obtain q h1 where m: "string_mutable p h = (q, h1)" "strings_ok (ps @ q # qs) h1" "q \<noteq> GetEmptyString"
    "rest (own_strings (ps @ q # qs)) h1 = rest (own_strings (ps @ p # qs)) h"
    "blocks h1 q = blocks h p" "\<And>x. x \<in> set ps \<union> set qs \<Longrightarrow> blocks h1 x = blocks h x"
    using assms by (rule string_mutable_ok) blast
  obtain h' where "put_chars q v h1 = Inr h'" "strings_ok (ps @ q # qs) h'"
    "rest (own_strings (ps @ q # qs)) h' = rest (own_strings (ps @ q # qs)) h1"
    "blocks h' q = Some (Chars v)" "\<And>x. x \<in> set ps \<union> set qs \<Longrightarrow> blocks h' x = blocks h1 x"
    using m(2,3) by (rule put_string_ok) blast
  with that [of q h'] m show ?thesis by (simp add: string_assign_def)
qed

lemma string_clear_ok:
  assumes "strings_ok (ps @ p # qs) h"
  obtains h' where "string_clear p h = Inr h'" "strings_ok (ps @ p # qs) h'"
    "rest (own_strings (ps @ p # qs)) h' = rest (own_strings (ps @ p # qs)) h"
    "blocks h' p = Some (Chars [])" "\<And>x. x \<in> set ps \<union> set qs \<Longrightarrow> blocks h' x = blocks h x"
proof (cases "p = GetEmptyString")
  case True
  with that [of h] assms show ?thesis by (simp add: string_clear_def strings_ok_def)
next
  case False
  obtain h' where "put_chars p [] h = Inr h'" "strings_ok (ps @ p # qs) h'"
    "rest (own_strings (ps @ p # qs)) h' = rest (own_strings (ps @ p # qs)) h"
    "blocks h' p = Some (Chars [])" "\<And>x. x \<in> set ps \<union> set qs \<Longrightarrow> blocks h' x = blocks h x"
    by (rule put_string_ok [OF assms False, of "[]"]) blast
  with that [of h'] False show ?thesis by (simp add: string_clear_def)
qed

lemma string_delete_ok:
  assumes "strings_ok (ps @ p # qs) h"
  obtains h' where "string_delete p h = Inr h'" "strings_ok (ps @ qs) h'"
    "rest (own_strings (ps @ qs)) h' = rest (own_strings (ps @ p # qs)) h"
    "\<And>x. x \<in> set ps \<union> set qs \<Longrightarrow> blocks h' x = blocks h x"
proof (cases "p = GetEmptyString")
  case True
  with that [of h] assms show ?thesis by (simp add: string_delete_def strings_ok_def)
next
  case False
  then have "mem_ok (add_mset p (own_strings (ps @ qs))) h" using assms by (simp add: strings_ok_def)
  then obtain h' where h': "release p h = Inr h'" "mem_ok (own_strings (ps @ qs)) h'"
    "rest (own_strings (ps @ qs)) h' = rest (add_mset p (own_strings (ps @ qs))) h"
    by (rule mem_ok_release) blast
  then have b: "blocks h' = (blocks h)(p := None)" by (auto simp: release_def split: option.splits)
  have "strings_ok (ps @ qs) h'"
    using h'(2) b False strings_okD [OF assms False] assms by (auto simp: strings_ok_def)
  moreover have "blocks h' x = blocks h x" if "x \<in> set ps \<union> set qs" for x
    using that b strings_okD [OF assms False] by auto
  ultimately show ?thesis using h' False by (intro that [of h']) (simp_all add: string_delete_def)
qed

end
