(* ===== verification/ProtoClasses.thy ===== *)
theory ProtoClasses
  imports ProtoFields
begin

section \<open>What a generated class promises\<close>

text \<open>
  The contract between a generated class and a program that uses its objects, as two locales. In
  \<open>string_message\<close> an object is known by the pointers of its string fields: what it is worth as a message
  depends on nothing else of the heap. In \<open>generated_message\<close> the members of the class keep to the strings of
  their own object. A program with any number of objects then sees messages of theory Protobuf.
\<close>

subsection \<open>One object\<close>

text \<open>
  The strings of an object are there, each its own; \<open>yields\<close> says that a member ends, leaves the object in order
  with a given value, and leaves the rest of the heap alone.
\<close>

definition msg_ok :: "('m \<Rightarrow> nat list) \<Rightarrow> ('m \<Rightarrow> heap \<Rightarrow> bool) \<Rightarrow> 'm \<Rightarrow> heap \<Rightarrow> bool" where
  "msg_ok strs fits m h \<longleftrightarrow> strings_ok (strs m) h \<and> fits m h"

definition yields ::
  "('m \<Rightarrow> nat list) \<Rightarrow> ('m \<Rightarrow> heap \<Rightarrow> bool) \<Rightarrow> ('m \<Rightarrow> heap \<Rightarrow> 'v) \<Rightarrow> 'm \<Rightarrow> heap \<Rightarrow> fault + ('m \<times> heap) \<Rightarrow> 'v \<Rightarrow> bool" where
  "yields strs fits val m h r w \<longleftrightarrow>
     (\<exists>m' h'. r = Inr (m', h') \<and> msg_ok strs fits m' h' \<and>
        rest (own_strings (strs m')) h' = rest (own_strings (strs m)) h \<and> val m' h' = w)"

definition apart :: "('m \<Rightarrow> nat list) \<Rightarrow> 'm \<Rightarrow> 'm \<Rightarrow> bool" where
  "apart strs m n \<longleftrightarrow> set_mset (own_strings (strs m)) \<inter> set_mset (own_strings (strs n)) = {}"

lemma mem_ok_subset: "mem_ok M h \<Longrightarrow> N \<subseteq># M \<Longrightarrow> mem_ok N h"
  unfolding mem_ok_def by (meson mset_subset_eqD mset_subset_eq_count order_trans)

lemma rest_add: "rest (M + N) h = rest M h |` (- set_mset N)"
  by (auto simp: rest_def restrict_map_def fun_eq_iff)

locale string_message =
  fixes strs :: "'m \<Rightarrow> nat list"
    and fits :: "'m \<Rightarrow> heap \<Rightarrow> bool"
    and val :: "'m \<Rightarrow> heap \<Rightarrow> 'v"
  assumes own_strings_only:
    "(\<forall>p\<in>set (strs m). blocks h p = blocks h' p) \<Longrightarrow> fits m h = fits m h' \<and> val m h = val m h'"
begin

lemma yieldsE:
  assumes "yields strs fits val m h r w"
  obtains m' h' where "r = Inr (m', h')" "msg_ok strs fits m' h'"
    "rest (own_strings (strs m')) h' = rest (own_strings (strs m)) h" "val m' h' = w"
  using assms unfolding yields_def by blast

lemma yields_same: "msg_ok strs fits m h \<Longrightarrow> yields strs fits val m h (Inr (m, h)) (val m h)"
  by (simp add: yields_def)

text \<open>What happens to one object leaves another as it is.\<close>

lemma elsewhere:
  assumes "msg_ok strs fits n h" "apart strs m n" "strings_ok (strs m') h'"
    "rest (own_strings (strs m')) h' = rest (own_strings (strs m)) h"
  shows "\<forall>p\<in>set (strs n). blocks h' p = blocks h p" "msg_ok strs fits n h'" "apart strs m' n" "val n h' = val n h"
proof -
  have other: "p \<notin># own_strings (strs m') \<and> blocks h' p = blocks h p" if "p \<in># own_strings (strs n)" for p
  proof -
    have "blocks h p \<noteq> None" using assms(1) that by (simp add: msg_ok_def strings_ok_def mem_ok_def)
    moreover have "p \<notin># own_strings (strs m)" using assms(2) that by (auto simp: apart_def)
    ultimately have "rest (own_strings (strs m)) h p = blocks h p" "blocks h p \<noteq> None" by (simp_all add: rest_def)
    then show ?thesis using assms(4) by (auto simp: rest_def restrict_map_def fun_eq_iff split: if_splits)
  qed
  have empty: "blocks h' GetEmptyString = blocks h GetEmptyString"
    using assms(1,3) by (simp add: msg_ok_def strings_ok_def)
  show same: "\<forall>p\<in>set (strs n). blocks h' p = blocks h p" using other empty by auto
  then show "val n h' = val n h" using own_strings_only [of n h' h] by blast
  have "mem_ok (own_strings (strs n)) h'"
    using assms(1,3) other by (auto simp: msg_ok_def strings_ok_def mem_ok_def)
  moreover have "fits n h'" using assms(1) same own_strings_only [of n h' h] by (simp add: msg_ok_def)
  ultimately show "msg_ok strs fits n h'"
    using assms(1,3) same by (auto simp: msg_ok_def strings_ok_def)
  show "apart strs m' n" using other by (auto simp: apart_def)
qed

text \<open>One member after another; the second may read another object.\<close>

lemma yields_then:
  assumes "yields strs fits val m h r w"
    and "\<And>m' h'. msg_ok strs fits m' h' \<Longrightarrow> rest (own_strings (strs m')) h' = rest (own_strings (strs m)) h \<Longrightarrow>
      val m' h' = w \<Longrightarrow> yields strs fits val m' h' (f (m', h')) x"
  shows "yields strs fits val m h (and_then r f) x"
proof -
  obtain m' h' where r: "r = Inr (m', h')" "msg_ok strs fits m' h'"
    "rest (own_strings (strs m')) h' = rest (own_strings (strs m)) h" "val m' h' = w"
    using assms(1) by (rule yieldsE)
  have "yields strs fits val m' h' (f (m', h')) x" using r by (intro assms(2))
  with r show ?thesis by (auto simp: yields_def)
qed

text \<open>
  A list of members, each of which may read the object \<open>n\<close>, worth \<open>w\<close>; \<open>copies\<close> is what one of them does to the
  value.
\<close>

definition copies :: "'m \<Rightarrow> 'v \<Rightarrow> 'm member \<Rightarrow> ('v \<Rightarrow> 'v) \<Rightarrow> bool" where
  "copies n w f g \<longleftrightarrow>
     (\<forall>m h. msg_ok strs fits m h \<longrightarrow> msg_ok strs fits n h \<longrightarrow> apart strs m n \<longrightarrow> val n h = w \<longrightarrow>
        yields strs fits val m h (f m h) (g (val m h)))"

lemma yields_in_order:
  assumes "list_all2 (copies n w) fs gs" "msg_ok strs fits m h" "msg_ok strs fits n h" "apart strs m n" "val n h = w"
  shows "yields strs fits val m h (in_order fs m h) (foldl (\<lambda>v g. g v) (val m h) gs)"
  using assms
proof (induction fs gs arbitrary: m h rule: list_all2_induct)
  case Nil
  then show ?case by (simp add: yields_same)
next
  case (Cons f fs g gs)
  have "yields strs fits val m h (f m h) (g (val m h))" using Cons by (simp add: copies_def)
  then show ?case
    unfolding in_order.simps foldl.simps
  proof (rule yields_then, simp only: prod.case)
    fix m' h'
    assume h': "msg_ok strs fits m' h'" "rest (own_strings (strs m')) h' = rest (own_strings (strs m)) h"
      "val m' h' = g (val m h)"
    have "strings_ok (strs m') h'" using h'(1) by (simp add: msg_ok_def)
    note other = elsewhere [OF Cons.prems(2,3) this h'(2)]
    show "yields strs fits val m' h' (in_order fs m' h') (foldl (\<lambda>v g. g v) (g (val m h)) gs)"
      using Cons.IH [OF h'(1) other(2,3)] other(4) Cons.prems(4) h'(3) by simp
  qed
qed

end

subsection \<open>Many objects\<close>

text \<open>
  All strings of all objects are different, and around them the heap is \<open>B\<close>.
\<close>

definition all_strings :: "('m \<Rightarrow> nat list) \<Rightarrow> 'm list \<Rightarrow> nat multiset" where
  "all_strings strs ms = (\<Sum>m\<in>#mset ms. own_strings (strs m))"

definition objects_ok ::
  "('m \<Rightarrow> nat list) \<Rightarrow> ('m \<Rightarrow> heap \<Rightarrow> bool) \<Rightarrow> (nat \<Rightarrow> block option) \<Rightarrow> 'm list \<Rightarrow> heap \<Rightarrow> bool" where
  "objects_ok strs fits B ms h \<longleftrightarrow>
     (\<forall>m\<in>set ms. msg_ok strs fits m h) \<and> mem_ok (all_strings strs ms) h \<and>
     blocks h GetEmptyString = Some (Chars []) \<and> rest (all_strings strs ms) h = B"

lemma all_strings_simps [simp]:
  "all_strings strs [] = {#}"
  "all_strings strs (m # ms) = own_strings (strs m) + all_strings strs ms"
  "all_strings strs (ms @ ns) = all_strings strs ms + all_strings strs ns"
  by (simp_all add: all_strings_def)

lemma in_all_strings: "x \<in># all_strings strs ms \<longleftrightarrow> (\<exists>m\<in>set ms. x \<in># own_strings (strs m))"
  by (induction ms) auto

lemma all_strings_nth:
  assumes "i < length ms"
  shows "all_strings strs ms = own_strings (strs (ms ! i)) + all_strings strs (take i ms @ drop (Suc i) ms)"
    "all_strings strs (ms[i := m]) = own_strings (strs m) + all_strings strs (take i ms @ drop (Suc i) ms)"
proof -
  have "ms = take i ms @ ms ! i # drop (Suc i) ms" using assms by (rule id_take_nth_drop)
  then have "all_strings strs ms = all_strings strs (take i ms @ ms ! i # drop (Suc i) ms)" by simp
  then show "all_strings strs ms = own_strings (strs (ms ! i)) + all_strings strs (take i ms @ drop (Suc i) ms)"
    by simp
  show "all_strings strs (ms[i := m]) = own_strings (strs m) + all_strings strs (take i ms @ drop (Suc i) ms)"
    using assms by (simp add: upd_conv_take_nth_drop)
qed

lemma apart_two:
  assumes "mem_ok (own_strings (strs m) + own_strings (strs n)) h"
  shows "apart strs m n"
proof -
  have "x \<notin># own_strings (strs n)" if "x \<in># own_strings (strs m)" for x
  proof
    assume "x \<in># own_strings (strs n)"
    with that have "0 < count (own_strings (strs m)) x" "0 < count (own_strings (strs n)) x"
      by (simp_all only: count_greater_zero_iff)
    then have "1 < count (own_strings (strs m)) x + count (own_strings (strs n)) x" by linarith
    then have "1 < count (own_strings (strs m) + own_strings (strs n)) x" by (simp only: plus_multiset.rep_eq)
    with assms show False unfolding mem_ok_def by (metis linorder_not_le)
  qed
  then show ?thesis by (auto simp: apart_def)
qed

lemma nth_elsewhere:
  assumes "j < length ms" "i \<noteq> j"
  shows "ms ! j \<in> set (take i ms @ drop (Suc i) ms)"
proof (cases "j < i")
  case True
  with assms have "take i ms ! j = ms ! j" "j < length (take i ms)" by simp_all
  then have "ms ! j \<in> set (take i ms)" by (metis nth_mem)
  then show ?thesis by simp
next
  case False
  with assms have "drop (Suc i) ms ! (j - Suc i) = ms ! j" "j - Suc i < length (drop (Suc i) ms)" by simp_all
  then have "ms ! j \<in> set (drop (Suc i) ms)" by (metis nth_mem)
  then show ?thesis by simp
qed

lemma elsewhere_nth:
  assumes "m \<in> set (take i ms @ drop (Suc i) ms)"
  shows "\<exists>j<length ms. j \<noteq> i \<and> m = ms ! j"
proof (cases "m \<in> set (take i ms)")
  case True
  then obtain k where "k < length (take i ms)" "take i ms ! k = m" by (meson in_set_conv_nth)
  then show ?thesis by (intro exI [of _ k]) auto
next
  case False
  with assms obtain k where "k < length (drop (Suc i) ms)" "drop (Suc i) ms ! k = m" by (metis Un_iff in_set_conv_nth set_append)
  then show ?thesis by (intro exI [of _ "Suc i + k"]) auto
qed

lemma own_subset: "m \<in> set ms \<Longrightarrow> own_strings (strs m) \<subseteq># all_strings strs ms"
  by (induction ms) (auto intro: subset_mset.add_increasing)

lemma objects_apart:
  assumes "objects_ok strs fits B ms h" "i < length ms" "j < length ms" "i \<noteq> j"
  shows "apart strs (ms ! i) (ms ! j)"
proof (rule apart_two)
  have "own_strings (strs (ms ! j)) \<subseteq># all_strings strs (take i ms @ drop (Suc i) ms)"
    by (rule own_subset [OF nth_elsewhere [OF assms(3,4)]])
  then have "own_strings (strs (ms ! i)) + own_strings (strs (ms ! j)) \<subseteq># all_strings strs ms"
    by (simp only: all_strings_nth(1) [OF assms(2)] subset_mset.add_left_mono)
  then show "mem_ok (own_strings (strs (ms ! i)) + own_strings (strs (ms ! j))) h"
    using assms(1) by (auto simp: objects_ok_def intro: mem_ok_subset)
qed

context string_message
begin

text \<open>A member of one object among many.\<close>

lemma update_object:
  assumes "objects_ok strs fits B ms h" "i < length ms" "yields strs fits val (ms ! i) h r w"
  obtains m h' where "r = Inr (m, h')" "objects_ok strs fits B (ms[i := m]) h'"
    "map (\<lambda>m. val m h') (ms[i := m]) = (map (\<lambda>m. val m h) ms)[i := w]"
proof -
  obtain m h' where r: "r = Inr (m, h')" "msg_ok strs fits m h'"
    "rest (own_strings (strs m)) h' = rest (own_strings (strs (ms ! i))) h" "val m h' = w"
    using assms(3) by (rule yieldsE)
  let ?T = "all_strings strs (take i ms @ drop (Suc i) ms)"
  note total = all_strings_nth [OF assms(2), of strs]
  have ok: "strings_ok (strs m) h'" using r(2) by (simp add: msg_ok_def)
  have others: "msg_ok strs fits (ms ! j) h'" "val (ms ! j) h' = val (ms ! j) h"
    "apart strs m (ms ! j)" if "j < length ms" "j \<noteq> i" for j
  proof -
    have "msg_ok strs fits (ms ! j) h" "apart strs (ms ! i) (ms ! j)"
      using assms(1,2) that objects_apart [OF assms(1,2) that(1)] by (auto simp: objects_ok_def)
    from elsewhere [OF this ok r(3)] show "msg_ok strs fits (ms ! j) h'" "val (ms ! j) h' = val (ms ! j) h"
      "apart strs m (ms ! j)" by simp_all
  qed
  have disjoint: "x \<notin># own_strings (strs m) \<and> blocks h' x \<noteq> None" if x: "x \<in># ?T" for x
  proof -
    obtain n where n: "n \<in> set (take i ms @ drop (Suc i) ms)" "x \<in># own_strings (strs n)"
      using x unfolding in_all_strings by blast
    then obtain j where j: "j < length ms" "j \<noteq> i" "n = ms ! j" using elsewhere_nth by metis
    then have "x \<notin># own_strings (strs m)" using others(3) n(2) unfolding apart_def by blast
    moreover have "blocks h' x \<noteq> None"
      using others(1) j n(2) unfolding msg_ok_def strings_ok_def mem_ok_def by blast
    ultimately show ?thesis ..
  qed
  have "mem_ok (own_strings (strs m) + ?T) h'"
  proof -
    have "count (own_strings (strs m) + ?T) x \<le> 1" for x
    proof (cases "x \<in># ?T")
      case True
      then have "count (own_strings (strs m)) x = 0" using disjoint by (simp add: count_eq_zero_iff)
      moreover have "count ?T x \<le> count (all_strings strs ms) x" unfolding total(1) by simp
      ultimately show ?thesis using assms(1) by (auto simp: objects_ok_def mem_ok_def intro: order_trans)
    next
      case False
      then have "count ?T x = 0" by (simp only: not_in_iff)
      then show ?thesis using ok by (simp add: strings_ok_def mem_ok_def)
    qed
    then show ?thesis using ok disjoint by (auto simp: strings_ok_def mem_ok_def)
  qed
  moreover have "rest (own_strings (strs m) + ?T) h' = B"
    using assms(1) r(3) by (simp add: objects_ok_def total(1) rest_add)
  moreover have "\<forall>n\<in>set (ms[i := m]). msg_ok strs fits n h'"
  proof
    fix n assume "n \<in> set (ms[i := m])"
    then obtain j where "j < length ms" "n = ms[i := m] ! j" by (auto simp: in_set_conv_nth)
    then show "msg_ok strs fits n h'" using others(1) r(2) assms(2) by (cases "j = i") simp_all
  qed
  ultimately have "objects_ok strs fits B (ms[i := m]) h'"
    using ok by (simp add: objects_ok_def total(2) strings_ok_def)
  moreover have "map (\<lambda>m. val m h') (ms[i := m]) = (map (\<lambda>m. val m h) ms)[i := w]"
    using others(2) r(4) assms(2) by (intro nth_equalityI) (auto simp: nth_list_update)
  ultimately show ?thesis using r(1) by (intro that)
qed

end

subsection \<open>A generated class\<close>

text \<open>
  \<open>accessors\<close> pairs members of an object with what they do to the message; \<open>cleared\<close> is the empty message and
  \<open>merge\<close> the merging of theory Protobuf.
\<close>

locale generated_message = string_message strs fits val
  for strs :: "'m \<Rightarrow> nat list" and fits :: "'m \<Rightarrow> heap \<Rightarrow> bool" and val :: "'m \<Rightarrow> heap \<Rightarrow> 'v" +
  fixes c :: "'m message_class"
    and accessors :: "('m member \<times> ('v \<Rightarrow> 'v)) set"
    and cleared :: 'v
    and merge :: "'v \<Rightarrow> 'v \<Rightarrow> 'v"
  assumes new: "set (strs (new_object c)) \<subseteq> {GetEmptyString}"
      "blocks h GetEmptyString = Some (Chars []) \<Longrightarrow> fits (new_object c) h \<and> val (new_object c) h = cleared"
    and access: "(f, g) \<in> accessors \<Longrightarrow> msg_ok strs fits m h \<Longrightarrow> yields strs fits val m h (f m h) (g (val m h))"
    and clear: "msg_ok strs fits m h \<Longrightarrow> yields strs fits val m h (clear_member c m h) cleared"
    and merges: "msg_ok strs fits m h \<Longrightarrow> msg_ok strs fits n h \<Longrightarrow> apart strs m n \<Longrightarrow>
      yields strs fits val m h (merge_member c n m h) (merge (val n h) (val m h))"
    and swap: "swap_members c m n = (n, m)"
    and deletes: "msg_ok strs fits m h \<Longrightarrow> \<exists>h'. delete_object c m h = Inr h' \<and> strings_ok [] h' \<and>
      blocks h' = rest (own_strings (strs m)) h"
begin

lemma new_own [simp]: "own_strings (strs (new_object c)) = {#}"
  using new(1) by (auto simp: own_strings_def)

lemma new_ok:
  assumes "objects_ok strs fits B ms h"
  shows "msg_ok strs fits (new_object c) h" "val (new_object c) h = cleared" "objects_ok strs fits B (ms @ [new_object c]) h"
proof -
  have e: "blocks h GetEmptyString = Some (Chars [])" "mem_ok {#} h"
    using assms by (auto simp: objects_ok_def mem_ok_def)
  show "val (new_object c) h = cleared" using new(2) [OF e(1)] by simp
  show ok: "msg_ok strs fits (new_object c) h"
    using e new(1) new(2) [OF e(1)] by (auto simp: msg_ok_def strings_ok_def simp flip: set_own_strings)
  with assms show "objects_ok strs fits B (ms @ [new_object c]) h" by (auto simp: objects_ok_def)
qed

lemma copies_ok:
  assumes "msg_ok strs fits m h" "msg_ok strs fits n h" "apart strs m n"
  shows "yields strs fits val m h (copy_member c n m h) (merge (val n h) cleared)"
proof -
  have "list_all2 (copies n (val n h)) [clear_member c, merge_member c n] [\<lambda>_. cleared, merge (val n h)]"
    using clear merges unfolding copies_def list_all2_Cons list_all2_Nil by metis
  from yields_in_order [OF this assms refl] show ?thesis by (simp add: copy_member_def)
qed

text \<open>Which steps a program takes: its accessors are those of the class, and no message is merged with itself.\<close>

definition allowed :: "('m, 'v) object_op \<Rightarrow> bool" where
  "allowed x \<longleftrightarrow> (case x of Access i f g \<Rightarrow> (f, g) \<in> accessors | MergeInto i j \<Rightarrow> i \<noteq> j | _ \<Rightarrow> True)"

lemma object_step_ok:
  assumes ok: "objects_ok strs fits B ms h" and x: "allowed x"
  shows "\<exists>ms' h'. object_step c x (ms, h) = Inr (ms', h') \<and> objects_ok strs fits B ms' h' \<and>
    map (\<lambda>m. val m h') ms' = value_step cleared merge x (map (\<lambda>m. val m h) ms)" (is ?goal)
proof -
  let ?vs = "map (\<lambda>m. val m h) ms"
  have update: ?goal
    if f: "\<And>i. i < length ms \<Longrightarrow> k = i \<Longrightarrow> yields strs fits val (ms ! i) h (f (ms ! i) h) (g (val (ms ! i) h))"
      and step: "object_step c x (ms, h) = update_at k f (ms, h)"
        "value_step cleared merge x ?vs = value_at_op k g ?vs" for k f g
  proof (cases "k < length ms")
    case True
    from update_object [OF ok True f [OF True refl]] obtain m h' where "f (ms ! k) h = Inr (m, h')"
      "objects_ok strs fits B (ms[k := m]) h'" "map (\<lambda>m. val m h') (ms[k := m]) = ?vs[k := g (val (ms ! k) h)]"
      by metis
    with True step show ?goal
      by (intro exI [of _ "ms[k := m]"] exI [of _ h']) (simp_all add: update_at_def value_at_op_def)
  next
    case False
    with ok step show ?goal by (intro exI [of _ ms] exI [of _ h]) (simp_all add: update_at_def value_at_op_def)
  qed
  have one: "msg_ok strs fits (ms ! i) h" if "i < length ms" for i using ok that by (simp add: objects_ok_def)
  show ?thesis
  proof (cases x)
    case Make
    then show ?thesis using new_ok [OF ok] by (intro exI [of _ "ms @ [new_object c]"] exI [of _ h]) (simp_all add: object_step_def value_step_def)
  next
    case (Access i f g)
    then show ?thesis
      using x one access by (intro update [of i f g]) (simp_all add: object_step_def value_step_def allowed_def)
  next
    case (ClearAt i)
    then show ?thesis
      using one clear by (intro update [of i "clear_member c" "\<lambda>_. cleared"]) (simp_all add: object_step_def value_step_def)
  next
    case (MergeInto i j)
    show ?thesis
    proof (cases "j < length ms")
      case True
      with MergeInto x one merges objects_apart [OF ok] show ?thesis
        by (intro update [of i "merge_member c (ms ! j)" "merge (val (ms ! j) h)"])
          (simp_all add: object_step_def value_step_def allowed_def)
    next
      case False
      with MergeInto x ok show ?thesis
        by (intro exI [of _ ms] exI [of _ h]) (simp_all add: object_step_def value_step_def allowed_def)
    qed
  next
    case (CopyInto i j)
    show ?thesis
    proof (cases "i \<noteq> j \<and> j < length ms")
      case True
      with CopyInto one copies_ok objects_apart [OF ok] show ?thesis
        by (intro update [of i "copy_member c (ms ! j)" "\<lambda>_. merge (val (ms ! j) h) cleared"])
          (simp_all add: object_step_def value_step_def)
    next
      case False
      with CopyInto ok show ?thesis
        by (intro exI [of _ ms] exI [of _ h]) (auto simp: object_step_def value_step_def)
    qed
  next
    case (MakeCopy j)
    show ?thesis
    proof (cases "j < length ms")
      case True
      let ?ms = "ms @ [new_object c]"
      have "apart strs (new_object c) (ms ! j)" by (simp add: apart_def flip: set_own_strings)
      then have y: "yields strs fits val (?ms ! length ms) h (merge_member c (ms ! j) (new_object c) h)
          (merge (val (ms ! j) h) cleared)"
        using merges [OF new_ok(1) [OF ok] one [OF True]] new_ok(2) [OF ok] by simp
      obtain m h' where "merge_member c (ms ! j) (new_object c) h = Inr (m, h')"
        "objects_ok strs fits B (?ms[length ms := m]) h'"
        "map (\<lambda>m. val m h') (?ms[length ms := m]) =
          (map (\<lambda>m. val m h) ?ms)[length ms := merge (val (ms ! j) h) cleared]"
        using update_object [OF new_ok(3) [OF ok] _ y] by auto
      with True MakeCopy show ?thesis
        by (intro exI [of _ "ms @ [m]"] exI [of _ h']) (simp_all add: object_step_def value_step_def list_update_append)
    next
      case False
      with MakeCopy ok show ?thesis by (intro exI [of _ ms] exI [of _ h]) (simp_all add: object_step_def value_step_def)
    qed
  next
    case (SwapAt i j)
    show ?thesis
    proof (cases "i \<noteq> j \<and> i < length ms \<and> j < length ms")
      case True
      let ?ms = "ms[i := ms ! j, j := ms ! i]"
      have "mset ?ms = mset ms" using True by (simp add: mset_swap)
      then have "objects_ok strs fits B ?ms h" using ok by (simp add: objects_ok_def all_strings_def flip: set_mset_mset)
      with True SwapAt show ?thesis
        by (intro exI [of _ ?ms] exI [of _ h]) (simp_all add: object_step_def value_step_def swap map_update)
    next
      case False
      have "(map (\<lambda>m. val m h) ms)[j := val (ms ! j) h] = map (\<lambda>m. val m h) ms"
        by (metis list_update_id map_update)
      with False SwapAt ok show ?thesis
        by (intro exI [of _ ms] exI [of _ h]) (auto simp: object_step_def value_step_def)
    qed
  qed
qed

lemma delete_objects_ok:
  assumes "objects_ok strs fits B ms h"
  shows "\<exists>h'. delete_objects c ms h = Inr h' \<and> blocks h' = B"
  using assms
proof (induction ms arbitrary: h)
  case Nil
  then show ?case by (simp add: objects_ok_def)
next
  case (Cons m ms)
  then obtain h1 where h1: "delete_object c m h = Inr h1" "strings_ok [] h1" "blocks h1 = rest (own_strings (strs m)) h"
    using deletes [of m h] by (auto simp: objects_ok_def)
  have total: "mem_ok (own_strings (strs m) + all_strings strs ms) h" "rest (own_strings (strs m) + all_strings strs ms) h = B"
    using Cons.prems by (simp_all add: objects_ok_def)
  have same: "msg_ok strs fits n h1" if "n \<in> set ms" for n
  proof -
    have "own_strings (strs m) + own_strings (strs n) \<subseteq># own_strings (strs m) + all_strings strs ms"
      using own_subset [OF that] by simp
    then have "apart strs m n" by (rule apart_two [OF mem_ok_subset [OF total(1)]])
    moreover have "strings_ok (strs (new_object c)) h1"
      using h1(2) new(1) by (auto simp: strings_ok_def simp del: set_own_strings)
    moreover have "msg_ok strs fits n h" using Cons.prems that by (simp add: objects_ok_def)
    ultimately show ?thesis using elsewhere(2) [of n h m "new_object c" h1] h1(3) by simp
  qed
  have "rest (all_strings strs ms) h1 = B"
    using total(2) h1(3) by (simp add: rest_add) (simp add: rest_def)
  moreover have "mem_ok (all_strings strs ms) h1"
  proof -
    have "blocks h1 x \<noteq> None" if "x \<in># all_strings strs ms" for x
      using that same unfolding in_all_strings by (auto simp: msg_ok_def strings_ok_def)
    moreover have "mem_ok (all_strings strs ms) h" by (rule mem_ok_subset [OF total(1)]) simp
    ultimately show ?thesis using h1(2) by (simp add: mem_ok_def strings_ok_def)
  qed
  ultimately have "objects_ok strs fits B ms h1"
    using same h1(2) by (simp add: objects_ok_def strings_ok_def)
  with Cons.IH h1(1) show ?case by simp
qed

text \<open>A program with objects of the class, from an empty heap to the end of the last object.\<close>

lemma objects_refine_values:
  assumes "\<forall>a \<ge> next_addr h0. blocks h0 a = None" "blocks h0 GetEmptyString = Some (Chars [])" "\<forall>x\<in>set xs. allowed x"
  shows "\<exists>ms h h'. object_run c xs ([], h0) = Inr (ms, h) \<and>
    map (\<lambda>m. val m h) ms = foldl (\<lambda>vs x. value_step cleared merge x vs) [] xs \<and>
    delete_objects c ms h = Inr h' \<and> blocks h' = blocks h0"
proof -
  have run: "\<exists>ms' h'. object_run c xs (ms, h) = Inr (ms', h') \<and> objects_ok strs fits B ms' h' \<and>
      map (\<lambda>m. val m h') ms' = foldl (\<lambda>vs x. value_step cleared merge x vs) (map (\<lambda>m. val m h) ms) xs"
    if "objects_ok strs fits B ms h" "\<forall>x\<in>set xs. allowed x" for B ms h xs
    using that
  proof (induction xs arbitrary: ms h)
    case (Cons x xs)
    from Cons.prems obtain ms1 h1 where "object_step c x (ms, h) = Inr (ms1, h1)" "objects_ok strs fits B ms1 h1"
      "map (\<lambda>m. val m h1) ms1 = value_step cleared merge x (map (\<lambda>m. val m h) ms)"
      using object_step_ok by (metis list.set_intros(1))
    with Cons.IH [of ms1 h1] Cons.prems show ?case by simp
  qed simp
  have "objects_ok strs fits (blocks h0) [] h0"
    using assms by (simp add: objects_ok_def mem_ok_def)
  from run [OF this assms(3)] obtain ms h where "object_run c xs ([], h0) = Inr (ms, h)"
    "objects_ok strs fits (blocks h0) ms h"
    "map (\<lambda>m. val m h) ms = foldl (\<lambda>vs x. value_step cleared merge x vs) [] xs" by auto
  with delete_objects_ok show ?thesis by blast
qed

end

end
