(* ===== verification/ProtoObjects.thy ===== *)
theory ProtoObjects
  imports ProtoClasses
begin

section \<open>The generated classes of center\_proto, as objects\<close>

text \<open>
  The accessors of center\_proto/*.pb.h and the members of center\_proto/*.pb.cc that work on the fields of an
  object: \<open>SharedCtor\<close> (\<open>_new\<close>), \<open>SharedDtor\<close> (\<open>_delete\<close>), \<open>Clear\<close>, \<open>MergeFrom\<close>, \<open>CopyFrom\<close>, the copy
  constructor (\<open>_copied\<close>), \<open>Swap\<close>. An enum member holds a constant of the enum: only checked values are assigned
  to it, and 0 where \<open>Clear\<close> zeroes the memory of the fields of a \<open>CentersProto\<close>, which is the number of \<open>LOOKING\<close>
  and of \<open>INQUIRY\<close>. A repeated field is the list of its elements, which the library keeps; \<open>mutable_\<close> and
  \<open>add_\<close> of an embedded message take what the caller does to the element. Setting a string from a null
  pointer is not modelled. At the end of each class stand its abstraction to the message of theory Protobuf
  (\<open>_val\<close>), what its fields are when they are not set (\<open>_fits\<close>), and its accessors with what they do to the
  message.
\<close>

subsection \<open>Repeated fields\<close>

text \<open>An index out of range is undefined in the library.\<close>

definition rep_get :: "int \<Rightarrow> 'a list \<Rightarrow> fault + 'a" where
  "rep_get i vs = (if 0 \<le> i \<and> nat i < length vs then Inr (vs ! nat i) else Inl OutOfRange)"

definition rep_set :: "int \<Rightarrow> 'a \<Rightarrow> 'a list \<Rightarrow> fault + 'a list" where
  "rep_set i v vs = (if 0 \<le> i \<and> nat i < length vs then Inr (vs[nat i := v]) else Inl OutOfRange)"

subsection \<open>RpcClusterServer\<close>

record RpcClusterServer_obj =
  rcso_unknown_fields :: string
  rcso_has_bits :: u32
  rcso_cached_size :: int
  rcso_cluster_server_addr :: nat
  rcso_cluster_action :: ClusteAction
  rcso_load :: u32
  rcso_cpu_used :: u32
  rcso_connection_num :: int

definition RpcClusterServer_has_cluster_action :: "RpcClusterServer_obj \<Rightarrow> bool" where
  "RpcClusterServer_has_cluster_action m = has_bit 1 (rcso_has_bits m)"

definition RpcClusterServer_set_has_cluster_action :: "RpcClusterServer_obj \<Rightarrow> RpcClusterServer_obj" where
  "RpcClusterServer_set_has_cluster_action m = m\<lparr>rcso_has_bits := set_has_bit 1 (rcso_has_bits m)\<rparr>"

definition RpcClusterServer_clear_has_cluster_action :: "RpcClusterServer_obj \<Rightarrow> RpcClusterServer_obj" where
  "RpcClusterServer_clear_has_cluster_action m = m\<lparr>rcso_has_bits := clear_has_bit 1 (rcso_has_bits m)\<rparr>"

definition RpcClusterServer_clear_cluster_action :: "RpcClusterServer_obj \<Rightarrow> RpcClusterServer_obj" where
  "RpcClusterServer_clear_cluster_action m = RpcClusterServer_clear_has_cluster_action (m\<lparr>rcso_cluster_action := REGISTER\<rparr>)"

definition RpcClusterServer_cluster_action :: "RpcClusterServer_obj \<Rightarrow> ClusteAction" where
  "RpcClusterServer_cluster_action m = rcso_cluster_action m"

definition RpcClusterServer_set_cluster_action :: "ClusteAction \<Rightarrow> RpcClusterServer_obj \<Rightarrow> RpcClusterServer_obj" where
  "RpcClusterServer_set_cluster_action v m = (RpcClusterServer_set_has_cluster_action m)\<lparr>rcso_cluster_action := v\<rparr>"

definition RpcClusterServer_has_cluster_server_addr :: "RpcClusterServer_obj \<Rightarrow> bool" where
  "RpcClusterServer_has_cluster_server_addr m = has_bit 2 (rcso_has_bits m)"

definition RpcClusterServer_set_has_cluster_server_addr :: "RpcClusterServer_obj \<Rightarrow> RpcClusterServer_obj" where
  "RpcClusterServer_set_has_cluster_server_addr m = m\<lparr>rcso_has_bits := set_has_bit 2 (rcso_has_bits m)\<rparr>"

definition RpcClusterServer_clear_has_cluster_server_addr :: "RpcClusterServer_obj \<Rightarrow> RpcClusterServer_obj" where
  "RpcClusterServer_clear_has_cluster_server_addr m = m\<lparr>rcso_has_bits := clear_has_bit 2 (rcso_has_bits m)\<rparr>"

definition RpcClusterServer_clear_cluster_server_addr :: "RpcClusterServer_obj member" where
  "RpcClusterServer_clear_cluster_server_addr m h =
     and_then (string_clear (rcso_cluster_server_addr m) h)
       (\<lambda>h. Inr (RpcClusterServer_clear_has_cluster_server_addr m, h))"

definition RpcClusterServer_cluster_server_addr :: "RpcClusterServer_obj \<Rightarrow> heap \<Rightarrow> fault + string" where
  "RpcClusterServer_cluster_server_addr m h = chars h (rcso_cluster_server_addr m)"

definition RpcClusterServer_set_cluster_server_addr :: "string \<Rightarrow> RpcClusterServer_obj member" where
  "RpcClusterServer_set_cluster_server_addr v m h =
     and_then (string_assign (rcso_cluster_server_addr m) v h) (\<lambda>(p, h).
       Inr ((RpcClusterServer_set_has_cluster_server_addr m)\<lparr>rcso_cluster_server_addr := p\<rparr>, h))"

definition RpcClusterServer_set_cluster_server_addr_chars :: "string \<Rightarrow> RpcClusterServer_obj member" where
  "RpcClusterServer_set_cluster_server_addr_chars v = RpcClusterServer_set_cluster_server_addr (c_str v)"

definition RpcClusterServer_set_cluster_server_addr_sized :: "string \<Rightarrow> nat \<Rightarrow> RpcClusterServer_obj member" where
  "RpcClusterServer_set_cluster_server_addr_sized v n m h =
     and_then (sized v n) (\<lambda>v. RpcClusterServer_set_cluster_server_addr v m h)"

definition RpcClusterServer_mutable_cluster_server_addr :: "RpcClusterServer_obj \<Rightarrow> heap \<Rightarrow> nat \<times> RpcClusterServer_obj \<times> heap" where
  "RpcClusterServer_mutable_cluster_server_addr m h =
     (case string_mutable (rcso_cluster_server_addr m) h of (p, h) \<Rightarrow> (p,
       (RpcClusterServer_set_has_cluster_server_addr m)\<lparr>rcso_cluster_server_addr := p\<rparr>, h))"

definition RpcClusterServer_release_cluster_server_addr :: "RpcClusterServer_obj \<Rightarrow> nat option \<times> RpcClusterServer_obj" where
  "RpcClusterServer_release_cluster_server_addr m =
     (case string_release (rcso_cluster_server_addr m) of (temp, p) \<Rightarrow> (temp,
       (RpcClusterServer_clear_has_cluster_server_addr m)\<lparr>rcso_cluster_server_addr := p\<rparr>))"

definition RpcClusterServer_set_allocated_cluster_server_addr :: "nat option \<Rightarrow> RpcClusterServer_obj member" where
  "RpcClusterServer_set_allocated_cluster_server_addr given m h =
     and_then (string_set_allocated (rcso_cluster_server_addr m) given h) (\<lambda>(is_set, p, h).
       Inr ((if is_set then RpcClusterServer_set_has_cluster_server_addr m else RpcClusterServer_clear_has_cluster_server_addr m)\<lparr>rcso_cluster_server_addr := p\<rparr>, h))"

definition RpcClusterServer_has_load :: "RpcClusterServer_obj \<Rightarrow> bool" where
  "RpcClusterServer_has_load m = has_bit 4 (rcso_has_bits m)"

definition RpcClusterServer_set_has_load :: "RpcClusterServer_obj \<Rightarrow> RpcClusterServer_obj" where
  "RpcClusterServer_set_has_load m = m\<lparr>rcso_has_bits := set_has_bit 4 (rcso_has_bits m)\<rparr>"

definition RpcClusterServer_clear_has_load :: "RpcClusterServer_obj \<Rightarrow> RpcClusterServer_obj" where
  "RpcClusterServer_clear_has_load m = m\<lparr>rcso_has_bits := clear_has_bit 4 (rcso_has_bits m)\<rparr>"

definition RpcClusterServer_clear_load :: "RpcClusterServer_obj \<Rightarrow> RpcClusterServer_obj" where
  "RpcClusterServer_clear_load m = RpcClusterServer_clear_has_load (m\<lparr>rcso_load := 0\<rparr>)"

definition RpcClusterServer_load :: "RpcClusterServer_obj \<Rightarrow> u32" where
  "RpcClusterServer_load m = rcso_load m"

definition RpcClusterServer_set_load :: "u32 \<Rightarrow> RpcClusterServer_obj \<Rightarrow> RpcClusterServer_obj" where
  "RpcClusterServer_set_load v m = (RpcClusterServer_set_has_load m)\<lparr>rcso_load := v\<rparr>"

definition RpcClusterServer_has_cpu_used :: "RpcClusterServer_obj \<Rightarrow> bool" where
  "RpcClusterServer_has_cpu_used m = has_bit 8 (rcso_has_bits m)"

definition RpcClusterServer_set_has_cpu_used :: "RpcClusterServer_obj \<Rightarrow> RpcClusterServer_obj" where
  "RpcClusterServer_set_has_cpu_used m = m\<lparr>rcso_has_bits := set_has_bit 8 (rcso_has_bits m)\<rparr>"

definition RpcClusterServer_clear_has_cpu_used :: "RpcClusterServer_obj \<Rightarrow> RpcClusterServer_obj" where
  "RpcClusterServer_clear_has_cpu_used m = m\<lparr>rcso_has_bits := clear_has_bit 8 (rcso_has_bits m)\<rparr>"

definition RpcClusterServer_clear_cpu_used :: "RpcClusterServer_obj \<Rightarrow> RpcClusterServer_obj" where
  "RpcClusterServer_clear_cpu_used m = RpcClusterServer_clear_has_cpu_used (m\<lparr>rcso_cpu_used := 0\<rparr>)"

definition RpcClusterServer_cpu_used :: "RpcClusterServer_obj \<Rightarrow> u32" where
  "RpcClusterServer_cpu_used m = rcso_cpu_used m"

definition RpcClusterServer_set_cpu_used :: "u32 \<Rightarrow> RpcClusterServer_obj \<Rightarrow> RpcClusterServer_obj" where
  "RpcClusterServer_set_cpu_used v m = (RpcClusterServer_set_has_cpu_used m)\<lparr>rcso_cpu_used := v\<rparr>"

definition RpcClusterServer_has_connection_num :: "RpcClusterServer_obj \<Rightarrow> bool" where
  "RpcClusterServer_has_connection_num m = has_bit 16 (rcso_has_bits m)"

definition RpcClusterServer_set_has_connection_num :: "RpcClusterServer_obj \<Rightarrow> RpcClusterServer_obj" where
  "RpcClusterServer_set_has_connection_num m = m\<lparr>rcso_has_bits := set_has_bit 16 (rcso_has_bits m)\<rparr>"

definition RpcClusterServer_clear_has_connection_num :: "RpcClusterServer_obj \<Rightarrow> RpcClusterServer_obj" where
  "RpcClusterServer_clear_has_connection_num m = m\<lparr>rcso_has_bits := clear_has_bit 16 (rcso_has_bits m)\<rparr>"

definition RpcClusterServer_clear_connection_num :: "RpcClusterServer_obj \<Rightarrow> RpcClusterServer_obj" where
  "RpcClusterServer_clear_connection_num m = RpcClusterServer_clear_has_connection_num (m\<lparr>rcso_connection_num := 0\<rparr>)"

definition RpcClusterServer_connection_num :: "RpcClusterServer_obj \<Rightarrow> int" where
  "RpcClusterServer_connection_num m = rcso_connection_num m"

definition RpcClusterServer_set_connection_num :: "int \<Rightarrow> RpcClusterServer_obj \<Rightarrow> RpcClusterServer_obj" where
  "RpcClusterServer_set_connection_num v m = (RpcClusterServer_set_has_connection_num m)\<lparr>rcso_connection_num := v\<rparr>"

definition RpcClusterServer_new :: "RpcClusterServer_obj" where
  "RpcClusterServer_new =
     \<lparr>rcso_unknown_fields = [], rcso_has_bits = 0, rcso_cached_size = 0,
       rcso_cluster_server_addr = GetEmptyString, rcso_cluster_action = REGISTER, rcso_load = 0,
       rcso_cpu_used = 0, rcso_connection_num = 0\<rparr>"

definition RpcClusterServer_delete :: "RpcClusterServer_obj \<Rightarrow> heap \<Rightarrow> fault + heap" where
  "RpcClusterServer_delete m h = string_delete (rcso_cluster_server_addr m) h"

definition RpcClusterServer_obj_Clear :: "RpcClusterServer_obj member" where
  "RpcClusterServer_obj_Clear m h =
     and_then (member_if (has_bit 31 (rcso_has_bits m)) (in_order
         [pure_member (\<lambda>m. m\<lparr>rcso_cluster_action := REGISTER, rcso_load := 0, rcso_cpu_used := 0,
           rcso_connection_num := 0\<rparr>),
          member_if (RpcClusterServer_has_cluster_server_addr m)
            (\<lambda>m h. and_then (string_clear (rcso_cluster_server_addr m) h) (\<lambda>h. Inr (m, h)))]) m h)
       (\<lambda>(m, h). Inr (m\<lparr>rcso_has_bits := 0, rcso_unknown_fields := []\<rparr>, h))"

definition RpcClusterServer_obj_MergeFrom :: "RpcClusterServer_obj \<Rightarrow> RpcClusterServer_obj member" where
  "RpcClusterServer_obj_MergeFrom from_m = in_order
      [member_if (has_bit 0xff (rcso_has_bits from_m)) (in_order
         [member_if (RpcClusterServer_has_cluster_action from_m)
           (pure_member (RpcClusterServer_set_cluster_action (RpcClusterServer_cluster_action from_m))),
          member_if (RpcClusterServer_has_cluster_server_addr from_m)
            (\<lambda>m h. and_then (RpcClusterServer_cluster_server_addr from_m h)
            (\<lambda>v. RpcClusterServer_set_cluster_server_addr v m h)),
          member_if (RpcClusterServer_has_load from_m)
            (pure_member (RpcClusterServer_set_load (RpcClusterServer_load from_m))),
          member_if (RpcClusterServer_has_cpu_used from_m)
            (pure_member (RpcClusterServer_set_cpu_used (RpcClusterServer_cpu_used from_m))),
          member_if (RpcClusterServer_has_connection_num from_m)
            (pure_member (RpcClusterServer_set_connection_num (RpcClusterServer_connection_num from_m)))]),
       pure_member (\<lambda>m. m\<lparr>rcso_unknown_fields := rcso_unknown_fields m @ rcso_unknown_fields from_m\<rparr>)]"

definition RpcClusterServer_obj_CopyFrom :: "bool \<Rightarrow> RpcClusterServer_obj \<Rightarrow> RpcClusterServer_obj member" where
  "RpcClusterServer_obj_CopyFrom itself from_m m h =
     (if itself then Inr (m, h) else in_order [RpcClusterServer_obj_Clear,
       RpcClusterServer_obj_MergeFrom from_m] m h)"

definition RpcClusterServer_copied :: "RpcClusterServer_obj \<Rightarrow> heap \<Rightarrow> fault + (RpcClusterServer_obj \<times> heap)" where
  "RpcClusterServer_copied from_m = RpcClusterServer_obj_MergeFrom from_m RpcClusterServer_new"

definition RpcClusterServer_Swap :: "RpcClusterServer_obj \<Rightarrow> RpcClusterServer_obj \<Rightarrow> RpcClusterServer_obj \<times> RpcClusterServer_obj" where
  "RpcClusterServer_Swap m other =
     (m\<lparr>rcso_cluster_action := rcso_cluster_action other,
       rcso_cluster_server_addr := rcso_cluster_server_addr other, rcso_load := rcso_load other,
       rcso_cpu_used := rcso_cpu_used other, rcso_connection_num := rcso_connection_num other,
       rcso_has_bits := rcso_has_bits other, rcso_unknown_fields := rcso_unknown_fields other,
       rcso_cached_size := rcso_cached_size other\<rparr>,
      other\<lparr>rcso_cluster_action := rcso_cluster_action m,
        rcso_cluster_server_addr := rcso_cluster_server_addr m, rcso_load := rcso_load m,
        rcso_cpu_used := rcso_cpu_used m, rcso_connection_num := rcso_connection_num m,
        rcso_has_bits := rcso_has_bits m, rcso_unknown_fields := rcso_unknown_fields m,
        rcso_cached_size := rcso_cached_size m\<rparr>)"

definition RpcClusterServer_strs :: "RpcClusterServer_obj \<Rightarrow> nat list" where
  "RpcClusterServer_strs m = [rcso_cluster_server_addr m]"

definition RpcClusterServer_fits :: "RpcClusterServer_obj \<Rightarrow> heap \<Rightarrow> bool" where
  "RpcClusterServer_fits m h \<longleftrightarrow>
     (\<not> RpcClusterServer_has_cluster_action m \<longrightarrow> rcso_cluster_action m = REGISTER) \<and>
     (\<not> RpcClusterServer_has_cluster_server_addr m \<longrightarrow> text_at h (rcso_cluster_server_addr m) = []) \<and>
     (\<not> RpcClusterServer_has_load m \<longrightarrow> rcso_load m = 0) \<and>
     (\<not> RpcClusterServer_has_cpu_used m \<longrightarrow> rcso_cpu_used m = 0) \<and>
     (\<not> RpcClusterServer_has_connection_num m \<longrightarrow> rcso_connection_num m = 0)"

definition RpcClusterServer_val :: "RpcClusterServer_obj \<Rightarrow> heap \<Rightarrow> RpcClusterServer_pb" where
  "RpcClusterServer_val m h =
     \<lparr>rcs_cluster_action = field_if (RpcClusterServer_has_cluster_action m) (rcso_cluster_action m),
      rcs_cluster_server_addr = field_if (RpcClusterServer_has_cluster_server_addr m) (text_at h (rcso_cluster_server_addr m)),
      rcs_load = field_if (RpcClusterServer_has_load m) (rcso_load m),
      rcs_cpu_used = field_if (RpcClusterServer_has_cpu_used m) (rcso_cpu_used m),
      rcs_connection_num = field_if (RpcClusterServer_has_connection_num m) (rcso_connection_num m),
      rcs_unknown = rcso_unknown_fields m\<rparr>"

definition RpcClusterServer_class :: "RpcClusterServer_obj message_class" where
  "RpcClusterServer_class = \<lparr>new_object = RpcClusterServer_new, clear_member = RpcClusterServer_obj_Clear,
    merge_member = RpcClusterServer_obj_MergeFrom,
     swap_members = RpcClusterServer_Swap, delete_object = RpcClusterServer_delete\<rparr>"

definition RpcClusterServer_accessors :: "(RpcClusterServer_obj member \<times> (RpcClusterServer_pb \<Rightarrow> RpcClusterServer_pb)) set" where
  "RpcClusterServer_accessors = {(f, g).
     (f, g) = (pure_member RpcClusterServer_clear_cluster_action, (\<lambda>m. m\<lparr>rcs_cluster_action := None\<rparr>)) \<or>
     (\<exists>v. (f, g) = (pure_member (RpcClusterServer_set_cluster_action v),
       (\<lambda>m. m\<lparr>rcs_cluster_action := Some v\<rparr>))) \<or>
     (f, g) = (RpcClusterServer_clear_cluster_server_addr, (\<lambda>m. m\<lparr>rcs_cluster_server_addr := None\<rparr>)) \<or>
     (\<exists>v. (f, g) = (RpcClusterServer_set_cluster_server_addr v, (\<lambda>m. m\<lparr>rcs_cluster_server_addr := Some v\<rparr>))) \<or>
     (\<exists>v. (f, g) = (RpcClusterServer_set_cluster_server_addr_chars v,
       (\<lambda>m. m\<lparr>rcs_cluster_server_addr := Some (c_str v)\<rparr>))) \<or>
     (\<exists>v n. n \<le> length v \<and> (f, g) = (RpcClusterServer_set_cluster_server_addr_sized v n,
       (\<lambda>m. m\<lparr>rcs_cluster_server_addr := Some (take n v)\<rparr>))) \<or>
     (f, g) = (\<lambda>m h. case RpcClusterServer_mutable_cluster_server_addr m h of (p, m, h) \<Rightarrow> Inr (m, h),
       (\<lambda>m. m\<lparr>rcs_cluster_server_addr := Some (case rcs_cluster_server_addr m of None \<Rightarrow> [] | Some s \<Rightarrow> s)\<rparr>)) \<or>
     (f, g) = (\<lambda>m h. case RpcClusterServer_release_cluster_server_addr m of (p, m) \<Rightarrow> and_then (free_ptr p h)
       (\<lambda>h. Inr (m, h)), (\<lambda>m. m\<lparr>rcs_cluster_server_addr := None\<rparr>)) \<or>
     (f, g) = (RpcClusterServer_set_allocated_cluster_server_addr None,
       (\<lambda>m. m\<lparr>rcs_cluster_server_addr := None\<rparr>)) \<or>
     (\<exists>v. (f, g) =
       (\<lambda>m h. case malloc (Chars v) h of (p, h) \<Rightarrow> RpcClusterServer_set_allocated_cluster_server_addr (Some p) m h, (\<lambda>m. m\<lparr>rcs_cluster_server_addr := Some v\<rparr>))) \<or>
     (f, g) = (pure_member RpcClusterServer_clear_load, (\<lambda>m. m\<lparr>rcs_load := None\<rparr>)) \<or>
     (\<exists>v. (f, g) = (pure_member (RpcClusterServer_set_load v), (\<lambda>m. m\<lparr>rcs_load := Some v\<rparr>))) \<or>
     (f, g) = (pure_member RpcClusterServer_clear_cpu_used, (\<lambda>m. m\<lparr>rcs_cpu_used := None\<rparr>)) \<or>
     (\<exists>v. (f, g) = (pure_member (RpcClusterServer_set_cpu_used v), (\<lambda>m. m\<lparr>rcs_cpu_used := Some v\<rparr>))) \<or>
     (f, g) = (pure_member RpcClusterServer_clear_connection_num, (\<lambda>m. m\<lparr>rcs_connection_num := None\<rparr>)) \<or>
     (\<exists>v. (f, g) = (pure_member (RpcClusterServer_set_connection_num v),
       (\<lambda>m. m\<lparr>rcs_connection_num := Some v\<rparr>)))}"

subsection \<open>CenterResponseCluster\<close>

record CenterResponseCluster_obj =
  crco_unknown_fields :: string
  crco_has_bits :: u32
  crco_cached_size :: int
  crco_should_reporter_center :: "string list"
  crco_center_response_action :: ResponseClusterAction

definition CenterResponseCluster_has_center_response_action :: "CenterResponseCluster_obj \<Rightarrow> bool" where
  "CenterResponseCluster_has_center_response_action m = has_bit 1 (crco_has_bits m)"

definition CenterResponseCluster_set_has_center_response_action :: "CenterResponseCluster_obj \<Rightarrow> CenterResponseCluster_obj" where
  "CenterResponseCluster_set_has_center_response_action m = m\<lparr>crco_has_bits := set_has_bit 1 (crco_has_bits m)\<rparr>"

definition CenterResponseCluster_clear_has_center_response_action :: "CenterResponseCluster_obj \<Rightarrow> CenterResponseCluster_obj" where
  "CenterResponseCluster_clear_has_center_response_action m = m\<lparr>crco_has_bits := clear_has_bit 1 (crco_has_bits m)\<rparr>"

definition CenterResponseCluster_clear_center_response_action :: "CenterResponseCluster_obj \<Rightarrow> CenterResponseCluster_obj" where
  "CenterResponseCluster_clear_center_response_action m = CenterResponseCluster_clear_has_center_response_action (m\<lparr>crco_center_response_action := CLUSTER_RESP\<rparr>)"

definition CenterResponseCluster_center_response_action :: "CenterResponseCluster_obj \<Rightarrow> ResponseClusterAction" where
  "CenterResponseCluster_center_response_action m = crco_center_response_action m"

definition CenterResponseCluster_set_center_response_action :: "ResponseClusterAction \<Rightarrow> CenterResponseCluster_obj \<Rightarrow> CenterResponseCluster_obj" where
  "CenterResponseCluster_set_center_response_action v m = (CenterResponseCluster_set_has_center_response_action m)\<lparr>crco_center_response_action := v\<rparr>"

definition CenterResponseCluster_should_reporter_center_size :: "CenterResponseCluster_obj \<Rightarrow> int" where
  "CenterResponseCluster_should_reporter_center_size m = int (length (crco_should_reporter_center m))"

definition CenterResponseCluster_clear_should_reporter_center :: "CenterResponseCluster_obj \<Rightarrow> CenterResponseCluster_obj" where
  "CenterResponseCluster_clear_should_reporter_center m = m\<lparr>crco_should_reporter_center := []\<rparr>"

definition CenterResponseCluster_should_reporter_center_at :: "int \<Rightarrow> CenterResponseCluster_obj \<Rightarrow> fault + string" where
  "CenterResponseCluster_should_reporter_center_at i m = rep_get i (crco_should_reporter_center m)"

definition CenterResponseCluster_should_reporter_center_list :: "CenterResponseCluster_obj \<Rightarrow> string list" where
  "CenterResponseCluster_should_reporter_center_list m = crco_should_reporter_center m"

definition CenterResponseCluster_set_should_reporter_center :: "int \<Rightarrow> string \<Rightarrow> CenterResponseCluster_obj \<Rightarrow> fault + CenterResponseCluster_obj" where
  "CenterResponseCluster_set_should_reporter_center i v m =
     and_then (rep_set i v (crco_should_reporter_center m)) (\<lambda>vs. Inr (m\<lparr>crco_should_reporter_center := vs\<rparr>))"

definition CenterResponseCluster_set_should_reporter_center_chars :: "int \<Rightarrow> string \<Rightarrow> CenterResponseCluster_obj \<Rightarrow> fault + CenterResponseCluster_obj" where
  "CenterResponseCluster_set_should_reporter_center_chars i v = CenterResponseCluster_set_should_reporter_center i (c_str v)"

definition CenterResponseCluster_set_should_reporter_center_sized :: "int \<Rightarrow> string \<Rightarrow> nat \<Rightarrow> CenterResponseCluster_obj \<Rightarrow> fault + CenterResponseCluster_obj" where
  "CenterResponseCluster_set_should_reporter_center_sized i v n m =
     and_then (sized v n) (\<lambda>v. CenterResponseCluster_set_should_reporter_center i v m)"

definition CenterResponseCluster_add_should_reporter_center :: "string \<Rightarrow> CenterResponseCluster_obj \<Rightarrow> CenterResponseCluster_obj" where
  "CenterResponseCluster_add_should_reporter_center v m = m\<lparr>crco_should_reporter_center := crco_should_reporter_center m @ [v]\<rparr>"

definition CenterResponseCluster_add_should_reporter_center_chars :: "string \<Rightarrow> CenterResponseCluster_obj \<Rightarrow> CenterResponseCluster_obj" where
  "CenterResponseCluster_add_should_reporter_center_chars v = CenterResponseCluster_add_should_reporter_center (c_str v)"

definition CenterResponseCluster_add_should_reporter_center_sized :: "string \<Rightarrow> nat \<Rightarrow> CenterResponseCluster_obj \<Rightarrow> fault + CenterResponseCluster_obj" where
  "CenterResponseCluster_add_should_reporter_center_sized v n m =
     and_then (sized v n) (\<lambda>v. Inr (CenterResponseCluster_add_should_reporter_center v m))"

definition CenterResponseCluster_new :: "CenterResponseCluster_obj" where
  "CenterResponseCluster_new =
     \<lparr>crco_unknown_fields = [], crco_has_bits = 0, crco_cached_size = 0, crco_should_reporter_center = [],
       crco_center_response_action = CLUSTER_RESP\<rparr>"

definition CenterResponseCluster_delete :: "CenterResponseCluster_obj \<Rightarrow> heap \<Rightarrow> fault + heap" where
  "CenterResponseCluster_delete m h = Inr h"

definition CenterResponseCluster_obj_Clear :: "CenterResponseCluster_obj member" where
  "CenterResponseCluster_obj_Clear m h =
     and_then ((in_order
         [pure_member (\<lambda>m. m\<lparr>crco_center_response_action := CLUSTER_RESP\<rparr>)]) m h)
       (\<lambda>(m, h). Inr (m\<lparr>crco_should_reporter_center := [], crco_has_bits := 0, crco_unknown_fields := []\<rparr>, h))"

definition CenterResponseCluster_obj_MergeFrom :: "CenterResponseCluster_obj \<Rightarrow> CenterResponseCluster_obj member" where
  "CenterResponseCluster_obj_MergeFrom from_m = in_order
      [pure_member (\<lambda>m. m\<lparr>crco_should_reporter_center := crco_should_reporter_center m @ crco_should_reporter_center from_m\<rparr>),
       member_if (has_bit 0xff (crco_has_bits from_m)) (in_order
         [member_if (CenterResponseCluster_has_center_response_action from_m)
           (pure_member (CenterResponseCluster_set_center_response_action (CenterResponseCluster_center_response_action from_m)))]),
       pure_member (\<lambda>m. m\<lparr>crco_unknown_fields := crco_unknown_fields m @ crco_unknown_fields from_m\<rparr>)]"

definition CenterResponseCluster_obj_CopyFrom :: "bool \<Rightarrow> CenterResponseCluster_obj \<Rightarrow> CenterResponseCluster_obj member" where
  "CenterResponseCluster_obj_CopyFrom itself from_m m h =
     (if itself then Inr (m, h) else in_order [CenterResponseCluster_obj_Clear,
       CenterResponseCluster_obj_MergeFrom from_m] m h)"

definition CenterResponseCluster_copied :: "CenterResponseCluster_obj \<Rightarrow> heap \<Rightarrow> fault + (CenterResponseCluster_obj \<times> heap)" where
  "CenterResponseCluster_copied from_m = CenterResponseCluster_obj_MergeFrom from_m CenterResponseCluster_new"

definition CenterResponseCluster_Swap :: "CenterResponseCluster_obj \<Rightarrow> CenterResponseCluster_obj \<Rightarrow> CenterResponseCluster_obj \<times> CenterResponseCluster_obj" where
  "CenterResponseCluster_Swap m other =
     (m\<lparr>crco_center_response_action := crco_center_response_action other,
       crco_should_reporter_center := crco_should_reporter_center other, crco_has_bits := crco_has_bits other,
       crco_unknown_fields := crco_unknown_fields other, crco_cached_size := crco_cached_size other\<rparr>,
      other\<lparr>crco_center_response_action := crco_center_response_action m,
        crco_should_reporter_center := crco_should_reporter_center m, crco_has_bits := crco_has_bits m,
        crco_unknown_fields := crco_unknown_fields m, crco_cached_size := crco_cached_size m\<rparr>)"

definition CenterResponseCluster_strs :: "CenterResponseCluster_obj \<Rightarrow> nat list" where
  "CenterResponseCluster_strs m = []"

definition CenterResponseCluster_fits :: "CenterResponseCluster_obj \<Rightarrow> heap \<Rightarrow> bool" where
  "CenterResponseCluster_fits m h \<longleftrightarrow>
     (\<not> CenterResponseCluster_has_center_response_action m \<longrightarrow> crco_center_response_action m = CLUSTER_RESP)"

definition CenterResponseCluster_val :: "CenterResponseCluster_obj \<Rightarrow> heap \<Rightarrow> CenterResponseCluster_pb" where
  "CenterResponseCluster_val m h =
     \<lparr>crc_center_response_action = field_if (CenterResponseCluster_has_center_response_action m) (crco_center_response_action m),
      crc_should_reporter_center = crco_should_reporter_center m,
      crc_unknown = crco_unknown_fields m\<rparr>"

definition CenterResponseCluster_class :: "CenterResponseCluster_obj message_class" where
  "CenterResponseCluster_class = \<lparr>new_object = CenterResponseCluster_new,
    clear_member = CenterResponseCluster_obj_Clear, merge_member = CenterResponseCluster_obj_MergeFrom,
     swap_members = CenterResponseCluster_Swap, delete_object = CenterResponseCluster_delete\<rparr>"

definition CenterResponseCluster_accessors :: "(CenterResponseCluster_obj member \<times> (CenterResponseCluster_pb \<Rightarrow> CenterResponseCluster_pb)) set" where
  "CenterResponseCluster_accessors = {(f, g).
     (f, g) = (pure_member CenterResponseCluster_clear_center_response_action,
       (\<lambda>m. m\<lparr>crc_center_response_action := None\<rparr>)) \<or>
     (\<exists>v. (f, g) = (pure_member (CenterResponseCluster_set_center_response_action v),
       (\<lambda>m. m\<lparr>crc_center_response_action := Some v\<rparr>))) \<or>
     (f, g) = (pure_member CenterResponseCluster_clear_should_reporter_center,
       (\<lambda>m. m\<lparr>crc_should_reporter_center := []\<rparr>)) \<or>
     (\<exists>v. (f, g) = (pure_member (CenterResponseCluster_add_should_reporter_center v),
       (\<lambda>m. m\<lparr>crc_should_reporter_center := crc_should_reporter_center m @ [v]\<rparr>))) \<or>
     (\<exists>v. (f, g) = (pure_member (CenterResponseCluster_add_should_reporter_center_chars v),
       (\<lambda>m. m\<lparr>crc_should_reporter_center := crc_should_reporter_center m @ [c_str v]\<rparr>)))}"

subsection \<open>ClientWithCenter\<close>

record ClientWithCenter_obj =
  cwco_unknown_fields :: string
  cwco_has_bits :: u32
  cwco_cached_size :: int
  cwco_from_addr :: nat
  cwco_should_communicate_center :: "string list"
  cwco_cluster_server_list :: "string list"
  cwco_client_center_action :: ClientClusterAction

definition ClientWithCenter_has_from_addr :: "ClientWithCenter_obj \<Rightarrow> bool" where
  "ClientWithCenter_has_from_addr m = has_bit 1 (cwco_has_bits m)"

definition ClientWithCenter_set_has_from_addr :: "ClientWithCenter_obj \<Rightarrow> ClientWithCenter_obj" where
  "ClientWithCenter_set_has_from_addr m = m\<lparr>cwco_has_bits := set_has_bit 1 (cwco_has_bits m)\<rparr>"

definition ClientWithCenter_clear_has_from_addr :: "ClientWithCenter_obj \<Rightarrow> ClientWithCenter_obj" where
  "ClientWithCenter_clear_has_from_addr m = m\<lparr>cwco_has_bits := clear_has_bit 1 (cwco_has_bits m)\<rparr>"

definition ClientWithCenter_clear_from_addr :: "ClientWithCenter_obj member" where
  "ClientWithCenter_clear_from_addr m h =
     and_then (string_clear (cwco_from_addr m) h) (\<lambda>h. Inr (ClientWithCenter_clear_has_from_addr m, h))"

definition ClientWithCenter_from_addr :: "ClientWithCenter_obj \<Rightarrow> heap \<Rightarrow> fault + string" where
  "ClientWithCenter_from_addr m h = chars h (cwco_from_addr m)"

definition ClientWithCenter_set_from_addr :: "string \<Rightarrow> ClientWithCenter_obj member" where
  "ClientWithCenter_set_from_addr v m h =
     and_then (string_assign (cwco_from_addr m) v h) (\<lambda>(p, h).
       Inr ((ClientWithCenter_set_has_from_addr m)\<lparr>cwco_from_addr := p\<rparr>, h))"

definition ClientWithCenter_set_from_addr_chars :: "string \<Rightarrow> ClientWithCenter_obj member" where
  "ClientWithCenter_set_from_addr_chars v = ClientWithCenter_set_from_addr (c_str v)"

definition ClientWithCenter_set_from_addr_sized :: "string \<Rightarrow> nat \<Rightarrow> ClientWithCenter_obj member" where
  "ClientWithCenter_set_from_addr_sized v n m h =
     and_then (sized v n) (\<lambda>v. ClientWithCenter_set_from_addr v m h)"

definition ClientWithCenter_mutable_from_addr :: "ClientWithCenter_obj \<Rightarrow> heap \<Rightarrow> nat \<times> ClientWithCenter_obj \<times> heap" where
  "ClientWithCenter_mutable_from_addr m h =
     (case string_mutable (cwco_from_addr m) h of (p, h) \<Rightarrow> (p,
       (ClientWithCenter_set_has_from_addr m)\<lparr>cwco_from_addr := p\<rparr>, h))"

definition ClientWithCenter_release_from_addr :: "ClientWithCenter_obj \<Rightarrow> nat option \<times> ClientWithCenter_obj" where
  "ClientWithCenter_release_from_addr m =
     (case string_release (cwco_from_addr m) of (temp, p) \<Rightarrow> (temp,
       (ClientWithCenter_clear_has_from_addr m)\<lparr>cwco_from_addr := p\<rparr>))"

definition ClientWithCenter_set_allocated_from_addr :: "nat option \<Rightarrow> ClientWithCenter_obj member" where
  "ClientWithCenter_set_allocated_from_addr given m h =
     and_then (string_set_allocated (cwco_from_addr m) given h) (\<lambda>(is_set, p, h).
       Inr ((if is_set then ClientWithCenter_set_has_from_addr m else ClientWithCenter_clear_has_from_addr m)\<lparr>cwco_from_addr := p\<rparr>, h))"

definition ClientWithCenter_has_client_center_action :: "ClientWithCenter_obj \<Rightarrow> bool" where
  "ClientWithCenter_has_client_center_action m = has_bit 2 (cwco_has_bits m)"

definition ClientWithCenter_set_has_client_center_action :: "ClientWithCenter_obj \<Rightarrow> ClientWithCenter_obj" where
  "ClientWithCenter_set_has_client_center_action m = m\<lparr>cwco_has_bits := set_has_bit 2 (cwco_has_bits m)\<rparr>"

definition ClientWithCenter_clear_has_client_center_action :: "ClientWithCenter_obj \<Rightarrow> ClientWithCenter_obj" where
  "ClientWithCenter_clear_has_client_center_action m = m\<lparr>cwco_has_bits := clear_has_bit 2 (cwco_has_bits m)\<rparr>"

definition ClientWithCenter_clear_client_center_action :: "ClientWithCenter_obj \<Rightarrow> ClientWithCenter_obj" where
  "ClientWithCenter_clear_client_center_action m = ClientWithCenter_clear_has_client_center_action (m\<lparr>cwco_client_center_action := CLIENT_INIT_REQ\<rparr>)"

definition ClientWithCenter_client_center_action :: "ClientWithCenter_obj \<Rightarrow> ClientClusterAction" where
  "ClientWithCenter_client_center_action m = cwco_client_center_action m"

definition ClientWithCenter_set_client_center_action :: "ClientClusterAction \<Rightarrow> ClientWithCenter_obj \<Rightarrow> ClientWithCenter_obj" where
  "ClientWithCenter_set_client_center_action v m = (ClientWithCenter_set_has_client_center_action m)\<lparr>cwco_client_center_action := v\<rparr>"

definition ClientWithCenter_should_communicate_center_size :: "ClientWithCenter_obj \<Rightarrow> int" where
  "ClientWithCenter_should_communicate_center_size m = int (length (cwco_should_communicate_center m))"

definition ClientWithCenter_clear_should_communicate_center :: "ClientWithCenter_obj \<Rightarrow> ClientWithCenter_obj" where
  "ClientWithCenter_clear_should_communicate_center m = m\<lparr>cwco_should_communicate_center := []\<rparr>"

definition ClientWithCenter_should_communicate_center_at :: "int \<Rightarrow> ClientWithCenter_obj \<Rightarrow> fault + string" where
  "ClientWithCenter_should_communicate_center_at i m = rep_get i (cwco_should_communicate_center m)"

definition ClientWithCenter_should_communicate_center_list :: "ClientWithCenter_obj \<Rightarrow> string list" where
  "ClientWithCenter_should_communicate_center_list m = cwco_should_communicate_center m"

definition ClientWithCenter_set_should_communicate_center :: "int \<Rightarrow> string \<Rightarrow> ClientWithCenter_obj \<Rightarrow> fault + ClientWithCenter_obj" where
  "ClientWithCenter_set_should_communicate_center i v m =
     and_then (rep_set i v (cwco_should_communicate_center m)) (\<lambda>vs. Inr (m\<lparr>cwco_should_communicate_center := vs\<rparr>))"

definition ClientWithCenter_set_should_communicate_center_chars :: "int \<Rightarrow> string \<Rightarrow> ClientWithCenter_obj \<Rightarrow> fault + ClientWithCenter_obj" where
  "ClientWithCenter_set_should_communicate_center_chars i v = ClientWithCenter_set_should_communicate_center i (c_str v)"

definition ClientWithCenter_set_should_communicate_center_sized :: "int \<Rightarrow> string \<Rightarrow> nat \<Rightarrow> ClientWithCenter_obj \<Rightarrow> fault + ClientWithCenter_obj" where
  "ClientWithCenter_set_should_communicate_center_sized i v n m =
     and_then (sized v n) (\<lambda>v. ClientWithCenter_set_should_communicate_center i v m)"

definition ClientWithCenter_add_should_communicate_center :: "string \<Rightarrow> ClientWithCenter_obj \<Rightarrow> ClientWithCenter_obj" where
  "ClientWithCenter_add_should_communicate_center v m = m\<lparr>cwco_should_communicate_center := cwco_should_communicate_center m @ [v]\<rparr>"

definition ClientWithCenter_add_should_communicate_center_chars :: "string \<Rightarrow> ClientWithCenter_obj \<Rightarrow> ClientWithCenter_obj" where
  "ClientWithCenter_add_should_communicate_center_chars v = ClientWithCenter_add_should_communicate_center (c_str v)"

definition ClientWithCenter_add_should_communicate_center_sized :: "string \<Rightarrow> nat \<Rightarrow> ClientWithCenter_obj \<Rightarrow> fault + ClientWithCenter_obj" where
  "ClientWithCenter_add_should_communicate_center_sized v n m =
     and_then (sized v n) (\<lambda>v. Inr (ClientWithCenter_add_should_communicate_center v m))"

definition ClientWithCenter_cluster_server_list_size :: "ClientWithCenter_obj \<Rightarrow> int" where
  "ClientWithCenter_cluster_server_list_size m = int (length (cwco_cluster_server_list m))"

definition ClientWithCenter_clear_cluster_server_list :: "ClientWithCenter_obj \<Rightarrow> ClientWithCenter_obj" where
  "ClientWithCenter_clear_cluster_server_list m = m\<lparr>cwco_cluster_server_list := []\<rparr>"

definition ClientWithCenter_cluster_server_list_at :: "int \<Rightarrow> ClientWithCenter_obj \<Rightarrow> fault + string" where
  "ClientWithCenter_cluster_server_list_at i m = rep_get i (cwco_cluster_server_list m)"

definition ClientWithCenter_cluster_server_list_list :: "ClientWithCenter_obj \<Rightarrow> string list" where
  "ClientWithCenter_cluster_server_list_list m = cwco_cluster_server_list m"

definition ClientWithCenter_set_cluster_server_list :: "int \<Rightarrow> string \<Rightarrow> ClientWithCenter_obj \<Rightarrow> fault + ClientWithCenter_obj" where
  "ClientWithCenter_set_cluster_server_list i v m =
     and_then (rep_set i v (cwco_cluster_server_list m)) (\<lambda>vs. Inr (m\<lparr>cwco_cluster_server_list := vs\<rparr>))"

definition ClientWithCenter_set_cluster_server_list_chars :: "int \<Rightarrow> string \<Rightarrow> ClientWithCenter_obj \<Rightarrow> fault + ClientWithCenter_obj" where
  "ClientWithCenter_set_cluster_server_list_chars i v = ClientWithCenter_set_cluster_server_list i (c_str v)"

definition ClientWithCenter_set_cluster_server_list_sized :: "int \<Rightarrow> string \<Rightarrow> nat \<Rightarrow> ClientWithCenter_obj \<Rightarrow> fault + ClientWithCenter_obj" where
  "ClientWithCenter_set_cluster_server_list_sized i v n m =
     and_then (sized v n) (\<lambda>v. ClientWithCenter_set_cluster_server_list i v m)"

definition ClientWithCenter_add_cluster_server_list :: "string \<Rightarrow> ClientWithCenter_obj \<Rightarrow> ClientWithCenter_obj" where
  "ClientWithCenter_add_cluster_server_list v m = m\<lparr>cwco_cluster_server_list := cwco_cluster_server_list m @ [v]\<rparr>"

definition ClientWithCenter_add_cluster_server_list_chars :: "string \<Rightarrow> ClientWithCenter_obj \<Rightarrow> ClientWithCenter_obj" where
  "ClientWithCenter_add_cluster_server_list_chars v = ClientWithCenter_add_cluster_server_list (c_str v)"

definition ClientWithCenter_add_cluster_server_list_sized :: "string \<Rightarrow> nat \<Rightarrow> ClientWithCenter_obj \<Rightarrow> fault + ClientWithCenter_obj" where
  "ClientWithCenter_add_cluster_server_list_sized v n m =
     and_then (sized v n) (\<lambda>v. Inr (ClientWithCenter_add_cluster_server_list v m))"

definition ClientWithCenter_new :: "ClientWithCenter_obj" where
  "ClientWithCenter_new =
     \<lparr>cwco_unknown_fields = [], cwco_has_bits = 0, cwco_cached_size = 0, cwco_from_addr = GetEmptyString,
       cwco_should_communicate_center = [], cwco_cluster_server_list = [],
       cwco_client_center_action = CLIENT_INIT_REQ\<rparr>"

definition ClientWithCenter_delete :: "ClientWithCenter_obj \<Rightarrow> heap \<Rightarrow> fault + heap" where
  "ClientWithCenter_delete m h = string_delete (cwco_from_addr m) h"

definition ClientWithCenter_obj_Clear :: "ClientWithCenter_obj member" where
  "ClientWithCenter_obj_Clear m h =
     and_then (member_if (has_bit 3 (cwco_has_bits m)) (in_order
         [pure_member (\<lambda>m. m\<lparr>cwco_client_center_action := CLIENT_INIT_REQ\<rparr>),
          member_if (ClientWithCenter_has_from_addr m) (\<lambda>m h. and_then (string_clear (cwco_from_addr m) h)
            (\<lambda>h. Inr (m, h)))]) m h)
       (\<lambda>(m, h). Inr (m\<lparr>cwco_should_communicate_center := [], cwco_cluster_server_list := [],
         cwco_has_bits := 0, cwco_unknown_fields := []\<rparr>, h))"

definition ClientWithCenter_obj_MergeFrom :: "ClientWithCenter_obj \<Rightarrow> ClientWithCenter_obj member" where
  "ClientWithCenter_obj_MergeFrom from_m = in_order
      [pure_member (\<lambda>m. m\<lparr>cwco_should_communicate_center := cwco_should_communicate_center m @ cwco_should_communicate_center from_m, cwco_cluster_server_list := cwco_cluster_server_list m @ cwco_cluster_server_list from_m\<rparr>),
       member_if (has_bit 0xff (cwco_has_bits from_m)) (in_order
         [member_if (ClientWithCenter_has_from_addr from_m)
           (\<lambda>m h. and_then (ClientWithCenter_from_addr from_m h) (\<lambda>v. ClientWithCenter_set_from_addr v m h)),
          member_if (ClientWithCenter_has_client_center_action from_m)
            (pure_member (ClientWithCenter_set_client_center_action (ClientWithCenter_client_center_action from_m)))]),
       pure_member (\<lambda>m. m\<lparr>cwco_unknown_fields := cwco_unknown_fields m @ cwco_unknown_fields from_m\<rparr>)]"

definition ClientWithCenter_obj_CopyFrom :: "bool \<Rightarrow> ClientWithCenter_obj \<Rightarrow> ClientWithCenter_obj member" where
  "ClientWithCenter_obj_CopyFrom itself from_m m h =
     (if itself then Inr (m, h) else in_order [ClientWithCenter_obj_Clear,
       ClientWithCenter_obj_MergeFrom from_m] m h)"

definition ClientWithCenter_copied :: "ClientWithCenter_obj \<Rightarrow> heap \<Rightarrow> fault + (ClientWithCenter_obj \<times> heap)" where
  "ClientWithCenter_copied from_m = ClientWithCenter_obj_MergeFrom from_m ClientWithCenter_new"

definition ClientWithCenter_Swap :: "ClientWithCenter_obj \<Rightarrow> ClientWithCenter_obj \<Rightarrow> ClientWithCenter_obj \<times> ClientWithCenter_obj" where
  "ClientWithCenter_Swap m other =
     (m\<lparr>cwco_from_addr := cwco_from_addr other, cwco_client_center_action := cwco_client_center_action other,
       cwco_should_communicate_center := cwco_should_communicate_center other,
       cwco_cluster_server_list := cwco_cluster_server_list other, cwco_has_bits := cwco_has_bits other,
       cwco_unknown_fields := cwco_unknown_fields other, cwco_cached_size := cwco_cached_size other\<rparr>,
      other\<lparr>cwco_from_addr := cwco_from_addr m, cwco_client_center_action := cwco_client_center_action m,
        cwco_should_communicate_center := cwco_should_communicate_center m,
        cwco_cluster_server_list := cwco_cluster_server_list m, cwco_has_bits := cwco_has_bits m,
        cwco_unknown_fields := cwco_unknown_fields m, cwco_cached_size := cwco_cached_size m\<rparr>)"

definition ClientWithCenter_strs :: "ClientWithCenter_obj \<Rightarrow> nat list" where
  "ClientWithCenter_strs m = [cwco_from_addr m]"

definition ClientWithCenter_fits :: "ClientWithCenter_obj \<Rightarrow> heap \<Rightarrow> bool" where
  "ClientWithCenter_fits m h \<longleftrightarrow>
     (\<not> ClientWithCenter_has_from_addr m \<longrightarrow> text_at h (cwco_from_addr m) = []) \<and>
     (\<not> ClientWithCenter_has_client_center_action m \<longrightarrow> cwco_client_center_action m = CLIENT_INIT_REQ)"

definition ClientWithCenter_val :: "ClientWithCenter_obj \<Rightarrow> heap \<Rightarrow> ClientWithCenter_pb" where
  "ClientWithCenter_val m h =
     \<lparr>cwc_from_addr = field_if (ClientWithCenter_has_from_addr m) (text_at h (cwco_from_addr m)),
      cwc_client_center_action = field_if (ClientWithCenter_has_client_center_action m) (cwco_client_center_action m),
      cwc_should_communicate_center = cwco_should_communicate_center m,
      cwc_cluster_server_list = cwco_cluster_server_list m,
      cwc_unknown = cwco_unknown_fields m\<rparr>"

definition ClientWithCenter_class :: "ClientWithCenter_obj message_class" where
  "ClientWithCenter_class = \<lparr>new_object = ClientWithCenter_new, clear_member = ClientWithCenter_obj_Clear,
    merge_member = ClientWithCenter_obj_MergeFrom,
     swap_members = ClientWithCenter_Swap, delete_object = ClientWithCenter_delete\<rparr>"

definition ClientWithCenter_accessors :: "(ClientWithCenter_obj member \<times> (ClientWithCenter_pb \<Rightarrow> ClientWithCenter_pb)) set" where
  "ClientWithCenter_accessors = {(f, g).
     (f, g) = (ClientWithCenter_clear_from_addr, (\<lambda>m. m\<lparr>cwc_from_addr := None\<rparr>)) \<or>
     (\<exists>v. (f, g) = (ClientWithCenter_set_from_addr v, (\<lambda>m. m\<lparr>cwc_from_addr := Some v\<rparr>))) \<or>
     (\<exists>v. (f, g) = (ClientWithCenter_set_from_addr_chars v, (\<lambda>m. m\<lparr>cwc_from_addr := Some (c_str v)\<rparr>))) \<or>
     (\<exists>v n. n \<le> length v \<and> (f, g) = (ClientWithCenter_set_from_addr_sized v n,
       (\<lambda>m. m\<lparr>cwc_from_addr := Some (take n v)\<rparr>))) \<or>
     (f, g) = (\<lambda>m h. case ClientWithCenter_mutable_from_addr m h of (p, m, h) \<Rightarrow> Inr (m, h),
       (\<lambda>m. m\<lparr>cwc_from_addr := Some (case cwc_from_addr m of None \<Rightarrow> [] | Some s \<Rightarrow> s)\<rparr>)) \<or>
     (f, g) = (\<lambda>m h. case ClientWithCenter_release_from_addr m of (p, m) \<Rightarrow> and_then (free_ptr p h)
       (\<lambda>h. Inr (m, h)), (\<lambda>m. m\<lparr>cwc_from_addr := None\<rparr>)) \<or>
     (f, g) = (ClientWithCenter_set_allocated_from_addr None, (\<lambda>m. m\<lparr>cwc_from_addr := None\<rparr>)) \<or>
     (\<exists>v. (f, g) =
       (\<lambda>m h. case malloc (Chars v) h of (p, h) \<Rightarrow> ClientWithCenter_set_allocated_from_addr (Some p) m h,
       (\<lambda>m. m\<lparr>cwc_from_addr := Some v\<rparr>))) \<or>
     (f, g) = (pure_member ClientWithCenter_clear_client_center_action,
       (\<lambda>m. m\<lparr>cwc_client_center_action := None\<rparr>)) \<or>
     (\<exists>v. (f, g) = (pure_member (ClientWithCenter_set_client_center_action v),
       (\<lambda>m. m\<lparr>cwc_client_center_action := Some v\<rparr>))) \<or>
     (f, g) = (pure_member ClientWithCenter_clear_should_communicate_center,
       (\<lambda>m. m\<lparr>cwc_should_communicate_center := []\<rparr>)) \<or>
     (\<exists>v. (f, g) = (pure_member (ClientWithCenter_add_should_communicate_center v),
       (\<lambda>m. m\<lparr>cwc_should_communicate_center := cwc_should_communicate_center m @ [v]\<rparr>))) \<or>
     (\<exists>v. (f, g) = (pure_member (ClientWithCenter_add_should_communicate_center_chars v),
       (\<lambda>m. m\<lparr>cwc_should_communicate_center := cwc_should_communicate_center m @ [c_str v]\<rparr>))) \<or>
     (f, g) = (pure_member ClientWithCenter_clear_cluster_server_list, (\<lambda>m. m\<lparr>cwc_cluster_server_list := []\<rparr>)) \<or>
     (\<exists>v. (f, g) = (pure_member (ClientWithCenter_add_cluster_server_list v),
       (\<lambda>m. m\<lparr>cwc_cluster_server_list := cwc_cluster_server_list m @ [v]\<rparr>))) \<or>
     (\<exists>v. (f, g) = (pure_member (ClientWithCenter_add_cluster_server_list_chars v),
       (\<lambda>m. m\<lparr>cwc_cluster_server_list := cwc_cluster_server_list m @ [c_str v]\<rparr>)))}"

subsection \<open>LoadBalancerMetaData\<close>

record LoadBalancerMetaData_obj =
  lbmo_unknown_fields :: string
  lbmo_has_bits :: u32
  lbmo_cached_size :: int
  lbmo_server_addr :: nat
  lbmo_vid :: u32

definition LoadBalancerMetaData_has_vid :: "LoadBalancerMetaData_obj \<Rightarrow> bool" where
  "LoadBalancerMetaData_has_vid m = has_bit 1 (lbmo_has_bits m)"

definition LoadBalancerMetaData_set_has_vid :: "LoadBalancerMetaData_obj \<Rightarrow> LoadBalancerMetaData_obj" where
  "LoadBalancerMetaData_set_has_vid m = m\<lparr>lbmo_has_bits := set_has_bit 1 (lbmo_has_bits m)\<rparr>"

definition LoadBalancerMetaData_clear_has_vid :: "LoadBalancerMetaData_obj \<Rightarrow> LoadBalancerMetaData_obj" where
  "LoadBalancerMetaData_clear_has_vid m = m\<lparr>lbmo_has_bits := clear_has_bit 1 (lbmo_has_bits m)\<rparr>"

definition LoadBalancerMetaData_clear_vid :: "LoadBalancerMetaData_obj \<Rightarrow> LoadBalancerMetaData_obj" where
  "LoadBalancerMetaData_clear_vid m = LoadBalancerMetaData_clear_has_vid (m\<lparr>lbmo_vid := 0\<rparr>)"

definition LoadBalancerMetaData_vid :: "LoadBalancerMetaData_obj \<Rightarrow> u32" where
  "LoadBalancerMetaData_vid m = lbmo_vid m"

definition LoadBalancerMetaData_set_vid :: "u32 \<Rightarrow> LoadBalancerMetaData_obj \<Rightarrow> LoadBalancerMetaData_obj" where
  "LoadBalancerMetaData_set_vid v m = (LoadBalancerMetaData_set_has_vid m)\<lparr>lbmo_vid := v\<rparr>"

definition LoadBalancerMetaData_has_server_addr :: "LoadBalancerMetaData_obj \<Rightarrow> bool" where
  "LoadBalancerMetaData_has_server_addr m = has_bit 2 (lbmo_has_bits m)"

definition LoadBalancerMetaData_set_has_server_addr :: "LoadBalancerMetaData_obj \<Rightarrow> LoadBalancerMetaData_obj" where
  "LoadBalancerMetaData_set_has_server_addr m = m\<lparr>lbmo_has_bits := set_has_bit 2 (lbmo_has_bits m)\<rparr>"

definition LoadBalancerMetaData_clear_has_server_addr :: "LoadBalancerMetaData_obj \<Rightarrow> LoadBalancerMetaData_obj" where
  "LoadBalancerMetaData_clear_has_server_addr m = m\<lparr>lbmo_has_bits := clear_has_bit 2 (lbmo_has_bits m)\<rparr>"

definition LoadBalancerMetaData_clear_server_addr :: "LoadBalancerMetaData_obj member" where
  "LoadBalancerMetaData_clear_server_addr m h =
     and_then (string_clear (lbmo_server_addr m) h) (\<lambda>h. Inr (LoadBalancerMetaData_clear_has_server_addr m, h))"

definition LoadBalancerMetaData_server_addr :: "LoadBalancerMetaData_obj \<Rightarrow> heap \<Rightarrow> fault + string" where
  "LoadBalancerMetaData_server_addr m h = chars h (lbmo_server_addr m)"

definition LoadBalancerMetaData_set_server_addr :: "string \<Rightarrow> LoadBalancerMetaData_obj member" where
  "LoadBalancerMetaData_set_server_addr v m h =
     and_then (string_assign (lbmo_server_addr m) v h) (\<lambda>(p, h).
       Inr ((LoadBalancerMetaData_set_has_server_addr m)\<lparr>lbmo_server_addr := p\<rparr>, h))"

definition LoadBalancerMetaData_set_server_addr_chars :: "string \<Rightarrow> LoadBalancerMetaData_obj member" where
  "LoadBalancerMetaData_set_server_addr_chars v = LoadBalancerMetaData_set_server_addr (c_str v)"

definition LoadBalancerMetaData_set_server_addr_sized :: "string \<Rightarrow> nat \<Rightarrow> LoadBalancerMetaData_obj member" where
  "LoadBalancerMetaData_set_server_addr_sized v n m h =
     and_then (sized v n) (\<lambda>v. LoadBalancerMetaData_set_server_addr v m h)"

definition LoadBalancerMetaData_mutable_server_addr :: "LoadBalancerMetaData_obj \<Rightarrow> heap \<Rightarrow> nat \<times> LoadBalancerMetaData_obj \<times> heap" where
  "LoadBalancerMetaData_mutable_server_addr m h =
     (case string_mutable (lbmo_server_addr m) h of (p, h) \<Rightarrow> (p,
       (LoadBalancerMetaData_set_has_server_addr m)\<lparr>lbmo_server_addr := p\<rparr>, h))"

definition LoadBalancerMetaData_release_server_addr :: "LoadBalancerMetaData_obj \<Rightarrow> nat option \<times> LoadBalancerMetaData_obj" where
  "LoadBalancerMetaData_release_server_addr m =
     (case string_release (lbmo_server_addr m) of (temp, p) \<Rightarrow> (temp,
       (LoadBalancerMetaData_clear_has_server_addr m)\<lparr>lbmo_server_addr := p\<rparr>))"

definition LoadBalancerMetaData_set_allocated_server_addr :: "nat option \<Rightarrow> LoadBalancerMetaData_obj member" where
  "LoadBalancerMetaData_set_allocated_server_addr given m h =
     and_then (string_set_allocated (lbmo_server_addr m) given h) (\<lambda>(is_set, p, h).
       Inr ((if is_set then LoadBalancerMetaData_set_has_server_addr m else LoadBalancerMetaData_clear_has_server_addr m)\<lparr>lbmo_server_addr := p\<rparr>, h))"

definition LoadBalancerMetaData_new :: "LoadBalancerMetaData_obj" where
  "LoadBalancerMetaData_new =
     \<lparr>lbmo_unknown_fields = [], lbmo_has_bits = 0, lbmo_cached_size = 0, lbmo_server_addr = GetEmptyString,
       lbmo_vid = 0\<rparr>"

definition LoadBalancerMetaData_delete :: "LoadBalancerMetaData_obj \<Rightarrow> heap \<Rightarrow> fault + heap" where
  "LoadBalancerMetaData_delete m h = string_delete (lbmo_server_addr m) h"

definition LoadBalancerMetaData_obj_Clear :: "LoadBalancerMetaData_obj member" where
  "LoadBalancerMetaData_obj_Clear m h =
     and_then (member_if (has_bit 3 (lbmo_has_bits m)) (in_order
         [pure_member (\<lambda>m. m\<lparr>lbmo_vid := 0\<rparr>),
          member_if (LoadBalancerMetaData_has_server_addr m)
            (\<lambda>m h. and_then (string_clear (lbmo_server_addr m) h) (\<lambda>h. Inr (m, h)))]) m h)
       (\<lambda>(m, h). Inr (m\<lparr>lbmo_has_bits := 0, lbmo_unknown_fields := []\<rparr>, h))"

definition LoadBalancerMetaData_obj_MergeFrom :: "LoadBalancerMetaData_obj \<Rightarrow> LoadBalancerMetaData_obj member" where
  "LoadBalancerMetaData_obj_MergeFrom from_m = in_order
      [member_if (has_bit 0xff (lbmo_has_bits from_m)) (in_order
         [member_if (LoadBalancerMetaData_has_vid from_m)
           (pure_member (LoadBalancerMetaData_set_vid (LoadBalancerMetaData_vid from_m))),
          member_if (LoadBalancerMetaData_has_server_addr from_m)
            (\<lambda>m h. and_then (LoadBalancerMetaData_server_addr from_m h)
            (\<lambda>v. LoadBalancerMetaData_set_server_addr v m h))]),
       pure_member (\<lambda>m. m\<lparr>lbmo_unknown_fields := lbmo_unknown_fields m @ lbmo_unknown_fields from_m\<rparr>)]"

definition LoadBalancerMetaData_obj_CopyFrom :: "bool \<Rightarrow> LoadBalancerMetaData_obj \<Rightarrow> LoadBalancerMetaData_obj member" where
  "LoadBalancerMetaData_obj_CopyFrom itself from_m m h =
     (if itself then Inr (m, h) else in_order [LoadBalancerMetaData_obj_Clear,
       LoadBalancerMetaData_obj_MergeFrom from_m] m h)"

definition LoadBalancerMetaData_copied :: "LoadBalancerMetaData_obj \<Rightarrow> heap \<Rightarrow> fault + (LoadBalancerMetaData_obj \<times> heap)" where
  "LoadBalancerMetaData_copied from_m = LoadBalancerMetaData_obj_MergeFrom from_m LoadBalancerMetaData_new"

definition LoadBalancerMetaData_Swap :: "LoadBalancerMetaData_obj \<Rightarrow> LoadBalancerMetaData_obj \<Rightarrow> LoadBalancerMetaData_obj \<times> LoadBalancerMetaData_obj" where
  "LoadBalancerMetaData_Swap m other =
     (m\<lparr>lbmo_vid := lbmo_vid other, lbmo_server_addr := lbmo_server_addr other,
       lbmo_has_bits := lbmo_has_bits other, lbmo_unknown_fields := lbmo_unknown_fields other,
       lbmo_cached_size := lbmo_cached_size other\<rparr>,
      other\<lparr>lbmo_vid := lbmo_vid m, lbmo_server_addr := lbmo_server_addr m, lbmo_has_bits := lbmo_has_bits m,
        lbmo_unknown_fields := lbmo_unknown_fields m, lbmo_cached_size := lbmo_cached_size m\<rparr>)"

definition LoadBalancerMetaData_strs :: "LoadBalancerMetaData_obj \<Rightarrow> nat list" where
  "LoadBalancerMetaData_strs m = [lbmo_server_addr m]"

definition LoadBalancerMetaData_fits :: "LoadBalancerMetaData_obj \<Rightarrow> heap \<Rightarrow> bool" where
  "LoadBalancerMetaData_fits m h \<longleftrightarrow>
     (\<not> LoadBalancerMetaData_has_vid m \<longrightarrow> lbmo_vid m = 0) \<and>
     (\<not> LoadBalancerMetaData_has_server_addr m \<longrightarrow> text_at h (lbmo_server_addr m) = [])"

definition LoadBalancerMetaData_val :: "LoadBalancerMetaData_obj \<Rightarrow> heap \<Rightarrow> LoadBalancerMetaData_pb" where
  "LoadBalancerMetaData_val m h =
     \<lparr>lbm_vid = field_if (LoadBalancerMetaData_has_vid m) (lbmo_vid m),
      lbm_server_addr = field_if (LoadBalancerMetaData_has_server_addr m) (text_at h (lbmo_server_addr m)),
      lbm_unknown = lbmo_unknown_fields m\<rparr>"

definition LoadBalancerMetaData_class :: "LoadBalancerMetaData_obj message_class" where
  "LoadBalancerMetaData_class = \<lparr>new_object = LoadBalancerMetaData_new,
    clear_member = LoadBalancerMetaData_obj_Clear, merge_member = LoadBalancerMetaData_obj_MergeFrom,
     swap_members = LoadBalancerMetaData_Swap, delete_object = LoadBalancerMetaData_delete\<rparr>"

definition LoadBalancerMetaData_accessors :: "(LoadBalancerMetaData_obj member \<times> (LoadBalancerMetaData_pb \<Rightarrow> LoadBalancerMetaData_pb)) set" where
  "LoadBalancerMetaData_accessors = {(f, g).
     (f, g) = (pure_member LoadBalancerMetaData_clear_vid, (\<lambda>m. m\<lparr>lbm_vid := None\<rparr>)) \<or>
     (\<exists>v. (f, g) = (pure_member (LoadBalancerMetaData_set_vid v), (\<lambda>m. m\<lparr>lbm_vid := Some v\<rparr>))) \<or>
     (f, g) = (LoadBalancerMetaData_clear_server_addr, (\<lambda>m. m\<lparr>lbm_server_addr := None\<rparr>)) \<or>
     (\<exists>v. (f, g) = (LoadBalancerMetaData_set_server_addr v, (\<lambda>m. m\<lparr>lbm_server_addr := Some v\<rparr>))) \<or>
     (\<exists>v. (f, g) = (LoadBalancerMetaData_set_server_addr_chars v, (\<lambda>m. m\<lparr>lbm_server_addr := Some (c_str v)\<rparr>))) \<or>
     (\<exists>v n. n \<le> length v \<and> (f, g) = (LoadBalancerMetaData_set_server_addr_sized v n,
       (\<lambda>m. m\<lparr>lbm_server_addr := Some (take n v)\<rparr>))) \<or>
     (f, g) = (\<lambda>m h. case LoadBalancerMetaData_mutable_server_addr m h of (p, m, h) \<Rightarrow> Inr (m, h),
       (\<lambda>m. m\<lparr>lbm_server_addr := Some (case lbm_server_addr m of None \<Rightarrow> [] | Some s \<Rightarrow> s)\<rparr>)) \<or>
     (f, g) = (\<lambda>m h. case LoadBalancerMetaData_release_server_addr m of (p, m) \<Rightarrow> and_then (free_ptr p h)
       (\<lambda>h. Inr (m, h)), (\<lambda>m. m\<lparr>lbm_server_addr := None\<rparr>)) \<or>
     (f, g) = (LoadBalancerMetaData_set_allocated_server_addr None, (\<lambda>m. m\<lparr>lbm_server_addr := None\<rparr>)) \<or>
     (\<exists>v. (f, g) =
       (\<lambda>m h. case malloc (Chars v) h of (p, h) \<Rightarrow> LoadBalancerMetaData_set_allocated_server_addr (Some p) m h,
       (\<lambda>m. m\<lparr>lbm_server_addr := Some v\<rparr>)))}"

subsection \<open>CentersProto\<close>

record CentersProto_obj =
  cpo_unknown_fields :: string
  cpo_has_bits :: u32
  cpo_cached_size :: int
  cpo_from_center_addr :: nat
  cpo_center_status :: CenterStatus
  cpo_center_action :: CenterAction
  cpo_start_time :: u64
  cpo_lc_start_time :: u64
  cpo_logical_clock :: u64
  cpo_leader_center :: nat
  cpo_server_infos_list :: "RpcClusterServer_pb list"
  cpo_lb_result :: "LoadBalancerMetaData_pb list"

definition CentersProto_has_from_center_addr :: "CentersProto_obj \<Rightarrow> bool" where
  "CentersProto_has_from_center_addr m = has_bit 1 (cpo_has_bits m)"

definition CentersProto_set_has_from_center_addr :: "CentersProto_obj \<Rightarrow> CentersProto_obj" where
  "CentersProto_set_has_from_center_addr m = m\<lparr>cpo_has_bits := set_has_bit 1 (cpo_has_bits m)\<rparr>"

definition CentersProto_clear_has_from_center_addr :: "CentersProto_obj \<Rightarrow> CentersProto_obj" where
  "CentersProto_clear_has_from_center_addr m = m\<lparr>cpo_has_bits := clear_has_bit 1 (cpo_has_bits m)\<rparr>"

definition CentersProto_clear_from_center_addr :: "CentersProto_obj member" where
  "CentersProto_clear_from_center_addr m h =
     and_then (string_clear (cpo_from_center_addr m) h)
       (\<lambda>h. Inr (CentersProto_clear_has_from_center_addr m, h))"

definition CentersProto_from_center_addr :: "CentersProto_obj \<Rightarrow> heap \<Rightarrow> fault + string" where
  "CentersProto_from_center_addr m h = chars h (cpo_from_center_addr m)"

definition CentersProto_set_from_center_addr :: "string \<Rightarrow> CentersProto_obj member" where
  "CentersProto_set_from_center_addr v m h =
     and_then (string_assign (cpo_from_center_addr m) v h) (\<lambda>(p, h).
       Inr ((CentersProto_set_has_from_center_addr m)\<lparr>cpo_from_center_addr := p\<rparr>, h))"

definition CentersProto_set_from_center_addr_chars :: "string \<Rightarrow> CentersProto_obj member" where
  "CentersProto_set_from_center_addr_chars v = CentersProto_set_from_center_addr (c_str v)"

definition CentersProto_set_from_center_addr_sized :: "string \<Rightarrow> nat \<Rightarrow> CentersProto_obj member" where
  "CentersProto_set_from_center_addr_sized v n m h =
     and_then (sized v n) (\<lambda>v. CentersProto_set_from_center_addr v m h)"

definition CentersProto_mutable_from_center_addr :: "CentersProto_obj \<Rightarrow> heap \<Rightarrow> nat \<times> CentersProto_obj \<times> heap" where
  "CentersProto_mutable_from_center_addr m h =
     (case string_mutable (cpo_from_center_addr m) h of (p, h) \<Rightarrow> (p,
       (CentersProto_set_has_from_center_addr m)\<lparr>cpo_from_center_addr := p\<rparr>, h))"

definition CentersProto_release_from_center_addr :: "CentersProto_obj \<Rightarrow> nat option \<times> CentersProto_obj" where
  "CentersProto_release_from_center_addr m =
     (case string_release (cpo_from_center_addr m) of (temp, p) \<Rightarrow> (temp,
       (CentersProto_clear_has_from_center_addr m)\<lparr>cpo_from_center_addr := p\<rparr>))"

definition CentersProto_set_allocated_from_center_addr :: "nat option \<Rightarrow> CentersProto_obj member" where
  "CentersProto_set_allocated_from_center_addr given m h =
     and_then (string_set_allocated (cpo_from_center_addr m) given h) (\<lambda>(is_set, p, h).
       Inr ((if is_set then CentersProto_set_has_from_center_addr m else CentersProto_clear_has_from_center_addr m)\<lparr>cpo_from_center_addr := p\<rparr>, h))"

definition CentersProto_has_center_status :: "CentersProto_obj \<Rightarrow> bool" where
  "CentersProto_has_center_status m = has_bit 2 (cpo_has_bits m)"

definition CentersProto_set_has_center_status :: "CentersProto_obj \<Rightarrow> CentersProto_obj" where
  "CentersProto_set_has_center_status m = m\<lparr>cpo_has_bits := set_has_bit 2 (cpo_has_bits m)\<rparr>"

definition CentersProto_clear_has_center_status :: "CentersProto_obj \<Rightarrow> CentersProto_obj" where
  "CentersProto_clear_has_center_status m = m\<lparr>cpo_has_bits := clear_has_bit 2 (cpo_has_bits m)\<rparr>"

definition CentersProto_clear_center_status :: "CentersProto_obj \<Rightarrow> CentersProto_obj" where
  "CentersProto_clear_center_status m = CentersProto_clear_has_center_status (m\<lparr>cpo_center_status := LOOKING\<rparr>)"

definition CentersProto_center_status :: "CentersProto_obj \<Rightarrow> CenterStatus" where
  "CentersProto_center_status m = cpo_center_status m"

definition CentersProto_set_center_status :: "CenterStatus \<Rightarrow> CentersProto_obj \<Rightarrow> CentersProto_obj" where
  "CentersProto_set_center_status v m = (CentersProto_set_has_center_status m)\<lparr>cpo_center_status := v\<rparr>"

definition CentersProto_has_center_action :: "CentersProto_obj \<Rightarrow> bool" where
  "CentersProto_has_center_action m = has_bit 4 (cpo_has_bits m)"

definition CentersProto_set_has_center_action :: "CentersProto_obj \<Rightarrow> CentersProto_obj" where
  "CentersProto_set_has_center_action m = m\<lparr>cpo_has_bits := set_has_bit 4 (cpo_has_bits m)\<rparr>"

definition CentersProto_clear_has_center_action :: "CentersProto_obj \<Rightarrow> CentersProto_obj" where
  "CentersProto_clear_has_center_action m = m\<lparr>cpo_has_bits := clear_has_bit 4 (cpo_has_bits m)\<rparr>"

definition CentersProto_clear_center_action :: "CentersProto_obj \<Rightarrow> CentersProto_obj" where
  "CentersProto_clear_center_action m = CentersProto_clear_has_center_action (m\<lparr>cpo_center_action := INQUIRY\<rparr>)"

definition CentersProto_center_action :: "CentersProto_obj \<Rightarrow> CenterAction" where
  "CentersProto_center_action m = cpo_center_action m"

definition CentersProto_set_center_action :: "CenterAction \<Rightarrow> CentersProto_obj \<Rightarrow> CentersProto_obj" where
  "CentersProto_set_center_action v m = (CentersProto_set_has_center_action m)\<lparr>cpo_center_action := v\<rparr>"

definition CentersProto_has_start_time :: "CentersProto_obj \<Rightarrow> bool" where
  "CentersProto_has_start_time m = has_bit 8 (cpo_has_bits m)"

definition CentersProto_set_has_start_time :: "CentersProto_obj \<Rightarrow> CentersProto_obj" where
  "CentersProto_set_has_start_time m = m\<lparr>cpo_has_bits := set_has_bit 8 (cpo_has_bits m)\<rparr>"

definition CentersProto_clear_has_start_time :: "CentersProto_obj \<Rightarrow> CentersProto_obj" where
  "CentersProto_clear_has_start_time m = m\<lparr>cpo_has_bits := clear_has_bit 8 (cpo_has_bits m)\<rparr>"

definition CentersProto_clear_start_time :: "CentersProto_obj \<Rightarrow> CentersProto_obj" where
  "CentersProto_clear_start_time m = CentersProto_clear_has_start_time (m\<lparr>cpo_start_time := 0\<rparr>)"

definition CentersProto_start_time :: "CentersProto_obj \<Rightarrow> u64" where
  "CentersProto_start_time m = cpo_start_time m"

definition CentersProto_set_start_time :: "u64 \<Rightarrow> CentersProto_obj \<Rightarrow> CentersProto_obj" where
  "CentersProto_set_start_time v m = (CentersProto_set_has_start_time m)\<lparr>cpo_start_time := v\<rparr>"

definition CentersProto_has_lc_start_time :: "CentersProto_obj \<Rightarrow> bool" where
  "CentersProto_has_lc_start_time m = has_bit 16 (cpo_has_bits m)"

definition CentersProto_set_has_lc_start_time :: "CentersProto_obj \<Rightarrow> CentersProto_obj" where
  "CentersProto_set_has_lc_start_time m = m\<lparr>cpo_has_bits := set_has_bit 16 (cpo_has_bits m)\<rparr>"

definition CentersProto_clear_has_lc_start_time :: "CentersProto_obj \<Rightarrow> CentersProto_obj" where
  "CentersProto_clear_has_lc_start_time m = m\<lparr>cpo_has_bits := clear_has_bit 16 (cpo_has_bits m)\<rparr>"

definition CentersProto_clear_lc_start_time :: "CentersProto_obj \<Rightarrow> CentersProto_obj" where
  "CentersProto_clear_lc_start_time m = CentersProto_clear_has_lc_start_time (m\<lparr>cpo_lc_start_time := 0\<rparr>)"

definition CentersProto_lc_start_time :: "CentersProto_obj \<Rightarrow> u64" where
  "CentersProto_lc_start_time m = cpo_lc_start_time m"

definition CentersProto_set_lc_start_time :: "u64 \<Rightarrow> CentersProto_obj \<Rightarrow> CentersProto_obj" where
  "CentersProto_set_lc_start_time v m = (CentersProto_set_has_lc_start_time m)\<lparr>cpo_lc_start_time := v\<rparr>"

definition CentersProto_has_logical_clock :: "CentersProto_obj \<Rightarrow> bool" where
  "CentersProto_has_logical_clock m = has_bit 32 (cpo_has_bits m)"

definition CentersProto_set_has_logical_clock :: "CentersProto_obj \<Rightarrow> CentersProto_obj" where
  "CentersProto_set_has_logical_clock m = m\<lparr>cpo_has_bits := set_has_bit 32 (cpo_has_bits m)\<rparr>"

definition CentersProto_clear_has_logical_clock :: "CentersProto_obj \<Rightarrow> CentersProto_obj" where
  "CentersProto_clear_has_logical_clock m = m\<lparr>cpo_has_bits := clear_has_bit 32 (cpo_has_bits m)\<rparr>"

definition CentersProto_clear_logical_clock :: "CentersProto_obj \<Rightarrow> CentersProto_obj" where
  "CentersProto_clear_logical_clock m = CentersProto_clear_has_logical_clock (m\<lparr>cpo_logical_clock := 0\<rparr>)"

definition CentersProto_logical_clock :: "CentersProto_obj \<Rightarrow> u64" where
  "CentersProto_logical_clock m = cpo_logical_clock m"

definition CentersProto_set_logical_clock :: "u64 \<Rightarrow> CentersProto_obj \<Rightarrow> CentersProto_obj" where
  "CentersProto_set_logical_clock v m = (CentersProto_set_has_logical_clock m)\<lparr>cpo_logical_clock := v\<rparr>"

definition CentersProto_has_leader_center :: "CentersProto_obj \<Rightarrow> bool" where
  "CentersProto_has_leader_center m = has_bit 64 (cpo_has_bits m)"

definition CentersProto_set_has_leader_center :: "CentersProto_obj \<Rightarrow> CentersProto_obj" where
  "CentersProto_set_has_leader_center m = m\<lparr>cpo_has_bits := set_has_bit 64 (cpo_has_bits m)\<rparr>"

definition CentersProto_clear_has_leader_center :: "CentersProto_obj \<Rightarrow> CentersProto_obj" where
  "CentersProto_clear_has_leader_center m = m\<lparr>cpo_has_bits := clear_has_bit 64 (cpo_has_bits m)\<rparr>"

definition CentersProto_clear_leader_center :: "CentersProto_obj member" where
  "CentersProto_clear_leader_center m h =
     and_then (string_clear (cpo_leader_center m) h) (\<lambda>h. Inr (CentersProto_clear_has_leader_center m, h))"

definition CentersProto_leader_center :: "CentersProto_obj \<Rightarrow> heap \<Rightarrow> fault + string" where
  "CentersProto_leader_center m h = chars h (cpo_leader_center m)"

definition CentersProto_set_leader_center :: "string \<Rightarrow> CentersProto_obj member" where
  "CentersProto_set_leader_center v m h =
     and_then (string_assign (cpo_leader_center m) v h) (\<lambda>(p, h).
       Inr ((CentersProto_set_has_leader_center m)\<lparr>cpo_leader_center := p\<rparr>, h))"

definition CentersProto_set_leader_center_chars :: "string \<Rightarrow> CentersProto_obj member" where
  "CentersProto_set_leader_center_chars v = CentersProto_set_leader_center (c_str v)"

definition CentersProto_set_leader_center_sized :: "string \<Rightarrow> nat \<Rightarrow> CentersProto_obj member" where
  "CentersProto_set_leader_center_sized v n m h =
     and_then (sized v n) (\<lambda>v. CentersProto_set_leader_center v m h)"

definition CentersProto_mutable_leader_center :: "CentersProto_obj \<Rightarrow> heap \<Rightarrow> nat \<times> CentersProto_obj \<times> heap" where
  "CentersProto_mutable_leader_center m h =
     (case string_mutable (cpo_leader_center m) h of (p, h) \<Rightarrow> (p,
       (CentersProto_set_has_leader_center m)\<lparr>cpo_leader_center := p\<rparr>, h))"

definition CentersProto_release_leader_center :: "CentersProto_obj \<Rightarrow> nat option \<times> CentersProto_obj" where
  "CentersProto_release_leader_center m =
     (case string_release (cpo_leader_center m) of (temp, p) \<Rightarrow> (temp,
       (CentersProto_clear_has_leader_center m)\<lparr>cpo_leader_center := p\<rparr>))"

definition CentersProto_set_allocated_leader_center :: "nat option \<Rightarrow> CentersProto_obj member" where
  "CentersProto_set_allocated_leader_center given m h =
     and_then (string_set_allocated (cpo_leader_center m) given h) (\<lambda>(is_set, p, h).
       Inr ((if is_set then CentersProto_set_has_leader_center m else CentersProto_clear_has_leader_center m)\<lparr>cpo_leader_center := p\<rparr>, h))"

definition CentersProto_server_infos_list_size :: "CentersProto_obj \<Rightarrow> int" where
  "CentersProto_server_infos_list_size m = int (length (cpo_server_infos_list m))"

definition CentersProto_clear_server_infos_list :: "CentersProto_obj \<Rightarrow> CentersProto_obj" where
  "CentersProto_clear_server_infos_list m = m\<lparr>cpo_server_infos_list := []\<rparr>"

definition CentersProto_server_infos_list_at :: "int \<Rightarrow> CentersProto_obj \<Rightarrow> fault + RpcClusterServer_pb" where
  "CentersProto_server_infos_list_at i m = rep_get i (cpo_server_infos_list m)"

definition CentersProto_server_infos_list_list :: "CentersProto_obj \<Rightarrow> RpcClusterServer_pb list" where
  "CentersProto_server_infos_list_list m = cpo_server_infos_list m"

definition CentersProto_mutable_server_infos_list :: "int \<Rightarrow> (RpcClusterServer_pb \<Rightarrow> RpcClusterServer_pb) \<Rightarrow> CentersProto_obj \<Rightarrow> fault + CentersProto_obj" where
  "CentersProto_mutable_server_infos_list i f m =
     and_then (rep_get i (cpo_server_infos_list m)) (\<lambda>v. and_then (rep_set i (f v) (cpo_server_infos_list m)) (\<lambda>vs. Inr (m\<lparr>cpo_server_infos_list := vs\<rparr>)))"

definition CentersProto_add_server_infos_list :: "(RpcClusterServer_pb \<Rightarrow> RpcClusterServer_pb) \<Rightarrow> CentersProto_obj \<Rightarrow> CentersProto_obj" where
  "CentersProto_add_server_infos_list f m = m\<lparr>cpo_server_infos_list := cpo_server_infos_list m @ [f RpcClusterServer_Clear]\<rparr>"

definition CentersProto_lb_result_size :: "CentersProto_obj \<Rightarrow> int" where
  "CentersProto_lb_result_size m = int (length (cpo_lb_result m))"

definition CentersProto_clear_lb_result :: "CentersProto_obj \<Rightarrow> CentersProto_obj" where
  "CentersProto_clear_lb_result m = m\<lparr>cpo_lb_result := []\<rparr>"

definition CentersProto_lb_result_at :: "int \<Rightarrow> CentersProto_obj \<Rightarrow> fault + LoadBalancerMetaData_pb" where
  "CentersProto_lb_result_at i m = rep_get i (cpo_lb_result m)"

definition CentersProto_lb_result_list :: "CentersProto_obj \<Rightarrow> LoadBalancerMetaData_pb list" where
  "CentersProto_lb_result_list m = cpo_lb_result m"

definition CentersProto_mutable_lb_result :: "int \<Rightarrow> (LoadBalancerMetaData_pb \<Rightarrow> LoadBalancerMetaData_pb) \<Rightarrow> CentersProto_obj \<Rightarrow> fault + CentersProto_obj" where
  "CentersProto_mutable_lb_result i f m =
     and_then (rep_get i (cpo_lb_result m)) (\<lambda>v. and_then (rep_set i (f v) (cpo_lb_result m)) (\<lambda>vs. Inr (m\<lparr>cpo_lb_result := vs\<rparr>)))"

definition CentersProto_add_lb_result :: "(LoadBalancerMetaData_pb \<Rightarrow> LoadBalancerMetaData_pb) \<Rightarrow> CentersProto_obj \<Rightarrow> CentersProto_obj" where
  "CentersProto_add_lb_result f m = m\<lparr>cpo_lb_result := cpo_lb_result m @ [f LoadBalancerMetaData_Clear]\<rparr>"

definition CentersProto_new :: "CentersProto_obj" where
  "CentersProto_new =
     \<lparr>cpo_unknown_fields = [], cpo_has_bits = 0, cpo_cached_size = 0, cpo_from_center_addr = GetEmptyString,
       cpo_center_status = LOOKING, cpo_center_action = INQUIRY, cpo_start_time = 0, cpo_lc_start_time = 0,
       cpo_logical_clock = 0, cpo_leader_center = GetEmptyString, cpo_server_infos_list = [],
       cpo_lb_result = []\<rparr>"

definition CentersProto_delete :: "CentersProto_obj \<Rightarrow> heap \<Rightarrow> fault + heap" where
  "CentersProto_delete m h = and_then (string_delete (cpo_from_center_addr m) h)
    (\<lambda>h. string_delete (cpo_leader_center m) h)"

definition CentersProto_obj_Clear :: "CentersProto_obj member" where
  "CentersProto_obj_Clear m h =
     and_then (member_if (has_bit 127 (cpo_has_bits m)) (in_order
         [pure_member (\<lambda>m. m\<lparr>cpo_center_status := LOOKING, cpo_center_action := INQUIRY, cpo_start_time := 0,
           cpo_lc_start_time := 0, cpo_logical_clock := 0\<rparr>),
          member_if (CentersProto_has_from_center_addr m)
            (\<lambda>m h. and_then (string_clear (cpo_from_center_addr m) h) (\<lambda>h. Inr (m, h))),
          member_if (CentersProto_has_leader_center m) (\<lambda>m h. and_then (string_clear (cpo_leader_center m) h)
            (\<lambda>h. Inr (m, h)))]) m h)
       (\<lambda>(m, h). Inr (m\<lparr>cpo_server_infos_list := [], cpo_lb_result := [], cpo_has_bits := 0,
         cpo_unknown_fields := []\<rparr>, h))"

definition CentersProto_obj_MergeFrom :: "CentersProto_obj \<Rightarrow> CentersProto_obj member" where
  "CentersProto_obj_MergeFrom from_m = in_order
      [pure_member (\<lambda>m. m\<lparr>cpo_server_infos_list := cpo_server_infos_list m @ cpo_server_infos_list from_m,
        cpo_lb_result := cpo_lb_result m @ cpo_lb_result from_m\<rparr>),
       member_if (has_bit 0xff (cpo_has_bits from_m)) (in_order
         [member_if (CentersProto_has_from_center_addr from_m)
           (\<lambda>m h. and_then (CentersProto_from_center_addr from_m h)
           (\<lambda>v. CentersProto_set_from_center_addr v m h)),
          member_if (CentersProto_has_center_status from_m)
            (pure_member (CentersProto_set_center_status (CentersProto_center_status from_m))),
          member_if (CentersProto_has_center_action from_m)
            (pure_member (CentersProto_set_center_action (CentersProto_center_action from_m))),
          member_if (CentersProto_has_start_time from_m)
            (pure_member (CentersProto_set_start_time (CentersProto_start_time from_m))),
          member_if (CentersProto_has_lc_start_time from_m)
            (pure_member (CentersProto_set_lc_start_time (CentersProto_lc_start_time from_m))),
          member_if (CentersProto_has_logical_clock from_m)
            (pure_member (CentersProto_set_logical_clock (CentersProto_logical_clock from_m))),
          member_if (CentersProto_has_leader_center from_m)
            (\<lambda>m h. and_then (CentersProto_leader_center from_m h) (\<lambda>v. CentersProto_set_leader_center v m h))]),
       pure_member (\<lambda>m. m\<lparr>cpo_unknown_fields := cpo_unknown_fields m @ cpo_unknown_fields from_m\<rparr>)]"

definition CentersProto_obj_CopyFrom :: "bool \<Rightarrow> CentersProto_obj \<Rightarrow> CentersProto_obj member" where
  "CentersProto_obj_CopyFrom itself from_m m h =
     (if itself then Inr (m, h) else in_order [CentersProto_obj_Clear, CentersProto_obj_MergeFrom from_m] m h)"

definition CentersProto_copied :: "CentersProto_obj \<Rightarrow> heap \<Rightarrow> fault + (CentersProto_obj \<times> heap)" where
  "CentersProto_copied from_m = CentersProto_obj_MergeFrom from_m CentersProto_new"

definition CentersProto_Swap :: "CentersProto_obj \<Rightarrow> CentersProto_obj \<Rightarrow> CentersProto_obj \<times> CentersProto_obj" where
  "CentersProto_Swap m other =
     (m\<lparr>cpo_from_center_addr := cpo_from_center_addr other, cpo_center_status := cpo_center_status other,
       cpo_center_action := cpo_center_action other, cpo_start_time := cpo_start_time other,
       cpo_lc_start_time := cpo_lc_start_time other, cpo_logical_clock := cpo_logical_clock other,
       cpo_leader_center := cpo_leader_center other, cpo_server_infos_list := cpo_server_infos_list other,
       cpo_lb_result := cpo_lb_result other, cpo_has_bits := cpo_has_bits other,
       cpo_unknown_fields := cpo_unknown_fields other, cpo_cached_size := cpo_cached_size other\<rparr>,
      other\<lparr>cpo_from_center_addr := cpo_from_center_addr m, cpo_center_status := cpo_center_status m,
        cpo_center_action := cpo_center_action m, cpo_start_time := cpo_start_time m,
        cpo_lc_start_time := cpo_lc_start_time m, cpo_logical_clock := cpo_logical_clock m,
        cpo_leader_center := cpo_leader_center m, cpo_server_infos_list := cpo_server_infos_list m,
        cpo_lb_result := cpo_lb_result m, cpo_has_bits := cpo_has_bits m,
        cpo_unknown_fields := cpo_unknown_fields m, cpo_cached_size := cpo_cached_size m\<rparr>)"

definition CentersProto_strs :: "CentersProto_obj \<Rightarrow> nat list" where
  "CentersProto_strs m = [cpo_from_center_addr m, cpo_leader_center m]"

definition CentersProto_fits :: "CentersProto_obj \<Rightarrow> heap \<Rightarrow> bool" where
  "CentersProto_fits m h \<longleftrightarrow>
     (\<not> CentersProto_has_from_center_addr m \<longrightarrow> text_at h (cpo_from_center_addr m) = []) \<and>
     (\<not> CentersProto_has_center_status m \<longrightarrow> cpo_center_status m = LOOKING) \<and>
     (\<not> CentersProto_has_center_action m \<longrightarrow> cpo_center_action m = INQUIRY) \<and>
     (\<not> CentersProto_has_start_time m \<longrightarrow> cpo_start_time m = 0) \<and>
     (\<not> CentersProto_has_lc_start_time m \<longrightarrow> cpo_lc_start_time m = 0) \<and>
     (\<not> CentersProto_has_logical_clock m \<longrightarrow> cpo_logical_clock m = 0) \<and>
     (\<not> CentersProto_has_leader_center m \<longrightarrow> text_at h (cpo_leader_center m) = [])"

definition CentersProto_val :: "CentersProto_obj \<Rightarrow> heap \<Rightarrow> CentersProto_pb" where
  "CentersProto_val m h =
     \<lparr>pb_from_center_addr = field_if (CentersProto_has_from_center_addr m) (text_at h (cpo_from_center_addr m)),
      pb_center_status = field_if (CentersProto_has_center_status m) (cpo_center_status m),
      pb_center_action = field_if (CentersProto_has_center_action m) (cpo_center_action m),
      pb_start_time = field_if (CentersProto_has_start_time m) (cpo_start_time m),
      pb_lc_start_time = field_if (CentersProto_has_lc_start_time m) (cpo_lc_start_time m),
      pb_logical_clock = field_if (CentersProto_has_logical_clock m) (cpo_logical_clock m),
      pb_leader_center = field_if (CentersProto_has_leader_center m) (text_at h (cpo_leader_center m)),
      pb_server_infos_list = cpo_server_infos_list m,
      pb_lb_result = cpo_lb_result m,
      pb_unknown = cpo_unknown_fields m\<rparr>"

definition CentersProto_class :: "CentersProto_obj message_class" where
  "CentersProto_class = \<lparr>new_object = CentersProto_new, clear_member = CentersProto_obj_Clear,
    merge_member = CentersProto_obj_MergeFrom,
     swap_members = CentersProto_Swap, delete_object = CentersProto_delete\<rparr>"

definition CentersProto_accessors :: "(CentersProto_obj member \<times> (CentersProto_pb \<Rightarrow> CentersProto_pb)) set" where
  "CentersProto_accessors = {(f, g).
     (f, g) = (CentersProto_clear_from_center_addr, (\<lambda>m. m\<lparr>pb_from_center_addr := None\<rparr>)) \<or>
     (\<exists>v. (f, g) = (CentersProto_set_from_center_addr v, (\<lambda>m. m\<lparr>pb_from_center_addr := Some v\<rparr>))) \<or>
     (\<exists>v. (f, g) = (CentersProto_set_from_center_addr_chars v,
       (\<lambda>m. m\<lparr>pb_from_center_addr := Some (c_str v)\<rparr>))) \<or>
     (\<exists>v n. n \<le> length v \<and> (f, g) = (CentersProto_set_from_center_addr_sized v n,
       (\<lambda>m. m\<lparr>pb_from_center_addr := Some (take n v)\<rparr>))) \<or>
     (f, g) = (\<lambda>m h. case CentersProto_mutable_from_center_addr m h of (p, m, h) \<Rightarrow> Inr (m, h),
       (\<lambda>m. m\<lparr>pb_from_center_addr := Some (case pb_from_center_addr m of None \<Rightarrow> [] | Some s \<Rightarrow> s)\<rparr>)) \<or>
     (f, g) = (\<lambda>m h. case CentersProto_release_from_center_addr m of (p, m) \<Rightarrow> and_then (free_ptr p h)
       (\<lambda>h. Inr (m, h)), (\<lambda>m. m\<lparr>pb_from_center_addr := None\<rparr>)) \<or>
     (f, g) = (CentersProto_set_allocated_from_center_addr None, (\<lambda>m. m\<lparr>pb_from_center_addr := None\<rparr>)) \<or>
     (\<exists>v. (f, g) =
       (\<lambda>m h. case malloc (Chars v) h of (p, h) \<Rightarrow> CentersProto_set_allocated_from_center_addr (Some p) m h,
       (\<lambda>m. m\<lparr>pb_from_center_addr := Some v\<rparr>))) \<or>
     (f, g) = (pure_member CentersProto_clear_center_status, (\<lambda>m. m\<lparr>pb_center_status := None\<rparr>)) \<or>
     (\<exists>v. (f, g) = (pure_member (CentersProto_set_center_status v), (\<lambda>m. m\<lparr>pb_center_status := Some v\<rparr>))) \<or>
     (f, g) = (pure_member CentersProto_clear_center_action, (\<lambda>m. m\<lparr>pb_center_action := None\<rparr>)) \<or>
     (\<exists>v. (f, g) = (pure_member (CentersProto_set_center_action v), (\<lambda>m. m\<lparr>pb_center_action := Some v\<rparr>))) \<or>
     (f, g) = (pure_member CentersProto_clear_start_time, (\<lambda>m. m\<lparr>pb_start_time := None\<rparr>)) \<or>
     (\<exists>v. (f, g) = (pure_member (CentersProto_set_start_time v), (\<lambda>m. m\<lparr>pb_start_time := Some v\<rparr>))) \<or>
     (f, g) = (pure_member CentersProto_clear_lc_start_time, (\<lambda>m. m\<lparr>pb_lc_start_time := None\<rparr>)) \<or>
     (\<exists>v. (f, g) = (pure_member (CentersProto_set_lc_start_time v), (\<lambda>m. m\<lparr>pb_lc_start_time := Some v\<rparr>))) \<or>
     (f, g) = (pure_member CentersProto_clear_logical_clock, (\<lambda>m. m\<lparr>pb_logical_clock := None\<rparr>)) \<or>
     (\<exists>v. (f, g) = (pure_member (CentersProto_set_logical_clock v), (\<lambda>m. m\<lparr>pb_logical_clock := Some v\<rparr>))) \<or>
     (f, g) = (CentersProto_clear_leader_center, (\<lambda>m. m\<lparr>pb_leader_center := None\<rparr>)) \<or>
     (\<exists>v. (f, g) = (CentersProto_set_leader_center v, (\<lambda>m. m\<lparr>pb_leader_center := Some v\<rparr>))) \<or>
     (\<exists>v. (f, g) = (CentersProto_set_leader_center_chars v, (\<lambda>m. m\<lparr>pb_leader_center := Some (c_str v)\<rparr>))) \<or>
     (\<exists>v n. n \<le> length v \<and> (f, g) = (CentersProto_set_leader_center_sized v n,
       (\<lambda>m. m\<lparr>pb_leader_center := Some (take n v)\<rparr>))) \<or>
     (f, g) = (\<lambda>m h. case CentersProto_mutable_leader_center m h of (p, m, h) \<Rightarrow> Inr (m, h),
       (\<lambda>m. m\<lparr>pb_leader_center := Some (case pb_leader_center m of None \<Rightarrow> [] | Some s \<Rightarrow> s)\<rparr>)) \<or>
     (f, g) = (\<lambda>m h. case CentersProto_release_leader_center m of (p, m) \<Rightarrow> and_then (free_ptr p h)
       (\<lambda>h. Inr (m, h)), (\<lambda>m. m\<lparr>pb_leader_center := None\<rparr>)) \<or>
     (f, g) = (CentersProto_set_allocated_leader_center None, (\<lambda>m. m\<lparr>pb_leader_center := None\<rparr>)) \<or>
     (\<exists>v. (f, g) =
       (\<lambda>m h. case malloc (Chars v) h of (p, h) \<Rightarrow> CentersProto_set_allocated_leader_center (Some p) m h,
       (\<lambda>m. m\<lparr>pb_leader_center := Some v\<rparr>))) \<or>
     (f, g) = (pure_member CentersProto_clear_server_infos_list, (\<lambda>m. m\<lparr>pb_server_infos_list := []\<rparr>)) \<or>
     (\<exists>u. (f, g) = (pure_member (CentersProto_add_server_infos_list u),
       (\<lambda>m. m\<lparr>pb_server_infos_list := pb_server_infos_list m @ [u RpcClusterServer_Clear]\<rparr>))) \<or>
     (f, g) = (pure_member CentersProto_clear_lb_result, (\<lambda>m. m\<lparr>pb_lb_result := []\<rparr>)) \<or>
     (\<exists>u. (f, g) = (pure_member (CentersProto_add_lb_result u),
       (\<lambda>m. m\<lparr>pb_lb_result := pb_lb_result m @ [u LoadBalancerMetaData_Clear]\<rparr>)))}"

end
