(* ===== verification/ProtoObjectsCorrect.thy ===== *)
theory ProtoObjectsCorrect
  imports ProtoObjects
begin

section \<open>The generated objects are the messages\<close>

text \<open>
  Every class of theory ProtoObjects keeps the contract \<open>generated_message\<close>: \<open>Clear\<close>, \<open>MergeFrom\<close> and the
  accessors do to the object what theory Protobuf says of the message, on the strings of the object alone.
\<close>

subsection \<open>Members\<close>

text \<open>The accessors of a string in the shape of the rules below.\<close>

lemma release_is_delete:
  "(case case string_release p of (t, q) \<Rightarrow> (t, F q) of (t, m) \<Rightarrow> and_then (free_ptr t h) (\<lambda>h. Inr (m, h))) =
    and_then (string_delete p h) (\<lambda>h. Inr (F GetEmptyString, h))"
  by (simp add: string_release_def string_delete_def free_ptr_def)

lemma mutable_drops:
  "(case case x of (p, h) \<Rightarrow> (p, F p, h) of (p, m, h) \<Rightarrow> Inr (m, h)) = (case x of (p, h) \<Rightarrow> Inr (F p, h))"
  by (cases x) simp

lemma set_allocated_cases:
  "and_then (string_set_allocated p None h) (\<lambda>(b, q, h). Inr (F b q, h)) =
    and_then (string_delete p h) (\<lambda>h. Inr (F False GetEmptyString, h))"
  "and_then (string_set_allocated p (Some q) h) (\<lambda>(b, q, h). Inr (F b q, h)) =
    and_then (string_delete p h) (\<lambda>h. Inr (F True q, h))"
  by (cases "string_delete p h"; simp add: string_set_allocated_def)+

lemma sized_enough: "n \<le> length v \<Longrightarrow> sized v n = Inr (take n v)"
  by (simp add: sized_def)

lemmas member_shapes = release_is_delete mutable_drops set_allocated_cases and_then_simps if_True if_False

text \<open>\<open>Clear\<close> empties a string that is set; one that is not set is empty.\<close>

lemma wipe_string:
  assumes "strings_ok (ps @ p # qs) h" "\<not> b \<Longrightarrow> text_at h p = []"
  obtains h' where "b \<Longrightarrow> string_clear p h = Inr h'" "\<not> b \<Longrightarrow> h' = h" "strings_ok (ps @ p # qs) h'"
    "rest (own_strings (ps @ p # qs)) h' = rest (own_strings (ps @ p # qs)) h"
    "text_at h' p = []" "\<And>x. x \<in> set ps \<union> set qs \<Longrightarrow> text_at h' x = text_at h x"
proof (cases b)
  case True
  obtain h' where "string_clear p h = Inr h'" "strings_ok (ps @ p # qs) h'"
    "rest (own_strings (ps @ p # qs)) h' = rest (own_strings (ps @ p # qs)) h"
    "blocks h' p = Some (Chars [])" "\<And>x. x \<in> set ps \<union> set qs \<Longrightarrow> blocks h' x = blocks h x"
    using assms(1) by (rule string_clear_ok) blast
  with True show ?thesis by (intro that [of h']) (simp_all add: text_at_def)
next
  case False
  with assms show ?thesis by (intro that [of h]) simp_all
qed

context string_message
begin

lemma yields_pure:
  assumes "msg_ok strs fits m h" "strs (f m) = strs m" "fits (f m) h" "val (f m) h = w"
  shows "yields strs fits val m h (pure_member f m h) w"
  using assms by (simp add: yields_def msg_ok_def pure_member_def)

text \<open>A member that works on the string \<open>p\<close> of an object and goes on with \<open>F\<close> of its new address.\<close>

lemma yields_string:
  assumes "strings_ok (ps @ q # qs) h'" "rest (own_strings (ps @ q # qs)) h' = rest (own_strings (ps @ p # qs)) h"
    and "strs m = ps @ p # qs" "strs m' = ps @ q # qs" "r = Inr (m', h')" "fits m' h'" "val m' h' = w"
  shows "yields strs fits val m h r w"
  using assms by (auto simp: yields_def msg_ok_def)

lemma yields_assign:
  assumes "msg_ok strs fits m h" "strs m = ps @ p # qs" "\<And>q. strs (F q) = ps @ q # qs"
    and "\<And>q h'. text_at h' q = v \<Longrightarrow> (\<And>x. x \<in> set ps \<union> set qs \<Longrightarrow> text_at h' x = text_at h x) \<Longrightarrow>
      fits (F q) h' \<and> val (F q) h' = w"
  shows "yields strs fits val m h (and_then (string_assign p v h) (\<lambda>(p, h). Inr (F p, h))) w"
proof -
  have "strings_ok (ps @ p # qs) h" using assms(1,2) by (simp add: msg_ok_def)
  then obtain q h' where h': "string_assign p v h = Inr (q, h')" "strings_ok (ps @ q # qs) h'" "q \<noteq> GetEmptyString"
    "rest (own_strings (ps @ q # qs)) h' = rest (own_strings (ps @ p # qs)) h"
    "blocks h' q = Some (Chars v)" "\<And>x. x \<in> set ps \<union> set qs \<Longrightarrow> blocks h' x = blocks h x"
    by (rule string_assign_ok) blast
  have "fits (F q) h' \<and> val (F q) h' = w" using h'(5,6) by (intro assms(4)) (simp_all add: text_at_def)
  with h' assms(2,3) show ?thesis by (intro yields_string [OF h'(2,4), where m' = "F q"]) simp_all
qed

lemma yields_mutable:
  assumes "msg_ok strs fits m h" "strs m = ps @ p # qs" "\<And>q. strs (F q) = ps @ q # qs"
    and "\<And>q h'. text_at h' q = text_at h p \<Longrightarrow> (\<And>x. x \<in> set ps \<union> set qs \<Longrightarrow> text_at h' x = text_at h x) \<Longrightarrow>
      fits (F q) h' \<and> val (F q) h' = w"
  shows "yields strs fits val m h (case string_mutable p h of (p, h) \<Rightarrow> Inr (F p, h)) w"
proof -
  have "strings_ok (ps @ p # qs) h" using assms(1,2) by (simp add: msg_ok_def)
  then obtain q h' where h': "string_mutable p h = (q, h')" "strings_ok (ps @ q # qs) h'" "q \<noteq> GetEmptyString"
    "rest (own_strings (ps @ q # qs)) h' = rest (own_strings (ps @ p # qs)) h"
    "blocks h' q = blocks h p" "\<And>x. x \<in> set ps \<union> set qs \<Longrightarrow> blocks h' x = blocks h x"
    by (rule string_mutable_ok) blast
  have "fits (F q) h' \<and> val (F q) h' = w" using h'(5,6) by (intro assms(4)) (simp_all add: text_at_def)
  with h' assms(2,3) show ?thesis by (intro yields_string [OF h'(2,4), where m' = "F q"]) simp_all
qed

lemma yields_clear:
  assumes "msg_ok strs fits m h" "strs m = ps @ p # qs" "strs m' = strs m"
    and "\<And>h'. text_at h' p = [] \<Longrightarrow> (\<And>x. x \<in> set ps \<union> set qs \<Longrightarrow> text_at h' x = text_at h x) \<Longrightarrow>
      fits m' h' \<and> val m' h' = w"
  shows "yields strs fits val m h (and_then (string_clear p h) (\<lambda>h. Inr (m', h))) w"
proof -
  have "strings_ok (ps @ p # qs) h" using assms(1,2) by (simp add: msg_ok_def)
  then obtain h' where h': "string_clear p h = Inr h'" "strings_ok (ps @ p # qs) h'"
    "rest (own_strings (ps @ p # qs)) h' = rest (own_strings (ps @ p # qs)) h"
    "blocks h' p = Some (Chars [])" "\<And>x. x \<in> set ps \<union> set qs \<Longrightarrow> blocks h' x = blocks h x"
    by (rule string_clear_ok) blast
  have "fits m' h' \<and> val m' h' = w" using h'(4,5) by (intro assms(4)) (simp_all add: text_at_def)
  with h' assms(2,3) show ?thesis by (intro yields_string [OF h'(2,3), where m' = m']) simp_all
qed

text \<open>A string that leaves the object is no longer its own; in its place is the shared one.\<close>

lemma strings_ok_empty: "strings_ok (ps @ qs) h \<Longrightarrow> strings_ok (ps @ GetEmptyString # qs) h"
  by (simp add: strings_ok_def)

lemma yields_delete:
  assumes "msg_ok strs fits m h" "strs m = ps @ p # qs" "strs m' = ps @ GetEmptyString # qs"
    and "\<And>h'. text_at h' GetEmptyString = [] \<Longrightarrow> (\<And>x. x \<in> set ps \<union> set qs \<Longrightarrow> text_at h' x = text_at h x) \<Longrightarrow>
      fits m' h' \<and> val m' h' = w"
  shows "yields strs fits val m h (and_then (string_delete p h) (\<lambda>h. Inr (m', h))) w"
proof -
  have "strings_ok (ps @ p # qs) h" using assms(1,2) by (simp add: msg_ok_def)
  then obtain h' where h': "string_delete p h = Inr h'" "strings_ok (ps @ qs) h'"
    "rest (own_strings (ps @ qs)) h' = rest (own_strings (ps @ p # qs)) h"
    "\<And>x. x \<in> set ps \<union> set qs \<Longrightarrow> blocks h' x = blocks h x"
    by (rule string_delete_ok) blast
  have "blocks h' GetEmptyString = Some (Chars [])" using h'(2) by (simp add: strings_ok_def)
  then have "fits m' h' \<and> val m' h' = w" using h'(4) by (intro assms(4)) (simp_all add: text_at_def)
  with h' assms(2,3) strings_ok_empty [OF h'(2)] show ?thesis
    by (intro yields_string [OF strings_ok_empty [OF h'(2)], where m' = m']) simp_all
qed

lemma yields_given:
  assumes "msg_ok strs fits m h" "strs m = ps @ p # qs" "\<And>q. strs (F q) = ps @ q # qs"
    and "\<And>q h'. text_at h' q = v \<Longrightarrow> (\<And>x. x \<in> set ps \<union> set qs \<Longrightarrow> text_at h' x = text_at h x) \<Longrightarrow>
      fits (F q) h' \<and> val (F q) h' = w"
  shows "yields strs fits val m h
    (case malloc (Chars v) h of (q, h) \<Rightarrow> and_then (string_delete p h) (\<lambda>h. Inr (F q, h))) w"
proof -
  have ok: "strings_ok (ps @ p # qs) h" using assms(1,2) by (simp add: msg_ok_def)
  obtain q h1 where m: "malloc (Chars v) h = (q, h1)" by (cases "malloc (Chars v) h")
  have ok': "mem_ok (own_strings (ps @ p # qs)) h" using ok by (simp add: strings_ok_def)
  note new = mem_ok_malloc [OF ok' m]
  have q: "blocks h1 = (blocks h)(q \<mapsto> Chars v)" "blocks h q = None"
    using m ok' by (auto simp: malloc_def mem_ok_def)
  moreover have "\<forall>x \<in> set (ps @ p # qs) \<union> {GetEmptyString}. blocks h x \<noteq> None"
    using ok by (fastforce simp: strings_ok_def)
  ultimately have "q \<notin> set (ps @ p # qs) \<union> {GetEmptyString}" by metis
  then have fresh: "q \<notin> set (ps @ p # qs)" "q \<noteq> GetEmptyString" by simp_all
  have ok1: "strings_ok (ps @ p # q # qs) h1"
    using new(1) q fresh ok by (auto simp: strings_ok_def add_mset_commute)
  then obtain h' where h': "string_delete p h1 = Inr h'" "strings_ok (ps @ q # qs) h'"
    "rest (own_strings (ps @ q # qs)) h' = rest (own_strings (ps @ p # q # qs)) h1"
    "\<And>x. x \<in> set ps \<union> set (q # qs) \<Longrightarrow> blocks h' x = blocks h1 x"
    by (rule string_delete_ok) blast
  have "blocks h' x = blocks h x" if "x \<in> set ps \<union> set qs" for x using h'(4) [of x] that q fresh by auto
  then have "fits (F q) h' \<and> val (F q) h' = w" using h'(4) [of q] q by (intro assms(4)) (simp_all add: text_at_def)
  moreover have "rest (own_strings (ps @ p # q # qs)) h1 = rest (own_strings (ps @ p # qs)) h"
    using new(2) fresh(2) by (cases "p = GetEmptyString") (simp_all add: add_mset_commute)
  ultimately show ?thesis
    using m h' assms(2,3) by (intro yields_string [OF h'(2), where m' = "F q"]) simp_all
qed

lemma msg_chars: "msg_ok strs fits m h \<Longrightarrow> p \<in> set (strs m) \<Longrightarrow> chars h p = Inr (text_at h p)"
  by (auto simp: msg_ok_def strings_ok_def chars_def text_at_def)

text \<open>What \<open>MergeFrom\<close> does with one field.\<close>

lemma copies_if:
  assumes "b \<Longrightarrow> copies n w f g" "\<not> b \<Longrightarrow> g = (\<lambda>v. v)"
  shows "copies n w (member_if b f) g"
  using assms yields_same by (cases b) (auto simp: copies_def member_if_def)

lemma copies_access:
  assumes "\<And>m h. b \<Longrightarrow> msg_ok strs fits m h \<Longrightarrow> yields strs fits val m h (f m h) (g (val m h))" "\<not> b \<Longrightarrow> g = (\<lambda>v. v)"
  shows "copies n w (member_if b f) g"
  using assms by (intro copies_if) (auto simp: copies_def)

lemma copies_string:
  assumes "\<And>v m h. msg_ok strs fits m h \<Longrightarrow> yields strs fits val m h (f v m h) (upd v (val m h))"
    and "\<And>h. b \<Longrightarrow> msg_ok strs fits n h \<Longrightarrow> val n h = w \<Longrightarrow> \<exists>v. get h = Inr v \<and> g = upd v" "\<not> b \<Longrightarrow> g = (\<lambda>v. v)"
  shows "copies n w (member_if b (\<lambda>m h. and_then (get h) (\<lambda>v. f v m h))) g"
proof (rule copies_if [OF _ assms(3)])
  assume b
  show "copies n w (\<lambda>m h. and_then (get h) (\<lambda>v. f v m h)) g"
    unfolding copies_def
  proof (intro allI impI)
    fix m h assume "msg_ok strs fits m h" "msg_ok strs fits n h" "val n h = w"
    with assms(1) [of m h] assms(2) [OF \<open>b\<close>, of h] show "yields strs fits val m h (and_then (get h) (\<lambda>v. f v m h)) (g (val m h))"
      by auto
  qed
qed

lemma copies_pure:
  assumes "\<And>m. strs (f m) = strs m" "\<And>m h. fits (f m) h = fits m h" "\<And>m h. val (f m) h = g (val m h)"
  shows "copies n w (pure_member f) g"
  unfolding copies_def using assms by (auto intro!: yields_pure simp: msg_ok_def)

lemma copies_list:
  assumes "list_all2 (copies n w) fs gs"
  shows "copies n w (in_order fs) (\<lambda>v. foldl (\<lambda>v g. g v) v gs)"
  using yields_in_order [OF assms] unfolding copies_def by blast

lemma copies_both:
  "copies n w f g \<Longrightarrow> copies n w f' g' \<Longrightarrow> copies n w (in_order [f, f']) (\<lambda>v. g' (g v))"
  "copies n w f g \<Longrightarrow> copies n w f' g' \<Longrightarrow> copies n w f'' g'' \<Longrightarrow> copies n w (in_order [f, f', f'']) (\<lambda>v. g'' (g' (g v)))"
  using copies_list [of n w "[f, f']" "[g, g']"] copies_list [of n w "[f, f', f'']" "[g, g', g'']"] by simp_all

lemma copies_yields:
  assumes "copies n w f g" "msg_ok strs fits m h" "msg_ok strs fits n h" "apart strs m n" "val n h = w"
  shows "yields strs fits val m h (f m h) (g (val m h))"
  using assms by (simp add: copies_def)

end

subsection \<open>RpcClusterServer\<close>

abbreviation "rcs_ok \<equiv> msg_ok RpcClusterServer_strs RpcClusterServer_fits"

abbreviation "rcs_yields \<equiv> yields RpcClusterServer_strs RpcClusterServer_fits RpcClusterServer_val"

interpretation rcs_object: string_message RpcClusterServer_strs RpcClusterServer_fits RpcClusterServer_val
  by unfold_locales (simp_all add: RpcClusterServer_strs_def RpcClusterServer_fits_def RpcClusterServer_val_def text_at_def)

lemmas RpcClusterServer_simps = RpcClusterServer_strs_def RpcClusterServer_fits_def RpcClusterServer_val_def
  RpcClusterServer_has_cluster_action_def RpcClusterServer_has_cluster_server_addr_def
  RpcClusterServer_has_load_def RpcClusterServer_has_cpu_used_def RpcClusterServer_has_connection_num_def
  RpcClusterServer_set_has_cluster_action_def RpcClusterServer_set_has_cluster_server_addr_def
  RpcClusterServer_set_has_load_def RpcClusterServer_set_has_cpu_used_def
  RpcClusterServer_set_has_connection_num_def RpcClusterServer_clear_has_cluster_action_def
  RpcClusterServer_clear_has_cluster_server_addr_def RpcClusterServer_clear_has_load_def
  RpcClusterServer_clear_has_cpu_used_def RpcClusterServer_clear_has_connection_num_def
  RpcClusterServer_clear_cluster_action_def RpcClusterServer_set_cluster_action_def
  RpcClusterServer_clear_load_def RpcClusterServer_set_load_def RpcClusterServer_clear_cpu_used_def
  RpcClusterServer_set_cpu_used_def RpcClusterServer_clear_connection_num_def
  RpcClusterServer_set_connection_num_def has_bit_simps

lemmas RpcClusterServer_strings = RpcClusterServer_clear_cluster_server_addr_def
  RpcClusterServer_set_cluster_server_addr_chars_def RpcClusterServer_set_cluster_server_addr_sized_def
  RpcClusterServer_set_cluster_server_addr_def RpcClusterServer_mutable_cluster_server_addr_def
  RpcClusterServer_release_cluster_server_addr_def RpcClusterServer_set_allocated_cluster_server_addr_def

lemmas RpcClusterServer_getters = RpcClusterServer_cluster_action_def RpcClusterServer_cluster_server_addr_def
  RpcClusterServer_load_def RpcClusterServer_cpu_used_def RpcClusterServer_connection_num_def

lemma RpcClusterServer_access:
  assumes "(f, g) \<in> RpcClusterServer_accessors" "rcs_ok m h"
  shows "rcs_yields m h (f m h) (g (RpcClusterServer_val m h))"
proof -
  note ok = assms(2)
  note string_rules = rcs_object.yields_assign [OF ok] rcs_object.yields_mutable [OF ok] rcs_object.yields_clear [OF ok]
    rcs_object.yields_delete [OF ok] rcs_object.yields_given [OF ok]
  have fits: "RpcClusterServer_fits m h" using ok by (simp add: msg_ok_def)
  show ?thesis
    by (insert assms(1), unfold RpcClusterServer_accessors_def mem_Collect_eq prod.case,
      (elim disjE exE conjE Pair_inject; hypsubst;
       ((rule rcs_object.yields_pure [OF ok]; use fits in \<open>simp add: RpcClusterServer_simps\<close>; fail)
       | (unfold RpcClusterServer_strings, (simp only: sized_enough)?, (unfold member_shapes)?,
          (rule string_rules [where ps = "[]" and qs = "[]"];
            use fits in \<open>simp add: RpcClusterServer_simps field_if_def split: if_split\<close>; fail)))))
qed

lemma RpcClusterServer_sets:
  assumes "rcs_ok m h"
  shows "rcs_yields m h
    (pure_member (RpcClusterServer_set_cluster_action a0) m h) ((RpcClusterServer_val m h)\<lparr>rcs_cluster_action := Some a0\<rparr>)"
    "rcs_yields m h (RpcClusterServer_set_cluster_server_addr a1 m h) ((RpcClusterServer_val m h)\<lparr>rcs_cluster_server_addr := Some a1\<rparr>)"
    "rcs_yields m h
      (pure_member (RpcClusterServer_set_load a2) m h) ((RpcClusterServer_val m h)\<lparr>rcs_load := Some a2\<rparr>)"
    "rcs_yields m h
      (pure_member (RpcClusterServer_set_cpu_used a3) m h) ((RpcClusterServer_val m h)\<lparr>rcs_cpu_used := Some a3\<rparr>)"
    "rcs_yields m h
      (pure_member (RpcClusterServer_set_connection_num a4) m h) ((RpcClusterServer_val m h)\<lparr>rcs_connection_num := Some a4\<rparr>)"
proof -
  have fits: "RpcClusterServer_fits m h" using assms by (simp add: msg_ok_def)
  show "rcs_yields m h
    (pure_member (RpcClusterServer_set_cluster_action a0) m h) ((RpcClusterServer_val m h)\<lparr>rcs_cluster_action := Some a0\<rparr>)"
    "rcs_yields m h (RpcClusterServer_set_cluster_server_addr a1 m h) ((RpcClusterServer_val m h)\<lparr>rcs_cluster_server_addr := Some a1\<rparr>)"
    "rcs_yields m h
      (pure_member (RpcClusterServer_set_load a2) m h) ((RpcClusterServer_val m h)\<lparr>rcs_load := Some a2\<rparr>)"
    "rcs_yields m h
      (pure_member (RpcClusterServer_set_cpu_used a3) m h) ((RpcClusterServer_val m h)\<lparr>rcs_cpu_used := Some a3\<rparr>)"
    "rcs_yields m h
      (pure_member (RpcClusterServer_set_connection_num a4) m h) ((RpcClusterServer_val m h)\<lparr>rcs_connection_num := Some a4\<rparr>)"
    by ((rule rcs_object.yields_pure [OF assms]; use fits in \<open>simp add: RpcClusterServer_simps\<close>; fail)
     | (unfold RpcClusterServer_strings, rule rcs_object.yields_assign [OF assms,
       where ps = "[]" and qs = "[]"]; use fits in \<open>simp add: RpcClusterServer_simps\<close>; fail))+
qed

lemma RpcClusterServer_merge:
  assumes "rcs_ok m h" "rcs_ok n h" "apart RpcClusterServer_strs m n"
  shows "rcs_yields m h (RpcClusterServer_obj_MergeFrom n m h) (RpcClusterServer_MergeFrom (RpcClusterServer_val n h) (RpcClusterServer_val m h))"
proof -
  define w where "w = RpcClusterServer_val n h"
  have w: "rcs_cluster_action w = field_if (RpcClusterServer_has_cluster_action n) (rcso_cluster_action n)"
    "rcs_cluster_server_addr w = field_if (RpcClusterServer_has_cluster_server_addr n) (text_at h (rcso_cluster_server_addr n))"
    "rcs_load w = field_if (RpcClusterServer_has_load n) (rcso_load n)"
    "rcs_cpu_used w = field_if (RpcClusterServer_has_cpu_used n) (rcso_cpu_used n)"
    "rcs_connection_num w = field_if (RpcClusterServer_has_connection_num n) (rcso_connection_num n)"
    "rcs_unknown w = rcso_unknown_fields n"
    by (simp_all add: w_def RpcClusterServer_val_def)
  let ?fs = "[member_if (RpcClusterServer_has_cluster_action n)
    (pure_member (RpcClusterServer_set_cluster_action (RpcClusterServer_cluster_action n))),
      member_if (RpcClusterServer_has_cluster_server_addr n)
        (\<lambda>m h. and_then (RpcClusterServer_cluster_server_addr n h)
        (\<lambda>v. RpcClusterServer_set_cluster_server_addr v m h)),
      member_if (RpcClusterServer_has_load n)
        (pure_member (RpcClusterServer_set_load (RpcClusterServer_load n))),
      member_if (RpcClusterServer_has_cpu_used n)
        (pure_member (RpcClusterServer_set_cpu_used (RpcClusterServer_cpu_used n))),
      member_if (RpcClusterServer_has_connection_num n)
        (pure_member (RpcClusterServer_set_connection_num (RpcClusterServer_connection_num n)))]"
  let ?gs = "[\<lambda>v. v\<lparr>rcs_cluster_action := merge_opt (rcs_cluster_action w) (rcs_cluster_action v)\<rparr>,
      \<lambda>v. v\<lparr>rcs_cluster_server_addr := merge_opt (rcs_cluster_server_addr w) (rcs_cluster_server_addr v)\<rparr>,
      \<lambda>v. v\<lparr>rcs_load := merge_opt (rcs_load w) (rcs_load v)\<rparr>,
      \<lambda>v. v\<lparr>rcs_cpu_used := merge_opt (rcs_cpu_used w) (rcs_cpu_used v)\<rparr>,
      \<lambda>v. v\<lparr>rcs_connection_num := merge_opt (rcs_connection_num w) (rcs_connection_num v)\<rparr>]"
  have scalars: "rcs_object.copies n w (member_if (RpcClusterServer_has_cluster_action n)
    (pure_member (RpcClusterServer_set_cluster_action (RpcClusterServer_cluster_action n))))
      (\<lambda>v. v\<lparr>rcs_cluster_action := merge_opt (rcs_cluster_action w) (rcs_cluster_action v)\<rparr>)"
    "rcs_object.copies n w (member_if (RpcClusterServer_has_load n)
      (pure_member (RpcClusterServer_set_load (RpcClusterServer_load n))))
      (\<lambda>v. v\<lparr>rcs_load := merge_opt (rcs_load w) (rcs_load v)\<rparr>)"
    "rcs_object.copies n w (member_if (RpcClusterServer_has_cpu_used n)
      (pure_member (RpcClusterServer_set_cpu_used (RpcClusterServer_cpu_used n))))
      (\<lambda>v. v\<lparr>rcs_cpu_used := merge_opt (rcs_cpu_used w) (rcs_cpu_used v)\<rparr>)"
    "rcs_object.copies n w (member_if (RpcClusterServer_has_connection_num n)
      (pure_member (RpcClusterServer_set_connection_num (RpcClusterServer_connection_num n))))
      (\<lambda>v. v\<lparr>rcs_connection_num := merge_opt (rcs_connection_num w) (rcs_connection_num v)\<rparr>)"
    by (rule rcs_object.copies_access;
      use RpcClusterServer_sets in \<open>simp add: w RpcClusterServer_getters merge_opt_def fun_eq_iff\<close>)+
  have string1: "rcs_object.copies n w (member_if (RpcClusterServer_has_cluster_server_addr n)
    (\<lambda>m h. and_then (RpcClusterServer_cluster_server_addr n h)
    (\<lambda>v. RpcClusterServer_set_cluster_server_addr v m h)))
      (\<lambda>v. v\<lparr>rcs_cluster_server_addr := merge_opt (rcs_cluster_server_addr w) (rcs_cluster_server_addr v)\<rparr>)"
  proof (rule rcs_object.copies_string [where upd = "\<lambda>s v. v\<lparr>rcs_cluster_server_addr := Some s\<rparr>"])
    fix h' assume "RpcClusterServer_has_cluster_server_addr n" "rcs_ok n h'" "RpcClusterServer_val n h' = w"
    moreover then have "rcs_cluster_server_addr w = Some (text_at h' (rcso_cluster_server_addr n))" by (auto simp: RpcClusterServer_val_def)
    ultimately show "\<exists>v. RpcClusterServer_cluster_server_addr n h' = Inr v \<and>
        (\<lambda>v. v\<lparr>rcs_cluster_server_addr := merge_opt (rcs_cluster_server_addr w) (rcs_cluster_server_addr v)\<rparr>) = (\<lambda>u. u\<lparr>rcs_cluster_server_addr := Some v\<rparr>)"
      using rcs_object.msg_chars [of n h' "rcso_cluster_server_addr n"] by (simp add: RpcClusterServer_getters merge_opt_def RpcClusterServer_strs_def)
  qed (use RpcClusterServer_sets in \<open>simp_all add: w merge_opt_def\<close>)
  have "rcs_object.copies n w (in_order ?fs) (\<lambda>v. foldl (\<lambda>v g. g v) v ?gs)"
    using scalars string1 by (intro rcs_object.copies_list) simp
  moreover have "(\<lambda>v. foldl (\<lambda>v g. g v) v ?gs) = (\<lambda>v. v)" if none: "\<not> has_bit 0xff (rcso_has_bits n)"
    using has_bit_outside [OF none] by (simp add: w RpcClusterServer_simps merge_opt_def fun_eq_iff)
  ultimately have first: "rcs_object.copies n w (member_if (has_bit 0xff (rcso_has_bits n)) (in_order ?fs)) (\<lambda>v. foldl (\<lambda>v g. g v) v ?gs)"
    by (intro rcs_object.copies_if)
  have last: "rcs_object.copies n w
    (pure_member (\<lambda>m. m\<lparr>rcso_unknown_fields := rcso_unknown_fields m @ rcso_unknown_fields n\<rparr>))
      (\<lambda>v. v\<lparr>rcs_unknown := rcs_unknown v @ rcs_unknown w\<rparr>)"
    by (rule rcs_object.copies_pure) (simp_all add: RpcClusterServer_simps w)
  note all_fields = rcs_object.copies_both(1) [OF first last, folded RpcClusterServer_obj_MergeFrom_def]
  have merged: "RpcClusterServer_MergeFrom w = (\<lambda>v. (foldl (\<lambda>v g. g v) (v) ?gs)
      \<lparr>rcs_unknown := rcs_unknown v @ rcs_unknown w\<rparr>)"
    by (intro ext RpcClusterServer_pb.equality) (simp_all add: RpcClusterServer_MergeFrom_def)
  have "rcs_object.copies n w (RpcClusterServer_obj_MergeFrom n) (RpcClusterServer_MergeFrom w)"
    unfolding merged using all_fields by simp
  from rcs_object.copies_yields [OF this assms w_def [symmetric]] show ?thesis by (simp add: w_def)
qed

lemma RpcClusterServer_clear:
  assumes "rcs_ok m h"
  shows "rcs_yields m h (RpcClusterServer_obj_Clear m h) RpcClusterServer_Clear"
proof -
  have ok: "strings_ok [rcso_cluster_server_addr m] h" and fits: "RpcClusterServer_fits m h"
    using assms by (simp_all add: msg_ok_def RpcClusterServer_strs_def)
  obtain h1 where h1: "RpcClusterServer_has_cluster_server_addr m \<Longrightarrow> string_clear (rcso_cluster_server_addr m) h = Inr h1" "\<not> RpcClusterServer_has_cluster_server_addr m \<Longrightarrow> h1 = h"
      "strings_ok [rcso_cluster_server_addr m] h1" "rest (own_strings [rcso_cluster_server_addr m]) h1 = rest (own_strings [rcso_cluster_server_addr m]) h"
      "text_at h1 (rcso_cluster_server_addr m) = []" 
    by (rule wipe_string [where ps = "[]" and qs = "[]" and p = "rcso_cluster_server_addr m" and h = h and b = "RpcClusterServer_has_cluster_server_addr m"])
      (use ok fits in \<open>simp_all add: RpcClusterServer_fits_def\<close>)
  let ?m = "m\<lparr>rcso_cluster_action := REGISTER, rcso_load := 0, rcso_cpu_used := 0, rcso_connection_num := 0,
    rcso_has_bits := 0, rcso_unknown_fields := []\<rparr>"
  have "RpcClusterServer_obj_Clear m h = Inr (?m, h1)"
  proof (cases "has_bit 31 (rcso_has_bits m)")
    case True
    with h1(1,2) show ?thesis
      by (cases "RpcClusterServer_has_cluster_server_addr m"; simp add: RpcClusterServer_obj_Clear_def member_if_def pure_member_def)
  next
    case none: False
    have "h1 = h" using h1(1,2) has_bit_outside [OF none] by (simp add: RpcClusterServer_simps)
    with fits has_bit_outside [OF none] none show ?thesis
      by (simp add: RpcClusterServer_obj_Clear_def member_if_def RpcClusterServer_simps)
  qed
  moreover have "RpcClusterServer_fits ?m h1" "RpcClusterServer_val ?m h1 = RpcClusterServer_Clear"
    using h1(5-) by (simp_all add: RpcClusterServer_simps RpcClusterServer_Clear_def)
  ultimately show ?thesis
    using h1(3,4) by (simp add: yields_def msg_ok_def RpcClusterServer_strs_def del: own_strings_simps)
qed

lemma RpcClusterServer_deletes:
  assumes "rcs_ok m h"
  shows "\<exists>h'. RpcClusterServer_delete m h = Inr h' \<and> strings_ok [] h' \<and> blocks h' = rest (own_strings (RpcClusterServer_strs m)) h"
proof -
  have ok: "strings_ok [rcso_cluster_server_addr m] h" using assms by (simp add: msg_ok_def RpcClusterServer_strs_def)
  obtain h1 where h1: "string_delete (rcso_cluster_server_addr m) h = Inr h1" "strings_ok [] h1"
      "rest (own_strings []) h1 = rest (own_strings [rcso_cluster_server_addr m]) h"
    by (rule string_delete_ok [where ps = "[]" and qs = "[]" and p = "rcso_cluster_server_addr m" and h = h]) (use ok in simp_all)
  have "RpcClusterServer_delete m h = Inr h1" using h1(1) by (simp add: RpcClusterServer_delete_def)
  moreover have "blocks h1 = rest (own_strings (RpcClusterServer_strs m)) h"
    using h1(3) by (simp add: RpcClusterServer_strs_def del: own_strings_simps(2))
  ultimately show ?thesis using h1(2) by blast
qed

interpretation rcs_class: generated_message RpcClusterServer_strs RpcClusterServer_fits RpcClusterServer_val RpcClusterServer_class RpcClusterServer_accessors RpcClusterServer_Clear RpcClusterServer_MergeFrom
proof unfold_locales
  show "set (RpcClusterServer_strs (new_object RpcClusterServer_class)) \<subseteq> {GetEmptyString}"
    by (simp add: RpcClusterServer_class_def RpcClusterServer_new_def RpcClusterServer_strs_def)
  show "blocks h GetEmptyString = Some (Chars []) \<Longrightarrow>
      RpcClusterServer_fits (new_object RpcClusterServer_class) h \<and> RpcClusterServer_val (new_object RpcClusterServer_class) h = RpcClusterServer_Clear" for h
    by (simp add: RpcClusterServer_class_def RpcClusterServer_new_def RpcClusterServer_simps RpcClusterServer_Clear_def text_at_def)
  show "swap_members RpcClusterServer_class m n = (n, m)" for m n
    by (simp add: RpcClusterServer_class_def RpcClusterServer_Swap_def)
qed (simp_all add: RpcClusterServer_class_def RpcClusterServer_access RpcClusterServer_clear RpcClusterServer_merge RpcClusterServer_deletes)

text \<open>The getters read the message.\<close>

lemma RpcClusterServer_getters_ok:
  assumes "rcs_ok m h"
  shows "RpcClusterServer_cluster_action m = cluster_action (RpcClusterServer_get (RpcClusterServer_val m h))"
    "RpcClusterServer_cluster_server_addr m h = Inr (cluster_server_addr (RpcClusterServer_get (RpcClusterServer_val m h)))"
    "RpcClusterServer_load m = load (RpcClusterServer_get (RpcClusterServer_val m h))"
    "RpcClusterServer_cpu_used m = cpu_used (RpcClusterServer_get (RpcClusterServer_val m h))"
    "RpcClusterServer_connection_num m = connection_num (RpcClusterServer_get (RpcClusterServer_val m h))"
proof -
  have fits: "RpcClusterServer_fits m h" using assms by (simp add: msg_ok_def)
  show "RpcClusterServer_cluster_action m = cluster_action (RpcClusterServer_get (RpcClusterServer_val m h))"
    using fits
    by (cases "RpcClusterServer_has_cluster_action m") (simp_all add: RpcClusterServer_cluster_action_def RpcClusterServer_get_def RpcClusterServer_strs_def RpcClusterServer_val_def RpcClusterServer_fits_def)
  show "RpcClusterServer_cluster_server_addr m h = Inr (cluster_server_addr (RpcClusterServer_get (RpcClusterServer_val m h)))"
    using fits rcs_object.msg_chars [OF assms, of "rcso_cluster_server_addr m"]
    by (cases "RpcClusterServer_has_cluster_server_addr m") (simp_all add: RpcClusterServer_cluster_server_addr_def RpcClusterServer_get_def RpcClusterServer_strs_def RpcClusterServer_val_def RpcClusterServer_fits_def)
  show "RpcClusterServer_load m = load (RpcClusterServer_get (RpcClusterServer_val m h))"
    using fits
    by (cases "RpcClusterServer_has_load m") (simp_all add: RpcClusterServer_load_def RpcClusterServer_get_def RpcClusterServer_strs_def RpcClusterServer_val_def RpcClusterServer_fits_def)
  show "RpcClusterServer_cpu_used m = cpu_used (RpcClusterServer_get (RpcClusterServer_val m h))"
    using fits
    by (cases "RpcClusterServer_has_cpu_used m") (simp_all add: RpcClusterServer_cpu_used_def RpcClusterServer_get_def RpcClusterServer_strs_def RpcClusterServer_val_def RpcClusterServer_fits_def)
  show "RpcClusterServer_connection_num m = connection_num (RpcClusterServer_get (RpcClusterServer_val m h))"
    using fits
    by (cases "RpcClusterServer_has_connection_num m") (simp_all add: RpcClusterServer_connection_num_def RpcClusterServer_get_def RpcClusterServer_strs_def RpcClusterServer_val_def RpcClusterServer_fits_def)
qed

subsection \<open>CenterResponseCluster\<close>

abbreviation "crc_ok \<equiv> msg_ok CenterResponseCluster_strs CenterResponseCluster_fits"

abbreviation "crc_yields \<equiv> yields CenterResponseCluster_strs CenterResponseCluster_fits CenterResponseCluster_val"

interpretation crc_object: string_message CenterResponseCluster_strs CenterResponseCluster_fits CenterResponseCluster_val
  by unfold_locales (simp_all add: CenterResponseCluster_strs_def CenterResponseCluster_fits_def CenterResponseCluster_val_def text_at_def)

lemmas CenterResponseCluster_simps = CenterResponseCluster_strs_def CenterResponseCluster_fits_def
  CenterResponseCluster_val_def CenterResponseCluster_has_center_response_action_def
  CenterResponseCluster_set_has_center_response_action_def
  CenterResponseCluster_clear_has_center_response_action_def
  CenterResponseCluster_clear_center_response_action_def CenterResponseCluster_set_center_response_action_def
  CenterResponseCluster_clear_should_reporter_center_def CenterResponseCluster_add_should_reporter_center_def
  CenterResponseCluster_add_should_reporter_center_chars_def has_bit_simps

lemmas CenterResponseCluster_getters = CenterResponseCluster_center_response_action_def

lemma CenterResponseCluster_access:
  assumes "(f, g) \<in> CenterResponseCluster_accessors" "crc_ok m h"
  shows "crc_yields m h (f m h) (g (CenterResponseCluster_val m h))"
proof -
  note ok = assms(2)
  have fits: "CenterResponseCluster_fits m h" using ok by (simp add: msg_ok_def)
  show ?thesis
    by (insert assms(1), unfold CenterResponseCluster_accessors_def mem_Collect_eq prod.case,
      (elim disjE exE conjE Pair_inject; hypsubst;
       ((rule crc_object.yields_pure [OF ok]; use fits in \<open>simp add: CenterResponseCluster_simps\<close>; fail))))
qed

lemma CenterResponseCluster_sets:
  assumes "crc_ok m h"
  shows "crc_yields m h
    (pure_member (CenterResponseCluster_set_center_response_action a0) m h) ((CenterResponseCluster_val m h)\<lparr>crc_center_response_action := Some a0\<rparr>)"
proof -
  have fits: "CenterResponseCluster_fits m h" using assms by (simp add: msg_ok_def)
  show "crc_yields m h
    (pure_member (CenterResponseCluster_set_center_response_action a0) m h) ((CenterResponseCluster_val m h)\<lparr>crc_center_response_action := Some a0\<rparr>)"
    by ((rule crc_object.yields_pure [OF assms]; use fits in \<open>simp add: CenterResponseCluster_simps\<close>; fail))+
qed

lemma CenterResponseCluster_merge:
  assumes "crc_ok m h" "crc_ok n h" "apart CenterResponseCluster_strs m n"
  shows "crc_yields m h (CenterResponseCluster_obj_MergeFrom n m h) (CenterResponseCluster_MergeFrom (CenterResponseCluster_val n h) (CenterResponseCluster_val m h))"
proof -
  define w where "w = CenterResponseCluster_val n h"
  have w: "crc_center_response_action w = field_if (CenterResponseCluster_has_center_response_action n) (crco_center_response_action n)"
    "crc_should_reporter_center w = crco_should_reporter_center n"
    "crc_unknown w = crco_unknown_fields n"
    by (simp_all add: w_def CenterResponseCluster_val_def)
  let ?fs = "[member_if (CenterResponseCluster_has_center_response_action n)
    (pure_member (CenterResponseCluster_set_center_response_action (CenterResponseCluster_center_response_action n)))]"
  let ?gs = "[\<lambda>v. v\<lparr>crc_center_response_action := merge_opt (crc_center_response_action w) (crc_center_response_action v)\<rparr>]"
  have scalars: "crc_object.copies n w (member_if (CenterResponseCluster_has_center_response_action n)
    (pure_member (CenterResponseCluster_set_center_response_action (CenterResponseCluster_center_response_action n))))
      (\<lambda>v. v\<lparr>crc_center_response_action := merge_opt (crc_center_response_action w) (crc_center_response_action v)\<rparr>)"
    by (rule crc_object.copies_access;
      use CenterResponseCluster_sets in \<open>simp add: w CenterResponseCluster_getters merge_opt_def fun_eq_iff\<close>)+
  have "crc_object.copies n w (in_order ?fs) (\<lambda>v. foldl (\<lambda>v g. g v) v ?gs)"
    using scalars by (intro crc_object.copies_list) simp
  moreover have "(\<lambda>v. foldl (\<lambda>v g. g v) v ?gs) = (\<lambda>v. v)" if none: "\<not> has_bit 0xff (crco_has_bits n)"
    using has_bit_outside [OF none] by (simp add: w CenterResponseCluster_simps merge_opt_def fun_eq_iff)
  ultimately have first: "crc_object.copies n w (member_if (has_bit 0xff (crco_has_bits n)) (in_order ?fs)) (\<lambda>v. foldl (\<lambda>v g. g v) v ?gs)"
    by (intro crc_object.copies_if)
  have repeated: "crc_object.copies n w
    (pure_member (\<lambda>m. m\<lparr>crco_should_reporter_center := crco_should_reporter_center m @ crco_should_reporter_center n\<rparr>))
      (\<lambda>v. v\<lparr>crc_should_reporter_center := crc_should_reporter_center v @ crc_should_reporter_center w\<rparr>)"
    by (rule crc_object.copies_pure) (simp_all add: CenterResponseCluster_simps w)
  have last: "crc_object.copies n w
    (pure_member (\<lambda>m. m\<lparr>crco_unknown_fields := crco_unknown_fields m @ crco_unknown_fields n\<rparr>))
      (\<lambda>v. v\<lparr>crc_unknown := crc_unknown v @ crc_unknown w\<rparr>)"
    by (rule crc_object.copies_pure) (simp_all add: CenterResponseCluster_simps w)
  note all_fields = crc_object.copies_both(2) [OF repeated first last,
    folded CenterResponseCluster_obj_MergeFrom_def]
  have merged: "CenterResponseCluster_MergeFrom w = (\<lambda>v. (foldl (\<lambda>v g. g v) (v\<lparr>crc_should_reporter_center := crc_should_reporter_center v @ crc_should_reporter_center w\<rparr>) ?gs)
      \<lparr>crc_unknown := crc_unknown v @ crc_unknown w\<rparr>)"
    by (intro ext CenterResponseCluster_pb.equality) (simp_all add: CenterResponseCluster_MergeFrom_def)
  have "crc_object.copies n w (CenterResponseCluster_obj_MergeFrom n) (CenterResponseCluster_MergeFrom w)"
    unfolding merged using all_fields by simp
  from crc_object.copies_yields [OF this assms w_def [symmetric]] show ?thesis by (simp add: w_def)
qed

lemma CenterResponseCluster_clear:
  assumes "crc_ok m h"
  shows "crc_yields m h (CenterResponseCluster_obj_Clear m h) CenterResponseCluster_Clear"
proof -
  show ?thesis
    using assms by (simp add: yields_def msg_ok_def CenterResponseCluster_obj_Clear_def pure_member_def member_if_def CenterResponseCluster_simps CenterResponseCluster_Clear_def)
qed

lemma CenterResponseCluster_deletes:
  assumes "crc_ok m h"
  shows "\<exists>h'. CenterResponseCluster_delete m h = Inr h' \<and> strings_ok [] h' \<and> blocks h' = rest (own_strings (CenterResponseCluster_strs m)) h"
proof -
  show ?thesis using assms by (simp add: msg_ok_def CenterResponseCluster_strs_def CenterResponseCluster_delete_def)
qed

interpretation crc_class: generated_message CenterResponseCluster_strs CenterResponseCluster_fits CenterResponseCluster_val CenterResponseCluster_class CenterResponseCluster_accessors CenterResponseCluster_Clear CenterResponseCluster_MergeFrom
proof unfold_locales
  show "set (CenterResponseCluster_strs (new_object CenterResponseCluster_class)) \<subseteq> {GetEmptyString}"
    by (simp add: CenterResponseCluster_class_def CenterResponseCluster_new_def CenterResponseCluster_strs_def)
  show "blocks h GetEmptyString = Some (Chars []) \<Longrightarrow>
      CenterResponseCluster_fits (new_object CenterResponseCluster_class) h \<and> CenterResponseCluster_val (new_object CenterResponseCluster_class) h = CenterResponseCluster_Clear" for h
    by (simp add: CenterResponseCluster_class_def CenterResponseCluster_new_def CenterResponseCluster_simps CenterResponseCluster_Clear_def text_at_def)
  show "swap_members CenterResponseCluster_class m n = (n, m)" for m n
    by (simp add: CenterResponseCluster_class_def CenterResponseCluster_Swap_def)
qed (simp_all add: CenterResponseCluster_class_def CenterResponseCluster_access CenterResponseCluster_clear CenterResponseCluster_merge CenterResponseCluster_deletes)

text \<open>The getters read the message.\<close>

lemma CenterResponseCluster_getters_ok:
  assumes "crc_ok m h"
  shows "CenterResponseCluster_center_response_action m = center_response_action (CenterResponseCluster_get (CenterResponseCluster_val m h))"
proof -
  have fits: "CenterResponseCluster_fits m h" using assms by (simp add: msg_ok_def)
  show "CenterResponseCluster_center_response_action m = center_response_action (CenterResponseCluster_get (CenterResponseCluster_val m h))"
    using fits
    by (cases "CenterResponseCluster_has_center_response_action m") (simp_all add: CenterResponseCluster_center_response_action_def CenterResponseCluster_get_def CenterResponseCluster_strs_def CenterResponseCluster_val_def CenterResponseCluster_fits_def)
qed

subsection \<open>ClientWithCenter\<close>

abbreviation "cwc_ok \<equiv> msg_ok ClientWithCenter_strs ClientWithCenter_fits"

abbreviation "cwc_yields \<equiv> yields ClientWithCenter_strs ClientWithCenter_fits ClientWithCenter_val"

interpretation cwc_object: string_message ClientWithCenter_strs ClientWithCenter_fits ClientWithCenter_val
  by unfold_locales (simp_all add: ClientWithCenter_strs_def ClientWithCenter_fits_def ClientWithCenter_val_def text_at_def)

lemmas ClientWithCenter_simps = ClientWithCenter_strs_def ClientWithCenter_fits_def ClientWithCenter_val_def
  ClientWithCenter_has_from_addr_def ClientWithCenter_has_client_center_action_def
  ClientWithCenter_set_has_from_addr_def ClientWithCenter_set_has_client_center_action_def
  ClientWithCenter_clear_has_from_addr_def ClientWithCenter_clear_has_client_center_action_def
  ClientWithCenter_clear_client_center_action_def ClientWithCenter_set_client_center_action_def
  ClientWithCenter_clear_should_communicate_center_def ClientWithCenter_clear_cluster_server_list_def
  ClientWithCenter_add_should_communicate_center_def ClientWithCenter_add_should_communicate_center_chars_def
  ClientWithCenter_add_cluster_server_list_def ClientWithCenter_add_cluster_server_list_chars_def has_bit_simps

lemmas ClientWithCenter_strings = ClientWithCenter_clear_from_addr_def ClientWithCenter_set_from_addr_chars_def
  ClientWithCenter_set_from_addr_sized_def ClientWithCenter_set_from_addr_def
  ClientWithCenter_mutable_from_addr_def ClientWithCenter_release_from_addr_def
  ClientWithCenter_set_allocated_from_addr_def

lemmas ClientWithCenter_getters = ClientWithCenter_from_addr_def ClientWithCenter_client_center_action_def

lemma ClientWithCenter_access:
  assumes "(f, g) \<in> ClientWithCenter_accessors" "cwc_ok m h"
  shows "cwc_yields m h (f m h) (g (ClientWithCenter_val m h))"
proof -
  note ok = assms(2)
  note string_rules = cwc_object.yields_assign [OF ok] cwc_object.yields_mutable [OF ok] cwc_object.yields_clear [OF ok]
    cwc_object.yields_delete [OF ok] cwc_object.yields_given [OF ok]
  have fits: "ClientWithCenter_fits m h" using ok by (simp add: msg_ok_def)
  show ?thesis
    by (insert assms(1), unfold ClientWithCenter_accessors_def mem_Collect_eq prod.case,
      (elim disjE exE conjE Pair_inject; hypsubst;
       ((rule cwc_object.yields_pure [OF ok]; use fits in \<open>simp add: ClientWithCenter_simps\<close>; fail)
       | (unfold ClientWithCenter_strings, (simp only: sized_enough)?, (unfold member_shapes)?,
          (rule string_rules [where ps = "[]" and qs = "[]"];
            use fits in \<open>simp add: ClientWithCenter_simps field_if_def split: if_split\<close>; fail)))))
qed

lemma ClientWithCenter_sets:
  assumes "cwc_ok m h"
  shows "cwc_yields m h (ClientWithCenter_set_from_addr a0 m h) ((ClientWithCenter_val m h)\<lparr>cwc_from_addr := Some a0\<rparr>)"
    "cwc_yields m h
      (pure_member (ClientWithCenter_set_client_center_action a1) m h) ((ClientWithCenter_val m h)\<lparr>cwc_client_center_action := Some a1\<rparr>)"
proof -
  have fits: "ClientWithCenter_fits m h" using assms by (simp add: msg_ok_def)
  show "cwc_yields m h (ClientWithCenter_set_from_addr a0 m h) ((ClientWithCenter_val m h)\<lparr>cwc_from_addr := Some a0\<rparr>)"
    "cwc_yields m h
      (pure_member (ClientWithCenter_set_client_center_action a1) m h) ((ClientWithCenter_val m h)\<lparr>cwc_client_center_action := Some a1\<rparr>)"
    by ((rule cwc_object.yields_pure [OF assms]; use fits in \<open>simp add: ClientWithCenter_simps\<close>; fail)
     | (unfold ClientWithCenter_strings, rule cwc_object.yields_assign [OF assms,
       where ps = "[]" and qs = "[]"]; use fits in \<open>simp add: ClientWithCenter_simps\<close>; fail))+
qed

lemma ClientWithCenter_merge:
  assumes "cwc_ok m h" "cwc_ok n h" "apart ClientWithCenter_strs m n"
  shows "cwc_yields m h (ClientWithCenter_obj_MergeFrom n m h) (ClientWithCenter_MergeFrom (ClientWithCenter_val n h) (ClientWithCenter_val m h))"
proof -
  define w where "w = ClientWithCenter_val n h"
  have w: "cwc_from_addr w = field_if (ClientWithCenter_has_from_addr n) (text_at h (cwco_from_addr n))"
    "cwc_client_center_action w = field_if (ClientWithCenter_has_client_center_action n) (cwco_client_center_action n)"
    "cwc_should_communicate_center w = cwco_should_communicate_center n"
    "cwc_cluster_server_list w = cwco_cluster_server_list n"
    "cwc_unknown w = cwco_unknown_fields n"
    by (simp_all add: w_def ClientWithCenter_val_def)
  let ?fs = "[member_if (ClientWithCenter_has_from_addr n) (\<lambda>m h. and_then (ClientWithCenter_from_addr n h)
    (\<lambda>v. ClientWithCenter_set_from_addr v m h)),
      member_if (ClientWithCenter_has_client_center_action n)
        (pure_member (ClientWithCenter_set_client_center_action (ClientWithCenter_client_center_action n)))]"
  let ?gs = "[\<lambda>v. v\<lparr>cwc_from_addr := merge_opt (cwc_from_addr w) (cwc_from_addr v)\<rparr>,
      \<lambda>v. v\<lparr>cwc_client_center_action := merge_opt (cwc_client_center_action w) (cwc_client_center_action v)\<rparr>]"
  have scalars: "cwc_object.copies n w (member_if (ClientWithCenter_has_client_center_action n)
    (pure_member (ClientWithCenter_set_client_center_action (ClientWithCenter_client_center_action n))))
      (\<lambda>v. v\<lparr>cwc_client_center_action := merge_opt (cwc_client_center_action w) (cwc_client_center_action v)\<rparr>)"
    by (rule cwc_object.copies_access;
      use ClientWithCenter_sets in \<open>simp add: w ClientWithCenter_getters merge_opt_def fun_eq_iff\<close>)+
  have string0: "cwc_object.copies n w (member_if (ClientWithCenter_has_from_addr n)
    (\<lambda>m h. and_then (ClientWithCenter_from_addr n h) (\<lambda>v. ClientWithCenter_set_from_addr v m h)))
      (\<lambda>v. v\<lparr>cwc_from_addr := merge_opt (cwc_from_addr w) (cwc_from_addr v)\<rparr>)"
  proof (rule cwc_object.copies_string [where upd = "\<lambda>s v. v\<lparr>cwc_from_addr := Some s\<rparr>"])
    fix h' assume "ClientWithCenter_has_from_addr n" "cwc_ok n h'" "ClientWithCenter_val n h' = w"
    moreover then have "cwc_from_addr w = Some (text_at h' (cwco_from_addr n))" by (auto simp: ClientWithCenter_val_def)
    ultimately show "\<exists>v. ClientWithCenter_from_addr n h' = Inr v \<and>
        (\<lambda>v. v\<lparr>cwc_from_addr := merge_opt (cwc_from_addr w) (cwc_from_addr v)\<rparr>) = (\<lambda>u. u\<lparr>cwc_from_addr := Some v\<rparr>)"
      using cwc_object.msg_chars [of n h' "cwco_from_addr n"] by (simp add: ClientWithCenter_getters merge_opt_def ClientWithCenter_strs_def)
  qed (use ClientWithCenter_sets in \<open>simp_all add: w merge_opt_def\<close>)
  have "cwc_object.copies n w (in_order ?fs) (\<lambda>v. foldl (\<lambda>v g. g v) v ?gs)"
    using string0 scalars by (intro cwc_object.copies_list) simp
  moreover have "(\<lambda>v. foldl (\<lambda>v g. g v) v ?gs) = (\<lambda>v. v)" if none: "\<not> has_bit 0xff (cwco_has_bits n)"
    using has_bit_outside [OF none] by (simp add: w ClientWithCenter_simps merge_opt_def fun_eq_iff)
  ultimately have first: "cwc_object.copies n w (member_if (has_bit 0xff (cwco_has_bits n)) (in_order ?fs)) (\<lambda>v. foldl (\<lambda>v g. g v) v ?gs)"
    by (intro cwc_object.copies_if)
  have repeated: "cwc_object.copies n w
    (pure_member (\<lambda>m. m\<lparr>cwco_should_communicate_center := cwco_should_communicate_center m @ cwco_should_communicate_center n, cwco_cluster_server_list := cwco_cluster_server_list m @ cwco_cluster_server_list n\<rparr>))
      (\<lambda>v. v\<lparr>cwc_should_communicate_center := cwc_should_communicate_center v @ cwc_should_communicate_center w, cwc_cluster_server_list := cwc_cluster_server_list v @ cwc_cluster_server_list w\<rparr>)"
    by (rule cwc_object.copies_pure) (simp_all add: ClientWithCenter_simps w)
  have last: "cwc_object.copies n w
    (pure_member (\<lambda>m. m\<lparr>cwco_unknown_fields := cwco_unknown_fields m @ cwco_unknown_fields n\<rparr>))
      (\<lambda>v. v\<lparr>cwc_unknown := cwc_unknown v @ cwc_unknown w\<rparr>)"
    by (rule cwc_object.copies_pure) (simp_all add: ClientWithCenter_simps w)
  note all_fields = cwc_object.copies_both(2) [OF repeated first last,
    folded ClientWithCenter_obj_MergeFrom_def]
  have merged: "ClientWithCenter_MergeFrom w = (\<lambda>v. (foldl (\<lambda>v g. g v) (v\<lparr>cwc_should_communicate_center := cwc_should_communicate_center v @ cwc_should_communicate_center w, cwc_cluster_server_list := cwc_cluster_server_list v @ cwc_cluster_server_list w\<rparr>) ?gs)
      \<lparr>cwc_unknown := cwc_unknown v @ cwc_unknown w\<rparr>)"
    by (intro ext ClientWithCenter_pb.equality) (simp_all add: ClientWithCenter_MergeFrom_def)
  have "cwc_object.copies n w (ClientWithCenter_obj_MergeFrom n) (ClientWithCenter_MergeFrom w)"
    unfolding merged using all_fields by simp
  from cwc_object.copies_yields [OF this assms w_def [symmetric]] show ?thesis by (simp add: w_def)
qed

lemma ClientWithCenter_clear:
  assumes "cwc_ok m h"
  shows "cwc_yields m h (ClientWithCenter_obj_Clear m h) ClientWithCenter_Clear"
proof -
  have ok: "strings_ok [cwco_from_addr m] h" and fits: "ClientWithCenter_fits m h"
    using assms by (simp_all add: msg_ok_def ClientWithCenter_strs_def)
  obtain h1 where h1: "ClientWithCenter_has_from_addr m \<Longrightarrow> string_clear (cwco_from_addr m) h = Inr h1" "\<not> ClientWithCenter_has_from_addr m \<Longrightarrow> h1 = h"
      "strings_ok [cwco_from_addr m] h1" "rest (own_strings [cwco_from_addr m]) h1 = rest (own_strings [cwco_from_addr m]) h"
      "text_at h1 (cwco_from_addr m) = []" 
    by (rule wipe_string [where ps = "[]" and qs = "[]" and p = "cwco_from_addr m" and h = h and b = "ClientWithCenter_has_from_addr m"])
      (use ok fits in \<open>simp_all add: ClientWithCenter_fits_def\<close>)
  let ?m = "m\<lparr>cwco_should_communicate_center := [], cwco_cluster_server_list := [],
    cwco_client_center_action := CLIENT_INIT_REQ, cwco_has_bits := 0, cwco_unknown_fields := []\<rparr>"
  have "ClientWithCenter_obj_Clear m h = Inr (?m, h1)"
  proof (cases "has_bit 3 (cwco_has_bits m)")
    case True
    with h1(1,2) show ?thesis
      by (cases "ClientWithCenter_has_from_addr m"; simp add: ClientWithCenter_obj_Clear_def member_if_def pure_member_def)
  next
    case none: False
    have "h1 = h" using h1(1,2) has_bit_outside [OF none] by (simp add: ClientWithCenter_simps)
    with fits has_bit_outside [OF none] none show ?thesis
      by (simp add: ClientWithCenter_obj_Clear_def member_if_def ClientWithCenter_simps)
  qed
  moreover have "ClientWithCenter_fits ?m h1" "ClientWithCenter_val ?m h1 = ClientWithCenter_Clear"
    using h1(5-) by (simp_all add: ClientWithCenter_simps ClientWithCenter_Clear_def)
  ultimately show ?thesis
    using h1(3,4) by (simp add: yields_def msg_ok_def ClientWithCenter_strs_def del: own_strings_simps)
qed

lemma ClientWithCenter_deletes:
  assumes "cwc_ok m h"
  shows "\<exists>h'. ClientWithCenter_delete m h = Inr h' \<and> strings_ok [] h' \<and> blocks h' = rest (own_strings (ClientWithCenter_strs m)) h"
proof -
  have ok: "strings_ok [cwco_from_addr m] h" using assms by (simp add: msg_ok_def ClientWithCenter_strs_def)
  obtain h1 where h1: "string_delete (cwco_from_addr m) h = Inr h1" "strings_ok [] h1"
      "rest (own_strings []) h1 = rest (own_strings [cwco_from_addr m]) h"
    by (rule string_delete_ok [where ps = "[]" and qs = "[]" and p = "cwco_from_addr m" and h = h]) (use ok in simp_all)
  have "ClientWithCenter_delete m h = Inr h1" using h1(1) by (simp add: ClientWithCenter_delete_def)
  moreover have "blocks h1 = rest (own_strings (ClientWithCenter_strs m)) h"
    using h1(3) by (simp add: ClientWithCenter_strs_def del: own_strings_simps(2))
  ultimately show ?thesis using h1(2) by blast
qed

interpretation cwc_class: generated_message ClientWithCenter_strs ClientWithCenter_fits ClientWithCenter_val ClientWithCenter_class ClientWithCenter_accessors ClientWithCenter_Clear ClientWithCenter_MergeFrom
proof unfold_locales
  show "set (ClientWithCenter_strs (new_object ClientWithCenter_class)) \<subseteq> {GetEmptyString}"
    by (simp add: ClientWithCenter_class_def ClientWithCenter_new_def ClientWithCenter_strs_def)
  show "blocks h GetEmptyString = Some (Chars []) \<Longrightarrow>
      ClientWithCenter_fits (new_object ClientWithCenter_class) h \<and> ClientWithCenter_val (new_object ClientWithCenter_class) h = ClientWithCenter_Clear" for h
    by (simp add: ClientWithCenter_class_def ClientWithCenter_new_def ClientWithCenter_simps ClientWithCenter_Clear_def text_at_def)
  show "swap_members ClientWithCenter_class m n = (n, m)" for m n
    by (simp add: ClientWithCenter_class_def ClientWithCenter_Swap_def)
qed (simp_all add: ClientWithCenter_class_def ClientWithCenter_access ClientWithCenter_clear ClientWithCenter_merge ClientWithCenter_deletes)

text \<open>The getters read the message.\<close>

lemma ClientWithCenter_getters_ok:
  assumes "cwc_ok m h"
  shows "ClientWithCenter_from_addr m h = Inr (from_addr (ClientWithCenter_get (ClientWithCenter_val m h)))"
    "ClientWithCenter_client_center_action m = client_center_action (ClientWithCenter_get (ClientWithCenter_val m h))"
proof -
  have fits: "ClientWithCenter_fits m h" using assms by (simp add: msg_ok_def)
  show "ClientWithCenter_from_addr m h = Inr (from_addr (ClientWithCenter_get (ClientWithCenter_val m h)))"
    using fits cwc_object.msg_chars [OF assms, of "cwco_from_addr m"]
    by (cases "ClientWithCenter_has_from_addr m") (simp_all add: ClientWithCenter_from_addr_def ClientWithCenter_get_def ClientWithCenter_strs_def ClientWithCenter_val_def ClientWithCenter_fits_def)
  show "ClientWithCenter_client_center_action m = client_center_action (ClientWithCenter_get (ClientWithCenter_val m h))"
    using fits
    by (cases "ClientWithCenter_has_client_center_action m") (simp_all add: ClientWithCenter_client_center_action_def ClientWithCenter_get_def ClientWithCenter_strs_def ClientWithCenter_val_def ClientWithCenter_fits_def)
qed

subsection \<open>LoadBalancerMetaData\<close>

abbreviation "lbm_ok \<equiv> msg_ok LoadBalancerMetaData_strs LoadBalancerMetaData_fits"

abbreviation "lbm_yields \<equiv> yields LoadBalancerMetaData_strs LoadBalancerMetaData_fits LoadBalancerMetaData_val"

interpretation lbm_object: string_message LoadBalancerMetaData_strs LoadBalancerMetaData_fits LoadBalancerMetaData_val
  by unfold_locales (simp_all add: LoadBalancerMetaData_strs_def LoadBalancerMetaData_fits_def LoadBalancerMetaData_val_def text_at_def)

lemmas LoadBalancerMetaData_simps = LoadBalancerMetaData_strs_def LoadBalancerMetaData_fits_def
  LoadBalancerMetaData_val_def LoadBalancerMetaData_has_vid_def LoadBalancerMetaData_has_server_addr_def
  LoadBalancerMetaData_set_has_vid_def LoadBalancerMetaData_set_has_server_addr_def
  LoadBalancerMetaData_clear_has_vid_def LoadBalancerMetaData_clear_has_server_addr_def
  LoadBalancerMetaData_clear_vid_def LoadBalancerMetaData_set_vid_def has_bit_simps

lemmas LoadBalancerMetaData_strings = LoadBalancerMetaData_clear_server_addr_def
  LoadBalancerMetaData_set_server_addr_chars_def LoadBalancerMetaData_set_server_addr_sized_def
  LoadBalancerMetaData_set_server_addr_def LoadBalancerMetaData_mutable_server_addr_def
  LoadBalancerMetaData_release_server_addr_def LoadBalancerMetaData_set_allocated_server_addr_def

lemmas LoadBalancerMetaData_getters = LoadBalancerMetaData_vid_def LoadBalancerMetaData_server_addr_def

lemma LoadBalancerMetaData_access:
  assumes "(f, g) \<in> LoadBalancerMetaData_accessors" "lbm_ok m h"
  shows "lbm_yields m h (f m h) (g (LoadBalancerMetaData_val m h))"
proof -
  note ok = assms(2)
  note string_rules = lbm_object.yields_assign [OF ok] lbm_object.yields_mutable [OF ok] lbm_object.yields_clear [OF ok]
    lbm_object.yields_delete [OF ok] lbm_object.yields_given [OF ok]
  have fits: "LoadBalancerMetaData_fits m h" using ok by (simp add: msg_ok_def)
  show ?thesis
    by (insert assms(1), unfold LoadBalancerMetaData_accessors_def mem_Collect_eq prod.case,
      (elim disjE exE conjE Pair_inject; hypsubst;
       ((rule lbm_object.yields_pure [OF ok]; use fits in \<open>simp add: LoadBalancerMetaData_simps\<close>; fail)
       | (unfold LoadBalancerMetaData_strings, (simp only: sized_enough)?, (unfold member_shapes)?,
          (rule string_rules [where ps = "[]" and qs = "[]"];
            use fits in \<open>simp add: LoadBalancerMetaData_simps field_if_def split: if_split\<close>; fail)))))
qed

lemma LoadBalancerMetaData_sets:
  assumes "lbm_ok m h"
  shows "lbm_yields m h
    (pure_member (LoadBalancerMetaData_set_vid a0) m h) ((LoadBalancerMetaData_val m h)\<lparr>lbm_vid := Some a0\<rparr>)"
    "lbm_yields m h (LoadBalancerMetaData_set_server_addr a1 m h) ((LoadBalancerMetaData_val m h)\<lparr>lbm_server_addr := Some a1\<rparr>)"
proof -
  have fits: "LoadBalancerMetaData_fits m h" using assms by (simp add: msg_ok_def)
  show "lbm_yields m h
    (pure_member (LoadBalancerMetaData_set_vid a0) m h) ((LoadBalancerMetaData_val m h)\<lparr>lbm_vid := Some a0\<rparr>)"
    "lbm_yields m h (LoadBalancerMetaData_set_server_addr a1 m h) ((LoadBalancerMetaData_val m h)\<lparr>lbm_server_addr := Some a1\<rparr>)"
    by ((rule lbm_object.yields_pure [OF assms]; use fits in \<open>simp add: LoadBalancerMetaData_simps\<close>; fail)
     | (unfold LoadBalancerMetaData_strings, rule lbm_object.yields_assign [OF assms,
       where ps = "[]" and qs = "[]"]; use fits in \<open>simp add: LoadBalancerMetaData_simps\<close>; fail))+
qed

lemma LoadBalancerMetaData_merge:
  assumes "lbm_ok m h" "lbm_ok n h" "apart LoadBalancerMetaData_strs m n"
  shows "lbm_yields m h (LoadBalancerMetaData_obj_MergeFrom n m h) (LoadBalancerMetaData_MergeFrom (LoadBalancerMetaData_val n h) (LoadBalancerMetaData_val m h))"
proof -
  define w where "w = LoadBalancerMetaData_val n h"
  have w: "lbm_vid w = field_if (LoadBalancerMetaData_has_vid n) (lbmo_vid n)"
    "lbm_server_addr w = field_if (LoadBalancerMetaData_has_server_addr n) (text_at h (lbmo_server_addr n))"
    "lbm_unknown w = lbmo_unknown_fields n"
    by (simp_all add: w_def LoadBalancerMetaData_val_def)
  let ?fs = "[member_if (LoadBalancerMetaData_has_vid n)
    (pure_member (LoadBalancerMetaData_set_vid (LoadBalancerMetaData_vid n))),
      member_if (LoadBalancerMetaData_has_server_addr n) (\<lambda>m h. and_then (LoadBalancerMetaData_server_addr n h)
        (\<lambda>v. LoadBalancerMetaData_set_server_addr v m h))]"
  let ?gs = "[\<lambda>v. v\<lparr>lbm_vid := merge_opt (lbm_vid w) (lbm_vid v)\<rparr>,
      \<lambda>v. v\<lparr>lbm_server_addr := merge_opt (lbm_server_addr w) (lbm_server_addr v)\<rparr>]"
  have scalars: "lbm_object.copies n w (member_if (LoadBalancerMetaData_has_vid n)
    (pure_member (LoadBalancerMetaData_set_vid (LoadBalancerMetaData_vid n))))
      (\<lambda>v. v\<lparr>lbm_vid := merge_opt (lbm_vid w) (lbm_vid v)\<rparr>)"
    by (rule lbm_object.copies_access;
      use LoadBalancerMetaData_sets in \<open>simp add: w LoadBalancerMetaData_getters merge_opt_def fun_eq_iff\<close>)+
  have string1: "lbm_object.copies n w (member_if (LoadBalancerMetaData_has_server_addr n)
    (\<lambda>m h. and_then (LoadBalancerMetaData_server_addr n h) (\<lambda>v. LoadBalancerMetaData_set_server_addr v m h)))
      (\<lambda>v. v\<lparr>lbm_server_addr := merge_opt (lbm_server_addr w) (lbm_server_addr v)\<rparr>)"
  proof (rule lbm_object.copies_string [where upd = "\<lambda>s v. v\<lparr>lbm_server_addr := Some s\<rparr>"])
    fix h' assume "LoadBalancerMetaData_has_server_addr n" "lbm_ok n h'" "LoadBalancerMetaData_val n h' = w"
    moreover then have "lbm_server_addr w = Some (text_at h' (lbmo_server_addr n))" by (auto simp: LoadBalancerMetaData_val_def)
    ultimately show "\<exists>v. LoadBalancerMetaData_server_addr n h' = Inr v \<and>
        (\<lambda>v. v\<lparr>lbm_server_addr := merge_opt (lbm_server_addr w) (lbm_server_addr v)\<rparr>) = (\<lambda>u. u\<lparr>lbm_server_addr := Some v\<rparr>)"
      using lbm_object.msg_chars [of n h' "lbmo_server_addr n"] by (simp add: LoadBalancerMetaData_getters merge_opt_def LoadBalancerMetaData_strs_def)
  qed (use LoadBalancerMetaData_sets in \<open>simp_all add: w merge_opt_def\<close>)
  have "lbm_object.copies n w (in_order ?fs) (\<lambda>v. foldl (\<lambda>v g. g v) v ?gs)"
    using scalars string1 by (intro lbm_object.copies_list) simp
  moreover have "(\<lambda>v. foldl (\<lambda>v g. g v) v ?gs) = (\<lambda>v. v)" if none: "\<not> has_bit 0xff (lbmo_has_bits n)"
    using has_bit_outside [OF none] by (simp add: w LoadBalancerMetaData_simps merge_opt_def fun_eq_iff)
  ultimately have first: "lbm_object.copies n w (member_if (has_bit 0xff (lbmo_has_bits n)) (in_order ?fs)) (\<lambda>v. foldl (\<lambda>v g. g v) v ?gs)"
    by (intro lbm_object.copies_if)
  have last: "lbm_object.copies n w
    (pure_member (\<lambda>m. m\<lparr>lbmo_unknown_fields := lbmo_unknown_fields m @ lbmo_unknown_fields n\<rparr>))
      (\<lambda>v. v\<lparr>lbm_unknown := lbm_unknown v @ lbm_unknown w\<rparr>)"
    by (rule lbm_object.copies_pure) (simp_all add: LoadBalancerMetaData_simps w)
  note all_fields = lbm_object.copies_both(1) [OF first last, folded LoadBalancerMetaData_obj_MergeFrom_def]
  have merged: "LoadBalancerMetaData_MergeFrom w = (\<lambda>v. (foldl (\<lambda>v g. g v) (v) ?gs)
      \<lparr>lbm_unknown := lbm_unknown v @ lbm_unknown w\<rparr>)"
    by (intro ext LoadBalancerMetaData_pb.equality) (simp_all add: LoadBalancerMetaData_MergeFrom_def)
  have "lbm_object.copies n w (LoadBalancerMetaData_obj_MergeFrom n) (LoadBalancerMetaData_MergeFrom w)"
    unfolding merged using all_fields by simp
  from lbm_object.copies_yields [OF this assms w_def [symmetric]] show ?thesis by (simp add: w_def)
qed

lemma LoadBalancerMetaData_clear:
  assumes "lbm_ok m h"
  shows "lbm_yields m h (LoadBalancerMetaData_obj_Clear m h) LoadBalancerMetaData_Clear"
proof -
  have ok: "strings_ok [lbmo_server_addr m] h" and fits: "LoadBalancerMetaData_fits m h"
    using assms by (simp_all add: msg_ok_def LoadBalancerMetaData_strs_def)
  obtain h1 where h1: "LoadBalancerMetaData_has_server_addr m \<Longrightarrow> string_clear (lbmo_server_addr m) h = Inr h1" "\<not> LoadBalancerMetaData_has_server_addr m \<Longrightarrow> h1 = h"
      "strings_ok [lbmo_server_addr m] h1" "rest (own_strings [lbmo_server_addr m]) h1 = rest (own_strings [lbmo_server_addr m]) h"
      "text_at h1 (lbmo_server_addr m) = []" 
    by (rule wipe_string [where ps = "[]" and qs = "[]" and p = "lbmo_server_addr m" and h = h and b = "LoadBalancerMetaData_has_server_addr m"])
      (use ok fits in \<open>simp_all add: LoadBalancerMetaData_fits_def\<close>)
  let ?m = "m\<lparr>lbmo_vid := 0, lbmo_has_bits := 0, lbmo_unknown_fields := []\<rparr>"
  have "LoadBalancerMetaData_obj_Clear m h = Inr (?m, h1)"
  proof (cases "has_bit 3 (lbmo_has_bits m)")
    case True
    with h1(1,2) show ?thesis
      by (cases "LoadBalancerMetaData_has_server_addr m"; simp add: LoadBalancerMetaData_obj_Clear_def member_if_def pure_member_def)
  next
    case none: False
    have "h1 = h" using h1(1,2) has_bit_outside [OF none] by (simp add: LoadBalancerMetaData_simps)
    with fits has_bit_outside [OF none] none show ?thesis
      by (simp add: LoadBalancerMetaData_obj_Clear_def member_if_def LoadBalancerMetaData_simps)
  qed
  moreover have "LoadBalancerMetaData_fits ?m h1" "LoadBalancerMetaData_val ?m h1 = LoadBalancerMetaData_Clear"
    using h1(5-) by (simp_all add: LoadBalancerMetaData_simps LoadBalancerMetaData_Clear_def)
  ultimately show ?thesis
    using h1(3,4) by (simp add: yields_def msg_ok_def LoadBalancerMetaData_strs_def del: own_strings_simps)
qed

lemma LoadBalancerMetaData_deletes:
  assumes "lbm_ok m h"
  shows "\<exists>h'. LoadBalancerMetaData_delete m h = Inr h' \<and> strings_ok [] h' \<and> blocks h' = rest (own_strings (LoadBalancerMetaData_strs m)) h"
proof -
  have ok: "strings_ok [lbmo_server_addr m] h" using assms by (simp add: msg_ok_def LoadBalancerMetaData_strs_def)
  obtain h1 where h1: "string_delete (lbmo_server_addr m) h = Inr h1" "strings_ok [] h1"
      "rest (own_strings []) h1 = rest (own_strings [lbmo_server_addr m]) h"
    by (rule string_delete_ok [where ps = "[]" and qs = "[]" and p = "lbmo_server_addr m" and h = h]) (use ok in simp_all)
  have "LoadBalancerMetaData_delete m h = Inr h1" using h1(1) by (simp add: LoadBalancerMetaData_delete_def)
  moreover have "blocks h1 = rest (own_strings (LoadBalancerMetaData_strs m)) h"
    using h1(3) by (simp add: LoadBalancerMetaData_strs_def del: own_strings_simps(2))
  ultimately show ?thesis using h1(2) by blast
qed

interpretation lbm_class: generated_message LoadBalancerMetaData_strs LoadBalancerMetaData_fits LoadBalancerMetaData_val LoadBalancerMetaData_class LoadBalancerMetaData_accessors LoadBalancerMetaData_Clear LoadBalancerMetaData_MergeFrom
proof unfold_locales
  show "set (LoadBalancerMetaData_strs (new_object LoadBalancerMetaData_class)) \<subseteq> {GetEmptyString}"
    by (simp add: LoadBalancerMetaData_class_def LoadBalancerMetaData_new_def LoadBalancerMetaData_strs_def)
  show "blocks h GetEmptyString = Some (Chars []) \<Longrightarrow>
      LoadBalancerMetaData_fits (new_object LoadBalancerMetaData_class) h \<and> LoadBalancerMetaData_val (new_object LoadBalancerMetaData_class) h = LoadBalancerMetaData_Clear" for h
    by (simp add: LoadBalancerMetaData_class_def LoadBalancerMetaData_new_def LoadBalancerMetaData_simps LoadBalancerMetaData_Clear_def text_at_def)
  show "swap_members LoadBalancerMetaData_class m n = (n, m)" for m n
    by (simp add: LoadBalancerMetaData_class_def LoadBalancerMetaData_Swap_def)
qed (simp_all add: LoadBalancerMetaData_class_def LoadBalancerMetaData_access LoadBalancerMetaData_clear LoadBalancerMetaData_merge LoadBalancerMetaData_deletes)

text \<open>The getters read the message.\<close>

lemma LoadBalancerMetaData_getters_ok:
  assumes "lbm_ok m h"
  shows "LoadBalancerMetaData_vid m = vid (LoadBalancerMetaData_get (LoadBalancerMetaData_val m h))"
    "LoadBalancerMetaData_server_addr m h = Inr (server_addr (LoadBalancerMetaData_get (LoadBalancerMetaData_val m h)))"
proof -
  have fits: "LoadBalancerMetaData_fits m h" using assms by (simp add: msg_ok_def)
  show "LoadBalancerMetaData_vid m = vid (LoadBalancerMetaData_get (LoadBalancerMetaData_val m h))"
    using fits
    by (cases "LoadBalancerMetaData_has_vid m") (simp_all add: LoadBalancerMetaData_vid_def LoadBalancerMetaData_get_def LoadBalancerMetaData_strs_def LoadBalancerMetaData_val_def LoadBalancerMetaData_fits_def)
  show "LoadBalancerMetaData_server_addr m h = Inr (server_addr (LoadBalancerMetaData_get (LoadBalancerMetaData_val m h)))"
    using fits lbm_object.msg_chars [OF assms, of "lbmo_server_addr m"]
    by (cases "LoadBalancerMetaData_has_server_addr m") (simp_all add: LoadBalancerMetaData_server_addr_def LoadBalancerMetaData_get_def LoadBalancerMetaData_strs_def LoadBalancerMetaData_val_def LoadBalancerMetaData_fits_def)
qed

subsection \<open>CentersProto\<close>

abbreviation "pb_ok \<equiv> msg_ok CentersProto_strs CentersProto_fits"

abbreviation "pb_yields \<equiv> yields CentersProto_strs CentersProto_fits CentersProto_val"

interpretation pb_object: string_message CentersProto_strs CentersProto_fits CentersProto_val
  by unfold_locales (simp_all add: CentersProto_strs_def CentersProto_fits_def CentersProto_val_def text_at_def)

lemmas CentersProto_simps = CentersProto_strs_def CentersProto_fits_def CentersProto_val_def
  CentersProto_has_from_center_addr_def CentersProto_has_center_status_def CentersProto_has_center_action_def
  CentersProto_has_start_time_def CentersProto_has_lc_start_time_def CentersProto_has_logical_clock_def
  CentersProto_has_leader_center_def CentersProto_set_has_from_center_addr_def
  CentersProto_set_has_center_status_def CentersProto_set_has_center_action_def
  CentersProto_set_has_start_time_def CentersProto_set_has_lc_start_time_def
  CentersProto_set_has_logical_clock_def CentersProto_set_has_leader_center_def
  CentersProto_clear_has_from_center_addr_def CentersProto_clear_has_center_status_def
  CentersProto_clear_has_center_action_def CentersProto_clear_has_start_time_def
  CentersProto_clear_has_lc_start_time_def CentersProto_clear_has_logical_clock_def
  CentersProto_clear_has_leader_center_def CentersProto_clear_center_status_def
  CentersProto_set_center_status_def CentersProto_clear_center_action_def CentersProto_set_center_action_def
  CentersProto_clear_start_time_def CentersProto_set_start_time_def CentersProto_clear_lc_start_time_def
  CentersProto_set_lc_start_time_def CentersProto_clear_logical_clock_def CentersProto_set_logical_clock_def
  CentersProto_clear_server_infos_list_def CentersProto_clear_lb_result_def
  CentersProto_add_server_infos_list_def CentersProto_add_lb_result_def has_bit_simps

lemmas CentersProto_strings = CentersProto_clear_from_center_addr_def
  CentersProto_set_from_center_addr_chars_def CentersProto_set_from_center_addr_sized_def
  CentersProto_set_from_center_addr_def CentersProto_mutable_from_center_addr_def
  CentersProto_release_from_center_addr_def CentersProto_set_allocated_from_center_addr_def
  CentersProto_clear_leader_center_def CentersProto_set_leader_center_chars_def
  CentersProto_set_leader_center_sized_def CentersProto_set_leader_center_def
  CentersProto_mutable_leader_center_def CentersProto_release_leader_center_def
  CentersProto_set_allocated_leader_center_def

lemmas CentersProto_getters = CentersProto_from_center_addr_def CentersProto_center_status_def
  CentersProto_center_action_def CentersProto_start_time_def CentersProto_lc_start_time_def
  CentersProto_logical_clock_def CentersProto_leader_center_def

lemma CentersProto_access:
  assumes "(f, g) \<in> CentersProto_accessors" "pb_ok m h"
  shows "pb_yields m h (f m h) (g (CentersProto_val m h))"
proof -
  note ok = assms(2)
  note string_rules = pb_object.yields_assign [OF ok] pb_object.yields_mutable [OF ok] pb_object.yields_clear [OF ok]
    pb_object.yields_delete [OF ok] pb_object.yields_given [OF ok]
  have fits: "CentersProto_fits m h" using ok by (simp add: msg_ok_def)
  show ?thesis
    by (insert assms(1), unfold CentersProto_accessors_def mem_Collect_eq prod.case,
      (elim disjE exE conjE Pair_inject; hypsubst;
       ((rule pb_object.yields_pure [OF ok]; use fits in \<open>simp add: CentersProto_simps\<close>; fail)
       | (unfold CentersProto_strings, (simp only: sized_enough)?, (unfold member_shapes)?,
          (rule string_rules [where ps = "[]" and qs = "[cpo_leader_center m]"];
            use fits in \<open>simp add: CentersProto_simps field_if_def split: if_split\<close>; fail))
       | (unfold CentersProto_strings, (simp only: sized_enough)?, (unfold member_shapes)?,
          (rule string_rules [where ps = "[cpo_from_center_addr m]" and qs = "[]"];
            use fits in \<open>simp add: CentersProto_simps field_if_def split: if_split\<close>; fail)))))
qed

lemma CentersProto_sets:
  assumes "pb_ok m h"
  shows "pb_yields m h (CentersProto_set_from_center_addr a0 m h) ((CentersProto_val m h)\<lparr>pb_from_center_addr := Some a0\<rparr>)"
    "pb_yields m h
      (pure_member (CentersProto_set_center_status a1) m h) ((CentersProto_val m h)\<lparr>pb_center_status := Some a1\<rparr>)"
    "pb_yields m h
      (pure_member (CentersProto_set_center_action a2) m h) ((CentersProto_val m h)\<lparr>pb_center_action := Some a2\<rparr>)"
    "pb_yields m h
      (pure_member (CentersProto_set_start_time a3) m h) ((CentersProto_val m h)\<lparr>pb_start_time := Some a3\<rparr>)"
    "pb_yields m h
      (pure_member (CentersProto_set_lc_start_time a4) m h) ((CentersProto_val m h)\<lparr>pb_lc_start_time := Some a4\<rparr>)"
    "pb_yields m h
      (pure_member (CentersProto_set_logical_clock a5) m h) ((CentersProto_val m h)\<lparr>pb_logical_clock := Some a5\<rparr>)"
    "pb_yields m h (CentersProto_set_leader_center a6 m h) ((CentersProto_val m h)\<lparr>pb_leader_center := Some a6\<rparr>)"
proof -
  have fits: "CentersProto_fits m h" using assms by (simp add: msg_ok_def)
  show "pb_yields m h (CentersProto_set_from_center_addr a0 m h) ((CentersProto_val m h)\<lparr>pb_from_center_addr := Some a0\<rparr>)"
    "pb_yields m h
      (pure_member (CentersProto_set_center_status a1) m h) ((CentersProto_val m h)\<lparr>pb_center_status := Some a1\<rparr>)"
    "pb_yields m h
      (pure_member (CentersProto_set_center_action a2) m h) ((CentersProto_val m h)\<lparr>pb_center_action := Some a2\<rparr>)"
    "pb_yields m h
      (pure_member (CentersProto_set_start_time a3) m h) ((CentersProto_val m h)\<lparr>pb_start_time := Some a3\<rparr>)"
    "pb_yields m h
      (pure_member (CentersProto_set_lc_start_time a4) m h) ((CentersProto_val m h)\<lparr>pb_lc_start_time := Some a4\<rparr>)"
    "pb_yields m h
      (pure_member (CentersProto_set_logical_clock a5) m h) ((CentersProto_val m h)\<lparr>pb_logical_clock := Some a5\<rparr>)"
    "pb_yields m h (CentersProto_set_leader_center a6 m h) ((CentersProto_val m h)\<lparr>pb_leader_center := Some a6\<rparr>)"
    by ((rule pb_object.yields_pure [OF assms]; use fits in \<open>simp add: CentersProto_simps\<close>; fail)
     | (unfold CentersProto_strings, rule pb_object.yields_assign [OF assms,
       where ps = "[]" and qs = "[cpo_leader_center m]"]; use fits in \<open>simp add: CentersProto_simps\<close>; fail)
     | (unfold CentersProto_strings, rule pb_object.yields_assign [OF assms,
       where ps = "[cpo_from_center_addr m]" and qs = "[]"]; use fits in \<open>simp add: CentersProto_simps\<close>; fail))+
qed

lemma CentersProto_merge:
  assumes "pb_ok m h" "pb_ok n h" "apart CentersProto_strs m n"
  shows "pb_yields m h (CentersProto_obj_MergeFrom n m h) (CentersProto_MergeFrom (CentersProto_val n h) (CentersProto_val m h))"
proof -
  define w where "w = CentersProto_val n h"
  have w: "pb_from_center_addr w = field_if (CentersProto_has_from_center_addr n) (text_at h (cpo_from_center_addr n))"
    "pb_center_status w = field_if (CentersProto_has_center_status n) (cpo_center_status n)"
    "pb_center_action w = field_if (CentersProto_has_center_action n) (cpo_center_action n)"
    "pb_start_time w = field_if (CentersProto_has_start_time n) (cpo_start_time n)"
    "pb_lc_start_time w = field_if (CentersProto_has_lc_start_time n) (cpo_lc_start_time n)"
    "pb_logical_clock w = field_if (CentersProto_has_logical_clock n) (cpo_logical_clock n)"
    "pb_leader_center w = field_if (CentersProto_has_leader_center n) (text_at h (cpo_leader_center n))"
    "pb_server_infos_list w = cpo_server_infos_list n"
    "pb_lb_result w = cpo_lb_result n"
    "pb_unknown w = cpo_unknown_fields n"
    by (simp_all add: w_def CentersProto_val_def)
  let ?fs = "[member_if (CentersProto_has_from_center_addr n)
    (\<lambda>m h. and_then (CentersProto_from_center_addr n h) (\<lambda>v. CentersProto_set_from_center_addr v m h)),
      member_if (CentersProto_has_center_status n)
        (pure_member (CentersProto_set_center_status (CentersProto_center_status n))),
      member_if (CentersProto_has_center_action n)
        (pure_member (CentersProto_set_center_action (CentersProto_center_action n))),
      member_if (CentersProto_has_start_time n)
        (pure_member (CentersProto_set_start_time (CentersProto_start_time n))),
      member_if (CentersProto_has_lc_start_time n)
        (pure_member (CentersProto_set_lc_start_time (CentersProto_lc_start_time n))),
      member_if (CentersProto_has_logical_clock n)
        (pure_member (CentersProto_set_logical_clock (CentersProto_logical_clock n))),
      member_if (CentersProto_has_leader_center n) (\<lambda>m h. and_then (CentersProto_leader_center n h)
        (\<lambda>v. CentersProto_set_leader_center v m h))]"
  let ?gs = "[\<lambda>v. v\<lparr>pb_from_center_addr := merge_opt (pb_from_center_addr w) (pb_from_center_addr v)\<rparr>,
      \<lambda>v. v\<lparr>pb_center_status := merge_opt (pb_center_status w) (pb_center_status v)\<rparr>,
      \<lambda>v. v\<lparr>pb_center_action := merge_opt (pb_center_action w) (pb_center_action v)\<rparr>,
      \<lambda>v. v\<lparr>pb_start_time := merge_opt (pb_start_time w) (pb_start_time v)\<rparr>,
      \<lambda>v. v\<lparr>pb_lc_start_time := merge_opt (pb_lc_start_time w) (pb_lc_start_time v)\<rparr>,
      \<lambda>v. v\<lparr>pb_logical_clock := merge_opt (pb_logical_clock w) (pb_logical_clock v)\<rparr>,
      \<lambda>v. v\<lparr>pb_leader_center := merge_opt (pb_leader_center w) (pb_leader_center v)\<rparr>]"
  have scalars: "pb_object.copies n w (member_if (CentersProto_has_center_status n)
    (pure_member (CentersProto_set_center_status (CentersProto_center_status n))))
      (\<lambda>v. v\<lparr>pb_center_status := merge_opt (pb_center_status w) (pb_center_status v)\<rparr>)"
    "pb_object.copies n w (member_if (CentersProto_has_center_action n)
      (pure_member (CentersProto_set_center_action (CentersProto_center_action n))))
      (\<lambda>v. v\<lparr>pb_center_action := merge_opt (pb_center_action w) (pb_center_action v)\<rparr>)"
    "pb_object.copies n w (member_if (CentersProto_has_start_time n)
      (pure_member (CentersProto_set_start_time (CentersProto_start_time n))))
      (\<lambda>v. v\<lparr>pb_start_time := merge_opt (pb_start_time w) (pb_start_time v)\<rparr>)"
    "pb_object.copies n w (member_if (CentersProto_has_lc_start_time n)
      (pure_member (CentersProto_set_lc_start_time (CentersProto_lc_start_time n))))
      (\<lambda>v. v\<lparr>pb_lc_start_time := merge_opt (pb_lc_start_time w) (pb_lc_start_time v)\<rparr>)"
    "pb_object.copies n w (member_if (CentersProto_has_logical_clock n)
      (pure_member (CentersProto_set_logical_clock (CentersProto_logical_clock n))))
      (\<lambda>v. v\<lparr>pb_logical_clock := merge_opt (pb_logical_clock w) (pb_logical_clock v)\<rparr>)"
    by (rule pb_object.copies_access;
      use CentersProto_sets in \<open>simp add: w CentersProto_getters merge_opt_def fun_eq_iff\<close>)+
  have string0: "pb_object.copies n w (member_if (CentersProto_has_from_center_addr n)
    (\<lambda>m h. and_then (CentersProto_from_center_addr n h) (\<lambda>v. CentersProto_set_from_center_addr v m h)))
      (\<lambda>v. v\<lparr>pb_from_center_addr := merge_opt (pb_from_center_addr w) (pb_from_center_addr v)\<rparr>)"
  proof (rule pb_object.copies_string [where upd = "\<lambda>s v. v\<lparr>pb_from_center_addr := Some s\<rparr>"])
    fix h' assume "CentersProto_has_from_center_addr n" "pb_ok n h'" "CentersProto_val n h' = w"
    moreover then have "pb_from_center_addr w = Some (text_at h' (cpo_from_center_addr n))" by (auto simp: CentersProto_val_def)
    ultimately show "\<exists>v. CentersProto_from_center_addr n h' = Inr v \<and>
        (\<lambda>v. v\<lparr>pb_from_center_addr := merge_opt (pb_from_center_addr w) (pb_from_center_addr v)\<rparr>) = (\<lambda>u. u\<lparr>pb_from_center_addr := Some v\<rparr>)"
      using pb_object.msg_chars [of n h' "cpo_from_center_addr n"] by (simp add: CentersProto_getters merge_opt_def CentersProto_strs_def)
  qed (use CentersProto_sets in \<open>simp_all add: w merge_opt_def\<close>)
  have string6: "pb_object.copies n w (member_if (CentersProto_has_leader_center n)
    (\<lambda>m h. and_then (CentersProto_leader_center n h) (\<lambda>v. CentersProto_set_leader_center v m h)))
      (\<lambda>v. v\<lparr>pb_leader_center := merge_opt (pb_leader_center w) (pb_leader_center v)\<rparr>)"
  proof (rule pb_object.copies_string [where upd = "\<lambda>s v. v\<lparr>pb_leader_center := Some s\<rparr>"])
    fix h' assume "CentersProto_has_leader_center n" "pb_ok n h'" "CentersProto_val n h' = w"
    moreover then have "pb_leader_center w = Some (text_at h' (cpo_leader_center n))" by (auto simp: CentersProto_val_def)
    ultimately show "\<exists>v. CentersProto_leader_center n h' = Inr v \<and>
        (\<lambda>v. v\<lparr>pb_leader_center := merge_opt (pb_leader_center w) (pb_leader_center v)\<rparr>) = (\<lambda>u. u\<lparr>pb_leader_center := Some v\<rparr>)"
      using pb_object.msg_chars [of n h' "cpo_leader_center n"] by (simp add: CentersProto_getters merge_opt_def CentersProto_strs_def)
  qed (use CentersProto_sets in \<open>simp_all add: w merge_opt_def\<close>)
  have "pb_object.copies n w (in_order ?fs) (\<lambda>v. foldl (\<lambda>v g. g v) v ?gs)"
    using string0 scalars string6 by (intro pb_object.copies_list) simp
  moreover have "(\<lambda>v. foldl (\<lambda>v g. g v) v ?gs) = (\<lambda>v. v)" if none: "\<not> has_bit 0xff (cpo_has_bits n)"
    using has_bit_outside [OF none] by (simp add: w CentersProto_simps merge_opt_def fun_eq_iff)
  ultimately have first: "pb_object.copies n w (member_if (has_bit 0xff (cpo_has_bits n)) (in_order ?fs)) (\<lambda>v. foldl (\<lambda>v g. g v) v ?gs)"
    by (intro pb_object.copies_if)
  have repeated: "pb_object.copies n w
    (pure_member (\<lambda>m. m\<lparr>cpo_server_infos_list := cpo_server_infos_list m @ cpo_server_infos_list n,
    cpo_lb_result := cpo_lb_result m @ cpo_lb_result n\<rparr>))
      (\<lambda>v. v\<lparr>pb_server_infos_list := pb_server_infos_list v @ pb_server_infos_list w,
        pb_lb_result := pb_lb_result v @ pb_lb_result w\<rparr>)"
    by (rule pb_object.copies_pure) (simp_all add: CentersProto_simps w)
  have last: "pb_object.copies n w
    (pure_member (\<lambda>m. m\<lparr>cpo_unknown_fields := cpo_unknown_fields m @ cpo_unknown_fields n\<rparr>))
      (\<lambda>v. v\<lparr>pb_unknown := pb_unknown v @ pb_unknown w\<rparr>)"
    by (rule pb_object.copies_pure) (simp_all add: CentersProto_simps w)
  note all_fields = pb_object.copies_both(2) [OF repeated first last, folded CentersProto_obj_MergeFrom_def]
  have merged: "CentersProto_MergeFrom w = (\<lambda>v. (foldl (\<lambda>v g. g v) (v\<lparr>pb_server_infos_list := pb_server_infos_list v @ pb_server_infos_list w, pb_lb_result := pb_lb_result v @ pb_lb_result w\<rparr>) ?gs)
      \<lparr>pb_unknown := pb_unknown v @ pb_unknown w\<rparr>)"
    by (intro ext CentersProto_pb.equality) (simp_all add: CentersProto_MergeFrom_def)
  have "pb_object.copies n w (CentersProto_obj_MergeFrom n) (CentersProto_MergeFrom w)"
    unfolding merged using all_fields by simp
  from pb_object.copies_yields [OF this assms w_def [symmetric]] show ?thesis by (simp add: w_def)
qed

lemma CentersProto_clear:
  assumes "pb_ok m h"
  shows "pb_yields m h (CentersProto_obj_Clear m h) CentersProto_Clear"
proof -
  have ok: "strings_ok [cpo_from_center_addr m, cpo_leader_center m] h" and fits: "CentersProto_fits m h"
    using assms by (simp_all add: msg_ok_def CentersProto_strs_def)
  obtain h1 where h1: "CentersProto_has_from_center_addr m \<Longrightarrow> string_clear (cpo_from_center_addr m) h = Inr h1" "\<not> CentersProto_has_from_center_addr m \<Longrightarrow> h1 = h"
      "strings_ok [cpo_from_center_addr m, cpo_leader_center m] h1" "rest (own_strings [cpo_from_center_addr m,
        cpo_leader_center m]) h1 = rest (own_strings [cpo_from_center_addr m, cpo_leader_center m]) h"
      "text_at h1 (cpo_from_center_addr m) = []" "text_at h1 (cpo_leader_center m) = text_at h (cpo_leader_center m)"
    by (rule wipe_string [where ps = "[]" and qs = "[cpo_leader_center m]" and p = "cpo_from_center_addr m" and h = h and b = "CentersProto_has_from_center_addr m"])
      (use ok fits in \<open>simp_all add: CentersProto_fits_def\<close>)
  obtain h2 where h2: "CentersProto_has_leader_center m \<Longrightarrow> string_clear (cpo_leader_center m) h1 = Inr h2" "\<not> CentersProto_has_leader_center m \<Longrightarrow> h2 = h1"
      "strings_ok [cpo_from_center_addr m, cpo_leader_center m] h2" "rest (own_strings [cpo_from_center_addr m,
        cpo_leader_center m]) h2 = rest (own_strings [cpo_from_center_addr m, cpo_leader_center m]) h1"
      "text_at h2 (cpo_leader_center m) = []" "text_at h2 (cpo_from_center_addr m) = text_at h1 (cpo_from_center_addr m)"
    by (rule wipe_string [where ps = "[cpo_from_center_addr m]" and qs = "[]" and p = "cpo_leader_center m" and h = h1 and b = "CentersProto_has_leader_center m"])
      (use h1(3) fits in \<open>simp_all add: CentersProto_fits_def h1(6)\<close>)
  let ?m = "m\<lparr>cpo_center_status := LOOKING, cpo_center_action := INQUIRY, cpo_start_time := 0,
    cpo_lc_start_time := 0, cpo_logical_clock := 0, cpo_server_infos_list := [], cpo_lb_result := [],
    cpo_has_bits := 0, cpo_unknown_fields := []\<rparr>"
  have "CentersProto_obj_Clear m h = Inr (?m, h2)"
  proof (cases "has_bit 127 (cpo_has_bits m)")
    case True
    with h1(1,2) h2(1,2) show ?thesis
      by (cases "CentersProto_has_from_center_addr m"; cases "CentersProto_has_leader_center m"; simp add: CentersProto_obj_Clear_def member_if_def pure_member_def)
  next
    case none: False
    have "h2 = h" using h1(1,2) h2(1,2) has_bit_outside [OF none] by (simp add: CentersProto_simps)
    with fits has_bit_outside [OF none] none show ?thesis
      by (simp add: CentersProto_obj_Clear_def member_if_def CentersProto_simps)
  qed
  moreover have "CentersProto_fits ?m h2" "CentersProto_val ?m h2 = CentersProto_Clear"
    using h1(5-) h2(5-) by (simp_all add: CentersProto_simps CentersProto_Clear_def)
  ultimately show ?thesis
    using h1(3,4) h2(3,4) by (simp add: yields_def msg_ok_def CentersProto_strs_def del: own_strings_simps)
qed

lemma CentersProto_deletes:
  assumes "pb_ok m h"
  shows "\<exists>h'. CentersProto_delete m h = Inr h' \<and> strings_ok [] h' \<and> blocks h' = rest (own_strings (CentersProto_strs m)) h"
proof -
  have ok: "strings_ok [cpo_from_center_addr m,
    cpo_leader_center m] h" using assms by (simp add: msg_ok_def CentersProto_strs_def)
  obtain h1 where h1: "string_delete (cpo_from_center_addr m) h = Inr h1" "strings_ok [cpo_leader_center m] h1"
      "rest (own_strings [cpo_leader_center m]) h1 = rest (own_strings [cpo_from_center_addr m,
        cpo_leader_center m]) h"
    by (rule string_delete_ok [where ps = "[]" and qs = "[cpo_leader_center m]" and p = "cpo_from_center_addr m" and h = h]) (use ok in simp_all)
  obtain h2 where h2: "string_delete (cpo_leader_center m) h1 = Inr h2" "strings_ok [] h2"
      "rest (own_strings []) h2 = rest (own_strings [cpo_leader_center m]) h1"
    by (rule string_delete_ok [where ps = "[]" and qs = "[]" and p = "cpo_leader_center m" and h = h1]) (use h1(2) in simp_all)
  have "CentersProto_delete m h = Inr h2" using h1(1) h2(1) by (simp add: CentersProto_delete_def)
  moreover have "blocks h2 = rest (own_strings (CentersProto_strs m)) h"
    using h1(3) h2(3) by (simp add: CentersProto_strs_def del: own_strings_simps(2))
  ultimately show ?thesis using h2(2) by blast
qed

interpretation pb_class: generated_message CentersProto_strs CentersProto_fits CentersProto_val CentersProto_class CentersProto_accessors CentersProto_Clear CentersProto_MergeFrom
proof unfold_locales
  show "set (CentersProto_strs (new_object CentersProto_class)) \<subseteq> {GetEmptyString}"
    by (simp add: CentersProto_class_def CentersProto_new_def CentersProto_strs_def)
  show "blocks h GetEmptyString = Some (Chars []) \<Longrightarrow>
      CentersProto_fits (new_object CentersProto_class) h \<and> CentersProto_val (new_object CentersProto_class) h = CentersProto_Clear" for h
    by (simp add: CentersProto_class_def CentersProto_new_def CentersProto_simps CentersProto_Clear_def text_at_def)
  show "swap_members CentersProto_class m n = (n, m)" for m n
    by (simp add: CentersProto_class_def CentersProto_Swap_def)
qed (simp_all add: CentersProto_class_def CentersProto_access CentersProto_clear CentersProto_merge CentersProto_deletes)

text \<open>The getters read the message.\<close>

lemma CentersProto_getters_ok:
  assumes "pb_ok m h"
  shows "CentersProto_from_center_addr m h = Inr (from_center_addr (CentersProto_get (CentersProto_val m h)))"
    "CentersProto_center_status m = cp_center_status (CentersProto_get (CentersProto_val m h))"
    "CentersProto_center_action m = center_action (CentersProto_get (CentersProto_val m h))"
    "CentersProto_start_time m = cp_start_time (CentersProto_get (CentersProto_val m h))"
    "CentersProto_lc_start_time m = cp_lc_start_time (CentersProto_get (CentersProto_val m h))"
    "CentersProto_logical_clock m = cp_logical_clock (CentersProto_get (CentersProto_val m h))"
    "CentersProto_leader_center m h = Inr (cp_leader_center (CentersProto_get (CentersProto_val m h)))"
proof -
  have fits: "CentersProto_fits m h" using assms by (simp add: msg_ok_def)
  show "CentersProto_from_center_addr m h = Inr (from_center_addr (CentersProto_get (CentersProto_val m h)))"
    using fits pb_object.msg_chars [OF assms, of "cpo_from_center_addr m"]
    by (cases "CentersProto_has_from_center_addr m") (simp_all add: CentersProto_from_center_addr_def CentersProto_get_def CentersProto_strs_def CentersProto_val_def CentersProto_fits_def)
  show "CentersProto_center_status m = cp_center_status (CentersProto_get (CentersProto_val m h))"
    using fits
    by (cases "CentersProto_has_center_status m") (simp_all add: CentersProto_center_status_def CentersProto_get_def CentersProto_strs_def CentersProto_val_def CentersProto_fits_def)
  show "CentersProto_center_action m = center_action (CentersProto_get (CentersProto_val m h))"
    using fits
    by (cases "CentersProto_has_center_action m") (simp_all add: CentersProto_center_action_def CentersProto_get_def CentersProto_strs_def CentersProto_val_def CentersProto_fits_def)
  show "CentersProto_start_time m = cp_start_time (CentersProto_get (CentersProto_val m h))"
    using fits
    by (cases "CentersProto_has_start_time m") (simp_all add: CentersProto_start_time_def CentersProto_get_def CentersProto_strs_def CentersProto_val_def CentersProto_fits_def)
  show "CentersProto_lc_start_time m = cp_lc_start_time (CentersProto_get (CentersProto_val m h))"
    using fits
    by (cases "CentersProto_has_lc_start_time m") (simp_all add: CentersProto_lc_start_time_def CentersProto_get_def CentersProto_strs_def CentersProto_val_def CentersProto_fits_def)
  show "CentersProto_logical_clock m = cp_logical_clock (CentersProto_get (CentersProto_val m h))"
    using fits
    by (cases "CentersProto_has_logical_clock m") (simp_all add: CentersProto_logical_clock_def CentersProto_get_def CentersProto_strs_def CentersProto_val_def CentersProto_fits_def)
  show "CentersProto_leader_center m h = Inr (cp_leader_center (CentersProto_get (CentersProto_val m h)))"
    using fits pb_object.msg_chars [OF assms, of "cpo_leader_center m"]
    by (cases "CentersProto_has_leader_center m") (simp_all add: CentersProto_leader_center_def CentersProto_get_def CentersProto_strs_def CentersProto_val_def CentersProto_fits_def)
qed

subsection \<open>Programs over CentersProto objects\<close>

text \<open>C10: Whatever a program does with objects of the generated class CentersProto - construct, copy and swap them, call
  their accessors (also those that hand strings over: \<open>release_\<close> followed by a \<open>delete\<close>, and \<open>set_allocated_\<close>
  with a new string), Clear, MergeFrom another one, CopyFrom - it never touches a freed string, the objects are worth
  what the same steps give on messages, and when all of them are deleted the heap is as before.\<close>

theorem CentersProto_objects_are_messages:
  assumes "\<forall>a \<ge> next_addr h0. blocks h0 a = None" "blocks h0 GetEmptyString = Some (Chars [])"
    and "\<forall>x\<in>set xs. case x of Access i f g \<Rightarrow> (f, g) \<in> CentersProto_accessors | MergeInto i j \<Rightarrow> i \<noteq> j | _ \<Rightarrow> True"
  shows "\<exists>ms h h'. object_run CentersProto_class xs ([], h0) = Inr (ms, h) \<and>
    map (\<lambda>m. CentersProto_val m h) ms =
      foldl (\<lambda>vs x. value_step CentersProto_Clear CentersProto_MergeFrom x vs) [] xs \<and>
    delete_objects CentersProto_class ms h = Inr h' \<and> blocks h' = blocks h0"
proof (rule pb_class.objects_refine_values [OF assms(1,2)])
  show "\<forall>x\<in>set xs. pb_class.allowed x"
    using assms(3) by (auto simp: pb_class.allowed_def split: object_op.splits)
qed

definition sample_steps :: "(CentersProto_obj, CentersProto_pb) object_op list" where
  "sample_steps =
     [Make, Access 0 (CentersProto_set_from_center_addr ''c'') (\<lambda>m. m\<lparr>pb_from_center_addr := Some ''c''\<rparr>),
      MakeCopy 0,
      Access 0 (pure_member (CentersProto_set_logical_clock 7)) (\<lambda>m. m\<lparr>pb_logical_clock := Some 7\<rparr>),
      ClearAt 1, MergeInto 1 0, SwapAt 0 1]"

theorem CentersProto_objects_are_messages_witness:
  "\<exists>ms h h'. object_run CentersProto_class sample_steps ([], \<lparr>blocks = [GetEmptyString \<mapsto> Chars []], next_addr = 1\<rparr>)
      = Inr (ms, h) \<and>
    map (\<lambda>m. pb_from_center_addr (CentersProto_val m h)) ms = [Some ''c'', Some ''c''] \<and>
    map (\<lambda>m. pb_logical_clock (CentersProto_val m h)) ms = [Some 7, Some 7] \<and>
    delete_objects CentersProto_class ms h = Inr h' \<and> blocks h' = [GetEmptyString \<mapsto> Chars []]"
proof -
  let ?h0 = "\<lparr>blocks = [GetEmptyString \<mapsto> Chars []], next_addr = 1\<rparr> :: heap"
  have access: "(CentersProto_set_from_center_addr ''c'', \<lambda>m. m\<lparr>pb_from_center_addr := Some ''c''\<rparr>) \<in> CentersProto_accessors"
    "(pure_member (CentersProto_set_logical_clock 7), \<lambda>m. m\<lparr>pb_logical_clock := Some 7\<rparr>) \<in> CentersProto_accessors"
    by (unfold CentersProto_accessors_def mem_Collect_eq prod.case,
      ((rule disjI1, rule exI, rule refl) | rule disjI2)+)
  have allowed: "\<forall>x\<in>set sample_steps.
      case x of Access i f g \<Rightarrow> (f, g) \<in> CentersProto_accessors | MergeInto i j \<Rightarrow> i \<noteq> j | _ \<Rightarrow> True"
    unfolding sample_steps_def using access by simp
  have empty: "\<forall>a \<ge> next_addr ?h0. blocks ?h0 a = None" "blocks ?h0 GetEmptyString = Some (Chars [])"
    by (simp_all add: GetEmptyString_def)
  define v where "v = CentersProto_Clear\<lparr>pb_from_center_addr := Some ''c'', pb_logical_clock := Some 7\<rparr>"
  have results: "foldl (\<lambda>vs x. value_step CentersProto_Clear CentersProto_MergeFrom x vs) [] sample_steps = [v, v]"
    by (simp add: v_def sample_steps_def value_step_def value_at_op_def CentersProto_Clear_def CentersProto_MergeFrom_def
      merge_opt_def)
  obtain ms h h' where run: "object_run CentersProto_class sample_steps ([], ?h0) = Inr (ms, h)"
    "map (\<lambda>m. CentersProto_val m h) ms = [v, v]" "delete_objects CentersProto_class ms h = Inr h'"
    "blocks h' = blocks ?h0"
    using CentersProto_objects_are_messages [OF empty allowed] unfolding results
    by (elim exE conjE) (rule that, assumption+)
  have "map (\<lambda>m. pb_from_center_addr (CentersProto_val m h)) ms = [Some ''c'', Some ''c'']"
    "map (\<lambda>m. pb_logical_clock (CentersProto_val m h)) ms = [Some 7, Some 7]"
    using arg_cong [OF run(2), of "map pb_from_center_addr"] arg_cong [OF run(2), of "map pb_logical_clock"]
    by (simp_all add: v_def comp_def)
  with run show ?thesis by (intro exI conjI) simp_all
qed

end
