(* ===== verification/EchoObjects.thy ===== *)
theory EchoObjects
  imports EchoProto ProtoObjectsCorrect
begin

section \<open>The sample's messages as objects\<close>

text \<open>
  The accessors and members of the two classes of sample/proto/rpc\_sample.pb.h and .pb.cc, in the form of theory
  ProtoObjects, and the same contract for each.
\<close>

subsection \<open>EchoRequest\<close>

record EchoRequest_obj =
  ero_unknown_fields :: string
  ero_has_bits :: u32
  ero_cached_size :: int
  ero_request :: nat

definition EchoRequest_has_request :: "EchoRequest_obj \<Rightarrow> bool" where
  "EchoRequest_has_request m = has_bit 1 (ero_has_bits m)"

definition EchoRequest_set_has_request :: "EchoRequest_obj \<Rightarrow> EchoRequest_obj" where
  "EchoRequest_set_has_request m = m\<lparr>ero_has_bits := set_has_bit 1 (ero_has_bits m)\<rparr>"

definition EchoRequest_clear_has_request :: "EchoRequest_obj \<Rightarrow> EchoRequest_obj" where
  "EchoRequest_clear_has_request m = m\<lparr>ero_has_bits := clear_has_bit 1 (ero_has_bits m)\<rparr>"

definition EchoRequest_clear_request :: "EchoRequest_obj member" where
  "EchoRequest_clear_request m h =
     and_then (string_clear (ero_request m) h) (\<lambda>h. Inr (EchoRequest_clear_has_request m, h))"

definition EchoRequest_request :: "EchoRequest_obj \<Rightarrow> heap \<Rightarrow> fault + string" where
  "EchoRequest_request m h = chars h (ero_request m)"

definition EchoRequest_set_request :: "string \<Rightarrow> EchoRequest_obj member" where
  "EchoRequest_set_request v m h =
     and_then (string_assign (ero_request m) v h) (\<lambda>(p, h).
       Inr ((EchoRequest_set_has_request m)\<lparr>ero_request := p\<rparr>, h))"

definition EchoRequest_set_request_chars :: "string \<Rightarrow> EchoRequest_obj member" where
  "EchoRequest_set_request_chars v = EchoRequest_set_request (c_str v)"

definition EchoRequest_set_request_sized :: "string \<Rightarrow> nat \<Rightarrow> EchoRequest_obj member" where
  "EchoRequest_set_request_sized v n m h =
     and_then (sized v n) (\<lambda>v. EchoRequest_set_request v m h)"

definition EchoRequest_mutable_request :: "EchoRequest_obj \<Rightarrow> heap \<Rightarrow> nat \<times> EchoRequest_obj \<times> heap" where
  "EchoRequest_mutable_request m h =
     (case string_mutable (ero_request m) h of (p, h) \<Rightarrow> (p,
       (EchoRequest_set_has_request m)\<lparr>ero_request := p\<rparr>, h))"

definition EchoRequest_release_request :: "EchoRequest_obj \<Rightarrow> nat option \<times> EchoRequest_obj" where
  "EchoRequest_release_request m =
     (case string_release (ero_request m) of (temp, p) \<Rightarrow> (temp,
       (EchoRequest_clear_has_request m)\<lparr>ero_request := p\<rparr>))"

definition EchoRequest_set_allocated_request :: "nat option \<Rightarrow> EchoRequest_obj member" where
  "EchoRequest_set_allocated_request given m h =
     and_then (string_set_allocated (ero_request m) given h) (\<lambda>(is_set, p, h).
       Inr ((if is_set then EchoRequest_set_has_request m else EchoRequest_clear_has_request m)\<lparr>ero_request := p\<rparr>, h))"

definition EchoRequest_new :: "EchoRequest_obj" where
  "EchoRequest_new =
     \<lparr>ero_unknown_fields = [], ero_has_bits = 0, ero_cached_size = 0, ero_request = GetEmptyString\<rparr>"

definition EchoRequest_delete :: "EchoRequest_obj \<Rightarrow> heap \<Rightarrow> fault + heap" where
  "EchoRequest_delete m h = string_delete (ero_request m) h"

definition EchoRequest_obj_Clear :: "EchoRequest_obj member" where
  "EchoRequest_obj_Clear m h =
     and_then ((in_order
         [member_if (EchoRequest_has_request m) (\<lambda>m h. and_then (string_clear (ero_request m) h)
           (\<lambda>h. Inr (m, h)))]) m h)
       (\<lambda>(m, h). Inr (m\<lparr>ero_has_bits := 0, ero_unknown_fields := []\<rparr>, h))"

definition EchoRequest_obj_MergeFrom :: "EchoRequest_obj \<Rightarrow> EchoRequest_obj member" where
  "EchoRequest_obj_MergeFrom from_m = in_order
      [member_if (has_bit 0xff (ero_has_bits from_m)) (in_order
         [member_if (EchoRequest_has_request from_m) (\<lambda>m h. and_then (EchoRequest_request from_m h)
           (\<lambda>v. EchoRequest_set_request v m h))]),
       pure_member (\<lambda>m. m\<lparr>ero_unknown_fields := ero_unknown_fields m @ ero_unknown_fields from_m\<rparr>)]"

definition EchoRequest_obj_CopyFrom :: "bool \<Rightarrow> EchoRequest_obj \<Rightarrow> EchoRequest_obj member" where
  "EchoRequest_obj_CopyFrom itself from_m m h =
     (if itself then Inr (m, h) else in_order [EchoRequest_obj_Clear, EchoRequest_obj_MergeFrom from_m] m h)"

definition EchoRequest_copied :: "EchoRequest_obj \<Rightarrow> heap \<Rightarrow> fault + (EchoRequest_obj \<times> heap)" where
  "EchoRequest_copied from_m = EchoRequest_obj_MergeFrom from_m EchoRequest_new"

definition EchoRequest_Swap :: "EchoRequest_obj \<Rightarrow> EchoRequest_obj \<Rightarrow> EchoRequest_obj \<times> EchoRequest_obj" where
  "EchoRequest_Swap m other =
     (m\<lparr>ero_request := ero_request other, ero_has_bits := ero_has_bits other,
       ero_unknown_fields := ero_unknown_fields other, ero_cached_size := ero_cached_size other\<rparr>,
      other\<lparr>ero_request := ero_request m, ero_has_bits := ero_has_bits m,
        ero_unknown_fields := ero_unknown_fields m, ero_cached_size := ero_cached_size m\<rparr>)"

definition EchoRequest_strs :: "EchoRequest_obj \<Rightarrow> nat list" where
  "EchoRequest_strs m = [ero_request m]"

definition EchoRequest_fits :: "EchoRequest_obj \<Rightarrow> heap \<Rightarrow> bool" where
  "EchoRequest_fits m h \<longleftrightarrow>
     (\<not> EchoRequest_has_request m \<longrightarrow> text_at h (ero_request m) = [])"

definition EchoRequest_val :: "EchoRequest_obj \<Rightarrow> heap \<Rightarrow> EchoRequest_pb" where
  "EchoRequest_val m h =
     \<lparr>er_request = field_if (EchoRequest_has_request m) (text_at h (ero_request m)),
      er_unknown = ero_unknown_fields m\<rparr>"

definition EchoRequest_class :: "EchoRequest_obj message_class" where
  "EchoRequest_class = \<lparr>new_object = EchoRequest_new, clear_member = EchoRequest_obj_Clear,
    merge_member = EchoRequest_obj_MergeFrom,
     swap_members = EchoRequest_Swap, delete_object = EchoRequest_delete\<rparr>"

definition EchoRequest_accessors :: "(EchoRequest_obj member \<times> (EchoRequest_pb \<Rightarrow> EchoRequest_pb)) set" where
  "EchoRequest_accessors = {(f, g).
     (f, g) = (EchoRequest_clear_request, (\<lambda>m. m\<lparr>er_request := None\<rparr>)) \<or>
     (\<exists>v. (f, g) = (EchoRequest_set_request v, (\<lambda>m. m\<lparr>er_request := Some v\<rparr>))) \<or>
     (\<exists>v. (f, g) = (EchoRequest_set_request_chars v, (\<lambda>m. m\<lparr>er_request := Some (c_str v)\<rparr>))) \<or>
     (\<exists>v n. n \<le> length v \<and> (f, g) = (EchoRequest_set_request_sized v n,
       (\<lambda>m. m\<lparr>er_request := Some (take n v)\<rparr>))) \<or>
     (f, g) = (\<lambda>m h. case EchoRequest_mutable_request m h of (p, m, h) \<Rightarrow> Inr (m, h),
       (\<lambda>m. m\<lparr>er_request := Some (case er_request m of None \<Rightarrow> [] | Some s \<Rightarrow> s)\<rparr>)) \<or>
     (f, g) = (\<lambda>m h. case EchoRequest_release_request m of (p, m) \<Rightarrow> and_then (free_ptr p h) (\<lambda>h. Inr (m, h)),
       (\<lambda>m. m\<lparr>er_request := None\<rparr>)) \<or>
     (f, g) = (EchoRequest_set_allocated_request None, (\<lambda>m. m\<lparr>er_request := None\<rparr>)) \<or>
     (\<exists>v. (f, g) = (\<lambda>m h. case malloc (Chars v) h of (p, h) \<Rightarrow> EchoRequest_set_allocated_request (Some p) m h,
       (\<lambda>m. m\<lparr>er_request := Some v\<rparr>)))}"

subsection \<open>EchoResponse\<close>

record EchoResponse_obj =
  eso_unknown_fields :: string
  eso_has_bits :: u32
  eso_cached_size :: int
  eso_response :: nat

definition EchoResponse_has_response :: "EchoResponse_obj \<Rightarrow> bool" where
  "EchoResponse_has_response m = has_bit 1 (eso_has_bits m)"

definition EchoResponse_set_has_response :: "EchoResponse_obj \<Rightarrow> EchoResponse_obj" where
  "EchoResponse_set_has_response m = m\<lparr>eso_has_bits := set_has_bit 1 (eso_has_bits m)\<rparr>"

definition EchoResponse_clear_has_response :: "EchoResponse_obj \<Rightarrow> EchoResponse_obj" where
  "EchoResponse_clear_has_response m = m\<lparr>eso_has_bits := clear_has_bit 1 (eso_has_bits m)\<rparr>"

definition EchoResponse_clear_response :: "EchoResponse_obj member" where
  "EchoResponse_clear_response m h =
     and_then (string_clear (eso_response m) h) (\<lambda>h. Inr (EchoResponse_clear_has_response m, h))"

definition EchoResponse_response :: "EchoResponse_obj \<Rightarrow> heap \<Rightarrow> fault + string" where
  "EchoResponse_response m h = chars h (eso_response m)"

definition EchoResponse_set_response :: "string \<Rightarrow> EchoResponse_obj member" where
  "EchoResponse_set_response v m h =
     and_then (string_assign (eso_response m) v h) (\<lambda>(p, h).
       Inr ((EchoResponse_set_has_response m)\<lparr>eso_response := p\<rparr>, h))"

definition EchoResponse_set_response_chars :: "string \<Rightarrow> EchoResponse_obj member" where
  "EchoResponse_set_response_chars v = EchoResponse_set_response (c_str v)"

definition EchoResponse_set_response_sized :: "string \<Rightarrow> nat \<Rightarrow> EchoResponse_obj member" where
  "EchoResponse_set_response_sized v n m h =
     and_then (sized v n) (\<lambda>v. EchoResponse_set_response v m h)"

definition EchoResponse_mutable_response :: "EchoResponse_obj \<Rightarrow> heap \<Rightarrow> nat \<times> EchoResponse_obj \<times> heap" where
  "EchoResponse_mutable_response m h =
     (case string_mutable (eso_response m) h of (p, h) \<Rightarrow> (p,
       (EchoResponse_set_has_response m)\<lparr>eso_response := p\<rparr>, h))"

definition EchoResponse_release_response :: "EchoResponse_obj \<Rightarrow> nat option \<times> EchoResponse_obj" where
  "EchoResponse_release_response m =
     (case string_release (eso_response m) of (temp, p) \<Rightarrow> (temp,
       (EchoResponse_clear_has_response m)\<lparr>eso_response := p\<rparr>))"

definition EchoResponse_set_allocated_response :: "nat option \<Rightarrow> EchoResponse_obj member" where
  "EchoResponse_set_allocated_response given m h =
     and_then (string_set_allocated (eso_response m) given h) (\<lambda>(is_set, p, h).
       Inr ((if is_set then EchoResponse_set_has_response m else EchoResponse_clear_has_response m)\<lparr>eso_response := p\<rparr>, h))"

definition EchoResponse_new :: "EchoResponse_obj" where
  "EchoResponse_new =
     \<lparr>eso_unknown_fields = [], eso_has_bits = 0, eso_cached_size = 0, eso_response = GetEmptyString\<rparr>"

definition EchoResponse_delete :: "EchoResponse_obj \<Rightarrow> heap \<Rightarrow> fault + heap" where
  "EchoResponse_delete m h = string_delete (eso_response m) h"

definition EchoResponse_obj_Clear :: "EchoResponse_obj member" where
  "EchoResponse_obj_Clear m h =
     and_then ((in_order
         [member_if (EchoResponse_has_response m) (\<lambda>m h. and_then (string_clear (eso_response m) h)
           (\<lambda>h. Inr (m, h)))]) m h)
       (\<lambda>(m, h). Inr (m\<lparr>eso_has_bits := 0, eso_unknown_fields := []\<rparr>, h))"

definition EchoResponse_obj_MergeFrom :: "EchoResponse_obj \<Rightarrow> EchoResponse_obj member" where
  "EchoResponse_obj_MergeFrom from_m = in_order
      [member_if (has_bit 0xff (eso_has_bits from_m)) (in_order
         [member_if (EchoResponse_has_response from_m) (\<lambda>m h. and_then (EchoResponse_response from_m h)
           (\<lambda>v. EchoResponse_set_response v m h))]),
       pure_member (\<lambda>m. m\<lparr>eso_unknown_fields := eso_unknown_fields m @ eso_unknown_fields from_m\<rparr>)]"

definition EchoResponse_obj_CopyFrom :: "bool \<Rightarrow> EchoResponse_obj \<Rightarrow> EchoResponse_obj member" where
  "EchoResponse_obj_CopyFrom itself from_m m h =
     (if itself then Inr (m, h) else in_order [EchoResponse_obj_Clear, EchoResponse_obj_MergeFrom from_m] m h)"

definition EchoResponse_copied :: "EchoResponse_obj \<Rightarrow> heap \<Rightarrow> fault + (EchoResponse_obj \<times> heap)" where
  "EchoResponse_copied from_m = EchoResponse_obj_MergeFrom from_m EchoResponse_new"

definition EchoResponse_Swap :: "EchoResponse_obj \<Rightarrow> EchoResponse_obj \<Rightarrow> EchoResponse_obj \<times> EchoResponse_obj" where
  "EchoResponse_Swap m other =
     (m\<lparr>eso_response := eso_response other, eso_has_bits := eso_has_bits other,
       eso_unknown_fields := eso_unknown_fields other, eso_cached_size := eso_cached_size other\<rparr>,
      other\<lparr>eso_response := eso_response m, eso_has_bits := eso_has_bits m,
        eso_unknown_fields := eso_unknown_fields m, eso_cached_size := eso_cached_size m\<rparr>)"

definition EchoResponse_strs :: "EchoResponse_obj \<Rightarrow> nat list" where
  "EchoResponse_strs m = [eso_response m]"

definition EchoResponse_fits :: "EchoResponse_obj \<Rightarrow> heap \<Rightarrow> bool" where
  "EchoResponse_fits m h \<longleftrightarrow>
     (\<not> EchoResponse_has_response m \<longrightarrow> text_at h (eso_response m) = [])"

definition EchoResponse_val :: "EchoResponse_obj \<Rightarrow> heap \<Rightarrow> EchoResponse_pb" where
  "EchoResponse_val m h =
     \<lparr>es_response = field_if (EchoResponse_has_response m) (text_at h (eso_response m)),
      es_unknown = eso_unknown_fields m\<rparr>"

definition EchoResponse_class :: "EchoResponse_obj message_class" where
  "EchoResponse_class = \<lparr>new_object = EchoResponse_new, clear_member = EchoResponse_obj_Clear,
    merge_member = EchoResponse_obj_MergeFrom,
     swap_members = EchoResponse_Swap, delete_object = EchoResponse_delete\<rparr>"

definition EchoResponse_accessors :: "(EchoResponse_obj member \<times> (EchoResponse_pb \<Rightarrow> EchoResponse_pb)) set" where
  "EchoResponse_accessors = {(f, g).
     (f, g) = (EchoResponse_clear_response, (\<lambda>m. m\<lparr>es_response := None\<rparr>)) \<or>
     (\<exists>v. (f, g) = (EchoResponse_set_response v, (\<lambda>m. m\<lparr>es_response := Some v\<rparr>))) \<or>
     (\<exists>v. (f, g) = (EchoResponse_set_response_chars v, (\<lambda>m. m\<lparr>es_response := Some (c_str v)\<rparr>))) \<or>
     (\<exists>v n. n \<le> length v \<and> (f, g) = (EchoResponse_set_response_sized v n,
       (\<lambda>m. m\<lparr>es_response := Some (take n v)\<rparr>))) \<or>
     (f, g) = (\<lambda>m h. case EchoResponse_mutable_response m h of (p, m, h) \<Rightarrow> Inr (m, h),
       (\<lambda>m. m\<lparr>es_response := Some (case es_response m of None \<Rightarrow> [] | Some s \<Rightarrow> s)\<rparr>)) \<or>
     (f, g) = (\<lambda>m h. case EchoResponse_release_response m of (p, m) \<Rightarrow> and_then (free_ptr p h) (\<lambda>h. Inr (m, h)),
       (\<lambda>m. m\<lparr>es_response := None\<rparr>)) \<or>
     (f, g) = (EchoResponse_set_allocated_response None, (\<lambda>m. m\<lparr>es_response := None\<rparr>)) \<or>
     (\<exists>v. (f, g) = (\<lambda>m h. case malloc (Chars v) h of (p, h) \<Rightarrow> EchoResponse_set_allocated_response (Some p) m h,
       (\<lambda>m. m\<lparr>es_response := Some v\<rparr>)))}"

subsection \<open>EchoRequest keeps the contract\<close>

abbreviation "er_ok \<equiv> msg_ok EchoRequest_strs EchoRequest_fits"

abbreviation "er_yields \<equiv> yields EchoRequest_strs EchoRequest_fits EchoRequest_val"

interpretation er_object: string_message EchoRequest_strs EchoRequest_fits EchoRequest_val
  by unfold_locales (simp_all add: EchoRequest_strs_def EchoRequest_fits_def EchoRequest_val_def text_at_def)

lemmas EchoRequest_simps = EchoRequest_strs_def EchoRequest_fits_def EchoRequest_val_def
  EchoRequest_has_request_def EchoRequest_set_has_request_def EchoRequest_clear_has_request_def has_bit_simps

lemmas EchoRequest_strings = EchoRequest_clear_request_def EchoRequest_set_request_chars_def
  EchoRequest_set_request_sized_def EchoRequest_set_request_def EchoRequest_mutable_request_def
  EchoRequest_release_request_def EchoRequest_set_allocated_request_def

lemmas EchoRequest_getters = EchoRequest_request_def

lemma EchoRequest_access:
  assumes "(f, g) \<in> EchoRequest_accessors" "er_ok m h"
  shows "er_yields m h (f m h) (g (EchoRequest_val m h))"
proof -
  note ok = assms(2)
  note string_rules = er_object.yields_assign [OF ok] er_object.yields_mutable [OF ok] er_object.yields_clear [OF ok]
    er_object.yields_delete [OF ok] er_object.yields_given [OF ok]
  have fits: "EchoRequest_fits m h" using ok by (simp add: msg_ok_def)
  show ?thesis
    by (insert assms(1), unfold EchoRequest_accessors_def mem_Collect_eq prod.case,
      (elim disjE exE conjE Pair_inject; hypsubst;
       ((rule er_object.yields_pure [OF ok]; use fits in \<open>simp add: EchoRequest_simps\<close>; fail)
       | (unfold EchoRequest_strings, (simp only: sized_enough)?, (unfold member_shapes)?,
          (rule string_rules [where ps = "[]" and qs = "[]"];
            use fits in \<open>simp add: EchoRequest_simps field_if_def split: if_split\<close>; fail)))))
qed

lemma EchoRequest_sets:
  assumes "er_ok m h"
  shows "er_yields m h (EchoRequest_set_request a0 m h) ((EchoRequest_val m h)\<lparr>er_request := Some a0\<rparr>)"
proof -
  have fits: "EchoRequest_fits m h" using assms by (simp add: msg_ok_def)
  show "er_yields m h (EchoRequest_set_request a0 m h) ((EchoRequest_val m h)\<lparr>er_request := Some a0\<rparr>)"
    by ((rule er_object.yields_pure [OF assms]; use fits in \<open>simp add: EchoRequest_simps\<close>; fail)
     | (unfold EchoRequest_strings, rule er_object.yields_assign [OF assms,
       where ps = "[]" and qs = "[]"]; use fits in \<open>simp add: EchoRequest_simps\<close>; fail))+
qed

lemma EchoRequest_merge:
  assumes "er_ok m h" "er_ok n h" "apart EchoRequest_strs m n"
  shows "er_yields m h (EchoRequest_obj_MergeFrom n m h) (EchoRequest_MergeFrom (EchoRequest_val n h) (EchoRequest_val m h))"
proof -
  define w where "w = EchoRequest_val n h"
  have w: "er_request w = field_if (EchoRequest_has_request n) (text_at h (ero_request n))"
    "er_unknown w = ero_unknown_fields n"
    by (simp_all add: w_def EchoRequest_val_def)
  let ?fs = "[member_if (EchoRequest_has_request n) (\<lambda>m h. and_then (EchoRequest_request n h)
    (\<lambda>v. EchoRequest_set_request v m h))]"
  let ?gs = "[\<lambda>v. v\<lparr>er_request := merge_opt (er_request w) (er_request v)\<rparr>]"
  have string0: "er_object.copies n w (member_if (EchoRequest_has_request n)
    (\<lambda>m h. and_then (EchoRequest_request n h) (\<lambda>v. EchoRequest_set_request v m h)))
      (\<lambda>v. v\<lparr>er_request := merge_opt (er_request w) (er_request v)\<rparr>)"
  proof (rule er_object.copies_string [where upd = "\<lambda>s v. v\<lparr>er_request := Some s\<rparr>"])
    fix h' assume "EchoRequest_has_request n" "er_ok n h'" "EchoRequest_val n h' = w"
    moreover then have "er_request w = Some (text_at h' (ero_request n))" by (auto simp: EchoRequest_val_def)
    ultimately show "\<exists>v. EchoRequest_request n h' = Inr v \<and>
        (\<lambda>v. v\<lparr>er_request := merge_opt (er_request w) (er_request v)\<rparr>) = (\<lambda>u. u\<lparr>er_request := Some v\<rparr>)"
      using er_object.msg_chars [of n h' "ero_request n"] by (simp add: EchoRequest_getters merge_opt_def EchoRequest_strs_def)
  qed (use EchoRequest_sets in \<open>simp_all add: w merge_opt_def\<close>)
  have "er_object.copies n w (in_order ?fs) (\<lambda>v. foldl (\<lambda>v g. g v) v ?gs)"
    using string0 by (intro er_object.copies_list) simp
  moreover have "(\<lambda>v. foldl (\<lambda>v g. g v) v ?gs) = (\<lambda>v. v)" if none: "\<not> has_bit 0xff (ero_has_bits n)"
    using has_bit_outside [OF none] by (simp add: w EchoRequest_simps merge_opt_def fun_eq_iff)
  ultimately have first: "er_object.copies n w (member_if (has_bit 0xff (ero_has_bits n)) (in_order ?fs)) (\<lambda>v. foldl (\<lambda>v g. g v) v ?gs)"
    by (intro er_object.copies_if)
  have last: "er_object.copies n w
    (pure_member (\<lambda>m. m\<lparr>ero_unknown_fields := ero_unknown_fields m @ ero_unknown_fields n\<rparr>))
      (\<lambda>v. v\<lparr>er_unknown := er_unknown v @ er_unknown w\<rparr>)"
    by (rule er_object.copies_pure) (simp_all add: EchoRequest_simps w)
  note all_fields = er_object.copies_both(1) [OF first last, folded EchoRequest_obj_MergeFrom_def]
  have merged: "EchoRequest_MergeFrom w = (\<lambda>v. (foldl (\<lambda>v g. g v) (v) ?gs)
      \<lparr>er_unknown := er_unknown v @ er_unknown w\<rparr>)"
    by (intro ext EchoRequest_pb.equality) (simp_all add: EchoRequest_MergeFrom_def)
  have "er_object.copies n w (EchoRequest_obj_MergeFrom n) (EchoRequest_MergeFrom w)"
    unfolding merged using all_fields by simp
  from er_object.copies_yields [OF this assms w_def [symmetric]] show ?thesis by (simp add: w_def)
qed

lemma EchoRequest_clear:
  assumes "er_ok m h"
  shows "er_yields m h (EchoRequest_obj_Clear m h) EchoRequest_Clear"
proof -
  have ok: "strings_ok [ero_request m] h" and fits: "EchoRequest_fits m h"
    using assms by (simp_all add: msg_ok_def EchoRequest_strs_def)
  obtain h1 where h1: "EchoRequest_has_request m \<Longrightarrow> string_clear (ero_request m) h = Inr h1" "\<not> EchoRequest_has_request m \<Longrightarrow> h1 = h"
      "strings_ok [ero_request m] h1" "rest (own_strings [ero_request m]) h1 = rest (own_strings [ero_request m]) h"
      "text_at h1 (ero_request m) = []" 
    by (rule wipe_string [where ps = "[]" and qs = "[]" and p = "ero_request m" and h = h and b = "EchoRequest_has_request m"])
      (use ok fits in \<open>simp_all add: EchoRequest_fits_def\<close>)
  let ?m = "m\<lparr>ero_has_bits := 0, ero_unknown_fields := []\<rparr>"
  have "EchoRequest_obj_Clear m h = Inr (?m, h1)"
    using h1(1,2) by (cases "EchoRequest_has_request m"; simp add: EchoRequest_obj_Clear_def member_if_def pure_member_def)
  moreover have "EchoRequest_fits ?m h1" "EchoRequest_val ?m h1 = EchoRequest_Clear"
    using h1(5-) by (simp_all add: EchoRequest_simps EchoRequest_Clear_def)
  ultimately show ?thesis
    using h1(3,4) by (simp add: yields_def msg_ok_def EchoRequest_strs_def del: own_strings_simps)
qed

lemma EchoRequest_deletes:
  assumes "er_ok m h"
  shows "\<exists>h'. EchoRequest_delete m h = Inr h' \<and> strings_ok [] h' \<and> blocks h' = rest (own_strings (EchoRequest_strs m)) h"
proof -
  have ok: "strings_ok [ero_request m] h" using assms by (simp add: msg_ok_def EchoRequest_strs_def)
  obtain h1 where h1: "string_delete (ero_request m) h = Inr h1" "strings_ok [] h1"
      "rest (own_strings []) h1 = rest (own_strings [ero_request m]) h"
    by (rule string_delete_ok [where ps = "[]" and qs = "[]" and p = "ero_request m" and h = h]) (use ok in simp_all)
  have "EchoRequest_delete m h = Inr h1" using h1(1) by (simp add: EchoRequest_delete_def)
  moreover have "blocks h1 = rest (own_strings (EchoRequest_strs m)) h"
    using h1(3) by (simp add: EchoRequest_strs_def del: own_strings_simps(2))
  ultimately show ?thesis using h1(2) by blast
qed

interpretation er_class: generated_message EchoRequest_strs EchoRequest_fits EchoRequest_val EchoRequest_class EchoRequest_accessors EchoRequest_Clear EchoRequest_MergeFrom
proof unfold_locales
  show "set (EchoRequest_strs (new_object EchoRequest_class)) \<subseteq> {GetEmptyString}"
    by (simp add: EchoRequest_class_def EchoRequest_new_def EchoRequest_strs_def)
  show "blocks h GetEmptyString = Some (Chars []) \<Longrightarrow>
      EchoRequest_fits (new_object EchoRequest_class) h \<and> EchoRequest_val (new_object EchoRequest_class) h = EchoRequest_Clear" for h
    by (simp add: EchoRequest_class_def EchoRequest_new_def EchoRequest_simps EchoRequest_Clear_def text_at_def)
  show "swap_members EchoRequest_class m n = (n, m)" for m n
    by (simp add: EchoRequest_class_def EchoRequest_Swap_def)
qed (simp_all add: EchoRequest_class_def EchoRequest_access EchoRequest_clear EchoRequest_merge EchoRequest_deletes)

text \<open>The getters read the message.\<close>

lemma EchoRequest_getters_ok:
  assumes "er_ok m h"
  shows "EchoRequest_request m h = Inr ((EchoRequest_get (EchoRequest_val m h)))"
proof -
  have fits: "EchoRequest_fits m h" using assms by (simp add: msg_ok_def)
  show "EchoRequest_request m h = Inr ((EchoRequest_get (EchoRequest_val m h)))"
    using fits er_object.msg_chars [OF assms, of "ero_request m"]
    by (cases "EchoRequest_has_request m") (simp_all add: EchoRequest_request_def EchoRequest_get_def EchoRequest_strs_def EchoRequest_val_def EchoRequest_fits_def)
qed

subsection \<open>EchoResponse keeps the contract\<close>

abbreviation "es_ok \<equiv> msg_ok EchoResponse_strs EchoResponse_fits"

abbreviation "es_yields \<equiv> yields EchoResponse_strs EchoResponse_fits EchoResponse_val"

interpretation es_object: string_message EchoResponse_strs EchoResponse_fits EchoResponse_val
  by unfold_locales (simp_all add: EchoResponse_strs_def EchoResponse_fits_def EchoResponse_val_def text_at_def)

lemmas EchoResponse_simps = EchoResponse_strs_def EchoResponse_fits_def EchoResponse_val_def
  EchoResponse_has_response_def EchoResponse_set_has_response_def EchoResponse_clear_has_response_def
  has_bit_simps

lemmas EchoResponse_strings = EchoResponse_clear_response_def EchoResponse_set_response_chars_def
  EchoResponse_set_response_sized_def EchoResponse_set_response_def EchoResponse_mutable_response_def
  EchoResponse_release_response_def EchoResponse_set_allocated_response_def

lemmas EchoResponse_getters = EchoResponse_response_def

lemma EchoResponse_access:
  assumes "(f, g) \<in> EchoResponse_accessors" "es_ok m h"
  shows "es_yields m h (f m h) (g (EchoResponse_val m h))"
proof -
  note ok = assms(2)
  note string_rules = es_object.yields_assign [OF ok] es_object.yields_mutable [OF ok] es_object.yields_clear [OF ok]
    es_object.yields_delete [OF ok] es_object.yields_given [OF ok]
  have fits: "EchoResponse_fits m h" using ok by (simp add: msg_ok_def)
  show ?thesis
    by (insert assms(1), unfold EchoResponse_accessors_def mem_Collect_eq prod.case,
      (elim disjE exE conjE Pair_inject; hypsubst;
       ((rule es_object.yields_pure [OF ok]; use fits in \<open>simp add: EchoResponse_simps\<close>; fail)
       | (unfold EchoResponse_strings, (simp only: sized_enough)?, (unfold member_shapes)?,
          (rule string_rules [where ps = "[]" and qs = "[]"];
            use fits in \<open>simp add: EchoResponse_simps field_if_def split: if_split\<close>; fail)))))
qed

lemma EchoResponse_sets:
  assumes "es_ok m h"
  shows "es_yields m h (EchoResponse_set_response a0 m h) ((EchoResponse_val m h)\<lparr>es_response := Some a0\<rparr>)"
proof -
  have fits: "EchoResponse_fits m h" using assms by (simp add: msg_ok_def)
  show "es_yields m h (EchoResponse_set_response a0 m h) ((EchoResponse_val m h)\<lparr>es_response := Some a0\<rparr>)"
    by ((rule es_object.yields_pure [OF assms]; use fits in \<open>simp add: EchoResponse_simps\<close>; fail)
     | (unfold EchoResponse_strings, rule es_object.yields_assign [OF assms,
       where ps = "[]" and qs = "[]"]; use fits in \<open>simp add: EchoResponse_simps\<close>; fail))+
qed

lemma EchoResponse_merge:
  assumes "es_ok m h" "es_ok n h" "apart EchoResponse_strs m n"
  shows "es_yields m h (EchoResponse_obj_MergeFrom n m h) (EchoResponse_MergeFrom (EchoResponse_val n h) (EchoResponse_val m h))"
proof -
  define w where "w = EchoResponse_val n h"
  have w: "es_response w = field_if (EchoResponse_has_response n) (text_at h (eso_response n))"
    "es_unknown w = eso_unknown_fields n"
    by (simp_all add: w_def EchoResponse_val_def)
  let ?fs = "[member_if (EchoResponse_has_response n) (\<lambda>m h. and_then (EchoResponse_response n h)
    (\<lambda>v. EchoResponse_set_response v m h))]"
  let ?gs = "[\<lambda>v. v\<lparr>es_response := merge_opt (es_response w) (es_response v)\<rparr>]"
  have string0: "es_object.copies n w (member_if (EchoResponse_has_response n)
    (\<lambda>m h. and_then (EchoResponse_response n h) (\<lambda>v. EchoResponse_set_response v m h)))
      (\<lambda>v. v\<lparr>es_response := merge_opt (es_response w) (es_response v)\<rparr>)"
  proof (rule es_object.copies_string [where upd = "\<lambda>s v. v\<lparr>es_response := Some s\<rparr>"])
    fix h' assume "EchoResponse_has_response n" "es_ok n h'" "EchoResponse_val n h' = w"
    moreover then have "es_response w = Some (text_at h' (eso_response n))" by (auto simp: EchoResponse_val_def)
    ultimately show "\<exists>v. EchoResponse_response n h' = Inr v \<and>
        (\<lambda>v. v\<lparr>es_response := merge_opt (es_response w) (es_response v)\<rparr>) = (\<lambda>u. u\<lparr>es_response := Some v\<rparr>)"
      using es_object.msg_chars [of n h' "eso_response n"] by (simp add: EchoResponse_getters merge_opt_def EchoResponse_strs_def)
  qed (use EchoResponse_sets in \<open>simp_all add: w merge_opt_def\<close>)
  have "es_object.copies n w (in_order ?fs) (\<lambda>v. foldl (\<lambda>v g. g v) v ?gs)"
    using string0 by (intro es_object.copies_list) simp
  moreover have "(\<lambda>v. foldl (\<lambda>v g. g v) v ?gs) = (\<lambda>v. v)" if none: "\<not> has_bit 0xff (eso_has_bits n)"
    using has_bit_outside [OF none] by (simp add: w EchoResponse_simps merge_opt_def fun_eq_iff)
  ultimately have first: "es_object.copies n w (member_if (has_bit 0xff (eso_has_bits n)) (in_order ?fs)) (\<lambda>v. foldl (\<lambda>v g. g v) v ?gs)"
    by (intro es_object.copies_if)
  have last: "es_object.copies n w
    (pure_member (\<lambda>m. m\<lparr>eso_unknown_fields := eso_unknown_fields m @ eso_unknown_fields n\<rparr>))
      (\<lambda>v. v\<lparr>es_unknown := es_unknown v @ es_unknown w\<rparr>)"
    by (rule es_object.copies_pure) (simp_all add: EchoResponse_simps w)
  note all_fields = es_object.copies_both(1) [OF first last, folded EchoResponse_obj_MergeFrom_def]
  have merged: "EchoResponse_MergeFrom w = (\<lambda>v. (foldl (\<lambda>v g. g v) (v) ?gs)
      \<lparr>es_unknown := es_unknown v @ es_unknown w\<rparr>)"
    by (intro ext EchoResponse_pb.equality) (simp_all add: EchoResponse_MergeFrom_def)
  have "es_object.copies n w (EchoResponse_obj_MergeFrom n) (EchoResponse_MergeFrom w)"
    unfolding merged using all_fields by simp
  from es_object.copies_yields [OF this assms w_def [symmetric]] show ?thesis by (simp add: w_def)
qed

lemma EchoResponse_clear:
  assumes "es_ok m h"
  shows "es_yields m h (EchoResponse_obj_Clear m h) EchoResponse_Clear"
proof -
  have ok: "strings_ok [eso_response m] h" and fits: "EchoResponse_fits m h"
    using assms by (simp_all add: msg_ok_def EchoResponse_strs_def)
  obtain h1 where h1: "EchoResponse_has_response m \<Longrightarrow> string_clear (eso_response m) h = Inr h1" "\<not> EchoResponse_has_response m \<Longrightarrow> h1 = h"
      "strings_ok [eso_response m] h1" "rest (own_strings [eso_response m]) h1 = rest (own_strings [eso_response m]) h"
      "text_at h1 (eso_response m) = []" 
    by (rule wipe_string [where ps = "[]" and qs = "[]" and p = "eso_response m" and h = h and b = "EchoResponse_has_response m"])
      (use ok fits in \<open>simp_all add: EchoResponse_fits_def\<close>)
  let ?m = "m\<lparr>eso_has_bits := 0, eso_unknown_fields := []\<rparr>"
  have "EchoResponse_obj_Clear m h = Inr (?m, h1)"
    using h1(1,2) by (cases "EchoResponse_has_response m"; simp add: EchoResponse_obj_Clear_def member_if_def pure_member_def)
  moreover have "EchoResponse_fits ?m h1" "EchoResponse_val ?m h1 = EchoResponse_Clear"
    using h1(5-) by (simp_all add: EchoResponse_simps EchoResponse_Clear_def)
  ultimately show ?thesis
    using h1(3,4) by (simp add: yields_def msg_ok_def EchoResponse_strs_def del: own_strings_simps)
qed

lemma EchoResponse_deletes:
  assumes "es_ok m h"
  shows "\<exists>h'. EchoResponse_delete m h = Inr h' \<and> strings_ok [] h' \<and> blocks h' = rest (own_strings (EchoResponse_strs m)) h"
proof -
  have ok: "strings_ok [eso_response m] h" using assms by (simp add: msg_ok_def EchoResponse_strs_def)
  obtain h1 where h1: "string_delete (eso_response m) h = Inr h1" "strings_ok [] h1"
      "rest (own_strings []) h1 = rest (own_strings [eso_response m]) h"
    by (rule string_delete_ok [where ps = "[]" and qs = "[]" and p = "eso_response m" and h = h]) (use ok in simp_all)
  have "EchoResponse_delete m h = Inr h1" using h1(1) by (simp add: EchoResponse_delete_def)
  moreover have "blocks h1 = rest (own_strings (EchoResponse_strs m)) h"
    using h1(3) by (simp add: EchoResponse_strs_def del: own_strings_simps(2))
  ultimately show ?thesis using h1(2) by blast
qed

interpretation es_class: generated_message EchoResponse_strs EchoResponse_fits EchoResponse_val EchoResponse_class EchoResponse_accessors EchoResponse_Clear EchoResponse_MergeFrom
proof unfold_locales
  show "set (EchoResponse_strs (new_object EchoResponse_class)) \<subseteq> {GetEmptyString}"
    by (simp add: EchoResponse_class_def EchoResponse_new_def EchoResponse_strs_def)
  show "blocks h GetEmptyString = Some (Chars []) \<Longrightarrow>
      EchoResponse_fits (new_object EchoResponse_class) h \<and> EchoResponse_val (new_object EchoResponse_class) h = EchoResponse_Clear" for h
    by (simp add: EchoResponse_class_def EchoResponse_new_def EchoResponse_simps EchoResponse_Clear_def text_at_def)
  show "swap_members EchoResponse_class m n = (n, m)" for m n
    by (simp add: EchoResponse_class_def EchoResponse_Swap_def)
qed (simp_all add: EchoResponse_class_def EchoResponse_access EchoResponse_clear EchoResponse_merge EchoResponse_deletes)

text \<open>The getters read the message.\<close>

lemma EchoResponse_getters_ok:
  assumes "es_ok m h"
  shows "EchoResponse_response m h = Inr ((EchoResponse_get (EchoResponse_val m h)))"
proof -
  have fits: "EchoResponse_fits m h" using assms by (simp add: msg_ok_def)
  show "EchoResponse_response m h = Inr ((EchoResponse_get (EchoResponse_val m h)))"
    using fits es_object.msg_chars [OF assms, of "eso_response m"]
    by (cases "EchoResponse_has_response m") (simp_all add: EchoResponse_response_def EchoResponse_get_def EchoResponse_strs_def EchoResponse_val_def EchoResponse_fits_def)
qed

end
