(* ===== verification/Spec2Isabelle.thy ===== *)
theory Spec2Isabelle
  imports Hashing Wire Sockets Dictionary IniRoundtrip ConfigParser LoadBalancer Threads CenterThreads
    CenterSafety CenterServer EventThreads ThreadPoolSafety TimerSafety RpcServer Heartbeats RpcClient
    EndToEnd Locks Programs DictionaryHeap Addresses EventTeardown PoolInterleavings IniHeap
    ProtoArray EchoProto EchoObjects
begin

text \<open>
  libevrpc: a verification development.

  The program is an RPC framework of three kinds of processes. A cluster of centers (src/src/rpc\_center)
  elects a leader among themselves and tells clients and servers whom to talk to; RPC servers
  (src/src/rpc\_server) register with a center and answer calls; RPC clients (src/src/rpc\_client)
  ask a center for servers and call them. They share the message framing and hash functions of
  src/src/util and the configuration reader of src/src/config\_parser.

  Shared parts.

  Prelude: widths of integers, C strings, lines of a file, word lemmas, the theorem collections.

  Hashing: \<open>BKDRHash\<close> and \<open>MurMurHash2\<close> of util/rpc\_util.cpp, bit for bit in 32-bit words.

  Wire: the framing of util/rpc\_communication.cpp. \<open>RpcSend\<close> and \<open>RpcSendTo\<close> cut a string into
  \<open>MetaData\<close> blocks, \<open>RpcRecv\<close> and \<open>RpcRecvFrom\<close> rebuild it. The system calls are a function
  (results of \<open>send\<close>) and a list of events (results of \<open>recv\<close>). The offset of a block is an \<open>int\<close>, and its
  overflow a result of its own. The properties give the exact string a receiver gets, for which messages that
  is the one sent, for which it waits for ever, and from which length on the sender's offset overflows.

  Sockets: the other half of the same file, TCP and UDP sockets over the results of the system calls.
  The lemmas account for the descriptors opened and closed.

  Dictionary: the hash table of config\_parser/dictionary.cpp with its parallel arrays as lists,
  an invariant, and the refinement to a finite map, of every sequence of calls, through the locale \<open>string_store\<close>.

  DictionaryHeap: the same file with its memory. Keys, values and arrays are blocks of a heap; the operations
  refine those of theory Dictionary on the texts, they never use a freed block, and \<open>dictionary_del\<close> gives back
  exactly what was allocated. It also has the test program in the file.

  Addresses: \<open>GetLocalAddress\<close> and \<open>GetPeerAddr\<close>; the names of machines determine their addresses.

  Locks: the mutex, the read-write lock and the scope guards of util/pthread\_mutex.h and pthread\_rwlock.h over the
  POSIX functions. Threads take and leave guards in any order; what a lock promises is the locale \<open>guarded\<close>,
  interpreted on both kinds of lock.

  IniParser, IniRoundtrip, ConfigParser: config\_parser/iniparser.cpp, from \<open>sscanf\<close> patterns and
  line continuation to the typed getters, and the singleton over it. The lemmas show what a written
  dictionary becomes when it is loaded, what each getter gives for a file of plain sections, and which lines
  overflow a buffer or lose an error.

  IniHeap: the blocks that \<open>iniparser_line\<close>, \<open>iniparser_load\<close>, the string getter and the setters allocate
  and free, on the heap of DictionaryHeap. Loading refines theory IniParser, and with the destructor
  of \<open>ConfigParser\<close> it leaves the heap as it found it.

  OrdMap: \<open>std::map\<close> as a sorted list. Queues, Pools: a store of linked items with the pointer code
  that threads share, free lists and block allocation included. Undefined behaviour of C++ that the
  code can reach (null, wild or deleted pointers, end iterators, overflowing copies, reads past a buffer,
  division by zero), uncaught exceptions and waiting for ever are values of the type \<open>fault\<close>; writes
  before a block are collected in the field \<open>stray\<close> of the store. Threads: the class \<open>Thread\<close> of
  util/thread.h as a step relation.

  EventThreads: the connections of an accepting thread, as \<open>DispatchThread\<close> keeps them; the events of libev
  are a list. The center's accepting thread has the same code. EventTeardown: the destructor, which frees one by one
  what was allocated in blocks of four.

  The center.

  LoadBalancer: the consistent-hash ring of rpc\_center/load\_balancer. The abstract class
  \<open>LoadBalancer\<close> is the locale \<open>balancer\<close>, interpreted on \<open>ConsistentHashLoadBalancer\<close>.

  Proto: the messages and enums of center\_proto as records and datatypes. Serialising and
  parsing are parameters (fields of \<open>center_env\<close> and of the codecs of theory Heartbeats); where a property
  needs that a center parses what another one serialised, it has the hypothesis \<open>same_messages\<close>.

  Protobuf, ProtobufCorrect, Base128, CenterWire: the generated code of center\_proto/*.pb.cc. A message is a
  record with its has-bits as options; for each there are \<open>Clear\<close>, the getters, \<open>Serialize\<close>, \<open>ByteSize\<close>, the
  parser, \<open>MergeFrom\<close> and \<open>CopyFrom\<close>. The functions of the protobuf library they call are the record \<open>wire_lib\<close>, and the
  locale \<open>wire_format\<close> has the documented laws of the encoding, interpreted on the base-128 encoding written
  out in Base128. The properties are the round trip, that parsing messages sent one
  after the other merges them, that the parser always ends, and, with the framing of
  theory Wire in between, which messages of the centers and servers arrive and which do not.

  ProtoFields, ProtoClasses, ProtoObjects, ProtoObjectsCorrect: the same generated classes as objects, with the
  accessors of center\_proto/*.pb.h. A string field is a pointer on the heap of DictionaryHeap, shared by all
  messages while it is empty, and a word has the has-bits. What a class promises is the locale \<open>generated_message\<close>:
  members work on the strings of their own object and do to its value what theory Protobuf says. It is
  interpreted on each class; a program over any number of objects then refines one over messages, never uses a
  freed string, and gives back all memory.

  ProtoArray: the variant of \<open>Serialize\<close> that writes into an array without looking at its end, with the array and its
  overflow. The property says how much room it needs.

  CenterThreads: the election thread and the leader thread. The locale \<open>fifo\<close> is the queue a thread
  relies on; it is interpreted on the queues of both threads.

  RpcCenter, CenterElection, CenterRequests: every method of the class \<open>RpcCenter\<close>
  (rpc\_center/rpc\_center.cpp), one definition each, on the record \<open>rpc_center\<close>. The fields are
  those of the class, with the pair \<open>LeaderInfos\<close> flattened and the locks left out: a handler is one
  step. What a handler does outside is the list \<open>trace\<close> of effects, and what the system answers comes
  from the record \<open>center_env\<close>, indexed by the number of effects so far. Iteration over an unordered
  container follows an order that is a parameter.

  CenterSafety: all centers of a cluster as a step relation whose steps are the handlers. Messages
  may be reordered, repeated and lost. Its properties are about every reachable state.

  CenterServer: the center's accepting thread over the connections and the handlers, and the reporter
  thread.

  The RPC server.

  ThreadPool, ThreadPoolSafety: rpc\_server/libev\_thread\_pool.cpp. Dispatching, the callbacks of the
  threads and their returns are the operations of a run in any order, without restarts; an invariant
  over the store of request items gives what every thread serves. Of \<open>RestartThread\<close> there is the request.

  PoolThreads, PoolInterleavings: the same file under every interleaving. Here a step of a thread is one access to
  what the threads share: a section under a mutex, a read or write of \<open>current_thread_\<close>, a byte in a pipe. Of libev
  it has what the manual says of \<open>ev_run\<close>, \<open>ev_break\<close> and \<open>ev_loop_destroy\<close>. An invariant says who
  owns each request item at each moment. The lemmas account for every call, as entered once or still on its way, and for every
  write outside a block; one dispatching thread gives the turns of theory ThreadPool and two need not, and a restart
  asked for twice makes a thread run on a destroyed loop.

  Timers, TimerSafety: rpc\_server/connection\_timer\_manager.cpp, buffers, buckets and the two loops; a
  crawl refines an update of one map from keys to timers.

  RpcServer: rpc\_server/rpc\_server.cpp, the method table and the way of a call from the accepting thread
  through the pools to the processor. The generated code of a service is the record \<open>RpcMethod\<close>.

  Heartbeats: the threads by which clients and servers hear of centers (center\_client\_heartbeat.cpp,
  center\_cluster\_heartbeat.cpp) and by which clients keep their connections (rpc\_heartbeat\_client.cpp,
  rpc\_heartbeat\_server.cpp). Each turn of a loop has its own record of what the system answers.

  The RPC client.

  RpcClient: the controllers, the channel with its synchronous and asynchronous calls, and the client object
  (rpc\_client). An asynchronous call is a worker that sends in one step and receives in a later one.

  All together.

  EndToEnd: the reachable states of the centers with the servers that register and the clients that ask. A server
  is turned away and a client of the distributed mode finds no server.

  Programs: the main functions, of the center's daemon (rpc\_center/rpc\_center\_server.cc) and of the sample server
  and client (sample/src), which compose the parts above.

  EchoProto, EchoObjects: the messages of the sample (sample/proto/rpc\_sample.pb.cc), as values and as objects, its
  generated service, and the whole call of the sample client to the sample server, byte for byte.

  Bounds and fuel. \<open>ElectionThread_loop\<close>, \<open>LeaderThread_loop\<close>, \<open>reporter_loop\<close> and \<open>LibevWorker\<close> take the
  number of rounds as an argument; no property assumes that enough was given: for the reporter twelve rounds are
  shown to be needed and enough, for a worker at shutdown one more than the calls dispatched. \<open>connect_tries\<close>
  takes the number of attempts as fuel; the property says for every outcome how many are enough, or that
  no number is. \<open>timer_rounds\<close>, \<open>client_turns\<close> and \<open>cluster_turns\<close> run over a list with the
  answers of the system, one element a round; 60 rounds visit every bucket of the timers. The parser is a
  \<open>partial_function\<close> without fuel, shown to return. The loops of the destructor of \<open>DispatchThread\<close> get as many
  rounds as items were handed out, and never run out of them.

  Not modelled: the locks inside the handlers of the other parts, and, outside of the thread pool, the instants
  between two statements of one handler; in the thread pool, a call dispatched while \<open>Start\<close> is still setting up
  the threads; allocation that fails, except where the model says so; copies that are one byte too long for their
  block (the terminator), except where the model says so; sleeping; destructors that only join and free; of the generated
  code the descriptors, the reflection, the default instances, the pointers to whole repeated fields, strings set
  from a null pointer, and the memory inside the library's repeated fields and unknown fields; the class
  \<open>RpcController\<close> of util/rpc\_controller.cpp, whose bodies are empty and which nothing uses; \<open>PrintErrorInfo\<close>; the
  unit test.
\<close>

end
